(* ===== verification/C_Int.thy ===== *)
theory C_Int
  imports Main "HOL-Library.Signed_Division"
begin

text \<open>
  The C integer types the code uses, and the generic lemmas every component shares.

  A C integer is an \<open>int\<close> together with the conversion of its type: \<open>s8\<close>, \<open>s16\<close>,
  \<open>s32\<close> are the conversions to \<open>int8_t\<close>, \<open>int16_t\<close>, \<open>int32_t\<close> (two's complement, as every
  compiler the code is built with does), \<open>u8\<close>, \<open>u16\<close>, \<open>u32\<close> those to the unsigned types.
  Wherever the source stores into a variable, casts, or does 32 bit arithmetic that could leave the
  type's range, the model applies the conversion; where it is omitted the C expression cannot leave
  its type's range. Signed overflow, undefined in C, is the wrap-around that the code relies on
  (\<open>WebRtcSpl_AddSatW32\<close>, for example).
  \<open>shr\<close> is C's \<open>>>\<close> (arithmetic on signed values), \<open>shl\<close> is \<open><<\<close> before its
  result is converted; C's truncating \<open>/\<close> is the library's \<open>sdiv\<close>.

  Arrays are lists. A loop \<open>for (i = a; i < b; i++)\<close> over indices is a \<open>fold\<close> over
  \<open>[a..<b]\<close>, a loop that walks pointers is a structural recursion.
\<close>

unbundle bit_operations_syntax

named_theorems range_simps \<open>ranges of the C conversions\<close>
named_theorems conv_id \<open>conversions that do nothing on values of the type\<close>

section \<open>Conversions\<close>

definition s8 :: "int \<Rightarrow> int" where
  "s8 x = (x + 128) mod 256 - 128"

definition s16 :: "int \<Rightarrow> int" where
  "s16 x = (x + 32768) mod 65536 - 32768"

definition s32 :: "int \<Rightarrow> int" where
  "s32 x = (x + 2147483648) mod 4294967296 - 2147483648"

definition u8 :: "int \<Rightarrow> int" where
  "u8 x = x mod 256"

definition u16 :: "int \<Rightarrow> int" where
  "u16 x = x mod 65536"

definition u32 :: "int \<Rightarrow> int" where
  "u32 x = x mod 4294967296"

definition is_s16 :: "int \<Rightarrow> bool" where
  "is_s16 x \<longleftrightarrow> -32768 \<le> x \<and> x \<le> 32767"

definition is_s32 :: "int \<Rightarrow> bool" where
  "is_s32 x \<longleftrightarrow> -2147483648 \<le> x \<and> x \<le> 2147483647"

definition is_u8 :: "int \<Rightarrow> bool" where
  "is_u8 x \<longleftrightarrow> 0 \<le> x \<and> x \<le> 255"

definition is_u16 :: "int \<Rightarrow> bool" where
  "is_u16 x \<longleftrightarrow> 0 \<le> x \<and> x \<le> 65535"

definition is_u32 :: "int \<Rightarrow> bool" where
  "is_u32 x \<longleftrightarrow> 0 \<le> x \<and> x \<le> 4294967295"

definition shr :: "int \<Rightarrow> nat \<Rightarrow> int" where
  "shr x n = x div 2 ^ n"

definition shl :: "int \<Rightarrow> nat \<Rightarrow> int" where
  "shl x n = x * 2 ^ n"

text \<open>The conversions agree with the library's bit truncation.\<close>

lemma s16_signed_take_bit: "s16 x = signed_take_bit 15 x"
  by (simp add: s16_def signed_take_bit_eq_take_bit_shift take_bit_eq_mod)

lemma s32_signed_take_bit: "s32 x = signed_take_bit 31 x"
  by (simp add: s32_def signed_take_bit_eq_take_bit_shift take_bit_eq_mod)

lemma u16_take_bit: "u16 x = take_bit 16 x"
  by (simp add: u16_def take_bit_eq_mod)

lemma u32_take_bit: "u32 x = take_bit 32 x"
  by (simp add: u32_def take_bit_eq_mod)

lemma shr_drop_bit: "shr x n = drop_bit n x"
  by (simp add: shr_def drop_bit_eq_div)

lemma shl_push_bit: "shl x n = push_bit n x"
  by (simp add: shl_def push_bit_eq_mult)

section \<open>Ranges and identities\<close>

lemma is_s16_s16 [simp, range_simps]: "is_s16 (s16 x)"
  using pos_mod_sign [of 65536 "x + 32768"] pos_mod_bound [of 65536 "x + 32768"]
  unfolding is_s16_def s16_def by linarith

lemma is_s32_s32 [simp, range_simps]: "is_s32 (s32 x)"
  using pos_mod_sign [of 4294967296 "x + 2147483648"]
    pos_mod_bound [of 4294967296 "x + 2147483648"]
  unfolding is_s32_def s32_def by linarith

lemma is_u8_u8 [simp, range_simps]: "is_u8 (u8 x)"
  using pos_mod_bound [of 256 x] by (simp add: is_u8_def u8_def)

lemma is_u16_u16 [simp, range_simps]: "is_u16 (u16 x)"
  using pos_mod_bound [of 65536 x] by (simp add: is_u16_def u16_def)

lemma is_u32_u32 [simp, range_simps]: "is_u32 (u32 x)"
  using pos_mod_bound [of 4294967296 x] by (simp add: is_u32_def u32_def)

lemma s16_bounds: "-32768 \<le> s16 x" "s16 x \<le> 32767"
  using is_s16_s16 [of x] by (simp_all add: is_s16_def)

lemma s32_bounds: "-2147483648 \<le> s32 x" "s32 x \<le> 2147483647"
  using is_s32_s32 [of x] by (simp_all add: is_s32_def)

lemma s16_id [conv_id]: "-32768 \<le> x \<Longrightarrow> x \<le> 32767 \<Longrightarrow> s16 x = x"
  by (simp add: s16_def)

lemma s32_id [conv_id]: "-2147483648 \<le> x \<Longrightarrow> x \<le> 2147483647 \<Longrightarrow> s32 x = x"
  by (simp add: s32_def)

lemma u8_id [conv_id]: "0 \<le> x \<Longrightarrow> x \<le> 255 \<Longrightarrow> u8 x = x"
  by (simp add: u8_def)

lemma u16_id [conv_id]: "0 \<le> x \<Longrightarrow> x \<le> 65535 \<Longrightarrow> u16 x = x"
  by (simp add: u16_def)

lemma u32_id [conv_id]: "0 \<le> x \<Longrightarrow> x \<le> 4294967295 \<Longrightarrow> u32 x = x"
  by (simp add: u32_def)

lemma s16_iff: "s16 x = x \<longleftrightarrow> is_s16 x"
  using is_s16_s16 [of x] by (auto simp: is_s16_def s16_id)

lemma s32_iff: "s32 x = x \<longleftrightarrow> is_s32 x"
  using is_s32_s32 [of x] by (auto simp: is_s32_def s32_id)

lemma s16_conv: "is_s16 x \<Longrightarrow> s16 x = x"
  by (simp add: s16_iff)

lemma s32_conv: "is_s32 x \<Longrightarrow> s32 x = x"
  by (simp add: s32_iff)

lemma s16_s16 [simp]: "s16 (s16 x) = s16 x"
  by (simp add: s16_iff)

lemma s32_s32 [simp]: "s32 (s32 x) = s32 x"
  by (simp add: s32_iff)

lemma s16_s32 [simp]: "s16 (s32 x) = s16 x"
  by (simp add: s16_signed_take_bit s32_signed_take_bit)

lemma is_s32_s16 [simp]: "is_s32 (s16 x)"
  using s16_bounds [of x] by (simp add: is_s32_def)

lemma is_s16_imp_is_s32: "is_s16 x \<Longrightarrow> is_s32 x"
  by (simp add: is_s16_def is_s32_def)

text \<open>A value just outside the range wraps once.\<close>

lemma s32_period: "s32 (x + 4294967296 * k) = s32 x"
proof -
  have "x + 4294967296 * k + 2147483648 = (x + 2147483648) + 4294967296 * k" by simp
  then show ?thesis unfolding s32_def by (metis mod_mult_self2)
qed

lemma u32_period: "u32 (x + 4294967296 * k) = u32 x"
  by (simp add: u32_def)

lemma s32_wrap_up: "2147483648 \<le> x \<Longrightarrow> x < 6442450944 \<Longrightarrow> s32 x = x - 4294967296"
  using s32_period [of x "-1"] by (simp add: s32_id)

lemma s16_wrap_up: "32768 \<le> x \<Longrightarrow> x < 98304 \<Longrightarrow> s16 x = x - 65536"
proof -
  assume x: "32768 \<le> x" "x < 98304"
  have "(x + 32768) mod 65536 = x - 32768"
    using x by (intro int_mod_pos_eq [where q = 1]) auto
  then show ?thesis by (simp add: s16_def)
qed

lemma s32_wrap_down: "-6442450944 \<le> x \<Longrightarrow> x < -2147483648 \<Longrightarrow> s32 x = x + 4294967296"
  using s32_period [of x 1] by (simp add: s32_id)

lemma u32_wrap_down: "-4294967296 \<le> x \<Longrightarrow> x < 0 \<Longrightarrow> u32 x = x + 4294967296"
  using u32_period [of x 1] by (simp add: u32_id)

text \<open>Products of two 16 bit values fit 32 bits.\<close>

lemma abs_mult_le: "\<bar>a\<bar> \<le> m \<Longrightarrow> \<bar>b\<bar> \<le> n \<Longrightarrow> \<bar>a * b\<bar> \<le> m * (n::int)"
  by (simp add: abs_mult mult_mono)

lemma abs_mult_s16: "is_s16 a \<Longrightarrow> is_s16 b \<Longrightarrow> \<bar>a * b\<bar> \<le> 1073741824"
  using abs_mult_le [of a 32768 b 32768] by (simp add: is_s16_def abs_le_iff)

lemma mult_s16_s32 [conv_id]: "is_s16 a \<Longrightarrow> is_s16 b \<Longrightarrow> s32 (a * b) = a * b"
  using abs_mult_s16 [of a b] by (simp add: s32_id abs_le_iff)

section \<open>Shifts\<close>

lemma shr_0 [simp]: "shr x 0 = x" "shr 0 n = 0"
  by (simp_all add: shr_def)

lemma shl_0 [simp]: "shl x 0 = x" "shl 0 n = 0"
  by (simp_all add: shl_def)

lemma shr_nonneg [simp]: "0 \<le> shr x n \<longleftrightarrow> 0 \<le> x"
  by (simp add: shr_def pos_imp_zdiv_nonneg_iff)

lemma shr_mono: "x \<le> y \<Longrightarrow> shr x n \<le> shr y n"
  by (simp add: shr_def zdiv_mono1)

lemma shr_shr: "shr (shr x m) n = shr x (m + n)"
  by (simp add: shr_def power_add zdiv_zmult2_eq)

lemma le_div_iff:
  fixes d :: int
  assumes "0 < d"
  shows "m \<le> x div d \<longleftrightarrow> m * d \<le> x"
proof
  assume "m \<le> x div d"
  then have "m * d \<le> (x div d) * d" using assms by simp
  also have "\<dots> \<le> x" using assms by (simp add: minus_mod_eq_div_mult [symmetric])
  finally show "m * d \<le> x" .
next
  assume "m * d \<le> x"
  then have "(m * d) div d \<le> x div d" using assms by (intro zdiv_mono1)
  then show "m \<le> x div d" using assms by simp
qed

lemma div_less_iff: "0 < d \<Longrightarrow> x div d < m \<longleftrightarrow> x < m * (d :: int)"
  using le_div_iff [of d m x] by linarith

lemma le_shr_iff: "m \<le> shr x n \<longleftrightarrow> m * 2 ^ n \<le> x"
  by (simp add: shr_def le_div_iff)

lemma shr_less_iff: "shr x n < m \<longleftrightarrow> x < m * 2 ^ n"
  using le_shr_iff [of m x n] by (simp flip: not_le)

lemma abs_shr_le: "\<bar>shr x n\<bar> \<le> \<bar>x\<bar>"
proof (cases "0 \<le> x")
  case True
  then have "x * 1 \<le> x * 2 ^ n" by (intro mult_left_mono) auto
  moreover have "0 < (2 :: int) ^ n" by simp
  ultimately have "x < (x + 1) * 2 ^ n" unfolding distrib_right by linarith
  then have "shr x n < x + 1" by (simp only: shr_less_iff)
  with True show ?thesis by simp
next
  case False
  then have "x * 2 ^ n \<le> x * 1" by (intro mult_left_mono_neg) auto
  then have "x \<le> shr x n" by (simp add: le_shr_iff)
  moreover have "shr x n < 0" using False by (simp add: shr_less_iff)
  ultimately show ?thesis by simp
qed

lemma shr_bounds: "- (m * 2 ^ n) \<le> x \<Longrightarrow> x < m * 2 ^ n \<Longrightarrow> - m \<le> shr x n \<and> shr x n < m"
  by (simp add: le_shr_iff shr_less_iff)

section \<open>Masks\<close>

text \<open>The code tests the high bits of a value with masks of the form \<open>2\<^sup>w - 2\<^sup>k\<close>.\<close>

lemma and_high_mask_eq_0:
  assumes "k \<le> w" and "0 \<le> x" and "x < 2 ^ w"
  shows "(2 ^ w - 2 ^ k) AND x = 0 \<longleftrightarrow> x < (2 ^ k :: int)"
proof -
  have hm: "2 ^ w - 2 ^ k = push_bit k (mask (w - k) :: int)"
    using assms(1) by (simp add: push_bit_eq_mult mask_eq_exp_minus_1 left_diff_distrib
        flip: power_add)
  have "x div 2 ^ k < 2 ^ (w - k)"
    using assms shr_less_iff [of x k "2 ^ (w - k)"] by (simp add: shr_def flip: power_add)
  then have tb: "take_bit (w - k) (drop_bit k x) = drop_bit k x"
    using assms by (simp add: take_bit_int_eq_self_iff drop_bit_eq_div
        pos_imp_zdiv_nonneg_iff)
  have "push_bit k (mask (w - k)) AND x = push_bit k (take_bit (w - k) (drop_bit k x))"
    by (rule bit_eqI) (auto simp: bit_simps)
  also have "\<dots> = push_bit k (drop_bit k x)" by (simp only: tb)
  also have "push_bit k (drop_bit k x) = 0 \<longleftrightarrow> x < 2 ^ k"
    using assms by (auto simp: push_bit_eq_mult drop_bit_eq_div
        zdiv_eq_0_iff not_less)
  finally show ?thesis by (simp add: hm)
qed

lemma and_low_mask: "x AND (2 ^ k - 1) = x mod (2 ^ k :: int)"
  using take_bit_eq_mask [of k x] by (simp add: take_bit_eq_mod mask_eq_exp_minus_1)

lemma or_high_bits:
  assumes "0 \<le> r" and "r < 2 ^ n"
  shows "a * 2 ^ n OR r = a * 2 ^ n + (r :: int)"
proof -
  have "push_bit n a AND take_bit n r = 0" by (rule bit_eqI) (auto simp: bit_simps)
  then have "a * 2 ^ n AND r = 0" using assms by (simp add: take_bit_int_eq_self push_bit_eq_mult)
  then show ?thesis using plus_and_or [of "a * 2 ^ n" r] by simp
qed

text \<open>One step of a binary search for a normalising shift, shared by all \<open>Norm\<close> functions.\<close>

lemma norm_step:
  fixes a :: int
  assumes "L \<le> a * 2 ^ z" and "a * 2 ^ z < B" and "H \<le> L * 2 ^ k" and "H * 2 ^ k \<le> B"
    and "z' = (if a * 2 ^ z < H then z + k else z)"
  shows "H \<le> a * 2 ^ z' \<and> a * 2 ^ z' < B"
proof (cases "a * 2 ^ z < H")
  case True
  have "L * 2 ^ k \<le> a * 2 ^ z * 2 ^ k" using assms(1) by (rule mult_right_mono) simp
  moreover have "a * 2 ^ z * 2 ^ k < H * 2 ^ k" using True by (rule mult_strict_right_mono) simp
  moreover have "a * 2 ^ z' = a * 2 ^ z * 2 ^ k" using assms(5) True by (simp add: power_add mult.assoc)
  ultimately show ?thesis using assms(3,4) by linarith
qed (use assms in auto)

lemma size_step:
  fixes n :: int
  assumes "0 < shr n b" and "shr n b < 2 ^ k * 2 ^ k"
    and "b' = (if 2 ^ k \<le> shr n b then b + k else b)"
  shows "0 < shr n b' \<and> shr n b' < 2 ^ k"
proof (cases "2 ^ k \<le> shr n b")
  case True
  have "1 \<le> shr (shr n b) k" using True by (simp add: le_shr_iff)
  moreover have "shr (shr n b) k < 2 ^ k" using assms(2) by (simp only: shr_less_iff)
  moreover have "shr n b' = shr (shr n b) k" using True assms(3) by (simp add: shr_shr)
  ultimately show ?thesis by simp
qed (use assms in auto)

section \<open>Loops and lists\<close>

text \<open>An invariant of a loop body holds after the loop.\<close>

lemma fold_inv:
  assumes "P s" and "\<And>x s. x \<in> set xs \<Longrightarrow> P s \<Longrightarrow> P (f x s)"
  shows "P (fold f xs s)"
  using assms by (induction xs arbitrary: s) auto

text \<open>A loop that writes \<open>g i\<close> to every index below \<open>n\<close>.\<close>

lemma fold_write_upt:
  "n \<le> length v \<Longrightarrow> fold (\<lambda>i v. v[i := g i]) [0..<n] v = map g [0..<n] @ drop n v"
proof (induction n)
  case 0
  then show ?case by simp
next
  case (Suc n)
  then show ?case
    by (simp add: list_update_append flip: Cons_nth_drop_Suc)
qed

lemma length_fold_update:
  "length (fold (\<lambda>i v. v[h i v := g i v]) xs v) = length v"
  by (induction xs arbitrary: v) auto

text \<open>The indices of a loop \<open>for (i = a; i < n; i += istep)\<close> with a positive step.\<close>

function index_range :: "nat \<Rightarrow> nat \<Rightarrow> nat \<Rightarrow> nat list" where
  "index_range i n istep = (if i < n \<and> 0 < istep then i # index_range (i + istep) n istep else [])"
  by auto
termination by (relation "measure (\<lambda>(i, n, istep). n - i)") auto

declare index_range.simps [simp del]

lemma index_range_set: "0 < d \<Longrightarrow> set (index_range i n d) = {x. i \<le> x \<and> x < n \<and> d dvd x - i}"
proof (induction i n d rule: index_range.induct)
  case (1 i n d)
  have shift: "d dvd x - i \<longleftrightarrow> d dvd x - (i + d)" if "i + d \<le> x" for x
  proof -
    have "x - i = (x - (i + d)) + d" using that by simp
    then show ?thesis by simp
  qed
  have small: "x = i \<or> i + d \<le> x" if "i \<le> x" "d dvd x - i" for x
    using that dvd_imp_le [of d "x - i"] by (cases "x = i") auto
  show ?case
  proof (cases "i < n")
    case True
    then have "set (index_range i n d) = insert i {x. i + d \<le> x \<and> x < n \<and> d dvd x - (i + d)}"
      using 1 by (subst index_range.simps) simp
    also have "\<dots> = {x. i \<le> x \<and> x < n \<and> d dvd x - i}"
    proof (intro set_eqI iffI)
      fix x
      assume "x \<in> {x. i \<le> x \<and> x < n \<and> d dvd x - i}"
      then show "x \<in> insert i {x. i + d \<le> x \<and> x < n \<and> d dvd x - (i + d)}" using small [of x] shift [of x] by auto
    qed (use True shift in auto)
    finally show ?thesis .
  qed (use 1(2) in \<open>auto simp: index_range.simps\<close>)
qed

lemma distinct_index_range: "0 < d \<Longrightarrow> distinct (index_range i n d)"
proof (induction i n d rule: index_range.induct)
  case (1 i n d)
  then show ?case by (subst index_range.simps) (simp add: index_range_set)
qed

end
