(* ===== verification/Spl_Inl.thy ===== *)
theory Spl_Inl
  imports C_Int
begin

text \<open>
  The inline functions of \<open>common_audio/signal_processing/include/spl_inl.h\<close> (the generic C
  versions, compiled when neither ARMv7 nor MIPS replaces them) and the macros of
  \<open>signal_processing_library.h\<close> the C files use: saturation, saturating addition and
  subtraction, bit size and normalisation shifts. The lemmas give each its arithmetic meaning.
\<close>

section \<open>Macros of the signal processing library\<close>

definition WEBRTC_SPL_WORD16_MAX :: int where "WEBRTC_SPL_WORD16_MAX = 32767"
definition WEBRTC_SPL_WORD16_MIN :: int where "WEBRTC_SPL_WORD16_MIN = -32768"
definition WEBRTC_SPL_WORD32_MAX :: int where "WEBRTC_SPL_WORD32_MAX = 2147483647"
definition WEBRTC_SPL_WORD32_MIN :: int where "WEBRTC_SPL_WORD32_MIN = -2147483648"

lemmas spl_limits = WEBRTC_SPL_WORD16_MAX_def WEBRTC_SPL_WORD16_MIN_def
  WEBRTC_SPL_WORD32_MAX_def WEBRTC_SPL_WORD32_MIN_def

text \<open>The value of \<open>abs\<close> on an \<open>int16_t\<close> is an \<open>int\<close>; on an \<open>int32_t\<close> the negation wraps.\<close>

definition WEBRTC_SPL_ABS_W16 :: "int \<Rightarrow> int" where
  "WEBRTC_SPL_ABS_W16 a = (if s16 a \<ge> 0 then s16 a else - s16 a)"

definition WEBRTC_SPL_ABS_W32 :: "int \<Rightarrow> int" where
  "WEBRTC_SPL_ABS_W32 a = (if s32 a \<ge> 0 then s32 a else s32 (- s32 a))"

definition WEBRTC_SPL_MUL_16_16 :: "int \<Rightarrow> int \<Rightarrow> int" where
  "WEBRTC_SPL_MUL_16_16 a b = s32 (s16 a * s16 b)"

definition WEBRTC_SPL_MUL_16_16_RSFT :: "int \<Rightarrow> int \<Rightarrow> nat \<Rightarrow> int" where
  "WEBRTC_SPL_MUL_16_16_RSFT a b c = shr (WEBRTC_SPL_MUL_16_16 a b) c"

definition WEBRTC_SPL_MUL :: "int \<Rightarrow> int \<Rightarrow> int" where
  "WEBRTC_SPL_MUL a b = s32 (s32 a * s32 b)"

definition WEBRTC_SPL_SAT :: "int \<Rightarrow> int \<Rightarrow> int \<Rightarrow> int" where
  "WEBRTC_SPL_SAT a b c = (if b > a then a else if b < c then c else b)"

definition WEBRTC_SPL_SHIFT_W32 :: "int \<Rightarrow> int \<Rightarrow> int" where
  "WEBRTC_SPL_SHIFT_W32 x c = (if c \<ge> 0 then s32 (shl x (nat c)) else shr x (nat (- c)))"

text \<open>\<open>A\<close> is a \<open>uint16_t\<close> coefficient; the last summand is unsigned, so the sum is taken modulo \<open>2\<^sup>3\<^sup>2\<close>.\<close>

definition WEBRTC_SPL_SCALEDIFF32 :: "int \<Rightarrow> int \<Rightarrow> int \<Rightarrow> int" where
  "WEBRTC_SPL_SCALEDIFF32 A B C =
     s32 (s32 (C + s32 (shr B 16 * A)) + shr (u32 (u32 (0x0000FFFF AND B) * A)) 16)"

section \<open>Saturation\<close>

definition WebRtcSpl_SatW32ToW16 :: "int \<Rightarrow> int" where
  "WebRtcSpl_SatW32ToW16 value32 =
     (if value32 > 32767 then 32767
      else if value32 < -32768 then -32768
      else s16 value32)"

definition WebRtcSpl_AddSatW16 :: "int \<Rightarrow> int \<Rightarrow> int" where
  "WebRtcSpl_AddSatW16 a b = WebRtcSpl_SatW32ToW16 (s32 (a + b))"

definition WebRtcSpl_SubSatW16 :: "int \<Rightarrow> int \<Rightarrow> int" where
  "WebRtcSpl_SubSatW16 var1 var2 = WebRtcSpl_SatW32ToW16 (s32 (var1 - var2))"

definition WebRtcSpl_AddSatW32 :: "int \<Rightarrow> int \<Rightarrow> int" where
  "WebRtcSpl_AddSatW32 l_var1 l_var2 =
     (let l_sum = s32 (l_var1 + l_var2) in
      if l_var1 < 0
      then (if l_var2 < 0 \<and> l_sum \<ge> 0 then s32 0x80000000 else l_sum)
      else (if l_var2 > 0 \<and> l_sum < 0 then s32 0x7FFFFFFF else l_sum))"

definition WebRtcSpl_SubSatW32 :: "int \<Rightarrow> int \<Rightarrow> int" where
  "WebRtcSpl_SubSatW32 l_var1 l_var2 =
     (let l_diff = s32 (l_var1 - l_var2) in
      if l_var1 < 0
      then (if l_var2 > 0 \<and> l_diff > 0 then s32 0x80000000 else l_diff)
      else (if l_var2 < 0 \<and> l_diff < 0 then s32 0x7FFFFFFF else l_diff))"

text \<open>The reference: clamping the unbounded result to the type's range.\<close>

definition clamp :: "int \<Rightarrow> int \<Rightarrow> int \<Rightarrow> int" where
  "clamp lo hi x = max lo (min hi x)"

lemma clamp_bounds: "lo \<le> hi \<Longrightarrow> lo \<le> clamp lo hi x \<and> clamp lo hi x \<le> hi"
  by (simp add: clamp_def)

lemma clamp_id: "lo \<le> x \<Longrightarrow> x \<le> hi \<Longrightarrow> clamp lo hi x = x"
  by (simp add: clamp_def)

lemma SatW32ToW16_clamp: "WebRtcSpl_SatW32ToW16 x = clamp (-32768) 32767 x"
  by (auto simp: WebRtcSpl_SatW32ToW16_def clamp_def conv_id)

lemma is_s16_SatW32ToW16 [simp]: "is_s16 (WebRtcSpl_SatW32ToW16 x)"
  by (simp add: SatW32ToW16_clamp is_s16_def clamp_def)

lemma SPL_SAT_clamp: "c \<le> a \<Longrightarrow> WEBRTC_SPL_SAT a b c = clamp c a b"
  by (auto simp: WEBRTC_SPL_SAT_def clamp_def)

lemma s32_wrap_once:
  "\<bar>x\<bar> \<le> 4294967296 \<Longrightarrow> s32 x = (if x < -2147483648 then x + 4294967296
      else if x > 2147483647 then x - 4294967296 else x)"
  by (simp add: s32_id s32_wrap_up s32_wrap_down)

lemma AddSatW32_clamp:
  assumes "is_s32 a" and "is_s32 b"
  shows "WebRtcSpl_AddSatW32 a b = clamp (-2147483648) 2147483647 (a + b)"
proof -
  have "\<bar>a + b\<bar> \<le> 4294967296" using assms by (auto simp: is_s32_def)
  then show ?thesis using assms
    by (auto simp: WebRtcSpl_AddSatW32_def Let_def clamp_def s32_wrap_once is_s32_def)
qed

lemma SubSatW32_clamp:
  assumes "is_s32 a" and "is_s32 b"
  shows "WebRtcSpl_SubSatW32 a b = clamp (-2147483648) 2147483647 (a - b)"
proof -
  have "\<bar>a - b\<bar> \<le> 4294967296" using assms by (auto simp: is_s32_def)
  then show ?thesis using assms
    by (auto simp: WebRtcSpl_SubSatW32_def Let_def clamp_def s32_wrap_once is_s32_def)
qed

lemma AddSatW16_clamp:
  "is_s16 a \<Longrightarrow> is_s16 b \<Longrightarrow> WebRtcSpl_AddSatW16 a b = clamp (-32768) 32767 (a + b)"
  by (simp add: WebRtcSpl_AddSatW16_def SatW32ToW16_clamp s32_id is_s16_def)

lemma SubSatW16_clamp:
  "is_s16 a \<Longrightarrow> is_s16 b \<Longrightarrow> WebRtcSpl_SubSatW16 a b = clamp (-32768) 32767 (a - b)"
  by (simp add: WebRtcSpl_SubSatW16_def SatW32ToW16_clamp s32_id is_s16_def)

text \<open>
  The overflow checks of the 32 bit saturating addition and subtraction, which look at the sign
  of the wrapped result, are exact: the results are the unbounded sum and difference clamped to the
  32 bit range.
\<close>

theorem sat_w32_exact:
  assumes "is_s32 a" and "is_s32 b"
  shows "WebRtcSpl_AddSatW32 a b = clamp (-2147483648) 2147483647 (a + b)
       \<and> WebRtcSpl_SubSatW32 a b = clamp (-2147483648) 2147483647 (a - b)"
  using assms by (simp add: AddSatW32_clamp SubSatW32_clamp)

lemma sat_w32_exact_witness:
  "WebRtcSpl_AddSatW32 2147483647 5 = 2147483647 \<and> WebRtcSpl_SubSatW32 (-2147483648) 5 = -2147483648"
  using sat_w32_exact [of 2147483647 5] sat_w32_exact [of "-2147483648" 5]
  by (simp add: is_s32_def clamp_def)

section \<open>Bit size and normalisation\<close>

definition WebRtcSpl_GetSizeInBits :: "int \<Rightarrow> int" where
  "WebRtcSpl_GetSizeInBits n =
     (let bits = (if 0xFFFF0000 AND n \<noteq> 0 then 16 else 0);
          bits = (if 0x0000FF00 AND shr n bits \<noteq> 0 then bits + 8 else bits);
          bits = (if 0x000000F0 AND shr n bits \<noteq> 0 then bits + 4 else bits);
          bits = (if 0x0000000C AND shr n bits \<noteq> 0 then bits + 2 else bits);
          bits = (if 0x00000002 AND shr n bits \<noteq> 0 then bits + 1 else bits);
          bits = (if 0x00000001 AND shr n bits \<noteq> 0 then bits + 1 else bits)
      in s16 (int bits))"

definition WebRtcSpl_NormW32 :: "int \<Rightarrow> int" where
  "WebRtcSpl_NormW32 a =
     (if a = 0 then 0
      else let a = (if a < 0 then NOT a else a);
          zeros = (if 0xFFFF8000 AND u32 a = 0 then 16 else 0);
          zeros = (if 0xFF800000 AND u32 (s32 (shl a zeros)) = 0 then zeros + 8 else zeros);
          zeros = (if 0xF8000000 AND u32 (s32 (shl a zeros)) = 0 then zeros + 4 else zeros);
          zeros = (if 0xE0000000 AND u32 (s32 (shl a zeros)) = 0 then zeros + 2 else zeros);
          zeros = (if 0xC0000000 AND u32 (s32 (shl a zeros)) = 0 then zeros + 1 else zeros)
        in int zeros)"

definition WebRtcSpl_NormU32 :: "int \<Rightarrow> int" where
  "WebRtcSpl_NormU32 a =
     (if a = 0 then 0
      else let
          zeros = (if 0xFFFF0000 AND a = 0 then 16 else 0);
          zeros = (if 0xFF000000 AND u32 (shl a zeros) = 0 then zeros + 8 else zeros);
          zeros = (if 0xF0000000 AND u32 (shl a zeros) = 0 then zeros + 4 else zeros);
          zeros = (if 0xC0000000 AND u32 (shl a zeros) = 0 then zeros + 2 else zeros);
          zeros = (if 0x80000000 AND u32 (shl a zeros) = 0 then zeros + 1 else zeros)
        in int zeros)"

definition WebRtcSpl_NormW16 :: "int \<Rightarrow> int" where
  "WebRtcSpl_NormW16 a =
     (if a = 0 then 0
      else let a = (if a < 0 then NOT a else a);
          zeros = (if 0xFF80 AND a = 0 then 8 else 0);
          zeros = (if 0xF800 AND shl a zeros = 0 then zeros + 4 else zeros);
          zeros = (if 0xE000 AND shl a zeros = 0 then zeros + 2 else zeros);
          zeros = (if 0xC000 AND shl a zeros = 0 then zeros + 1 else zeros)
        in int zeros)"

definition WebRtc_MulAccumW16 :: "int \<Rightarrow> int \<Rightarrow> int \<Rightarrow> int" where
  "WebRtc_MulAccumW16 a b c = s32 (a * b + c)"

text \<open>The mask tests of the code are comparisons.\<close>

lemma u32_s32_test: "0 \<le> x \<Longrightarrow> x < 2147483648 \<Longrightarrow> u32 (s32 x) = x"
  by (simp add: s32_id u32_id)

lemma mask_tests_32:
  assumes "0 \<le> x" and "x < 4294967296"
  shows "0xFFFF8000 AND x = 0 \<longleftrightarrow> x < (32768 :: int)"
    and "0xFFFF0000 AND x = 0 \<longleftrightarrow> x < (65536 :: int)"
    and "0xFF800000 AND x = 0 \<longleftrightarrow> x < (8388608 :: int)"
    and "0xFF000000 AND x = 0 \<longleftrightarrow> x < (16777216 :: int)"
    and "0xF8000000 AND x = 0 \<longleftrightarrow> x < (134217728 :: int)"
    and "0xF0000000 AND x = 0 \<longleftrightarrow> x < (268435456 :: int)"
    and "0xE0000000 AND x = 0 \<longleftrightarrow> x < (536870912 :: int)"
    and "0xC0000000 AND x = 0 \<longleftrightarrow> x < (1073741824 :: int)"
    and "0x80000000 AND x = 0 \<longleftrightarrow> x < (2147483648 :: int)"
  using assms and_high_mask_eq_0 [of 15 32 x] and_high_mask_eq_0 [of 16 32 x]
    and_high_mask_eq_0 [of 23 32 x] and_high_mask_eq_0 [of 24 32 x] and_high_mask_eq_0 [of 27 32 x]
    and_high_mask_eq_0 [of 28 32 x] and_high_mask_eq_0 [of 29 32 x] and_high_mask_eq_0 [of 30 32 x]
    and_high_mask_eq_0 [of 31 32 x]
  by simp_all

lemma mask_tests_16:
  assumes "0 \<le> x" and "x < 65536"
  shows "0xFF80 AND x = 0 \<longleftrightarrow> x < (128 :: int)"
    and "0xF800 AND x = 0 \<longleftrightarrow> x < (2048 :: int)"
    and "0xE000 AND x = 0 \<longleftrightarrow> x < (8192 :: int)"
    and "0xC000 AND x = 0 \<longleftrightarrow> x < (16384 :: int)"
  using assms and_high_mask_eq_0 [of 7 16 x] and_high_mask_eq_0 [of 11 16 x]
    and_high_mask_eq_0 [of 13 16 x] and_high_mask_eq_0 [of 14 16 x]
  by simp_all

lemma NormW32_pos:
  assumes "0 < a" and "a < 2147483648"
  shows "\<exists>z. WebRtcSpl_NormW32 a = int z \<and> 1073741824 \<le> a * 2 ^ z \<and> a * 2 ^ z < 2147483648"
proof -
  define z1 where "z1 = (if a * 2 ^ 0 < 32768 then 0 + 16 else (0 :: nat))"
  define z2 where "z2 = (if a * 2 ^ z1 < 8388608 then z1 + 8 else z1)"
  define z3 where "z3 = (if a * 2 ^ z2 < 134217728 then z2 + 4 else z2)"
  define z4 where "z4 = (if a * 2 ^ z3 < 536870912 then z3 + 2 else z3)"
  define z5 where "z5 = (if a * 2 ^ z4 < 1073741824 then z4 + 1 else z4)"
  have b1: "32768 \<le> a * 2 ^ z1 \<and> a * 2 ^ z1 < 2147483648"
    by (rule norm_step [OF _ _ _ _ z1_def, where L = 1]) (use assms in auto)
  have b2: "8388608 \<le> a * 2 ^ z2 \<and> a * 2 ^ z2 < 2147483648"
    by (rule norm_step [OF _ _ _ _ z2_def, where L = 32768]) (use b1 in auto)
  have b3: "134217728 \<le> a * 2 ^ z3 \<and> a * 2 ^ z3 < 2147483648"
    by (rule norm_step [OF _ _ _ _ z3_def, where L = 8388608]) (use b2 in auto)
  have b4: "536870912 \<le> a * 2 ^ z4 \<and> a * 2 ^ z4 < 2147483648"
    by (rule norm_step [OF _ _ _ _ z4_def, where L = 134217728]) (use b3 in auto)
  have b5: "1073741824 \<le> a * 2 ^ z5 \<and> a * 2 ^ z5 < 2147483648"
    by (rule norm_step [OF _ _ _ _ z5_def, where L = 536870912]) (use b4 in auto)
  have t: "u32 (s32 (a * 2 ^ z)) = a * 2 ^ z \<and> 0 \<le> a * 2 ^ z \<and> a * 2 ^ z < 4294967296"
    if "a * 2 ^ z < 2147483648" for z
    using that assms by (simp add: u32_s32_test)
  have e1: "z1 = (if 0xFFFF8000 AND u32 a = 0 then 16 else 0)"
    using assms by (simp add: z1_def u32_id mask_tests_32)
  have e2: "z2 = (if 0xFF800000 AND u32 (s32 (shl a z1)) = 0 then z1 + 8 else z1)"
    using t [of z1] b1 by (simp add: z2_def shl_def mask_tests_32)
  have e3: "z3 = (if 0xF8000000 AND u32 (s32 (shl a z2)) = 0 then z2 + 4 else z2)"
    using t [of z2] b2 by (simp add: z3_def shl_def mask_tests_32)
  have e4: "z4 = (if 0xE0000000 AND u32 (s32 (shl a z3)) = 0 then z3 + 2 else z3)"
    using t [of z3] b3 by (simp add: z4_def shl_def mask_tests_32)
  have e5: "z5 = (if 0xC0000000 AND u32 (s32 (shl a z4)) = 0 then z4 + 1 else z4)"
    using t [of z4] b4 by (simp add: z5_def shl_def mask_tests_32)
  have "WebRtcSpl_NormW32 a = int z5"
    unfolding WebRtcSpl_NormW32_def Let_def e5 e4 e3 e2 e1 using assms by simp
  with b5 show ?thesis by blast
qed


lemma NormU32_pos:
  assumes "0 < a" and "a < 4294967296"
  shows "\<exists>z. WebRtcSpl_NormU32 a = int z \<and> 2147483648 \<le> a * 2 ^ z \<and> a * 2 ^ z < 4294967296"
proof -
  define z1 where "z1 = (if a * 2 ^ 0 < 65536 then 0 + 16 else (0 :: nat))"
  define z2 where "z2 = (if a * 2 ^ z1 < 16777216 then z1 + 8 else z1)"
  define z3 where "z3 = (if a * 2 ^ z2 < 268435456 then z2 + 4 else z2)"
  define z4 where "z4 = (if a * 2 ^ z3 < 1073741824 then z3 + 2 else z3)"
  define z5 where "z5 = (if a * 2 ^ z4 < 2147483648 then z4 + 1 else z4)"
  have b1: "65536 \<le> a * 2 ^ z1 \<and> a * 2 ^ z1 < 4294967296"
    by (rule norm_step [OF _ _ _ _ z1_def, where L = 1]) (use assms in auto)
  have b2: "16777216 \<le> a * 2 ^ z2 \<and> a * 2 ^ z2 < 4294967296"
    by (rule norm_step [OF _ _ _ _ z2_def, where L = 65536]) (use b1 in auto)
  have b3: "268435456 \<le> a * 2 ^ z3 \<and> a * 2 ^ z3 < 4294967296"
    by (rule norm_step [OF _ _ _ _ z3_def, where L = 16777216]) (use b2 in auto)
  have b4: "1073741824 \<le> a * 2 ^ z4 \<and> a * 2 ^ z4 < 4294967296"
    by (rule norm_step [OF _ _ _ _ z4_def, where L = 268435456]) (use b3 in auto)
  have b5: "2147483648 \<le> a * 2 ^ z5 \<and> a * 2 ^ z5 < 4294967296"
    by (rule norm_step [OF _ _ _ _ z5_def, where L = 1073741824]) (use b4 in auto)
  have e1: "z1 = (if 0xFFFF0000 AND a = 0 then 16 else 0)"
    using assms by (simp add: z1_def mask_tests_32)
  have e2: "z2 = (if 0xFF000000 AND u32 (shl a z1) = 0 then z1 + 8 else z1)"
    using b1 by (simp add: z2_def shl_def mask_tests_32 u32_id)
  have e3: "z3 = (if 0xF0000000 AND u32 (shl a z2) = 0 then z2 + 4 else z2)"
    using b2 by (simp add: z3_def shl_def mask_tests_32 u32_id)
  have e4: "z4 = (if 0xC0000000 AND u32 (shl a z3) = 0 then z3 + 2 else z3)"
    using b3 by (simp add: z4_def shl_def mask_tests_32 u32_id)
  have e5: "z5 = (if 0x80000000 AND u32 (shl a z4) = 0 then z4 + 1 else z4)"
    using b4 by (simp add: z5_def shl_def mask_tests_32 u32_id)
  have "WebRtcSpl_NormU32 a = int z5"
    unfolding WebRtcSpl_NormU32_def Let_def e5 e4 e3 e2 e1 using assms by simp
  with b5 show ?thesis by blast
qed

lemma NormW16_pos:
  assumes "0 < a" and "a < 32768"
  shows "\<exists>z. WebRtcSpl_NormW16 a = int z \<and> 16384 \<le> a * 2 ^ z \<and> a * 2 ^ z < 32768"
proof -
  define z1 where "z1 = (if a * 2 ^ 0 < 128 then 0 + 8 else (0 :: nat))"
  define z2 where "z2 = (if a * 2 ^ z1 < 2048 then z1 + 4 else z1)"
  define z3 where "z3 = (if a * 2 ^ z2 < 8192 then z2 + 2 else z2)"
  define z4 where "z4 = (if a * 2 ^ z3 < 16384 then z3 + 1 else z3)"
  have b1: "128 \<le> a * 2 ^ z1 \<and> a * 2 ^ z1 < 32768"
    by (rule norm_step [OF _ _ _ _ z1_def, where L = 1]) (use assms in auto)
  have b2: "2048 \<le> a * 2 ^ z2 \<and> a * 2 ^ z2 < 32768"
    by (rule norm_step [OF _ _ _ _ z2_def, where L = 128]) (use b1 in auto)
  have b3: "8192 \<le> a * 2 ^ z3 \<and> a * 2 ^ z3 < 32768"
    by (rule norm_step [OF _ _ _ _ z3_def, where L = 2048]) (use b2 in auto)
  have b4: "16384 \<le> a * 2 ^ z4 \<and> a * 2 ^ z4 < 32768"
    by (rule norm_step [OF _ _ _ _ z4_def, where L = 8192]) (use b3 in auto)
  have e1: "z1 = (if 0xFF80 AND a = 0 then 8 else 0)"
    using assms by (simp add: z1_def mask_tests_16)
  have e2: "z2 = (if 0xF800 AND shl a z1 = 0 then z1 + 4 else z1)"
    using b1 by (simp add: z2_def shl_def mask_tests_16)
  have e3: "z3 = (if 0xE000 AND shl a z2 = 0 then z2 + 2 else z2)"
    using b2 by (simp add: z3_def shl_def mask_tests_16)
  have e4: "z4 = (if 0xC000 AND shl a z3 = 0 then z3 + 1 else z3)"
    using b3 by (simp add: z4_def shl_def mask_tests_16)
  have "WebRtcSpl_NormW16 a = int z4"
    unfolding WebRtcSpl_NormW16_def Let_def e4 e3 e2 e1 using assms by simp
  with b4 show ?thesis by blast
qed

lemma mask_tests_size:
  shows "0 \<le> x \<Longrightarrow> x < 65536 \<Longrightarrow> 0xFF00 AND x = 0 \<longleftrightarrow> x < (256 :: int)"
    and "0 \<le> x \<Longrightarrow> x < 256 \<Longrightarrow> 0xF0 AND x = 0 \<longleftrightarrow> x < (16 :: int)"
    and "0 \<le> x \<Longrightarrow> x < 16 \<Longrightarrow> 0xC AND x = 0 \<longleftrightarrow> x < (4 :: int)"
    and "0 \<le> x \<Longrightarrow> x < 4 \<Longrightarrow> 2 AND x = 0 \<longleftrightarrow> x < (2 :: int)"
  using and_high_mask_eq_0 [of 8 16 x] and_high_mask_eq_0 [of 4 8 x]
    and_high_mask_eq_0 [of 2 4 x] and_high_mask_eq_0 [of 1 2 x]
  by simp_all

lemma GetSizeInBits_pos:
  assumes "0 < n" and "n < 4294967296"
  shows "\<exists>b. WebRtcSpl_GetSizeInBits n = int b + 1 \<and> b < 32 \<and> 2 ^ b \<le> n \<and> n < 2 ^ (b + 1)"
proof -
  define b1 where "b1 = (if 2 ^ 16 \<le> shr n 0 then 0 + 16 else (0 :: nat))"
  define b2 where "b2 = (if 2 ^ 8 \<le> shr n b1 then b1 + 8 else b1)"
  define b3 where "b3 = (if 2 ^ 4 \<le> shr n b2 then b2 + 4 else b2)"
  define b4 where "b4 = (if 2 ^ 2 \<le> shr n b3 then b3 + 2 else b3)"
  define b5 where "b5 = (if 2 ^ 1 \<le> shr n b4 then b4 + 1 else b4)"
  have r1: "0 < shr n b1 \<and> shr n b1 < 2 ^ 16"
    by (rule size_step [OF _ _ b1_def]) (use assms in auto)
  have r2: "0 < shr n b2 \<and> shr n b2 < 2 ^ 8"
    by (rule size_step [OF _ _ b2_def]) (use r1 in auto)
  have r3: "0 < shr n b3 \<and> shr n b3 < 2 ^ 4"
    by (rule size_step [OF _ _ b3_def]) (use r2 in auto)
  have r4: "0 < shr n b4 \<and> shr n b4 < 2 ^ 2"
    by (rule size_step [OF _ _ b4_def]) (use r3 in auto)
  have r5: "0 < shr n b5 \<and> shr n b5 < 2 ^ 1"
    by (rule size_step [OF _ _ b5_def]) (use r4 in auto)
  have e1: "(if 0xFFFF0000 AND n \<noteq> 0 then 16 else 0) = b1"
    using assms by (simp add: b1_def mask_tests_32)
  have e2: "(if 0x0000FF00 AND shr n b1 \<noteq> 0 then b1 + 8 else b1) = b2"
    using r1 assms by (simp add: b2_def mask_tests_size)
  have e3: "(if 0x000000F0 AND shr n b2 \<noteq> 0 then b2 + 4 else b2) = b3"
    using r2 assms by (simp add: b3_def mask_tests_size)
  have e4: "(if 0x0000000C AND shr n b3 \<noteq> 0 then b3 + 2 else b3) = b4"
    using r3 assms by (simp add: b4_def mask_tests_size)
  have e5: "(if 0x00000002 AND shr n b4 \<noteq> 0 then b4 + 1 else b4) = b5"
    using r4 assms by (simp add: b5_def mask_tests_size)
  have one: "shr n b5 = 1" using r5 by simp
  have le: "b1 \<le> 16" "b2 \<le> b1 + 8" "b3 \<le> b2 + 4" "b4 \<le> b3 + 2" "b5 \<le> b4 + 1"
    by (simp_all add: b1_def b2_def b3_def b4_def b5_def)
  have "WebRtcSpl_GetSizeInBits n = s16 (int (b5 + 1))"
    unfolding WebRtcSpl_GetSizeInBits_def Let_def e1 e2 e3 e4 e5 by (simp add: one)
  moreover have "b5 < 32" using le by linarith
  moreover have "1 \<le> shr n b5" "shr n b5 < 2" using one by simp_all
  then have "2 ^ b5 \<le> n" "n < 2 ^ (b5 + 1)" by (simp_all add: le_shr_iff shr_less_iff)
  ultimately show ?thesis by (intro exI [of _ b5]) (simp add: s16_id)
qed

text \<open>On negative values the code normalises the complement, whose shift is the value's.\<close>

lemma NormW32_neg: "a < 0 \<Longrightarrow> a \<noteq> -1 \<Longrightarrow> WebRtcSpl_NormW32 a = WebRtcSpl_NormW32 (- a - 1)"
proof -
  assume a: "a < 0" "a \<noteq> -1"
  then have "(a = 0) = False" "(- a - 1 = 0) = False"
    and "(if a < 0 then NOT a else a) = - a - 1"
    and "(if - a - 1 < 0 then NOT (- a - 1) else - a - 1) = - a - 1"
    by (auto simp: not_int_def)
  then show ?thesis unfolding WebRtcSpl_NormW32_def by (simp only: if_False)
qed

lemma NormW32_minus_1: "WebRtcSpl_NormW32 (-1) = 31"
  by code_simp

lemma NormW32_0 [simp]: "WebRtcSpl_NormW32 0 = 0"
  by (simp add: WebRtcSpl_NormW32_def)

lemma NormW32_range:
  assumes "is_s32 a"
  shows "0 \<le> WebRtcSpl_NormW32 a \<and> WebRtcSpl_NormW32 a \<le> 31"
proof -
  have pos: "0 \<le> WebRtcSpl_NormW32 x \<and> WebRtcSpl_NormW32 x \<le> 31"
    if x: "0 < x" "x < 2147483648" for x
  proof -
    obtain z where z: "WebRtcSpl_NormW32 x = int z" "x * 2 ^ z < 2147483648"
      using NormW32_pos [OF x] by blast
    have "1 * 2 ^ z \<le> x * 2 ^ z" using x by (intro mult_right_mono) auto
    with z have "2 ^ z < (2147483648 :: int)" by linarith
    then have "2 ^ z < (2 ^ 31 :: int)" by simp
    then have "z < 31" by (rule power_less_imp_less_exp [rotated]) simp
    with z show ?thesis by simp
  qed
  consider "a = 0" | "a = -1" | "0 < a" | "a < -1" by linarith
  then show ?thesis
  proof cases
    case 4
    then show ?thesis using assms pos [of "- a - 1"] by (simp add: NormW32_neg is_s32_def)
  qed (use assms pos in \<open>auto simp: is_s32_def NormW32_minus_1\<close>)
qed

text \<open>The macro that multiplies by a 16 bit coefficient in two halves is the scaled product.\<close>

lemma SCALEDIFF32_eq:
  assumes "is_u16 A" and "is_s32 B"
  shows "WEBRTC_SPL_SCALEDIFF32 A B C = s32 (C + shr (A * B) 16)"
proof -
  define hi lo where "hi = B div 65536" and "lo = B mod 65536"
  have A: "0 \<le> A" "A \<le> 65535" using assms(1) by (auto simp: is_u16_def)
  have B: "B = 65536 * hi + lo" and lo: "0 \<le> lo" "lo \<le> 65535" by (auto simp: hi_def lo_def)
  have hi: "-32768 \<le> hi" "hi \<le> 32767" using assms(2) B lo by (auto simp: is_s32_def)
  have "\<bar>hi * A\<bar> \<le> 32768 * 65535" by (rule abs_mult_le) (use hi A in auto)
  then have 1: "s32 (hi * A) = hi * A" by (intro s32_id) auto
  have "0xFFFF AND B = lo" using and_low_mask [of B 16] by (simp add: lo_def and.commute)
  moreover have "lo * A \<le> 65535 * 65535" by (rule mult_mono) (use lo A in auto)
  then have "u32 (lo * A) = lo * A" "u32 lo = lo" using lo A by (simp_all add: u32_id)
  moreover have "shr (A * B) 16 = hi * A + shr (lo * A) 16"
    using div_mult_self1 [of 65536 "lo * A" "hi * A"] by (simp add: shr_def B algebra_simps)
  ultimately show ?thesis using 1
    unfolding WEBRTC_SPL_SCALEDIFF32_def by (simp add: s32_def shr_def hi_def mod_simps algebra_simps)
qed

end
