(* ===== verification/Spl_Math.thy ===== *)
theory Spl_Math
  imports Spl_Inl
begin

text \<open>
  Division and square roots of the signal processing library: \<open>division_operations.c\<close>,
  \<open>spl_sqrt_floor.c\<close> and \<open>spl_sqrt.c\<close>. The integer square root is proved exact,
  the shift-and-subtract division is proved to be the floor of the Q31 quotient, with its signs, for
  denominators up to \<open>2\<^sup>3\<^sup>0\<close>.
\<close>

section \<open>Divisions (division\_operations.c)\<close>

definition WebRtcSpl_DivU32U16 :: "int \<Rightarrow> int \<Rightarrow> int" where
  "WebRtcSpl_DivU32U16 num den = (if den \<noteq> 0 then u32 (num div den) else u32 0xFFFFFFFF)"

definition WebRtcSpl_DivW32W16 :: "int \<Rightarrow> int \<Rightarrow> int" where
  "WebRtcSpl_DivW32W16 num den = (if den \<noteq> 0 then s32 (num sdiv den) else s32 0x7FFFFFFF)"

definition WebRtcSpl_DivW32W16ResW16 :: "int \<Rightarrow> int \<Rightarrow> int" where
  "WebRtcSpl_DivW32W16ResW16 num den = (if den \<noteq> 0 then s16 (num sdiv den) else s16 0x7FFF)"

text \<open>One round of the \<open>while (k--)\<close> loop, on \<open>(div, L_num)\<close>.\<close>

definition div_q31_step :: "int \<Rightarrow> int \<times> int \<Rightarrow> int \<times> int" where
  "div_q31_step L_den st =
     (case st of (dv, L_num) \<Rightarrow>
        let dv = s32 (shl dv 1); L_num = s32 (shl L_num 1)
        in if L_num \<ge> L_den then (s32 (dv + 1), s32 (L_num - L_den)) else (dv, L_num))"

definition WebRtcSpl_DivResultInQ31 :: "int \<Rightarrow> int \<Rightarrow> int" where
  "WebRtcSpl_DivResultInQ31 num den =
     (if num = 0 then 0
      else let L_num = (if num < 0 then s32 (- num) else num);
               L_den = (if den < 0 then s32 (- den) else den);
               change_sign = (if num < 0 then 1 else 0) + (if den < 0 then 1 else (0 :: nat));
               dv = fst ((div_q31_step L_den ^^ 31) (0, L_num))
           in if change_sign = 1 then s32 (- dv) else dv)"

definition WebRtcSpl_DivW32HiLow :: "int \<Rightarrow> int \<Rightarrow> int \<Rightarrow> int" where
  "WebRtcSpl_DivW32HiLow num den_hi den_low =
     (let approx = s16 (WebRtcSpl_DivW32W16 0x1FFFFFFF den_hi);
          tmpW32 = s32 (s32 (shl (WEBRTC_SPL_MUL_16_16 den_hi approx) 1)
            + s32 (shl (shr (WEBRTC_SPL_MUL_16_16 den_low approx) 15) 1));
          tmpW32 = s32 (0x7fffffff - tmpW32);
          tmp_hi = s16 (shr tmpW32 16);
          tmp_low = s16 (shr (s32 (tmpW32 - s32 (shl tmp_hi 16))) 1);
          tmpW32 = s32 (shl (s32 (WEBRTC_SPL_MUL_16_16 tmp_hi approx
            + shr (WEBRTC_SPL_MUL_16_16 tmp_low approx) 15)) 1);
          tmp_hi = s16 (shr tmpW32 16);
          tmp_low = s16 (shr (s32 (tmpW32 - s32 (shl tmp_hi 16))) 1);
          num_hi = s16 (shr num 16);
          num_low = s16 (shr (s32 (num - s32 (shl num_hi 16))) 1);
          tmpW32 = s32 (s32 (WEBRTC_SPL_MUL_16_16 num_hi tmp_hi
            + shr (WEBRTC_SPL_MUL_16_16 num_hi tmp_low) 15)
            + shr (WEBRTC_SPL_MUL_16_16 num_low tmp_hi) 15)
      in s32 (shl tmpW32 3))"

lemma div_q31_steps:
  assumes "0 \<le> num" and "num < den" and "den \<le> 1073741824" and "n \<le> 31"
  shows "(div_q31_step den ^^ n) (0, num) = (num * 2 ^ n div den, num * 2 ^ n mod den)"
  using assms(4)
proof (induction n)
  case 0
  then show ?case using assms by simp
next
  case (Suc n)
  define q r where "q = num * 2 ^ n div den" and "r = num * 2 ^ n mod den"
  have qr: "num * 2 ^ n = q * den + r" by (simp add: q_def r_def)
  have r: "0 \<le> r" "r < den" using assms by (simp_all add: r_def)
  have "(2 :: int) ^ n \<le> 2 ^ 30" using Suc.prems by (intro power_increasing) auto
  moreover have "num * 2 ^ n < den * 2 ^ n" using assms(2) by simp
  then have "q < 2 ^ n" unfolding q_def
    using assms by (simp add: div_less_iff mult.commute)
  ultimately have q: "0 \<le> q" "q < 1073741824"
    using assms by (auto simp: q_def pos_imp_zdiv_nonneg_iff)
  have step: "div_q31_step den (q, r)
      = (if 2 * r \<ge> den then (2 * q + 1, 2 * r - den) else (2 * q, 2 * r))"
    using q r assms by (simp add: div_q31_step_def shl_def s32_id mult.commute)
  have "(num * 2 ^ Suc n div den, num * 2 ^ Suc n mod den)
      = (if 2 * r \<ge> den then (2 * q + 1, 2 * r - den) else (2 * q, 2 * r))"
  proof (cases "2 * r \<ge> den")
    case True
    have e: "num * 2 ^ Suc n = den * (2 * q + 1) + (2 * r - den)" using qr by (simp add: algebra_simps)
    show ?thesis
      using int_div_pos_eq [OF e] int_mod_pos_eq [OF e] True r by simp
  next
    case False
    have e: "num * 2 ^ Suc n = den * (2 * q) + 2 * r" using qr by (simp add: algebra_simps)
    show ?thesis
      using int_div_pos_eq [OF e] int_mod_pos_eq [OF e] False r by simp
  qed
  with Suc step show ?case by (simp add: q_def r_def)
qed

text \<open>C37. 
  \<open>WebRtcSpl_DivResultInQ31\<close> is the quotient in Q31, rounded towards zero and with the right
  sign, whenever the numerator is smaller than the denominator in magnitude and the denominator is at
  most \<open>2\<^sup>3\<^sup>0\<close>.
\<close>

theorem DivResultInQ31_correct:
  assumes "\<bar>num\<bar> < \<bar>den\<bar>" and "\<bar>den\<bar> \<le> 1073741824"
  shows "WebRtcSpl_DivResultInQ31 num den = sgn num * sgn den * (\<bar>num\<bar> * 2147483648 div \<bar>den\<bar>)"
proof -
  have r: "fst ((div_q31_step \<bar>den\<bar> ^^ 31) (0, \<bar>num\<bar>)) = \<bar>num\<bar> * 2147483648 div \<bar>den\<bar>"
    using div_q31_steps [of "\<bar>num\<bar>" "\<bar>den\<bar>" 31] assms by simp
  have "\<bar>num\<bar> * 2147483648 div \<bar>den\<bar> < 2147483648"
    using assms by (simp add: div_less_iff)
  moreover have "0 \<le> \<bar>num\<bar> * 2147483648 div \<bar>den\<bar>"
    using assms by (simp add: pos_imp_zdiv_nonneg_iff)
  ultimately have neg: "s32 (- (\<bar>num\<bar> * 2147483648 div \<bar>den\<bar>)) = - (\<bar>num\<bar> * 2147483648 div \<bar>den\<bar>)"
    by (simp add: s32_id)
  have "(if num < 0 then s32 (- num) else num) = \<bar>num\<bar>"
    "(if den < 0 then s32 (- den) else den) = \<bar>den\<bar>"
    using assms by (auto simp: s32_id)
  then show ?thesis using r neg assms
    by (auto simp: WebRtcSpl_DivResultInQ31_def Let_def sgn_if)
qed

lemma DivResultInQ31_correct_witness:
  "WebRtcSpl_DivResultInQ31 (-1) 4 = -536870912"
  using DivResultInQ31_correct [of "-1" 4] by simp

section \<open>Integer square root (spl\_sqrt\_floor.c)\<close>

text \<open>The macro \<open>WEBRTC_SPL_SQRT_ITER(N)\<close>, on \<open>(value, root)\<close>.\<close>

definition WEBRTC_SPL_SQRT_ITER :: "nat \<Rightarrow> int \<times> int \<Rightarrow> int \<times> int" where
  "WEBRTC_SPL_SQRT_ITER n st =
     (case st of (val, root) \<Rightarrow>
        let try1 = s32 (root + shl 1 n)
        in if val \<ge> s32 (shl try1 n)
           then (s32 (val - s32 (shl try1 n)), root OR shl 2 n)
           else (val, root))"

definition WebRtcSpl_SqrtFloor :: "int \<Rightarrow> int" where
  "WebRtcSpl_SqrtFloor val =
     (let (_, root) = fold WEBRTC_SPL_SQRT_ITER [15,14,13,12,11,10,9,8,7,6,5,4,3,2,1,0] (val, 0)
      in shr root 1)"

lemma or_pow2_add:
  assumes "2 ^ (n + 1) dvd (x :: int)"
  shows "x OR 2 ^ n = x + 2 ^ n"
proof -
  obtain k where "x = 2 ^ n * (2 * k)" using assms by (auto simp: mult.assoc)
  then have "\<not> bit x n" by (simp add: bit_iff_odd)
  then have "\<not> bit x m \<or> \<not> bit (2 ^ n :: int) m" for m
    by (auto simp: bit_exp_iff)
  from disjunctive_add [OF this] show ?thesis by simp
qed

text \<open>
  The loop invariant before the round with step \<open>p = 2\<^sup>n\<close>: \<open>root = 2r\<close> with \<open>r\<close> a multiple of
  \<open>2p\<close>, the remaining value is \<open>v - r\<^sup>2\<close>, and \<open>r\<close> is within \<open>2p\<close> below the square root.
\<close>

definition sqrt_inv :: "int \<Rightarrow> nat \<Rightarrow> int \<times> int \<Rightarrow> bool" where
  "sqrt_inv v n st \<longleftrightarrow> (\<exists>r. st = (v - r * r, 2 * r) \<and> 0 \<le> r \<and> 2 ^ n dvd r \<and> r \<le> 65536 - 2 ^ n
     \<and> r * r \<le> v \<and> v < (r + 2 ^ n) * (r + 2 ^ n))"

lemma sqrt_iter_inv:
  assumes inv: "sqrt_inv v (Suc n) st" and n: "n \<le> 15" and v: "v < 2147483648"
  shows "sqrt_inv v n (WEBRTC_SPL_SQRT_ITER n st)"
proof -
  define p :: int where "p = 2 ^ n"
  obtain r where st: "st = (v - r * r, 2 * r)" and r: "0 \<le> r" "2 * p dvd r" "r \<le> 65536 - 2 * p"
    "r * r \<le> v" "v < (r + 2 * p) * (r + 2 * p)"
    using inv by (auto simp: sqrt_inv_def p_def)
  have p: "0 < p" "p \<le> 32768"
    using power_increasing [of n 15 "2 :: int"] n by (simp_all add: p_def)
  have fit: "2 * r * p + p * p < 2147483648"
  proof (cases "p \<le> 16384")
    case True
    have "2 * r * p + p * p \<le> 2 * (65536 - 2 * p) * p + p * p"
      using r(3) p by (intro add_right_mono mult_right_mono) auto
    also have "\<dots> = 131072 * p - 3 * (p * p)" by (simp add: algebra_simps)
    also have "\<dots> < 2147483648" using True p(1) mult_pos_pos [of p p] by linarith
    finally show ?thesis .
  next
    case False
    have "r < 2 * p" using False r(3) by linarith
    then have "r = 0" using r(1,2) zdvd_not_zless [of r "2 * p"] by force
    moreover have "p * p \<le> 32768 * 32768" using p by (intro mult_mono) auto
    ultimately show ?thesis by simp
  qed
  have rp: "0 \<le> r * p" using r p by simp
  have t1: "s32 (2 * r + shl 1 n) = 2 * r + p"
    using r p by (simp add: shl_def p_def [symmetric] s32_id)
  have sq: "(2 * r + p) * p = 2 * r * p + p * p" by (simp add: algebra_simps)
  have t2: "s32 (shl (2 * r + p) n) = (2 * r + p) * p"
  proof -
    have lo: "-2147483648 \<le> (2 * r + p) * p" using rp mult_pos_pos [OF p(1) p(1)] sq by linarith
    have hi: "(2 * r + p) * p \<le> 2147483647" using fit sq by linarith
    show ?thesis by (simp only: shl_def p_def [symmetric] s32_id [OF lo hi])
  qed
  have ex: "(r + p) * (r + p) = r * r + (2 * r + p) * p" by (simp add: algebra_simps)
  have or_eq: "2 * r OR shl 2 n = 2 * (r + p)"
  proof -
    have "2 ^ (Suc n + 1) dvd 2 * r" using r(2) by (auto simp: p_def)
    from or_pow2_add [OF this] show ?thesis by (simp add: shl_def p_def mult.commute)
  qed
  have dv: "p dvd r" using r(2) dvd_mult_right by blast
  show ?thesis
  proof (cases "(2 * r + p) * p \<le> v - r * r")
    case True
    have lo: "-2147483648 \<le> v - r * r - (2 * r + p) * p" using True by linarith
    have hi: "v - r * r - (2 * r + p) * p \<le> 2147483647"
      using v rp sq mult_pos_pos [OF p(1) p(1)] mult_nonneg_nonneg [OF r(1) r(1)] by linarith
    have "s32 (v - r * r - (2 * r + p) * p) = v - (r + p) * (r + p)"
      unfolding s32_id [OF lo hi] using ex by linarith
    then have "WEBRTC_SPL_SQRT_ITER n st = (v - (r + p) * (r + p), 2 * (r + p))"
      unfolding WEBRTC_SPL_SQRT_ITER_def st Let_def prod.case t1 t2 or_eq using True by (simp only: if_True)
    moreover have "(r + p) * (r + p) \<le> v" using True ex by linarith
    moreover have "v < (r + p + p) * (r + p + p)" using r(5) by (simp add: algebra_simps)
    ultimately show ?thesis using r p dv unfolding sqrt_inv_def p_def [symmetric]
      by (intro exI [of _ "r + p"]) auto
  next
    case False
    then have "WEBRTC_SPL_SQRT_ITER n st = (v - r * r, 2 * r)"
      unfolding WEBRTC_SPL_SQRT_ITER_def st Let_def prod.case t1 t2 by (simp only: if_False)
    moreover have "v < (r + p) * (r + p)" using False ex by linarith
    ultimately show ?thesis using r p dv unfolding sqrt_inv_def p_def [symmetric]
      by (intro exI [of _ r]) auto
  qed
qed

lemma sqrt_fold_inv:
  "k \<le> 16 \<Longrightarrow> v < 2147483648 \<Longrightarrow> sqrt_inv v k st \<Longrightarrow> sqrt_inv v 0 (fold WEBRTC_SPL_SQRT_ITER (rev [0..<k]) st)"
  by (induction k arbitrary: st) (simp_all add: sqrt_iter_inv)

lemma sqrt_floor_bounds:
  assumes "0 \<le> v" and "v < 2147483648"
  shows "0 \<le> WebRtcSpl_SqrtFloor v \<and> WebRtcSpl_SqrtFloor v * WebRtcSpl_SqrtFloor v \<le> v
       \<and> v < (WebRtcSpl_SqrtFloor v + 1) * (WebRtcSpl_SqrtFloor v + 1)"
proof -
  have "sqrt_inv v 16 (v, 0)" using assms by (auto simp: sqrt_inv_def)
  then have "sqrt_inv v 0 (fold WEBRTC_SPL_SQRT_ITER (rev [0..<16]) (v, 0))"
    using sqrt_fold_inv [of 16 v] assms(2) by simp
  moreover have "rev [0..<16] = [15,14,13,12,11,10,9,8,7,6,5,4,3,2,1,0 :: nat]" by code_simp
  ultimately have "sqrt_inv v 0 (fold WEBRTC_SPL_SQRT_ITER [15,14,13,12,11,10,9,8,7,6,5,4,3,2,1,0] (v, 0))"
    by (simp only:)
  then obtain r where
    "fold WEBRTC_SPL_SQRT_ITER [15,14,13,12,11,10,9,8,7,6,5,4,3,2,1,0] (v, 0) = (v - r * r, 2 * r)"
    "0 \<le> r" "r * r \<le> v" "v < (r + 1) * (r + 1)"
    by (auto simp: sqrt_inv_def)
  then have "WebRtcSpl_SqrtFloor v = r" by (simp add: WebRtcSpl_SqrtFloor_def shr_def)
  then show ?thesis using \<open>0 \<le> r\<close> \<open>r * r \<le> v\<close> \<open>v < (r + 1) * (r + 1)\<close> by simp
qed

lemma sqrt_iter_neg: "v < 0 \<Longrightarrow> n \<le> 15 \<Longrightarrow> WEBRTC_SPL_SQRT_ITER n (v, 0) = (v, 0)"
proof -
  assume v: "v < 0" and n: "n \<le> 15"
  have p: "0 < (2 :: int) ^ n" "(2 :: int) ^ n \<le> 32768"
    using power_increasing [OF n, of "2 :: int"] by simp_all
  then have "(2 :: int) ^ n * 2 ^ n \<le> 32768 * 32768" by (intro mult_mono) auto
  moreover have "0 < (2 :: int) ^ n * 2 ^ n" by simp
  ultimately have "s32 (2 ^ n * 2 ^ n) = 2 ^ n * 2 ^ n"
    by (intro s32_id) linarith+
  moreover have "s32 (2 ^ n) = 2 ^ n" using p by (intro s32_id) linarith+
  ultimately have "s32 (shl (s32 (0 + shl 1 n)) n) = 2 ^ n * 2 ^ n"
    by (simp add: shl_def)
  moreover have "\<not> 2 ^ n * 2 ^ n \<le> v" using v \<open>0 < (2 :: int) ^ n * 2 ^ n\<close> by linarith
  ultimately show ?thesis by (simp add: WEBRTC_SPL_SQRT_ITER_def Let_def)
qed

lemma sqrt_floor_neg: "v < 0 \<Longrightarrow> WebRtcSpl_SqrtFloor v = 0"
  by (simp add: WebRtcSpl_SqrtFloor_def sqrt_iter_neg)

text \<open>
  C27. \<open>WebRtcSpl_SqrtFloor\<close> returns the integer part of the square root of every non-negative 32 bit
  value, and 0 for a negative one, as its comment says.
\<close>

theorem SqrtFloor_correct:
  assumes "is_s32 v"
  shows "(if v < 0 then WebRtcSpl_SqrtFloor v = 0
          else 0 \<le> WebRtcSpl_SqrtFloor v
             \<and> (WebRtcSpl_SqrtFloor v)\<^sup>2 \<le> v \<and> v < (WebRtcSpl_SqrtFloor v + 1)\<^sup>2)"
  using assms sqrt_floor_bounds [of v] by (simp add: sqrt_floor_neg is_s32_def power2_eq_square)

lemma SqrtFloor_correct_witness: "(WebRtcSpl_SqrtFloor 99)\<^sup>2 \<le> 99 \<and> 99 < (WebRtcSpl_SqrtFloor 99 + 1)\<^sup>2"
  using SqrtFloor_correct [of 99] by (simp add: is_s32_def)

section \<open>Square root by Taylor expansion (spl\_sqrt.c)\<close>

definition WebRtcSpl_SqrtLocal :: "int \<Rightarrow> int" where
  "WebRtcSpl_SqrtLocal inp =
     (let B = shr inp 1;
          B = s32 (B - 0x40000000);
          x_half = s16 (shr B 16);
          B = s32 (B + 0x40000000);
          B = s32 (B + 0x40000000);
          x2 = s32 (x_half * x_half * 2);
          A = s32 (- x2);
          B = s32 (B + shr A 1);
          A = shr A 16;
          A = s32 (A * A * 2);
          t16 = s16 (shr A 16);
          B = s32 (B + s32 (WEBRTC_SPL_MUL_16_16 (-20480) t16 * 2));
          t16 = s16 (shr A 16);
          A = s32 (WEBRTC_SPL_MUL_16_16 x_half t16 * 2);
          t16 = s16 (shr A 16);
          B = s32 (B + s32 (WEBRTC_SPL_MUL_16_16 28672 t16 * 2));
          t16 = s16 (shr x2 16);
          A = s32 (WEBRTC_SPL_MUL_16_16 x_half t16 * 2);
          B = s32 (B + shr A 1)
      in s32 (B + 32768))"

definition WebRtcSpl_Sqrt :: "int \<Rightarrow> int" where
  "WebRtcSpl_Sqrt val =
     (let k_sqrt_2 = 23170; A = val in
      if A = 0 then 0
      else
        let sh = s16 (WebRtcSpl_NormW32 A);
            A = s32 (shl A (nat sh));
            A = (if A < WEBRTC_SPL_WORD32_MAX - 32767 then s32 (A + 32768) else WEBRTC_SPL_WORD32_MAX);
            x_norm = s16 (shr A 16);
            nshift = s16 (shr sh 1);
            nshift = s16 (- nshift);
            A = s32 (shl x_norm 16);
            A = WEBRTC_SPL_ABS_W32 A;
            A = WebRtcSpl_SqrtLocal A;
            A = (if -2 * nshift = sh
                 then let t16 = s16 (shr A 16);
                          A = s32 (WEBRTC_SPL_MUL_16_16 k_sqrt_2 t16 * 2);
                          A = s32 (A + 32768);
                          A = A AND 0x7fff0000
                      in shr A 15
                 else shr A 16);
            A = A AND 0x0000ffff
        in WEBRTC_SPL_SHIFT_W32 A nshift)"

text \<open>The worked example of the source comment: the square root of 73632 is returned as 271.\<close>

lemma WebRtcSpl_Sqrt_example: "WebRtcSpl_Sqrt 73632 = 271"
  by code_simp

end
