(* ===== verification/Spl_Min_Max.thy ===== *)
theory Spl_Min_Max
  imports Spl_Inl
begin

text \<open>
  \<open>common_audio/signal_processing/min_max_operations.c\<close>: the maximum and minimum of a vector and
  their indices. All the C functions are the same scan with another comparison, stated once in the
  locale \<open>strict_scan\<close> and interpreted at \<open>>\<close> and \<open><\<close>.

  A pointer argument is an \<open>option\<close>: \<open>None\<close> is the null pointer, \<open>Some v\<close> the array.
\<close>

type_synonym vec = "int list option"

section \<open>The functions\<close>

definition vec_empty :: "vec \<Rightarrow> int \<Rightarrow> bool" where
  "vec_empty vector len \<longleftrightarrow> vector = None \<or> len \<le> 0"

definition vec_take :: "vec \<Rightarrow> int \<Rightarrow> int list" where
  "vec_take vector len = take (nat len) (the vector)"

definition WebRtcSpl_MaxAbsValueW16C :: "vec \<Rightarrow> int \<Rightarrow> int" where
  "WebRtcSpl_MaxAbsValueW16C vector len =
     (if vec_empty vector len then -1
      else let maximum = fold (\<lambda>x maximum. if \<bar>x\<bar> > maximum then \<bar>x\<bar> else maximum)
                              (vec_take vector len) 0;
               maximum = (if maximum > WEBRTC_SPL_WORD16_MAX then WEBRTC_SPL_WORD16_MAX else maximum)
           in s16 maximum)"

definition WebRtcSpl_MaxAbsValueW32C :: "vec \<Rightarrow> int \<Rightarrow> int" where
  "WebRtcSpl_MaxAbsValueW32C vector len =
     (if vec_empty vector len then -1
      else let maximum = fold (\<lambda>x maximum. if u32 (s32 \<bar>x\<bar>) > maximum then u32 (s32 \<bar>x\<bar>) else maximum)
                              (vec_take vector len) 0;
               maximum = (if maximum < u32 WEBRTC_SPL_WORD32_MAX then maximum else WEBRTC_SPL_WORD32_MAX)
           in s32 maximum)"

definition WebRtcSpl_MaxValueW16C :: "vec \<Rightarrow> int \<Rightarrow> int" where
  "WebRtcSpl_MaxValueW16C vector len =
     (if vec_empty vector len then WEBRTC_SPL_WORD16_MIN
      else fold (\<lambda>x maximum. if x > maximum then x else maximum) (vec_take vector len) WEBRTC_SPL_WORD16_MIN)"

definition WebRtcSpl_MaxValueW32C :: "vec \<Rightarrow> int \<Rightarrow> int" where
  "WebRtcSpl_MaxValueW32C vector len =
     (if vec_empty vector len then WEBRTC_SPL_WORD32_MIN
      else fold (\<lambda>x maximum. if x > maximum then x else maximum) (vec_take vector len) WEBRTC_SPL_WORD32_MIN)"

definition WebRtcSpl_MinValueW16C :: "vec \<Rightarrow> int \<Rightarrow> int" where
  "WebRtcSpl_MinValueW16C vector len =
     (if vec_empty vector len then WEBRTC_SPL_WORD16_MAX
      else fold (\<lambda>x minimum. if x < minimum then x else minimum) (vec_take vector len) WEBRTC_SPL_WORD16_MAX)"

definition WebRtcSpl_MinValueW32C :: "vec \<Rightarrow> int \<Rightarrow> int" where
  "WebRtcSpl_MinValueW32C vector len =
     (if vec_empty vector len then WEBRTC_SPL_WORD32_MAX
      else fold (\<lambda>x minimum. if x < minimum then x else minimum) (vec_take vector len) WEBRTC_SPL_WORD32_MAX)"

text \<open>The index functions carry the best value and its index through the loop.\<close>

definition WebRtcSpl_MaxAbsIndexW16 :: "vec \<Rightarrow> int \<Rightarrow> int" where
  "WebRtcSpl_MaxAbsIndexW16 vector len =
     (if vec_empty vector len then -1
      else int (snd (fold (\<lambda>i (maximum, index). if \<bar>the vector ! i\<bar> > maximum
                                               then (\<bar>the vector ! i\<bar>, i) else (maximum, index))
                          [0..<nat len] (0, 0))))"

definition WebRtcSpl_MaxIndexW16 :: "vec \<Rightarrow> int \<Rightarrow> int" where
  "WebRtcSpl_MaxIndexW16 vector len =
     (if vec_empty vector len then -1
      else int (snd (fold (\<lambda>i (maximum, index). if the vector ! i > maximum
                                               then (the vector ! i, i) else (maximum, index))
                          [0..<nat len] (WEBRTC_SPL_WORD16_MIN, 0))))"

definition WebRtcSpl_MaxIndexW32 :: "vec \<Rightarrow> int \<Rightarrow> int" where
  "WebRtcSpl_MaxIndexW32 vector len =
     (if vec_empty vector len then -1
      else int (snd (fold (\<lambda>i (maximum, index). if the vector ! i > maximum
                                               then (the vector ! i, i) else (maximum, index))
                          [0..<nat len] (WEBRTC_SPL_WORD32_MIN, 0))))"

definition WebRtcSpl_MinIndexW16 :: "vec \<Rightarrow> int \<Rightarrow> int" where
  "WebRtcSpl_MinIndexW16 vector len =
     (if vec_empty vector len then -1
      else int (snd (fold (\<lambda>i (minimum, index). if the vector ! i < minimum
                                               then (the vector ! i, i) else (minimum, index))
                          [0..<nat len] (WEBRTC_SPL_WORD16_MAX, 0))))"

definition WebRtcSpl_MinIndexW32 :: "vec \<Rightarrow> int \<Rightarrow> int" where
  "WebRtcSpl_MinIndexW32 vector len =
     (if vec_empty vector len then -1
      else int (snd (fold (\<lambda>i (minimum, index). if the vector ! i < minimum
                                               then (the vector ! i, i) else (minimum, index))
                          [0..<nat len] (WEBRTC_SPL_WORD32_MAX, 0))))"

section \<open>Scans for an extremum\<close>

locale strict_scan =
  fixes better :: "int \<Rightarrow> int \<Rightarrow> bool"
  assumes irrefl: "\<not> better x x"
    and trans: "better x y \<Longrightarrow> better y z \<Longrightarrow> better x z"
    and total: "x \<noteq> y \<Longrightarrow> better x y \<or> better y x"
begin

text \<open>The value kept by a scan is the start value or an element, and none of these is better.\<close>

lemma value_scan:
  fixes xs :: "'a list" and f :: "'a \<Rightarrow> int"
  defines "scan \<equiv> fold (\<lambda>x m. if better (f x) m then f x else m)"
  shows "scan xs m0 \<in> insert m0 (f ` set xs) \<and> \<not> better m0 (scan xs m0)
       \<and> (\<forall>x \<in> set xs. \<not> better (f x) (scan xs m0))"
  unfolding scan_def
proof (induction xs arbitrary: m0)
  case Nil
  then show ?case by (simp add: irrefl)
next
  case (Cons x xs)
  show ?case
  proof (cases "better (f x) m0")
    case True
    note IH = Cons [of "f x"]
    have "\<not> better m0 (fold (\<lambda>x m. if better (f x) m then f x else m) xs (f x))"
      using IH True trans by blast
    with IH True show ?thesis by simp
  next
    case False
    have "\<not> better (f x) (fold (\<lambda>x m. if better (f x) m then f x else m) xs m0)"
    proof
      let ?r = "fold (\<lambda>x m. if better (f x) m then f x else m) xs m0"
      assume r: "better (f x) ?r"
      have "better m0 ?r"
      proof (cases "f x = m0")
        case neq: False
        then have "better m0 (f x)" using total [OF neq] False by simp
        then show ?thesis using r by (rule trans)
      qed (use r in simp)
      then show False using Cons [of m0] by simp
    qed
    with False show ?thesis using Cons [of m0] by auto
  qed
qed

text \<open>
  The index kept by a scan from a start value no element is worse than: the first index whose
  element is not bettered.
\<close>

lemma index_scan:
  fixes f :: "nat \<Rightarrow> int"
  assumes start: "\<And>i. i < n \<Longrightarrow> \<not> better m0 (f i)"
    and r: "fold (\<lambda>i (m, k). if better (f i) m then (f i, i) else (m, k)) [0..<n] (m0, 0) = (m, k)"
    and n: "0 < n"
  shows "k < n \<and> m = f k \<and> (\<forall>i<n. \<not> better (f i) (f k)) \<and> (\<forall>i<k. better (f k) (f i))"
  using n start r
proof (induction n arbitrary: m k)
  case 0
  then show ?case by simp
next
  case (Suc n)
  show ?case
  proof (cases "n = 0")
    case True
    have "f 0 = m0 \<or> better (f 0) m0" using Suc.prems(2) [of 0] total [of "f 0" m0] by blast
    then have "m = f 0 \<and> k = 0" using Suc.prems(3) True by (auto simp: irrefl)
    then show ?thesis using True by (simp add: irrefl)
  next
    case False
    then have "0 < n" by simp
    obtain m' k' where mk: "fold (\<lambda>i (m, k). if better (f i) m then (f i, i) else (m, k)) [0..<n] (m0, 0)
        = (m', k')" by (rule prod.exhaust)
    have "\<not> better m0 (f i)" if "i < n" for i using Suc.prems(2) that by simp
    from Suc.IH [OF \<open>0 < n\<close> this mk] have IH:
      "k' < n" "m' = f k'" "\<forall>i<n. \<not> better (f i) (f k')" "\<forall>i<k'. better (f k') (f i)"
      by blast+
    have mk': "(m, k) = (if better (f n) m' then (f n, n) else (m', k'))"
      using Suc.prems(3) mk by simp
    show ?thesis
    proof (cases "better (f n) m'")
      case True
      have "better (f n) (f i)" if "i < n" for i
      proof (cases "f i = f k'")
        case False
        then have "better (f k') (f i)" using IH(3) that total [of "f i" "f k'"] by blast
        with True IH(2) show ?thesis using trans [of "f n" "f k'" "f i"] by simp
      qed (use True IH(2) in simp)
      moreover have "\<not> better (f i) (f n)" if "i < n" for i
        using trans [OF calculation [OF that]] irrefl [of "f n"] by blast
      ultimately show ?thesis using mk' True irrefl by (auto simp: less_Suc_eq)
    next
      case False
      then show ?thesis using mk' IH by (auto simp: less_Suc_eq)
    qed
  qed
qed

lemma index_scan_snd:
  assumes "\<And>i. i < n \<Longrightarrow> \<not> better m0 (f i)" and "0 < n"
  defines "k \<equiv> snd (fold (\<lambda>i (m, k). if better (f i) m then (f i, i) else (m, k)) [0..<n] (m0, 0))"
  shows "k < n \<and> (\<forall>i<n. \<not> better (f i) (f k)) \<and> (\<forall>i<k. better (f k) (f i))"
proof -
  obtain m k' where "fold (\<lambda>i (m, k). if better (f i) m then (f i, i) else (m, k)) [0..<n] (m0, 0) = (m, k')"
    by (rule prod.exhaust)
  with index_scan [OF assms(1) this assms(2)] show ?thesis unfolding k_def snd_conv by simp
qed

end

interpretation max_scan: strict_scan "\<lambda>x y. x > y"
  by unfold_locales auto

interpretation min_scan: strict_scan "\<lambda>x y. x < y"
  by unfold_locales auto


lemma vec_take_whole: "len = int (length v) \<Longrightarrow> vec_take (Some v) len = v"
  by (simp add: vec_take_def)

lemma MaxValueW16_scan:
  assumes "0 < len"
  shows "WebRtcSpl_MaxValueW16C (Some v) len \<in> insert (-32768) (set (take (nat len) v))
       \<and> (\<forall>x \<in> set (take (nat len) v). x \<le> WebRtcSpl_MaxValueW16C (Some v) len)"
  using assms max_scan.value_scan [of "\<lambda>x. x" "take (nat len) v" "-32768"]
  by (simp add: WebRtcSpl_MaxValueW16C_def vec_empty_def vec_take_def spl_limits not_less)

lemma MaxAbsValueW16_scan:
  assumes "0 < len" and "nat len \<le> length v" and "\<forall>x \<in> set v. is_s16 x"
  shows "\<exists>m \<in> (\<lambda>x. \<bar>x\<bar>) ` set (take (nat len) v).
      (\<forall>x \<in> set (take (nat len) v). \<bar>x\<bar> \<le> m) \<and> WebRtcSpl_MaxAbsValueW16C (Some v) len = min 32767 m"
proof -
  let ?m = "fold (\<lambda>x m. if \<bar>x\<bar> > m then \<bar>x\<bar> else m) (take (nat len) v) 0"
  have ne: "take (nat len) v \<noteq> []" using assms by auto
  have sc: "?m \<in> insert 0 ((\<lambda>x. \<bar>x\<bar>) ` set (take (nat len) v))"
    "\<forall>x \<in> set (take (nat len) v). \<bar>x\<bar> \<le> ?m"
    using max_scan.value_scan [of "\<lambda>x. \<bar>x\<bar>" "take (nat len) v" 0] by (simp_all add: not_less)
  have "?m \<in> (\<lambda>x. \<bar>x\<bar>) ` set (take (nat len) v)"
  proof (cases "?m = 0")
    case True
    obtain y where y: "y \<in> set (take (nat len) v)" using ne by (meson list.set_sel(1))
    then have "\<bar>y\<bar> = ?m" using sc(2) True by force
    with y show ?thesis by (metis image_eqI)
  qed (use sc(1) in auto)
  moreover have "\<bar>x\<bar> \<le> 32768" if "x \<in> set (take (nat len) v)" for x
    using in_set_takeD [OF that] assms(3) by (auto simp: is_s16_def)
  then have "?m \<le> 32768" "0 \<le> ?m" using sc(1) by auto
  then have "WebRtcSpl_MaxAbsValueW16C (Some v) len = min 32767 ?m"
    using assms(1) by (auto simp: WebRtcSpl_MaxAbsValueW16C_def vec_empty_def vec_take_def spl_limits
        Let_def conv_id min_def)
  ultimately show ?thesis using sc(2) by blast
qed

lemma MinIndexW32_first:
  assumes "0 < len" and "nat len \<le> length v" and "\<forall>x \<in> set v. is_s32 x"
  shows "\<exists>k < nat len. WebRtcSpl_MinIndexW32 (Some v) len = int k
      \<and> (\<forall>j < nat len. v ! k \<le> v ! j) \<and> (\<forall>j < k. v ! k < v ! j)"
proof -
  have "v ! i \<le> 2147483647" if "i < nat len" for i
    using that assms(2,3) nth_mem [of i v] by (auto simp: is_s32_def)
  then show ?thesis using min_scan.index_scan_snd [where n = "nat len" and ?m0.0 = 2147483647 and f = "\<lambda>i. v ! i"]
    assms(1) unfolding WebRtcSpl_MinIndexW32_def vec_empty_def spl_limits option.sel not_less
    by (intro exI conjI) auto
qed

lemma MaxIndexW16_first:
  assumes "0 < len" and "nat len \<le> length v" and "\<forall>x \<in> set v. is_s16 x"
  shows "\<exists>k < nat len. WebRtcSpl_MaxIndexW16 (Some v) len = int k
      \<and> (\<forall>j < nat len. v ! j \<le> v ! k) \<and> (\<forall>j < k. v ! j < v ! k)"
proof -
  have "-32768 \<le> v ! i" if "i < nat len" for i
    using that assms(2,3) nth_mem [of i v] by (auto simp: is_s16_def)
  then show ?thesis using max_scan.index_scan_snd [where n = "nat len" and ?m0.0 = "-32768" and f = "\<lambda>i. v ! i"]
    assms(1) unfolding WebRtcSpl_MaxIndexW16_def vec_empty_def spl_limits option.sel not_less
    by (intro exI conjI) auto
qed

text \<open>
  The index functions return the first position of the extremum: no element of the vector beats
  the one at the returned index, and every earlier one is strictly worse.
\<close>

theorem extremum_index_first:
  assumes "0 < len" and "nat len \<le> length v" and "\<forall>x \<in> set v. is_s16 x"
    and "nat len \<le> length w" and "\<forall>x \<in> set w. is_s32 x"
  shows "(\<exists>k < nat len. WebRtcSpl_MaxIndexW16 (Some v) len = int k
            \<and> (\<forall>j < nat len. v ! j \<le> v ! k) \<and> (\<forall>j < k. v ! j < v ! k))
       \<and> (\<exists>k < nat len. WebRtcSpl_MinIndexW32 (Some w) len = int k
            \<and> (\<forall>j < nat len. w ! k \<le> w ! j) \<and> (\<forall>j < k. w ! k < w ! j))"
  using MaxIndexW16_first [OF assms(1-3)] MinIndexW32_first [OF assms(1,4,5)] by blast

lemma extremum_index_first_witness:
  "\<exists>k < nat 3. WebRtcSpl_MaxIndexW16 (Some [1, 7, 7]) 3 = int k \<and> (\<forall>j < nat 3. [1, 7, 7] ! j \<le> [1, 7, 7 :: int] ! k)"
  using extremum_index_first [of 3 "[1, 7, 7]" "[5, -3, -3]"] by (force simp: is_s16_def is_s32_def)

text \<open>
  \<open>WebRtcSpl_MaxAbsValueW16C\<close> returns the largest magnitude of the vector, capped at 32767: the
  cap, which keeps the result a 16 bit value, acts only on a magnitude of 32768.
\<close>

theorem MaxAbsValueW16_correct:
  assumes "0 < len" and "nat len \<le> length v" and "\<forall>x \<in> set v. is_s16 x"
  shows "WebRtcSpl_MaxAbsValueW16C (Some v) len
       = min 32767 (Max ((\<lambda>x. \<bar>x\<bar>) ` set (take (nat len) v)))"
proof -
  obtain m where m: "m \<in> (\<lambda>x. \<bar>x\<bar>) ` set (take (nat len) v)"
    "\<forall>x \<in> set (take (nat len) v). \<bar>x\<bar> \<le> m" "WebRtcSpl_MaxAbsValueW16C (Some v) len = min 32767 m"
    using MaxAbsValueW16_scan [OF assms] by blast
  then have "Max ((\<lambda>x. \<bar>x\<bar>) ` set (take (nat len) v)) = m" by (intro Max_eqI) auto
  with m(3) show ?thesis by simp
qed

lemma MaxAbsValueW16_correct_witness: "WebRtcSpl_MaxAbsValueW16C (Some [3, -32768]) 2 = 32767"
  using MaxAbsValueW16_correct [of 2 "[3, -32768]"] by (simp add: is_s16_def)

end
