(* ===== verification/Spl_Vector.thy ===== *)
theory Spl_Vector
  imports Spl_Min_Max
begin

text \<open>
  Vector operations of the signal processing library: \<open>copy_set_operations.c\<close>,
  \<open>vector_scaling_operations.c\<close>, \<open>dot_product_with_scale.c\<close>, \<open>get_scaling_square.c\<close>,
  \<open>energy.c\<close>, \<open>cross_correlation.c\<close> and \<open>auto_correlation.c\<close>.

  An output array is an argument and the result is the array as the function leaves it. An
  accumulator that adds 32 bit values is the sum modulo \<open>2\<^sup>3\<^sup>2\<close>; the properties say when it is the
  sum itself, which is what the scaling computed before each sum is for.
\<close>

section \<open>Setting and copying\<close>

definition WebRtcSpl_MemSetW16 :: "int list \<Rightarrow> int \<Rightarrow> int \<Rightarrow> int list" where
  "WebRtcSpl_MemSetW16 ptr set_value len = fold (\<lambda>j arr. arr[j := set_value]) [0..<nat len] ptr"

definition WebRtcSpl_MemSetW32 :: "int list \<Rightarrow> int \<Rightarrow> int \<Rightarrow> int list" where
  "WebRtcSpl_MemSetW32 ptr set_value len = fold (\<lambda>j arr. arr[j := set_value]) [0..<nat len] ptr"

text \<open>\<open>dest\<close> points to index \<open>p\<close> of its array and walks down.\<close>

definition WebRtcSpl_MemCpyReversedOrder :: "int list \<Rightarrow> nat \<Rightarrow> int list \<Rightarrow> int \<Rightarrow> int list" where
  "WebRtcSpl_MemCpyReversedOrder dest p source len =
     fold (\<lambda>j arr. arr[p - j := source ! j]) [0..<nat len] dest"

definition WebRtcSpl_CopyFromEndW16 :: "int list \<Rightarrow> int \<Rightarrow> int \<Rightarrow> int list \<Rightarrow> int \<times> int list" where
  "WebRtcSpl_CopyFromEndW16 vector_in len samples vector_out =
     (samples, fold (\<lambda>i arr. arr[i := vector_in ! (nat (len - samples) + i)]) [0..<nat samples] vector_out)"

definition WebRtcSpl_ZerosArrayW16 :: "int list \<Rightarrow> int \<Rightarrow> int \<times> int list" where
  "WebRtcSpl_ZerosArrayW16 vector len = (len, WebRtcSpl_MemSetW16 vector 0 len)"

definition WebRtcSpl_ZerosArrayW32 :: "int list \<Rightarrow> int \<Rightarrow> int \<times> int list" where
  "WebRtcSpl_ZerosArrayW32 vector len = (len, WebRtcSpl_MemSetW32 vector 0 len)"

definition WebRtcSpl_OnesArrayW16 :: "int list \<Rightarrow> int \<Rightarrow> int \<times> int list" where
  "WebRtcSpl_OnesArrayW16 vector len = (len, fold (\<lambda>i arr. arr[i := 1]) [0..<nat len] vector)"

definition WebRtcSpl_OnesArrayW32 :: "int list \<Rightarrow> int \<Rightarrow> int \<times> int list" where
  "WebRtcSpl_OnesArrayW32 vector len = (len, fold (\<lambda>i arr. arr[i := 1]) [0..<nat len] vector)"

section \<open>Shifting and scaling\<close>

definition WebRtcSpl_VectorBitShiftW16 :: "int list \<Rightarrow> int \<Rightarrow> int list \<Rightarrow> int \<Rightarrow> int list" where
  "WebRtcSpl_VectorBitShiftW16 res len inp right_shifts =
     (if right_shifts > 0
      then fold (\<lambda>i res. res[i := s16 (shr (inp ! i) (nat right_shifts))]) [0..<nat len] res
      else fold (\<lambda>i res. res[i := s16 (shl (inp ! i) (nat (- right_shifts)))]) [0..<nat len] res)"

definition WebRtcSpl_VectorBitShiftW32 :: "int list \<Rightarrow> int \<Rightarrow> int list \<Rightarrow> int \<Rightarrow> int list" where
  "WebRtcSpl_VectorBitShiftW32 out_vector vector_length in_vector right_shifts =
     (if right_shifts > 0
      then fold (\<lambda>i res. res[i := shr (in_vector ! i) (nat right_shifts)]) [0..<nat vector_length] out_vector
      else fold (\<lambda>i res. res[i := s32 (shl (in_vector ! i) (nat (- right_shifts)))])
             [0..<nat vector_length] out_vector)"

definition WebRtcSpl_VectorBitShiftW32ToW16 :: "int list \<Rightarrow> int \<Rightarrow> int list \<Rightarrow> int \<Rightarrow> int list" where
  "WebRtcSpl_VectorBitShiftW32ToW16 out len inp right_shifts =
     (if right_shifts \<ge> 0
      then fold (\<lambda>i out. out[i := WebRtcSpl_SatW32ToW16 (shr (inp ! i) (nat right_shifts))]) [0..<nat len] out
      else let left_shifts = s16 (- right_shifts)
           in fold (\<lambda>i out. out[i := WebRtcSpl_SatW32ToW16 (s32 (shl (inp ! i) (nat left_shifts)))])
                [0..<nat len] out)"

definition WebRtcSpl_ScaleVector :: "int list \<Rightarrow> int list \<Rightarrow> int \<Rightarrow> int \<Rightarrow> nat \<Rightarrow> int list" where
  "WebRtcSpl_ScaleVector in_vector out_vector gain in_vector_length right_shifts =
     fold (\<lambda>i out. out[i := s16 (WEBRTC_SPL_MUL_16_16_RSFT (in_vector ! i) gain right_shifts)])
       [0..<nat in_vector_length] out_vector"

definition WebRtcSpl_ScaleVectorWithSat :: "int list \<Rightarrow> int list \<Rightarrow> int \<Rightarrow> int \<Rightarrow> nat \<Rightarrow> int list" where
  "WebRtcSpl_ScaleVectorWithSat in_vector out_vector gain in_vector_length right_shifts =
     fold (\<lambda>i out. let tmpW32 = WEBRTC_SPL_MUL_16_16_RSFT (in_vector ! i) gain right_shifts
                   in out[i := WebRtcSpl_SatW32ToW16 tmpW32])
       [0..<nat in_vector_length] out_vector"

definition WebRtcSpl_ScaleAndAddVectors ::
    "int list \<Rightarrow> int \<Rightarrow> nat \<Rightarrow> int list \<Rightarrow> int \<Rightarrow> nat \<Rightarrow> int list \<Rightarrow> int \<Rightarrow> int list" where
  "WebRtcSpl_ScaleAndAddVectors in1 gain1 shift1 in2 gain2 shift2 out vector_length =
     fold (\<lambda>i out. out[i := s16 (s16 (WEBRTC_SPL_MUL_16_16_RSFT gain1 (in1 ! i) shift1)
                              + s16 (WEBRTC_SPL_MUL_16_16_RSFT gain2 (in2 ! i) shift2))])
       [0..<nat vector_length] out"

definition WebRtcSpl_ScaleAndAddVectorsWithRoundC ::
    "vec \<Rightarrow> int \<Rightarrow> vec \<Rightarrow> int \<Rightarrow> int \<Rightarrow> vec \<Rightarrow> int \<Rightarrow> int \<times> vec" where
  "WebRtcSpl_ScaleAndAddVectorsWithRoundC in_vector1 in_vector1_scale in_vector2 in_vector2_scale
     right_shifts out_vector len =
     (let round_value = shr (s32 (shl 1 (nat right_shifts))) 1 in
      if in_vector1 = None \<or> in_vector2 = None \<or> out_vector = None \<or> len \<le> 0 \<or> right_shifts < 0
      then (-1, out_vector)
      else (0, Some (fold (\<lambda>i out. out[i := s16 (shr (s32 (s32 (
                WEBRTC_SPL_MUL_16_16 (the in_vector1 ! i) in_vector1_scale
                + WEBRTC_SPL_MUL_16_16 (the in_vector2 ! i) in_vector2_scale) + round_value))
              (nat right_shifts))]) [0..<nat len] (the out_vector))))"

section \<open>Sums of products\<close>

text \<open>The unrolled loop and the loop for the rest, from index \<open>i\<close> on.\<close>

function dot_product_by_4 :: "(nat \<Rightarrow> int) \<Rightarrow> int \<Rightarrow> nat \<Rightarrow> int \<Rightarrow> nat \<times> int" where
  "dot_product_by_4 term len i acc =
     (if int i < len - 3
      then dot_product_by_4 term len (i + 4)
             (s32 (s32 (s32 (s32 (acc + term (i + 0)) + term (i + 1)) + term (i + 2)) + term (i + 3)))
      else (i, acc))"
  by pat_completeness auto
termination by (relation "measure (\<lambda>(_, len, i, _). nat (len - int i))") auto

declare dot_product_by_4.simps [simp del]

definition dot_product_loops :: "(nat \<Rightarrow> int) \<Rightarrow> int \<Rightarrow> int" where
  "dot_product_loops term len =
     (let (i, acc) = dot_product_by_4 term len 0 0
      in fold (\<lambda>i acc. s32 (acc + term i)) [i..<nat len] acc)"

definition WebRtcSpl_DotProductWithScale :: "int list \<Rightarrow> int list \<Rightarrow> int \<Rightarrow> nat \<Rightarrow> int" where
  "WebRtcSpl_DotProductWithScale vector1 vector2 len scaling =
     dot_product_loops (\<lambda>i. shr (vector1 ! i * vector2 ! i) scaling) len"

definition WebRtcSpl_GetScalingSquare :: "int list \<Rightarrow> int \<Rightarrow> int \<Rightarrow> int" where
  "WebRtcSpl_GetScalingSquare in_vector in_vector_length n =
     (let nbits = WebRtcSpl_GetSizeInBits (u32 n);
          smax = fold (\<lambda>x smax. let sabs = (if x > 0 then x else s16 (- x))
                                in if sabs > smax then sabs else smax)
                   (take (nat in_vector_length) in_vector) (-1);
          t = WebRtcSpl_NormW32 (WEBRTC_SPL_MUL smax smax)
      in if smax = 0 then 0 else if t > nbits then 0 else nbits - t)"

definition WebRtcSpl_Energy :: "int list \<Rightarrow> int \<Rightarrow> int \<times> int" where
  "WebRtcSpl_Energy vector vector_length =
     (let scaling = WebRtcSpl_GetScalingSquare vector vector_length vector_length;
          en = fold (\<lambda>x en. s32 (en + WEBRTC_SPL_MUL_16_16_RSFT x x (nat scaling)))
                 (take (nat vector_length) vector) 0
      in (en, scaling))"

text \<open>\<open>seq2\<close> is the array and \<open>p\<close> the index its pointer points to: the step may be negative.\<close>

definition WebRtcSpl_CrossCorrelationC ::
    "int list \<Rightarrow> int list \<Rightarrow> int list \<Rightarrow> nat \<Rightarrow> int \<Rightarrow> int \<Rightarrow> nat \<Rightarrow> int \<Rightarrow> int list" where
  "WebRtcSpl_CrossCorrelationC cross_correlation seq1 seq2 p dim_seq dim_cross_correlation right_shifts step_seq2 =
     fold (\<lambda>i cc. cc[i := fold (\<lambda>j acc. s32 (acc
                    + shr (seq1 ! j * seq2 ! nat (int p + step_seq2 * int i + int j)) right_shifts))
                  [0..<nat dim_seq] 0])
       [0..<nat dim_cross_correlation] cross_correlation"

definition WebRtcSpl_AutoCorrelation ::
    "int list \<Rightarrow> int \<Rightarrow> int \<Rightarrow> int list \<Rightarrow> int \<Rightarrow> int \<times> int list \<times> int" where
  "WebRtcSpl_AutoCorrelation in_vector in_vector_length order result scale =
     (if order > in_vector_length then (-1, result, scale)
      else let order = (if order < 0 then in_vector_length else order);
               smax = WebRtcSpl_MaxAbsValueW16C (Some in_vector) in_vector_length;
               scaling = (if smax = 0 then 0
                 else let nbits = WebRtcSpl_GetSizeInBits (u32 in_vector_length);
                          t = WebRtcSpl_NormW32 (WEBRTC_SPL_MUL smax smax)
                      in if t > nbits then 0 else nbits - t);
               result = fold (\<lambda>i result. result[i :=
                   dot_product_loops (\<lambda>j. shr (in_vector ! j * in_vector ! (i + j)) (nat scaling))
                     (in_vector_length - int i)]) [0..<nat (order + 1)] result
           in (order + 1, result, scaling))"

section \<open>Accumulators\<close>

lemma s32_add_s32 [simp]: "s32 (s32 a + b) = s32 (a + b)" "s32 (a + s32 b) = s32 (a + b)"
  by (simp_all add: s32_def mod_simps algebra_simps)

lemma fold_s32_add:
  "is_s32 a \<Longrightarrow> fold (\<lambda>i acc. s32 (acc + f i)) xs a = s32 (a + (\<Sum>i\<leftarrow>xs. f i))"
  by (induction xs arbitrary: a) (auto simp: ac_simps s32_iff [symmetric])

lemma dot_product_by_4_spec:
  assumes "is_s32 acc" and "int i \<le> max 0 len" and "dot_product_by_4 f len i acc = (j, t)"
  shows "i \<le> j \<and> int j \<le> max 0 len \<and> is_s32 t \<and> t = s32 (acc + (\<Sum>k\<leftarrow>[i..<j]. f k))"
  using assms
proof (induction f len i acc arbitrary: j t rule: dot_product_by_4.induct)
  case (1 f len i acc)
  show ?case
  proof (cases "int i < len - 3")
    case True
    let ?t = "s32 (s32 (s32 (s32 (acc + f (i + 0)) + f (i + 1)) + f (i + 2)) + f (i + 3))"
    have r: "dot_product_by_4 f len (i + 4) ?t = (j, t)"
      using 1(4) True by (subst (asm) dot_product_by_4.simps) simp
    have IH: "i + 4 \<le> j" "int j \<le> max 0 len" "is_s32 t" "t = s32 (?t + (\<Sum>k\<leftarrow>[i + 4..<j]. f k))"
      using 1(1) [OF True _ _ r] True by auto
    have "[i..<j] = [i..<i + 4] @ [i + 4..<j]" using IH(1) by (metis add_leD1 le_add1 upt_add_eq_append le_Suc_ex)
    moreover have "int j \<le> len" using IH(2) True by simp
    ultimately show ?thesis using IH by (simp add: numeral_3_eq_3 upt_rec [of i] upt_rec [of "Suc i"] upt_rec [of "Suc (Suc i)"]
        upt_rec [of "Suc (Suc (Suc i))"] ac_simps)
  next
    case False
    then show ?thesis using 1(2-4) by (subst (asm) dot_product_by_4.simps) (auto simp: s32_conv)
  qed
qed

lemma dot_product_loops_sum:
  "dot_product_loops f len = s32 (\<Sum>i = 0..<nat len. f i)"
proof -
  obtain j t where r: "dot_product_by_4 f len 0 0 = (j, t)" by (rule prod.exhaust)
  have s: "int j \<le> max 0 len \<and> is_s32 t \<and> t = s32 (\<Sum>k\<leftarrow>[0..<j]. f k)"
    using dot_product_by_4_spec [OF _ _ r] by (simp add: is_s32_def)
  then have "[0..<nat len] = [0..<j] @ [j..<nat len]" by (metis le_add_diff_inverse max.commute
        nat_int nat_mono of_nat_0 max_nat.left_neutral nat_0_le le0 upt_add_eq_append add_0 int_nat_eq max_def)
  moreover have "0 \<le> j" "j \<le> nat len" using s by auto
  then have "sum f {0..<j} + sum f {j..<nat len} = sum f {0..<nat len}" by (rule sum.atLeastLessThan_concat)
  ultimately show ?thesis using s r
    by (simp add: dot_product_loops_def fold_s32_add interv_sum_list_conv_sum_set_nat)
qed

section \<open>Scaling keeps the sums in range\<close>

text \<open>
  The shift the code computes for \<open>n\<close> terms: with \<open>nb\<close> the bit size of \<open>n\<close> and \<open>z\<close> the
  normalising shift of the largest product, every shifted term is at most \<open>2\<^sup>3\<^sup>1\<^sup>-\<^sup>n\<^sup>b\<close>.
\<close>

lemma scaled_term:
  assumes x: "\<bar>x\<bar> \<le> 2 ^ (31 - z)" and le: "nb \<le> 31" "z \<le> 31"
    and s: "s = (if z > nb then 0 else nb - z)"
  shows "\<bar>shr x s\<bar> \<le> 2 ^ (31 - nb)"
proof -
  have "(2 :: int) ^ (31 - z) \<le> 2 ^ (31 - nb) * 2 ^ s"
    unfolding power_add [symmetric] using le by (intro power_increasing) (auto simp: s)
  with x have x': "\<bar>x\<bar> \<le> 2 ^ (31 - nb) * 2 ^ s" by linarith
  then have "- (2 ^ (31 - nb)) \<le> shr x s" by (simp add: le_shr_iff abs_le_iff)
  moreover have "x < (2 ^ (31 - nb) + 1) * 2 ^ s"
    using x' zero_less_power [of "2 :: int" s] unfolding distrib_right abs_le_iff by linarith
  then have "shr x s < 2 ^ (31 - nb) + 1" by (simp only: shr_less_iff)
  ultimately show ?thesis by (simp add: abs_le_iff)
qed

lemma abs_sum_le: "(\<And>i. i < n \<Longrightarrow> \<bar>f i\<bar> \<le> B) \<Longrightarrow> \<bar>\<Sum>i = 0..<n. f i\<bar> \<le> int n * (B :: int)"
proof -
  assume f: "\<And>i. i < n \<Longrightarrow> \<bar>f i\<bar> \<le> B"
  have "\<bar>\<Sum>i = 0..<n. f i\<bar> \<le> (\<Sum>i = 0..<n. \<bar>f i\<bar>)" by (rule sum_abs)
  also have "\<dots> \<le> (\<Sum>i = 0..<n. B)" using f by (intro sum_mono) simp
  finally show ?thesis by simp
qed

lemma scaled_sum:
  assumes n: "0 < n" "n < 2147483648" and m: "int m \<le> n"
    and f: "\<And>i. i < m \<Longrightarrow> \<bar>f i\<bar> \<le> 2 ^ (31 - nat (WebRtcSpl_GetSizeInBits n))"
  shows "is_s32 (\<Sum>i = 0..<m. f i)" and "nat (WebRtcSpl_GetSizeInBits n) \<le> 31"
proof -
  obtain b where b: "WebRtcSpl_GetSizeInBits n = int b + 1" "2 ^ b \<le> n" "n < 2 ^ (b + 1)"
    using GetSizeInBits_pos [of n] n by auto
  have "(2 :: int) ^ b < 2 ^ 31" using b n by simp
  then have b31: "b < 31" by (rule power_less_imp_less_exp [rotated]) simp
  then show "nat (WebRtcSpl_GetSizeInBits n) \<le> 31" using b by simp
  have nb: "nat (WebRtcSpl_GetSizeInBits n) = b + 1" using b by simp
  have "\<bar>\<Sum>i = 0..<m. f i\<bar> \<le> int m * 2 ^ (31 - (b + 1))"
    using f unfolding nb by (rule abs_sum_le)
  also have "\<dots> < 2 ^ (b + 1) * 2 ^ (31 - (b + 1))"
    using b m by (intro mult_strict_right_mono) auto
  also have "\<dots> = 2 ^ 31" unfolding power_add [symmetric] using b31 by simp
  finally show "is_s32 (\<Sum>i = 0..<m. f i)" by (simp add: is_s32_def abs_less_iff)
qed

text \<open>The shift both \<open>WebRtcSpl_AutoCorrelation\<close> and \<open>WebRtcSpl_GetScalingSquare\<close> compute.\<close>

definition square_scaling :: "int \<Rightarrow> int \<Rightarrow> int" where
  "square_scaling smax n =
     (if WebRtcSpl_NormW32 (WEBRTC_SPL_MUL smax smax) > WebRtcSpl_GetSizeInBits n then 0
      else WebRtcSpl_GetSizeInBits n - WebRtcSpl_NormW32 (WEBRTC_SPL_MUL smax smax))"

lemma norm_square:
  assumes "0 < smax" and "smax \<le> 32767"
  shows "\<exists>z. WebRtcSpl_NormW32 (WEBRTC_SPL_MUL smax smax) = int z \<and> z \<le> 31 \<and> smax * smax \<le> 2 ^ (31 - z)
    \<and> (smax = 32767 \<longrightarrow> z = 1)"
proof -
  have sq: "0 < smax * smax" "smax * smax \<le> 32767 * 32767"
    using assms by simp (rule mult_mono, use assms in auto)
  have e: "WEBRTC_SPL_MUL smax smax = smax * smax" 
  proof -
    have "s32 smax = smax" by (rule s32_id) (use assms in auto)
    moreover have "s32 (smax * smax) = smax * smax" by (rule s32_id) (use sq in linarith)+
    ultimately show ?thesis by (simp add: WEBRTC_SPL_MUL_def)
  qed
  obtain z where z: "WebRtcSpl_NormW32 (smax * smax) = int z" "smax * smax * 2 ^ z < 2147483648"
    using NormW32_pos [of "smax * smax"] sq by auto
  have "1 * 2 ^ z \<le> smax * smax * 2 ^ z" using sq by (intro mult_right_mono) auto
  then have "(2 :: int) ^ z < 2147483648" using z(2) by linarith
  then have "(2 :: int) ^ z < 2 ^ 31" by simp
  then have z31: "z < 31" by (rule power_less_imp_less_exp [rotated]) simp
  then have "(2 :: int) ^ (31 - z) * 2 ^ z = 2147483648" unfolding power_add [symmetric] by simp
  then have "smax * smax * 2 ^ z < 2 ^ (31 - z) * 2 ^ z" using z by simp
  then have "smax * smax < 2 ^ (31 - z)" by simp
  moreover have "WebRtcSpl_NormW32 1073676289 = 1" by code_simp
  then have "smax = 32767 \<longrightarrow> z = 1" using z by auto
  ultimately show ?thesis unfolding e using z z31 by auto
qed

lemma square_scaling_terms:
  assumes smax: "0 < smax" "smax \<le> 32767" and n: "0 < n" "n < 2147483648" and m: "int m \<le> n"
    and f: "\<And>i. i < m \<Longrightarrow> \<bar>g i\<bar> \<le> smax * smax \<or> smax = 32767 \<and> \<bar>g i\<bar> \<le> 1073741824"
  shows "is_s32 (\<Sum>i = 0..<m. shr (g i) (nat (square_scaling smax n)))"
    and "0 \<le> square_scaling smax n"
proof -
  obtain z where z: "WebRtcSpl_NormW32 (WEBRTC_SPL_MUL smax smax) = int z" "z \<le> 31"
    "smax * smax \<le> 2 ^ (31 - z)" "smax = 32767 \<longrightarrow> z = 1" using norm_square [OF smax] by blast
  define nb where "nb = nat (WebRtcSpl_GetSizeInBits n)"
  have nb: "WebRtcSpl_GetSizeInBits n = int nb" using GetSizeInBits_pos [of n] n by (auto simp: nb_def)
  have "nb \<le> 31" unfolding nb_def by (rule scaled_sum(2) [of n 0]) (use n in auto)
  moreover have "\<bar>g i\<bar> \<le> 2 ^ (31 - z)" if "i < m" for i using f [OF that] z by auto
  moreover have "nat (square_scaling smax n) = (if z > nb then 0 else nb - z)"
    by (simp add: square_scaling_def z nb nat_diff_distrib)
  ultimately have "\<bar>shr (g i) (nat (square_scaling smax n))\<bar> \<le> 2 ^ (31 - nb)" if "i < m" for i
    using scaled_term [OF _ _ z(2)] that by blast
  then show "is_s32 (\<Sum>i = 0..<m. shr (g i) (nat (square_scaling smax n)))"
    unfolding nb_def by (rule scaled_sum(1) [OF n m])
  show "0 \<le> square_scaling smax n" by (simp add: square_scaling_def z nb)
qed

section \<open>The properties of the sums\<close>

text \<open>The unrolled dot product is the sum of the shifted products, modulo \<open>2\<^sup>3\<^sup>2\<close>: whatever the
  length, the loop of four and the loop for the rest take every index once.\<close>

theorem DotProductWithScale_sum:
  "WebRtcSpl_DotProductWithScale v w len scaling
     = s32 (\<Sum>i = 0..<nat len. shr (v ! i * w ! i) scaling)"
  by (simp add: WebRtcSpl_DotProductWithScale_def dot_product_loops_sum)

lemma MaxAbs_bound:
  assumes "0 < len" and "nat len \<le> length v" and "\<forall>x \<in> set v. is_s16 x" and "i < nat len" and "j < nat len"
  defines "M \<equiv> WebRtcSpl_MaxAbsValueW16C (Some v) len"
  shows "\<bar>v ! i * v ! j\<bar> \<le> M * M \<or> M = 32767 \<and> \<bar>v ! i * v ! j\<bar> \<le> 1073741824"
proof -
  obtain m where m: "\<forall>x \<in> set (take (nat len) v). \<bar>x\<bar> \<le> m" "M = min 32767 m"
    using MaxAbsValueW16_scan [OF assms(1-3)] unfolding M_def by blast
  have nth: "v ! i \<in> set (take (nat len) v)" if "i < nat len" for i
    using that assms(2) unfolding in_set_conv_nth by (intro exI [of _ i]) simp
  have vi: "\<bar>v ! i\<bar> \<le> m" "\<bar>v ! j\<bar> \<le> m" using m(1) nth assms(4,5) by auto
  show ?thesis
  proof (cases "m \<le> 32767")
    case True
    then show ?thesis using abs_mult_le [OF vi] m by simp
  next
    case False
    moreover have "\<bar>v ! i * v ! j\<bar> \<le> 1073741824"
      using assms(2-5) by (intro abs_mult_s16) auto
    ultimately show ?thesis using m by simp
  qed
qed

lemma MaxAbs_range:
  assumes "0 < len" and "nat len \<le> length v" and "\<forall>x \<in> set v. is_s16 x"
  shows "0 \<le> WebRtcSpl_MaxAbsValueW16C (Some v) len \<and> WebRtcSpl_MaxAbsValueW16C (Some v) len \<le> 32767"
  using MaxAbsValueW16_scan [OF assms] by auto

text \<open>C20. The autocorrelation never overflows: on any vector of 16 bit values, \<open>-32768\<close> included, the
  shift it computes makes every result the exact sum of the shifted products for its lag.\<close>

theorem AutoCorrelation_exact:
  assumes v: "\<forall>x \<in> set v. is_s16 x" and len: "0 < len" "len < 2147483648" "nat len \<le> length v"
    and order: "0 \<le> order" "order \<le> len" "nat (order + 1) \<le> length result"
  shows "\<exists>s. WebRtcSpl_AutoCorrelation v len order result scale =
      (order + 1,
       map (\<lambda>i. \<Sum>j = 0..<nat len - i. shr (v ! j * v ! (i + j)) s) [0..<nat (order + 1)]
         @ drop (nat (order + 1)) result, int s)"
proof -
  define M where "M = WebRtcSpl_MaxAbsValueW16C (Some v) len"
  define s where "s = (if M = 0 then 0 else square_scaling M len)"
  have M: "0 \<le> M" "M \<le> 32767" using MaxAbs_range [OF len(1,3) v] by (simp_all add: M_def)
  have bound: "\<bar>v ! j * v ! (i + j)\<bar> \<le> M * M \<or> M = 32767 \<and> \<bar>v ! j * v ! (i + j)\<bar> \<le> 1073741824"
    if "j < nat len - i" for i j
    using MaxAbs_bound [OF len(1,3) v, of j "i + j"] that by (simp add: M_def)
  have u: "u32 len = len" using len by (simp add: u32_id)
  have fits: "is_s32 (\<Sum>j = 0..<nat len - i. shr (v ! j * v ! (i + j)) (nat s))" for i
  proof (cases "M = 0")
    case True
    then have "v ! j * v ! (i + j) = 0" if "j < nat len - i" for j using bound [OF that] by auto
    then have "(\<Sum>j = 0..<nat len - i. shr (v ! j * v ! (i + j)) (nat s)) = 0"
      by (intro sum.neutral) (auto simp del: mult_eq_0_iff)
    then show ?thesis by (simp add: is_s32_def)
  next
    case False
    then have "s = square_scaling M len" by (simp add: s_def)
    then show ?thesis
      using square_scaling_terms(1) [of M len "nat len - i" "\<lambda>j. v ! j * v ! (i + j)"] M False len bound by simp
  qed
  have s0: "0 \<le> s"
    using square_scaling_terms(2) [of M len 0 "\<lambda>_. 0"] M len by (simp add: s_def)
  have nl: "nat (len - int i) = nat len - i" for i by simp
  have sums: "dot_product_loops (\<lambda>j. shr (v ! j * v ! (i + j)) (nat s)) (len - int i)
      = (\<Sum>j = 0..<nat len - i. shr (v ! j * v ! (i + j)) (nat s))" for i
    unfolding dot_product_loops_sum nl by (rule s32_conv [OF fits])
  have "WebRtcSpl_AutoCorrelation v len order result scale =
      (order + 1, map (\<lambda>i. \<Sum>j = 0..<nat len - i. shr (v ! j * v ! (i + j)) (nat s)) [0..<nat (order + 1)]
         @ drop (nat (order + 1)) result, s)"
    using order unfolding WebRtcSpl_AutoCorrelation_def Let_def M_def [symmetric] u
      square_scaling_def [symmetric] s_def [symmetric] sums by (simp add: fold_write_upt)
  then show ?thesis using s0 by (intro exI [of _ "nat s"]) simp
qed

theorem AutoCorrelation_exact_witness:
  "\<exists>s. WebRtcSpl_AutoCorrelation [-32768, -32768, 5] 3 1 [0, 0, 9] 0 =
      (1 + 1, map (\<lambda>i. \<Sum>j = 0..<nat 3 - i. shr ([-32768, -32768, 5] ! j * [-32768, -32768, 5] ! (i + j)) s)
         [0..<nat (1 + 1)] @ drop (nat (1 + 1)) [0, 0, 9], int s)"
  by (rule AutoCorrelation_exact) (simp_all add: is_s16_def)

text \<open>The largest magnitude as \<open>WebRtcSpl_GetScalingSquare\<close> scans for it, when no negation wraps.\<close>

lemma GetScalingSquare_eval:
  assumes "v \<noteq> []" and "\<forall>x \<in> set v. \<bar>x\<bar> \<le> 32767" and "len = int (length v)" and "len < 2147483648"
  shows "\<exists>M. WebRtcSpl_GetScalingSquare v len len = (if M = 0 then 0 else square_scaling M len)
     \<and> 0 \<le> M \<and> M \<le> 32767 \<and> (\<forall>x \<in> set v. \<bar>x\<bar> \<le> M)"
proof -
  define M where "M = fold (\<lambda>x m. if \<bar>x\<bar> > m then \<bar>x\<bar> else m) v (-1)"
  have sc: "M \<in> insert (-1) ((\<lambda>x. \<bar>x\<bar>) ` set v)" "\<forall>x \<in> set v. \<bar>x\<bar> \<le> M"
    using max_scan.value_scan [of "\<lambda>x. \<bar>x\<bar>" v "-1"] by (simp_all add: M_def not_less)
  obtain y where "y \<in> set v" using assms(1) by (meson list.set_sel(1))
  then have "0 \<le> M" using sc(2) by force
  moreover have "M \<le> 32767" using sc(1) assms(2) by auto
  moreover have "fold (\<lambda>x smax. let sabs = (if x > 0 then x else s16 (- x)) in if sabs > smax then sabs else smax)
      v (-1) = M"
    unfolding M_def
  proof (intro fold_cong refl ext)
    fix x m assume "x \<in> set v"
    then have "(if x > 0 then x else s16 (- x)) = \<bar>x\<bar>" using assms(2) s16_id [of "- x"] by auto
    then show "(let sabs = (if x > 0 then x else s16 (- x)) in if sabs > m then sabs else m)
        = (if \<bar>x\<bar> > m then \<bar>x\<bar> else m)" by (simp add: Let_def)
  qed
  ultimately show ?thesis using sc(2) assms(3,4) unfolding WebRtcSpl_GetScalingSquare_def Let_def
    by (intro exI [of _ M]) (simp add: square_scaling_def u32_id)
qed

text \<open>On a vector without \<open>-32768\<close>, \<open>WebRtcSpl_Energy\<close> is the exact sum of the shifted squares.\<close>

theorem Energy_exact:
  assumes "v \<noteq> []" and "\<forall>x \<in> set v. -32767 \<le> x \<and> x \<le> 32767" and "length v < 2147483648"
  shows "\<exists>s. WebRtcSpl_Energy v (int (length v)) = (\<Sum>i = 0..<length v. shr (v ! i * v ! i) s, int s)"
proof -
  have ab: "\<forall>x \<in> set v. \<bar>x\<bar> \<le> 32767" using assms(2) by auto
  have len: "0 < int (length v)" "int (length v) < 2147483648" using assms by auto
  obtain M where M: "WebRtcSpl_GetScalingSquare v (int (length v)) (int (length v))
      = (if M = 0 then 0 else square_scaling M (int (length v)))" "0 \<le> M" "M \<le> 32767" "\<forall>x \<in> set v. \<bar>x\<bar> \<le> M"
    using GetScalingSquare_eval [OF assms(1) ab refl len(2)] by blast
  define s where "s = (if M = 0 then 0 else square_scaling M (int (length v)))"
  have sq: "\<bar>v ! i * v ! i\<bar> \<le> M * M" if "i < length v" for i
    using abs_mult_le [of "v ! i" M "v ! i" M] M(4) that by simp
  have fits: "is_s32 (\<Sum>i = 0..<length v. shr (v ! i * v ! i) (nat s))"
  proof (cases "M = 0")
    case True
    then have "v ! i * v ! i = 0" if "i < length v" for i
      using sq [OF that] by (simp only: mult_zero_left abs_le_zero_iff)
    then have "(\<Sum>i = 0..<length v. shr (v ! i * v ! i) (nat s)) = 0" by (intro sum.neutral) (auto simp del: mult_eq_0_iff)
    then show ?thesis by (simp add: is_s32_def)
  next
    case False
    then show ?thesis
      using square_scaling_terms(1) [of M "int (length v)" "length v" "\<lambda>i. v ! i * v ! i"] M len sq
      by (simp add: s_def)
  qed
  have s0: "0 \<le> s" using square_scaling_terms(2) [of M "int (length v)" 0 "\<lambda>_. 0"] M len by (simp add: s_def)
  have mul: "WEBRTC_SPL_MUL_16_16_RSFT x x n = shr (x * x) n" if "x \<in> set v" for x n
  proof -
    have "is_s16 x" using assms(2) that by (auto simp: is_s16_def)
    then show ?thesis
      by (simp add: WEBRTC_SPL_MUL_16_16_RSFT_def WEBRTC_SPL_MUL_16_16_def s16_conv mult_s16_s32)
  qed
  have "fold (\<lambda>x en. s32 (en + WEBRTC_SPL_MUL_16_16_RSFT x x (nat s))) v 0
      = fold (\<lambda>x en. s32 (en + shr (x * x) (nat s))) v 0"
    by (intro fold_cong) (simp_all add: mul)
  also have "\<dots> = s32 (\<Sum>x\<leftarrow>v. shr (x * x) (nat s))" by (simp add: fold_s32_add is_s32_def)
  also have "(\<Sum>x\<leftarrow>v. shr (x * x) (nat s)) = (\<Sum>i = 0..<length v. shr (v ! i * v ! i) (nat s))"
    by (simp add: sum_list_sum_nth)
  finally have "WebRtcSpl_Energy v (int (length v)) = (\<Sum>i = 0..<length v. shr (v ! i * v ! i) (nat s), s)"
    using fits by (simp add: WebRtcSpl_Energy_def M(1) s_def [symmetric] s32_conv)
  then show ?thesis using s0 by (intro exI [of _ "nat s"]) simp
qed

theorem Energy_exact_witness:
  "\<exists>s. WebRtcSpl_Energy [-32767, 3] (int (length [-32767, 3 :: int]))
     = (\<Sum>i = 0..<length [-32767, 3 :: int]. shr ([-32767, 3] ! i * [-32767, 3] ! i) s, int s)"
  by (rule Energy_exact) simp_all

text \<open>With \<open>-32768\<close> it is not: the 16 bit negation wraps, the scan for the largest magnitude misses
  the element, and two such samples overflow the sum, so the energy of the loudest signal is negative.\<close>

theorem Energy_overflow: "WebRtcSpl_Energy [-32768, -32768] 2 = (-2147483648, 0)"
  by code_simp

end
