(* ===== verification/Spl_Resample.thy ===== *)
theory Spl_Resample
  imports Spl_Inl
begin

text \<open>
  The fixed point resamplers: \<open>resample_by_2.c\<close> (the C versions), \<open>resample_by_2_internal.c\<close>,
  \<open>resample_fractional.c\<close> and \<open>resample_48khz.c\<close>.

  An input array is a list; the output is the list of the values written to the output array from
  its start, and filter states are lists of 8 or 16 values, indexed and updated as in the code. The
  scratch memory of the 48 kHz functions is written before it is read, so it appears only as the
  intermediate lists.

  Every filter is one of a stream: the locale \<open>stream_filter\<close> states that cutting the signal into
  blocks does not change the output when the state is handed on, and proves it for any number of
  blocks; it is interpreted at the filters of the two files.
\<close>

section \<open>Streams\<close>

fun feed_blocks :: "('s \<Rightarrow> 'a list \<Rightarrow> 'b list \<times> 's) \<Rightarrow> 's \<Rightarrow> 'a list list \<Rightarrow> 'b list \<times> 's" where
  "feed_blocks f s [] = ([], s)"
| "feed_blocks f s (xs # xss) =
     (let (ys, s) = f s xs; (zs, s) = feed_blocks f s xss in (ys @ zs, s))"

locale stream_filter =
  fixes f :: "'s \<Rightarrow> 'a list \<Rightarrow> 'b list \<times> 's" and ok :: "'s \<Rightarrow> bool" and unit :: nat
  assumes empty: "ok s \<Longrightarrow> f s [] = ([], s)"
    and keeps_ok: "ok s \<Longrightarrow> ok (snd (f s xs))"
    and split: "ok s \<Longrightarrow> unit dvd length xs \<Longrightarrow>
      f s (xs @ ys) = (let (us, s) = f s xs; (vs, s) = f s ys in (us @ vs, s))"
begin

lemma blocks:
  "ok s \<Longrightarrow> \<forall>xs \<in> set xss. unit dvd length xs \<Longrightarrow> feed_blocks f s xss = f s (concat xss)"
proof (induction xss arbitrary: s)
  case Nil
  then show ?case by (simp add: empty)
next
  case (Cons xs xss)
  obtain us t where fx: "f s xs = (us, t)" by (rule prod.exhaust)
  have "ok t" using keeps_ok [OF Cons.prems(1), of xs] fx by simp
  then have "feed_blocks f t xss = f t (concat xss)" using Cons by simp
  then show ?case using split [of s xs "concat xss"] Cons.prems fx by simp
qed

end

section \<open>Allpass sections of resample\_by\_2\_internal.c\<close>

definition kResampleAllpass :: "int list list" where
  "kResampleAllpass = [[821, 6110, 12382], [3050, 9368, 15063]]"

text \<open>
  The body every loop of the file has: three allpass sections of one branch, whose four state values
  start at index \<open>k\<close> of the state array. \<open>tmp0\<close> is the input sample, the output is
  \<open>state[k + 3]\<close>.
\<close>

definition allpass_body :: "int list \<Rightarrow> nat \<Rightarrow> int \<Rightarrow> int list \<Rightarrow> int list" where
  "allpass_body coef k tmp0 state =
     (let diff = s32 (tmp0 - state ! (k + 1));
          diff = shr (s32 (diff + 8192)) 14;
          tmp1 = s32 (state ! k + s32 (diff * coef ! 0));
          state = state[k := tmp0];
          diff = s32 (tmp1 - state ! (k + 2));
          diff = shr diff 14;
          diff = (if diff < 0 then diff + 1 else diff);
          tmp0 = s32 (state ! (k + 1) + s32 (diff * coef ! 1));
          state = state[k + 1 := tmp1];
          diff = s32 (tmp0 - state ! (k + 3));
          diff = shr diff 14;
          diff = (if diff < 0 then diff + 1 else diff);
          state = state[k + 3 := s32 (state ! (k + 2) + s32 (diff * coef ! 2))];
          state = state[k + 2 := tmp0]
      in state)"

text \<open>One loop of the file over the samples \<open>xs\<close> of a branch: the outputs and the state.\<close>

fun allpass_loop :: "int list \<Rightarrow> nat \<Rightarrow> int list \<Rightarrow> int list \<Rightarrow> int list \<times> int list" where
  "allpass_loop coef k [] state = ([], state)"
| "allpass_loop coef k (x # xs) state =
     (let state = allpass_body coef k x state;
          y = state ! (k + 3);
          (ys, state) = allpass_loop coef k xs state
      in (y # ys, state))"

text \<open>The samples \<open>in[i << 1]\<close>, from \<open>in\<close> and from \<open>in + 1\<close>, and interleaved output.\<close>

definition evens :: "nat \<Rightarrow> 'a list \<Rightarrow> 'a list" where
  "evens n xs = map (\<lambda>i. xs ! (2 * i)) [0..<n]"

definition odds :: "nat \<Rightarrow> 'a list \<Rightarrow> 'a list" where
  "odds n xs = map (\<lambda>i. xs ! (2 * i + 1)) [0..<n]"

definition interleave :: "'a list \<Rightarrow> 'a list \<Rightarrow> 'a list" where
  "interleave xs ys = concat (map2 (\<lambda>x y. [x, y]) xs ys)"

text \<open>\<open>((int32_t)x << 15) + (1 << 14)\<close> and the clipping written out in the code.\<close>

definition to_q15 :: "int \<Rightarrow> int" where
  "to_q15 x = s32 (s32 (shl x 15) + 16384)"

definition clip16 :: "int \<Rightarrow> int" where
  "clip16 tmp = (let tmp = (if tmp > 0x00007FFF then 0x00007FFF else tmp);
                     tmp = (if tmp < s32 0xFFFF8000 then s32 0xFFFF8000 else tmp)
                 in s16 tmp)"

section \<open>The filters of resample\_by\_2\_internal.c\<close>

definition WebRtcSpl_DownBy2IntToShort :: "int list \<Rightarrow> int list \<Rightarrow> int list \<times> int list" where
  "WebRtcSpl_DownBy2IntToShort state inp =
     (let len = length inp div 2;
          (lo, state) = allpass_loop (kResampleAllpass ! 1) 0 (evens len inp) state;
          lo = map (\<lambda>y. shr y 1) lo;
          (up, state) = allpass_loop (kResampleAllpass ! 0) 4 (odds len inp) state;
          up = map (\<lambda>y. shr y 1) up
      in (map2 (\<lambda>x y. clip16 (shr (s32 (x + y)) 15)) lo up, state))"

definition WebRtcSpl_DownBy2ShortToInt :: "int list \<Rightarrow> int list \<Rightarrow> int list \<times> int list" where
  "WebRtcSpl_DownBy2ShortToInt state inp =
     (let len = length inp div 2;
          (lo, state) = allpass_loop (kResampleAllpass ! 1) 0 (map to_q15 (evens len inp)) state;
          out = map (\<lambda>y. shr y 1) lo;
          (up, state) = allpass_loop (kResampleAllpass ! 0) 4 (map to_q15 (odds len inp)) state
      in (map2 (\<lambda>x y. s32 (x + shr y 1)) out up, state))"

definition WebRtcSpl_UpBy2ShortToInt :: "int list \<Rightarrow> int list \<Rightarrow> int list \<times> int list" where
  "WebRtcSpl_UpBy2ShortToInt state inp =
     (let (up, state) = allpass_loop (kResampleAllpass ! 0) 4 (map to_q15 inp) state;
          up = map (\<lambda>y. shr y 15) up;
          (lo, state) = allpass_loop (kResampleAllpass ! 1) 0 (map to_q15 inp) state;
          lo = map (\<lambda>y. shr y 15) lo
      in (interleave up lo, state))"

definition WebRtcSpl_UpBy2IntToInt :: "int list \<Rightarrow> int list \<Rightarrow> int list \<times> int list" where
  "WebRtcSpl_UpBy2IntToInt state inp =
     (let (up, state) = allpass_loop (kResampleAllpass ! 0) 4 inp state;
          (lo, state) = allpass_loop (kResampleAllpass ! 1) 0 inp state
      in (interleave up lo, state))"

definition WebRtcSpl_UpBy2IntToShort :: "int list \<Rightarrow> int list \<Rightarrow> int list \<times> int list" where
  "WebRtcSpl_UpBy2IntToShort state inp =
     (let (up, state) = allpass_loop (kResampleAllpass ! 0) 4 inp state;
          up = map (\<lambda>y. clip16 (shr y 15)) up;
          (lo, state) = allpass_loop (kResampleAllpass ! 1) 0 inp state;
          lo = map (\<lambda>y. clip16 (shr y 15)) lo
      in (interleave up lo, state))"

text \<open>
  The low pass filters run two branches for the even and two for the odd output samples. The first
  loop consumes the odd inputs one sample late: it starts with \<open>state[12]\<close>, the last odd input of
  the previous call, and never consumes the last odd input of this one.
\<close>

definition WebRtcSpl_LPBy2ShortToInt :: "int list \<Rightarrow> int list \<Rightarrow> int list \<times> int list" where
  "WebRtcSpl_LPBy2ShortToInt state inp =
     (let len = length inp div 2;
          (e1, state) = allpass_loop (kResampleAllpass ! 1) 0
             (take len (state ! 12 # map to_q15 (odds len inp))) state;
          e1 = map (\<lambda>y. shr y 1) e1;
          (e2, state) = allpass_loop (kResampleAllpass ! 0) 4 (map to_q15 (evens len inp)) state;
          out_e = map2 (\<lambda>x y. shr (s32 (x + shr y 1)) 15) e1 e2;
          (o1, state) = allpass_loop (kResampleAllpass ! 1) 8 (map to_q15 (evens len inp)) state;
          o1 = map (\<lambda>y. shr y 1) o1;
          (o2, state) = allpass_loop (kResampleAllpass ! 0) 12 (map to_q15 (odds len inp)) state;
          out_o = map2 (\<lambda>x y. shr (s32 (x + shr y 1)) 15) o1 o2
      in (interleave out_e out_o, state))"

definition WebRtcSpl_LPBy2IntToInt :: "int list \<Rightarrow> int list \<Rightarrow> int list \<times> int list" where
  "WebRtcSpl_LPBy2IntToInt state inp =
     (let len = length inp div 2;
          (e1, state) = allpass_loop (kResampleAllpass ! 1) 0
             (take len (state ! 12 # odds len inp)) state;
          e1 = map (\<lambda>y. shr y 1) e1;
          (e2, state) = allpass_loop (kResampleAllpass ! 0) 4 (evens len inp) state;
          out_e = map2 (\<lambda>x y. shr (s32 (x + shr y 1)) 15) e1 e2;
          (o1, state) = allpass_loop (kResampleAllpass ! 1) 8 (evens len inp) state;
          o1 = map (\<lambda>y. shr y 1) o1;
          (o2, state) = allpass_loop (kResampleAllpass ! 0) 12 (odds len inp) state;
          out_o = map2 (\<lambda>x y. shr (s32 (x + shr y 1)) 15) o1 o2
      in (interleave out_e out_o, state))"

section \<open>The loops as runs of an automaton\<close>

text \<open>The same sections on the four values themselves.\<close>

type_synonym quad = "int \<times> int \<times> int \<times> int"

definition get4 :: "nat \<Rightarrow> int list \<Rightarrow> quad" where
  "get4 k st = (st ! k, st ! (k + 1), st ! (k + 2), st ! (k + 3))"

fun put4 :: "nat \<Rightarrow> quad \<Rightarrow> int list \<Rightarrow> int list" where
  "put4 k (a, b, c, d) st = st[k := a, k + 1 := b, k + 2 := c, k + 3 := d]"

definition allpass_quad :: "int list \<Rightarrow> int \<Rightarrow> quad \<Rightarrow> quad" where
  "allpass_quad coef x q = get4 0 (allpass_body coef 0 x (case q of (a, b, c, d) \<Rightarrow> [a, b, c, d]))"

fun run :: "int list \<Rightarrow> int list \<Rightarrow> quad \<Rightarrow> int list \<times> quad" where
  "run coef [] q = ([], q)"
| "run coef (x # xs) q =
     (let q = allpass_quad coef x q; (ys, q') = run coef xs q in (snd (snd (snd q)) # ys, q'))"

lemma length_put4 [simp]: "length (put4 k q st) = length st"
  by (cases q) simp

lemma get4_put4_same [simp]: "k + 4 \<le> length st \<Longrightarrow> get4 k (put4 k q st) = q"
  by (cases q) (simp add: get4_def)

lemma get4_put4_other [simp]: "j + 4 \<le> k \<or> k + 4 \<le> j \<Longrightarrow> get4 j (put4 k q st) = get4 j st"
  by (cases q) (auto simp: get4_def)

lemma put4_put4 [simp]: "k + 4 \<le> length st \<Longrightarrow> put4 k q (put4 k r st) = put4 k q st"
  by (cases q, cases r) (auto simp: list_eq_iff_nth_eq nth_list_update)

lemma put4_swap: "j + 4 \<le> k \<Longrightarrow> k + 4 \<le> length st \<Longrightarrow> put4 k q (put4 j r st) = put4 j r (put4 k q st)"
  by (cases q, cases r) (auto simp: list_eq_iff_nth_eq nth_list_update)

lemma nth_put4_last [simp]: "k + 4 \<le> length st \<Longrightarrow> put4 k q st ! (k + 3) = snd (snd (snd q))"
  by (cases q) simp

lemma put4_get4 [simp]: "put4 k (get4 k st) st = st"
  by (simp add: get4_def)

lemma allpass_body_quad:
  assumes "k + 4 \<le> length st"
  shows "allpass_body coef k x st = put4 k (allpass_quad coef x (get4 k st)) st"
  using assms
  by (simp add: allpass_body_def allpass_quad_def get4_def Let_def numeral_eq_Suc list_update_swap)

lemma allpass_loop_run:
  "k + 4 \<le> length st \<Longrightarrow> allpass_loop coef k xs st =
     (fst (run coef xs (get4 k st)), put4 k (snd (run coef xs (get4 k st))) st)"
proof (induction xs arbitrary: st)
  case (Cons x xs)
  then show ?case by (simp add: allpass_body_quad Let_def split_beta del: put4.simps)
qed simp

lemma run_append:
  "run coef (xs @ ys) q = (fst (run coef xs q) @ fst (run coef ys (snd (run coef xs q))),
     snd (run coef ys (snd (run coef xs q))))"
  by (induction xs arbitrary: q) (simp_all add: Let_def split_beta)

lemma length_run [simp]: "length (fst (run coef xs q)) = length xs"
  by (induction xs arbitrary: q) (simp_all add: Let_def split_beta)

lemma evens_append: "length xs = 2 * m \<Longrightarrow> evens (m + n) (xs @ ys) = evens m xs @ evens n ys"
  by (rule nth_equalityI) (auto simp: evens_def nth_append diff_mult_distrib2)

lemma odds_append: "length xs = 2 * m \<Longrightarrow> odds (m + n) (xs @ ys) = odds m xs @ odds n ys"
  by (rule nth_equalityI) (auto simp: odds_def nth_append diff_mult_distrib2 Suc_diff_le)

lemma length_evens [simp]: "length (evens n xs) = n" and length_odds [simp]: "length (odds n xs) = n"
  by (simp_all add: evens_def odds_def)

lemma evens_0 [simp]: "evens 0 xs = []" and odds_0 [simp]: "odds 0 xs = []"
  by (simp_all add: evens_def odds_def)

lemma interleave_append:
  "length xs = length ys \<Longrightarrow> interleave (xs @ xs') (ys @ ys') = interleave xs ys @ interleave xs' ys'"
  by (simp add: interleave_def)

lemma interleave_Nil [simp]: "interleave [] [] = []"
  by (simp add: interleave_def)

declare put4.simps [simp del]

section \<open>The filters are stream filters\<close>

lemmas stream_simps = allpass_loop_run run_append Let_def split_beta put4_swap interleave_append

lemma half_append: "2 dvd length xs \<Longrightarrow> length (xs @ ys) div 2 = length xs div 2 + length ys div 2"
  by auto

lemma even_split:
  assumes "2 dvd length xs"
  shows "evens (length (xs @ ys) div 2) (xs @ ys) = evens (length xs div 2) xs @ evens (length ys div 2) ys"
    and "odds (length (xs @ ys) div 2) (xs @ ys) = odds (length xs div 2) xs @ odds (length ys div 2) ys"
  unfolding half_append [OF assms] using assms by (auto simp: evens_append odds_append)

interpretation down_int_short: stream_filter WebRtcSpl_DownBy2IntToShort "\<lambda>st. length st = 8" 4
proof unfold_locales
  fix s xs ys :: "int list" assume s: "length s = 8"
  show "WebRtcSpl_DownBy2IntToShort s [] = ([], s)"
    by (simp add: WebRtcSpl_DownBy2IntToShort_def)
  show "length (snd (WebRtcSpl_DownBy2IntToShort s xs)) = 8"
    using s by (simp add: WebRtcSpl_DownBy2IntToShort_def stream_simps)
  assume "4 dvd length xs"
  then have "2 dvd length xs" by auto
  then show "WebRtcSpl_DownBy2IntToShort s (xs @ ys) = (let (us, s) = WebRtcSpl_DownBy2IntToShort s xs;
      (vs, s) = WebRtcSpl_DownBy2IntToShort s ys in (us @ vs, s))"
    using s by (simp add: WebRtcSpl_DownBy2IntToShort_def even_split [unfolded length_append] stream_simps)
qed

interpretation down_short_int: stream_filter WebRtcSpl_DownBy2ShortToInt "\<lambda>st. length st = 8" 2
proof unfold_locales
  fix s xs ys :: "int list" assume s: "length s = 8"
  show "WebRtcSpl_DownBy2ShortToInt s [] = ([], s)"
    by (simp add: WebRtcSpl_DownBy2ShortToInt_def)
  show "length (snd (WebRtcSpl_DownBy2ShortToInt s xs)) = 8"
    using s by (simp add: WebRtcSpl_DownBy2ShortToInt_def stream_simps)
  assume e: "2 dvd length xs"
  show "WebRtcSpl_DownBy2ShortToInt s (xs @ ys) = (let (us, s) = WebRtcSpl_DownBy2ShortToInt s xs;
      (vs, s) = WebRtcSpl_DownBy2ShortToInt s ys in (us @ vs, s))"
    using s e by (simp add: WebRtcSpl_DownBy2ShortToInt_def even_split [unfolded length_append] stream_simps)
qed

interpretation up_short_int: stream_filter WebRtcSpl_UpBy2ShortToInt "\<lambda>st. length st = 8" 1
  by unfold_locales (simp_all add: WebRtcSpl_UpBy2ShortToInt_def stream_simps)

interpretation up_int_int: stream_filter WebRtcSpl_UpBy2IntToInt "\<lambda>st. length st = 8" 1
  by unfold_locales (simp_all add: WebRtcSpl_UpBy2IntToInt_def stream_simps)

interpretation up_int_short: stream_filter WebRtcSpl_UpBy2IntToShort "\<lambda>st. length st = 8" 1
  by unfold_locales (simp_all add: WebRtcSpl_UpBy2IntToShort_def stream_simps)

text \<open>The delayed branch of the low pass filters: the sample held back is the last one fed to branch 12.\<close>

lemma run_fst_last: "fst (snd (run coef xs q)) = (if xs = [] then fst q else last xs)"
proof (induction xs arbitrary: q)
  case (Cons x xs)
  have "fst (allpass_quad coef x q) = x"
    by (cases q) (simp add: allpass_quad_def allpass_body_def get4_def Let_def)
  with Cons show ?case by (simp add: Let_def split_beta)
qed simp

lemma nth_fst_get4: "st ! k = fst (get4 k st)"
  by (simp add: get4_def)

lemma delay_split:
  "take (length xs + length ys) (a # xs @ ys)
     = take (length xs) (a # xs) @ take (length ys) ((if xs = [] then a else last xs) # ys)"
proof (cases xs rule: rev_cases)
  case (snoc zs z)
  then show ?thesis by simp
qed simp

lemma nth_12_after:
  assumes "length s = 16" and "j \<le> 8"
  shows "put4 j q s ! 12 = s ! 12"
  using assms by (cases q) (simp add: put4.simps)

lemmas lp_simps = stream_simps nth_12_after

interpretation lp_int_int: stream_filter WebRtcSpl_LPBy2IntToInt "\<lambda>st. length st = 16" 2
proof unfold_locales
  fix s xs ys :: "int list" assume s: "length s = 16"
  show "WebRtcSpl_LPBy2IntToInt s [] = ([], s)"
    by (simp add: WebRtcSpl_LPBy2IntToInt_def)
  show "length (snd (WebRtcSpl_LPBy2IntToInt s xs)) = 16"
    using s by (simp add: WebRtcSpl_LPBy2IntToInt_def stream_simps)
  assume e: "2 dvd length xs"
  let ?o = "odds (length xs div 2) xs" and ?p = "odds (length ys div 2) ys"
  have d: "take (length (xs @ ys) div 2) (s ! 12 # ?o @ ?p) = take (length xs div 2) (s ! 12 # ?o)
      @ take (length ys div 2) ((if ?o = [] then s ! 12 else last ?o) # ?p)"
    using delay_split [of ?o ?p "s ! 12"] unfolding half_append [OF e] by simp
  have l: "fst (snd (run c ?o (get4 12 s))) = (if ?o = [] then s ! 12 else last ?o)" for c
    unfolding run_fst_last nth_fst_get4 [of s 12] by (rule refl)
  have n: "put4 12 q t ! 12 = fst q" if "length t = 16" for q t
    using that by (cases q) (simp add: put4.simps)
  show "WebRtcSpl_LPBy2IntToInt s (xs @ ys) = (let (us, s) = WebRtcSpl_LPBy2IntToInt s xs;
      (vs, s) = WebRtcSpl_LPBy2IntToInt s ys in (us @ vs, s))"
    using s e by (simp add: WebRtcSpl_LPBy2IntToInt_def even_split [unfolded length_append]
        d [unfolded length_append] lp_simps l n)
qed

interpretation lp_short_int: stream_filter WebRtcSpl_LPBy2ShortToInt "\<lambda>st. length st = 16" 2
proof unfold_locales
  fix s xs ys :: "int list" assume s: "length s = 16"
  show "WebRtcSpl_LPBy2ShortToInt s [] = ([], s)"
    by (simp add: WebRtcSpl_LPBy2ShortToInt_def)
  show "length (snd (WebRtcSpl_LPBy2ShortToInt s xs)) = 16"
    using s by (simp add: WebRtcSpl_LPBy2ShortToInt_def stream_simps)
  assume e: "2 dvd length xs"
  let ?o = "map to_q15 (odds (length xs div 2) xs)" and ?p = "map to_q15 (odds (length ys div 2) ys)"
  have d: "take (length (xs @ ys) div 2) (s ! 12 # ?o @ ?p) = take (length xs div 2) (s ! 12 # ?o)
      @ take (length ys div 2) ((if ?o = [] then s ! 12 else last ?o) # ?p)"
    using delay_split [of ?o ?p "s ! 12"] unfolding half_append [OF e] by simp
  have l: "fst (snd (run c ?o (get4 12 s))) = (if ?o = [] then s ! 12 else last ?o)" for c
    unfolding run_fst_last nth_fst_get4 [of s 12] by (rule refl)
  have n: "put4 12 q t ! 12 = fst q" if "length t = 16" for q t
    using that by (cases q) (simp add: put4.simps)
  show "WebRtcSpl_LPBy2ShortToInt s (xs @ ys) = (let (us, s) = WebRtcSpl_LPBy2ShortToInt s xs;
      (vs, s) = WebRtcSpl_LPBy2ShortToInt s ys in (us @ vs, s))"
    using s e by (simp add: WebRtcSpl_LPBy2ShortToInt_def even_split [unfolded length_append]
        d [unfolded length_append] lp_simps l n)
qed

section \<open>The filters of resample\_by\_2.c\<close>

definition kResampleAllpass1 :: "int list" where "kResampleAllpass1 = [3284, 24441, 49528]"
definition kResampleAllpass2 :: "int list" where "kResampleAllpass2 = [12199, 37471, 60255]"

text \<open>Three allpass sections, on the state values from index \<open>k\<close>; the input is in Q10.\<close>

definition allpass_scalediff :: "int list \<Rightarrow> nat \<Rightarrow> int \<Rightarrow> int list \<Rightarrow> int list" where
  "allpass_scalediff coef k in32 state =
     (let diff = s32 (in32 - state ! (k + 1));
          tmp1 = WEBRTC_SPL_SCALEDIFF32 (coef ! 0) diff (state ! k);
          state = state[k := in32];
          diff = s32 (tmp1 - state ! (k + 2));
          tmp2 = WEBRTC_SPL_SCALEDIFF32 (coef ! 1) diff (state ! (k + 1));
          state = state[k + 1 := tmp1];
          diff = s32 (tmp2 - state ! (k + 3));
          state = state[k + 3 := WEBRTC_SPL_SCALEDIFF32 (coef ! 2) diff (state ! (k + 2))];
          state = state[k + 2 := tmp2]
      in state)"

fun WebRtcSpl_DownsampleBy2 :: "int list \<Rightarrow> int list \<Rightarrow> int list \<times> int list" where
  "WebRtcSpl_DownsampleBy2 filtState (x # y # inp) =
     (let st = allpass_scalediff kResampleAllpass2 0 (s32 (shl x 10)) filtState;
          st = allpass_scalediff kResampleAllpass1 4 (s32 (shl y 10)) st;
          out32 = shr (s32 (s32 (st ! 3 + st ! 7) + 1024)) 11;
          (out, st) = WebRtcSpl_DownsampleBy2 st inp
      in (WebRtcSpl_SatW32ToW16 out32 # out, st))"
| "WebRtcSpl_DownsampleBy2 filtState _ = ([], filtState)"

fun WebRtcSpl_UpsampleBy2 :: "int list \<Rightarrow> int list \<Rightarrow> int list \<times> int list" where
  "WebRtcSpl_UpsampleBy2 filtState [] = ([], filtState)"
| "WebRtcSpl_UpsampleBy2 filtState (x # inp) =
     (let in32 = s32 (shl x 10);
          st = allpass_scalediff kResampleAllpass1 0 in32 filtState;
          out1 = WebRtcSpl_SatW32ToW16 (shr (s32 (st ! 3 + 512)) 10);
          st = allpass_scalediff kResampleAllpass2 4 in32 st;
          out2 = WebRtcSpl_SatW32ToW16 (shr (s32 (st ! 7 + 512)) 10);
          (out, st) = WebRtcSpl_UpsampleBy2 st inp
      in (out1 # out2 # out, st))"

lemma DownsampleBy2_append:
  "2 dvd length xs \<Longrightarrow> WebRtcSpl_DownsampleBy2 st (xs @ ys) =
     (let (us, st) = WebRtcSpl_DownsampleBy2 st xs; (vs, st) = WebRtcSpl_DownsampleBy2 st ys in (us @ vs, st))"
  by (induction st xs rule: WebRtcSpl_DownsampleBy2.induct) (auto simp: Let_def split_beta)

lemma UpsampleBy2_append:
  "WebRtcSpl_UpsampleBy2 st (xs @ ys) =
     (let (us, st) = WebRtcSpl_UpsampleBy2 st xs; (vs, st) = WebRtcSpl_UpsampleBy2 st ys in (us @ vs, st))"
  by (induction st xs rule: WebRtcSpl_UpsampleBy2.induct) (auto simp: Let_def split_beta)

interpretation downsample: stream_filter WebRtcSpl_DownsampleBy2 "\<lambda>_. True" 2
  by unfold_locales (simp_all add: DownsampleBy2_append)

interpretation upsample: stream_filter WebRtcSpl_UpsampleBy2 "\<lambda>_. True" 1
  by unfold_locales (simp_all add: UpsampleBy2_append)

section \<open>Fractional resampling (resample\_fractional.c)\<close>

definition kCoefficients48To32 :: "int list list" where
  "kCoefficients48To32 =
    [[778, -2050, 1087, 23285, 12903, -3783, 441, 222],
     [222, 441, -3783, 12903, 23285, 1087, -2050, 778]]"

definition kCoefficients32To24 :: "int list list" where
  "kCoefficients32To24 =
    [[767, -2362, 2434, 24406, 10620, -3838, 721, 90],
     [386, -381, -2646, 19062, 19062, -2646, -381, 386],
     [90, 721, -3838, 10620, 24406, 2434, -2362, 767]]"

definition kCoefficients44To32 :: "int list list" where
  "kCoefficients44To32 =
    [[117, -669, 2245, -6183, 26267, 13529, -3245, 845, -138],
     [-101, 612, -2283, 8532, 29790, -5138, 1789, -524, 91],
     [50, -292, 1016, -3064, 32010, 3933, -1147, 315, -53],
     [-156, 974, -3863, 18603, 21691, -6246, 2353, -712, 126]]"

text \<open>\<open>tmp = 1 << 14; tmp += c[0] * In[p]; \<dots>\<close>: one output sample from the samples at \<open>p\<close> on.\<close>

definition fir_tap_sum :: "int list \<Rightarrow> (nat \<Rightarrow> int) \<Rightarrow> int" where
  "fir_tap_sum c x = fold (\<lambda>j tmp. s32 (tmp + s32 (c ! j * x j))) [0..<length c] 16384"

definition WebRtcSpl_Resample48khzTo32khz :: "int list \<Rightarrow> nat \<Rightarrow> int list" where
  "WebRtcSpl_Resample48khzTo32khz In K =
     concat (map (\<lambda>m. [fir_tap_sum (kCoefficients48To32 ! 0) (\<lambda>j. In ! (3 * m + 0 + j)),
                       fir_tap_sum (kCoefficients48To32 ! 1) (\<lambda>j. In ! (3 * m + 1 + j))]) [0..<K])"

definition WebRtcSpl_Resample32khzTo24khz :: "int list \<Rightarrow> nat \<Rightarrow> int list" where
  "WebRtcSpl_Resample32khzTo24khz In K =
     concat (map (\<lambda>m. [fir_tap_sum (kCoefficients32To24 ! 0) (\<lambda>j. In ! (4 * m + 0 + j)),
                       fir_tap_sum (kCoefficients32To24 ! 1) (\<lambda>j. In ! (4 * m + 1 + j)),
                       fir_tap_sum (kCoefficients32To24 ! 2) (\<lambda>j. In ! (4 * m + 2 + j))]) [0..<K])"

text \<open>Two inner products with the same coefficients, forwards from \<open>p1\<close> and backwards from \<open>p2\<close>.\<close>

definition WebRtcSpl_ResampDotProduct :: "int list \<Rightarrow> nat \<Rightarrow> nat \<Rightarrow> int list \<Rightarrow> int \<times> int" where
  "WebRtcSpl_ResampDotProduct In p1 p2 coef_ptr =
     (fir_tap_sum coef_ptr (\<lambda>j. In ! (p1 + j)), fir_tap_sum coef_ptr (\<lambda>j. In ! (p2 - j)))"

definition WebRtcSpl_Resample44khzTo32khz :: "int list \<Rightarrow> nat \<Rightarrow> int list" where
  "WebRtcSpl_Resample44khzTo32khz In K =
     concat (map (\<lambda>m. let p = 11 * m;
         out0 = s32 (s32 (shl (In ! (p + 3)) 15) + 16384);
         out4 = fir_tap_sum (kCoefficients44To32 ! 3) (\<lambda>j. In ! (p + 5 + j));
         (out1, out7) = WebRtcSpl_ResampDotProduct In (p + 0) (p + 17) (kCoefficients44To32 ! 0);
         (out2, out6) = WebRtcSpl_ResampDotProduct In (p + 2) (p + 15) (kCoefficients44To32 ! 1);
         (out3, out5) = WebRtcSpl_ResampDotProduct In (p + 3) (p + 14) (kCoefficients44To32 ! 2)
       in [out0, out1, out2, out3, out4, out5, out6, out7]) [0..<K])"

section \<open>The resamplers to and from 48 kHz (resample\_48khz.c)\<close>

record State48khzTo16khz = S_48_48 :: "int list" S_48_32 :: "int list" S_32_16 :: "int list"
record State16khzTo48khz = S_16_32 :: "int list" S_32_24 :: "int list" S_24_48 :: "int list"
record State48khzTo8khz = S_48_24 :: "int list" S_24_24 :: "int list" S_24_16 :: "int list" S_16_8 :: "int list"
record State8khzTo48khz = S_8_16 :: "int list" S_16_12 :: "int list" S_12_24 :: "int list" S_24_48' :: "int list"

definition WebRtcSpl_Resample48khzTo16khz ::
    "State48khzTo16khz \<Rightarrow> int list \<Rightarrow> int list \<times> State48khzTo16khz" where
  "WebRtcSpl_Resample48khzTo16khz state inp =
     (let (lp, s1) = WebRtcSpl_LPBy2ShortToInt (S_48_48 state) (take 480 inp);
          tmpmem_8 = S_48_32 state @ lp;
          s2 = take 8 (drop 480 tmpmem_8);
          tmpmem = WebRtcSpl_Resample48khzTo32khz tmpmem_8 160;
          (out, s3) = WebRtcSpl_DownBy2IntToShort (S_32_16 state) tmpmem
      in (out, state\<lparr>S_48_48 := s1, S_48_32 := s2, S_32_16 := s3\<rparr>))"

definition WebRtcSpl_ResetResample48khzTo16khz :: "State48khzTo16khz \<Rightarrow> State48khzTo16khz" where
  "WebRtcSpl_ResetResample48khzTo16khz state =
     state\<lparr>S_48_48 := replicate 16 0, S_48_32 := replicate 8 0, S_32_16 := replicate 8 0\<rparr>"

definition WebRtcSpl_Resample16khzTo48khz ::
    "State16khzTo48khz \<Rightarrow> int list \<Rightarrow> int list \<times> State16khzTo48khz" where
  "WebRtcSpl_Resample16khzTo48khz state inp =
     (let (up, s1) = WebRtcSpl_UpBy2ShortToInt (S_16_32 state) (take 160 inp);
          tmpmem_8 = S_32_24 state @ up;
          s2 = take 8 (drop 320 tmpmem_8);
          tmpmem = WebRtcSpl_Resample32khzTo24khz tmpmem_8 80;
          (out, s3) = WebRtcSpl_UpBy2IntToShort (S_24_48 state) tmpmem
      in (out, state\<lparr>S_16_32 := s1, S_32_24 := s2, S_24_48 := s3\<rparr>))"

definition WebRtcSpl_ResetResample16khzTo48khz :: "State16khzTo48khz \<Rightarrow> State16khzTo48khz" where
  "WebRtcSpl_ResetResample16khzTo48khz state =
     state\<lparr>S_16_32 := replicate 8 0, S_32_24 := replicate 8 0, S_24_48 := replicate 8 0\<rparr>"

definition WebRtcSpl_Resample48khzTo8khz ::
    "State48khzTo8khz \<Rightarrow> int list \<Rightarrow> int list \<times> State48khzTo8khz" where
  "WebRtcSpl_Resample48khzTo8khz state inp =
     (let (down, s1) = WebRtcSpl_DownBy2ShortToInt (S_48_24 state) (take 480 inp);
          (lp, s2) = WebRtcSpl_LPBy2IntToInt (S_24_24 state) down;
          tmpmem_8 = S_24_16 state @ lp;
          s3 = take 8 (drop 240 tmpmem_8);
          tmpmem = WebRtcSpl_Resample48khzTo32khz tmpmem_8 80;
          (out, s4) = WebRtcSpl_DownBy2IntToShort (S_16_8 state) tmpmem
      in (out, state\<lparr>S_48_24 := s1, S_24_24 := s2, S_24_16 := s3, S_16_8 := s4\<rparr>))"

definition WebRtcSpl_ResetResample48khzTo8khz :: "State48khzTo8khz \<Rightarrow> State48khzTo8khz" where
  "WebRtcSpl_ResetResample48khzTo8khz state =
     state\<lparr>S_48_24 := replicate 8 0, S_24_24 := replicate 16 0, S_24_16 := replicate 8 0,
       S_16_8 := replicate 8 0\<rparr>"

definition WebRtcSpl_Resample8khzTo48khz ::
    "State8khzTo48khz \<Rightarrow> int list \<Rightarrow> int list \<times> State8khzTo48khz" where
  "WebRtcSpl_Resample8khzTo48khz state inp =
     (let (up, s1) = WebRtcSpl_UpBy2ShortToInt (S_8_16 state) (take 80 inp);
          tmpmem_256 = S_16_12 state @ up;
          s2 = take 8 (drop 160 tmpmem_256);
          tmpmem_240 = WebRtcSpl_Resample32khzTo24khz tmpmem_256 40;
          (tmpmem, s3) = WebRtcSpl_UpBy2IntToInt (S_12_24 state) tmpmem_240;
          (out, s4) = WebRtcSpl_UpBy2IntToShort (S_24_48' state) tmpmem
      in (out, state\<lparr>S_8_16 := s1, S_16_12 := s2, S_12_24 := s3, S_24_48' := s4\<rparr>))"

definition WebRtcSpl_ResetResample8khzTo48khz :: "State8khzTo48khz \<Rightarrow> State8khzTo48khz" where
  "WebRtcSpl_ResetResample8khzTo48khz state =
     state\<lparr>S_8_16 := replicate 8 0, S_16_12 := replicate 8 0, S_12_24 := replicate 8 0,
       S_24_48' := replicate 8 0\<rparr>"

section \<open>Stages and their composition\<close>

text \<open>A fractional stage with its eight samples of history, as the 48 kHz functions use it.\<close>

definition stage_48_32 :: "int list \<Rightarrow> int list \<Rightarrow> int list \<times> int list" where
  "stage_48_32 st xs =
     (WebRtcSpl_Resample48khzTo32khz (st @ xs) (length xs div 3), drop (length xs) (st @ xs))"

definition stage_32_24 :: "int list \<Rightarrow> int list \<Rightarrow> int list \<times> int list" where
  "stage_32_24 st xs =
     (WebRtcSpl_Resample32khzTo24khz (st @ xs) (length xs div 4), drop (length xs) (st @ xs))"

definition then_stage :: "('s \<Rightarrow> 'a list \<Rightarrow> 'b list \<times> 's) \<Rightarrow> ('t \<Rightarrow> 'b list \<Rightarrow> 'c list \<times> 't)
    \<Rightarrow> 's \<times> 't \<Rightarrow> 'a list \<Rightarrow> 'c list \<times> ('s \<times> 't)" where
  "then_stage f g st xs =
     (let (ys, s) = f (fst st) xs; (zs, t) = g (snd st) ys in (zs, (s, t)))"

lemma stream_filter_compose:
  assumes f: "stream_filter f okf u" and g: "stream_filter g okg v"
    and units: "\<And>s xs. okf s \<Longrightarrow> u dvd length xs \<Longrightarrow> v dvd length (fst (f s xs))"
  shows "stream_filter (then_stage f g) (\<lambda>st. okf (fst st) \<and> okg (snd st)) u"
proof
  fix st :: "'a \<times> 'd" and xs ys
  assume ok: "okf (fst st) \<and> okg (snd st)"
  show "then_stage f g st [] = ([], st)"
    using ok by (simp add: then_stage_def stream_filter.empty [OF f] stream_filter.empty [OF g])
  show "okf (fst (snd (then_stage f g st xs))) \<and> okg (snd (snd (then_stage f g st xs)))"
    using ok stream_filter.keeps_ok [OF f] stream_filter.keeps_ok [OF g]
    by (simp add: then_stage_def split_beta)
  assume u: "u dvd length xs"
  have v: "v dvd length (fst (f (fst st) xs))" using units ok u by blast
  have ok': "okf (snd (f (fst st) xs))" "okg (snd (g (snd st) (fst (f (fst st) xs))))"
    using ok stream_filter.keeps_ok [OF f] stream_filter.keeps_ok [OF g] by auto
  show "then_stage f g st (xs @ ys) =
      (let (us, s) = then_stage f g st xs; (vs, s) = then_stage f g s ys in (us @ vs, s))"
    using ok ok' by (simp add: then_stage_def split_beta Let_def
        stream_filter.split [OF f _ u] stream_filter.split [OF g _ v])
qed

lemma fir_tap_sum_cong: "(\<And>j. j < length c \<Longrightarrow> x j = y j) \<Longrightarrow> fir_tap_sum c x = fir_tap_sum c y"
  unfolding fir_tap_sum_def by (intro fold_cong) auto

lemma nth_shift: "n \<le> length xs \<Longrightarrow> (xs @ ys) ! (n + i) = (drop n xs @ ys) ! i"
  by (auto simp: nth_append add.commute)

lemma upt_shift: "[0..<a + b] = [0..<a] @ map (\<lambda>i. a + i) [0..<b]"
  by (rule nth_equalityI) (auto simp: nth_append)

text \<open>
  Cutting the input of a fractional stage: the windows of the first block lie inside the history and
  that block, those of the second see the last samples of the first as their history.
\<close>

lemma window_split:
  assumes st: "length st = 8" and xs: "length xs = step * a" and m: "m < a" and o: "w \<le> step" and j: "j < 8"
  shows "(st @ xs @ ys) ! (step * m + w + j) = (st @ xs) ! (step * m + w + j)"
proof -
  have "step * m + step \<le> step * a" using m by (metis Suc_leI mult_Suc_right mult_le_mono2 add.commute)
  then have "step * m + w + j < length (st @ xs)" using st xs o j by simp
  then show ?thesis unfolding append_assoc [symmetric] by (simp only: nth_append if_True)
qed

lemma window_next:
  assumes "length st = 8" and "length xs = step * a"
  shows "(st @ xs @ ys) ! (step * (a + m) + w + j) = (drop (length xs) (st @ xs) @ ys) ! (step * m + w + j)"
proof -
  have "step * (a + m) + w + j = length xs + (step * m + w + j)"
    using assms(2) by (simp add: distrib_left)
  then show ?thesis unfolding append_assoc [symmetric] by (simp only:) (rule nth_shift, simp)
qed

lemma coef_lengths [simp]:
  "length (kCoefficients48To32 ! 0) = 8" "length (kCoefficients48To32 ! Suc 0) = 8"
  "length (kCoefficients32To24 ! 0) = 8" "length (kCoefficients32To24 ! Suc 0) = 8"
  "length (kCoefficients32To24 ! 2) = 8"
  by (simp_all add: kCoefficients48To32_def kCoefficients32To24_def)

lemma Resample48khzTo32khz_split:
  assumes "length st = 8" and "length xs = 3 * a"
  shows "WebRtcSpl_Resample48khzTo32khz (st @ xs @ ys) (a + b) =
     WebRtcSpl_Resample48khzTo32khz (st @ xs) a @ WebRtcSpl_Resample48khzTo32khz (drop (length xs) (st @ xs) @ ys) b"
proof -
  have 1: "fir_tap_sum c (\<lambda>j. (st @ xs @ ys) ! (3 * m + w + j)) = fir_tap_sum c (\<lambda>j. (st @ xs) ! (3 * m + w + j))"
    if "length c = 8" "m < a" "w \<le> 1" for c m w
    using window_split [OF assms, of m w] that by (intro fir_tap_sum_cong) simp
  have 2: "fir_tap_sum c (\<lambda>j. (st @ xs @ ys) ! (3 * (a + m) + w + j))
      = fir_tap_sum c (\<lambda>j. (drop (length xs) (st @ xs) @ ys) ! (3 * m + w + j))" for c m w
    using window_next [OF assms] by (intro fir_tap_sum_cong) simp
  show ?thesis unfolding WebRtcSpl_Resample48khzTo32khz_def upt_shift map_append concat_append map_map o_def 2
    by (intro arg_cong2 [where f = append] refl arg_cong [where f = concat] map_cong) (simp_all only: 1 coef_lengths
        set_upt atLeastLessThan_iff One_nat_def le_refl le0)
qed

lemma Resample32khzTo24khz_split:
  assumes "length st = 8" and "length xs = 4 * a"
  shows "WebRtcSpl_Resample32khzTo24khz (st @ xs @ ys) (a + b) =
     WebRtcSpl_Resample32khzTo24khz (st @ xs) a @ WebRtcSpl_Resample32khzTo24khz (drop (length xs) (st @ xs) @ ys) b"
proof -
  have 1: "fir_tap_sum c (\<lambda>j. (st @ xs @ ys) ! (4 * m + w + j)) = fir_tap_sum c (\<lambda>j. (st @ xs) ! (4 * m + w + j))"
    if "length c = 8" "m < a" "w \<le> 2" for c m w
    using window_split [OF assms, of m w] that by (intro fir_tap_sum_cong) simp
  have 2: "fir_tap_sum c (\<lambda>j. (st @ xs @ ys) ! (4 * (a + m) + w + j))
      = fir_tap_sum c (\<lambda>j. (drop (length xs) (st @ xs) @ ys) ! (4 * m + w + j))" for c m w
    using window_next [OF assms] by (intro fir_tap_sum_cong) simp
  show ?thesis unfolding WebRtcSpl_Resample32khzTo24khz_def upt_shift map_append concat_append map_map o_def 2
    by (intro arg_cong2 [where f = append] refl arg_cong [where f = concat] map_cong) (simp_all only: 1 coef_lengths
        set_upt atLeastLessThan_iff One_nat_def le_refl le0 one_le_numeral)
qed

lemma history_split:
  "drop (length xs + length ys) (s @ xs @ ys) = drop (length ys) (drop (length xs) (s @ xs) @ ys)"
proof -
  have "drop (length xs) ((s @ xs) @ ys) = drop (length xs) (s @ xs) @ ys" unfolding drop_append by simp
  then have "drop (length ys) (drop (length xs) ((s @ xs) @ ys)) = drop (length ys) (drop (length xs) (s @ xs) @ ys)"
    by (rule arg_cong)
  then show ?thesis unfolding drop_drop append_assoc by (simp only: add.commute)
qed

interpretation stage_48_32: stream_filter stage_48_32 "\<lambda>st. length st = 8" 3
proof unfold_locales
  fix s xs ys :: "int list" assume s: "length s = 8"
  show "stage_48_32 s [] = ([], s)" by (simp add: stage_48_32_def WebRtcSpl_Resample48khzTo32khz_def)
  show "length (snd (stage_48_32 s xs)) = 8" using s by (simp add: stage_48_32_def)
  assume "3 dvd length xs"
  then obtain a where a: "length xs = 3 * a" by (rule dvdE)
  then have "(length xs + length ys) div 3 = a + length ys div 3" "length xs div 3 = a" by simp_all
  then show "stage_48_32 s (xs @ ys) =
      (let (us, s) = stage_48_32 s xs; (vs, s) = stage_48_32 s ys in (us @ vs, s))"
    unfolding stage_48_32_def length_append history_split Let_def split_conv
    by (simp only: Resample48khzTo32khz_split [OF s a])
qed

interpretation stage_32_24: stream_filter stage_32_24 "\<lambda>st. length st = 8" 4
proof unfold_locales
  fix s xs ys :: "int list" assume s: "length s = 8"
  show "stage_32_24 s [] = ([], s)" by (simp add: stage_32_24_def WebRtcSpl_Resample32khzTo24khz_def)
  show "length (snd (stage_32_24 s xs)) = 8" using s by (simp add: stage_32_24_def)
  assume "4 dvd length xs"
  then obtain a where a: "length xs = 4 * a" by (rule dvdE)
  then have "(length xs + length ys) div 4 = a + length ys div 4" "length xs div 4 = a" by simp_all
  then show "stage_32_24 s (xs @ ys) =
      (let (us, s) = stage_32_24 s xs; (vs, s) = stage_32_24 s ys in (us @ vs, s))"
    unfolding stage_32_24_def length_append history_split Let_def split_conv
    by (simp only: Resample32khzTo24khz_split [OF s a])
qed

text \<open>How many samples each filter produces.\<close>

lemma length_interleave [simp]: "length xs = length ys \<Longrightarrow> length (interleave xs ys) = 2 * length xs"
  by (induction xs ys rule: list_induct2) (simp_all add: interleave_def)

lemma out_lengths:
  "length st = 8 \<Longrightarrow> length (fst (WebRtcSpl_DownBy2IntToShort st xs)) = length xs div 2"
  "length st = 8 \<Longrightarrow> length (fst (WebRtcSpl_DownBy2ShortToInt st xs)) = length xs div 2"
  "length st = 8 \<Longrightarrow> length (fst (WebRtcSpl_UpBy2ShortToInt st xs)) = 2 * length xs"
  "length st = 8 \<Longrightarrow> length (fst (WebRtcSpl_UpBy2IntToInt st xs)) = 2 * length xs"
  "length st = 8 \<Longrightarrow> length (fst (WebRtcSpl_UpBy2IntToShort st xs)) = 2 * length xs"
  "length st16 = 16 \<Longrightarrow> length (fst (WebRtcSpl_LPBy2ShortToInt st16 xs)) = length xs div 2 * 2"
  "length st16 = 16 \<Longrightarrow> length (fst (WebRtcSpl_LPBy2IntToInt st16 xs)) = length xs div 2 * 2"
  "length (fst (stage_48_32 st xs)) = length xs div 3 * 2"
  "length (fst (stage_32_24 st xs)) = length xs div 4 * 3"
  by (simp_all add: WebRtcSpl_DownBy2IntToShort_def WebRtcSpl_DownBy2ShortToInt_def
      WebRtcSpl_UpBy2ShortToInt_def WebRtcSpl_UpBy2IntToInt_def WebRtcSpl_UpBy2IntToShort_def
      WebRtcSpl_LPBy2ShortToInt_def WebRtcSpl_LPBy2IntToInt_def stage_48_32_def stage_32_24_def
      WebRtcSpl_Resample48khzTo32khz_def WebRtcSpl_Resample32khzTo24khz_def length_concat o_def
      sum_list_triv stream_simps)

lemma stream_filter_weaken:
  "stream_filter f ok u \<Longrightarrow> u dvd u' \<Longrightarrow> stream_filter f ok u'"
  unfolding stream_filter_def by (meson dvd_trans)

text \<open>The whole resamplers as chains of stages, for a signal of any length.\<close>

definition chain_48_16 where
  "chain_48_16 = then_stage (then_stage WebRtcSpl_LPBy2ShortToInt stage_48_32) WebRtcSpl_DownBy2IntToShort"

definition chain_48_8 where
  "chain_48_8 = then_stage (then_stage (then_stage WebRtcSpl_DownBy2ShortToInt WebRtcSpl_LPBy2IntToInt) stage_48_32)
     WebRtcSpl_DownBy2IntToShort"

definition chain_16_48 where
  "chain_16_48 = then_stage (then_stage WebRtcSpl_UpBy2ShortToInt stage_32_24) WebRtcSpl_UpBy2IntToShort"

definition chain_8_48 where
  "chain_8_48 = then_stage (then_stage (then_stage WebRtcSpl_UpBy2ShortToInt stage_32_24) WebRtcSpl_UpBy2IntToInt)
     WebRtcSpl_UpBy2IntToShort"

lemma then_stage_out: "fst (then_stage f g st xs) = fst (g (snd st) (fst (f (fst st) xs)))"
  by (simp add: then_stage_def split_beta)

interpretation chain_48_16: stream_filter chain_48_16
  "\<lambda>st. (length (fst (fst st)) = 16 \<and> length (snd (fst st)) = 8) \<and> length (snd st) = 8" 6
  unfolding chain_48_16_def
  by (rule stream_filter_compose [OF stream_filter_compose [OF stream_filter_weaken [OF lp_short_int.stream_filter_axioms]
      stage_48_32.stream_filter_axioms]
      down_int_short.stream_filter_axioms])
    (auto simp: out_lengths then_stage_out elim!: dvdE)

interpretation chain_48_8: stream_filter chain_48_8
  "\<lambda>st. ((length (fst (fst (fst st))) = 8 \<and> length (snd (fst (fst st))) = 16) \<and> length (snd (fst st)) = 8)
     \<and> length (snd st) = 8" 12
  unfolding chain_48_8_def
  by (rule stream_filter_compose [OF stream_filter_compose [OF stream_filter_compose [OF stream_filter_weaken [OF down_short_int.stream_filter_axioms]
      lp_int_int.stream_filter_axioms]
      stage_48_32.stream_filter_axioms]
      down_int_short.stream_filter_axioms])
    (auto simp: out_lengths then_stage_out elim!: dvdE)

interpretation chain_16_48: stream_filter chain_16_48
  "\<lambda>st. (length (fst (fst st)) = 8 \<and> length (snd (fst st)) = 8) \<and> length (snd st) = 8" 2
  unfolding chain_16_48_def
  by (rule stream_filter_compose [OF stream_filter_compose [OF stream_filter_weaken [OF up_short_int.stream_filter_axioms]
      stage_32_24.stream_filter_axioms]
      up_int_short.stream_filter_axioms])
    (auto simp: out_lengths then_stage_out elim!: dvdE)

interpretation chain_8_48: stream_filter chain_8_48
  "\<lambda>st. ((length (fst (fst (fst st))) = 8 \<and> length (snd (fst (fst st))) = 8) \<and> length (snd (fst st)) = 8)
     \<and> length (snd st) = 8" 2
  unfolding chain_8_48_def
  by (rule stream_filter_compose [OF stream_filter_compose [OF stream_filter_compose [OF stream_filter_weaken [OF up_short_int.stream_filter_axioms]
      stage_32_24.stream_filter_axioms]
      up_int_int.stream_filter_axioms]
      up_int_short.stream_filter_axioms])
    (auto simp: out_lengths then_stage_out elim!: dvdE)

section \<open>Frame by frame is the whole signal\<close>

lemma feed_blocks_abs:
  assumes step: "\<And>s xs. ok s \<Longrightarrow> length xs = n \<Longrightarrow>
      h (ab s) xs = (fst (f s xs), ab (snd (f s xs))) \<and> ok (snd (f s xs))"
    and "ok s" and "\<forall>xs \<in> set xss. length xs = n"
  shows "feed_blocks h (ab s) xss = (fst (feed_blocks f s xss), ab (snd (feed_blocks f s xss)))"
  using assms(2,3)
proof (induction xss arbitrary: s)
  case (Cons xs xss)
  then show ?case using step [of s xs] by (simp add: split_beta)
qed simp

lemma frame_history: "length st = 8 \<Longrightarrow> length xs = n \<Longrightarrow> take 8 (drop n (st @ xs)) = drop n (st @ xs)"
  by simp

definition st_48_16 :: "State48khzTo16khz \<Rightarrow> (int list \<times> int list) \<times> int list" where
  "st_48_16 s = ((S_48_48 s, S_48_32 s), S_32_16 s)"

definition st_48_8 :: "State48khzTo8khz \<Rightarrow> ((int list \<times> int list) \<times> int list) \<times> int list" where
  "st_48_8 s = (((S_48_24 s, S_24_24 s), S_24_16 s), S_16_8 s)"

definition st_16_48 :: "State16khzTo48khz \<Rightarrow> (int list \<times> int list) \<times> int list" where
  "st_16_48 s = ((S_16_32 s, S_32_24 s), S_24_48 s)"

definition st_8_48 :: "State8khzTo48khz \<Rightarrow> ((int list \<times> int list) \<times> int list) \<times> int list" where
  "st_8_48 s = (((S_8_16 s, S_16_12 s), S_12_24 s), S_24_48' s)"

definition ok_48_16 :: "State48khzTo16khz \<Rightarrow> bool" where
  "ok_48_16 s \<longleftrightarrow> length (S_48_48 s) = 16 \<and> length (S_48_32 s) = 8 \<and> length (S_32_16 s) = 8"

definition ok_48_8 :: "State48khzTo8khz \<Rightarrow> bool" where
  "ok_48_8 s \<longleftrightarrow> length (S_48_24 s) = 8 \<and> length (S_24_24 s) = 16 \<and> length (S_24_16 s) = 8 \<and> length (S_16_8 s) = 8"

definition ok_16_48 :: "State16khzTo48khz \<Rightarrow> bool" where
  "ok_16_48 s \<longleftrightarrow> length (S_16_32 s) = 8 \<and> length (S_32_24 s) = 8 \<and> length (S_24_48 s) = 8"

definition ok_8_48 :: "State8khzTo48khz \<Rightarrow> bool" where
  "ok_8_48 s \<longleftrightarrow> length (S_8_16 s) = 8 \<and> length (S_16_12 s) = 8 \<and> length (S_12_24 s) = 8 \<and> length (S_24_48' s) = 8"

lemmas state_defs = st_48_16_def st_48_8_def st_16_48_def st_8_48_def ok_48_16_def ok_48_8_def
  ok_16_48_def ok_8_48_def

lemma Resample48khzTo16khz_chain:
  assumes ok: "ok_48_16 s" and x: "length xs = 480"
  shows "chain_48_16 (st_48_16 s) xs = (fst (WebRtcSpl_Resample48khzTo16khz s xs),
      st_48_16 (snd (WebRtcSpl_Resample48khzTo16khz s xs))) \<and> ok_48_16 (snd (WebRtcSpl_Resample48khzTo16khz s xs))"
proof -
  have "length (fst (WebRtcSpl_LPBy2ShortToInt (S_48_48 s) xs)) = 480"
    using ok x by (simp add: out_lengths state_defs)
  then show ?thesis using ok x lp_short_int.keeps_ok [of "S_48_48 s" xs] down_int_short.keeps_ok [of "S_32_16 s"]
    by (simp add: chain_48_16_def then_stage_def stage_48_32_def WebRtcSpl_Resample48khzTo16khz_def split_beta
        Let_def state_defs)
qed

lemma Resample48khzTo8khz_chain:
  assumes ok: "ok_48_8 s" and x: "length xs = 480"
  shows "chain_48_8 (st_48_8 s) xs = (fst (WebRtcSpl_Resample48khzTo8khz s xs),
      st_48_8 (snd (WebRtcSpl_Resample48khzTo8khz s xs))) \<and> ok_48_8 (snd (WebRtcSpl_Resample48khzTo8khz s xs))"
proof -
  have d: "length (fst (WebRtcSpl_DownBy2ShortToInt (S_48_24 s) xs)) = 240"
    using ok x by (simp add: out_lengths state_defs)
  then have "length (fst (WebRtcSpl_LPBy2IntToInt (S_24_24 s) (fst (WebRtcSpl_DownBy2ShortToInt (S_48_24 s) xs)))) = 240"
    using ok by (simp add: out_lengths state_defs)
  then show ?thesis using ok x down_short_int.keeps_ok [of "S_48_24 s" xs] lp_int_int.keeps_ok [of "S_24_24 s"]
      down_int_short.keeps_ok [of "S_16_8 s"]
    by (simp add: chain_48_8_def then_stage_def stage_48_32_def WebRtcSpl_Resample48khzTo8khz_def split_beta
        Let_def state_defs)
qed

lemma Resample16khzTo48khz_chain:
  assumes ok: "ok_16_48 s" and x: "length xs = 160"
  shows "chain_16_48 (st_16_48 s) xs = (fst (WebRtcSpl_Resample16khzTo48khz s xs),
      st_16_48 (snd (WebRtcSpl_Resample16khzTo48khz s xs))) \<and> ok_16_48 (snd (WebRtcSpl_Resample16khzTo48khz s xs))"
proof -
  have "length (fst (WebRtcSpl_UpBy2ShortToInt (S_16_32 s) xs)) = 320"
    using ok x by (simp add: out_lengths state_defs)
  then show ?thesis using ok x up_short_int.keeps_ok [of "S_16_32 s" xs] up_int_short.keeps_ok [of "S_24_48 s"]
    by (simp add: chain_16_48_def then_stage_def stage_32_24_def WebRtcSpl_Resample16khzTo48khz_def split_beta
        Let_def state_defs)
qed

lemma Resample8khzTo48khz_chain:
  assumes ok: "ok_8_48 s" and x: "length xs = 80"
  shows "chain_8_48 (st_8_48 s) xs = (fst (WebRtcSpl_Resample8khzTo48khz s xs),
      st_8_48 (snd (WebRtcSpl_Resample8khzTo48khz s xs))) \<and> ok_8_48 (snd (WebRtcSpl_Resample8khzTo48khz s xs))"
proof -
  have "length (fst (WebRtcSpl_UpBy2ShortToInt (S_8_16 s) xs)) = 160"
    using ok x by (simp add: out_lengths state_defs)
  then show ?thesis using ok x up_short_int.keeps_ok [of "S_8_16 s" xs] up_int_int.keeps_ok [of "S_12_24 s"]
      up_int_short.keeps_ok [of "S_24_48' s"]
    by (simp add: chain_8_48_def then_stage_def stage_32_24_def WebRtcSpl_Resample8khzTo48khz_def split_beta
        Let_def state_defs)
qed

text \<open>C14. Downsampling frame by frame is downsampling the whole signal: handing the state from one 10 ms
  frame of 480 samples to the next gives exactly what the chain of filters gives on the frames put end to
  end, with no seam at the frame borders, for 48 to 16 kHz and for 48 to 8 kHz.\<close>

theorem resample_down_seamless:
  assumes "ok_48_16 s" and "ok_48_8 t" and "\<forall>xs \<in> set frames. length xs = 480"
  shows "chain_48_16 (st_48_16 s) (concat frames) = (fst (feed_blocks WebRtcSpl_Resample48khzTo16khz s frames),
           st_48_16 (snd (feed_blocks WebRtcSpl_Resample48khzTo16khz s frames)))
       \<and> chain_48_8 (st_48_8 t) (concat frames) = (fst (feed_blocks WebRtcSpl_Resample48khzTo8khz t frames),
           st_48_8 (snd (feed_blocks WebRtcSpl_Resample48khzTo8khz t frames)))"
proof -
  have "feed_blocks chain_48_16 (st_48_16 s) frames = chain_48_16 (st_48_16 s) (concat frames)"
    by (rule chain_48_16.blocks) (use assms in \<open>auto simp: state_defs\<close>)
  moreover have "feed_blocks chain_48_8 (st_48_8 t) frames = chain_48_8 (st_48_8 t) (concat frames)"
    by (rule chain_48_8.blocks) (use assms in \<open>auto simp: state_defs\<close>)
  ultimately show ?thesis
    using feed_blocks_abs [where h = chain_48_16 and ab = st_48_16 and ok = ok_48_16 and f = WebRtcSpl_Resample48khzTo16khz,
        OF Resample48khzTo16khz_chain assms(1,3)]
      feed_blocks_abs [where h = chain_48_8 and ab = st_48_8 and ok = ok_48_8 and f = WebRtcSpl_Resample48khzTo8khz,
        OF Resample48khzTo8khz_chain assms(2,3)] by simp
qed

definition zero_48_16 :: State48khzTo16khz where
  "zero_48_16 = WebRtcSpl_ResetResample48khzTo16khz \<lparr>S_48_48 = [], S_48_32 = [], S_32_16 = []\<rparr>"

definition zero_48_8 :: State48khzTo8khz where
  "zero_48_8 = WebRtcSpl_ResetResample48khzTo8khz \<lparr>S_48_24 = [], S_24_24 = [], S_24_16 = [], S_16_8 = []\<rparr>"

theorem resample_down_seamless_witness:
  "chain_48_16 (st_48_16 zero_48_16) (concat [replicate 480 7, replicate 480 9]) =
      (fst (feed_blocks WebRtcSpl_Resample48khzTo16khz zero_48_16 [replicate 480 7, replicate 480 9]),
       st_48_16 (snd (feed_blocks WebRtcSpl_Resample48khzTo16khz zero_48_16 [replicate 480 7, replicate 480 9])))
   \<and> chain_48_8 (st_48_8 zero_48_8) (concat [replicate 480 7, replicate 480 9]) =
      (fst (feed_blocks WebRtcSpl_Resample48khzTo8khz zero_48_8 [replicate 480 7, replicate 480 9]),
       st_48_8 (snd (feed_blocks WebRtcSpl_Resample48khzTo8khz zero_48_8 [replicate 480 7, replicate 480 9])))"
  by (rule resample_down_seamless)
    (simp_all add: zero_48_16_def zero_48_8_def WebRtcSpl_ResetResample48khzTo16khz_def
      WebRtcSpl_ResetResample48khzTo8khz_def state_defs)

text \<open>C36. Upsampling frame by frame is upsampling the whole signal, for 16 and 8 to 48 kHz.\<close>

theorem resample_up_seamless:
  assumes "ok_16_48 s" and "\<forall>xs \<in> set frames. length xs = 160"
    and "ok_8_48 t" and "\<forall>xs \<in> set frames8. length xs = 80"
  shows "chain_16_48 (st_16_48 s) (concat frames) = (fst (feed_blocks WebRtcSpl_Resample16khzTo48khz s frames),
           st_16_48 (snd (feed_blocks WebRtcSpl_Resample16khzTo48khz s frames)))
       \<and> chain_8_48 (st_8_48 t) (concat frames8) = (fst (feed_blocks WebRtcSpl_Resample8khzTo48khz t frames8),
           st_8_48 (snd (feed_blocks WebRtcSpl_Resample8khzTo48khz t frames8)))"
proof -
  have "feed_blocks chain_16_48 (st_16_48 s) frames = chain_16_48 (st_16_48 s) (concat frames)"
    by (rule chain_16_48.blocks) (use assms in \<open>auto simp: state_defs\<close>)
  moreover have "feed_blocks chain_8_48 (st_8_48 t) frames8 = chain_8_48 (st_8_48 t) (concat frames8)"
    by (rule chain_8_48.blocks) (use assms in \<open>auto simp: state_defs\<close>)
  ultimately show ?thesis
    using feed_blocks_abs [where h = chain_16_48 and ab = st_16_48 and ok = ok_16_48 and f = WebRtcSpl_Resample16khzTo48khz,
        OF Resample16khzTo48khz_chain assms(1,2)]
      feed_blocks_abs [where h = chain_8_48 and ab = st_8_48 and ok = ok_8_48 and f = WebRtcSpl_Resample8khzTo48khz,
        OF Resample8khzTo48khz_chain assms(3,4)] by simp
qed

definition zero_16_48 :: State16khzTo48khz where
  "zero_16_48 = WebRtcSpl_ResetResample16khzTo48khz \<lparr>S_16_32 = [], S_32_24 = [], S_24_48 = []\<rparr>"

definition zero_8_48 :: State8khzTo48khz where
  "zero_8_48 = WebRtcSpl_ResetResample8khzTo48khz \<lparr>S_8_16 = [], S_16_12 = [], S_12_24 = [], S_24_48' = []\<rparr>"

theorem resample_up_seamless_witness:
  "chain_16_48 (st_16_48 zero_16_48) (concat [replicate 160 7, replicate 160 9]) =
      (fst (feed_blocks WebRtcSpl_Resample16khzTo48khz zero_16_48 [replicate 160 7, replicate 160 9]),
       st_16_48 (snd (feed_blocks WebRtcSpl_Resample16khzTo48khz zero_16_48 [replicate 160 7, replicate 160 9])))
   \<and> chain_8_48 (st_8_48 zero_8_48) (concat [replicate 80 7, replicate 80 9]) =
      (fst (feed_blocks WebRtcSpl_Resample8khzTo48khz zero_8_48 [replicate 80 7, replicate 80 9]),
       st_8_48 (snd (feed_blocks WebRtcSpl_Resample8khzTo48khz zero_8_48 [replicate 80 7, replicate 80 9])))"
  by (rule resample_up_seamless)
    (simp_all add: zero_16_48_def zero_8_48_def WebRtcSpl_ResetResample16khzTo48khz_def
      WebRtcSpl_ResetResample8khzTo48khz_def state_defs)

text \<open>\<open>WebRtcSpl_DownsampleBy2\<close> and \<open>WebRtcSpl_UpsampleBy2\<close> do not depend on how the signal is cut
  into blocks (of even length for the decimator) either.\<close>

theorem by2_block_independent:
  assumes "\<forall>xs \<in> set xss. even (length xs)"
  shows "feed_blocks WebRtcSpl_DownsampleBy2 st xss = WebRtcSpl_DownsampleBy2 st (concat xss)
       \<and> feed_blocks WebRtcSpl_UpsampleBy2 st yss = WebRtcSpl_UpsampleBy2 st (concat yss)"
  using downsample.blocks [of xss st] upsample.blocks [of yss st] assms by simp

theorem by2_block_independent_witness:
  "feed_blocks WebRtcSpl_DownsampleBy2 (replicate 8 0) [[1, 2], [3, 4]] = WebRtcSpl_DownsampleBy2 (replicate 8 0) (concat [[1, 2], [3, 4]])
   \<and> feed_blocks WebRtcSpl_UpsampleBy2 (replicate 8 0) [[1], [2]] = WebRtcSpl_UpsampleBy2 (replicate 8 0) (concat [[1], [2]])"
  by (rule by2_block_independent) simp

text \<open>The sum of a row's magnitudes bounds the outputs of the fractional filters.\<close>

lemma fir_partial_bound:
  fixes c :: "int list"
  assumes "\<And>j. j < length c \<Longrightarrow> \<bar>x j\<bar> \<le> M" and "n \<le> length c" and "0 \<le> M"
  shows "\<bar>\<Sum>j = 0..<n. c ! j * x j\<bar> \<le> (\<Sum>j = 0..<length c. \<bar>c ! j\<bar>) * M"
proof -
  have "\<bar>\<Sum>j = 0..<n. c ! j * x j\<bar> \<le> (\<Sum>j = 0..<n. \<bar>c ! j * x j\<bar>)" by (rule sum_abs)
  also have "\<dots> \<le> (\<Sum>j = 0..<n. \<bar>c ! j\<bar> * M)"
    using assms by (intro sum_mono) (auto simp: abs_mult mult_left_mono)
  also have "\<dots> \<le> (\<Sum>j = 0..<length c. \<bar>c ! j\<bar> * M)"
    using assms by (intro sum_mono2) auto
  finally show ?thesis by (simp add: sum_distrib_right)
qed

lemma fir_tap_sum_exact:
  assumes x: "\<And>j. j < length c \<Longrightarrow> \<bar>x j\<bar> \<le> M" and M: "0 \<le> M"
    and fit: "(\<Sum>j = 0..<length c. \<bar>c ! j\<bar>) * M + 16384 \<le> 2147483647"
  shows "fir_tap_sum c x = 16384 + (\<Sum>j = 0..<length c. c ! j * x j)"
proof -
  have "n \<le> length c \<Longrightarrow> fold (\<lambda>j tmp. s32 (tmp + s32 (c ! j * x j))) [0..<n] 16384
      = 16384 + (\<Sum>j = 0..<n. c ! j * x j)" for n
  proof (induction n)
    case (Suc n)
    have a: "\<bar>\<Sum>j = 0..<Suc n. c ! j * x j\<bar> \<le> (\<Sum>j = 0..<length c. \<bar>c ! j\<bar>) * M"
      and b: "\<bar>\<Sum>j = 0..<n. c ! j * x j\<bar> \<le> (\<Sum>j = 0..<length c. \<bar>c ! j\<bar>) * M"
      by (rule fir_partial_bound [OF x _ M]; use Suc.prems in simp)+
    have "\<bar>c ! n\<bar> \<le> (\<Sum>j = 0..<length c. \<bar>c ! j\<bar>)"
      using Suc.prems by (intro member_le_sum) auto
    then have "\<bar>c ! n * x n\<bar> \<le> (\<Sum>j = 0..<length c. \<bar>c ! j\<bar>) * M"
      using x [of n] Suc.prems M unfolding abs_mult by (intro mult_mono) auto
    then have "s32 (c ! n * x n) = c ! n * x n" using fit by (intro s32_id) auto
    moreover have "s32 (16384 + (\<Sum>j = 0..<Suc n. c ! j * x j)) = 16384 + (\<Sum>j = 0..<Suc n. c ! j * x j)"
      using a fit by (intro s32_id) auto
    ultimately show ?case using Suc by (simp add: add.assoc)
  qed simp
  then show ?thesis by (simp add: fir_tap_sum_def)
qed

text \<open>The fractional filters do not overflow on input up to 39000 in magnitude (one and a fifth of full
  scale): every output is the exact inner product of its coefficient row with the input window, plus the
  rounding offset. The rows are those of the 48 to 32, 32 to 24 and 44 to 32 kHz tables.\<close>

theorem fractional_rows_exact:
  assumes "c \<in> set (kCoefficients48To32 @ kCoefficients32To24 @ kCoefficients44To32)"
    and "\<And>j. j < length c \<Longrightarrow> \<bar>x j\<bar> \<le> 39000"
  shows "fir_tap_sum c x = 16384 + (\<Sum>j = 0..<length c. c ! j * x j)"
proof -
  have "(\<Sum>j = 0..<length c. \<bar>c ! j\<bar>) \<le> 54724"
    using assms(1) unfolding kCoefficients48To32_def kCoefficients32To24_def kCoefficients44To32_def
    by (auto simp: numeral_eq_Suc)
  then show ?thesis using assms(2) by (intro fir_tap_sum_exact [where M = 39000]) auto
qed

theorem fractional_rows_exact_witness:
  "fir_tap_sum [778, -2050, 1087, 23285, 12903, -3783, 441, 222] (\<lambda>_. 32767)
     = 16384 + (\<Sum>j = 0..<length [778, -2050, 1087, 23285, 12903, -3783, 441, 222 :: int].
         [778, -2050, 1087, 23285, 12903, -3783, 441, 222] ! j * 32767)"
  by (rule fractional_rows_exact) (simp_all add: kCoefficients48To32_def)

end
