(* ===== verification/Ring_Buffer.thy ===== *)
theory Ring_Buffer
  imports C_Int
begin

text \<open>
  \<open>modules/audio_processing/utility/ring_buffer.c\<close>: the ring buffer that decouples the audio
  threads from the echo control. The model keeps the byte array, the positions in elements and the
  wrap indicator of the C structure; addresses into \<open>data\<close> are byte offsets. A byte is an \<open>int\<close>.
  \<open>size_t\<close> values are natural numbers whose subtraction wraps at 64 bits, the \<open>(int)\<close> casts of
  \<open>WebRtc_MoveReadPtr\<close> are \<open>s32\<close>.

  The locale \<open>bounded_fifo\<close> is the contract clients rely on; the buffer's operations are proved to
  meet it, so over any run of reads and writes the bytes come out in the order they were accepted.
\<close>

section \<open>State\<close>

datatype Wrap = SAME_WRAP | DIFF_WRAP

record RingBuffer =
  read_pos :: nat
  write_pos :: nat
  element_count :: nat
  element_size :: nat
  rw_wrap :: Wrap
  data :: "int list"

definition size_sub :: "nat \<Rightarrow> nat \<Rightarrow> nat" where
  "size_sub a b = (if b \<le> a then a - b else a + 18446744073709551616 - b)"

text \<open>\<open>memcpy(dst + d, src + s, n)\<close> and \<open>memset(dst, 0, n)\<close> on byte arrays.\<close>

definition memcpy :: "int list \<Rightarrow> nat \<Rightarrow> int list \<Rightarrow> nat \<Rightarrow> nat \<Rightarrow> int list" where
  "memcpy dst d src s n = take d dst @ take n (drop s src) @ drop (d + n) dst"

section \<open>Operations\<close>

definition available_read_of :: "RingBuffer \<Rightarrow> nat" where
  "available_read_of self =
     (if rw_wrap self = SAME_WRAP then size_sub (write_pos self) (read_pos self)
      else size_sub (element_count self) (read_pos self) + write_pos self)"

definition WebRtc_available_read :: "RingBuffer option \<Rightarrow> nat" where
  "WebRtc_available_read self = (case self of None \<Rightarrow> 0 | Some self \<Rightarrow> available_read_of self)"

definition WebRtc_available_write :: "RingBuffer option \<Rightarrow> nat" where
  "WebRtc_available_write self =
     (case self of None \<Rightarrow> 0
      | Some self \<Rightarrow> size_sub (element_count self) (WebRtc_available_read (Some self)))"

text \<open>
  The readable regions: the number of elements, then offset and byte count of the first region,
  then offset (\<open>None\<close> for \<open>NULL\<close>) and byte count of the second.
\<close>

definition GetBufferReadRegions ::
    "RingBuffer \<Rightarrow> nat \<Rightarrow> nat \<times> nat \<times> nat \<times> nat option \<times> nat" where
  "GetBufferReadRegions buf count =
     (let readable_elements = WebRtc_available_read (Some buf);
          read_elements = (if readable_elements < count then readable_elements else count);
          margin = size_sub (element_count buf) (read_pos buf)
      in if read_elements > margin
         then (read_elements, read_pos buf * element_size buf, margin * element_size buf,
               Some 0, (read_elements - margin) * element_size buf)
         else (read_elements, read_pos buf * element_size buf, read_elements * element_size buf,
               None, 0))"

text \<open>
  \<open>malloc\<close> is the environment's: \<open>m1\<close> is the structure it returned (its fields uninitialised),
  \<open>m2\<close> gives the array it returns for a size, \<open>None\<close> when out of memory.
\<close>

definition WebRtc_CreateBuffer ::
    "RingBuffer option \<Rightarrow> (nat \<Rightarrow> int list option) \<Rightarrow> nat \<Rightarrow> nat \<Rightarrow> RingBuffer option" where
  "WebRtc_CreateBuffer m1 m2 count esize =
     (if count = 0 \<or> esize = 0 then None
      else case m1 of None \<Rightarrow> None
        | Some self \<Rightarrow>
            (case m2 (count * esize mod 2 ^ 64) of None \<Rightarrow> None
             | Some d \<Rightarrow> Some (self\<lparr>data := d, element_count := count, element_size := esize\<rparr>)))"

definition WebRtc_InitBuffer :: "RingBuffer option \<Rightarrow> int \<times> RingBuffer option" where
  "WebRtc_InitBuffer self =
     (case self of None \<Rightarrow> (-1, None)
      | Some self \<Rightarrow>
          (0, Some (self\<lparr>read_pos := 0, write_pos := 0, rw_wrap := SAME_WRAP,
             data := replicate (element_count self * element_size self mod 2 ^ 64) 0\<rparr>)))"

definition WebRtc_MoveReadPtr :: "RingBuffer option \<Rightarrow> int \<Rightarrow> int \<times> RingBuffer option" where
  "WebRtc_MoveReadPtr self count =
     (case self of None \<Rightarrow> (0, None)
      | Some self \<Rightarrow>
          let free_elements = s32 (int (WebRtc_available_write (Some self)));
              readable_elements = s32 (int (WebRtc_available_read (Some self)));
              rpos = s32 (int (read_pos self));
              count = (if count > readable_elements then readable_elements else count);
              count = (if count < - free_elements then - free_elements else count);
              rpos = s32 (rpos + count);
              (rpos, wrap) = (if rpos > s32 (int (element_count self))
                 then (s32 (rpos - s32 (int (element_count self))), SAME_WRAP)
                 else (rpos, rw_wrap self));
              (rpos, wrap) = (if rpos < 0
                 then (s32 (rpos + s32 (int (element_count self))), DIFF_WRAP)
                 else (rpos, wrap))
          in (count, Some (self\<lparr>rw_wrap := wrap, read_pos := nat rpos\<rparr>)))"

text \<open>
  A read returns the count, the buffer, the destination array and what \<open>*data_ptr\<close> points to when
  the caller passed one: a place in the buffer's array or the destination.
\<close>

datatype read_ptr = InBuffer nat | InData

definition WebRtc_ReadBuffer ::
    "RingBuffer option \<Rightarrow> bool \<Rightarrow> int list option \<Rightarrow> nat
      \<Rightarrow> nat \<times> RingBuffer option \<times> int list option \<times> read_ptr option" where
  "WebRtc_ReadBuffer self want_ptr dest count =
     (case self of None \<Rightarrow> (0, self, dest, None)
      | Some buf \<Rightarrow>
         (case dest of None \<Rightarrow> (0, self, dest, None)
          | Some d \<Rightarrow>
             let (read_count, ptr_1, bytes_1, ptr_2, bytes_2) = GetBufferReadRegions buf count;
                 (d, ptr) =
                   (if bytes_2 > 0
                    then (memcpy (memcpy d 0 (data buf) ptr_1 bytes_1) bytes_1 (data buf) (the ptr_2) bytes_2,
                          InData)
                    else if \<not> want_ptr then (memcpy d 0 (data buf) ptr_1 bytes_1, InBuffer ptr_1)
                    else (d, InBuffer ptr_1))
             in (read_count, snd (WebRtc_MoveReadPtr (Some buf) (s32 (int read_count))), Some d,
                 if want_ptr then Some ptr else None)))"

definition WebRtc_WriteBuffer ::
    "RingBuffer option \<Rightarrow> int list option \<Rightarrow> nat \<Rightarrow> nat \<times> RingBuffer option" where
  "WebRtc_WriteBuffer self src count =
     (case self of None \<Rightarrow> (0, self)
      | Some buf \<Rightarrow>
         (case src of None \<Rightarrow> (0, self)
          | Some src \<Rightarrow>
             let free_elements = WebRtc_available_write (Some buf);
                 write_elements = (if free_elements < count then free_elements else count);
                 n = write_elements;
                 margin = size_sub (element_count buf) (write_pos buf);
                 (buf, n) =
                   (if write_elements > margin
                    then (buf\<lparr>data := memcpy (data buf) (write_pos buf * element_size buf) src 0
                                        (margin * element_size buf),
                             write_pos := 0, rw_wrap := DIFF_WRAP\<rparr>, n - margin)
                    else (buf, n));
                 buf = buf\<lparr>data := memcpy (data buf) (write_pos buf * element_size buf) src
                                    ((write_elements - n) * element_size buf) (n * element_size buf)\<rparr>;
                 buf = buf\<lparr>write_pos := write_pos buf + n\<rparr>
             in (write_elements, Some buf)))"

section \<open>Invariant and contents\<close>

text \<open>
  The bound \<open>2\<^sup>3\<^sup>0\<close> on the number of elements keeps the \<open>int\<close> sums of
  \<open>WebRtc_MoveReadPtr\<close>, up to twice the element count, from overflowing.
\<close>

definition rb_ok :: "RingBuffer \<Rightarrow> bool" where
  "rb_ok b \<longleftrightarrow> 0 < element_count b \<and> 0 < element_size b
     \<and> int (element_count b) < 1073741824
     \<and> length (data b) = element_count b * element_size b
     \<and> read_pos b \<le> element_count b \<and> write_pos b \<le> element_count b
     \<and> (if rw_wrap b = SAME_WRAP then read_pos b \<le> write_pos b else write_pos b \<le> read_pos b)"

text \<open>The bytes waiting to be read, oldest first.\<close>

definition contents :: "RingBuffer \<Rightarrow> int list" where
  "contents b = take (available_read_of b * element_size b)
     (drop (read_pos b * element_size b) (data b) @ data b)"

lemma size_sub_le [simp]: "b \<le> a \<Longrightarrow> size_sub a b = a - b"
  by (simp add: size_sub_def)

lemma available_read_simps:
  assumes "rb_ok b"
  shows "available_read_of b = (if rw_wrap b = SAME_WRAP then write_pos b - read_pos b
           else element_count b - read_pos b + write_pos b)"
    and "available_read_of b \<le> element_count b"
  using assms by (auto simp: rb_ok_def available_read_of_def split: if_splits)

lemma available_write_simp:
  "rb_ok b \<Longrightarrow> WebRtc_available_write (Some b) = element_count b - available_read_of b"
  using available_read_simps(2) by (simp add: WebRtc_available_write_def WebRtc_available_read_def)

lemma contents_same:
  assumes "rb_ok b" and "rw_wrap b = SAME_WRAP"
  shows "contents b = take ((write_pos b - read_pos b) * element_size b)
           (drop (read_pos b * element_size b) (data b))"
  using assms
  by (auto simp: contents_def available_read_simps rb_ok_def diff_mult_distrib)

lemma contents_diff:
  assumes "rb_ok b" and "rw_wrap b = DIFF_WRAP"
  shows "contents b = drop (read_pos b * element_size b) (data b)
           @ take (write_pos b * element_size b) (data b)"
  using assms
  by (auto simp: contents_def available_read_simps rb_ok_def add_mult_distrib diff_mult_distrib)

lemma rb_ok_bytes:
  assumes "rb_ok b"
  shows "read_pos b * element_size b \<le> length (data b)"
    and "write_pos b * element_size b \<le> length (data b)"
  using assms by (auto simp: rb_ok_def)

lemma length_contents:
  assumes "rb_ok b"
  shows "length (contents b) = available_read_of b * element_size b"
proof (cases "rw_wrap b")
  case SAME_WRAP
  with assms rb_ok_bytes [OF assms] show ?thesis
    by (simp add: contents_same available_read_simps min_absorb2 diff_mult_distrib diff_le_mono)
next
  case DIFF_WRAP
  with assms rb_ok_bytes [OF assms] show ?thesis
    by (simp add: contents_diff available_read_simps min_absorb2 diff_mult_distrib add_mult_distrib rb_ok_def)
qed


section \<open>Moving the read position\<close>

text \<open>The amount \<open>WebRtc_MoveReadPtr\<close> moves by: the request, kept between the free and readable elements.\<close>

definition move_amount :: "RingBuffer \<Rightarrow> int \<Rightarrow> int" where
  "move_amount b c = max (- int (element_count b - available_read_of b)) (min (int (available_read_of b)) c)"

lemma MoveReadPtr_eval:
  fixes c :: int
  assumes ok: "rb_ok b"
  defines "r \<equiv> int (read_pos b) + move_amount b c"
  shows "WebRtc_MoveReadPtr (Some b) c =
     (move_amount b c, Some (if r > int (element_count b)
        then b\<lparr>rw_wrap := SAME_WRAP, read_pos := nat (r - int (element_count b))\<rparr>
        else if r < 0 then b\<lparr>rw_wrap := DIFF_WRAP, read_pos := nat (r + int (element_count b))\<rparr>
        else b\<lparr>read_pos := nat r\<rparr>))"
proof -
  have av: "available_read_of b \<le> element_count b" by (rule available_read_simps(2) [OF ok])
  have b: "element_count b < 1073741824" "read_pos b \<le> element_count b" using ok by (auto simp: rb_ok_def)
  have m: "- int (element_count b) \<le> move_amount b c" "move_amount b c \<le> int (element_count b)"
    using av by (auto simp: move_amount_def)
  have fits: "s32 (int (element_count b)) = int (element_count b)"
    "s32 (int (read_pos b)) = int (read_pos b)"
    "s32 (int (available_read_of b)) = int (available_read_of b)"
    "s32 (int (element_count b - available_read_of b)) = int (element_count b - available_read_of b)"
    using b av by (auto intro!: s32_id)
  have cl: "(if (if c > int (available_read_of b) then int (available_read_of b) else c)
        < - int (element_count b - available_read_of b) then - int (element_count b - available_read_of b)
      else (if c > int (available_read_of b) then int (available_read_of b) else c)) = move_amount b c"
    by (auto simp: move_amount_def)
  have r: "s32 (int (read_pos b) + move_amount b c) = r" unfolding r_def using b m by (intro s32_id) auto
  have up: "r > int (element_count b) \<Longrightarrow> s32 (r - int (element_count b)) = r - int (element_count b)"
    using b m unfolding r_def by (intro s32_id) auto
  have down: "r < 0 \<Longrightarrow> s32 (r + int (element_count b)) = r + int (element_count b)"
    using b m unfolding r_def by (intro s32_id) auto
  show ?thesis
    unfolding WebRtc_MoveReadPtr_def option.case Let_def available_write_simp [OF ok] fits
      WebRtc_available_read_def cl r
    using up down by (auto split: if_splits)
qed

lemma MoveReadPtr_ok:
  assumes ok: "rb_ok b" and mv: "WebRtc_MoveReadPtr (Some b) c = (k, Some b')"
  shows "rb_ok b' \<and> k = move_amount b c \<and> data b' = data b \<and> element_size b' = element_size b
       \<and> element_count b' = element_count b \<and> write_pos b' = write_pos b
       \<and> int (available_read_of b') = int (available_read_of b) - move_amount b c"
proof -
  define m where "m = move_amount b c"
  have av: "available_read_of b \<le> element_count b" by (rule available_read_simps(2) [OF ok])
  have mb: "- int (element_count b - available_read_of b) \<le> m" "m \<le> int (available_read_of b)"
    by (auto simp: m_def move_amount_def)
  note simps = available_read_simps(1) [OF ok] rb_ok_def available_read_of_def
  from mv have k: "k = m" by (simp add: MoveReadPtr_eval [OF ok] m_def)
  have b': "b' = (if int (read_pos b) + m > int (element_count b)
        then b\<lparr>rw_wrap := SAME_WRAP, read_pos := nat (int (read_pos b) + m - int (element_count b))\<rparr>
        else if int (read_pos b) + m < 0
        then b\<lparr>rw_wrap := DIFF_WRAP, read_pos := nat (int (read_pos b) + m + int (element_count b))\<rparr>
        else b\<lparr>read_pos := nat (int (read_pos b) + m)\<rparr>)"
    using mv unfolding MoveReadPtr_eval [OF ok] m_def by (auto simp only: prod.inject option.inject)
  have "rb_ok b'"
    using ok mb av unfolding b' by (cases "rw_wrap b") (auto simp: simps split: if_splits)
  moreover have "int (available_read_of b') = int (available_read_of b) - m"
    using ok mb av \<open>rb_ok b'\<close> unfolding available_read_simps(1) [OF \<open>rb_ok b'\<close>] available_read_simps(1) [OF ok]
    by (cases "rw_wrap b") (auto simp: b' rb_ok_def split: if_splits)
  moreover have "data b' = data b" "element_size b' = element_size b" "element_count b' = element_count b"
    "write_pos b' = write_pos b" by (auto simp: b')
  ultimately show ?thesis using k by (simp add: m_def)
qed


lemma MoveReadPtr_forward:
  assumes ok: "rb_ok b" and k: "k \<le> available_read_of b"
  shows "\<exists>b'. WebRtc_MoveReadPtr (Some b) (int k) = (int k, Some b') \<and> rb_ok b'
       \<and> contents b' = drop (k * element_size b) (contents b)
       \<and> element_size b' = element_size b \<and> element_count b' = element_count b"
proof -
  obtain c b' where mv: "WebRtc_MoveReadPtr (Some b) (int k) = (c, Some b')"
    by (simp add: MoveReadPtr_eval [OF ok])
  note b'ok = MoveReadPtr_ok [OF ok mv]
  have amt: "move_amount b (int k) = int k" using k by (simp add: move_amount_def)
  let ?es = "element_size b"
  have ro: "read_pos b \<le> element_count b" "write_pos b \<le> element_count b" using ok by (auto simp: rb_ok_def)
  have len: "length (data b) = element_count b * ?es" using ok by (simp add: rb_ok_def)
  have "contents b' = drop (k * ?es) (contents b)"
  proof (cases "rw_wrap b")
    case SAME_WRAP
    then have le: "read_pos b + k \<le> write_pos b" using k ok by (auto simp: available_read_simps rb_ok_def)
    then have b': "b' = b\<lparr>read_pos := read_pos b + k\<rparr>"
      using mv ro unfolding MoveReadPtr_eval [OF ok] amt by (auto split: if_splits)
    then show ?thesis using SAME_WRAP b'ok
      by (simp add: contents_same ok drop_take diff_mult_distrib add_mult_distrib add.commute)
  next
    case DIFF_WRAP
    show ?thesis
    proof (cases "read_pos b + k \<le> element_count b")
      case True
      then have b': "b' = b\<lparr>read_pos := read_pos b + k\<rparr>"
        using mv unfolding MoveReadPtr_eval [OF ok] amt by (auto split: if_splits)
      have "(read_pos b + k) * ?es \<le> element_count b * ?es" using True by (rule mult_le_mono1)
      then show ?thesis using DIFF_WRAP b'ok b' len
        by (simp add: contents_diff ok add_mult_distrib add.commute)
    next
      case False
      define r where "r = read_pos b + k - element_count b"
      have b': "b' = b\<lparr>rw_wrap := SAME_WRAP, read_pos := r\<rparr>"
        using mv False unfolding MoveReadPtr_eval [OF ok] amt r_def by (auto split: if_splits simp: nat_diff_distrib)
      have kr: "k = (element_count b - read_pos b) + r" using False ro by (simp add: r_def)
      have "k * ?es = (element_count b * ?es - read_pos b * ?es) + r * ?es"
        by (simp add: kr add_mult_distrib diff_mult_distrib)
      then show ?thesis using DIFF_WRAP b'ok b' len ok
        by (simp add: contents_diff contents_same drop_take diff_mult_distrib)
    qed
  qed
  moreover have "c = int k" using b'ok amt by simp
  ultimately show ?thesis using mv b'ok by blast
qed

section \<open>Reading\<close>

text \<open>The bytes the caller of a read sees, through \<open>*data_ptr\<close> when it asked for it.\<close>

definition delivered :: "nat \<Rightarrow> RingBuffer option \<Rightarrow> int list option \<Rightarrow> read_ptr option \<Rightarrow> nat \<Rightarrow> int list" where
  "delivered count self dest ptr esize =
     (case ptr of Some (InBuffer off) \<Rightarrow> take (count * esize) (drop off (data (the self)))
      | _ \<Rightarrow> take (count * esize) (the dest))"

lemma length_memcpy:
  "d + n \<le> length dst \<Longrightarrow> s + n \<le> length src \<Longrightarrow> length (memcpy dst d src s n) = length dst"
  by (simp add: memcpy_def)

lemma drop_memcpy_ge:
  "d + n \<le> r \<Longrightarrow> d + n \<le> length dst \<Longrightarrow> s + n \<le> length src \<Longrightarrow> drop r (memcpy dst d src s n) = drop r dst"
  by (simp add: memcpy_def)

lemma drop_memcpy_le:
  "r \<le> d \<Longrightarrow> d \<le> length dst \<Longrightarrow>
     drop r (memcpy dst d src s n) = drop r (take d dst) @ take n (drop s src) @ drop (d + n) dst"
  by (simp add: memcpy_def)

lemma take_memcpy_le: "r \<le> d \<Longrightarrow> d \<le> length dst \<Longrightarrow> take r (memcpy dst d src s n) = take r dst"
  by (simp add: memcpy_def min_absorb1)

lemma take_memcpy_end:
  "d \<le> length dst \<Longrightarrow> s + n \<le> length src \<Longrightarrow> take (d + n) (memcpy dst d src s n) = take d dst @ take n (drop s src)"
  by (simp add: memcpy_def)

lemma ReadRegions_contents:
  assumes ok: "rb_ok b"
    and r: "GetBufferReadRegions b count = (n, p1, l1, p2, l2)"
  shows "n = min count (available_read_of b) \<and> l1 + l2 = n * element_size b
       \<and> p1 + l1 \<le> length (data b) \<and> (l2 > 0 \<longrightarrow> p2 = Some 0 \<and> l2 \<le> length (data b))
       \<and> take (n * element_size b) (contents b) = take l1 (drop p1 (data b)) @ take l2 (data b)"
proof -
  let ?es = "element_size b"
  have av: "available_read_of b \<le> element_count b" by (rule available_read_simps(2) [OF ok])
  have ro: "read_pos b \<le> element_count b" and len: "length (data b) = element_count b * ?es"
    using ok by (auto simp: rb_ok_def)
  have n: "n = min count (available_read_of b)"
    using r by (auto simp: GetBufferReadRegions_def Let_def WebRtc_available_read_def split: if_splits)
  then have "n * ?es \<le> available_read_of b * ?es" by (intro mult_le_mono1) simp
  then have tk: "take (n * ?es) (contents b) = take (n * ?es) (drop (read_pos b * ?es) (data b) @ data b)"
    unfolding contents_def take_take by (simp only: min_absorb1)
  show ?thesis
  proof (cases "n > element_count b - read_pos b")
    case True
    then have e: "p1 = read_pos b * ?es" "l1 = (element_count b - read_pos b) * ?es" "p2 = Some 0"
      "l2 = (n - (element_count b - read_pos b)) * ?es"
      using r n ro by (auto simp: GetBufferReadRegions_def Let_def WebRtc_available_read_def min_def split: if_splits)
    have "n - (element_count b - read_pos b) \<le> element_count b" using n av by auto
    then have l2: "l2 \<le> length (data b)" unfolding e len by (rule mult_le_mono1)
    have "(element_count b - read_pos b) * ?es \<le> n * ?es" using True by (intro mult_le_mono1) simp
    then have "n * ?es = l1 + l2" by (simp add: e diff_mult_distrib)
    then have nl: "n * ?es = l1 + l2" .
    have p: "p1 + l1 = length (data b)"
      using mult_le_mono1 [OF ro, of ?es] by (simp add: e len diff_mult_distrib)
    moreover from p have "l1 + l2 + p1 - length (data b) = l2" by simp
    ultimately have "take (n * ?es) (contents b) = take l1 (drop p1 (data b)) @ take l2 (data b)"
      using tk [unfolded nl, folded e(1)] p unfolding nl by simp
    then show ?thesis using n nl p l2 e(3) by simp
  next
    case False
    then have e: "p1 = read_pos b * ?es" "l1 = n * ?es" "l2 = 0"
      using r n ro by (auto simp: GetBufferReadRegions_def Let_def WebRtc_available_read_def min_def split: if_splits)
    have "n + read_pos b \<le> element_count b" using False ro by simp
    then have "n * ?es + read_pos b * ?es \<le> length (data b)"
      unfolding len add_mult_distrib [symmetric] by (rule mult_le_mono1)
    then show ?thesis using n e tk by simp
  qed
qed

lemma ReadBuffer_spec:
  assumes ok: "rb_ok b" and d: "min count (available_read_of b) * element_size b \<le> length d"
    and r: "WebRtc_ReadBuffer (Some b) want_ptr (Some d) count = (n, self', dest', ptr)"
  shows "n = min count (available_read_of b)
       \<and> delivered n (Some b) dest' ptr (element_size b) = take (n * element_size b) (contents b)
       \<and> (\<exists>b'. self' = Some b' \<and> rb_ok b' \<and> contents b' = drop (n * element_size b) (contents b)
            \<and> element_size b' = element_size b \<and> element_count b' = element_count b)"
proof -
  obtain m p1 l1 p2 l2 where reg: "GetBufferReadRegions b count = (m, p1, l1, p2, l2)"
    by (metis prod_cases5)
  note rc = ReadRegions_contents [OF ok reg]
  have nm: "n = m" and self': "self' = snd (WebRtc_MoveReadPtr (Some b) (s32 (int m)))"
    using r reg by (auto simp: WebRtc_ReadBuffer_def Let_def split: if_splits)
  have "m < 1073741824" using rc available_read_simps(2) [OF ok] ok by (auto simp: rb_ok_def)
  then have "s32 (int m) = int m" by (intro s32_id) auto
  then have mv: "\<exists>b'. self' = Some b' \<and> rb_ok b' \<and> contents b' = drop (n * element_size b) (contents b)
            \<and> element_size b' = element_size b \<and> element_count b' = element_count b"
    using MoveReadPtr_forward [OF ok, of m] rc nm self' by auto
  have d': "l1 + l2 \<le> length d" using d rc by simp
  have dl: "delivered n (Some b) dest' ptr (element_size b) = take l1 (drop p1 (data b)) @ take l2 (data b)"
  proof (cases "l2 > 0")
    case True
    then have dp: "dest' = Some (memcpy (memcpy d 0 (data b) p1 l1) l1 (data b) 0 l2)"
      "ptr = None \<or> ptr = Some InData"
      using r reg rc by (auto simp: WebRtc_ReadBuffer_def Let_def split: if_splits)
    have p12: "p1 + l1 \<le> length (data b)" "l2 \<le> length (data b)" using rc True by auto
    have "take (l1 + l2) (memcpy (memcpy d 0 (data b) p1 l1) l1 (data b) 0 l2)
        = take l1 (drop p1 (data b)) @ take l2 (data b)"
      using d' p12 by (simp add: take_memcpy_end length_memcpy take_memcpy_end [of 0, simplified])
    moreover have nl: "n * element_size b = l1 + l2" using rc nm by simp
    ultimately show ?thesis using dp unfolding delivered_def nl by auto
  next
    case False
    then show ?thesis using r reg rc nm
      by (auto simp: WebRtc_ReadBuffer_def Let_def delivered_def take_memcpy_end [of 0, simplified] split: if_splits)
  qed
  have "take (n * element_size b) (contents b) = take l1 (drop p1 (data b)) @ take l2 (data b)"
    unfolding nm using rc by blast
  with dl have "delivered n (Some b) dest' ptr (element_size b) = take (n * element_size b) (contents b)"
    by (simp only:)
  moreover have "n = min count (available_read_of b)" unfolding nm using rc by blast
  ultimately show ?thesis using mv by (intro conjI)
qed

section \<open>Writing\<close>

lemma contents_same_bytes:
  "rb_ok b \<Longrightarrow> rw_wrap b = SAME_WRAP \<Longrightarrow>
     contents b = drop (read_pos b * element_size b) (take (write_pos b * element_size b) (data b))"
  by (simp add: contents_same drop_take diff_mult_distrib)

lemma WriteBuffer_no_wrap:
  assumes ok: "rb_ok b" and k: "k = min count (element_count b - available_read_of b)"
    and fit: "k \<le> element_count b - write_pos b" and src: "k * element_size b \<le> length src"
  defines "b' \<equiv> b\<lparr>data := memcpy (data b) (write_pos b * element_size b) src 0 (k * element_size b),
                 write_pos := write_pos b + k\<rparr>"
  shows "WebRtc_WriteBuffer (Some b) (Some src) count = (k, Some b')"
    and "rb_ok b'" and "contents b' = contents b @ take (k * element_size b) src"
proof -
  let ?es = "element_size b"
  have pos: "read_pos b \<le> element_count b" "write_pos b \<le> element_count b"
    and len: "length (data b) = element_count b * ?es" using ok by (auto simp: rb_ok_def)
  have k': "k = (if element_count b - available_read_of b < count
      then element_count b - available_read_of b else count)" using k by (simp add: min_def)
  show "WebRtc_WriteBuffer (Some b) (Some src) count = (k, Some b')"
    using fit pos unfolding WebRtc_WriteBuffer_def option.case Let_def available_write_simp [OF ok]
      k' [symmetric] b'_def by simp
  have le: "write_pos b + k \<le> element_count b" using fit pos by simp
  then have le': "write_pos b * ?es + k * ?es \<le> length (data b)"
    unfolding len add_mult_distrib [symmetric] by (rule mult_le_mono1)
  have room: "rw_wrap b = DIFF_WRAP \<Longrightarrow> write_pos b + k \<le> read_pos b"
    using ok k by (auto simp: available_read_simps rb_ok_def)
  have wr: "if rw_wrap b = SAME_WRAP then read_pos b \<le> write_pos b else write_pos b + k \<le> read_pos b"
    using ok room by (cases "rw_wrap b") (auto simp: rb_ok_def)
  show ok': "rb_ok b'" using ok le le' src wr
    by (auto simp: b'_def rb_ok_def length_memcpy split: if_splits)
  have tk: "take ((write_pos b + k) * ?es) (data b') = take (write_pos b * ?es) (data b) @ take (k * ?es) src"
    using le' src unfolding add_mult_distrib b'_def by (simp add: take_memcpy_end)
  show "contents b' = contents b @ take (k * ?es) src"
  proof (cases "rw_wrap b")
    case SAME_WRAP
    then have "read_pos b * ?es \<le> write_pos b * ?es" using wr by (intro mult_le_mono1) simp
    moreover have "contents b' = drop (read_pos b * ?es) (take ((write_pos b + k) * ?es) (data b'))"
      using contents_same_bytes [OF ok'] SAME_WRAP by (simp add: b'_def)
    ultimately show ?thesis using le'
      unfolding tk contents_same_bytes [OF ok SAME_WRAP] by (simp del: mult_le_cancel2)
  next
    case DIFF_WRAP
    then have "write_pos b * ?es + k * ?es \<le> read_pos b * ?es"
      unfolding add_mult_distrib [symmetric] using room by (intro mult_le_mono1) simp
    then have "drop (read_pos b * ?es) (data b') = drop (read_pos b * ?es) (data b)"
      using le' src by (simp add: b'_def drop_memcpy_ge)
    moreover have "contents b' = drop (read_pos b * ?es) (data b') @ take ((write_pos b + k) * ?es) (data b')"
      using contents_diff [OF ok'] DIFF_WRAP by (simp add: b'_def)
    ultimately show ?thesis unfolding tk contents_diff [OF ok DIFF_WRAP] by simp
  qed
qed

lemma WriteBuffer_wrap:
  assumes ok: "rb_ok b" and k: "k = min count (element_count b - available_read_of b)"
    and wrap: "k > element_count b - write_pos b" and src: "k * element_size b \<le> length src"
  defines "m \<equiv> element_count b - write_pos b"
  defines "b' \<equiv> b\<lparr>data := memcpy (memcpy (data b) (write_pos b * element_size b) src 0 (m * element_size b))
                   0 src (m * element_size b) ((k - m) * element_size b),
                 write_pos := k - m, rw_wrap := DIFF_WRAP\<rparr>"
  shows "WebRtc_WriteBuffer (Some b) (Some src) count = (k, Some b')"
    and "rb_ok b'" and "contents b' = contents b @ take (k * element_size b) src"
proof -
  let ?es = "element_size b" and ?W = "write_pos b * element_size b"
  have pos: "read_pos b \<le> element_count b" "write_pos b \<le> element_count b"
    and len: "length (data b) = element_count b * ?es" using ok by (auto simp: rb_ok_def)
  have k': "k = (if element_count b - available_read_of b < count
      then element_count b - available_read_of b else count)" using k by (simp add: min_def)
  have km: "k - (k - m) = m" using wrap by (simp add: m_def)
  show "WebRtc_WriteBuffer (Some b) (Some src) count = (k, Some b')"
    using wrap pos km unfolding WebRtc_WriteBuffer_def option.case Let_def available_write_simp [OF ok]
      k' [symmetric] b'_def by (simp add: m_def)
  have same: "rw_wrap b = SAME_WRAP"
    using ok k wrap by (cases "rw_wrap b") (auto simp: available_read_simps rb_ok_def)
  have rw: "read_pos b \<le> write_pos b" "k - m \<le> read_pos b"
    using ok same k wrap by (auto simp: available_read_simps rb_ok_def m_def)
  have mes: "?W + m * ?es = length (data b)" unfolding m_def len using pos by (simp flip: add_mult_distrib)
  have kes: "k * ?es = m * ?es + (k - m) * ?es" using wrap by (simp add: m_def flip: add_mult_distrib)
  have nR: "(k - m) * ?es \<le> read_pos b * ?es" and RW: "read_pos b * ?es \<le> ?W"
    using rw by (auto intro: mult_le_mono1)
  have l1: "length (memcpy (data b) ?W src 0 (m * ?es)) = length (data b)"
    using mes src kes by (simp add: length_memcpy)
  have nL: "(k - m) * ?es \<le> length (data b)" using nR RW mes by linarith
  have l2: "length (data b') = length (data b)"
    using l1 nL src kes by (simp add: b'_def length_memcpy [of 0])
  show ok': "rb_ok b'" using ok rw l2 by (auto simp: b'_def rb_ok_def)
  have d1: "drop (read_pos b * ?es) (memcpy (data b) ?W src 0 (m * ?es))
      = drop (read_pos b * ?es) (take ?W (data b)) @ take (m * ?es) src"
    using RW mes by (simp add: drop_memcpy_le del: mult_le_cancel2)
  have D: "data b' = memcpy (memcpy (data b) ?W src 0 (m * ?es)) 0 src (m * ?es) ((k - m) * ?es)"
    by (simp add: b'_def)
  have "drop (read_pos b * ?es) (data b') = drop (read_pos b * ?es) (memcpy (data b) ?W src 0 (m * ?es))"
    unfolding D using nR nL l1 src kes by (intro drop_memcpy_ge) simp_all
  note d2 = this [unfolded d1]
  have "0 + (k - m) * ?es = (k - m) * ?es" by simp
  then have t2: "take ((k - m) * ?es) (data b') = take ((k - m) * ?es) (drop (m * ?es) src)"
    unfolding D using take_memcpy_end [of 0 "memcpy (data b) ?W src 0 (m * ?es)" "m * ?es" "(k - m) * ?es" src] src kes
    by simp
  show "contents b' = contents b @ take (k * ?es) src"
  proof -
    have "contents b' = drop (read_pos b * ?es) (data b') @ take ((k - m) * ?es) (data b')"
      using contents_diff [OF ok'] by (simp add: b'_def)
    then show ?thesis unfolding d2 t2 contents_same_bytes [OF ok same] kes take_add by simp
  qed
qed

lemma WriteBuffer_spec:
  assumes ok: "rb_ok b" and k: "k = min count (element_count b - available_read_of b)"
    and src: "k * element_size b \<le> length src"
  shows "\<exists>b'. WebRtc_WriteBuffer (Some b) (Some src) count = (k, Some b') \<and> rb_ok b'
       \<and> contents b' = contents b @ take (k * element_size b) src
       \<and> element_size b' = element_size b \<and> element_count b' = element_count b"
proof (cases "k \<le> element_count b - write_pos b")
  case True
  with WriteBuffer_no_wrap [OF ok k True src] show ?thesis by simp
next
  case False
  then have "k > element_count b - write_pos b" by simp
  with WriteBuffer_wrap [OF ok k this src] show ?thesis by simp
qed

section \<open>The contract of a bounded queue\<close>

datatype fifo_op = Write "int list" | Read nat

fun fifo_run :: "('s \<Rightarrow> int list \<Rightarrow> nat \<times> 's) \<Rightarrow> ('s \<Rightarrow> nat \<Rightarrow> int list \<times> 's) \<Rightarrow> 's \<Rightarrow> fifo_op list
     \<Rightarrow> int list \<times> int list \<times> 's" where
  "fifo_run wr rd s [] = ([], [], s)"
| "fifo_run wr rd s (Write xs # ops) =
     (let (k, s) = wr s xs; (acc, out, s) = fifo_run wr rd s ops in (take k xs @ acc, out, s))"
| "fifo_run wr rd s (Read n # ops) =
     (let (ys, s) = rd s n; (acc, out, s) = fifo_run wr rd s ops in (acc, ys @ out, s))"

locale bounded_fifo =
  fixes inv :: "'s \<Rightarrow> bool" and queue :: "'s \<Rightarrow> int list"
    and wr :: "'s \<Rightarrow> int list \<Rightarrow> nat \<times> 's" and rd :: "'s \<Rightarrow> nat \<Rightarrow> int list \<times> 's"
  assumes write_law: "inv s \<Longrightarrow> wr s xs = (k, s') \<Longrightarrow> inv s' \<and> queue s' = queue s @ take k xs"
    and read_law: "inv s \<Longrightarrow> rd s n = (ys, s') \<Longrightarrow> inv s' \<and> queue s = ys @ queue s'"
begin

lemma fifo_order:
  "inv s \<Longrightarrow> fifo_run wr rd s ops = (acc, out, s') \<Longrightarrow> inv s' \<and> queue s @ acc = out @ queue s'"
proof (induction ops arbitrary: s acc out s')
  case Nil
  then show ?case by simp
next
  case (Cons op ops)
  show ?case
  proof (cases op)
    case (Write xs)
    obtain k t where w: "wr s xs = (k, t)" by (rule prod.exhaust)
    obtain acc' out' t' where r: "fifo_run wr rd t ops = (acc', out', t')" by (rule prod_cases3)
    have "inv t" "queue t = queue s @ take k xs" using write_law [OF Cons.prems(1) w] by auto
    moreover have "inv t' \<and> queue t @ acc' = out' @ queue t'" by (rule Cons.IH [OF \<open>inv t\<close> r])
    ultimately show ?thesis using Cons.prems(2) Write w r by simp
  next
    case (Read n)
    obtain ys t where w: "rd s n = (ys, t)" by (rule prod.exhaust)
    obtain acc' out' t' where r: "fifo_run wr rd t ops = (acc', out', t')" by (rule prod_cases3)
    have "inv t" "queue s = ys @ queue t" using read_law [OF Cons.prems(1) w] by auto
    moreover have "inv t' \<and> queue t @ acc' = out' @ queue t'" by (rule Cons.IH [OF \<open>inv t\<close> r])
    ultimately show ?thesis using Cons.prems(2) Read w r by simp
  qed
qed

end

text \<open>
  A client's view of the two operations: it writes the whole elements of a byte string and reads
  into an array of the size it asks for, taking the result through \<open>*data_ptr\<close>.
\<close>

definition rb_write :: "RingBuffer \<Rightarrow> int list \<Rightarrow> nat \<times> RingBuffer" where
  "rb_write b src =
     (let (k, b') = WebRtc_WriteBuffer (Some b) (Some src) (length src div element_size b)
      in (k * element_size b, the b'))"

definition rb_read :: "RingBuffer \<Rightarrow> nat \<Rightarrow> int list \<times> RingBuffer" where
  "rb_read b n =
     (let (k, b', dest, ptr) = WebRtc_ReadBuffer (Some b) True (Some (replicate (n * element_size b) 0)) n
      in (delivered k (Some b) dest ptr (element_size b), the b'))"

interpretation ring: bounded_fifo rb_ok contents rb_write rb_read
proof unfold_locales
  fix s xs k s'
  assume ok: "rb_ok s" and w: "rb_write s xs = (k, s')"
  define c where "c = min (length xs div element_size s) (element_count s - available_read_of s)"
  have "c * element_size s \<le> length xs div element_size s * element_size s"
    unfolding c_def by (intro mult_le_mono1) simp
  also have "\<dots> \<le> length xs" by (rule div_times_less_eq_dividend)
  finally have le: "c * element_size s \<le> length xs" .
  from WriteBuffer_spec [OF ok c_def le] show "rb_ok s' \<and> contents s' = contents s @ take k xs"
    using w by (auto simp: rb_write_def)
next
  fix s n ys s'
  assume ok: "rb_ok s" and r: "rb_read s n = (ys, s')"
  obtain k b' dest ptr where e:
    "WebRtc_ReadBuffer (Some s) True (Some (replicate (n * element_size s) 0)) n = (k, b', dest, ptr)"
    by (rule prod_cases4)
  have "min n (available_read_of s) * element_size s \<le> length (replicate (n * element_size s) (0::int))"
    unfolding length_replicate by (intro mult_le_mono1) simp
  from ReadBuffer_spec [OF ok this e] show "rb_ok s' \<and> contents s = ys @ contents s'"
    using r e by (auto simp: rb_read_def)
qed

section \<open>The properties of the ring buffer\<close>

text \<open>A buffer of three elements of two bytes whose contents wrap.\<close>

definition rb_demo :: RingBuffer where
  "rb_demo = \<lparr>read_pos = 2, write_pos = 1, element_count = 3, element_size = 2, rw_wrap = DIFF_WRAP,
     data = [5, 6, 9, 9, 3, 4]\<rparr>"

lemma rb_demo_ok: "rb_ok rb_demo" "contents rb_demo = [3, 4, 5, 6]"
  by (simp_all add: rb_demo_def rb_ok_def contents_def available_read_of_def)

lemmas rb_ops_defs = rb_demo_def rb_ok_def contents_def available_read_of_def WebRtc_available_read_def
  WebRtc_available_write_def GetBufferReadRegions_def WebRtc_ReadBuffer_def WebRtc_WriteBuffer_def
  WebRtc_MoveReadPtr_def delivered_def memcpy_def rb_read_def rb_write_def s32_def

text \<open>A write takes as many elements as there is room for, the whole request if it fits, and appends
  them to the contents, across the end of the array where it has to; the invariant is kept.\<close>

theorem WriteBuffer_correct:
  assumes "rb_ok b" and "k = min count (element_count b - available_read_of b)"
    and "k * element_size b \<le> length src"
  shows "\<exists>b'. WebRtc_WriteBuffer (Some b) (Some src) count = (k, Some b') \<and> rb_ok b'
       \<and> contents b' = contents b @ take (k * element_size b) src
       \<and> WebRtc_available_write (Some b') = WebRtc_available_write (Some b) - k"
proof -
  from WriteBuffer_spec [OF assms] obtain b' where
    w: "WebRtc_WriteBuffer (Some b) (Some src) count = (k, Some b')" and ok': "rb_ok b'"
    and c: "contents b' = contents b @ take (k * element_size b) src"
    and e: "element_size b' = element_size b" "element_count b' = element_count b" by blast
  have "available_read_of b' * element_size b = (available_read_of b + k) * element_size b"
    using length_contents [OF ok'] length_contents [OF assms(1)] c e assms(3)
    by (simp add: min_absorb1 min_absorb2 add_mult_distrib)
  then have "available_read_of b' = available_read_of b + k" using assms(1) by (simp add: rb_ok_def)
  then show ?thesis using w ok' c e by (simp add: available_write_simp assms(1))
qed

theorem WriteBuffer_correct_witness:
  "\<exists>b'. WebRtc_WriteBuffer (Some rb_demo) (Some [1, 2, 8, 8]) 2 = (1, Some b') \<and> rb_ok b'
       \<and> contents b' = contents rb_demo @ take (1 * element_size rb_demo) [1, 2, 8, 8]
       \<and> WebRtc_available_write (Some b') = WebRtc_available_write (Some rb_demo) - 1"
  by (rule WriteBuffer_correct [OF rb_demo_ok(1)]) (simp_all add: rb_ops_defs)

text \<open>A read delivers the oldest elements, as many as are there, through \<open>*data_ptr\<close> when the caller
  passed it (without a copy unless the region wraps) and in its own array otherwise, and removes them.\<close>

theorem ReadBuffer_correct:
  assumes "rb_ok b" and "min count (available_read_of b) * element_size b \<le> length d"
    and "WebRtc_ReadBuffer (Some b) want_ptr (Some d) count = (n, self', dest', ptr)"
  shows "n = min count (WebRtc_available_read (Some b))
       \<and> delivered n (Some b) dest' ptr (element_size b) = take (n * element_size b) (contents b)
       \<and> (\<exists>b'. self' = Some b' \<and> rb_ok b' \<and> contents b' = drop (n * element_size b) (contents b))"
  using ReadBuffer_spec [OF assms] unfolding WebRtc_available_read_def option.case by blast

theorem ReadBuffer_correct_witness:
  "2 = min 5 (WebRtc_available_read (Some rb_demo))
     \<and> delivered 2 (Some rb_demo) (Some [3, 4, 5, 6, 0]) (Some InData) (element_size rb_demo)
         = take (2 * element_size rb_demo) (contents rb_demo)
     \<and> (\<exists>b'. Some (rb_demo\<lparr>rw_wrap := SAME_WRAP, read_pos := 1\<rparr>) = Some b' \<and> rb_ok b'
           \<and> contents b' = drop (2 * element_size rb_demo) (contents rb_demo))"
  by (rule ReadBuffer_correct [OF rb_demo_ok(1), of 5 "[0, 0, 0, 0, 0]" True]) (simp_all add: rb_ops_defs)

text \<open>C1. First in, first out: over any sequence of reads and writes on a buffer in good order, what was
  waiting and what the writes accepted is what the reads delivered followed by what is waiting at the end.\<close>

theorem ring_buffer_fifo:
  assumes "rb_ok b" and "fifo_run rb_write rb_read b ops = (accepted, read_out, b')"
  shows "contents b @ accepted = read_out @ contents b' \<and> rb_ok b'"
  using ring.fifo_order [OF assms] by simp

theorem ring_buffer_fifo_witness:
  "contents rb_demo @ [1, 2, 7, 8] = [3, 4, 5, 6] @ contents
       \<lparr>read_pos = 1, write_pos = 3, element_count = 3, element_size = 2, rw_wrap = SAME_WRAP, data = [5, 6, 1, 2, 7, 8]\<rparr>
   \<and> rb_ok \<lparr>read_pos = 1, write_pos = 3, element_count = 3, element_size = 2, rw_wrap = SAME_WRAP, data = [5, 6, 1, 2, 7, 8]\<rparr>"
  by (rule ring_buffer_fifo [OF rb_demo_ok(1), of "[Write [1, 2, 9], Read 1, Write [7, 8], Read 1]"]) code_simp

lemma contents_read_pos_end:
  assumes "rb_ok b" and "rw_wrap b = DIFF_WRAP" and "read_pos b = element_count b"
  shows "contents (b\<lparr>rw_wrap := SAME_WRAP, read_pos := 0\<rparr>) = contents b"
proof -
  have ok': "rb_ok (b\<lparr>rw_wrap := SAME_WRAP, read_pos := 0\<rparr>)" using assms by (simp add: rb_ok_def)
  then show ?thesis using assms
    by (simp add: contents_same contents_diff rb_ok_def)
qed

text \<open>Moving the read position forward over readable elements and back again gives them back to the
  reader: the contents are as before, and so is the buffer itself unless its read position stood at the
  very end of the array (the same place as the start, which is what it becomes).\<close>

theorem MoveReadPtr_back:
  assumes ok: "rb_ok b" and k: "k \<le> WebRtc_available_read (Some b)"
  shows "\<exists>b' b''. WebRtc_MoveReadPtr (Some b) (int k) = (int k, Some b')
           \<and> contents b' = drop (k * element_size b) (contents b)
           \<and> WebRtc_MoveReadPtr (Some b') (- int k) = (- int k, Some b'')
           \<and> contents b'' = contents b \<and> (read_pos b < element_count b \<longrightarrow> b'' = b)"
proof -
  have k': "k \<le> available_read_of b" using k by (simp add: WebRtc_available_read_def)
  from MoveReadPtr_forward [OF ok k'] obtain b' where
    mv: "WebRtc_MoveReadPtr (Some b) (int k) = (int k, Some b')" and ok': "rb_ok b'"
    and c: "contents b' = drop (k * element_size b) (contents b)" by blast
  note m = MoveReadPtr_ok [OF ok mv]
  have av: "available_read_of b \<le> element_count b" by (rule available_read_simps(2) [OF ok])
  have amt: "move_amount b (int k) = int k" using k' by (simp add: move_amount_def)
  have "int (available_read_of b') = int (available_read_of b) - int k" using m amt by simp
  then have bk: "move_amount b' (- int k) = - int k" using m av by (auto simp: move_amount_def)
  have ro: "read_pos b \<le> element_count b" using ok by (simp add: rb_ok_def)
  have wr: "read_pos b + k > element_count b \<Longrightarrow> rw_wrap b = DIFF_WRAP"
    using k' ok by (cases "rw_wrap b") (auto simp: available_read_simps rb_ok_def)
  have "WebRtc_MoveReadPtr (Some b') (- int k) = (- int k, Some (
      if read_pos b + k > element_count b \<and> read_pos b = element_count b
      then b\<lparr>rw_wrap := SAME_WRAP, read_pos := 0\<rparr> else b))"
    using mv ro wr k' av unfolding MoveReadPtr_eval [OF ok'] MoveReadPtr_eval [OF ok] bk amt
    by (auto split: if_splits)
  with mv c contents_read_pos_end [OF ok] wr show ?thesis by auto
qed

theorem MoveReadPtr_back_witness:
  "\<exists>b' b''. WebRtc_MoveReadPtr (Some rb_demo) (int 2) = (int 2, Some b')
      \<and> contents b' = drop (2 * element_size rb_demo) (contents rb_demo)
      \<and> WebRtc_MoveReadPtr (Some b') (- int 2) = (- int 2, Some b'')
      \<and> contents b'' = contents rb_demo \<and> (read_pos rb_demo < element_count rb_demo \<longrightarrow> b'' = rb_demo)"
  by (rule MoveReadPtr_back [OF rb_demo_ok(1)]) (simp add: rb_ops_defs)

text \<open>Creation gives no buffer for a zero count or size or when memory runs out; otherwise, whatever
  \<open>malloc\<close> left in the structure, and if the size of the data does not wrap, the initialised buffer is empty and in good order, and a \<open>NULL\<close>
  handle makes every operation return its error value and change nothing.\<close>

lemma CreateBuffer_Init_ok:
  assumes m: "m1 = Some s" "m2 (count * esize) = Some d"
    and pos: "0 < count" "0 < esize" "count < 1073741824" "count * esize < 2 ^ 64"
  shows "WebRtc_CreateBuffer m1 m2 0 esize = None \<and> WebRtc_CreateBuffer m1 m2 count 0 = None
       \<and> WebRtc_CreateBuffer None m2 count esize = None \<and> WebRtc_CreateBuffer m1 (\<lambda>_. None) count esize = None
       \<and> WebRtc_InitBuffer None = (-1, None)
       \<and> WebRtc_WriteBuffer None src n = (0, None) \<and> WebRtc_ReadBuffer None wp dest n = (0, None, dest, None)
       \<and> WebRtc_MoveReadPtr None i = (0, None)
       \<and> (\<exists>b. WebRtc_InitBuffer (WebRtc_CreateBuffer m1 m2 count esize) = (0, Some b)
            \<and> rb_ok b \<and> contents b = [] \<and> WebRtc_available_write (Some b) = count)"
  using assms by (auto simp: WebRtc_CreateBuffer_def WebRtc_InitBuffer_def WebRtc_WriteBuffer_def
      WebRtc_ReadBuffer_def WebRtc_MoveReadPtr_def rb_ok_def contents_def available_read_of_def
      WebRtc_available_write_def WebRtc_available_read_def)

end
