(* ===== verification/Vad_Sp.thy ===== *)
theory Vad_Sp
  imports Spl_Resample "HOL-Library.Multiset"
begin

text \<open>
  The state of the voice activity detector (\<open>common_audio/vad/vad_core.h\<close>) and the signal processing
  it uses on its own (\<open>vad_sp.c\<close>): downsampling by two, and the tracking of the smallest feature
  values of the last frames with their smoothed median. The memory of small values is proved to stay
  sorted and to be updated by sorted insertion, and the smoothing to stay between its two inputs.
\<close>

section \<open>The instance (vad\_core.h)\<close>

definition kNumChannels :: nat where "kNumChannels = 6"
definition kNumGaussians :: nat where "kNumGaussians = 2"
definition kTableSize :: nat where "kTableSize = kNumChannels * kNumGaussians"
definition kMinEnergy :: int where "kMinEnergy = 10"

record VadInstT =
  vad :: int
  downsampling_filter_states :: "int list"
  state_48_to_8 :: State48khzTo8khz
  noise_means :: "int list"
  speech_means :: "int list"
  noise_stds :: "int list"
  speech_stds :: "int list"
  frame_counter :: int
  over_hang :: int
  num_of_speech :: int
  index_vector :: "int list"
  low_value_vector :: "int list"
  mean_value :: "int list"
  upper_state :: "int list"
  lower_state :: "int list"
  hp_filter_state :: "int list"
  over_hang_max_1 :: "int list"
  over_hang_max_2 :: "int list"
  individual :: "int list"
  total_thr :: "int list"
  init_flag :: int

section \<open>Downsampling\<close>

definition kAllPassCoefsQ13 :: "int list" where "kAllPassCoefsQ13 = [5243, 1392]"
definition kSmoothingDown :: int where "kSmoothingDown = 6553"
definition kSmoothingUp :: int where "kSmoothingUp = 32439"

text \<open>The filter state is the pair \<open>filter_state[0], filter_state[1]\<close>; an odd last sample is not read.\<close>

fun WebRtcVad_Downsampling :: "int \<times> int \<Rightarrow> int list \<Rightarrow> int list \<times> (int \<times> int)" where
  "WebRtcVad_Downsampling (tmp32_1, tmp32_2) (x # y # signal_in) =
     (let tmp16_1 = s16 (shr tmp32_1 1 + WEBRTC_SPL_MUL_16_16_RSFT (kAllPassCoefsQ13 ! 0) x 14);
          signal_out = tmp16_1;
          tmp32_1 = s32 (x - WEBRTC_SPL_MUL_16_16_RSFT (kAllPassCoefsQ13 ! 0) tmp16_1 12);
          tmp16_2 = s16 (shr tmp32_2 1 + WEBRTC_SPL_MUL_16_16_RSFT (kAllPassCoefsQ13 ! 1) y 14);
          signal_out = s16 (signal_out + tmp16_2);
          tmp32_2 = s32 (y - WEBRTC_SPL_MUL_16_16_RSFT (kAllPassCoefsQ13 ! 1) tmp16_2 12);
          (out, st) = WebRtcVad_Downsampling (tmp32_1, tmp32_2) signal_in
      in (signal_out # out, st))"
| "WebRtcVad_Downsampling st _ = ([], st)"

lemma Downsampling_append:
  "2 dvd length xs \<Longrightarrow> WebRtcVad_Downsampling st (xs @ ys) =
     (let (us, st) = WebRtcVad_Downsampling st xs; (vs, st) = WebRtcVad_Downsampling st ys in (us @ vs, st))"
  by (induction st xs rule: WebRtcVad_Downsampling.induct) (auto simp: Let_def split_beta)

interpretation vad_down: stream_filter WebRtcVad_Downsampling "\<lambda>_. True" 2
  by unfold_locales (simp_all add: Downsampling_append)

lemma length_Downsampling [simp]: "length (fst (WebRtcVad_Downsampling st xs)) = length xs div 2"
  by (induction st xs rule: WebRtcVad_Downsampling.induct) (auto simp: Let_def split_beta)

section \<open>The smallest values of the last frames\<close>

text \<open>
  \<open>age\<close> and \<open>smallest_values\<close> are the 16 entries of the channel; the C pointers reach one entry
  further, which the shift loop reads into entry 15 before that entry is overwritten. The read
  value, the first of the next channel or beyond the array, is the parameter \<open>beyond\<close> here.
\<close>

definition read_at :: "int \<Rightarrow> int list \<Rightarrow> nat \<Rightarrow> int" where
  "read_at beyond xs j = (if j < length xs then xs ! j else beyond)"

definition age_step :: "int \<Rightarrow> int \<Rightarrow> nat \<Rightarrow> int list \<times> int list \<Rightarrow> int list \<times> int list" where
  "age_step beyond_a beyond_v i st =
     (case st of (age, smallest_values) \<Rightarrow>
        if age ! i \<noteq> 100 then (age[i := s16 (age ! i + 1)], smallest_values)
        else let (age, smallest_values) =
               fold (\<lambda>j (age, smallest_values).
                   (age[j := read_at beyond_a age (j + 1)],
                    smallest_values[j := read_at beyond_v smallest_values (j + 1)]))
                 [i..<16] (age, smallest_values)
             in (age[15 := 101], smallest_values[15 := 10000]))"

text \<open>The decision tree for the position, \<open>-1\<close> when the value is not among the 16 smallest.\<close>

definition find_position :: "int list \<Rightarrow> int \<Rightarrow> int" where
  "find_position v f =
     (if f < v ! 7 then
        (if f < v ! 3 then
           (if f < v ! 1 then (if f < v ! 0 then 0 else 1)
            else if f < v ! 2 then 2 else 3)
         else if f < v ! 5 then (if f < v ! 4 then 4 else 5)
         else if f < v ! 6 then 6 else 7)
      else if f < v ! 15 then
        (if f < v ! 11 then
           (if f < v ! 9 then (if f < v ! 8 then 8 else 9)
            else if f < v ! 10 then 10 else 11)
         else if f < v ! 13 then (if f < v ! 12 then 12 else 13)
         else if f < v ! 14 then 14 else 15)
      else -1)"

definition insert_value :: "int \<Rightarrow> int \<Rightarrow> int list \<times> int list \<Rightarrow> int list \<times> int list" where
  "insert_value position feature_value st =
     (case st of (age, smallest_values) \<Rightarrow>
        if position > -1
        then let p = nat position;
                 (age, smallest_values) =
                   fold (\<lambda>i (age, smallest_values).
                       (age[i := age ! (i - 1)], smallest_values[i := smallest_values ! (i - 1)]))
                     (rev [p + 1..<16]) (age, smallest_values)
             in (age[p := 1], smallest_values[p := feature_value])
        else (age, smallest_values))"

definition smooth_median :: "int \<Rightarrow> int \<Rightarrow> int \<Rightarrow> int" where
  "smooth_median counter mean current_median =
     (let alpha = (if counter > 0 then (if current_median < mean then kSmoothingDown else kSmoothingUp) else 0);
          tmp32 = WEBRTC_SPL_MUL_16_16 (alpha + 1) mean;
          tmp32 = s32 (tmp32 + WEBRTC_SPL_MUL_16_16 (WEBRTC_SPL_WORD16_MAX - alpha) current_median);
          tmp32 = s32 (tmp32 + 16384)
      in s16 (shr tmp32 15))"

text \<open>The channel's 16 entries of an array, and the array with them replaced.\<close>

definition chan16 :: "int list \<Rightarrow> nat \<Rightarrow> int list" where
  "chan16 xs channel = take 16 (drop (channel * 16) xs)"

definition set_chan16 :: "int list \<Rightarrow> nat \<Rightarrow> int list \<Rightarrow> int list" where
  "set_chan16 xs channel ys = take (channel * 16) xs @ ys @ drop (channel * 16 + 16) xs"

definition WebRtcVad_FindMinimum :: "VadInstT \<Rightarrow> int \<Rightarrow> nat \<Rightarrow> int \<times> VadInstT" where
  "WebRtcVad_FindMinimum self feature_value channel =
     (let age = chan16 (index_vector self) channel;
          smallest_values = chan16 (low_value_vector self) channel;
          beyond_a = read_at 0 (index_vector self) (channel * 16 + 16);
          beyond_v = read_at 0 (low_value_vector self) (channel * 16 + 16);
          (age, smallest_values) = fold (age_step beyond_a beyond_v) [0..<16] (age, smallest_values);
          position = find_position smallest_values feature_value;
          (age, smallest_values) = insert_value position feature_value (age, smallest_values);
          current_median = (if frame_counter self > 2 then smallest_values ! 2
            else if frame_counter self > 0 then smallest_values ! 0 else 1600);
          mean = smooth_median (frame_counter self) (mean_value self ! channel) current_median;
          self = self\<lparr>index_vector := set_chan16 (index_vector self) channel age,
                      low_value_vector := set_chan16 (low_value_vector self) channel smallest_values,
                      mean_value := (mean_value self)[channel := mean]\<rparr>
      in (mean, self))"

section \<open>Sorted insertion\<close>

text \<open>What the memory holds: 16 values in order, none above the filler 10000.\<close>

definition values_ok :: "int list \<Rightarrow> bool" where
  "values_ok v \<longleftrightarrow> length v = 16 \<and> sorted v \<and> (\<forall>x \<in> set v. x \<le> 10000)"

lemma fold_shift_down:
  assumes "i \<le> n" and "n < length xs"
  shows "fold (\<lambda>j xs. xs[j := read_at b xs (j + 1)]) [i..<n] xs = take i xs @ take (n - i) (drop (Suc i) xs) @ drop n xs"
  using assms
proof (induction "n - i" arbitrary: i xs)
  case 0
  then show ?case by simp
next
  case (Suc d)
  then have i: "i < n" "[i..<n] = i # [Suc i..<n]" by (auto simp: upt_rec)
  have l: "Suc i < length xs" using Suc.prems i by simp
  let ?ys = "xs[i := xs ! Suc i]"
  have "fold (\<lambda>j xs. xs[j := read_at b xs (j + 1)]) [Suc i..<n] ?ys
      = take (Suc i) ?ys @ take (n - Suc i) (drop (Suc (Suc i)) ?ys) @ drop n ?ys"
    using Suc i by (intro Suc.hyps(1)) auto
  also have "take (Suc i) ?ys = take i xs @ [xs ! Suc i]"
    using l by (simp add: take_Suc_conv_app_nth)
  also have "drop n ?ys = drop n xs" using i by simp
  also have "drop (Suc (Suc i)) ?ys = drop (Suc (Suc i)) xs" by simp
  also have "(take i xs @ [xs ! Suc i]) @ take (n - Suc i) (drop (Suc (Suc i)) xs) @ drop n xs
      = take i xs @ take (n - i) (drop (Suc i) xs) @ drop n xs"
    using i l by (simp add: Cons_nth_drop_Suc [symmetric] Suc_diff_Suc [symmetric])
  finally show ?case using i l by (simp add: read_at_def)
qed

lemma fold_shift_up:
  assumes "p < n" and "n \<le> length xs"
  shows "fold (\<lambda>i xs. xs[i := xs ! (i - 1)]) (rev [p + 1..<n]) xs
       = take (p + 1) xs @ take (n - 1 - p) (drop p xs) @ drop n xs"
  using assms
proof (induction "n - p" arbitrary: n xs)
  case (Suc d)
  show ?case
  proof (cases "n = p + 1")
    case False
    then obtain m where m: "n = Suc m" "p < m" using Suc.prems by (cases n) auto
    have r: "rev [p + 1..<n] = m # rev [p + 1..<m]" using m by simp
    let ?ys = "xs[m := xs ! (m - 1)]"
    have "fold (\<lambda>i xs. xs[i := xs ! (i - 1)]) (rev [p + 1..<m]) ?ys
        = take (p + 1) ?ys @ take (m - 1 - p) (drop p ?ys) @ drop m ?ys"
      using Suc m by (intro Suc.hyps(1)) auto
    also have "take (p + 1) ?ys = take (p + 1) xs" using m by simp
    also have "take (m - 1 - p) (drop p ?ys) = take (m - 1 - p) (drop p xs)"
      using m by (simp add: drop_update_swap take_update_cancel)
    also have "drop m ?ys = xs ! (m - 1) # drop n xs"
      using Suc.prems m by (simp flip: Cons_nth_drop_Suc)
    also have "take (m - 1 - p) (drop p xs) @ xs ! (m - 1) # drop n xs = take (n - 1 - p) (drop p xs) @ drop n xs"
    proof -
      have "n - 1 - p = Suc (m - 1 - p)" "m - 1 - p < length (drop p xs)" "drop p xs ! (m - 1 - p) = xs ! (m - 1)"
        using m Suc.prems by auto
      then show ?thesis by (simp add: take_Suc_conv_app_nth)
    qed
    finally show ?thesis unfolding r by simp
  qed (use Suc.prems in simp)
qed simp

lemma fold_pair: "fold (\<lambda>i (a, v). (f i a, g i v)) is (a, v) = (fold f is a, fold g is v)"
  by (induction "is" arbitrary: a v) auto

text \<open>The shift over a removed entry, with the new last entry.\<close>

lemma shift_out:
  assumes "i < 16" and "length xs = 16"
  shows "(fold (\<lambda>j xs. xs[j := read_at b xs (j + 1)]) [i..<16] xs)[15 := z] = take i xs @ drop (Suc i) xs @ [z]"
proof -
  have s: "[i..<16] = [i..<15] @ [15]" using assms by (simp add: upt_Suc_append [symmetric] numeral_eq_Suc)
  let ?w = "take i xs @ take (15 - i) (drop (Suc i) xs)"
  have sh: "fold (\<lambda>j xs. xs[j := read_at b xs (j + 1)]) [i..<15] xs = ?w @ drop 15 xs"
    using fold_shift_down [of i 15 xs b] assms by simp
  have l: "length ?w = 15" and d: "take (15 - i) (drop (Suc i) xs) = drop (Suc i) xs" using assms by simp_all
  have z: "drop 15 xs = [xs ! 15]" using assms(2) by (simp add: Cons_nth_drop_Suc [symmetric])
  have "(?w @ [xs ! 15])[15 := z] = ?w @ [z]"
    using list_update_length [of ?w "xs ! 15" "[]" z] l by (simp only:)
  then show ?thesis unfolding s fold_append o_def sh z by (simp add: d)
qed

lemma age_step_values:
  assumes "i < 16" and "length a = 16" and "length v = 16"
  shows "snd (age_step ba bv i (a, v)) = (if a ! i \<noteq> 100 then v else take i v @ drop (Suc i) v @ [10000])"
    and "fst (age_step ba bv i (a, v)) = (if a ! i \<noteq> 100 then a[i := s16 (a ! i + 1)]
           else take i a @ drop (Suc i) a @ [101])"
    and "length (fst (age_step ba bv i (a, v))) = 16"
proof -
  note so = shift_out [OF assms(1,2), simplified] shift_out [OF assms(1,3), simplified]
  show "snd (age_step ba bv i (a, v)) = (if a ! i \<noteq> 100 then v else take i v @ drop (Suc i) v @ [10000])"
    and f: "fst (age_step ba bv i (a, v)) = (if a ! i \<noteq> 100 then a[i := s16 (a ! i + 1)]
           else take i a @ drop (Suc i) a @ [101])"
    by (simp_all add: age_step_def fold_pair so)
  show "length (fst (age_step ba bv i (a, v))) = 16" using assms unfolding f by simp
qed

lemma age_step_ok:
  assumes i: "i < 16" and a: "length (fst st) = 16" and v: "values_ok (snd st)"
  shows "length (fst (age_step ba bv i st)) = 16 \<and> values_ok (snd (age_step ba bv i st))"
proof -
  obtain a v where st: "st = (a, v)" by (rule prod.exhaust)
  have l: "length a = 16" "length v = 16" using assms st by (auto simp: values_ok_def)
  have "sorted (take i v @ v ! i # drop (Suc i) v)"
    using v i l id_take_nth_drop [of i v] by (simp add: st values_ok_def)
  then have "sorted (take i v @ drop (Suc i) v)" by (simp add: sorted_append)
  then have "values_ok (take i v @ drop (Suc i) v @ [10000])"
    using v i l unfolding st values_ok_def append_assoc [symmetric]
    by (auto simp: sorted_append dest: in_set_takeD in_set_dropD)
  then show ?thesis using age_step_values [OF i l] v by (simp add: st)
qed

lemma aged_ok:
  assumes "length a = 16" and "values_ok v"
  shows "length (fst (fold (age_step ba bv) [0..<16] (a, v))) = 16
       \<and> values_ok (snd (fold (age_step ba bv) [0..<16] (a, v)))"
  by (rule fold_inv) (use assms age_step_ok in auto)

lemma find_position_spec:
  assumes "length v = 16"
  shows "find_position v f = -1 \<and> v ! 15 \<le> f
       \<or> (\<exists>p < 16. find_position v f = int p \<and> f < v ! p \<and> (p > 0 \<longrightarrow> v ! (p - 1) \<le> f))"
proof -
  define good where "good q \<longleftrightarrow> q = -1 \<and> v ! 15 \<le> f
      \<or> (0 \<le> q \<and> q < 16 \<and> f < v ! nat q \<and> (q > 0 \<longrightarrow> v ! nat (q - 1) \<le> f))" for q
  have step: "good (if c then x else y)" if "c \<Longrightarrow> good x" "\<not> c \<Longrightarrow> good y" for c x y
    using that by simp
  have "good (find_position v f)"
    unfolding find_position_def by (intro step) (simp_all add: good_def not_less)
  then show ?thesis
  proof (cases "find_position v f = -1")
    case False
    with \<open>good (find_position v f)\<close> show ?thesis
      by (intro disjI2 exI [of _ "nat (find_position v f)"]) (auto simp: good_def nat_diff_distrib)
  qed (simp add: good_def)
qed

lemma insert_value_list:
  assumes "length v = 16" and "p < 16"
  shows "snd (insert_value (int p) f (a, v)) = take 16 (take p v @ f # drop p v)"
proof -
  have sh: "fold (\<lambda>i xs. xs[i := xs ! (i - 1)]) (rev [p + 1..<16]) v
      = take (p + 1) v @ take (15 - p) (drop p v)"
    using fold_shift_up [of p 16 v] assms by simp
  have "(take (p + 1) v @ take (15 - p) (drop p v))[p := f] = take p v @ f # take (15 - p) (drop p v)"
    using assms by (simp add: take_Suc_conv_app_nth list_update_append)
  moreover have "16 - p = Suc (15 - p)" using assms by simp
  ultimately show ?thesis using assms sh by (simp add: insert_value_def fold_pair Let_def)
qed

lemma insort_at:
  assumes "sorted v" and "p \<le> length v" and "\<And>j. j < p \<Longrightarrow> v ! j \<le> f" and "p < length v \<Longrightarrow> f \<le> v ! p"
  shows "take p v @ f # drop p v = insort f v"
proof -
  have "\<forall>x \<in> set (take p v). x \<le> f" using assms(2,3) by (auto simp: in_set_conv_nth)
  moreover have "f \<le> x" if "x \<in> set (drop p v)" for x
  proof -
    obtain j where "j < length v - p" "x = v ! (p + j)" using \<open>x \<in> set (drop p v)\<close> by (auto simp: in_set_conv_nth)
    then show ?thesis using assms(4) sorted_nth_mono [OF assms(1), of p "p + j"] by force
  qed
  moreover have "x \<le> y" if "x \<in> set (take p v)" "y \<in> set (drop p v)" for x y
    using that assms(1) append_take_drop_id [of p v] sorted_append [of "take p v" "drop p v"] by auto
  ultimately have "sorted (take p v @ f # drop p v)"
    using assms(1) by (auto simp: sorted_append sorted_wrt_take sorted_wrt_drop)
  moreover have "mset (take p v @ f # drop p v) = mset (insort f v)"
  proof -
    have "mset (take p v) + mset (drop p v) = mset v" unfolding mset_append [symmetric] by simp
    then show ?thesis by simp
  qed
  ultimately have "sort (insort f v) = take p v @ f # drop p v" by (intro properties_for_sort) auto
  then show ?thesis using assms(1) by (simp add: sorted_insort sort_key_id_if_sorted)
qed

text \<open>The tree and the shift are insertion into the sorted list, cut to 16 values.\<close>

lemma insert_value_insort:
  assumes v: "values_ok v"
  shows "snd (insert_value (find_position v f) f (a, v)) = take 16 (insort f v)"
proof -
  have l: "length v = 16" and s: "sorted v" using v by (auto simp: values_ok_def)
  consider (no) "find_position v f = -1" "v ! 15 \<le> f"
    | (yes) p where "p < 16" "find_position v f = int p" "f < v ! p" "p > 0 \<longrightarrow> v ! (p - 1) \<le> f"
    using find_position_spec [OF l, of f] by blast
  then show ?thesis
  proof cases
    case no
    have "v ! j \<le> f" if "j < 16" for j using sorted_nth_mono [OF s, of j 15] that no l by simp
    then have "take 16 v @ f # drop 16 v = insort f v" using l by (intro insort_at [OF s]) auto
    then have "take 16 (insort f v) = v" using l by (metis append_eq_conv_conj length_take min.idem take_all_iff le_refl)
    then show ?thesis using no by (simp add: insert_value_def)
  next
    case yes
    have "v ! j \<le> f" if "j < p" for j
      using sorted_nth_mono [OF s, of j "p - 1"] that yes l by (cases p) auto
    then have "take p v @ f # drop p v = insort f v" using l yes by (intro insort_at [OF s]) auto
    then show ?thesis using insert_value_list [OF l yes(1), of f a] yes(2) by (simp only:)
  qed
qed

lemma values_ok_insort:
  assumes v: "values_ok v"
  shows "values_ok (take 16 (insort f v))"
proof -
  have l: "length v = 16" and s: "sorted v" and le: "\<forall>x \<in> set v. x \<le> 10000" using v by (auto simp: values_ok_def)
  have so: "sorted (take 16 (insort f v))" using s by (simp add: sorted_insort sorted_wrt_take)
  have "insort f v = take 16 (insort f v) @ drop 16 (insort f v)" by simp
  have "x \<le> 10000" if x: "x \<in> set (take 16 (insort f v))" for x
  proof (cases "f \<le> 10000")
    case True
    then show ?thesis using in_set_takeD [OF x] le by (auto simp: set_insort_key)
  next
    case False
    have "insort f v = v @ [f]"
      using False le insort_at [OF s, of "length v" f] nth_mem by (metis append_Nil2 drop_all le_refl less_irrefl
          order_trans not_le linear take_all append_Cons append_Nil)
    then show ?thesis using x l le by simp
  qed
  then show ?thesis using so l by (auto simp: values_ok_def)
qed

section \<open>The smoothed minimum\<close>

text \<open>The weight of the old mean, in Q15, and the median the code takes for the minimum of a channel's memory.\<close>

definition mean_weight :: "int \<Rightarrow> int \<Rightarrow> int \<Rightarrow> int" where
  "mean_weight counter mean med = (if counter > 0 then if med < mean then 6554 else 32440 else 1)"

definition memory_median :: "int \<Rightarrow> int list \<Rightarrow> int" where
  "memory_median counter mem = (if counter > 2 then mem ! 2 else if counter > 0 then mem ! 0 else 1600)"

lemma smooth_median_between:
  assumes "is_s16 mean" and "is_s16 med"
  shows "min mean med \<le> smooth_median counter mean med \<and> smooth_median counter mean med \<le> max mean med
    \<and> smooth_median counter mean med
        = (mean_weight counter mean med * mean + (32768 - mean_weight counter mean med) * med + 16384) div 32768"
proof -
  define w where "w = (if counter > 0 then if med < mean then kSmoothingDown else kSmoothingUp else 0) + 1"
  have w: "1 \<le> w" "w \<le> 32440" by (auto simp: w_def kSmoothingDown_def kSmoothingUp_def)
  have m: "-32768 \<le> min mean med" "max mean med \<le> 32767" using assms by (auto simp: is_s16_def)
  define x where "x = w * mean + (32768 - w) * med"
  have lo: "min mean med * 32768 \<le> x"
  proof -
    have "w * min mean med + (32768 - w) * min mean med \<le> x"
      unfolding x_def using w by (intro add_mono mult_left_mono) auto
    then show ?thesis by (simp add: algebra_simps)
  qed
  have hi: "x \<le> max mean med * 32768"
  proof -
    have "x \<le> w * max mean med + (32768 - w) * max mean med"
      unfolding x_def using w by (intro add_mono mult_left_mono) auto
    then show ?thesis by (simp add: algebra_simps)
  qed
  have prod: "\<bar>w * mean\<bar> \<le> 32440 * 32768" "\<bar>(32768 - w) * med\<bar> \<le> 32767 * 32768"
    by (rule abs_mult_le; use w assms in \<open>auto simp: is_s16_def\<close>)+
  have p1: "WEBRTC_SPL_MUL_16_16 w mean = w * mean"
    using w assms prod unfolding WEBRTC_SPL_MUL_16_16_def by (simp add: s16_id s32_id is_s16_def abs_le_iff)
  have p2: "WEBRTC_SPL_MUL_16_16 (32767 - (w - 1)) med = (32768 - w) * med"
    using w assms prod s16_id [of "32768 - w"] unfolding WEBRTC_SPL_MUL_16_16_def
    by (simp add: s16_id s32_id is_s16_def abs_le_iff)
  have xb: "-1073741824 \<le> x" "x \<le> 1073709056" using lo hi m by linarith+
  have e: "smooth_median counter mean med = s16 (shr (s32 (s32 (w * mean + (32768 - w) * med) + 16384)) 15)"
    using p1 p2 unfolding smooth_median_def Let_def w_def by (simp add: WEBRTC_SPL_WORD16_MAX_def)
  have "s32 x = x" "s32 (x + 16384) = x + 16384" using xb by (simp_all add: s32_id)
  then have e: "smooth_median counter mean med = s16 (shr (x + 16384) 15)" unfolding e x_def [symmetric] by simp
  have "min mean med \<le> shr (x + 16384) 15" using lo by (simp add: le_shr_iff)
  moreover have "shr (x + 16384) 15 < max mean med + 1" using hi unfolding shr_less_iff by simp
  ultimately have b: "min mean med \<le> shr (x + 16384) 15" "shr (x + 16384) 15 \<le> max mean med" by auto
  have "s16 (shr (x + 16384) 15) = shr (x + 16384) 15" by (rule s16_id) (use b m in linarith)+
  moreover have "mean_weight counter mean med = w" by (simp add: mean_weight_def w_def kSmoothingDown_def kSmoothingUp_def)
  ultimately show ?thesis using b unfolding e by (simp add: x_def shr_def)
qed

definition minima_ok :: "VadInstT \<Rightarrow> bool" where
  "minima_ok self \<longleftrightarrow> length (index_vector self) = 96 \<and> length (low_value_vector self) = 96
     \<and> length (mean_value self) = 6
     \<and> (\<forall>c < 6. values_ok (chan16 (low_value_vector self) c)) \<and> (\<forall>x \<in> set (low_value_vector self). is_s16 x)
     \<and> (\<forall>x \<in> set (mean_value self). is_s16 x)"

lemma length_chan16: "length xs = 96 \<Longrightarrow> c < 6 \<Longrightarrow> length (chan16 xs c) = 16"
  by (simp add: chan16_def)

lemma length_set_chan16:
  "length xs = 96 \<Longrightarrow> c < 6 \<Longrightarrow> length ys = 16 \<Longrightarrow> length (set_chan16 xs c ys) = 96"
  by (simp add: set_chan16_def)

lemma chan16_set_same:
  "length xs = 96 \<Longrightarrow> c < 6 \<Longrightarrow> length ys = 16 \<Longrightarrow> chan16 (set_chan16 xs c ys) c = ys"
  by (simp add: chan16_def set_chan16_def min_absorb2)

lemma chan16_set_other:
  assumes "length xs = 96" and "c < 6" and "d < 6" and "length ys = 16" and "c \<noteq> d"
  shows "chan16 (set_chan16 xs c ys) d = chan16 xs d"
proof (cases "d < c")
  case True
  then have "d * 16 + 16 \<le> c * 16" by simp
  then show ?thesis using assms by (simp add: chan16_def set_chan16_def min_absorb2 min_absorb1 take_drop)
next
  case False
  then have "c * 16 + 16 \<le> d * 16" using assms by simp
  then show ?thesis using assms by (simp add: chan16_def set_chan16_def min_absorb2)
qed

lemma insert_value_lengths:
  "length (fst st) = 16 \<Longrightarrow> length (fst (insert_value p f st)) = 16"
  by (cases st) (auto simp: insert_value_def fold_pair Let_def length_fold_update)

lemma aged_s16:
  assumes "length a = 16" and "values_ok v" and "\<forall>x \<in> set v. is_s16 x"
  shows "\<forall>x \<in> set (snd (fold (age_step ba bv) [0..<16] (a, v))). is_s16 x"
proof -
  let ?P = "\<lambda>st :: int list \<times> int list. length (fst st) = 16 \<and> values_ok (snd st) \<and> (\<forall>x \<in> set (snd st). is_s16 x)"
  have "?P (fold (age_step ba bv) [0..<16] (a, v))"
  proof (rule fold_inv)
    fix i st assume "i \<in> set [0..<16 :: nat]" and P: "?P st"
    then have i: "i < 16" by simp
    obtain a v where st: "st = (a, v)" by (rule prod.exhaust)
    have l: "length a = 16" "length v = 16" using P st by (auto simp: values_ok_def)
    have "\<forall>x \<in> set (snd (age_step ba bv i st)). is_s16 x"
      using P unfolding st age_step_values(1) [OF i l]
      by (auto dest: in_set_takeD in_set_dropD simp: is_s16_def)
    then show "?P (age_step ba bv i st)" using age_step_ok [OF i, of st ba bv] P by blast
  qed (use assms in simp)
  then show ?thesis by blast
qed

lemma FindMinimum_spec:
  assumes ok: "minima_ok self" and c: "channel < 6" and f: "is_s16 f"
    and r: "WebRtcVad_FindMinimum self f channel = (m, self')"
    and aged: "aged = snd (fold (age_step (read_at 0 (index_vector self) (channel * 16 + 16))
        (read_at 0 (low_value_vector self) (channel * 16 + 16))) [0..<16]
        (chan16 (index_vector self) channel, chan16 (low_value_vector self) channel))"
  shows "chan16 (low_value_vector self') channel = take 16 (insort f aged) \<and> values_ok aged
     \<and> minima_ok self' \<and> is_s16 m \<and> m = mean_value self' ! channel
     \<and> (\<forall>d < 6. d \<noteq> channel \<longrightarrow> chan16 (low_value_vector self') d = chan16 (low_value_vector self) d)
     \<and> (let mean = mean_value self ! channel; med = memory_median (frame_counter self) (take 16 (insort f aged));
             w = mean_weight (frame_counter self) mean med
          in m = (w * mean + (32768 - w) * med + 16384) div 32768 \<and> min mean med \<le> m \<and> m \<le> max mean med)"
proof -
  let ?a = "chan16 (index_vector self) channel" and ?v = "chan16 (low_value_vector self) channel"
  let ?ba = "read_at 0 (index_vector self) (channel * 16 + 16)"
    and ?bv = "read_at 0 (low_value_vector self) (channel * 16 + 16)"
  define st where "st = fold (age_step ?ba ?bv) [0..<16] (?a, ?v)"
  have la: "length ?a = 16" using ok c by (simp add: length_chan16 minima_ok_def)
  have v: "values_ok ?v" using ok c by (simp add: minima_ok_def)
  have v16: "\<forall>x \<in> set ?v. is_s16 x"
    using ok by (auto simp: minima_ok_def chan16_def dest!: in_set_takeD in_set_dropD)
  have st: "length (fst st) = 16" "values_ok (snd st)" using aged_ok [OF la v] by (auto simp: st_def)
  have ag: "aged = snd st" by (simp add: aged st_def)
  have ag16: "\<forall>x \<in> set aged. is_s16 x" using aged_s16 [OF la v v16] by (simp add: aged)
  define st2 where "st2 = insert_value (find_position (snd st) f) f st"
  have v2: "snd st2 = take 16 (insort f aged)"
    using insert_value_insort [OF st(2), of f "fst st"] by (simp add: st2_def ag)
  have ok2: "values_ok (snd st2)" unfolding v2 ag by (rule values_ok_insort [OF st(2)])
  have s2: "\<forall>x \<in> set (snd st2). is_s16 x"
    using ag16 f unfolding v2 by (auto simp: set_insort_key dest!: in_set_takeD)
  have l2: "length (fst st2) = 16" using insert_value_lengths [OF st(1)] by (simp add: st2_def)
  define med where "med = (if frame_counter self > 2 then snd st2 ! 2
      else if frame_counter self > 0 then snd st2 ! 0 else 1600)"
  have medin: "med \<in> set (take 16 (insort f aged)) \<union> {1600}"
    unfolding v2 [symmetric] med_def using ok2 by (auto simp: values_ok_def)
  have med16: "is_s16 med" using medin s2 unfolding v2 by (auto simp: is_s16_def)
  have mm: "m = smooth_median (frame_counter self) (mean_value self ! channel) med"
    and s': "self' = self\<lparr>index_vector := set_chan16 (index_vector self) channel (fst st2),
        low_value_vector := set_chan16 (low_value_vector self) channel (snd st2),
        mean_value := (mean_value self)[channel := m]\<rparr>"
    using r unfolding WebRtcVad_FindMinimum_def Let_def st_def [symmetric] med_def st2_def
    by (auto simp: split_beta)
  have mean16: "is_s16 (mean_value self ! channel)" using ok c by (auto simp: minima_ok_def)
  note bet = smooth_median_between [OF mean16 med16, of "frame_counter self", folded mm]
  have m16: "is_s16 m" using bet mean16 med16 by (auto simp: is_s16_def)
  have l: "length (index_vector self) = 96" "length (low_value_vector self) = 96" "length (snd st2) = 16"
    using ok ok2 by (auto simp: minima_ok_def values_ok_def)
  have lv: "chan16 (low_value_vector self') channel = snd st2"
    using l c by (simp add: s' chan16_set_same)
  have oth: "\<forall>d < 6. d \<noteq> channel \<longrightarrow> chan16 (low_value_vector self') d = chan16 (low_value_vector self) d"
    using l c by (simp add: s' chan16_set_other)
  have "\<forall>d < 6. values_ok (chan16 (low_value_vector self') d)"
    using lv oth ok2 ok by (metis minima_ok_def)
  moreover have "\<forall>x \<in> set (low_value_vector self'). is_s16 x"
    using ok s2 by (auto simp: s' set_chan16_def minima_ok_def dest: in_set_takeD in_set_dropD)
  moreover have "\<forall>x \<in> set (mean_value self'). is_s16 x"
    using ok m16 by (auto simp: s' minima_ok_def dest!: set_update_subset_insert [THEN subsetD])
  ultimately have "minima_ok self'" using l l2 c ok by (simp add: s' minima_ok_def length_set_chan16)
  moreover have "m = mean_value self' ! channel" using ok c by (simp add: s' minima_ok_def)
  moreover have "med = memory_median (frame_counter self) (take 16 (insort f aged))"
    unfolding v2 [symmetric] by (simp add: med_def memory_median_def)
  ultimately show ?thesis using lv v2 oth bet m16 st(2) ag by (simp add: Let_def)
qed

text \<open>
  The loop that ages the values steps over one value per removal: when the value at \<open>i\<close> expires, the
  value moved into its place keeps its age, and the loop goes on at \<open>i + 1\<close>.
\<close>

lemma ageing_skips_shifted:
  assumes "i < 15" and "length a = 16" and "length v = 16" and "a ! i = 100"
  shows "fst (age_step ba bv i (a, v)) ! i = a ! Suc i"
  using assms by (simp add: age_step_values nth_append)

end
