(* ===== verification/Vad_Features.thy ===== *)
theory Vad_Features
  imports Vad_Sp Spl_Vector Spl_Math
begin

text \<open>
  The features of the voice activity detector: the Gaussian density of \<open>common_audio/vad/vad_gmm.c\<close>
  and the filter bank of \<open>vad_filterbank.c\<close>, which splits a frame into six bands and takes the
  logarithm of each band's energy. The density is proved to stay within its Q20 range for features
  and model parameters in their working range; the split filters to be stream filters.
\<close>

section \<open>The Gaussian density (vad\_gmm.c)\<close>

definition kCompVar :: int where "kCompVar = 22005"
definition kLog2Exp :: int where "kLog2Exp = 5909"

text \<open>
  \<open>exp_value\<close> from the exponent: the two's complement fields of \<open>-tmp16\<close> are the mantissa and the
  shift of a power of two.
\<close>

text \<open>The exponential. The caller's argument is not negative, and then neither is the last shift count (\<open>gauss_exp_eq\<close>).\<close>

definition gauss_exp :: "int \<Rightarrow> int" where
  "gauss_exp tmp32 =
     (let tmp16 = s16 (WEBRTC_SPL_MUL_16_16_RSFT kLog2Exp (s16 tmp32) 12);
          tmp16 = s16 (- tmp16);
          exp_value = s16 (0x0400 OR (tmp16 AND 0x03FF));
          tmp16 = s16 (tmp16 XOR 0xFFFF);
          tmp16 = shr tmp16 10;
          tmp16 = s16 (tmp16 + 1)
      in shr exp_value (nat tmp16))"

definition WebRtcVad_GaussianProbability :: "int \<Rightarrow> int \<Rightarrow> int \<Rightarrow> int \<times> int" where
  "WebRtcVad_GaussianProbability input mean std =
     (let tmp32 = s32 (131072 + shr std 1);
          inv_std = s16 (WebRtcSpl_DivW32W16 tmp32 std);
          tmp16 = shr inv_std 2;
          inv_std2 = s16 (WEBRTC_SPL_MUL_16_16_RSFT tmp16 tmp16 2);
          tmp16 = s16 (shl input 3);
          tmp16 = s16 (tmp16 - mean);
          delta = s16 (WEBRTC_SPL_MUL_16_16_RSFT inv_std2 tmp16 10);
          tmp32 = WEBRTC_SPL_MUL_16_16_RSFT delta tmp16 9;
          exp_value = (if tmp32 < kCompVar then gauss_exp tmp32 else 0)
      in (WEBRTC_SPL_MUL_16_16 inv_std exp_value, delta))"

section \<open>The filter bank (vad\_filterbank.c)\<close>

definition kLogConst :: int where "kLogConst = 24660"
definition kLogEnergyIntPart :: int where "kLogEnergyIntPart = 14336"
definition kHpZeroCoefs :: "int list" where "kHpZeroCoefs = [6631, -13262, 6631]"
definition kHpPoleCoefs :: "int list" where "kHpPoleCoefs = [16384, -7756, 5620]"
definition kAllPassCoefsQ15 :: "int list" where "kAllPassCoefsQ15 = [20972, 5571]"
definition kOffsetVector :: "int list" where "kOffsetVector = [368, 368, 272, 176, 176, 176]"

fun HighPassFilter :: "int list \<Rightarrow> int list \<Rightarrow> int list \<times> int list" where
  "HighPassFilter filter_state [] = ([], filter_state)"
| "HighPassFilter filter_state (x # data_in) =
     (let tmp32 = WEBRTC_SPL_MUL_16_16 (kHpZeroCoefs ! 0) x;
          tmp32 = s32 (tmp32 + WEBRTC_SPL_MUL_16_16 (kHpZeroCoefs ! 1) (filter_state ! 0));
          tmp32 = s32 (tmp32 + WEBRTC_SPL_MUL_16_16 (kHpZeroCoefs ! 2) (filter_state ! 1));
          filter_state = filter_state[1 := filter_state ! 0];
          filter_state = filter_state[0 := x];
          tmp32 = s32 (tmp32 - WEBRTC_SPL_MUL_16_16 (kHpPoleCoefs ! 1) (filter_state ! 2));
          tmp32 = s32 (tmp32 - WEBRTC_SPL_MUL_16_16 (kHpPoleCoefs ! 2) (filter_state ! 3));
          filter_state = filter_state[3 := filter_state ! 2];
          filter_state = filter_state[2 := s16 (shr tmp32 14)];
          y = filter_state ! 2;
          (ys, filter_state) = HighPassFilter filter_state data_in
      in (y # ys, filter_state))"

text \<open>The loop of \<open>AllPassFilter\<close> over every second sample, with the 32 bit state.\<close>

fun all_pass_loop :: "int \<Rightarrow> int \<Rightarrow> int list \<Rightarrow> int list \<times> int" where
  "all_pass_loop filter_coefficient state32 [] = ([], state32)"
| "all_pass_loop filter_coefficient state32 (x # xs) =
     (let tmp32 = s32 (state32 + WEBRTC_SPL_MUL_16_16 filter_coefficient x);
          tmp16 = s16 (shr tmp32 16);
          state32 = s32 (shl x 14);
          state32 = s32 (state32 - WEBRTC_SPL_MUL_16_16 filter_coefficient tmp16);
          state32 = s32 (shl state32 1);
          (ys, state32) = all_pass_loop filter_coefficient state32 xs
      in (tmp16 # ys, state32))"

definition AllPassFilter :: "int list \<Rightarrow> int \<Rightarrow> int \<Rightarrow> int list \<times> int" where
  "AllPassFilter samples filter_coefficient filter_state =
     (let state32 = s32 (shl filter_state 16);
          (out, state32) = all_pass_loop filter_coefficient state32 samples
      in (out, s16 (shr state32 16)))"

text \<open>Returns \<open>hp_data_out\<close>, \<open>lp_data_out\<close> and the two states.\<close>

definition SplitFilter ::
    "int list \<Rightarrow> int \<Rightarrow> int \<Rightarrow> int list \<times> int list \<times> int \<times> int" where
  "SplitFilter data_in upper lower =
     (let half_length = length data_in div 2;
          (hp, upper) = AllPassFilter (evens half_length data_in) (kAllPassCoefsQ15 ! 0) upper;
          (lp, lower) = AllPassFilter (odds half_length data_in) (kAllPassCoefsQ15 ! 1) lower
      in (map2 (\<lambda>h l. s16 (h - l)) hp lp, map2 (\<lambda>h l. s16 (l + h)) hp lp, upper, lower))"

text \<open>Returns \<open>total_energy\<close> and \<open>log_energy\<close>.\<close>

definition LogOfEnergy :: "int list \<Rightarrow> int \<Rightarrow> int \<Rightarrow> int \<times> int" where
  "LogOfEnergy data_in offset total_energy =
     (let (en, tot_rshifts) = WebRtcSpl_Energy data_in (int (length data_in));
          energy = u32 en
      in if energy \<noteq> 0
         then let normalizing_rshifts = 17 - WebRtcSpl_NormU32 energy;
                  log2_energy = kLogEnergyIntPart;
                  tot_rshifts = tot_rshifts + normalizing_rshifts;
                  energy = (if normalizing_rshifts < 0 then u32 (shl energy (nat (- normalizing_rshifts)))
                            else shr energy (nat normalizing_rshifts));
                  log2_energy = s16 (log2_energy + s16 (shr (energy AND 0x00003FFF) 4));
                  log_energy = s16 (WEBRTC_SPL_MUL_16_16_RSFT kLogConst log2_energy 19
                                  + WEBRTC_SPL_MUL_16_16_RSFT tot_rshifts kLogConst 9);
                  log_energy = (if log_energy < 0 then 0 else log_energy);
                  log_energy = s16 (log_energy + offset);
                  total_energy = (if total_energy \<le> kMinEnergy
                    then (if tot_rshifts \<ge> 0 then s16 (total_energy + (kMinEnergy + 1))
                          else s16 (total_energy + s16 (shr energy (nat (- tot_rshifts)))))
                    else total_energy)
              in (total_energy, log_energy)
         else (total_energy, offset))"

text \<open>One band of \<open>WebRtcVad_CalculateFeatures\<close>: split with the band's states.\<close>

definition split_band :: "VadInstT \<Rightarrow> nat \<Rightarrow> int list \<Rightarrow> int list \<times> int list \<times> VadInstT" where
  "split_band self frequency_band in_ptr =
     (let (hp, lp, up, lo) = SplitFilter in_ptr (upper_state self ! frequency_band) (lower_state self ! frequency_band)
      in (hp, lp, self\<lparr>upper_state := (upper_state self)[frequency_band := up],
                       lower_state := (lower_state self)[frequency_band := lo]\<rparr>))"

definition WebRtcVad_CalculateFeatures :: "VadInstT \<Rightarrow> int list \<Rightarrow> int \<times> int list \<times> VadInstT" where
  "WebRtcVad_CalculateFeatures self data_in =
     (let total_energy = 0;
          (hp_120, lp_120, self) = split_band self 0 data_in;
          (hp_60, lp_60, self) = split_band self 1 hp_120;
          (total_energy, f5) = LogOfEnergy hp_60 (kOffsetVector ! 5) total_energy;
          (total_energy, f4) = LogOfEnergy lp_60 (kOffsetVector ! 4) total_energy;
          (hp_60, lp_60, self) = split_band self 2 lp_120;
          (total_energy, f3) = LogOfEnergy hp_60 (kOffsetVector ! 3) total_energy;
          (hp_120, lp_120, self) = split_band self 3 lp_60;
          (total_energy, f2) = LogOfEnergy hp_120 (kOffsetVector ! 2) total_energy;
          (hp_60, lp_60, self) = split_band self 4 lp_120;
          (total_energy, f1) = LogOfEnergy hp_60 (kOffsetVector ! 1) total_energy;
          (hp_120, hps) = HighPassFilter (hp_filter_state self) lp_60;
          self = self\<lparr>hp_filter_state := hps\<rparr>;
          (total_energy, f0) = LogOfEnergy hp_120 (kOffsetVector ! 0) total_energy
      in (total_energy, [f0, f1, f2, f3, f4, f5], self))"

section \<open>Range of the density\<close>

lemma xor_ffff: "s16 (y XOR 0xFFFF) = s16 (NOT y)"
proof -
  have m: "(0xFFFF :: int) = mask 16" by (simp add: mask_eq_exp_minus_1)
  have "signed_take_bit 15 (y XOR 0xFFFF) = signed_take_bit 15 (NOT y)"
    unfolding m by (rule bit_eqI) (auto simp: bit_simps)
  then show ?thesis by (simp add: s16_signed_take_bit)
qed

text \<open>The exponential is the piecewise linear power of two: \<open>x\<close> in Q10 is \<open>log2(e) * tmp32\<close>.\<close>

lemma gauss_exp_eq:
  assumes "0 \<le> t" and "t < 22005"
  defines "x \<equiv> 5909 * t div 4096"
  shows "gauss_exp t = shr (1024 + (- x) mod 1024) (nat ((x + 1023) div 1024))" and "0 \<le> x"
proof -
  have x: "0 \<le> x" "x \<le> 31746" using assms unfolding x_def by auto
  have p: "0 \<le> 5909 * t" "5909 * t < 5909 * 22005" using assms by auto
  have rs: "s16 (WEBRTC_SPL_MUL_16_16_RSFT 5909 (s16 t) 12) = x"
    using assms x p by (simp add: WEBRTC_SPL_MUL_16_16_RSFT_def WEBRTC_SPL_MUL_16_16_def s16_id s32_id shr_def x_def)
  have nx: "s16 (- x) = - x" using x by (simp add: s16_id)
  have m: "(- x) AND 0x3FF = (- x) mod 1024" using and_low_mask [of "- x" 10] by simp
  have o: "0x400 OR r = 1024 + r" if "0 \<le> r" "r < 1024" for r :: int
    using or_high_bits [of r 10 1] that by simp
  have r: "0 \<le> (- x) mod 1024" "(- x) mod 1024 < 1024" by simp_all
  have e: "s16 (0x400 OR ((- x) AND 0x3FF)) = 1024 + (- x) mod 1024"
    unfolding m using o [OF r] r by (simp add: s16_id)
  have "s16 (- x XOR 0xFFFF) = x - 1" unfolding xor_ffff using x by (simp add: not_int_def s16_id)
  moreover have "shr (x - 1) 10 + 1 = (x + 1023) div 1024" by (simp add: shr_def)
  moreover have "0 \<le> (x + 1023) div 1024" "(x + 1023) div 1024 \<le> 33" using x by auto
  ultimately have sh: "s16 (shr (s16 (- x XOR 0xFFFF)) 10 + 1) = (x + 1023) div 1024"
    by (simp add: s16_id)
  show "gauss_exp t = shr (1024 + (- x) mod 1024) (nat ((x + 1023) div 1024))"
    unfolding gauss_exp_def Let_def kLog2Exp_def rs nx e sh by (rule refl)
  show "0 \<le> x" by (rule x)
qed

lemma gauss_exp_range:
  assumes "0 \<le> t" and "t < 22005"
  shows "0 \<le> gauss_exp t \<and> gauss_exp t \<le> 1024"
proof -
  define x where "x = 5909 * t div 4096"
  note e = gauss_exp_eq [OF assms, folded x_def]
  have r: "0 \<le> (- x) mod 1024" "(- x) mod 1024 < 1024" by simp_all
  show ?thesis
  proof (cases "x = 0")
    case False
    then have "1 \<le> (x + 1023) div 1024" using e(2) by simp
    then obtain n where n: "nat ((x + 1023) div 1024) = Suc n" by (cases "nat ((x + 1023) div 1024)") auto
    have "1024 + (- x) mod 1024 < 1024 * 2 ^ Suc n"
    proof -
      have "(1024 :: int) * 2 \<le> 1024 * 2 ^ Suc n" by simp
      then show ?thesis using r by linarith
    qed
    then have "shr (1024 + (- x) mod 1024) (Suc n) < 1024" by (simp only: shr_less_iff)
    then show ?thesis unfolding e(1) n using r by simp
  qed (simp add: e)
qed

lemma inv_std_range:
  assumes "378 \<le> std" and "std \<le> 32767"
  shows "\<exists>i. s16 (WebRtcSpl_DivW32W16 (s32 (131072 + shr std 1)) std) = i \<and> 0 \<le> i \<and> i \<le> 347"
proof -
  define i where "i = (131072 + std div 2) div std"
  have lo: "0 \<le> i" using assms by (simp add: i_def pos_imp_zdiv_nonneg_iff)
  have "131072 + std div 2 < 348 * std" using assms by linarith
  then have hi: "i < 348" using assms by (simp add: i_def div_less_iff)
  have "s32 (131072 + shr std 1) = 131072 + std div 2" using assms by (simp add: shr_def s32_id)
  moreover have "(131072 + std div 2) sdiv std = i" using assms by (simp add: i_def signed_divide_int_def)
  ultimately have "s16 (WebRtcSpl_DivW32W16 (s32 (131072 + shr std 1)) std) = i"
    using assms lo hi by (simp add: WebRtcSpl_DivW32W16_def s32_id s16_id)
  then show ?thesis using lo hi by auto
qed

lemma delta_range:
  fixes i2 d :: int
  assumes "0 \<le> i2" and "i2 \<le> 1849" and "-18000 \<le> d" and "d \<le> 17952"
  shows "is_s16 (shr (i2 * d) 10)" and "0 \<le> shr (i2 * d) 10 * d" and "shr (i2 * d) 10 * d \<le> 32767 * 18000"
proof -
  have lo: "-33282000 \<le> i2 * d"
  proof -
    have "1849 * -18000 \<le> i2 * d"
    proof (cases "0 \<le> d")
      case True
      then have "0 \<le> i2 * d" using assms by simp
      then show ?thesis by simp
    next
      case False
      then have "1849 * d \<le> i2 * d" using assms by (intro mult_right_mono_neg) auto
      then show ?thesis using assms by linarith
    qed
    then show ?thesis by simp
  qed
  have hi: "i2 * d \<le> 33193248"
  proof (cases "0 \<le> d")
    case True
    then have "i2 * d \<le> 1849 * 17952" using assms by (intro mult_mono) auto
    then show ?thesis by simp
  next
    case False
    then have "i2 * d \<le> 0" using assms by (simp add: mult_nonneg_nonpos)
    then show ?thesis by simp
  qed
  have b: "-32768 \<le> shr (i2 * d) 10" "shr (i2 * d) 10 \<le> 32767"
    using lo hi le_shr_iff [of "-32768" "i2 * d" 10] shr_less_iff [of "i2 * d" 10 32768] by auto
  then show "is_s16 (shr (i2 * d) 10)" by (simp add: is_s16_def)
  have sg: "0 \<le> d \<Longrightarrow> 0 \<le> shr (i2 * d) 10" "d \<le> 0 \<Longrightarrow> shr (i2 * d) 10 \<le> 0"
    using assms shr_less_iff [of "i2 * d" 10 1] mult_nonneg_nonpos [of i2 d] by auto
  then show "0 \<le> shr (i2 * d) 10 * d"
    by (cases "0 \<le> d") (simp_all add: mult_nonpos_nonpos)
  have "\<bar>shr (i2 * d) 10\<bar> \<le> 32767 \<or> shr (i2 * d) 10 = -32768" using b by linarith
  moreover have "-32503 \<le> shr (i2 * d) 10" using lo le_shr_iff [of "-32503" "i2 * d" 10] by simp
  ultimately have "\<bar>shr (i2 * d) 10\<bar> \<le> 32767" by auto
  then have "\<bar>shr (i2 * d) 10 * d\<bar> \<le> 32767 * 18000" by (rule abs_mult_le) (use assms in auto)
  then show "shr (i2 * d) 10 * d \<le> 32767 * 18000" by linarith
qed

text \<open>For features and model parameters in their working range, the density never wraps: it lies
  between 0 and 347 * 1024 (below 1 in Q20, the scale of a standard deviation of 3), the exponential it
  uses is at most 1024 (1 in Q10), and \<open>delta\<close> is the exact scaled distance from the mean.\<close>

theorem GaussianProbability_range:
  assumes "0 \<le> input" and "input \<le> 2294" and "400 \<le> mean" and "mean \<le> 18000"
    and "378 \<le> std" and "std \<le> 32767"
    and "WebRtcVad_GaussianProbability input mean std = (p, delta)"
  shows "0 \<le> p \<and> p \<le> 355328
     \<and> (\<exists>inv_std2. 0 \<le> inv_std2 \<and> inv_std2 \<le> 1849 \<and> delta = (inv_std2 * (8 * input - mean)) div 1024)"
proof -
  obtain i where i: "s16 (WebRtcSpl_DivW32W16 (s32 (131072 + shr std 1)) std) = i" "0 \<le> i" "i \<le> 347"
    using inv_std_range [OF assms(5,6)] by blast
  define q where "q = i div 4"
  have q: "0 \<le> q" "q \<le> 86" using i by (auto simp: q_def)
  have qq: "0 \<le> q * q" "q * q \<le> 86 * 86" using q by simp (rule mult_mono, use q in auto)
  define i2 where "i2 = q * q div 4"
  have i2: "0 \<le> i2" "i2 \<le> 1849" unfolding i2_def using qq by linarith+
  have sh: "shr i 2 = q" by (simp add: shr_def q_def)
  have sq: "s32 (q * q) = q * q" by (rule s32_id) (use qq in linarith)+
  have i2e: "s16 (WEBRTC_SPL_MUL_16_16_RSFT q q 2) = i2"
    using q i2 by (simp add: WEBRTC_SPL_MUL_16_16_RSFT_def WEBRTC_SPL_MUL_16_16_def s16_id sq shr_def
        i2_def [symmetric])
  define d where "d = 8 * input - mean"
  have d: "-18000 \<le> d" "d \<le> 17952" using assms(1-4) by (auto simp: d_def)
  have de: "s16 (s16 (shl input 3) - mean) = d" using assms(1-4) by (simp add: shl_def s16_id d_def)
  note dr = delta_range [OF i2 d]
  have "is_s16 i2" "is_s16 d" using i2 d by (auto simp: is_s16_def)
  then have del: "s16 (WEBRTC_SPL_MUL_16_16_RSFT i2 d 10) = shr (i2 * d) 10"
    using dr(1) by (simp add: WEBRTC_SPL_MUL_16_16_RSFT_def WEBRTC_SPL_MUL_16_16_def s16_conv mult_s16_s32)
  define t where "t = shr (shr (i2 * d) 10 * d) 9"
  have te: "WEBRTC_SPL_MUL_16_16_RSFT (shr (i2 * d) 10) d 9 = t"
    using dr(1) \<open>is_s16 d\<close>
    by (simp add: WEBRTC_SPL_MUL_16_16_RSFT_def WEBRTC_SPL_MUL_16_16_def s16_conv mult_s16_s32 t_def)
  have t0: "0 \<le> t" using dr(2) by (simp add: t_def)
  define e where "e = (if t < kCompVar then gauss_exp t else 0)"
  have e: "0 \<le> e" "e \<le> 1024" using gauss_exp_range [OF t0] by (auto simp: e_def kCompVar_def)
  have "WebRtcVad_GaussianProbability input mean std = (WEBRTC_SPL_MUL_16_16 i e, shr (i2 * d) 10)"
    unfolding WebRtcVad_GaussianProbability_def Let_def i(1) sh i2e de del te e_def by (rule refl)
  moreover have "is_s16 i" "is_s16 e" using i e by (auto simp: is_s16_def)
  then have "WEBRTC_SPL_MUL_16_16 i e = i * e" by (simp add: WEBRTC_SPL_MUL_16_16_def s16_conv mult_s16_s32)
  moreover have "0 \<le> i * e" "i * e \<le> 347 * 1024" using i e by simp (rule mult_mono, use i e in auto)
  ultimately show ?thesis using assms(7) i2 by (auto simp: shr_def d_def)
qed

theorem GaussianProbability_range_witness:
  "0 \<le> (353280 :: int) \<and> 353280 \<le> (355328 :: int)
     \<and> (\<exists>inv_std2. 0 \<le> inv_std2 \<and> inv_std2 \<le> 1849 \<and> 0 = (inv_std2 * (8 * 800 - 6400 :: int)) div 1024)"
  by (rule GaussianProbability_range [of 800 6400 380 353280 0]) (simp_all, code_simp)

section \<open>Range of the features\<close>

lemma is_s32_fold: "is_s32 a \<Longrightarrow> is_s32 (fold (\<lambda>x acc. s32 (acc + f x)) xs a)"
  by (induction xs arbitrary: a) auto

lemma Energy_range:
  assumes "data_in \<noteq> []" and "length data_in < 256"
  shows "is_s32 (fst (WebRtcSpl_Energy data_in (int (length data_in))))
     \<and> 0 \<le> snd (WebRtcSpl_Energy data_in (int (length data_in)))
     \<and> snd (WebRtcSpl_Energy data_in (int (length data_in))) \<le> 8"
proof -
  let ?n = "int (length data_in)"
  have u: "u32 ?n = ?n" using assms by (simp add: u32_id)
  obtain b where b: "WebRtcSpl_GetSizeInBits ?n = int b + 1" "2 ^ b \<le> ?n"
    using GetSizeInBits_pos [of ?n] assms by auto
  have "(2 :: int) ^ b < 256" using b(2) assms(2) by linarith
  then have "(2 :: int) ^ b < 2 ^ 8" by simp
  then have b8: "b < 8" by (rule power_less_imp_less_exp [rotated]) simp
  have nn: "0 \<le> WebRtcSpl_NormW32 (WEBRTC_SPL_MUL m m)" for m
    using NormW32_range by (simp add: WEBRTC_SPL_MUL_def)
  have if_range: "0 \<le> (if m = 0 then 0 else if WebRtcSpl_NormW32 (WEBRTC_SPL_MUL m m) > int b + 1 then 0
        else int b + 1 - WebRtcSpl_NormW32 (WEBRTC_SPL_MUL m m))
      \<and> (if m = 0 then 0 else if WebRtcSpl_NormW32 (WEBRTC_SPL_MUL m m) > int b + 1 then 0
        else int b + 1 - WebRtcSpl_NormW32 (WEBRTC_SPL_MUL m m)) \<le> 8" for m
    using nn [of m] b8 by (cases "m = 0"; cases "WebRtcSpl_NormW32 (WEBRTC_SPL_MUL m m) > int b + 1") auto
  have "0 \<le> WebRtcSpl_GetScalingSquare data_in ?n ?n \<and> WebRtcSpl_GetScalingSquare data_in ?n ?n \<le> 8"
    unfolding WebRtcSpl_GetScalingSquare_def Let_def u b(1) by (rule if_range)
  moreover have "is_s32 (fst (WebRtcSpl_Energy data_in ?n))"
    unfolding WebRtcSpl_Energy_def Let_def fst_conv by (rule is_s32_fold) (simp add: is_s32_def)
  ultimately show ?thesis by (simp add: WebRtcSpl_Energy_def Let_def)
qed

lemma log_terms:
  fixes l t :: int
  assumes "14336 \<le> l" and "l \<le> 15359" and "-14 \<le> t" and "t \<le> 25"
  shows "674 \<le> WEBRTC_SPL_MUL_16_16_RSFT kLogConst l 19" "WEBRTC_SPL_MUL_16_16_RSFT kLogConst l 19 \<le> 722"
    "-675 \<le> WEBRTC_SPL_MUL_16_16_RSFT t kLogConst 9" "WEBRTC_SPL_MUL_16_16_RSFT t kLogConst 9 \<le> 1204"
proof -
  have "WEBRTC_SPL_MUL_16_16 24660 l = 24660 * l" "WEBRTC_SPL_MUL_16_16 t 24660 = t * 24660"
    using assms by (simp_all add: WEBRTC_SPL_MUL_16_16_def s16_id s32_id)
  then show "674 \<le> WEBRTC_SPL_MUL_16_16_RSFT kLogConst l 19" "WEBRTC_SPL_MUL_16_16_RSFT kLogConst l 19 \<le> 722"
    "-675 \<le> WEBRTC_SPL_MUL_16_16_RSFT t kLogConst 9" "WEBRTC_SPL_MUL_16_16_RSFT t kLogConst 9 \<le> 1204"
    using assms by (simp_all add: WEBRTC_SPL_MUL_16_16_RSFT_def kLogConst_def shr_def)
qed

lemma NormU32_range:
  assumes "0 < e" and "e < 4294967296"
  shows "0 \<le> WebRtcSpl_NormU32 e \<and> WebRtcSpl_NormU32 e \<le> 31"
proof -
  obtain z where z: "WebRtcSpl_NormU32 e = int z" "e * 2 ^ z < 4294967296" using NormU32_pos [OF assms] by blast
  have "1 * 2 ^ z \<le> e * 2 ^ z" using assms by (intro mult_right_mono) auto
  then have "(2 :: int) ^ z < 4294967296" using z(2) by linarith
  then have "(2 :: int) ^ z < 2 ^ 32" by simp
  then have "z < 32" by (rule power_less_imp_less_exp [rotated]) simp
  then show ?thesis using z by simp
qed

lemma LogOfEnergy_bounds:
  assumes "data_in \<noteq> []" and "length data_in < 256" and "0 \<le> offset" and "offset \<le> 368"
  shows "offset \<le> snd (LogOfEnergy data_in offset te) \<and> snd (LogOfEnergy data_in offset te) \<le> offset + 1926"
proof -
  define en sc where "en = fst (WebRtcSpl_Energy data_in (int (length data_in)))"
    and "sc = snd (WebRtcSpl_Energy data_in (int (length data_in)))"
  have E: "WebRtcSpl_Energy data_in (int (length data_in)) = (en, sc)" by (simp add: en_def sc_def)
  have sc: "0 \<le> sc" "sc \<le> 8" using Energy_range [OF assms(1,2)] by (auto simp: sc_def)
  show ?thesis
  proof (cases "u32 en = 0")
    case False
    have e: "0 < u32 en" "u32 en < 4294967296" using False is_u32_u32 [of en] by (auto simp: is_u32_def)
    define z where "z = WebRtcSpl_NormU32 (u32 en)"
    have z: "0 \<le> z" "z \<le> 31" using NormU32_range [OF e] by (auto simp: z_def)
    define ne where "ne = (if 17 - z < 0 then u32 (shl (u32 en) (nat (- (17 - z)))) else shr (u32 en) (nat (17 - z)))"
    have fr: "0 \<le> shr (ne AND 0x3FFF) 4" "shr (ne AND 0x3FFF) 4 \<le> 1023"
      using and_low_mask [of ne 14] by (simp_all add: shr_def pos_imp_zdiv_nonneg_iff)
    define l where "l = s16 (kLogEnergyIntPart + s16 (shr (ne AND 0x3FFF) 4))"
    have "s16 (shr (ne AND 0x3FFF) 4) = shr (ne AND 0x3FFF) 4" by (rule s16_id) (use fr in linarith)+
    moreover have "s16 (14336 + shr (ne AND 0x3FFF) 4) = 14336 + shr (ne AND 0x3FFF) 4"
      by (rule s16_id) (use fr in linarith)+
    ultimately have "l = 14336 + shr (ne AND 0x3FFF) 4" by (simp only: l_def kLogEnergyIntPart_def)
    then have l: "14336 \<le> l" "l \<le> 15359" using fr by linarith+
    have t: "-14 \<le> sc + (17 - z)" "sc + (17 - z) \<le> 25" using sc z by auto
    define s where "s = WEBRTC_SPL_MUL_16_16_RSFT kLogConst l 19 + WEBRTC_SPL_MUL_16_16_RSFT (sc + (17 - z)) kLogConst 9"
    have s: "-1 \<le> s" "s \<le> 1926" using log_terms [OF l t] by (auto simp: s_def)
    have "snd (LogOfEnergy data_in offset te) = s16 ((if s16 s < 0 then 0 else s16 s) + offset)"
      unfolding LogOfEnergy_def Let_def E split_conv z_def [symmetric] ne_def [symmetric] l_def [symmetric]
        s_def [symmetric] using False by simp
    then show ?thesis using s assms(3,4) by (auto simp: s16_id)
  qed (simp add: LogOfEnergy_def Let_def E)
qed

text \<open>The bands of a frame: their lengths.\<close>

lemma length_all_pass_loop [simp]: "length (fst (all_pass_loop c s xs)) = length xs"
  by (induction xs arbitrary: s) (simp_all add: Let_def split_beta)

lemma split_band_lengths:
  assumes "split_band self b xs = (hp, lp, self')"
  shows "length hp = length xs div 2" and "length lp = length xs div 2"
  using assms by (auto simp: split_band_def SplitFilter_def AllPassFilter_def Let_def split_beta)

lemma split_band_keeps:
  assumes "split_band self b xs = (hp, lp, self')"
  shows "\<exists>u l. self' = self\<lparr>upper_state := u, lower_state := l\<rparr>
     \<and> length u = length (upper_state self) \<and> length l = length (lower_state self)"
proof -
  obtain h l u v where e: "SplitFilter xs (upper_state self ! b) (lower_state self ! b) = (h, l, u, v)"
    by (rule prod_cases4)
  have "self' = self\<lparr>upper_state := (upper_state self)[b := u], lower_state := (lower_state self)[b := v]\<rparr>"
    using assms by (simp add: split_band_def e)
  then show ?thesis
    by (intro exI [of _ "(upper_state self)[b := u]"] exI [of _ "(lower_state self)[b := v]"]) simp
qed

lemma length_HighPassFilter [simp]:
  "length (fst (HighPassFilter st xs)) = length xs"
  "length (snd (HighPassFilter st xs)) = length st"
  by (induction xs arbitrary: st) (simp_all add: Let_def split_beta)

lemma CalculateFeatures_spec:
  assumes len: "length data_in \<in> {80, 160, 240}"
    and r: "WebRtcVad_CalculateFeatures self data_in = (te, features, self')"
  shows "length features = 6 \<and> (\<forall>x \<in> set features. 176 \<le> x \<and> x \<le> 2294)
     \<and> self' = self\<lparr>upper_state := upper_state self', lower_state := lower_state self',
                    hp_filter_state := hp_filter_state self'\<rparr>
     \<and> length (upper_state self') = length (upper_state self)
     \<and> length (lower_state self') = length (lower_state self)
     \<and> length (hp_filter_state self') = length (hp_filter_state self)"
proof -
  obtain h1 l1 s1 where b1: "split_band self 0 data_in = (h1, l1, s1)" by (rule prod_cases3)
  obtain h2 l2 s2 where b2: "split_band s1 1 h1 = (h2, l2, s2)" by (rule prod_cases3)
  obtain h3 l3 s3 where b3: "split_band s2 2 l1 = (h3, l3, s3)" by (rule prod_cases3)
  obtain h4 l4 s4 where b4: "split_band s3 3 l3 = (h4, l4, s4)" by (rule prod_cases3)
  obtain h5 l5 s5 where b5: "split_band s4 4 l4 = (h5, l5, s5)" by (rule prod_cases3)
  obtain h6 hs where b6: "HighPassFilter (hp_filter_state s5) l5 = (h6, hs)" by (rule prod.exhaust)
  note lens = split_band_lengths [OF b1] split_band_lengths [OF b2] split_band_lengths [OF b3]
    split_band_lengths [OF b4] split_band_lengths [OF b5]
  have l6: "length h6 = length l5" "length hs = length (hp_filter_state s5)"
    using length_HighPassFilter [of "hp_filter_state s5" l5] b6 by auto
  have small: "xs \<noteq> [] \<and> length xs < 256" if "xs \<in> {h2, l2, h3, h4, h5, h6}" for xs
    using that lens l6 len by auto
  obtain t5 f5 where f5: "LogOfEnergy h2 (kOffsetVector ! 5) 0 = (t5, f5)" by (rule prod.exhaust)
  obtain t4 f4 where f4: "LogOfEnergy l2 (kOffsetVector ! 4) t5 = (t4, f4)" by (rule prod.exhaust)
  obtain t3 f3 where f3: "LogOfEnergy h3 (kOffsetVector ! 3) t4 = (t3, f3)" by (rule prod.exhaust)
  obtain t2 f2 where f2: "LogOfEnergy h4 (kOffsetVector ! 2) t3 = (t2, f2)" by (rule prod.exhaust)
  obtain t1 f1 where f1: "LogOfEnergy h5 (kOffsetVector ! 1) t2 = (t1, f1)" by (rule prod.exhaust)
  obtain t0 f0 where f0: "LogOfEnergy h6 (kOffsetVector ! 0) t1 = (t0, f0)" by (rule prod.exhaust)
  have off: "kOffsetVector ! k \<in> {176, 272, 368}" if "k < 6" for k
    using that by (auto simp: kOffsetVector_def less_Suc_eq numeral_eq_Suc)
  have bnd: "176 \<le> snd (LogOfEnergy xs (kOffsetVector ! k) t) \<and> snd (LogOfEnergy xs (kOffsetVector ! k) t) \<le> 2294"
    if "xs \<in> {h2, l2, h3, h4, h5, h6}" "k < 6" for xs k t
    using LogOfEnergy_bounds [of xs "kOffsetVector ! k" t] small [OF that(1)] off [OF that(2)] by auto
  have fb: "\<forall>x \<in> {f0, f1, f2, f3, f4, f5}. 176 \<le> x \<and> x \<le> 2294"
    using bnd [of h2 5 0] bnd [of l2 4 t5] bnd [of h3 3 t4] bnd [of h4 2 t3] bnd [of h5 1 t2] bnd [of h6 0 t1]
      f0 f1 f2 f3 f4 f5 by simp
  have res: "features = [f0, f1, f2, f3, f4, f5]" "self' = s5\<lparr>hp_filter_state := hs\<rparr>"
    using r unfolding WebRtcVad_CalculateFeatures_def Let_def b1 split_conv b2 b3 b4 b5 b6 f5 f4 f3 f2 f1 f0 by auto
  obtain u v where "s5 = self\<lparr>upper_state := u, lower_state := v\<rparr>"
    and "length u = length (upper_state self)" "length v = length (lower_state self)"
    using split_band_keeps [OF b1] split_band_keeps [OF b2] split_band_keeps [OF b3]
      split_band_keeps [OF b4] split_band_keeps [OF b5] by force
  then show ?thesis using res fb l6 by simp
qed

end
