(* ===== verification/Vad_Core.thy ===== *)
theory Vad_Core
  imports Vad_Features
begin

text \<open>
  The decision of the voice activity detector: \<open>common_audio/vad/vad_core.c\<close> and its public
  interface \<open>webrtc_vad.c\<close>. The loop bodies of \<open>GmmProbability\<close> are definitions of their own, in
  the order of the code. Shown here: every public call keeps the instance well formed (as an
  invariant of the reachable states), the hang-over logic, the error paths and the result of
  \<open>WebRtcVad_Process\<close>, and what the 48 kHz path reads of a frame.
\<close>

section \<open>Constants\<close>

definition kSpectrumWeight :: "int list" where "kSpectrumWeight = [6, 8, 10, 12, 14, 16]"
definition kNoiseUpdateConst :: int where "kNoiseUpdateConst = 655"
definition kSpeechUpdateConst :: int where "kSpeechUpdateConst = 6554"
definition kBackEta :: int where "kBackEta = 154"
definition kMinimumDifference :: "int list" where "kMinimumDifference = [544, 544, 576, 576, 576, 576]"
definition kMaximumSpeech :: "int list" where "kMaximumSpeech = [11392, 11392, 11520, 11520, 11520, 11520]"
definition kMinimumMean :: "int list" where "kMinimumMean = [640, 768]"
definition kMaximumNoise :: "int list" where "kMaximumNoise = [9216, 9088, 8960, 8832, 8704, 8576]"
definition kNoiseDataWeights :: "int list" where
  "kNoiseDataWeights = [34, 62, 72, 66, 53, 25, 94, 66, 56, 62, 75, 103]"
definition kSpeechDataWeights :: "int list" where
  "kSpeechDataWeights = [48, 82, 45, 87, 50, 47, 80, 46, 83, 41, 78, 81]"
definition kNoiseDataMeans :: "int list" where
  "kNoiseDataMeans = [6738, 4892, 7065, 6715, 6771, 3369, 7646, 3863, 7820, 7266, 5020, 4362]"
definition kSpeechDataMeans :: "int list" where
  "kSpeechDataMeans = [8306, 10085, 10078, 11823, 11843, 6309, 9473, 9571, 10879, 7581, 8180, 7483]"
definition kNoiseDataStds :: "int list" where
  "kNoiseDataStds = [378, 1064, 493, 582, 688, 593, 474, 697, 475, 688, 421, 455]"
definition kSpeechDataStds :: "int list" where
  "kSpeechDataStds = [555, 505, 567, 524, 585, 1231, 509, 828, 492, 1540, 1079, 850]"
definition kMaxSpeechFrames :: int where "kMaxSpeechFrames = 6"
definition kMinStd :: int where "kMinStd = 384"
definition kDefaultMode :: int where "kDefaultMode = 0"
definition kInitCheck :: int where "kInitCheck = 42"

definition kOverHangMax1Q :: "int list" where "kOverHangMax1Q = [8, 4, 3]"
definition kOverHangMax2Q :: "int list" where "kOverHangMax2Q = [14, 7, 5]"
definition kLocalThresholdQ :: "int list" where "kLocalThresholdQ = [24, 21, 24]"
definition kGlobalThresholdQ :: "int list" where "kGlobalThresholdQ = [57, 48, 57]"
definition kOverHangMax1LBR :: "int list" where "kOverHangMax1LBR = [8, 4, 3]"
definition kOverHangMax2LBR :: "int list" where "kOverHangMax2LBR = [14, 7, 5]"
definition kLocalThresholdLBR :: "int list" where "kLocalThresholdLBR = [37, 32, 37]"
definition kGlobalThresholdLBR :: "int list" where "kGlobalThresholdLBR = [100, 80, 100]"
definition kOverHangMax1AGG :: "int list" where "kOverHangMax1AGG = [6, 3, 2]"
definition kOverHangMax2AGG :: "int list" where "kOverHangMax2AGG = [9, 5, 3]"
definition kLocalThresholdAGG :: "int list" where "kLocalThresholdAGG = [82, 78, 82]"
definition kGlobalThresholdAGG :: "int list" where "kGlobalThresholdAGG = [285, 260, 285]"
definition kOverHangMax1VAG :: "int list" where "kOverHangMax1VAG = [6, 3, 2]"
definition kOverHangMax2VAG :: "int list" where "kOverHangMax2VAG = [9, 5, 3]"
definition kLocalThresholdVAG :: "int list" where "kLocalThresholdVAG = [94, 94, 94]"
definition kGlobalThresholdVAG :: "int list" where "kGlobalThresholdVAG = [1100, 1050, 1100]"

section \<open>GmmProbability\<close>

text \<open>\<open>data\<close> and \<open>weights\<close> point to index \<open>channel\<close> of their arrays; returns the array and the average.\<close>

definition WeightedAverage :: "int list \<Rightarrow> nat \<Rightarrow> int \<Rightarrow> int list \<Rightarrow> int list \<times> int" where
  "WeightedAverage dat channel offset weights =
     fold (\<lambda>k (dat, weighted_average).
         let i = channel + k * kNumChannels;
             dat = dat[i := s16 (dat ! i + offset)]
         in (dat, s32 (weighted_average + dat ! i * weights ! i)))
       [0..<kNumGaussians] (dat, 0)"

definition gmm_thresholds :: "VadInstT \<Rightarrow> int \<Rightarrow> int \<times> int \<times> int \<times> int" where
  "gmm_thresholds self frame_length =
     (let i = (if frame_length = 80 then 0 else if frame_length = 160 then 1 else 2)
      in (over_hang_max_1 self ! i, over_hang_max_2 self ! i, individual self ! i, total_thr self ! i))"

text \<open>The local arrays and accumulators of the first loop over the channels.\<close>

record gmm_locals =
  deltaN :: "int list"
  deltaS :: "int list"
  ngprvec :: "int list"
  sgprvec :: "int list"
  sum_llr :: int
  vadflag :: int

definition gmm_locals_init :: gmm_locals where
  "gmm_locals_init = \<lparr>deltaN = replicate 12 0, deltaS = replicate 12 0, ngprvec = replicate 12 0,
     sgprvec = replicate 12 0, sum_llr = 0, vadflag = 0\<rparr>"

text \<open>The two Gaussians of a channel: the probabilities \<open>[k]\<close> of noise and speech and their sums.\<close>

definition gmm_gaussians :: "VadInstT \<Rightarrow> int list \<Rightarrow> nat \<Rightarrow> gmm_locals
    \<Rightarrow> gmm_locals \<times> int list \<times> int list \<times> int \<times> int" where
  "gmm_gaussians self features channel l =
     fold (\<lambda>k (l, noise_probability, speech_probability, h0_test, h1_test).
         let gaussian = channel + k * kNumChannels;
             (tmp1_s32, d) = WebRtcVad_GaussianProbability (features ! channel)
                (noise_means self ! gaussian) (noise_stds self ! gaussian);
             l = l\<lparr>deltaN := (deltaN l)[gaussian := d]\<rparr>;
             noise_probability = noise_probability[k := s32 (kNoiseDataWeights ! gaussian * tmp1_s32)];
             h0_test = s32 (h0_test + noise_probability ! k);
             (tmp1_s32, d) = WebRtcVad_GaussianProbability (features ! channel)
                (speech_means self ! gaussian) (speech_stds self ! gaussian);
             l = l\<lparr>deltaS := (deltaS l)[gaussian := d]\<rparr>;
             speech_probability = speech_probability[k := s32 (kSpeechDataWeights ! gaussian * tmp1_s32)];
             h1_test = s32 (h1_test + speech_probability ! k)
         in (l, noise_probability, speech_probability, h0_test, h1_test))
       [0..<kNumGaussians] (l, [0, 0], [0, 0], 0, 0)"

definition gmm_test_channel :: "VadInstT \<Rightarrow> int list \<Rightarrow> int \<Rightarrow> nat \<Rightarrow> gmm_locals \<Rightarrow> gmm_locals" where
  "gmm_test_channel self features individualTest channel l =
     (let (l, noise_probability, speech_probability, h0_test, h1_test) = gmm_gaussians self features channel l;
          shifts_h0 = s16 (WebRtcSpl_NormW32 h0_test);
          shifts_h1 = s16 (WebRtcSpl_NormW32 h1_test);
          shifts_h0 = (if h0_test = 0 then 31 else shifts_h0);
          shifts_h1 = (if h1_test = 0 then 31 else shifts_h1);
          log_likelihood_ratio = s16 (shifts_h0 - shifts_h1);
          l = l\<lparr>sum_llr := s32 (sum_llr l + log_likelihood_ratio * kSpectrumWeight ! channel)\<rparr>;
          l = (if shl log_likelihood_ratio 2 > individualTest then l\<lparr>vadflag := 1\<rparr> else l);
          h0 = s16 (shr h0_test 12);
          l = (if h0 > 0
               then let tmp1_s32 = s32 (u32 (shl (u32 (noise_probability ! 0) AND 0xFFFFF000) 2));
                        g = s16 (WebRtcSpl_DivW32W16 tmp1_s32 h0)
                    in l\<lparr>ngprvec := (ngprvec l)[channel := g, channel + kNumChannels := s16 (16384 - g)]\<rparr>
               else l\<lparr>ngprvec := (ngprvec l)[channel := 16384]\<rparr>);
          h1 = s16 (shr h1_test 12);
          l = (if h1 > 0
               then let tmp1_s32 = s32 (u32 (shl (u32 (speech_probability ! 0) AND 0xFFFFF000) 2));
                        g = s16 (WebRtcSpl_DivW32W16 tmp1_s32 h1)
                    in l\<lparr>sgprvec := (sgprvec l)[channel := g, channel + kNumChannels := s16 (16384 - g)]\<rparr>
               else l)
      in l)"

text \<open>The update of one Gaussian: its noise mean, and its speech mean and deviation or its noise deviation.\<close>

definition gmm_noise_mean :: "gmm_locals \<Rightarrow> nat \<Rightarrow> nat \<Rightarrow> int \<Rightarrow> int \<Rightarrow> int \<Rightarrow> int" where
  "gmm_noise_mean l channel k nmk feature_minimum tmp1_s16 =
     (let gaussian = channel + k * kNumChannels;
          nmk2 = (if vadflag l = 0
                  then let delt = s16 (WEBRTC_SPL_MUL_16_16_RSFT (ngprvec l ! gaussian) (deltaN l ! gaussian) 11)
                       in s16 (nmk + s16 (WEBRTC_SPL_MUL_16_16_RSFT delt kNoiseUpdateConst 22))
                  else nmk);
          ndelt = s16 (shl feature_minimum 4 - tmp1_s16);
          nmk3 = s16 (nmk2 + s16 (WEBRTC_SPL_MUL_16_16_RSFT ndelt kBackEta 9));
          tmp_s16 = s16 (shl (int k + 5) 7);
          nmk3 = (if nmk3 < tmp_s16 then tmp_s16 else nmk3);
          tmp_s16 = s16 (shl (72 + int k - int channel) 7);
          nmk3 = (if nmk3 > tmp_s16 then tmp_s16 else nmk3)
      in nmk3)"

definition gmm_speech_mean :: "gmm_locals \<Rightarrow> nat \<Rightarrow> nat \<Rightarrow> int \<Rightarrow> int \<Rightarrow> int" where
  "gmm_speech_mean l channel k smk maxspe =
     (let gaussian = channel + k * kNumChannels;
          delt = s16 (WEBRTC_SPL_MUL_16_16_RSFT (sgprvec l ! gaussian) (deltaS l ! gaussian) 11);
          tmp_s16 = s16 (WEBRTC_SPL_MUL_16_16_RSFT delt kSpeechUpdateConst 21);
          smk2 = s16 (smk + shr (tmp_s16 + 1) 1);
          maxmu = s16 (maxspe + 640);
          smk2 = (if smk2 < kMinimumMean ! k then kMinimumMean ! k else smk2);
          smk2 = (if smk2 > maxmu then maxmu else smk2)
      in smk2)"

definition gmm_speech_std :: "gmm_locals \<Rightarrow> int list \<Rightarrow> nat \<Rightarrow> nat \<Rightarrow> int \<Rightarrow> int \<Rightarrow> int" where
  "gmm_speech_std l features channel k smk ssk =
     (let gaussian = channel + k * kNumChannels;
          tmp_s16 = s16 (shr (smk + 4) 3);
          tmp_s16 = s16 (features ! channel - tmp_s16);
          tmp1_s32 = WEBRTC_SPL_MUL_16_16_RSFT (deltaS l ! gaussian) tmp_s16 3;
          tmp2_s32 = s32 (tmp1_s32 - 4096);
          tmp_s16 = shr (sgprvec l ! gaussian) 2;
          tmp1_s32 = s32 (tmp_s16 * tmp2_s32);
          tmp2_s32 = shr tmp1_s32 4;
          tmp_s16 = (if tmp2_s32 > 0 then s16 (WebRtcSpl_DivW32W16 tmp2_s32 (s16 (ssk * 10)))
                     else s16 (- s16 (WebRtcSpl_DivW32W16 (s32 (- tmp2_s32)) (s16 (ssk * 10)))));
          tmp_s16 = s16 (tmp_s16 + 128);
          ssk = s16 (ssk + shr tmp_s16 8);
          ssk = (if ssk < kMinStd then kMinStd else ssk)
      in ssk)"

definition gmm_noise_std :: "gmm_locals \<Rightarrow> int list \<Rightarrow> nat \<Rightarrow> nat \<Rightarrow> int \<Rightarrow> int \<Rightarrow> int" where
  "gmm_noise_std l features channel k nmk nsk =
     (let gaussian = channel + k * kNumChannels;
          tmp_s16 = s16 (features ! channel - shr nmk 3);
          tmp1_s32 = WEBRTC_SPL_MUL_16_16_RSFT (deltaN l ! gaussian) tmp_s16 3;
          tmp1_s32 = s32 (tmp1_s32 - 4096);
          tmp_s16 = s16 (shr (ngprvec l ! gaussian + 2) 2);
          tmp2_s32 = s32 (tmp_s16 * tmp1_s32);
          tmp1_s32 = shr tmp2_s32 14;
          tmp_s16 = (if tmp1_s32 > 0 then s16 (WebRtcSpl_DivW32W16 tmp1_s32 nsk)
                     else s16 (- s16 (WebRtcSpl_DivW32W16 (s32 (- tmp1_s32)) nsk)));
          tmp_s16 = s16 (tmp_s16 + 32);
          nsk = s16 (nsk + shr tmp_s16 6);
          nsk = (if nsk < kMinStd then kMinStd else nsk)
      in nsk)"

definition gmm_update_gaussian ::
    "gmm_locals \<Rightarrow> int list \<Rightarrow> nat \<Rightarrow> int \<Rightarrow> int \<Rightarrow> int \<Rightarrow> nat \<Rightarrow> VadInstT \<Rightarrow> VadInstT" where
  "gmm_update_gaussian l features channel feature_minimum tmp1_s16 maxspe k self =
     (let gaussian = channel + k * kNumChannels;
          nmk = noise_means self ! gaussian;
          smk = speech_means self ! gaussian;
          nsk = noise_stds self ! gaussian;
          ssk = speech_stds self ! gaussian;
          self = self\<lparr>noise_means := (noise_means self)[gaussian :=
                    gmm_noise_mean l channel k nmk feature_minimum tmp1_s16]\<rparr>
      in if vadflag l \<noteq> 0
         then self\<lparr>speech_means := (speech_means self)[gaussian := gmm_speech_mean l channel k smk maxspe],
                   speech_stds := (speech_stds self)[gaussian := gmm_speech_std l features channel k smk ssk]\<rparr>
         else self\<lparr>noise_stds := (noise_stds self)[gaussian := gmm_noise_std l features channel k nmk nsk]\<rparr>)"

text \<open>Keeps the two models of a channel apart; returns the global means of speech and noise.\<close>

definition gmm_separate :: "nat \<Rightarrow> VadInstT \<Rightarrow> VadInstT \<times> int \<times> int" where
  "gmm_separate channel self =
     (let (nm, noise_global_mean) = WeightedAverage (noise_means self) channel 0 kNoiseDataWeights;
          self = self\<lparr>noise_means := nm\<rparr>;
          (sm, speech_global_mean) = WeightedAverage (speech_means self) channel 0 kSpeechDataWeights;
          self = self\<lparr>speech_means := sm\<rparr>;
          diff = s16 (s16 (shr speech_global_mean 9) - s16 (shr noise_global_mean 9))
      in if diff < kMinimumDifference ! channel
         then let tmp_s16 = s16 (kMinimumDifference ! channel - diff);
                  tmp1_s16 = s16 (WEBRTC_SPL_MUL_16_16_RSFT 13 tmp_s16 2);
                  tmp2_s16 = s16 (WEBRTC_SPL_MUL_16_16_RSFT 3 tmp_s16 2);
                  (sm, speech_global_mean) = WeightedAverage (speech_means self) channel tmp1_s16 kSpeechDataWeights;
                  self = self\<lparr>speech_means := sm\<rparr>;
                  (nm, noise_global_mean) = WeightedAverage (noise_means self) channel (s16 (- tmp2_s16)) kNoiseDataWeights;
                  self = self\<lparr>noise_means := nm\<rparr>
              in (self, speech_global_mean, noise_global_mean)
         else (self, speech_global_mean, noise_global_mean))"

definition lower_means :: "nat \<Rightarrow> int \<Rightarrow> int list \<Rightarrow> int list" where
  "lower_means channel amount means =
     fold (\<lambda>k means. means[channel + k * kNumChannels := s16 (means ! (channel + k * kNumChannels) - amount)])
       [0..<kNumGaussians] means"

definition gmm_limit :: "nat \<Rightarrow> int \<Rightarrow> int \<Rightarrow> VadInstT \<Rightarrow> VadInstT" where
  "gmm_limit channel speech_global_mean noise_global_mean self =
     (let maxspe = kMaximumSpeech ! channel;
          tmp2_s16 = s16 (shr speech_global_mean 7);
          self = (if tmp2_s16 > maxspe
                  then self\<lparr>speech_means := lower_means channel (s16 (tmp2_s16 - maxspe)) (speech_means self)\<rparr>
                  else self);
          tmp2_s16 = s16 (shr noise_global_mean 7);
          self = (if tmp2_s16 > kMaximumNoise ! channel
                  then self\<lparr>noise_means := lower_means channel (s16 (tmp2_s16 - kMaximumNoise ! channel)) (noise_means self)\<rparr>
                  else self)
      in self)"

text \<open>The update of a channel; \<open>maxspe\<close> is carried from one channel to the next.\<close>

definition gmm_update_channel ::
    "gmm_locals \<Rightarrow> int list \<Rightarrow> nat \<Rightarrow> VadInstT \<times> int \<Rightarrow> VadInstT \<times> int" where
  "gmm_update_channel l features channel st =
     (case st of (self, maxspe) \<Rightarrow>
        let (feature_minimum, self) = WebRtcVad_FindMinimum self (features ! channel) channel;
            (nm, noise_global_mean) = WeightedAverage (noise_means self) channel 0 kNoiseDataWeights;
            self = self\<lparr>noise_means := nm\<rparr>;
            tmp1_s16 = s16 (shr noise_global_mean 6);
            self = fold (gmm_update_gaussian l features channel feature_minimum tmp1_s16 maxspe) [0..<kNumGaussians] self;
            (self, speech_global_mean, noise_global_mean) = gmm_separate channel self;
            maxspe = kMaximumSpeech ! channel;
            self = gmm_limit channel speech_global_mean noise_global_mean self
        in (self, maxspe))"

text \<open>The transition hysteresis.\<close>

definition gmm_hangover :: "int \<Rightarrow> int \<Rightarrow> int \<Rightarrow> VadInstT \<Rightarrow> int \<times> VadInstT" where
  "gmm_hangover overhead1 overhead2 flag self =
     (if flag = 0
      then let (flag, self) = (if over_hang self > 0
                 then (s16 (2 + over_hang self), self\<lparr>over_hang := s16 (over_hang self - 1)\<rparr>)
                 else (flag, self))
           in (flag, self\<lparr>num_of_speech := 0\<rparr>)
      else let self = self\<lparr>num_of_speech := s16 (num_of_speech self + 1)\<rparr>
           in if num_of_speech self > kMaxSpeechFrames
              then (flag, self\<lparr>num_of_speech := kMaxSpeechFrames, over_hang := overhead2\<rparr>)
              else (flag, self\<lparr>over_hang := overhead1\<rparr>))"

definition GmmProbability :: "VadInstT \<Rightarrow> int list \<Rightarrow> int \<Rightarrow> int \<Rightarrow> int \<times> VadInstT" where
  "GmmProbability self features total_power frame_length =
     (let (overhead1, overhead2, individualTest, totalTest) = gmm_thresholds self frame_length;
          (flag, self) =
            (if total_power > kMinEnergy
             then let l = fold (gmm_test_channel self features individualTest) [0..<kNumChannels] gmm_locals_init;
                      l = (if sum_llr l \<ge> totalTest then l\<lparr>vadflag := vadflag l OR 1\<rparr> else l);
                      (self, maxspe) = fold (gmm_update_channel l features) [0..<kNumChannels] (self, 12800);
                      self = self\<lparr>frame_counter := s32 (frame_counter self + 1)\<rparr>
                  in (vadflag l, self)
             else (0, self))
      in gmm_hangover overhead1 overhead2 flag self)"

section \<open>Instance and frames\<close>

definition WebRtcVad_set_mode_core :: "VadInstT \<Rightarrow> int \<Rightarrow> int \<times> VadInstT" where
  "WebRtcVad_set_mode_core self mode =
     (if mode = 0 then (0, self\<lparr>over_hang_max_1 := kOverHangMax1Q, over_hang_max_2 := kOverHangMax2Q,
                                 individual := kLocalThresholdQ, total_thr := kGlobalThresholdQ\<rparr>)
      else if mode = 1 then (0, self\<lparr>over_hang_max_1 := kOverHangMax1LBR, over_hang_max_2 := kOverHangMax2LBR,
                                 individual := kLocalThresholdLBR, total_thr := kGlobalThresholdLBR\<rparr>)
      else if mode = 2 then (0, self\<lparr>over_hang_max_1 := kOverHangMax1AGG, over_hang_max_2 := kOverHangMax2AGG,
                                 individual := kLocalThresholdAGG, total_thr := kGlobalThresholdAGG\<rparr>)
      else if mode = 3 then (0, self\<lparr>over_hang_max_1 := kOverHangMax1VAG, over_hang_max_2 := kOverHangMax2VAG,
                                 individual := kLocalThresholdVAG, total_thr := kGlobalThresholdVAG\<rparr>)
      else (-1, self))"

definition WebRtcVad_InitCore :: "VadInstT option \<Rightarrow> int \<times> VadInstT option" where
  "WebRtcVad_InitCore self =
     (case self of None \<Rightarrow> (-1, None)
      | Some self \<Rightarrow>
          let self = self\<lparr>vad := 1, frame_counter := 0, over_hang := 0, num_of_speech := 0,
                downsampling_filter_states := replicate 4 0,
                state_48_to_8 := WebRtcSpl_ResetResample48khzTo8khz (state_48_to_8 self),
                noise_means := kNoiseDataMeans, speech_means := kSpeechDataMeans,
                noise_stds := kNoiseDataStds, speech_stds := kSpeechDataStds,
                low_value_vector := replicate (16 * kNumChannels) 10000,
                index_vector := replicate (16 * kNumChannels) 0,
                upper_state := replicate 5 0, lower_state := replicate 5 0,
                hp_filter_state := replicate 4 0, mean_value := replicate kNumChannels 1600\<rparr>;
              (ret, self) = WebRtcVad_set_mode_core self kDefaultMode
          in if ret \<noteq> 0 then (-1, Some self) else (0, Some (self\<lparr>init_flag := kInitCheck\<rparr>)))"

definition WebRtcVad_CalcVad8khz :: "VadInstT \<Rightarrow> int list \<Rightarrow> int \<Rightarrow> int \<times> VadInstT" where
  "WebRtcVad_CalcVad8khz inst speech_frame frame_length =
     (let (total_power, feature_vector, inst) = WebRtcVad_CalculateFeatures inst (take (nat frame_length) speech_frame);
          (v, inst) = GmmProbability inst feature_vector total_power frame_length;
          inst = inst\<lparr>vad := v\<rparr>
      in (vad inst, inst))"

definition WebRtcVad_CalcVad16khz :: "VadInstT \<Rightarrow> int list \<Rightarrow> int \<Rightarrow> int \<times> VadInstT" where
  "WebRtcVad_CalcVad16khz inst speech_frame frame_length =
     (let st = downsampling_filter_states inst;
          (speechNB, (s0, s1)) = WebRtcVad_Downsampling (st ! 0, st ! 1) (take (nat frame_length) speech_frame);
          inst = inst\<lparr>downsampling_filter_states := st[0 := s0, 1 := s1]\<rparr>;
          len = shr frame_length 1
      in WebRtcVad_CalcVad8khz inst speechNB len)"

definition WebRtcVad_CalcVad32khz :: "VadInstT \<Rightarrow> int list \<Rightarrow> int \<Rightarrow> int \<times> VadInstT" where
  "WebRtcVad_CalcVad32khz inst speech_frame frame_length =
     (let st = downsampling_filter_states inst;
          (speechWB, (s2, s3)) = WebRtcVad_Downsampling (st ! 2, st ! 3) (take (nat frame_length) speech_frame);
          st = st[2 := s2, 3 := s3];
          len = shr frame_length 1;
          (speechNB, (s0, s1)) = WebRtcVad_Downsampling (st ! 0, st ! 1) (take (nat len) speechWB);
          inst = inst\<lparr>downsampling_filter_states := st[0 := s0, 1 := s1]\<rparr>;
          len = shr len 1
      in WebRtcVad_CalcVad8khz inst speechNB len)"

definition WebRtcVad_CalcVad48khz :: "VadInstT \<Rightarrow> int list \<Rightarrow> int \<Rightarrow> int \<times> VadInstT" where
  "WebRtcVad_CalcVad48khz inst speech_frame frame_length =
     (let num_10ms_frames = nat (frame_length div 480);
          (speech_nb, st) = fold (\<lambda>i (speech_nb, st).
               let (out, st) = WebRtcSpl_Resample48khzTo8khz st speech_frame in (speech_nb @ out, st))
             [0..<num_10ms_frames] ([], state_48_to_8 inst);
          inst = inst\<lparr>state_48_to_8 := st\<rparr>
      in WebRtcVad_CalcVad8khz inst speech_nb (frame_length div 6))"

section \<open>The public interface (webrtc\_vad.c)\<close>

definition kValidRates :: "int list" where "kValidRates = [8000, 16000, 32000, 48000]"
definition kMaxFrameLengthMs :: int where "kMaxFrameLengthMs = 30"

text \<open>\<open>malloc\<close>'s result is the argument \<open>m\<close>; \<open>handle\<close> says whether the caller passed a place for it.\<close>

definition WebRtcVad_Create :: "bool \<Rightarrow> VadInstT option \<Rightarrow> int \<times> VadInstT option" where
  "WebRtcVad_Create handle m =
     (if \<not> handle then (-1, None)
      else case m of None \<Rightarrow> (-1, None) | Some self \<Rightarrow> (0, Some (self\<lparr>init_flag := 0\<rparr>)))"

definition WebRtcVad_Init :: "VadInstT option \<Rightarrow> int \<times> VadInstT option" where
  "WebRtcVad_Init handle = WebRtcVad_InitCore handle"

definition WebRtcVad_set_mode :: "VadInstT option \<Rightarrow> int \<Rightarrow> int \<times> VadInstT option" where
  "WebRtcVad_set_mode handle mode =
     (case handle of None \<Rightarrow> (-1, None)
      | Some self \<Rightarrow>
          if init_flag self \<noteq> kInitCheck then (-1, handle)
          else let (r, self) = WebRtcVad_set_mode_core self mode in (r, Some self))"

text \<open>The two loops with their \<open>break\<close>s: the first matching rate, then a matching length.\<close>

fun valid_length_loop :: "int \<Rightarrow> int \<Rightarrow> nat \<Rightarrow> int \<Rightarrow> int" where
  "valid_length_loop rate frame_length 0 valid_length_ms = -1"
| "valid_length_loop rate frame_length (Suc n) valid_length_ms =
     (if valid_length_ms \<le> kMaxFrameLengthMs
      then let valid_length = rate div 1000 * valid_length_ms
           in if frame_length = valid_length then 0
              else valid_length_loop rate frame_length n (valid_length_ms + 10)
      else -1)"

fun valid_rate_loop :: "int list \<Rightarrow> int \<Rightarrow> int \<Rightarrow> int" where
  "valid_rate_loop [] rate frame_length = -1"
| "valid_rate_loop (r # rates) rate frame_length =
     (if r = rate then valid_length_loop r frame_length 4 10
      else valid_rate_loop rates rate frame_length)"

definition WebRtcVad_ValidRateAndFrameLength :: "int \<Rightarrow> int \<Rightarrow> int" where
  "WebRtcVad_ValidRateAndFrameLength rate frame_length = valid_rate_loop kValidRates rate frame_length"

definition WebRtcVad_Process :: "VadInstT option \<Rightarrow> int \<Rightarrow> int list option \<Rightarrow> int \<Rightarrow> int \<times> VadInstT option" where
  "WebRtcVad_Process handle fs audio_frame frame_length =
     (case handle of None \<Rightarrow> (-1, None)
      | Some self \<Rightarrow>
          if init_flag self \<noteq> kInitCheck then (-1, handle)
          else case audio_frame of None \<Rightarrow> (-1, handle)
          | Some audio_frame \<Rightarrow>
              if WebRtcVad_ValidRateAndFrameLength fs frame_length \<noteq> 0 then (-1, handle)
              else let (v, self) =
                     (if fs = 48000 then WebRtcVad_CalcVad48khz self audio_frame frame_length
                      else if fs = 32000 then WebRtcVad_CalcVad32khz self audio_frame frame_length
                      else if fs = 16000 then WebRtcVad_CalcVad16khz self audio_frame frame_length
                      else if fs = 8000 then WebRtcVad_CalcVad8khz self audio_frame frame_length
                      else (-1, self))
                   in (if v > 0 then 1 else v, Some self))"

section \<open>The invariant of the instance\<close>

definition arr16 :: "nat \<Rightarrow> int list \<Rightarrow> bool" where
  "arr16 n xs \<longleftrightarrow> length xs = n \<and> (\<forall>x \<in> set xs. is_s16 x)"

definition stds_ok :: "int list \<Rightarrow> bool" where
  "stds_ok xs \<longleftrightarrow> (\<forall>x \<in> set xs. 378 \<le> x)"

definition models_ok :: "VadInstT \<Rightarrow> bool" where
  "models_ok self \<longleftrightarrow> arr16 12 (noise_means self) \<and> arr16 12 (speech_means self)
     \<and> arr16 12 (noise_stds self) \<and> arr16 12 (speech_stds self)
     \<and> stds_ok (noise_stds self) \<and> stds_ok (speech_stds self)"

definition vad_ok :: "VadInstT \<Rightarrow> bool" where
  "vad_ok self \<longleftrightarrow> minima_ok self \<and> models_ok self
     \<and> length (downsampling_filter_states self) = 4 \<and> ok_48_8 (state_48_to_8 self)
     \<and> length (upper_state self) = 5 \<and> length (lower_state self) = 5 \<and> length (hp_filter_state self) = 4
     \<and> length (over_hang_max_1 self) = 3 \<and> (\<forall>x \<in> set (over_hang_max_1 self). 0 \<le> x \<and> x \<le> 14)
     \<and> length (over_hang_max_2 self) = 3 \<and> (\<forall>x \<in> set (over_hang_max_2 self). 0 \<le> x \<and> x \<le> 14)
     \<and> length (individual self) = 3 \<and> length (total_thr self) = 3
     \<and> 0 \<le> over_hang self \<and> over_hang self \<le> 14 \<and> 0 \<le> num_of_speech self \<and> num_of_speech self \<le> 6
     \<and> init_flag self = kInitCheck"

lemma arr16_update: "arr16 n xs \<Longrightarrow> is_s16 v \<Longrightarrow> arr16 n (xs[i := v])"
  by (auto simp: arr16_def dest!: set_update_subset_insert [THEN subsetD])

lemma stds_update: "stds_ok xs \<Longrightarrow> 384 \<le> v \<Longrightarrow> stds_ok (xs[i := v])"
  by (auto simp: stds_ok_def dest!: set_update_subset_insert [THEN subsetD])

lemma gmm_values:
  "k < 2 \<Longrightarrow> is_s16 (gmm_noise_mean l channel k nmk fm t)"
  "k < 2 \<Longrightarrow> is_s16 (gmm_speech_mean l channel k smk m)"
  "is_s16 (gmm_speech_std l f channel k smk ssk)" "384 \<le> gmm_speech_std l f channel k smk ssk"
  "is_s16 (gmm_noise_std l f channel k nmk nsk)" "384 \<le> gmm_noise_std l f channel k nmk nsk"
  by (auto simp: gmm_noise_mean_def gmm_speech_mean_def gmm_speech_std_def gmm_noise_std_def Let_def kMinStd_def
      kMinimumMean_def is_s16_def less_Suc_eq numeral_2_eq_2 s16_bounds not_less
      intro: order_trans [OF s16_bounds(1)] order_trans [OF _ s16_bounds(2)])

lemma WeightedAverage_arr: "arr16 n dat \<Longrightarrow> arr16 n (fst (WeightedAverage dat channel offset w))"
  unfolding WeightedAverage_def
  by (rule fold_inv [where P = "\<lambda>st. arr16 n (fst st)"]) (auto simp: Let_def arr16_update split_beta)

lemma lower_means_arr: "arr16 n dat \<Longrightarrow> arr16 n (lower_means channel a dat)"
  unfolding lower_means_def by (rule fold_inv) (auto simp: arr16_update)

text \<open>The updates of the model change only the model.\<close>

definition rest :: "VadInstT \<Rightarrow> VadInstT" where
  "rest self = self\<lparr>noise_means := [], speech_means := [], noise_stds := [], speech_stds := [],
     index_vector := [], low_value_vector := [], mean_value := []\<rparr>"

definition step_ok :: "VadInstT \<Rightarrow> VadInstT \<Rightarrow> bool" where
  "step_ok self self' \<longleftrightarrow> models_ok self' \<and> minima_ok self' \<and> rest self' = rest self"

lemma gmm_update_gaussian_ok:
  assumes "models_ok self" and "minima_ok self" and "k < 2"
  shows "step_ok self (gmm_update_gaussian l f channel fm t m k self)"
  using assms gmm_values(1,2) [OF assms(3)] gmm_values(3-6)
  by (auto simp: gmm_update_gaussian_def Let_def step_ok_def models_ok_def minima_ok_def rest_def
      intro!: arr16_update stds_update)

lemma gmm_separate_ok:
  assumes "models_ok self" and "minima_ok self" and "gmm_separate channel self = (self', sg, ng)"
  shows "step_ok self self'"
  using assms WeightedAverage_arr [of 12]
  by (auto simp: gmm_separate_def Let_def split_beta step_ok_def models_ok_def minima_ok_def rest_def split: if_splits)

lemma gmm_limit_ok:
  assumes "models_ok self" and "minima_ok self"
  shows "step_ok self (gmm_limit channel sg ng self)"
  using assms lower_means_arr [of 12]
  by (auto simp: gmm_limit_def Let_def step_ok_def models_ok_def minima_ok_def rest_def)

lemma step_ok_trans: "step_ok a b \<Longrightarrow> step_ok b c \<Longrightarrow> step_ok a c"
  by (simp add: step_ok_def)

lemma FindMinimum_ok:
  assumes "models_ok self" and "minima_ok self" and "channel < 6" and "is_s16 f"
  shows "step_ok self (snd (WebRtcVad_FindMinimum self f channel))"
proof -
  obtain m self' where r: "WebRtcVad_FindMinimum self f channel = (m, self')" by (rule prod.exhaust)
  have "minima_ok self'" using FindMinimum_spec [OF assms(2-4) r refl] by blast
  moreover have "\<exists>i lo me. self' = self\<lparr>index_vector := i, low_value_vector := lo, mean_value := me\<rparr>"
    using r unfolding WebRtcVad_FindMinimum_def Let_def split_beta prod.inject by blast
  ultimately show ?thesis using assms(1) r by (auto simp: step_ok_def models_ok_def rest_def)
qed

lemma gmm_update_channel_ok:
  assumes "models_ok self" and "minima_ok self" and "channel < 6" and "is_s16 (f ! channel)"
  shows "step_ok self (fst (gmm_update_channel l f channel (self, m)))"
proof -
  obtain fm s1 where s1: "WebRtcVad_FindMinimum self (f ! channel) channel = (fm, s1)" by (rule prod.exhaust)
  obtain nm ng where wa: "WeightedAverage (noise_means s1) channel 0 kNoiseDataWeights = (nm, ng)" by (rule prod.exhaust)
  define s2 where "s2 = s1\<lparr>noise_means := nm\<rparr>"
  define s3 where "s3 = fold (gmm_update_gaussian l f channel fm (s16 (shr ng 6)) m) [0..<kNumGaussians] s2"
  obtain s4 sg ng' where s4: "gmm_separate channel s3 = (s4, sg, ng')" by (rule prod_cases3)
  have 1: "step_ok self s1" using FindMinimum_ok [OF assms] s1 by simp
  have "arr16 12 nm" using 1 WeightedAverage_arr [of 12 "noise_means s1"] wa
    by (metis fst_conv step_ok_def models_ok_def)
  then have 2: "step_ok s1 s2" using 1 by (auto simp: s2_def step_ok_def models_ok_def minima_ok_def rest_def)
  have 3: "step_ok s2 s3" unfolding s3_def
    by (rule fold_inv) (use 2 gmm_update_gaussian_ok step_ok_trans in \<open>auto simp: kNumGaussians_def step_ok_def\<close>)
  have 4: "step_ok s3 s4" using 3 gmm_separate_ok [OF _ _ s4] by (simp add: step_ok_def)
  have 5: "step_ok s4 (gmm_limit channel sg ng' s4)" using 4 gmm_limit_ok by (simp add: step_ok_def)
  have "fst (gmm_update_channel l f channel (self, m)) = gmm_limit channel sg ng' s4"
    unfolding gmm_update_channel_def Let_def split_conv s1 wa s2_def [symmetric] s3_def [symmetric] s4 by simp
  then show ?thesis using 1 2 3 4 5 step_ok_trans by metis
qed

lemma gmm_updates_ok:
  assumes "models_ok self" and "minima_ok self" and f: "\<forall>c < 6. is_s16 (f ! c)"
  shows "step_ok self (fst (fold (gmm_update_channel l f) [0..<kNumChannels] (self, m)))"
proof (rule fold_inv)
  show "step_ok self (fst (self, m))" using assms by (simp add: step_ok_def)
  fix c and st :: "VadInstT \<times> int" assume c: "c \<in> set [0..<kNumChannels]" and st: "step_ok self (fst st)"
  have "step_ok (fst st) (fst (gmm_update_channel l f c (fst st, snd st)))"
    using c st f by (intro gmm_update_channel_ok) (auto simp: step_ok_def kNumChannels_def)
  then show "step_ok self (fst (gmm_update_channel l f c st))" using st step_ok_trans by simp
qed

lemma gmm_gaussians_flag: "vadflag (fst (gmm_gaussians self f c l)) = vadflag l"
  unfolding gmm_gaussians_def
  by (rule fold_inv [where P = "\<lambda>st. vadflag (fst st) = vadflag l"]) (auto simp: Let_def split_beta)

lemma gmm_test_channel_flag:
  assumes "vadflag l \<in> {0, 1}"
  shows "vadflag (gmm_test_channel self f t c l) \<in> {0, 1}"
proof -
  obtain l' np sp h0 h1 where g: "gmm_gaussians self f c l = (l', np, sp, h0, h1)" by (rule prod_cases5)
  have "vadflag l' \<in> {0, 1}" using gmm_gaussians_flag [of self f c l] g assms by simp
  moreover have keep: "vadflag (if b then x\<lparr>ngprvec := u\<rparr> else x\<lparr>ngprvec := v\<rparr>) = vadflag x"
    "vadflag (if b then x\<lparr>sgprvec := u\<rparr> else x) = vadflag x" for b x u v by auto
  ultimately show ?thesis unfolding gmm_test_channel_def Let_def g split_conv keep by simp
qed

lemma gmm_hangover_spec:
  assumes ok: "vad_ok self" and fl: "flag \<in> {0, 1}" and o1: "0 \<le> o1" "o1 \<le> 14" and o2: "0 \<le> o2" "o2 \<le> 14"
  shows "vad_ok (snd (gmm_hangover o1 o2 flag self)) \<and> 0 \<le> fst (gmm_hangover o1 o2 flag self)
     \<and> fst (gmm_hangover o1 o2 flag self) \<le> 16"
proof -
  have oh: "0 \<le> over_hang self" "over_hang self \<le> 14" "0 \<le> num_of_speech self" "num_of_speech self \<le> 6"
    using ok by (auto simp: vad_ok_def)
  have w: "s16 (2 + over_hang self) = 2 + over_hang self" "s16 (over_hang self - 1) = over_hang self - 1"
    "s16 (num_of_speech self + 1) = num_of_speech self + 1" using oh by (simp_all add: s16_id)
  have up: "vad_ok (self\<lparr>over_hang := a, num_of_speech := b\<rparr>)" if "0 \<le> a" "a \<le> 14" "0 \<le> b" "b \<le> 6" for a b
    using ok that by (simp add: vad_ok_def minima_ok_def models_ok_def)
  have up': "vad_ok (self\<lparr>num_of_speech := b, over_hang := a\<rparr>)" if "0 \<le> a" "a \<le> 14" "0 \<le> b" "b \<le> 6" for a b
    using ok that by (simp add: vad_ok_def minima_ok_def models_ok_def)
  have up0: "vad_ok (self\<lparr>num_of_speech := 0\<rparr>)" using ok by (simp add: vad_ok_def minima_ok_def models_ok_def)
  show ?thesis using fl oh o1 o2 up up' up0
    by (auto simp: gmm_hangover_def Let_def w kMaxSpeechFrames_def)
qed

lemma vad_ok_step: "vad_ok self \<Longrightarrow> step_ok self self' \<Longrightarrow> vad_ok (self'\<lparr>frame_counter := n\<rparr>)"
  by (cases self, cases self') (auto simp: vad_ok_def step_ok_def rest_def models_ok_def minima_ok_def)

lemma GmmProbability_ok:
  assumes ok: "vad_ok self" and f: "\<forall>c < 6. is_s16 (f ! c)"
  shows "vad_ok (snd (GmmProbability self f tp n)) \<and> 0 \<le> fst (GmmProbability self f tp n)
     \<and> fst (GmmProbability self f tp n) \<le> 16"
proof -
  define i where "i = (if n = 80 then 0 else if n = 160 then 1 else (2 :: nat))"
  have i: "i < 3" by (simp add: i_def)
  have th: "gmm_thresholds self n = (over_hang_max_1 self ! i, over_hang_max_2 self ! i, individual self ! i, total_thr self ! i)"
    by (simp add: gmm_thresholds_def i_def Let_def)
  have o: "0 \<le> over_hang_max_1 self ! i" "over_hang_max_1 self ! i \<le> 14"
    "0 \<le> over_hang_max_2 self ! i" "over_hang_max_2 self ! i \<le> 14"
    using ok i by (auto simp: vad_ok_def)
  define l0 where "l0 = fold (gmm_test_channel self f (individual self ! i)) [0..<kNumChannels] gmm_locals_init"
  define l where "l = (if sum_llr l0 \<ge> total_thr self ! i then l0\<lparr>vadflag := vadflag l0 OR 1\<rparr> else l0)"
  have "vadflag l0 \<in> {0, 1}" unfolding l0_def
    by (rule fold_inv [where P = "\<lambda>l. vadflag l \<in> {0, 1}"]) (use gmm_test_channel_flag in \<open>auto simp: gmm_locals_init_def\<close>)
  then have fl: "vadflag l \<in> {0, 1}" by (auto simp: l_def)
  obtain s m where u: "fold (gmm_update_channel l f) [0..<kNumChannels] (self, 12800) = (s, m)" by (rule prod.exhaust)
  have "step_ok self s"
    using gmm_updates_ok [of self f l 12800] ok f u by (simp add: vad_ok_def)
  then have ok': "vad_ok (s\<lparr>frame_counter := s32 (frame_counter s + 1)\<rparr>)" by (rule vad_ok_step [OF ok])
  have e: "GmmProbability self f tp n = (if tp > kMinEnergy
      then gmm_hangover (over_hang_max_1 self ! i) (over_hang_max_2 self ! i) (vadflag l) (s\<lparr>frame_counter := s32 (frame_counter s + 1)\<rparr>)
      else gmm_hangover (over_hang_max_1 self ! i) (over_hang_max_2 self ! i) 0 self)"
    unfolding GmmProbability_def Let_def th split_conv l0_def [symmetric] l_def [symmetric] u by simp
  show ?thesis unfolding e using gmm_hangover_spec [OF ok' fl o] gmm_hangover_spec [OF ok _ o, of 0] by simp
qed

lemma CalcVad8khz_ok:
  assumes ok: "vad_ok self" and n: "n \<in> {80, 160, 240}" and len: "nat n \<le> length frame"
  shows "vad_ok (snd (WebRtcVad_CalcVad8khz self frame n)) \<and> 0 \<le> fst (WebRtcVad_CalcVad8khz self frame n)"
proof -
  obtain te fs s1 where cf: "WebRtcVad_CalculateFeatures self (take (nat n) frame) = (te, fs, s1)" by (rule prod_cases3)
  have l: "length (take (nat n) frame) \<in> {80, 160, 240}" using n len by auto
  note cs = CalculateFeatures_spec [OF l cf]
  have f: "\<forall>c < 6. is_s16 (fs ! c)" using cs by (auto simp: is_s16_def all_set_conv_all_nth)
  have "vad_ok (self\<lparr>upper_state := u, lower_state := v, hp_filter_state := h\<rparr>)"
    if "length u = 5" "length v = 5" "length h = 4" for u v h
    using ok that by (simp add: vad_ok_def minima_ok_def models_ok_def)
  then have "vad_ok s1" using cs ok by (metis vad_ok_def)
  note g = GmmProbability_ok [OF this f, of te n]
  have "vad_ok (s\<lparr>vad := v\<rparr>)" if "vad_ok s" for s v using that by (simp add: vad_ok_def minima_ok_def models_ok_def)
  then show ?thesis using g by (simp add: WebRtcVad_CalcVad8khz_def cf split_beta Let_def)
qed

lemma vad_ok_states:
  "vad_ok self \<Longrightarrow> length st = 4 \<Longrightarrow> vad_ok (self\<lparr>downsampling_filter_states := st\<rparr>)"
  "vad_ok self \<Longrightarrow> ok_48_8 s48 \<Longrightarrow> vad_ok (self\<lparr>state_48_to_8 := s48\<rparr>)"
  by (simp_all add: vad_ok_def minima_ok_def models_ok_def)

lemma CalcVad16khz_ok:
  assumes ok: "vad_ok self" and n: "n \<in> {160, 320, 480}" and len: "nat n \<le> length frame"
  shows "vad_ok (snd (WebRtcVad_CalcVad16khz self frame n)) \<and> 0 \<le> fst (WebRtcVad_CalcVad16khz self frame n)"
  unfolding WebRtcVad_CalcVad16khz_def Let_def split_beta
  by (rule CalcVad8khz_ok) (use assms in \<open>auto simp: shr_def vad_ok_def minima_ok_def models_ok_def\<close>)

lemma CalcVad32khz_ok:
  assumes ok: "vad_ok self" and n: "n \<in> {320, 640, 960}" and len: "nat n \<le> length frame"
  shows "vad_ok (snd (WebRtcVad_CalcVad32khz self frame n)) \<and> 0 \<le> fst (WebRtcVad_CalcVad32khz self frame n)"
  unfolding WebRtcVad_CalcVad32khz_def Let_def split_beta
  by (rule CalcVad8khz_ok) (use assms in \<open>auto simp: shr_def vad_ok_def minima_ok_def models_ok_def\<close>)

lemma Resample48khzTo8khz_ok:
  assumes ok: "ok_48_8 s" and x: "480 \<le> length xs"
  shows "ok_48_8 (snd (WebRtcSpl_Resample48khzTo8khz s xs)) \<and> length (fst (WebRtcSpl_Resample48khzTo8khz s xs)) = 80"
proof -
  have t: "WebRtcSpl_Resample48khzTo8khz s (take 480 xs) = WebRtcSpl_Resample48khzTo8khz s xs"
    by (simp add: WebRtcSpl_Resample48khzTo8khz_def)
  have l: "length (take 480 xs) = 480" using x by simp
  note c = Resample48khzTo8khz_chain [OF ok l, unfolded t]
  have "length (fst (chain_48_8 (st_48_8 s) (take 480 xs))) = 80"
    using ok l unfolding chain_48_8_def by (simp add: then_stage_out out_lengths state_defs)
  then show ?thesis using c by simp
qed

lemma frames_48_ok:
  assumes "ok_48_8 s" and "480 \<le> length xs"
  shows "ok_48_8 (snd (fold (\<lambda>i (nb, st). let (out, st) = WebRtcSpl_Resample48khzTo8khz st xs in (nb @ out, st)) [0..<m] ([], s)))
     \<and> length (fst (fold (\<lambda>i (nb, st). let (out, st) = WebRtcSpl_Resample48khzTo8khz st xs in (nb @ out, st)) [0..<m] ([], s))) = 80 * m"
  using assms Resample48khzTo8khz_ok by (induction m) (auto simp: split_beta Let_def)

lemma CalcVad48khz_ok:
  assumes ok: "vad_ok self" and n: "n \<in> {480, 960, 1440}" and len: "nat n \<le> length frame"
  shows "vad_ok (snd (WebRtcVad_CalcVad48khz self frame n)) \<and> 0 \<le> fst (WebRtcVad_CalcVad48khz self frame n)"
proof -
  have "ok_48_8 (state_48_to_8 self)" using ok by (simp add: vad_ok_def)
  moreover have "480 \<le> length frame" using n len by auto
  ultimately have f: "ok_48_8 (snd (fold (\<lambda>i (nb, st). let (out, st) = WebRtcSpl_Resample48khzTo8khz st frame in (nb @ out, st)) [0..<m] ([], state_48_to_8 self)))
     \<and> length (fst (fold (\<lambda>i (nb, st). let (out, st) = WebRtcSpl_Resample48khzTo8khz st frame in (nb @ out, st)) [0..<m] ([], state_48_to_8 self))) = 80 * m" for m
    by (rule frames_48_ok)
  have six: "n div 6 \<in> {80, 160, 240}" "nat (n div 6) = 80 * nat (n div 480)" using n by auto
  obtain nb st where r: "fold (\<lambda>i (nb, st). let (out, st) = WebRtcSpl_Resample48khzTo8khz st frame in (nb @ out, st))
      [0..<nat (n div 480)] ([], state_48_to_8 self) = (nb, st)" by (rule prod.exhaust)
  have "ok_48_8 st" "length nb = 80 * nat (n div 480)" using f [of "nat (n div 480)"] unfolding r by auto
  then show ?thesis unfolding WebRtcVad_CalcVad48khz_def Let_def r [unfolded Let_def] split_conv
    using six by (intro CalcVad8khz_ok vad_ok_states(2) [OF ok]) auto
qed

text \<open>Valid arguments: the four rates with 10, 20 or 30 ms of samples.\<close>

lemma valid_length_loop_eq:
  "valid_length_loop r n 4 10 = (if n \<in> {r div 1000 * 10, r div 1000 * 20, r div 1000 * 30} then 0 else -1)"
  by (simp add: numeral_eq_Suc kMaxFrameLengthMs_def)

lemma ValidRate_iff:
  "WebRtcVad_ValidRateAndFrameLength rate n = (if rate \<in> {8000, 16000, 32000, 48000}
     \<and> n \<in> {rate div 1000 * 10, rate div 1000 * 20, rate div 1000 * 30} then 0 else -1)"
  unfolding WebRtcVad_ValidRateAndFrameLength_def kValidRates_def valid_rate_loop.simps valid_length_loop_eq by auto

lemma InitCore_ok:
  assumes "WebRtcVad_InitCore (Some s) = (r, s')"
  shows "r = 0 \<and> (\<exists>self. s' = Some self \<and> vad_ok self)"
proof -
  have c: "values_ok (chan16 (replicate 96 10000) c)" if "c < 6" for c
    using that by (simp add: chan16_def values_ok_def)
  show ?thesis using assms c
    by (auto simp: WebRtcVad_InitCore_def WebRtcVad_set_mode_core_def kDefaultMode_def Let_def vad_ok_def minima_ok_def
        models_ok_def arr16_def stds_ok_def kNumChannels_def ok_48_8_def WebRtcSpl_ResetResample48khzTo8khz_def
        kNoiseDataMeans_def kSpeechDataMeans_def kNoiseDataStds_def kSpeechDataStds_def
        kOverHangMax1Q_def kOverHangMax2Q_def kLocalThresholdQ_def kGlobalThresholdQ_def is_s16_def)
qed

lemmas mode_defs = kOverHangMax1Q_def kOverHangMax2Q_def kLocalThresholdQ_def kGlobalThresholdQ_def
  kOverHangMax1LBR_def kOverHangMax2LBR_def kLocalThresholdLBR_def kGlobalThresholdLBR_def
  kOverHangMax1AGG_def kOverHangMax2AGG_def kLocalThresholdAGG_def kGlobalThresholdAGG_def
  kOverHangMax1VAG_def kOverHangMax2VAG_def kLocalThresholdVAG_def kGlobalThresholdVAG_def

lemma set_mode_ok:
  assumes "vad_ok s" and "WebRtcVad_set_mode (Some s) mode = (r, Some s')"
  shows "vad_ok s'"
  using assms
  by (auto simp: WebRtcVad_set_mode_def WebRtcVad_set_mode_core_def vad_ok_def minima_ok_def models_ok_def mode_defs
      split: if_splits)

text \<open>The caller's part of the contract: a frame holds the samples the length announces.\<close>

definition frame_ok :: "int list option \<Rightarrow> int \<Rightarrow> bool" where
  "frame_ok frame n \<longleftrightarrow> (case frame of None \<Rightarrow> True | Some xs \<Rightarrow> nat n \<le> length xs)"

lemma Process_spec:
  assumes ok: "vad_ok s" and f: "frame_ok frame n" and p: "WebRtcVad_Process (Some s) fs frame n = (r, s')"
  shows "r \<in> {-1, 0, 1} \<and> (\<exists>self. s' = Some self \<and> vad_ok self)
     \<and> (r = -1 \<longleftrightarrow> frame = None \<or> WebRtcVad_ValidRateAndFrameLength fs n \<noteq> 0)
     \<and> (r = -1 \<longrightarrow> s' = Some s)"
proof (cases "frame = None \<or> WebRtcVad_ValidRateAndFrameLength fs n \<noteq> 0")
  case True
  have "init_flag s = kInitCheck" using ok by (simp add: vad_ok_def)
  then have "r = -1 \<and> s' = Some s" using True p by (auto simp: WebRtcVad_Process_def split: option.splits if_splits)
  then show ?thesis using True ok by simp
next
  case False
  then obtain xs where xs: "frame = Some xs" and v: "WebRtcVad_ValidRateAndFrameLength fs n = 0" by auto
  have l: "nat n \<le> length xs" using f xs by (simp add: frame_ok_def)
  obtain q t where c: "(if fs = 48000 then WebRtcVad_CalcVad48khz s xs n
      else if fs = 32000 then WebRtcVad_CalcVad32khz s xs n
      else if fs = 16000 then WebRtcVad_CalcVad16khz s xs n
      else if fs = 8000 then WebRtcVad_CalcVad8khz s xs n else (-1, s)) = (q, t)" by (rule prod.exhaust)
  have vn: "fs \<in> {8000, 16000, 32000, 48000}" "n \<in> {fs div 1000 * 10, fs div 1000 * 20, fs div 1000 * 30}"
    using v by (auto simp: ValidRate_iff split: if_splits)
  have "vad_ok t \<and> 0 \<le> q"
    using vn c CalcVad48khz_ok [OF ok _ l] CalcVad32khz_ok [OF ok _ l] CalcVad16khz_ok [OF ok _ l] CalcVad8khz_ok [OF ok _ l]
    by (auto simp: split_beta)
  moreover have "r = (if q > 0 then 1 else q)" "s' = Some t"
    using p ok v unfolding WebRtcVad_Process_def xs option.case c vad_ok_def by (simp_all add: Let_def)
  ultimately show ?thesis using False by auto
qed

section \<open>The life of an instance\<close>

inductive vad_reach :: "VadInstT \<Rightarrow> bool" where
  init: "WebRtcVad_Init (Some s) = (0, Some s') \<Longrightarrow> vad_reach s'"
| set_mode: "vad_reach s \<Longrightarrow> WebRtcVad_set_mode (Some s) mode = (r, Some s') \<Longrightarrow> vad_reach s'"
| process: "vad_reach s \<Longrightarrow> frame_ok frame n \<Longrightarrow> WebRtcVad_Process (Some s) fs frame n = (r, Some s') \<Longrightarrow> vad_reach s'"

inductive_cases vad_reachE: "vad_reach s"

lemma vad_reach_ok: "vad_reach s \<Longrightarrow> vad_ok s"
proof (induction rule: vad_reach.induct)
  case (init s s')
  then show ?case using InitCore_ok [of s] by (simp add: WebRtcVad_Init_def)
next
  case (set_mode s mode r s')
  then show ?case using set_mode_ok by blast
next
  case (process s frame n fs r s')
  then show ?case using Process_spec by blast
qed

definition vad_raw :: VadInstT where
  "vad_raw = \<lparr>vad = 5, downsampling_filter_states = [],
     state_48_to_8 = \<lparr>S_48_24 = [], S_24_24 = [], S_24_16 = [], S_16_8 = []\<rparr>,
     noise_means = [], speech_means = [], noise_stds = [], speech_stds = [], frame_counter = 5, over_hang = 5,
     num_of_speech = 5, index_vector = [], low_value_vector = [], mean_value = [], upper_state = [], lower_state = [],
     hp_filter_state = [], over_hang_max_1 = [], over_hang_max_2 = [], individual = [], total_thr = [], init_flag = 0\<rparr>"

definition vad_demo :: VadInstT where
  "vad_demo = the (snd (WebRtcVad_Init (Some vad_raw)))"

lemma vad_demo_init: "WebRtcVad_Init (Some vad_raw) = (0, Some vad_demo)"
  using InitCore_ok [of vad_raw "fst (WebRtcVad_Init (Some vad_raw))" "snd (WebRtcVad_Init (Some vad_raw))"]
  by (auto simp: vad_demo_def WebRtcVad_Init_def prod_eq_iff)

lemma vad_demo_reach: "vad_reach vad_demo"
  by (rule vad_reach.init [OF vad_demo_init])

text \<open>C2. Whatever an application does with an instance once it is initialised (set modes, valid or not,
  and process frames of any rate and length that hold the samples they announce), the instance stays well
  formed: its arrays keep their sizes, the model parameters stay 16 bit values and the standard deviations
  stay at or above 378, so no division of the model by one of them is a division by zero; the 16 smallest
  features of each band stay sorted; hang-over and speech counters stay in range.\<close>

theorem vad_reachable_ok:
  assumes "vad_reach s"
  shows "vad_ok s"
  using assms by (rule vad_reach_ok)

theorem vad_reachable_ok_witness: "vad_ok vad_demo"
  by (rule vad_reachable_ok [OF vad_demo_reach])



text \<open>C25. \<open>WebRtcVad_FindMinimum\<close> is sorted insertion: after ageing, which drops expired values, the channel's
  memory is the 16 smallest of its values and the new feature, in order, and other channels are untouched. The result is the
  rounded weighted mean of the old mean and the median of the five smallest values (the third one; the smallest in the first
  two frames with a counter, 1600 before), the old mean having the weight 0.2 when it falls and 0.99 when it rises.\<close>

theorem FindMinimum_correct:
  assumes "vad_reach self" and "channel < 6" and "is_s16 f"
    and "WebRtcVad_FindMinimum self f channel = (m, self')"
    and "aged = snd (fold (age_step (read_at 0 (index_vector self) (channel * 16 + 16))
        (read_at 0 (low_value_vector self) (channel * 16 + 16))) [0..<16]
        (chan16 (index_vector self) channel, chan16 (low_value_vector self) channel))"
  shows "sorted aged \<and> chan16 (low_value_vector self') channel = take 16 (insort f aged)
     \<and> (\<forall>d < 6. d \<noteq> channel \<longrightarrow> chan16 (low_value_vector self') d = chan16 (low_value_vector self) d)
     \<and> m = mean_value self' ! channel
     \<and> (let mean = mean_value self ! channel; med = memory_median (frame_counter self) (take 16 (insort f aged));
             w = mean_weight (frame_counter self) mean med
          in m = (w * mean + (32768 - w) * med + 16384) div 32768 \<and> min mean med \<le> m \<and> m \<le> max mean med)"
proof -
  have "minima_ok self" using vad_reach_ok [OF assms(1)] by (simp add: vad_ok_def)
  from FindMinimum_spec [OF this assms(2-5)] show ?thesis unfolding values_ok_def by blast
qed

theorem FindMinimum_correct_witness:
  "\<exists>aged. sorted aged \<and> chan16 (low_value_vector (snd (WebRtcVad_FindMinimum vad_demo 700 2))) 2 = take 16 (insort 700 aged)"
proof -
  obtain m self' where r: "WebRtcVad_FindMinimum vad_demo 700 2 = (m, self')" by (rule prod.exhaust)
  have "(2 :: nat) < 6" "is_s16 700" by (simp_all add: is_s16_def)
  from FindMinimum_correct [OF vad_demo_reach this r refl] show ?thesis unfolding r snd_conv by blast
qed

text \<open>Every feature of a frame of 10, 20 or 30 ms at 8 kHz lies between 176 and 2294 (in Q4 dB), whatever the
  samples and the filter states: the range for which the density of the model is shown not to wrap.\<close>

theorem features_in_range:
  assumes "length data_in \<in> {80, 160, 240}"
    and "WebRtcVad_CalculateFeatures self data_in = (total_energy, features, self')"
  shows "length features = 6 \<and> (\<forall>x \<in> set features. 176 \<le> x \<and> x \<le> 2294)"
  using CalculateFeatures_spec [OF assms] by blast

theorem features_in_range_witness:
  "length (fst (snd (WebRtcVad_CalculateFeatures vad_demo (replicate 80 1000)))) = 6
     \<and> list_all (\<lambda>x. 176 \<le> x \<and> x \<le> 2294) (fst (snd (WebRtcVad_CalculateFeatures vad_demo (replicate 80 1000))))"
  unfolding list_all_iff
  by (rule features_in_range [of "replicate 80 1000" vad_demo _ _
        "snd (snd (WebRtcVad_CalculateFeatures vad_demo (replicate 80 1000)))"]) (simp_all add: prod_eq_iff)

text \<open>Silent frames in a row: the flags \<open>gmm_hangover\<close> gives.\<close>

fun silent_frames :: "int \<Rightarrow> int \<Rightarrow> nat \<Rightarrow> VadInstT \<Rightarrow> int list" where
  "silent_frames o1 o2 0 self = []"
| "silent_frames o1 o2 (Suc n) self =
     (let (flag, self) = gmm_hangover o1 o2 0 self in flag # silent_frames o1 o2 n self)"

lemma silent_frames_eq:
  assumes "0 \<le> over_hang self" and "over_hang self \<le> 100"
  shows "silent_frames o1 o2 n self
     = map (\<lambda>i. if int i < over_hang self then 2 + over_hang self - int i else 0) [0..<n]"
  using assms
proof (induction n arbitrary: self)
  case (Suc n)
  have up: "[0..<Suc n] = 0 # map Suc [0..<n]" by (simp add: map_Suc_upt del: upt_Suc) (simp add: upt_rec)
  show ?case
  proof (cases "over_hang self > 0")
    case True
    let ?s = "self\<lparr>over_hang := over_hang self - 1, num_of_speech := 0\<rparr>"
    have g: "gmm_hangover o1 o2 0 self = (2 + over_hang self, ?s)"
      using True Suc.prems by (simp add: gmm_hangover_def s16_id)
    have "silent_frames o1 o2 n ?s = map (\<lambda>i. if int i < over_hang ?s then 2 + over_hang ?s - int i else 0) [0..<n]"
      by (rule Suc.IH) (use True Suc.prems in auto)
    then show ?thesis using True unfolding up silent_frames.simps g by (simp add: algebra_simps)
  next
    case False
    let ?s = "self\<lparr>num_of_speech := 0\<rparr>"
    have g: "gmm_hangover o1 o2 0 self = (0, ?s)" using False by (simp add: gmm_hangover_def)
    have "silent_frames o1 o2 n ?s = map (\<lambda>i. if int i < over_hang ?s then 2 + over_hang ?s - int i else 0) [0..<n]"
      by (rule Suc.IH) (use Suc.prems in auto)
    then show ?thesis using False Suc.prems unfolding up silent_frames.simps g by simp
  qed
qed simp

text \<open>C30. The hang-over: a frame judged to be speech loads the hang-over of its run (the longer one after more
  than six speech frames in a row, the shorter one before), and exactly that many of the following silent
  frames are still reported as active, with flags counting down to 3; then silence is reported. The first of these flags is \<open>2 + h\<close>, more than the 6 that
  the comment in \<open>vad_core.h\<close> gives as the largest result.\<close>

theorem hangover_exact:
  assumes "0 \<le> num_of_speech self" and "num_of_speech self \<le> 6" and "flag \<noteq> 0"
    and "0 \<le> o1" and "o1 \<le> 100" and "0 \<le> o2" and "o2 \<le> 100"
    and "h = (if num_of_speech self = 6 then o2 else o1)"
  shows "fst (gmm_hangover o1 o2 flag self) = flag
     \<and> silent_frames o1 o2 n (snd (gmm_hangover o1 o2 flag self))
         = map (\<lambda>i. if int i < h then 2 + h - int i else 0) [0..<n]"
proof -
  have "s16 (num_of_speech self + 1) = num_of_speech self + 1" using assms by (simp add: s16_id)
  then have "over_hang (snd (gmm_hangover o1 o2 flag self)) = h" "fst (gmm_hangover o1 o2 flag self) = flag"
    using assms by (auto simp: gmm_hangover_def Let_def kMaxSpeechFrames_def)
  then show ?thesis using silent_frames_eq [of "snd (gmm_hangover o1 o2 flag self)"] assms by simp
qed

theorem hangover_exact_witness:
  "fst (gmm_hangover 2 5 1 (vad_raw\<lparr>num_of_speech := 3\<rparr>)) = 1
     \<and> silent_frames 2 5 4 (snd (gmm_hangover 2 5 1 (vad_raw\<lparr>num_of_speech := 3\<rparr>))) = [4, 3, 0, 0]"
  using hangover_exact [of "vad_raw\<lparr>num_of_speech := 3\<rparr>" 1 2 5 2 4]
  by (simp add: vad_raw_def numeral_eq_Suc)

text \<open>At 48 kHz the detector only sees the first 10 ms of a frame: the loop over the 10 ms blocks never
  moves on in the input, so two frames of 20 or 30 ms that agree on their first 480 samples get the same
  decision and leave the same state.\<close>

theorem CalcVad48khz_first_10ms:
  assumes "take 480 frame = take 480 frame'"
  shows "WebRtcVad_CalcVad48khz inst frame n = WebRtcVad_CalcVad48khz inst frame' n"
proof -
  have "WebRtcSpl_Resample48khzTo8khz st frame = WebRtcSpl_Resample48khzTo8khz st frame'" for st
    by (simp add: WebRtcSpl_Resample48khzTo8khz_def assms)
  then show ?thesis by (simp add: WebRtcVad_CalcVad48khz_def)
qed

theorem CalcVad48khz_first_10ms_witness:
  "WebRtcVad_CalcVad48khz vad_demo (replicate 480 0 @ replicate 480 0) 960
     = WebRtcVad_CalcVad48khz vad_demo (replicate 480 0 @ replicate 480 30000) 960"
  by (rule CalcVad48khz_first_10ms) simp

end
