(* ===== verification/Byte_Lists.thy ===== *)
theory Byte_Lists
  imports C_Int
begin

text \<open>
  Lists of bytes and the numbers they form in big endian order, shared by the codecs: the arithmetic coder reads
  its stream as such a number, the checksum and the packers of samples read bytes in this order.
\<close>

section \<open>Big endian numbers\<close>

definition bytes :: "int list \<Rightarrow> bool" where
  "bytes xs = list_all is_u8 xs"

definition be :: "int list \<Rightarrow> int" where
  "be xs = foldl (\<lambda>a b. a * 256 + b) 0 xs"

lemma be_Nil [simp]: "be [] = 0" and be_snoc [simp]: "be (xs @ [x]) = be xs * 256 + x"
  by (simp_all add: be_def)

lemma bytes_nth: "bytes xs \<Longrightarrow> i < length xs \<Longrightarrow> 0 \<le> xs ! i \<and> xs ! i \<le> 255"
  by (simp add: bytes_def list_all_length is_u8_def)

lemma bytes_update: "bytes xs \<Longrightarrow> is_u8 b \<Longrightarrow> bytes (xs[i := b])"
  by (auto simp: bytes_def list_all_iff dest: set_update_subset_insert [THEN subsetD])

lemma be_take_Suc: "n < length xs \<Longrightarrow> be (take (Suc n) xs) = be (take n xs) * 256 + xs ! n"
  by (simp add: take_Suc_conv_app_nth)

lemma be_take_bounds: "bytes xs \<Longrightarrow> n \<le> length xs \<Longrightarrow> 0 \<le> be (take n xs) \<and> be (take n xs) < 256 ^ n"
proof (induction n)
  case (Suc n)
  then show ?case using bytes_nth [of xs n] by (auto simp: be_take_Suc)
qed simp

lemma be_take_add:
  assumes "bytes xs" and "n + j \<le> length xs"
  shows "be (take n xs) * 256 ^ j \<le> be (take (n + j) xs)
     \<and> be (take (n + j) xs) < (be (take n xs) + 1) * 256 ^ j"
  using assms(2)
proof (induction j)
  case (Suc j)
  then show ?case using bytes_nth [OF assms(1), of "n + j"] by (auto simp: be_take_Suc)
qed simp

lemma be_take_update [simp]: "n \<le> i \<Longrightarrow> be (take n (xs[i := b])) = be (take n xs)"
  by simp

lemma be_take_Suc_update: "n < length xs \<Longrightarrow> be (take (Suc n) (xs[n := b])) = be (take n xs) * 256 + b"
  by (simp add: be_take_Suc)

lemma bytes_simps [simp]: "bytes []" "bytes (x # xs) \<longleftrightarrow> is_u8 x \<and> bytes xs" "bytes (xs @ ys) \<longleftrightarrow> bytes xs \<and> bytes ys"
  by (simp_all add: bytes_def)

lemma be_bounds: "bytes xs \<Longrightarrow> 0 \<le> be xs \<and> be xs < 256 ^ length xs"
  using be_take_bounds [of xs "length xs"] by simp

lemma be_inj: "bytes xs \<Longrightarrow> bytes ys \<Longrightarrow> length xs = length ys \<Longrightarrow> be xs = be ys \<Longrightarrow> xs = ys"
proof (induction xs arbitrary: ys rule: rev_induct)
  case (snoc x xs)
  then obtain zs y where ys: "ys = zs @ [y]" by (cases ys rule: rev_cases) auto
  have b: "is_u8 x" "is_u8 y" "be xs * 256 + x = be zs * 256 + y" using snoc.prems ys by simp_all
  then have "be xs = be zs" unfolding is_u8_def by linarith
  moreover from this have "x = y" using b(3) by linarith
  moreover have "xs = zs" using snoc.prems ys calculation(1) by (intro snoc.IH) simp_all
  ultimately show ?case using ys by simp
qed simp

end
