(* ===== verification/Isac_Arith.thy ===== *)
theory Isac_Arith
  imports Byte_Lists "HOL-Library.Monad_Syntax"
begin

text \<open>
  The arithmetic coder of the iSAC codec, \<open>modules/audio_coding/codecs/isac/main/source\<close>:
  \<open>arith_routines.c\<close>, \<open>arith_routines_hist.c\<close> and the bit stream structure of \<open>structs.h\<close>.

  The C code keeps the output pointer and the interval width in locals while it codes and writes them back
  at the end of a call; here the fields \<open>stream_index\<close> and \<open>W_upper\<close> of the record play the part of
  the locals. The encoder has no check of the size of the stream buffer, the carry loop none of its beginning,
  and the table look-ups none of the tables' sizes: an access outside an array is the result \<open>None\<close>, and
  that it does not happen is proved. With it the two \<open>while\<close> loops that move the buffer pointer terminate.
\<close>

section \<open>The bit stream\<close>

record Bitstr =
  stream :: "int list"
  W_upper :: int
  streamval :: int
  stream_index :: nat

definition WebRtcIsac_ResetBitstream :: "Bitstr \<Rightarrow> Bitstr" where
  "WebRtcIsac_ResetBitstream bit_stream = bit_stream\<lparr>W_upper := 0xFFFFFFFF, stream_index := 0, streamval := 0\<rparr>"

definition read_array :: "int list \<Rightarrow> int \<Rightarrow> int option" where
  "read_array xs i = (if 0 \<le> i \<and> i < int (length xs) then Some (xs ! nat i) else None)"

text \<open>\<open>while (!(++(*--stream_ptr)));\<close>\<close>

fun propagate_carry :: "int list \<Rightarrow> nat \<Rightarrow> int list option" where
  "propagate_carry st 0 = None"
| "propagate_carry st (Suc i) =
     (let b = u8 (st ! i + 1); st = st[i := b] in if b = 0 then propagate_carry st i else Some st)"

text \<open>The part of the interval width below an entry of a cumulative distribution.\<close>

definition scale_cdf :: "int \<Rightarrow> int \<Rightarrow> int" where
  "scale_cdf W c =
     (let W_LSB = W AND 0x0000FFFF; W_MSB = shr W 16 in u32 (u32 (W_MSB * c) + shr (u32 (W_LSB * c)) 16))"

section \<open>Encoder\<close>

function enc_renorm :: "Bitstr \<Rightarrow> Bitstr option" where
  "enc_renorm s =
     (if W_upper s AND 0xFF000000 = 0
      then if stream_index s < length (stream s)
           then enc_renorm (s\<lparr>W_upper := u32 (shl (W_upper s) 8),
                              stream := (stream s)[stream_index s := u8 (shr (streamval s) 24)],
                              stream_index := stream_index s + 1,
                              streamval := u32 (shl (streamval s) 8)\<rparr>)
           else None
      else Some s)"
  by auto
termination by (relation "measure (\<lambda>s. length (stream s) - stream_index s)") auto

definition enc_narrow :: "int \<Rightarrow> int \<Rightarrow> Bitstr \<Rightarrow> Bitstr option" where
  "enc_narrow cdf_lo cdf_hi s =
     (let W_lower = scale_cdf (W_upper s) cdf_lo;
          W = scale_cdf (W_upper s) cdf_hi;
          W_lower = u32 (W_lower + 1);
          W = u32 (W - W_lower);
          sv = u32 (streamval s + W_lower)
      in do {
        st \<leftarrow> (if sv < W_lower then propagate_carry (stream s) (stream_index s) else Some (stream s));
        Some (s\<lparr>stream := st, W_upper := W, streamval := sv\<rparr>)
      })"

definition enc_interval :: "int \<Rightarrow> int \<Rightarrow> Bitstr \<Rightarrow> Bitstr option" where
  "enc_interval cdf_lo cdf_hi s = do { s \<leftarrow> enc_narrow cdf_lo cdf_hi s; enc_renorm s }"

fun WebRtcIsac_EncHistMulti :: "Bitstr \<Rightarrow> int list \<Rightarrow> int list list \<Rightarrow> nat \<Rightarrow> Bitstr option" where
  "WebRtcIsac_EncHistMulti s ds cdf 0 = Some s"
| "WebRtcIsac_EncHistMulti s (d # ds) (c # cdf) (Suc k) = do {
     cdf_lo \<leftarrow> read_array c d;
     cdf_hi \<leftarrow> read_array c (d + 1);
     s \<leftarrow> enc_interval cdf_lo cdf_hi s;
     WebRtcIsac_EncHistMulti s ds cdf k
   }"
| "WebRtcIsac_EncHistMulti s _ _ (Suc k) = None"

definition write_byte :: "int list \<Rightarrow> nat \<Rightarrow> int \<Rightarrow> int list option" where
  "write_byte st i b = (if i < length st then Some (st[i := b]) else None)"

definition WebRtcIsac_EncTerminate :: "Bitstr \<Rightarrow> (int \<times> Bitstr) option" where
  "WebRtcIsac_EncTerminate s =
     (let ptr = stream_index s in
      if W_upper s > 0x01FFFFFF
      then let sv = u32 (streamval s + 0x01000000) in do {
        st \<leftarrow> (if sv < 0x01000000 then propagate_carry (stream s) ptr else Some (stream s));
        st \<leftarrow> write_byte st ptr (u8 (shr sv 24));
        Some (int (ptr + 1), s\<lparr>stream := st, streamval := sv\<rparr>)
      }
      else let sv = u32 (streamval s + 0x00010000) in do {
        st \<leftarrow> (if sv < 0x00010000 then propagate_carry (stream s) ptr else Some (stream s));
        st \<leftarrow> write_byte st ptr (u8 (shr sv 24));
        st \<leftarrow> write_byte st (ptr + 1) (u8 (shr sv 16 AND 0x00FF));
        Some (int (ptr + 2), s\<lparr>stream := st, streamval := sv\<rparr>)
      })"

section \<open>Decoder\<close>

text \<open>The locals \<open>stream_ptr\<close>, \<open>W_upper\<close> and \<open>streamval\<close> of a decoder; the pointer is at the byte
  read last.\<close>

type_synonym dec_regs = "nat \<times> int \<times> int"

definition dec_start :: "Bitstr \<Rightarrow> dec_regs option" where
  "dec_start s =
     (if stream_index s = 0
      then do {
        b0 \<leftarrow> read_array (stream s) 0;
        b1 \<leftarrow> read_array (stream s) 1;
        b2 \<leftarrow> read_array (stream s) 2;
        b3 \<leftarrow> read_array (stream s) 3;
        Some (3, W_upper s, u32 (shl b0 24) OR u32 (shl b1 16) OR u32 (shl b2 8) OR b3)
      }
      else Some (stream_index s, W_upper s, streamval s))"

function dec_renorm :: "int list \<Rightarrow> dec_regs \<Rightarrow> dec_regs option" where
  "dec_renorm st (ptr, W, sv) =
     (if W AND 0xFF000000 = 0
      then if ptr + 1 < length st
           then dec_renorm st (ptr + 1, u32 (shl W 8), u32 (shl sv 8) OR st ! (ptr + 1))
           else None
      else Some (ptr, W, sv))"
  by auto
termination by (relation "measure (\<lambda>(st, ptr, _). length st - ptr)") auto

text \<open>\<open>W_upper -= ++W_lower; streamval -= W_lower;\<close> and the renormalisation.\<close>

definition dec_shift :: "int list \<Rightarrow> int \<Rightarrow> dec_regs \<Rightarrow> dec_regs option" where
  "dec_shift st W_lower r =
     (case r of (ptr, W, sv) \<Rightarrow>
        let W_lower = u32 (W_lower + 1) in dec_renorm st (ptr, u32 (W - W_lower), u32 (sv - W_lower)))"

text \<open>The bisection loop: the last value of \<open>W_tmp\<close>, the table position, and the two bounds.\<close>

function bisect_loop ::
    "int list \<Rightarrow> int \<Rightarrow> int \<Rightarrow> int \<Rightarrow> nat \<Rightarrow> int \<Rightarrow> int \<Rightarrow> (int \<times> int \<times> int \<times> int) option" where
  "bisect_loop cdf W sv ptr size_tmp W_lower W_up =
     (case read_array cdf ptr of None \<Rightarrow> None
      | Some c \<Rightarrow>
          let W_tmp = scale_cdf W c; size_tmp2 = size_tmp div 2 in
          if size_tmp2 = 0 then Some (W_tmp, ptr, W_lower, W_up)
          else if sv > W_tmp then bisect_loop cdf W sv (ptr + int size_tmp2) size_tmp2 W_tmp W_up
          else bisect_loop cdf W sv (ptr - int size_tmp2) size_tmp2 W_lower W_tmp)"
  by auto
termination by (relation "measure (\<lambda>(_, _, _, _, n, _, _). n)") auto

definition bisect_symbol ::
    "int list \<Rightarrow> nat \<Rightarrow> int \<Rightarrow> int \<Rightarrow> int \<Rightarrow> (int \<times> int \<times> int) option" where
  "bisect_symbol cdf cdf_size W_lower W sv = do {
     (W_tmp, ptr, W_lower, W_up) \<leftarrow>
       bisect_loop cdf W sv (int (cdf_size div 2) - 1) (cdf_size div 2) W_lower W;
     if sv > W_tmp then Some (ptr, W_tmp, W_up) else Some (ptr - 1, W_lower, W_tmp)
   }"

text \<open>The symbol loops return the code of an early return, 0 at the end, with the symbols written so far.\<close>

fun bisect_multi ::
    "int list \<Rightarrow> int list list \<Rightarrow> nat list \<Rightarrow> nat \<Rightarrow> int \<Rightarrow> dec_regs \<Rightarrow> (int \<times> int list \<times> dec_regs) option" where
  "bisect_multi st cdf cdf_size 0 W_lower r = Some (0, [], r)"
| "bisect_multi st (c # cdf) (n # cdf_size) (Suc k) W_lower (ptr, W, sv) = do {
     (d, W_lower, W_up) \<leftarrow> bisect_symbol c n W_lower W sv;
     (ptr, W, sv) \<leftarrow> dec_shift st W_lower (ptr, W_up, sv);
     if W = 0 then Some (-2, [d], (ptr, W, sv))
     else do {
       (e, ds, r) \<leftarrow> bisect_multi st cdf cdf_size k (u32 (W_lower + 1)) (ptr, W, sv);
       Some (e, d # ds, r)
     }
   }"
| "bisect_multi st _ _ (Suc k) W_lower r = None"

definition dec_finish :: "Bitstr \<Rightarrow> int \<times> int list \<times> dec_regs \<Rightarrow> int \<times> int list \<times> Bitstr" where
  "dec_finish s res =
     (case res of (e, ds, ptr, W, sv) \<Rightarrow>
        if e \<noteq> 0 then (e, ds, s)
        else (if W > 0x01FFFFFF then int ptr - 2 else int ptr - 1, ds,
              s\<lparr>stream_index := ptr, W_upper := W, streamval := sv\<rparr>))"

definition WebRtcIsac_DecHistBisectMulti ::
    "Bitstr \<Rightarrow> int list list \<Rightarrow> nat list \<Rightarrow> nat \<Rightarrow> (int \<times> int list \<times> Bitstr) option" where
  "WebRtcIsac_DecHistBisectMulti s cdf cdf_size N =
     (if W_upper s = 0 then Some (-2, [], s)
      else do {
        r \<leftarrow> dec_start s;
        res \<leftarrow> bisect_multi (stream s) cdf cdf_size N 0 r;
        Some (dec_finish s res)
      })"

text \<open>The two search loops of the single step decoder: \<open>Inl\<close> is the range error.\<close>

function step_up :: "int list \<Rightarrow> int \<Rightarrow> int \<Rightarrow> int \<Rightarrow> int \<Rightarrow> (int + int \<times> int \<times> int) option" where
  "step_up cdf W sv ptr W_tmp =
     (case read_array cdf ptr of None \<Rightarrow> None
      | Some c0 \<Rightarrow>
          let W_lower = W_tmp in
          if c0 = 65535 then Some (Inl (-3))
          else (case read_array cdf (ptr + 1) of None \<Rightarrow> None
                | Some c \<Rightarrow>
                    let W_tmp2 = scale_cdf W c in
                    if sv \<le> W_tmp2 then Some (Inr (ptr + 1 - 1, W_lower, W_tmp2))
                    else step_up cdf W sv (ptr + 1) W_tmp2))"
  by auto
termination
  by (relation "measure (\<lambda>(cdf, _, _, ptr, _). nat (int (length cdf) - ptr))")
    (auto simp: read_array_def split: if_splits)

function step_down :: "int list \<Rightarrow> int \<Rightarrow> int \<Rightarrow> int \<Rightarrow> int \<Rightarrow> (int + int \<times> int \<times> int) option" where
  "step_down cdf W sv ptr W_tmp =
     (let W_up = W_tmp; ptr2 = ptr - 1 in
      if ptr2 < 0 then Some (Inl (-3))
      else case read_array cdf ptr2 of None \<Rightarrow> None
      | Some c \<Rightarrow>
          let W_tmp2 = scale_cdf W c in
          if sv > W_tmp2 then Some (Inr (ptr2, W_tmp2, W_up)) else step_down cdf W sv ptr2 W_tmp2)"
  by auto
termination by (relation "measure (\<lambda>(_, _, _, ptr, _). nat ptr)") auto

definition one_step_symbol :: "int list \<Rightarrow> nat \<Rightarrow> int \<Rightarrow> int \<Rightarrow> (int + int \<times> int \<times> int) option" where
  "one_step_symbol cdf init W sv = do {
     c \<leftarrow> read_array cdf (int init);
     let W_tmp = scale_cdf W c in
     if sv > W_tmp then step_up cdf W sv (int init) W_tmp else step_down cdf W sv (int init) W_tmp
   }"

fun one_step_multi ::
    "int list \<Rightarrow> int list list \<Rightarrow> nat list \<Rightarrow> nat \<Rightarrow> dec_regs \<Rightarrow> (int \<times> int list \<times> dec_regs) option" where
  "one_step_multi st cdf init_index 0 r = Some (0, [], r)"
| "one_step_multi st (c # cdf) (i # init_index) (Suc k) (ptr, W, sv) = do {
     symbol \<leftarrow> one_step_symbol c i W sv;
     (case symbol of
        Inl e \<Rightarrow> Some (e, [], (ptr, W, sv))
      | Inr (d, W_lower, W_up) \<Rightarrow> do {
          r \<leftarrow> dec_shift st W_lower (ptr, W_up, sv);
          (e, ds, r) \<leftarrow> one_step_multi st cdf init_index k r;
          Some (e, d # ds, r)
        })
   }"
| "one_step_multi st _ _ (Suc k) r = None"

definition WebRtcIsac_DecHistOneStepMulti ::
    "Bitstr \<Rightarrow> int list list \<Rightarrow> nat list \<Rightarrow> nat \<Rightarrow> (int \<times> int list \<times> Bitstr) option" where
  "WebRtcIsac_DecHistOneStepMulti s cdf init_index N =
     (if W_upper s = 0 then Some (-2, [], s)
      else do {
        r \<leftarrow> dec_start s;
        res \<leftarrow> one_step_multi (stream s) cdf init_index N r;
        Some (dec_finish s res)
      })"


declare enc_renorm.simps [simp del] dec_renorm.simps [simp del] bisect_loop.simps [simp del]
  step_up.simps [simp del] step_down.simps [simp del]

section \<open>The carry\<close>

lemma propagate_carry_spec:
  assumes "bytes st" and "i \<le> length st" and "be (take i st) + 1 < 256 ^ i"
  shows "\<exists>st'. propagate_carry st i = Some st' \<and> bytes st' \<and> length st' = length st
     \<and> be (take i st') = be (take i st) + 1 \<and> drop i st' = drop i st"
  using assms
proof (induction st i rule: propagate_carry.induct)
  case (2 st i)
  have b: "0 \<le> st ! i" "st ! i \<le> 255" using 2 bytes_nth [of st i] by auto
  show ?case
  proof (cases "st ! i = 255")
    case True
    let ?st = "st[i := 0]"
    have u: "u8 (st ! i + 1) = 0" using True by (simp add: u8_def)
    have "be (take i st) * 256 + 256 < 256 ^ Suc i" using "2.prems" True by (simp add: be_take_Suc)
    then have "be (take i ?st) + 1 < 256 ^ i" by simp
    moreover have "bytes ?st" using "2.prems" by (simp add: bytes_update is_u8_def)
    ultimately obtain st' where st': "propagate_carry ?st i = Some st'" "bytes st'" "length st' = length ?st"
        "be (take i st') = be (take i ?st) + 1" "drop i st' = drop i ?st"
      using "2.IH" [of 0 ?st] "2.prems" u by auto
    have "st' ! i # drop (Suc i) st' = ?st ! i # drop (Suc i) ?st"
      using st'(3,5) "2.prems"(2) by (simp only: Cons_nth_drop_Suc length_list_update Suc_le_eq)
    then have "st' ! i = 0" and "drop (Suc i) st' = drop (Suc i) st" using "2.prems"(2) by simp_all
    then show ?thesis using st' u True "2.prems" by (auto simp: be_take_Suc)
  next
    case False
    then have "u8 (st ! i + 1) = st ! i + 1" using b by (simp add: u8_id)
    moreover have "is_u8 (st ! i + 1)" using b False by (simp add: is_u8_def)
    ultimately show ?thesis using "2.prems" b by (simp add: be_take_Suc bytes_update be_take_Suc_update)
  qed
qed simp

section \<open>The interval of the encoder\<close>

lemma scale_cdf_eq:
  assumes "0 \<le> W" and "W < 2 ^ 32" and "0 \<le> c" and "c \<le> 65535"
  shows "scale_cdf W c = W * c div 65536"
proof -
  let ?m = "W div 65536" and ?l = "W mod 65536"
  have W: "W = ?m * 65536 + ?l" by simp
  have m: "0 \<le> ?m" "?m \<le> 65535" using assms by (simp_all add: div_less_iff flip: zle_add1_eq_le)
  have l: "0 \<le> ?l" "?l \<le> 65535" using pos_mod_bound [of 65536 W] by simp_all
  have mc: "0 \<le> ?m * c" "?m * c \<le> 65535 * 65535" using m assms by (simp, intro mult_mono) auto
  have lc: "0 \<le> ?l * c" "?l * c \<le> 65535 * 65535" using l assms by (simp, intro mult_mono) auto
  have d: "0 \<le> ?l * c div 65536" "?l * c div 65536 \<le> 65535" using lc by (simp_all add: div_less_iff flip: zle_add1_eq_le)
  have "W * c = ?l * c + ?m * c * 65536" by (subst W) (simp only: algebra_simps)
  then have "W * c div 65536 = ?l * c div 65536 + ?m * c" by simp
  then show ?thesis
    using mc lc d and_low_mask [of W 16]
    by (simp add: scale_cdf_def shr_def u32_id)
qed

definition enc_pos :: "Bitstr \<Rightarrow> int" where
  "enc_pos s = be (take (stream_index s) (stream s)) * 2 ^ 32 + streamval s"

definition enc_ok :: "int \<Rightarrow> Bitstr \<Rightarrow> bool" where
  "enc_ok w s \<longleftrightarrow> bytes (stream s) \<and> stream_index s \<le> length (stream s) \<and> 0 \<le> streamval s
     \<and> streamval s < 2 ^ 32 \<and> w \<le> W_upper s \<and> W_upper s < 2 ^ 32
     \<and> enc_pos s + W_upper s < 256 ^ (stream_index s + 4)"

definition enc_renorm_step :: "Bitstr \<Rightarrow> Bitstr" where
  "enc_renorm_step s = s\<lparr>W_upper := u32 (shl (W_upper s) 8),
     stream := (stream s)[stream_index s := u8 (shr (streamval s) 24)],
     stream_index := stream_index s + 1, streamval := u32 (shl (streamval s) 8)\<rparr>"

lemma top_byte_0: "0 \<le> (W :: int) \<Longrightarrow> W < 2 ^ 32 \<Longrightarrow> W AND 0xFF000000 = 0 \<longleftrightarrow> W < 2 ^ 24"
  using and_high_mask_eq_0 [of 24 32 W] by (simp add: and.commute)

lemma enc_renorm_eq:
  assumes "enc_ok 1 s"
  shows "enc_renorm s = (if W_upper s < 2 ^ 24
     then if stream_index s < length (stream s) then enc_renorm (enc_renorm_step s) else None else Some s)"
  using assms top_byte_0 [of "W_upper s"]
  by (subst enc_renorm.simps) (simp add: enc_renorm_step_def enc_ok_def)

lemma enc_renorm_step_spec:
  assumes "enc_ok 1 s" and "W_upper s < 2 ^ 24" and "stream_index s < length (stream s)"
  shows "enc_ok 1 (enc_renorm_step s) \<and> enc_pos (enc_renorm_step s) = enc_pos s * 256
     \<and> W_upper (enc_renorm_step s) = W_upper s * 256 \<and> stream_index (enc_renorm_step s) = stream_index s + 1
     \<and> length (stream (enc_renorm_step s)) = length (stream s)"
proof -
  let ?sv = "streamval s"
  have sv: "0 \<le> ?sv" "?sv < 2 ^ 32" and W: "1 \<le> W_upper s"
    and pos: "enc_pos s + W_upper s < 256 ^ (stream_index s + 4)"
    and b: "bytes (stream s)" using assms(1) by (simp_all add: enc_ok_def)
  have "?sv div 2 ^ 24 < 2 ^ 8" using sv by (simp add: div_less_iff)
  then have top: "u8 (shr ?sv 24) = ?sv div 2 ^ 24" using sv by (simp add: shr_def u8_id)
  have low: "u32 (shl ?sv 8) = (?sv mod 2 ^ 24) * 256"
    using mult_mod_right [of 256 ?sv "2 ^ 24"] by (simp add: u32_def shl_def mult.commute)
  have w: "u32 (shl (W_upper s) 8) = W_upper s * 256" using W assms(2) by (simp add: u32_id shl_def)
  have m: "0 \<le> ?sv mod 2 ^ 24" "?sv mod 2 ^ 24 < 2 ^ 24" by simp_all
  have "?sv div 2 ^ 24 * 2 ^ 24 * 256 + ?sv mod 2 ^ 24 * 256 = ?sv * 256"
    by (simp only: div_mult_mod_eq flip: distrib_right)
  moreover have "enc_pos (enc_renorm_step s)
      = (be (take (stream_index s) (stream s)) * 256 + ?sv div 2 ^ 24) * 2 ^ 32 + ?sv mod 2 ^ 24 * 256"
    using assms(3) by (simp add: enc_pos_def enc_renorm_step_def top low be_take_Suc)
  ultimately have p: "enc_pos (enc_renorm_step s) = enc_pos s * 256" unfolding enc_pos_def
    by (simp only: distrib_right mult.assoc) simp
  have "256 * (enc_pos s + W_upper s) < 256 * 256 ^ (stream_index s + 4)" using pos by (intro mult_strict_left_mono) auto
  then have "enc_pos (enc_renorm_step s) + W_upper s * 256 < 256 ^ (stream_index s + 1 + 4)"
    unfolding p by (simp add: power_add distrib_left mult.commute)
  then show ?thesis using p assms W m b w low
    by (auto simp: enc_ok_def enc_renorm_step_def bytes_update)
qed

lemma enc_renorm_spec:
  assumes "enc_ok 1 s" and "enc_renorm s = Some s'"
  shows "enc_ok (2 ^ 24) s' \<and> length (stream s') = length (stream s)
     \<and> (\<exists>j. stream_index s' = stream_index s + j \<and> enc_pos s' = enc_pos s * 256 ^ j \<and> W_upper s' = W_upper s * 256 ^ j)"
  using assms
proof (induction s rule: enc_renorm.induct)
  case (1 s)
  show ?case
  proof (cases "W_upper s < 2 ^ 24")
    case True
    then have i: "stream_index s < length (stream s)" and e: "enc_renorm (enc_renorm_step s) = Some s'"
      using "1.prems" by (simp_all add: enc_renorm_eq split: if_splits)
    note st = enc_renorm_step_spec [OF "1.prems"(1) True i]
    have "W_upper s AND 0xFF000000 = 0" using True "1.prems"(1) top_byte_0 [of "W_upper s"] by (simp add: enc_ok_def)
    with "1.IH" i e st obtain j where "enc_ok (2 ^ 24) s'" "length (stream s') = length (stream s)"
        "stream_index s' = stream_index s + 1 + j" "enc_pos s' = enc_pos s * 256 * 256 ^ j"
        "W_upper s' = W_upper s * 256 * 256 ^ j"
      unfolding enc_renorm_step_def by fastforce
    then show ?thesis by (auto intro!: exI [of _ "Suc j"])
  next
    case False
    then have "s' = s" using "1.prems" by (simp add: enc_renorm_eq)
    then show ?thesis using False "1.prems"(1) by (auto simp: enc_ok_def)
  qed
qed


text \<open>With \<open>m\<close> free bytes the loop ends when \<open>m\<close> shifts by 8 normalise the width.\<close>

lemma enc_renorm_room:
  assumes "enc_ok 1 s" and "2 ^ 24 \<le> W_upper s * 256 ^ m" and "stream_index s + m \<le> length (stream s)"
  shows "\<exists>s'. enc_renorm s = Some s' \<and> stream_index s' \<le> stream_index s + m"
  using assms
proof (induction m arbitrary: s)
  case (Suc m)
  show ?case
  proof (cases "W_upper s < 2 ^ 24")
    case True
    note st = enc_renorm_step_spec [OF Suc.prems(1) True]
    have "\<exists>s'. enc_renorm (enc_renorm_step s) = Some s' \<and> stream_index s' \<le> stream_index (enc_renorm_step s) + m"
      using st Suc.prems by (intro Suc.IH) (auto simp: mult.assoc)
    then show ?thesis using True st Suc.prems by (auto simp: enc_renorm_eq)
  qed (use Suc.prems(1) enc_renorm_eq in auto)
qed (auto simp: enc_renorm_eq)

text \<open>Adding to the stream, with the carry into the bytes already written.\<close>

definition add_carry :: "Bitstr \<Rightarrow> int \<Rightarrow> int list option" where
  "add_carry s v =
     (if u32 (streamval s + v) < v then propagate_carry (stream s) (stream_index s) else Some (stream s))"

lemma add_carry_spec:
  assumes "enc_ok w s" and "0 < v" and "v < 2 ^ 32" and "v \<le> W_upper s"
  shows "\<exists>st. add_carry s v = Some st \<and> bytes st \<and> length st = length (stream s)
     \<and> be (take (stream_index s) st) * 2 ^ 32 + u32 (streamval s + v) = enc_pos s + v"
proof -
  let ?i = "stream_index s" and ?sv = "streamval s" and ?B = "be (take (stream_index s) (stream s))"
  have b: "bytes (stream s)" "?i \<le> length (stream s)" and sv: "0 \<le> ?sv" "?sv < 2 ^ 32"
    and pos: "enc_pos s + W_upper s < 256 ^ (?i + 4)"
    using assms(1) by (simp_all add: enc_ok_def)
  show ?thesis
  proof (cases "?sv + v < 2 ^ 32")
    case True
    then have "u32 (?sv + v) = ?sv + v" using sv assms by (simp add: u32_id)
    then show ?thesis using b sv by (simp add: add_carry_def enc_pos_def)
  next
    case False
    then have v: "u32 (?sv + v) = ?sv + v - 2 ^ 32" using sv assms
      using u32_period [of "?sv + v - 2 ^ 32" 1] by (simp add: u32_id add.commute)
    have "?B * 2 ^ 32 + 2 ^ 32 < 256 ^ (?i + 4)" using pos False assms by (simp add: enc_pos_def)
    then have "?B + 1 < 256 ^ ?i" by (simp add: power_add)
    from propagate_carry_spec [OF b this] obtain st where "propagate_carry (stream s) ?i = Some st" "bytes st"
        "length st = length (stream s)" "be (take ?i st) = ?B + 1" by blast
    moreover have "u32 (?sv + v) < v" using v sv by simp
    ultimately show ?thesis using v by (simp add: add_carry_def enc_pos_def)
  qed
qed

text \<open>The state between the carry and the renormalisation.\<close>

definition narrowed :: "Bitstr \<Rightarrow> int \<Rightarrow> int \<Rightarrow> int list \<Rightarrow> Bitstr" where
  "narrowed s wl wh st = s\<lparr>stream := st, W_upper := wh - wl - 1, streamval := u32 (streamval s + wl + 1)\<rparr>"

lemma narrowed_simps [simp]:
  "stream_index (narrowed s wl wh st) = stream_index s" "W_upper (narrowed s wl wh st) = wh - wl - 1"
  "stream (narrowed s wl wh st) = st"
  by (simp_all add: narrowed_def)

lemma enc_narrow_spec:
  assumes "enc_ok (2 ^ 24) s" and "0 \<le> lo" and "lo < hi" and "hi \<le> 65535"
  defines "wl \<equiv> W_upper s * lo div 65536" and "wh \<equiv> W_upper s * hi div 65536"
  shows "scale_cdf (W_upper s) lo = wl \<and> scale_cdf (W_upper s) hi = wh \<and> 0 \<le> wl \<and> wl + 256 \<le> wh \<and> wh < W_upper s
     \<and> (\<exists>st. enc_narrow lo hi s = Some (narrowed s wl wh st) \<and> enc_ok 1 (narrowed s wl wh st)
          \<and> length st = length (stream s) \<and> enc_pos (narrowed s wl wh st) = enc_pos s + wl + 1)"
proof -
  let ?W = "W_upper s" and ?i = "stream_index s" and ?sv = "streamval s"
  have W: "2 ^ 24 \<le> ?W" "?W < 2 ^ 32" and b: "bytes (stream s)" "?i \<le> length (stream s)"
    and sv: "0 \<le> ?sv" "?sv < 2 ^ 32" and pos: "enc_pos s + ?W < 256 ^ (?i + 4)"
    using assms(1) by (simp_all add: enc_ok_def)
  have sc: "scale_cdf ?W lo = wl" "scale_cdf ?W hi = wh" using W assms by (simp_all add: scale_cdf_eq)
  have "?W * 1 \<le> ?W * (hi - lo)" using W assms by (intro mult_left_mono) auto
  then have "?W * lo + 256 * 65536 \<le> ?W * hi" using W by (simp add: algebra_simps)
  then have "(?W * lo + 256 * 65536) div 65536 \<le> wh" unfolding wh_def by (rule zdiv_mono1) simp
  then have gap: "wl + 256 \<le> wh" unfolding wl_def by simp
  have wl0: "0 \<le> wl" using W assms(2) unfolding wl_def by (simp add: pos_imp_zdiv_nonneg_iff)
  have "?W * hi \<le> ?W * 65535" using W assms by (intro mult_left_mono) auto
  then have whW: "wh < ?W" using W by (simp add: wh_def div_less_iff)
  have u: "u32 (wl + 1) = wl + 1" "u32 (wh - (wl + 1)) = wh - wl - 1" using gap wl0 whW W by (simp_all add: u32_id)
  from add_carry_spec [OF assms(1), of "wl + 1"] gap wl0 whW W obtain st where
    st: "add_carry s (wl + 1) = Some st" "bytes st" "length st = length (stream s)"
      "be (take ?i st) * 2 ^ 32 + u32 (?sv + wl + 1) = enc_pos s + wl + 1" by (auto simp: add.assoc)
  let ?s = "narrowed s wl wh st"
  have p: "enc_pos ?s = enc_pos s + wl + 1" using st(4)
    unfolding enc_pos_def [of ?s] by (simp add: narrowed_def)
  have ok: "enc_ok 1 ?s"
    unfolding enc_ok_def p using st b gap whW wl0 W pos is_u32_u32 [of "?sv + wl + 1"]
    by (auto simp: is_u32_def narrowed_def)
  have "enc_narrow lo hi s = Some ?s"
    using st(1) by (simp add: enc_narrow_def narrowed_def add_carry_def sc u add.assoc)
  then show ?thesis using sc wl0 gap whW p ok st(3) by blast
qed

lemma enc_interval_spec:
  assumes "enc_ok (2 ^ 24) s" and "0 \<le> lo" and "lo < hi" and "hi \<le> 65535"
  defines "wl \<equiv> W_upper s * lo div 65536" and "wh \<equiv> W_upper s * hi div 65536"
  shows "scale_cdf (W_upper s) lo = wl \<and> scale_cdf (W_upper s) hi = wh \<and> 0 \<le> wl \<and> wl + 256 \<le> wh \<and> wh < W_upper s
     \<and> (\<exists>st. enc_interval lo hi s = enc_renorm (narrowed s wl wh st) \<and> enc_ok 1 (narrowed s wl wh st)
          \<and> length st = length (stream s) \<and> enc_pos (narrowed s wl wh st) = enc_pos s + wl + 1)"
  using enc_narrow_spec [OF assms(1-4)] unfolding wl_def wh_def enc_interval_def by fastforce

section \<open>The decoder follows the encoder\<close>

text \<open>The number formed by the bytes the decoder has read when the encoder is at position \<open>n\<close>, and that
  it lies in the interval of the encoder.\<close>

definition dec_word :: "int list \<Rightarrow> nat \<Rightarrow> int" where
  "dec_word buf n = be (take (n + 4) buf)"

definition inside :: "int list \<Rightarrow> Bitstr \<Rightarrow> bool" where
  "inside buf s \<longleftrightarrow> bytes buf \<and> stream_index s + 4 \<le> length buf
     \<and> enc_pos s \<le> dec_word buf (stream_index s) \<and> dec_word buf (stream_index s) \<le> enc_pos s + W_upper s"

definition dec_state :: "int list \<Rightarrow> Bitstr \<Rightarrow> dec_regs" where
  "dec_state buf s = (stream_index s + 3, W_upper s, dec_word buf (stream_index s) - enc_pos s)"

lemma inside_shift:
  assumes "inside buf s'" and "stream_index s' = stream_index s + j"
    and "enc_pos s' = enc_pos s * 256 ^ j" and "W_upper s' = W_upper s * 256 ^ j"
  shows "inside buf s"
proof -
  let ?n = "stream_index s"
  have b: "bytes buf" "?n + 4 + j \<le> length buf"
    and lo: "enc_pos s * 256 ^ j \<le> dec_word buf (?n + j)"
    and hi: "dec_word buf (?n + j) \<le> (enc_pos s + W_upper s) * 256 ^ j"
    using assms by (simp_all add: inside_def distrib_right)
  have w: "dec_word buf ?n * 256 ^ j \<le> dec_word buf (?n + j)" "dec_word buf (?n + j) < (dec_word buf ?n + 1) * 256 ^ j"
    using be_take_add [OF b] unfolding dec_word_def by (simp_all only: add.assoc add.commute [of 4 j])
  have "enc_pos s * 256 ^ j < (dec_word buf ?n + 1) * 256 ^ j" using lo w(2) by (rule le_less_trans)
  moreover have "dec_word buf ?n * 256 ^ j \<le> (enc_pos s + W_upper s) * 256 ^ j" using w(1) hi by (rule order_trans)
  ultimately show ?thesis using b by (simp add: inside_def)
qed

lemma inside_enc_renorm:
  "enc_ok 1 s \<Longrightarrow> enc_renorm s = Some s' \<Longrightarrow> inside buf s' \<Longrightarrow> inside buf s"
  using enc_renorm_spec [of s s'] inside_shift [of buf s' s] by blast

lemma dec_renorm_follows:
  assumes "enc_ok 1 s" and "enc_renorm s = Some s'" and "inside buf s'"
  shows "dec_renorm buf (dec_state buf s) = Some (dec_state buf s')"
  using assms
proof (induction s rule: enc_renorm.induct)
  case (1 s)
  let ?n = "stream_index s"
  have W: "W_upper s AND 0xFF000000 = 0 \<longleftrightarrow> W_upper s < 2 ^ 24" "0 \<le> W_upper s"
    using "1.prems"(1) top_byte_0 [of "W_upper s"] by (simp_all add: enc_ok_def)
  show ?case
  proof (cases "W_upper s < 2 ^ 24")
    case True
    then have i: "?n < length (stream s)" and e: "enc_renorm (enc_renorm_step s) = Some s'"
      using "1.prems" by (simp_all add: enc_renorm_eq split: if_splits)
    note st = enc_renorm_step_spec [OF "1.prems"(1) True i]
    have in1: "inside buf (enc_renorm_step s)" using inside_enc_renorm e st "1.prems"(3) by blast
    have in0: "inside buf s" using inside_enc_renorm "1.prems" by blast
    have len: "?n + 4 < length buf" and byt: "bytes buf" using in1 st by (simp_all add: inside_def)
    let ?sv = "dec_word buf ?n - enc_pos s"
    have sv: "0 \<le> ?sv" "?sv < 2 ^ 24" using in0 True by (simp_all add: inside_def)
    have byte: "0 \<le> buf ! (?n + 4)" "buf ! (?n + 4) \<le> 255" using bytes_nth [OF byt len] by simp_all
    have "u32 (shl ?sv 8) OR buf ! (?n + 4) = ?sv * 256 + buf ! (?n + 4)"
      using sv byte or_high_bits [of "buf ! (?n + 4)" 8 ?sv] by (simp add: u32_id shl_def)
    also have "\<dots> = dec_word buf (?n + 1) - enc_pos s * 256"
      using be_take_Suc [OF len] by (simp add: dec_word_def algebra_simps)
    finally have "dec_renorm buf (dec_state buf s) = dec_renorm buf (dec_state buf (enc_renorm_step s))"
      using True W len st by (subst dec_state_def, subst dec_renorm.simps)
        (simp add: dec_state_def shl_def u32_id numeral_eq_Suc)
    moreover have "dec_renorm buf (dec_state buf (enc_renorm_step s)) = Some (dec_state buf s')"
      using "1.IH" W(1) True i e st "1.prems"(3) unfolding enc_renorm_step_def by blast
    ultimately show ?thesis by simp
  next
    case False
    then have "s' = s" using "1.prems" by (simp add: enc_renorm_eq)
    then show ?thesis using False W by (simp add: dec_state_def dec_renorm.simps)
  qed
qed

text \<open>The step lemma: if the decoder's word lies in the interval after a symbol, it lies in the one before,
  between the scaled table entries of the symbol, and the decoder's shift follows the encoder.\<close>

lemma enc_interval_follows:
  assumes "enc_ok (2 ^ 24) s" and "0 \<le> lo" and "lo < hi" and "hi \<le> 65535"
    and "enc_interval lo hi s = Some s'"
  shows "enc_ok (2 ^ 24) s' \<and> length (stream s') = length (stream s)
     \<and> (inside buf s' \<longrightarrow> inside buf s
        \<and> scale_cdf (W_upper s) lo < dec_word buf (stream_index s) - enc_pos s
        \<and> dec_word buf (stream_index s) - enc_pos s \<le> scale_cdf (W_upper s) hi
        \<and> dec_shift buf (scale_cdf (W_upper s) lo)
            (stream_index s + 3, scale_cdf (W_upper s) hi, dec_word buf (stream_index s) - enc_pos s)
            = Some (dec_state buf s'))"
proof -
  let ?l = "scale_cdf (W_upper s) lo" and ?h = "scale_cdf (W_upper s) hi" and ?n = "stream_index s"
  from enc_interval_spec [OF assms(1-4)] obtain st where
    l: "0 \<le> ?l" "?l + 256 \<le> ?h" "?h < W_upper s" and len: "length st = length (stream s)"
    and e: "enc_interval lo hi s = enc_renorm (narrowed s ?l ?h st)"
    and ok: "enc_ok 1 (narrowed s ?l ?h st)" and pos: "enc_pos (narrowed s ?l ?h st) = enc_pos s + ?l + 1" by metis
  let ?s = "narrowed s ?l ?h st"
  have r: "enc_renorm ?s = Some s'" using e assms(5) by simp
  have W: "W_upper s < 2 ^ 32" using assms(1) by (simp add: enc_ok_def)
  have "inside buf s \<and> ?l < dec_word buf ?n - enc_pos s \<and> dec_word buf ?n - enc_pos s \<le> ?h
      \<and> dec_shift buf ?l (?n + 3, ?h, dec_word buf ?n - enc_pos s) = Some (dec_state buf s')" if "inside buf s'"
  proof -
    have in1: "inside buf ?s" using inside_enc_renorm [OF ok r that] .
    then have w: "enc_pos s + ?l + 1 \<le> dec_word buf ?n" "dec_word buf ?n \<le> enc_pos s + ?h" and "bytes buf" "?n + 4 \<le> length buf"
      unfolding inside_def pos by (simp_all add: narrowed_def)
    moreover have "dec_shift buf ?l (?n + 3, ?h, dec_word buf ?n - enc_pos s) = dec_renorm buf (dec_state buf ?s)"
      using l w W by (simp add: dec_shift_def dec_state_def pos u32_id algebra_simps)
    ultimately show ?thesis using dec_renorm_follows [OF ok r that] l by (auto simp: inside_def)
  qed
  then show ?thesis using enc_renorm_spec [OF ok r] len by simp
qed


section \<open>The table searches\<close>

text \<open>What a cumulative table must be for the symbol \<open>d\<close> to be coded: 16 bit entries in order, and a symbol
  of positive probability.\<close>

definition codable :: "int list \<Rightarrow> int \<Rightarrow> bool" where
  "codable cdf d \<longleftrightarrow> list_all is_u16 cdf \<and> sorted cdf \<and> 0 \<le> d \<and> d + 1 < int (length cdf)
     \<and> cdf ! nat d < cdf ! nat (d + 1)"

definition in_symbol :: "int list \<Rightarrow> int \<Rightarrow> int \<Rightarrow> nat \<Rightarrow> bool" where
  "in_symbol cdf W sv d \<longleftrightarrow> codable cdf (int d) \<and> 0 \<le> W \<and> W < 2 ^ 32
     \<and> scale_cdf W (cdf ! d) < sv \<and> sv \<le> scale_cdf W (cdf ! (d + 1))"

lemma read_array_nth: "i < length xs \<Longrightarrow> read_array xs (int i) = Some (xs ! i)"
  by (simp add: read_array_def)

lemma codable_entry: "codable cdf d \<Longrightarrow> i < length cdf \<Longrightarrow> 0 \<le> cdf ! i \<and> cdf ! i \<le> 65535"
  by (simp add: codable_def list_all_length is_u16_def)

lemma codable_symbol:
  assumes "codable cdf (int d)"
  shows "d + 1 < length cdf" and "0 \<le> cdf ! d" and "cdf ! d < cdf ! (d + 1)" and "cdf ! (d + 1) \<le> 65535"
proof -
  have "nat (int d + 1) = d + 1" by simp
  then show l: "d + 1 < length cdf" and "cdf ! d < cdf ! (d + 1)"
    using assms unfolding codable_def by (auto simp: nat_add_distrib)
  show "0 \<le> cdf ! d" "cdf ! (d + 1) \<le> 65535"
    using codable_entry [OF assms] l by auto
qed

lemma in_symbol_compare:
  assumes "in_symbol cdf W sv d" and "i < length cdf"
  shows "scale_cdf W (cdf ! i) < sv \<longleftrightarrow> i \<le> d"
proof -
  have c: "codable cdf (int d)" and W: "0 \<le> W" "W < 2 ^ 32" using assms by (simp_all add: in_symbol_def)
  have mono: "scale_cdf W (cdf ! a) \<le> scale_cdf W (cdf ! b)" if "a \<le> b" "b < length cdf" for a b
  proof -
    have "cdf ! a \<le> cdf ! b" using c that by (simp add: codable_def sorted_nth_mono)
    then have "W * (cdf ! a) \<le> W * (cdf ! b)" using W by (intro mult_left_mono)
    then show ?thesis
      using codable_entry [OF c, of a] codable_entry [OF c, of b] that W by (simp add: scale_cdf_eq zdiv_mono1)
  qed
  show ?thesis
    using assms mono [of i d] mono [of "d + 1" i] codable_symbol(1) [OF c] by (cases "i \<le> d") (auto simp: in_symbol_def)
qed

lemma step_up_finds:
  assumes "in_symbol cdf W sv d" and "p \<le> d"
  shows "step_up cdf W sv (int p) (scale_cdf W (cdf ! p))
     = Some (Inr (int d, scale_cdf W (cdf ! d), scale_cdf W (cdf ! (d + 1))))"
  using assms(2)
proof (induction "d - p" arbitrary: p)
  case (0 p)
  have c: "codable cdf (int d)" using assms(1) by (simp add: in_symbol_def)
  from 0 have "p = d" by simp
  then show ?case
    using codable_symbol [OF c] in_symbol_compare [OF assms(1), of "d + 1"] read_array_nth [of "d + 1" cdf]
    by (subst step_up.simps) (auto simp: read_array_nth add.commute)
next
  case (Suc n p)
  have c: "codable cdf (int d)" using assms(1) by (simp add: in_symbol_def)
  have l: "p + 1 < length cdf" "p < d" using Suc.hyps(2) codable_symbol(1) [OF c] by linarith+
  have "cdf ! p \<le> cdf ! d" using c l codable_symbol(1) [OF c] by (simp add: codable_def sorted_nth_mono)
  then have "cdf ! p \<noteq> 65535" using codable_symbol(3,4) [OF c] by linarith
  moreover have "scale_cdf W (cdf ! (p + 1)) < sv" using in_symbol_compare [OF assms(1) l(1)] l by simp
  moreover have "step_up cdf W sv (int (p + 1)) (scale_cdf W (cdf ! (p + 1)))
      = Some (Inr (int d, scale_cdf W (cdf ! d), scale_cdf W (cdf ! (d + 1))))"
    using Suc.hyps l by (intro Suc.hyps(1)) auto
  ultimately show ?case
    using l read_array_nth [of "p + 1" cdf] by (subst step_up.simps) (auto simp: read_array_nth add.commute)
qed

lemma step_down_finds:
  assumes "in_symbol cdf W sv d" and "d < p" and "p < length cdf"
  shows "step_down cdf W sv (int p) (scale_cdf W (cdf ! p))
     = Some (Inr (int d, scale_cdf W (cdf ! d), scale_cdf W (cdf ! (d + 1))))"
  using assms(2,3)
proof (induction p)
  case (Suc p)
  have c: "scale_cdf W (cdf ! p) < sv \<longleftrightarrow> p \<le> d" using in_symbol_compare [OF assms(1), of p] Suc.prems by simp
  show ?case
  proof (cases "p = d")
    case True
    then show ?thesis using c Suc.prems by (subst step_down.simps) (simp add: read_array_nth)
  next
    case False
    then show ?thesis using c Suc by (subst step_down.simps) (simp add: read_array_nth)
  qed
qed simp

lemma one_step_symbol_finds:
  assumes "in_symbol cdf W sv d" and "init < length cdf"
  shows "one_step_symbol cdf init W sv = Some (Inr (int d, scale_cdf W (cdf ! d), scale_cdf W (cdf ! (d + 1))))"
  using step_up_finds [OF assms(1), of init] step_down_finds [OF assms(1) _ assms(2)]
    in_symbol_compare [OF assms] assms(2)
  by (auto simp: one_step_symbol_def read_array_nth not_le)

text \<open>Bisection: the symbol stays between the position minus and plus the step, and a bound is
  the scaled entry when the position next to the symbol has been visited.\<close>

lemma bisect_loop_finds:
  assumes "in_symbol cdf W sv d" and "2 ^ m \<le> ptr + 1" and "ptr + 2 ^ m \<le> int (length cdf)"
    and "ptr - 2 ^ m \<le> int d" and "int d < ptr + 2 ^ m"
    and "ptr - 2 ^ m = int d \<Longrightarrow> wl = scale_cdf W (cdf ! d)"
    and "ptr + 2 ^ m = int d + 1 \<Longrightarrow> wu = scale_cdf W (cdf ! (d + 1))"
  shows "\<exists>q wl' wu'. bisect_loop cdf W sv ptr (2 ^ m) wl wu = Some (scale_cdf W (cdf ! nat q), q, wl', wu')
     \<and> 0 \<le> q \<and> q < int (length cdf)
     \<and> (q = int d \<and> wu' = scale_cdf W (cdf ! (d + 1)) \<or> q = int d + 1 \<and> wl' = scale_cdf W (cdf ! d))"
  using assms(2-)
proof (induction m arbitrary: ptr wl wu)
  case 0
  then have "ptr = int d \<or> ptr = int d + 1" unfolding power_0 by linarith
  then show ?case using 0 by (subst bisect_loop.simps) (auto simp: read_array_def)
next
  case (Suc m)
  have z: "(0 :: int) < 2 ^ m" by simp
  then have p: "0 \<le> ptr" "ptr < int (length cdf)" using Suc.prems(1,2) unfolding power_Suc by linarith+
  have r: "read_array cdf ptr = Some (cdf ! nat ptr)" using p by (simp add: read_array_def)
  have c: "scale_cdf W (cdf ! nat ptr) < sv \<longleftrightarrow> ptr \<le> int d"
    using in_symbol_compare [OF assms(1), of "nat ptr"] p by auto
  show ?case
  proof (cases "ptr \<le> int d")
    case True
    have "bisect_loop cdf W sv ptr (2 ^ Suc m) wl wu
        = bisect_loop cdf W sv (ptr + 2 ^ m) (2 ^ m) (scale_cdf W (cdf ! nat ptr)) wu"
      using True c r by (subst bisect_loop.simps) simp
    moreover have "scale_cdf W (cdf ! nat ptr) = scale_cdf W (cdf ! d)" if "ptr = int d" using that by simp
    ultimately show ?thesis using Suc.IH [of "ptr + 2 ^ m" "scale_cdf W (cdf ! nat ptr)" wu] Suc.prems True z by simp
  next
    case False
    have "bisect_loop cdf W sv ptr (2 ^ Suc m) wl wu
        = bisect_loop cdf W sv (ptr - 2 ^ m) (2 ^ m) wl (scale_cdf W (cdf ! nat ptr))"
      using False c r by (subst bisect_loop.simps) simp
    moreover have "scale_cdf W (cdf ! nat ptr) = scale_cdf W (cdf ! (d + 1))" if "ptr = int d + 1"
      using that by (simp add: nat_add_distrib)
    ultimately show ?thesis using Suc.IH [of "ptr - 2 ^ m" wl "scale_cdf W (cdf ! nat ptr)"] Suc.prems False z by simp
  qed
qed

lemma bisect_symbol_finds:
  assumes "in_symbol cdf W sv d" and "length cdf + 1 = 2 ^ Suc m"
  shows "bisect_symbol cdf (2 ^ Suc m) wl W sv = Some (int d, scale_cdf W (cdf ! d), scale_cdf W (cdf ! (d + 1)))"
proof -
  have l: "int (length cdf) = 2 * 2 ^ m - 1" using assms(2) by (metis add_diff_cancel_right' of_nat_1 of_nat_add
        of_nat_numeral of_nat_power power_Suc)
  have "d + 1 < length cdf" using assms(1) codable_symbol(1) by (simp add: in_symbol_def)
  then have d: "int d + 1 < 2 * 2 ^ m - 1" using l by linarith
  have "\<exists>q wl' wu'. bisect_loop cdf W sv (2 ^ m - 1) (2 ^ m) wl W = Some (scale_cdf W (cdf ! nat q), q, wl', wu')
     \<and> 0 \<le> q \<and> q < int (length cdf)
     \<and> (q = int d \<and> wu' = scale_cdf W (cdf ! (d + 1)) \<or> q = int d + 1 \<and> wl' = scale_cdf W (cdf ! d))"
    using d l by (intro bisect_loop_finds [OF assms(1)]) auto
  then obtain q wl' wu' where q: "bisect_loop cdf W sv (2 ^ m - 1) (2 ^ m) wl W
        = Some (scale_cdf W (cdf ! nat q), q, wl', wu')" "0 \<le> q" "q < int (length cdf)"
      and c: "q = int d \<and> wu' = scale_cdf W (cdf ! (d + 1)) \<or> q = int d + 1 \<and> wl' = scale_cdf W (cdf ! d)" by blast
  have "scale_cdf W (cdf ! nat q) < sv \<longleftrightarrow> nat q \<le> d" using in_symbol_compare [OF assms(1), of "nat q"] q by simp
  then show ?thesis using c q(1) by (auto simp: bisect_symbol_def nat_add_distrib)
qed


section \<open>Messages\<close>

text \<open>The symbols of one call of the encoder, each codable with its table, and the tables'
  search data: a start position inside the table, or the power of two above its length.\<close>

definition message_ok :: "int list \<Rightarrow> int list list \<Rightarrow> bool" where
  "message_ok ds cdf \<longleftrightarrow> list_all2 (\<lambda>d c. codable c d) ds cdf"

definition starts_ok :: "int list list \<Rightarrow> nat list \<Rightarrow> bool" where
  "starts_ok cdf init_index \<longleftrightarrow> list_all2 (\<lambda>c i. i < length c) cdf init_index"

definition sizes_ok :: "int list list \<Rightarrow> nat list \<Rightarrow> bool" where
  "sizes_ok cdf cdf_size \<longleftrightarrow> list_all2 (\<lambda>c n. n = length c + 1 \<and> n \<in> range (\<lambda>m. 2 ^ Suc m)) cdf cdf_size"

lemma EncHistMulti_step:
  assumes "WebRtcIsac_EncHistMulti s (d # ds) (c # cdf) (Suc k) = Some s2" and "codable c d"
    and "enc_ok (2 ^ 24) s"
  obtains s1 where "enc_interval (c ! nat d) (c ! (nat d + 1)) s = Some s1" and "enc_ok (2 ^ 24) s1"
    and "length (stream s1) = length (stream s)" and "WebRtcIsac_EncHistMulti s1 ds cdf k = Some s2"
    and "inside buf s1 \<Longrightarrow> inside buf s \<and> in_symbol c (W_upper s) (dec_word buf (stream_index s) - enc_pos s) (nat d)
      \<and> dec_shift buf (scale_cdf (W_upper s) (c ! nat d)) (stream_index s + 3,
            scale_cdf (W_upper s) (c ! (nat d + 1)), dec_word buf (stream_index s) - enc_pos s)
          = Some (dec_state buf s1)"
proof -
  have d: "int (nat d) = d" "nat (d + 1) = nat d + 1" using assms(2) by (simp_all add: codable_def nat_add_distrib)
  then have c: "codable c (int (nat d))" using assms(2) by simp
  note sym = codable_symbol [OF c]
  have "read_array c d = Some (c ! nat d)" "read_array c (d + 1) = Some (c ! (nat d + 1))"
    using sym(1) d assms(2) by (auto simp: read_array_def codable_def)
  with assms(1) obtain s1 where s1: "enc_interval (c ! nat d) (c ! (nat d + 1)) s = Some s1"
      "WebRtcIsac_EncHistMulti s1 ds cdf k = Some s2" by (auto split: Option.bind_splits)
  have "0 \<le> W_upper s" "W_upper s < 2 ^ 32" using assms(3) by (simp_all add: enc_ok_def)
  with enc_interval_follows [OF assms(3) sym(2,3,4) s1(1), of buf] c s1 show thesis
    by (intro that) (auto simp: in_symbol_def)
qed

lemma EncHistMulti_ok:
  "message_ok ds cdf \<Longrightarrow> enc_ok (2 ^ 24) s \<Longrightarrow> k \<le> length ds \<Longrightarrow> WebRtcIsac_EncHistMulti s ds cdf k = Some s'
     \<Longrightarrow> enc_ok (2 ^ 24) s' \<and> length (stream s') = length (stream s) \<and> (inside buf s' \<longrightarrow> inside buf s)"
proof (induction s ds cdf k rule: WebRtcIsac_EncHistMulti.induct)
  case (2 s d ds c cdf k)
  have c: "codable c d" and m: "message_ok ds cdf" using "2.prems" by (simp_all add: message_ok_def)
  obtain s1 where s1: "enc_interval (c ! nat d) (c ! (nat d + 1)) s = Some s1" "enc_ok (2 ^ 24) s1"
      "length (stream s1) = length (stream s)" "WebRtcIsac_EncHistMulti s1 ds cdf k = Some s'"
      "inside buf s1 \<Longrightarrow> inside buf s"
    by (rule EncHistMulti_step [OF "2.prems"(4) c "2.prems"(2), of buf]) blast
  have d: "0 \<le> d" "d + 1 < int (length c)" "nat (d + 1) = nat d + 1" using c by (simp_all add: codable_def nat_add_distrib)
  show ?case
    using "2.IH" [of "c ! nat d" "c ! (nat d + 1)" s1] s1 d m "2.prems"(3) by (auto simp: read_array_def)
qed (auto simp: message_ok_def)

lemma one_step_multi_follows:
  "message_ok ds cdf \<Longrightarrow> starts_ok cdf init_index \<Longrightarrow> enc_ok (2 ^ 24) s \<Longrightarrow> k \<le> length ds
     \<Longrightarrow> WebRtcIsac_EncHistMulti s ds cdf k = Some s' \<Longrightarrow> inside buf s'
     \<Longrightarrow> one_step_multi buf cdf init_index k (dec_state buf s) = Some (0, take k ds, dec_state buf s')"
proof (induction s ds cdf k arbitrary: init_index rule: WebRtcIsac_EncHistMulti.induct)
  case (2 s d ds c cdf k)
  have c: "codable c d" and m: "message_ok ds cdf" using "2.prems" by (simp_all add: message_ok_def)
  obtain i inits where i: "init_index = i # inits" "i < length c" "starts_ok cdf inits"
    using "2.prems"(2) by (auto simp: starts_ok_def list_all2_Cons1)
  obtain s1 where s1: "enc_interval (c ! nat d) (c ! (nat d + 1)) s = Some s1" "enc_ok (2 ^ 24) s1"
      "length (stream s1) = length (stream s)" "WebRtcIsac_EncHistMulti s1 ds cdf k = Some s'"
    and f: "inside buf s1 \<Longrightarrow> inside buf s \<and> in_symbol c (W_upper s) (dec_word buf (stream_index s) - enc_pos s) (nat d)
      \<and> dec_shift buf (scale_cdf (W_upper s) (c ! nat d)) (stream_index s + 3,
            scale_cdf (W_upper s) (c ! (nat d + 1)), dec_word buf (stream_index s) - enc_pos s)
          = Some (dec_state buf s1)"
    by (rule EncHistMulti_step [OF "2.prems"(5) c "2.prems"(3), of buf]) blast
  have in1: "inside buf s1" using EncHistMulti_ok [OF m s1(2) _ s1(4)] "2.prems"(4,6) by simp
  have d: "0 \<le> d" "d + 1 < int (length c)" "nat (d + 1) = nat d + 1" using c by (simp_all add: codable_def nat_add_distrib)
  have "one_step_multi buf cdf inits k (dec_state buf s1) = Some (0, take k ds, dec_state buf s')"
    using "2.IH" [of "c ! nat d" "c ! (nat d + 1)" s1 inits] s1 d m i "2.prems"(4,6) by (auto simp: read_array_def)
  then show ?case
    using f [OF in1] one_step_symbol_finds [of c _ _ "nat d" i] i d by (simp add: dec_state_def [of buf s])
qed (auto simp: message_ok_def)

lemma bisect_multi_follows:
  "message_ok ds cdf \<Longrightarrow> sizes_ok cdf cdf_size \<Longrightarrow> enc_ok (2 ^ 24) s \<Longrightarrow> k \<le> length ds
     \<Longrightarrow> WebRtcIsac_EncHistMulti s ds cdf k = Some s' \<Longrightarrow> inside buf s'
     \<Longrightarrow> bisect_multi buf cdf cdf_size k wl (dec_state buf s) = Some (0, take k ds, dec_state buf s')"
proof (induction s ds cdf k arbitrary: cdf_size wl rule: WebRtcIsac_EncHistMulti.induct)
  case (2 s d ds c cdf k)
  have c: "codable c d" and m: "message_ok ds cdf" using "2.prems" by (simp_all add: message_ok_def)
  obtain n ns where i: "cdf_size = 2 ^ Suc n # ns" "length c + 1 = 2 ^ Suc n" "sizes_ok cdf ns"
    using "2.prems"(2) by (auto simp: sizes_ok_def list_all2_Cons1)
  obtain s1 where s1: "enc_interval (c ! nat d) (c ! (nat d + 1)) s = Some s1" "enc_ok (2 ^ 24) s1"
      "length (stream s1) = length (stream s)" "WebRtcIsac_EncHistMulti s1 ds cdf k = Some s'"
    and f: "inside buf s1 \<Longrightarrow> inside buf s \<and> in_symbol c (W_upper s) (dec_word buf (stream_index s) - enc_pos s) (nat d)
      \<and> dec_shift buf (scale_cdf (W_upper s) (c ! nat d)) (stream_index s + 3,
            scale_cdf (W_upper s) (c ! (nat d + 1)), dec_word buf (stream_index s) - enc_pos s)
          = Some (dec_state buf s1)"
    by (rule EncHistMulti_step [OF "2.prems"(5) c "2.prems"(3), of buf]) blast
  have in1: "inside buf s1" using EncHistMulti_ok [OF m s1(2) _ s1(4)] "2.prems"(4,6) by simp
  have d: "0 \<le> d" "d + 1 < int (length c)" "nat (d + 1) = nat d + 1" using c by (simp_all add: codable_def nat_add_distrib)
  have "bisect_multi buf cdf ns k w (dec_state buf s1) = Some (0, take k ds, dec_state buf s')" for w
    using "2.IH" [of "c ! nat d" "c ! (nat d + 1)" s1 ns w] s1 d m i "2.prems"(4,6) by (auto simp: read_array_def)
  moreover have "bisect_symbol c (2 ^ Suc n) wl (W_upper s) (dec_word buf (stream_index s) - enc_pos s)
      = Some (d, scale_cdf (W_upper s) (c ! nat d), scale_cdf (W_upper s) (c ! (nat d + 1)))"
    using f [OF in1] bisect_symbol_finds [OF _ i(2), of _ _ "nat d" wl] d by simp
  moreover have "W_upper s1 \<noteq> 0" using s1(2) by (auto simp: enc_ok_def)
  ultimately show ?case
    using f [OF in1] i(1) by (simp add: dec_state_def [of buf s] dec_state_def [of buf s1] del: power_Suc)
qed (auto simp: message_ok_def)


section \<open>Termination\<close>

text \<open>Writing \<open>b\<close> leading bytes of the stream value after adding \<open>v = 256 ^ (4 - b)\<close> leaves every
  continuation of the stream inside an interval of width at least \<open>2 v\<close>.\<close>

lemma top_bytes_inside:
  assumes "enc_ok w s" and "2 * 256 ^ k \<le> W_upper s" and "k < 4" and "bytes buf" and "stream_index s + 4 \<le> length buf"
    and st: "add_carry s (256 ^ k) = Some st"
    and prefix: "be (take (stream_index s + (4 - k)) buf)
      = be (take (stream_index s) st) * 256 ^ (4 - k) + u32 (streamval s + 256 ^ k) div 256 ^ k"
  shows "inside buf s"
proof -
  let ?i = "stream_index s" and ?v = "256 ^ k :: int"
  let ?sv = "u32 (streamval s + ?v)" and ?X = "dec_word buf ?i" and ?T = "be (take (?i + (4 - k)) buf)"
  have W: "W_upper s < 2 ^ 32" using assms(1) by (simp add: enc_ok_def)
  have v: "0 < ?v" "?v < 2 ^ 32" using W assms(2) by simp_all
  from add_carry_spec [OF assms(1) v] st assms(2) v
  have pos: "be (take ?i st) * 2 ^ 32 + ?sv = enc_pos s + ?v" by auto
  have p4: "256 ^ (4 - k) * ?v = (2 ^ 32 :: int)" using assms(3) by (simp flip: power_add)
  have "?T * ?v = be (take ?i st) * (256 ^ (4 - k) * ?v) + ?sv div ?v * ?v" unfolding prefix by (simp add: algebra_simps)
  also have "\<dots> = enc_pos s + ?v - ?sv mod ?v" using pos p4 by (simp add: minus_mod_eq_div_mult [symmetric])
  finally have T: "?T * ?v = enc_pos s + ?v - ?sv mod ?v" .
  have m: "0 \<le> ?sv mod ?v" "?sv mod ?v < ?v" using v by simp_all
  have X: "?T * ?v \<le> ?X" "?X < ?T * ?v + ?v"
    using be_take_add [OF assms(4), of "?i + (4 - k)" k] assms(3,5) by (simp_all add: dec_word_def distrib_right)
  then have "enc_pos s \<le> ?X" "?X \<le> enc_pos s + W_upper s" using T m assms(2) by linarith+
  then show ?thesis using assms(4,5) by (simp add: inside_def)
qed

lemma be_take_eq: "take n xs = take n ys \<Longrightarrow> m \<le> n \<Longrightarrow> be (take m xs) = be (take m ys)"
  by (metis min.absorb1 take_take)

lemma EncTerminate_spec:
  assumes "enc_ok (2 ^ 24) s" and "WebRtcIsac_EncTerminate s = Some (n, s')"
  shows "n = int (stream_index s) + (if W_upper s > 0x01FFFFFF then 1 else 2) \<and> length (stream s') = length (stream s)
     \<and> bytes (stream s') \<and> n \<le> int (length (stream s))
     \<and> (bytes buf \<longrightarrow> take (nat n) buf = take (nat n) (stream s') \<longrightarrow> n + 3 \<le> int (length buf) \<longrightarrow> inside buf s)"
proof -
  let ?i = "stream_index s"
  have sv: "0 \<le> u32 x" "u32 x < 2 ^ 32" for x using is_u32_u32 [of x] by (simp_all add: is_u32_def)
  have top: "u8 (shr (u32 x) 24) = u32 x div 2 ^ 24" for x
    using sv [of x] by (simp add: shr_def u8_id div_less_iff flip: zle_add1_eq_le)
  have W: "2 ^ 24 \<le> W_upper s" "W_upper s < 2 ^ 32" using assms(1) by (simp_all add: enc_ok_def)
  show ?thesis
  proof (cases "W_upper s > 0x01FFFFFF")
    case True
    let ?sv = "u32 (streamval s + 256 ^ 3)"
    obtain st where st: "add_carry s (256 ^ 3) = Some st" "bytes st" "length st = length (stream s)"
      using add_carry_spec [OF assms(1), of "256 ^ 3"] True by auto
    have r: "?i < length st" "n = int ?i + 1" "stream s' = st[?i := ?sv div 2 ^ 24]"
      using assms(2) st(1) True top [of "streamval s + 256 ^ 3"]
      by (auto simp: WebRtcIsac_EncTerminate_def add_carry_def write_byte_def Let_def split: if_splits Option.bind_splits)
    have "inside buf s" if "bytes buf" "take (nat n) buf = take (nat n) (stream s')" "n + 3 \<le> int (length buf)"
    proof (rule top_bytes_inside [OF assms(1) _ _ that(1) _ st(1)])
      have "be (take (?i + 1) buf) = be (take (?i + 1) (stream s'))" using that(2) r(2) by (simp add: nat_add_distrib)
      then show "be (take (?i + (4 - 3)) buf) = be (take ?i st) * 256 ^ (4 - 3) + ?sv div 256 ^ 3"
        using r(1) unfolding r(3) by (simp add: be_take_Suc)
    qed (use True that(3) r(2) in auto)
    moreover have "is_u8 (?sv div 2 ^ 24)" using top [of "streamval s + 256 ^ 3"] is_u8_u8 by metis
    ultimately show ?thesis using r st True by (simp add: bytes_update)
  next
    case False
    let ?sv = "u32 (streamval s + 256 ^ 2)"
    obtain st where st: "add_carry s (256 ^ 2) = Some st" "bytes st" "length st = length (stream s)"
      using add_carry_spec [OF assms(1), of "256 ^ 2"] W by auto
    have low: "u8 (shr ?sv 16 AND 0x00FF) = ?sv div 2 ^ 16 mod 256"
      using and_low_mask [of "?sv div 2 ^ 16" 8] by (simp add: shr_def u8_def)
    have r: "?i + 1 < length st" "n = int ?i + 2" "stream s' = st[?i := ?sv div 2 ^ 24, ?i + 1 := ?sv div 2 ^ 16 mod 256]"
      using assms(2) st(1) False top [of "streamval s + 256 ^ 2"] low
      by (auto simp: WebRtcIsac_EncTerminate_def add_carry_def write_byte_def Let_def split: if_splits Option.bind_splits)
    have "inside buf s" if "bytes buf" "take (nat n) buf = take (nat n) (stream s')" "n + 3 \<le> int (length buf)"
    proof (rule top_bytes_inside [OF assms(1) _ _ that(1) _ st(1)])
      have "?sv div 2 ^ 24 = ?sv div 2 ^ 16 div 256" by (simp add: zdiv_zmult2_eq flip: zdiv_zmult2_eq)
      then have "?sv div 2 ^ 24 * 256 + ?sv div 2 ^ 16 mod 256 = ?sv div 2 ^ 16" by simp
      moreover have "be (take (?i + 2) buf) = be (take (?i + 2) (stream s'))" using that(2) r(2) by (simp add: nat_add_distrib)
      moreover have "be (take (?i + 2) (stream s'))
          = be (take ?i st) * 256 ^ 2 + (?sv div 2 ^ 24 * 256 + ?sv div 2 ^ 16 mod 256)"
        using r(1) unfolding r(3) by (simp add: be_take_Suc numeral_2_eq_2)
      ultimately show "be (take (?i + (4 - 2)) buf) = be (take ?i st) * 256 ^ (4 - 2) + ?sv div 256 ^ 2" by simp
    qed (use W that(3) r(2) in auto)
    moreover have "is_u8 (?sv div 2 ^ 24)" using top [of "streamval s + 256 ^ 2"] is_u8_u8 by metis
    moreover have "is_u8 (?sv div 2 ^ 16 mod 256)" using low is_u8_u8 by metis
    ultimately show ?thesis using r st False by (simp add: bytes_update)
  qed
qed

end
