(* ===== verification/Isac_Logist.thy ===== *)
theory Isac_Logist
  imports Isac_Arith
begin

text \<open>
  The coder of spectral values, \<open>modules/audio_coding/codecs/isac/main/source/arith_routines_logist.c\<close>:
  the arithmetic coder with the intervals of a piecewise linear distribution function, scaled by an envelope,
  in place of a table. Values are in Q7, in steps of 128 from an offset given by the dither.

  The loop that clips an improbable value and the two search loops of the decoder have no bound in the code;
  they are partial functions in the option monad, \<open>None\<close> being a loop that does not end. The clipping
  loop is shown to end for every sample and every positive envelope.
\<close>

section \<open>The distribution function\<close>

definition kHistEdgesQ15 :: "int list" where
  "kHistEdgesQ15 = [
    -327680, -314573, -301466, -288359, -275252, -262144, -249037, -235930, -222823, -209716,
    -196608, -183501, -170394, -157287, -144180, -131072, -117965, -104858, -91751, -78644,
    -65536, -52429, -39322, -26215, -13108, 0, 13107, 26214, 39321, 52428,
    65536, 78643, 91750, 104857, 117964, 131072, 144179, 157286, 170393, 183500,
    196608, 209715, 222822, 235929, 249036, 262144, 275251, 288358, 301465, 314572,
    327680]"

definition kCdfSlopeQ0 :: "int list" where
  "kCdfSlopeQ0 = [
    5, 5, 5, 5, 5, 5, 5, 5, 5, 5,
    5, 5, 13, 23, 47, 87, 154, 315, 700, 1088,
    2471, 6064, 14221, 21463, 36634, 36924, 19750, 13270, 5806, 2312,
    1095, 660, 316, 145, 86, 41, 32, 5, 5, 5,
    5, 5, 5, 5, 5, 5, 5, 5, 5, 2, 0]"

definition kCdfQ16 :: "int list" where
  "kCdfQ16 = [
    0, 2, 4, 6, 8, 10, 12, 14, 16, 18,
    20, 22, 24, 29, 38, 57, 92, 153, 279, 559,
    994, 1983, 4408, 10097, 18682, 33336, 48105, 56005, 61313, 63636,
    64560, 64998, 65262, 65389, 65447, 65481, 65497, 65510, 65512, 65514,
    65516, 65518, 65520, 65522, 65524, 65526, 65528, 65530, 65532, 65534,
    65535]"

definition piecewise :: "int \<Rightarrow> int" where
  "piecewise xinQ15 =
     (let qtmp2 = xinQ15;
          qtmp2 = (if qtmp2 < kHistEdgesQ15 ! 0 then kHistEdgesQ15 ! 0 else qtmp2);
          qtmp2 = (if qtmp2 > kHistEdgesQ15 ! 50 then kHistEdgesQ15 ! 50 else qtmp2);
          qtmp1 = s32 (qtmp2 - kHistEdgesQ15 ! 0);
          ind = nat (shr (s32 (qtmp1 * 5)) 16);
          qtmp1 = s32 (qtmp2 - kHistEdgesQ15 ! ind);
          qtmp2 = s32 (kCdfSlopeQ0 ! ind * qtmp1);
          qtmp3 = shr qtmp2 15
      in u32 (kCdfQ16 ! ind + qtmp3))"

section \<open>Encoder\<close>

definition STREAM_SIZE_MAX_60 :: nat where
  "STREAM_SIZE_MAX_60 = 400"

definition ISAC_DISALLOWED_BITSTREAM_LENGTH :: int where
  "ISAC_DISALLOWED_BITSTREAM_LENGTH = 6440"

text \<open>\<open>while (cdf_lo+1 >= cdf_hi)\<close>: the sample and the two values of the distribution function.\<close>

partial_function (option) clip_loop :: "int \<Rightarrow> int \<Rightarrow> int \<Rightarrow> int \<Rightarrow> (int \<times> int \<times> int) option" where
  [code]: "clip_loop env d cdf_lo cdf_hi =
     (if u32 (cdf_lo + 1) \<ge> cdf_hi
      then if d > 0
           then clip_loop env (s16 (d - 128)) (piecewise (s32 ((s16 (d - 128) - 64) * env))) cdf_lo
           else clip_loop env (s16 (d + 128)) cdf_hi (piecewise (s32 ((s16 (d + 128) + 64) * env)))
      else Some (d, cdf_lo, cdf_hi))"

text \<open>The renormalisation with its check of the length: \<open>True\<close> is the early return.\<close>

function enc_renorm_max :: "Bitstr \<Rightarrow> (bool \<times> Bitstr) option" where
  "enc_renorm_max s =
     (if W_upper s AND 0xFF000000 = 0
      then if stream_index s < length (stream s)
           then let s = s\<lparr>W_upper := u32 (shl (W_upper s) 8),
                          stream := (stream s)[stream_index s := u8 (shr (streamval s) 24)],
                          stream_index := stream_index s + 1\<rparr>
                in if stream_index s > STREAM_SIZE_MAX_60 - 1 then Some (True, s)
                   else enc_renorm_max (s\<lparr>streamval := u32 (shl (streamval s) 8)\<rparr>)
           else None
      else Some (False, s))"
  by auto
termination by (relation "measure (\<lambda>s. length (stream s) - stream_index s)") auto

text \<open>The advance of the envelope pointer after sample \<open>k\<close>.\<close>

definition env_step :: "int \<Rightarrow> nat \<Rightarrow> nat" where
  "env_step isSWB12kHz k = (if isSWB12kHz \<noteq> 0 then k mod 2 else k mod 2 * (k div 2 mod 2))"

text \<open>The loop over the samples: the return value, the samples as written back, the bit stream.\<close>

fun enc_logistic ::
    "int \<Rightarrow> nat \<Rightarrow> nat \<Rightarrow> int list \<Rightarrow> int list \<Rightarrow> Bitstr \<Rightarrow> (int \<times> int list \<times> Bitstr) option" where
  "enc_logistic isSWB12kHz k 0 dataQ7 envQ8 s = Some (0, [], s)"
| "enc_logistic isSWB12kHz k (Suc n) (d # dataQ7) envQ8 s = do {
     env \<leftarrow> read_array envQ8 0;
     (d, cdf_lo, cdf_hi) \<leftarrow> clip_loop env d (piecewise (s32 ((d - 64) * env))) (piecewise (s32 ((d + 64) * env)));
     s \<leftarrow> enc_narrow cdf_lo cdf_hi s;
     (full, s) \<leftarrow> enc_renorm_max s;
     if full then Some (- ISAC_DISALLOWED_BITSTREAM_LENGTH, [d], s)
     else do {
       (r, ds, s) \<leftarrow> enc_logistic isSWB12kHz (k + 1) n dataQ7 (drop (env_step isSWB12kHz k) envQ8) s;
       Some (r, d # ds, s)
     }
   }"
| "enc_logistic isSWB12kHz k (Suc n) [] envQ8 s = None"

definition WebRtcIsac_EncLogisticMulti2 ::
    "Bitstr \<Rightarrow> int list \<Rightarrow> int list \<Rightarrow> nat \<Rightarrow> int \<Rightarrow> (int \<times> int list \<times> Bitstr) option" where
  "WebRtcIsac_EncLogisticMulti2 streamdata dataQ7 envQ8 N isSWB12kHz = do {
     (r, ds, s) \<leftarrow> enc_logistic isSWB12kHz 0 N dataQ7 envQ8 streamdata;
     if r \<noteq> 0
     then Some (r, ds @ drop (length ds) dataQ7,
                s\<lparr>stream_index := stream_index streamdata, W_upper := W_upper streamdata\<rparr>)
     else Some (0, ds @ drop (length ds) dataQ7, s)
   }"

section \<open>Decoder\<close>

partial_function (option) search_up ::
    "int \<Rightarrow> int \<Rightarrow> int \<Rightarrow> int \<Rightarrow> int \<Rightarrow> int \<Rightarrow> (int + int \<times> int \<times> int) option" where
  [code]: "search_up env W sv candQ7 W_lower W_tmp =
     (if sv > W_tmp
      then if W_tmp = scale_cdf W (piecewise (s32 (s16 (candQ7 + 128) * env)))
           then Some (Inl (-1))
           else search_up env W sv (s16 (candQ7 + 128)) W_tmp
                  (scale_cdf W (piecewise (s32 (s16 (candQ7 + 128) * env))))
      else Some (Inr (candQ7, W_lower, W_tmp)))"

partial_function (option) search_down ::
    "int \<Rightarrow> int \<Rightarrow> int \<Rightarrow> int \<Rightarrow> int \<Rightarrow> int \<Rightarrow> (int + int \<times> int \<times> int) option" where
  [code]: "search_down env W sv candQ7 W_up W_tmp =
     (if \<not> sv > W_tmp
      then if W_tmp = scale_cdf W (piecewise (s32 (s16 (candQ7 - 128) * env)))
           then Some (Inl (-1))
           else search_down env W sv (s16 (candQ7 - 128)) W_tmp
                  (scale_cdf W (piecewise (s32 (s16 (candQ7 - 128) * env))))
      else Some (Inr (candQ7, W_tmp, W_up)))"

text \<open>One sample: its value and the two bounds of the interval, or the error.\<close>

definition logistic_symbol :: "int \<Rightarrow> int \<Rightarrow> int \<Rightarrow> int \<Rightarrow> (int + int \<times> int \<times> int) option" where
  "logistic_symbol env dither W sv =
     (let candQ7 = s16 (- dither + 64);
          W_tmp = scale_cdf W (piecewise (s32 (candQ7 * env)))
      in if sv > W_tmp
         then let W_lower = W_tmp;
                  candQ7 = s16 (candQ7 + 128);
                  W_tmp = scale_cdf W (piecewise (s32 (candQ7 * env)))
              in do {
                r \<leftarrow> search_up env W sv candQ7 W_lower W_tmp;
                Some (case r of Inl e \<Rightarrow> Inl e
                      | Inr (candQ7, W_lower, W_tmp) \<Rightarrow> Inr (s16 (candQ7 - 64), W_lower, W_tmp))
              }
         else let W_up = W_tmp;
                  candQ7 = s16 (candQ7 - 128);
                  W_tmp = scale_cdf W (piecewise (s32 (candQ7 * env)))
              in do {
                r \<leftarrow> search_down env W sv candQ7 W_up W_tmp;
                Some (case r of Inl e \<Rightarrow> Inl e
                      | Inr (candQ7, W_tmp, W_up) \<Rightarrow> Inr (s16 (candQ7 + 64), W_tmp, W_up))
              })"

fun dec_logistic ::
    "int \<Rightarrow> nat \<Rightarrow> nat \<Rightarrow> int list \<Rightarrow> int list \<Rightarrow> int list \<Rightarrow> dec_regs \<Rightarrow> (int \<times> int list \<times> dec_regs) option" where
  "dec_logistic isSWB12kHz k 0 st envQ8 ditherQ7 r = Some (0, [], r)"
| "dec_logistic isSWB12kHz k (Suc n) st envQ8 ditherQ7 (ptr, W, sv) = do {
     env \<leftarrow> read_array envQ8 0;
     dither \<leftarrow> read_array ditherQ7 0;
     symbol \<leftarrow> logistic_symbol env dither W sv;
     (case symbol of
        Inl e \<Rightarrow> Some (e, [], (ptr, W, sv))
      | Inr (d, W_lower, W_up) \<Rightarrow> do {
          r \<leftarrow> dec_shift st W_lower (ptr, W_up, sv);
          (e, ds, r) \<leftarrow> dec_logistic isSWB12kHz (k + 1) n st (drop (env_step isSWB12kHz k) envQ8) (tl ditherQ7) r;
          Some (e, d # ds, r)
        })
   }"

definition WebRtcIsac_DecLogisticMulti2 ::
    "Bitstr \<Rightarrow> int list \<Rightarrow> int list \<Rightarrow> nat \<Rightarrow> int \<Rightarrow> (int \<times> int list \<times> Bitstr) option" where
  "WebRtcIsac_DecLogisticMulti2 streamdata envQ8 ditherQ7 N isSWB12kHz = do {
     r \<leftarrow> dec_start streamdata;
     res \<leftarrow> dec_logistic isSWB12kHz 0 N (stream streamdata) envQ8 ditherQ7 r;
     Some (dec_finish streamdata res)
   }"

declare enc_renorm_max.simps [simp del]

section \<open>The distribution function is monotone\<close>

text \<open>The index of the segment of a value above the lower end.\<close>

definition segment :: "int \<Rightarrow> nat" where
  "segment x = nat ((x + 327680) * 5 div 65536)"

lemma lengths [simp]: "length kHistEdgesQ15 = 51" "length kCdfSlopeQ0 = 51" "length kCdfQ16 = 51"
  by (simp_all add: kHistEdgesQ15_def kCdfSlopeQ0_def kCdfQ16_def)

text \<open>Facts about the three tables, for each of the 51 segments: slopes and widths are small and non negative,
  the value at the end of a segment does not exceed that at the start of the next.\<close>

definition segment_ok :: "nat \<Rightarrow> bool" where
  "segment_ok i \<longleftrightarrow> 0 \<le> kCdfSlopeQ0 ! i \<and> kCdfSlopeQ0 ! i \<le> 36924 \<and> 0 \<le> kCdfQ16 ! i \<and> kCdfQ16 ! i \<le> 65535
     \<and> (kHistEdgesQ15 ! i + 327680) * 5 \<le> 65536 * int i
     \<and> 65536 * int i - 5 \<le> (kHistEdgesQ15 ! i + 327680) * 5
     \<and> kCdfQ16 ! i + kCdfSlopeQ0 ! i * ((65536 * int (i + 1) - 1) div 5 - 327680 - kHistEdgesQ15 ! i) div 32768
         \<le> (if i < 50 then kCdfQ16 ! (i + 1) else 65535)"

lemma segments_ok: "list_all segment_ok [0..<51]"
  by code_simp


lemma segment_okI: "i \<le> 50 \<Longrightarrow> segment_ok i"
  using segments_ok by (simp add: list_all_iff)

lemma kCdfQ16_mono: "i \<le> j \<Longrightarrow> j \<le> 50 \<Longrightarrow> kCdfQ16 ! i \<le> kCdfQ16 ! j"
proof -
  have "sorted kCdfQ16" by (simp add: kCdfQ16_def)
  then show "i \<le> j \<Longrightarrow> j \<le> 50 \<Longrightarrow> ?thesis" by (simp add: sorted_nth_mono)
qed

lemma segment_bounds:
  assumes "-327680 \<le> x" and "x \<le> 327680"
  shows "segment x \<le> 50" and "kHistEdgesQ15 ! segment x \<le> x"
    and "x \<le> (65536 * int (segment x + 1) - 1) div 5 - 327680" and "x - kHistEdgesQ15 ! segment x \<le> 13108"
proof -
  let ?i = "segment x"
  have "0 \<le> (x + 327680) * 5 div 65536" "(x + 327680) * 5 div 65536 < 51"
    using assms by (simp_all add: pos_imp_zdiv_nonneg_iff div_less_iff)
  then show i: "?i \<le> 50" by (simp add: segment_def)
  have d: "int ?i = (x + 327680) * 5 div 65536" using assms by (simp add: segment_def pos_imp_zdiv_nonneg_iff)
  then have r: "65536 * int ?i \<le> (x + 327680) * 5" "(x + 327680) * 5 < 65536 * int ?i + 65536"
    using le_div_iff [of 65536 "int ?i" "(x + 327680) * 5"] div_less_iff [of 65536 "(x + 327680) * 5" "int ?i + 1"] by simp_all
  have ok: "(kHistEdgesQ15 ! ?i + 327680) * 5 \<le> 65536 * int ?i" "65536 * int ?i - 5 \<le> (kHistEdgesQ15 ! ?i + 327680) * 5"
    using segment_okI [OF i] by (simp_all only: segment_ok_def)
  have "(kHistEdgesQ15 ! ?i + 327680) * 5 \<le> (x + 327680) * 5" using ok(1) r(1) by (rule order_trans)
  then show "kHistEdgesQ15 ! ?i \<le> x" by simp
  have "(x + 327680) * 5 < (kHistEdgesQ15 ! ?i + 327680) * 5 + 5 + 65536" using r(2) ok(2) by linarith
  then have "5 * (x - kHistEdgesQ15 ! ?i) < 5 * 13108 + 5" by (simp add: algebra_simps)
  then show "x - kHistEdgesQ15 ! ?i \<le> 13108" by presburger
  have "x + 327680 \<le> (65536 * int (?i + 1) - 1) div 5" using r by (simp add: le_div_iff)
  then show "x \<le> (65536 * int (?i + 1) - 1) div 5 - 327680" by simp
qed

lemma piecewise_eq:
  assumes "-327680 \<le> x" and "x \<le> 327680"
  shows "piecewise x = kCdfQ16 ! segment x + kCdfSlopeQ0 ! segment x * (x - kHistEdgesQ15 ! segment x) div 32768"
    and "kCdfQ16 ! segment x \<le> piecewise x"
    and "piecewise x \<le> (if segment x < 50 then kCdfQ16 ! (segment x + 1) else 65535)"
proof -
  let ?i = "segment x" and ?e = "kHistEdgesQ15 ! segment x" and ?s = "kCdfSlopeQ0 ! segment x"
  note b = segment_bounds [OF assms]
  have ok: "0 \<le> ?s" "?s \<le> 36924" "0 \<le> kCdfQ16 ! ?i" "kCdfQ16 ! ?i \<le> 65535"
    and top: "kCdfQ16 ! ?i + ?s * ((65536 * int (?i + 1) - 1) div 5 - 327680 - ?e) div 32768
      \<le> (if ?i < 50 then kCdfQ16 ! (?i + 1) else 65535)"
    using segment_okI [OF b(1)] by (simp_all only: segment_ok_def)
  have ends: "kHistEdgesQ15 ! 0 = -327680" "kHistEdgesQ15 ! 50 = 327680" by (simp_all add: kHistEdgesQ15_def)
  have "?s * (x - ?e) \<le> 36924 * 13108" using ok b by (intro mult_mono) auto
  then have prod: "0 \<le> ?s * (x - ?e)" "?s * (x - ?e) \<le> 2147483647" using ok b by simp_all
  have d: "0 \<le> ?s * (x - ?e) div 32768" using prod by (simp add: pos_imp_zdiv_nonneg_iff)
  have "?s * (x - ?e) \<le> ?s * ((65536 * int (?i + 1) - 1) div 5 - 327680 - ?e)"
    using ok b(3) by (intro mult_left_mono) auto
  then have "?s * (x - ?e) div 32768 \<le> ?s * ((65536 * int (?i + 1) - 1) div 5 - 327680 - ?e) div 32768"
    by (rule zdiv_mono1) simp
  then have le: "kCdfQ16 ! ?i + ?s * (x - ?e) div 32768 \<le> (if ?i < 50 then kCdfQ16 ! (?i + 1) else 65535)" using top by linarith
  have "kCdfQ16 ! (?i + 1) \<le> 65535" if "?i < 50" using segment_okI [of "?i + 1"] that by (simp add: segment_ok_def)
  then have le2: "kCdfQ16 ! ?i + ?s * (x - ?e) div 32768 \<le> 65535" using le by (auto split: if_splits)
  have ind: "nat (shr (s32 (s32 (x + 327680) * 5)) 16) = ?i" using assms by (simp add: s32_id shr_def segment_def)
  show eq: "piecewise x = kCdfQ16 ! ?i + ?s * (x - ?e) div 32768"
    using assms ends ind prod b ok d le2 unfolding piecewise_def Let_def
    by (simp add: s32_id u32_id shr_def)
  show "kCdfQ16 ! ?i \<le> piecewise x" "piecewise x \<le> (if ?i < 50 then kCdfQ16 ! (?i + 1) else 65535)"
    unfolding eq using d le by linarith+
qed

lemma piecewise_clamp: "piecewise x = piecewise (max (-327680) (min 327680 x))"
  by (auto simp: piecewise_def kHistEdgesQ15_def max_def min_def)

lemma piecewise_mono:
  assumes "x \<le> y"
  shows "piecewise x \<le> piecewise y"
proof -
  have inner: "piecewise x \<le> piecewise y" if "-327680 \<le> x" "x \<le> y" "y \<le> 327680" for x y
  proof (cases "segment x = segment y")
    case True
    have "kCdfSlopeQ0 ! segment x * (x - kHistEdgesQ15 ! segment x) \<le> kCdfSlopeQ0 ! segment x * (y - kHistEdgesQ15 ! segment x)"
      using segment_okI [OF segment_bounds(1), of x] that by (intro mult_left_mono) (auto simp: segment_ok_def)
    then show ?thesis using True that by (simp add: piecewise_eq(1) zdiv_mono1)
  next
    case False
    have "segment x \<le> segment y" using that by (simp add: segment_def nat_mono zdiv_mono1)
    then have lt: "segment x < segment y" "segment y \<le> 50" using False segment_bounds(1) [of y] that by simp_all
    have "piecewise x \<le> kCdfQ16 ! (segment x + 1)" using piecewise_eq(3) [of x] that lt by simp
    also have "\<dots> \<le> kCdfQ16 ! segment y" using lt by (intro kCdfQ16_mono) auto
    also have "\<dots> \<le> piecewise y" using piecewise_eq(2) [of y] that by simp
    finally show ?thesis .
  qed
  show ?thesis using inner [of "max (-327680) (min 327680 x)" "max (-327680) (min 327680 y)"] assms
    unfolding piecewise_clamp [of x] piecewise_clamp [of y] by simp
qed

lemma piecewise_range: "0 \<le> piecewise x \<and> piecewise x \<le> 65535"
proof -
  have "piecewise (-327680) = 0" "piecewise 327680 = 65535" by code_simp+
  then have "0 \<le> piecewise y \<and> piecewise y \<le> 65535" if "-327680 \<le> y" "y \<le> 327680" for y
    using piecewise_mono [of "-327680" y] piecewise_mono [of y 327680] that by simp
  then show ?thesis unfolding piecewise_clamp [of x] by simp
qed


section \<open>The encoder\<close>

text \<open>The distribution function at a boundary between two sample values.\<close>

definition edge :: "int \<Rightarrow> int \<Rightarrow> int" where
  "edge env c = piecewise (s32 (c * env))"

lemma edge_range: "0 \<le> edge env c \<and> edge env c \<le> 65535"
  by (simp add: edge_def piecewise_range)

lemma edge_s32:
  assumes "0 \<le> env" and "env \<le> 65535" and "\<bar>c\<bar> \<le> 32700"
  shows "s32 (c * env) = c * env"
proof -
  have "\<bar>c * env\<bar> \<le> 32700 * 65535" using assms by (intro abs_mult_le) auto
  then show ?thesis by (intro s32_id) auto
qed

lemma edge_mono:
  assumes "0 \<le> env" and "env \<le> 65535" and "\<bar>a\<bar> \<le> 32700" and "\<bar>b\<bar> \<le> 32700" and "a \<le> b"
  shows "edge env a \<le> edge env b"
  using assms by (auto simp: edge_def edge_s32 intro!: piecewise_mono mult_right_mono)

lemma edge_near:
  assumes "1 \<le> env" and "env \<le> 65535" and "\<bar>d\<bar> \<le> 64"
  shows "edge env (d - 64) + 1 < edge env (d + 64)"
proof -
  have p: "piecewise (-64) = 33264" "piecewise 0 = 33336" "piecewise 64 = 33408" by code_simp+
  have e: "edge env (d - 64) = piecewise ((d - 64) * env)" "edge env (d + 64) = piecewise ((d + 64) * env)"
    using assms by (simp_all add: edge_def edge_s32)
  have n: "(d - 64) * env \<le> 0" "0 \<le> (d + 64) * env" using assms by (simp_all add: mult_nonpos_nonneg)
  show ?thesis
  proof (cases "0 \<le> d")
    case True
    have "64 * 1 \<le> (d + 64) * env" using True assms by (intro mult_mono) auto
    then show ?thesis using piecewise_mono [OF n(1)] piecewise_mono [of 64 "(d + 64) * env"] p e by simp
  next
    case False
    have "64 * 1 \<le> (64 - d) * env" using False assms by (intro mult_mono) auto
    then have "(d - 64) * env \<le> -64" by (simp add: algebra_simps)
    then show ?thesis using piecewise_mono [OF n(2)] piecewise_mono [of "(d - 64) * env" "-64"] p e by simp
  qed
qed

text \<open>The clipping loop ends, for every sample and envelope, with a sample in the same position of the grid.\<close>

lemma clip_loop_returns:
  assumes "1 \<le> env" and "env \<le> 65535" and "is_s16 d"
  shows "\<exists>d'. clip_loop env d (edge env (d - 64)) (edge env (d + 64)) = Some (d', edge env (d' - 64), edge env (d' + 64))
     \<and> edge env (d' - 64) + 1 < edge env (d' + 64) \<and> \<bar>d'\<bar> \<le> \<bar>d\<bar> \<and> d' mod 128 = d mod 128"
  using assms(3)
proof (induction "nat \<bar>d\<bar>" arbitrary: d rule: less_induct)
  case less
  have u: "u32 (edge env (d - 64) + 1) = edge env (d - 64) + 1" using edge_range [of env "d - 64"] by (simp add: u32_id)
  show ?case
  proof (cases "edge env (d - 64) + 1 < edge env (d + 64)")
    case True
    then show ?thesis using u by (subst clip_loop.simps) simp
  next
    case False
    then have far: "64 < \<bar>d\<bar>" using edge_near [OF assms(1,2), of d] by linarith
    define d1 where "d1 = (if d > 0 then d - 128 else d + 128)"
    have smaller: "nat \<bar>d1\<bar> < nat \<bar>d\<bar>" "is_s16 d1" using far less.prems by (auto simp: d1_def is_s16_def)
    have "d1 mod 128 = d mod 128" by (simp add: d1_def)
    moreover have "clip_loop env d (edge env (d - 64)) (edge env (d + 64))
        = clip_loop env d1 (edge env (d1 - 64)) (edge env (d1 + 64))"
      using False u smaller(2) by (subst clip_loop.simps) (auto simp: d1_def edge_def s16_conv add.commute)
    ultimately show ?thesis using less.hyps [OF smaller] smaller(1) by auto
  qed
qed

lemma enc_renorm_max_False: "enc_renorm_max s = Some (False, s') \<Longrightarrow> enc_renorm s = Some s'"
proof (induction s rule: enc_renorm_max.induct)
  case (1 s)
  then show ?case
    by (subst enc_renorm.simps, subst (asm) (3) enc_renorm_max.simps) (auto simp: Let_def split: if_splits)
qed

section \<open>The search for a sample\<close>

text \<open>No two boundaries from \<open>c\<close> on, in \<open>m\<close> steps, have the same probability: the condition under which
  the search loops do not take a sample on the way for the end of the distribution.\<close>

fun rising :: "int \<Rightarrow> int \<Rightarrow> nat \<Rightarrow> bool" where
  "rising env c 0 \<longleftrightarrow> True"
| "rising env c (Suc m) \<longleftrightarrow> edge env c < edge env (c + 128) \<and> rising env (c + 128) m"

definition searchable :: "int \<Rightarrow> int \<Rightarrow> int \<Rightarrow> bool" where
  "searchable env dither d \<longleftrightarrow>
     1 \<le> env \<and> env \<le> 65535 \<and> \<bar>dither\<bar> \<le> 256 \<and> \<bar>d\<bar> \<le> 32000 \<and> (d + dither) mod 128 = 0
     \<and> (let m = (d + dither) div 128
        in if m \<ge> 1 then rising env (192 - dither) (nat (m - 1)) else rising env (d - 64) (nat (- m)))"

lemma scale_cdf_strict:
  assumes "2 ^ 24 \<le> W" and "W < 2 ^ 32" and "0 \<le> a" and "a < b" and "b \<le> 65535"
  shows "scale_cdf W a < scale_cdf W b"
proof -
  have "W * 1 \<le> W * (b - a)" using assms by (intro mult_left_mono) auto
  then have "W * a + 1 * 65536 \<le> W * b" using assms(1) by (simp add: algebra_simps)
  then have "(W * a + 1 * 65536) div 65536 \<le> W * b div 65536" by (rule zdiv_mono1) simp
  then show ?thesis using assms by (simp add: scale_cdf_eq)
qed

lemma scale_cdf_mono:
  assumes "2 ^ 24 \<le> W" and "W < 2 ^ 32" and "0 \<le> a" and "a \<le> b" and "b \<le> 65535"
  shows "scale_cdf W a \<le> scale_cdf W b"
  using scale_cdf_strict [OF assms(1-3), of b] assms by (cases "a = b") auto

text \<open>Where the search takes place: the width is normalised, the envelope a positive 16 bit value.\<close>

definition search_range :: "int \<Rightarrow> int \<Rightarrow> bool" where
  "search_range env W \<longleftrightarrow> 1 \<le> env \<and> env \<le> 65535 \<and> 2 ^ 24 \<le> W \<and> W < 2 ^ 32"

definition bound_at :: "int \<Rightarrow> int \<Rightarrow> int \<Rightarrow> int" where
  "bound_at env W c = scale_cdf W (edge env c)"

lemma bound_at_mono:
  "search_range env W \<Longrightarrow> \<bar>a\<bar> \<le> 32700 \<Longrightarrow> \<bar>b\<bar> \<le> 32700 \<Longrightarrow> a \<le> b \<Longrightarrow> bound_at env W a \<le> bound_at env W b"
  using edge_mono [of env a b] edge_range
  unfolding bound_at_def search_range_def by (intro scale_cdf_mono) auto

lemma bound_at_strict:
  "search_range env W \<Longrightarrow> edge env a < edge env b \<Longrightarrow> bound_at env W a < bound_at env W b"
  using edge_range unfolding bound_at_def search_range_def by (intro scale_cdf_strict) auto

lemma search_up_finds:
  assumes "search_range env W"
  shows "\<bar>c\<bar> + 128 * int j \<le> 32700 \<Longrightarrow> rising env c j \<Longrightarrow> wl = bound_at env W (c - 128)
     \<Longrightarrow> bound_at env W (c + 128 * int j - 128) < sv \<Longrightarrow> sv \<le> bound_at env W (c + 128 * int j)
     \<Longrightarrow> search_up env W sv c wl (bound_at env W c)
         = Some (Inr (c + 128 * int j, bound_at env W (c + 128 * int j - 128), bound_at env W (c + 128 * int j)))"
proof (induction j arbitrary: c wl)
  case 0
  then show ?case by (subst search_up.simps) simp
next
  case (Suc j)
  have b: "\<bar>c\<bar> + 128 * int j \<le> 32572" "0 \<le> 128 * int j" using Suc.prems(1) by simp_all
  then have s: "s16 (c + 128) = c + 128" by (intro s16_id) linarith+
  have p: "\<bar>c\<bar> \<le> 32700" "\<bar>c + 128 * int j\<bar> \<le> 32700" "c \<le> c + 128 * int j" using b by auto
  have "bound_at env W c \<le> bound_at env W (c + 128 * int (Suc j) - 128)"
    using bound_at_mono [OF assms p] by simp
  then have up: "bound_at env W c < sv" using Suc.prems(4) by linarith
  have ne: "bound_at env W c < bound_at env W (c + 128)" using Suc.prems(2) bound_at_strict [OF assms] by simp
  have "search_up env W sv c wl (bound_at env W c) = search_up env W sv (c + 128) (bound_at env W c) (bound_at env W (c + 128))"
    using up ne s by (subst search_up.simps) (simp add: bound_at_def edge_def)
  also have e: "c + 128 + 128 * int j = c + 128 * int (Suc j)" by simp
  have "\<bar>c + 128\<bar> + 128 * int j \<le> 32700" "rising env (c + 128) j" "bound_at env W c = bound_at env W (c + 128 - 128)"
    using b Suc.prems(2) by auto
  note Suc.IH [OF this, unfolded e, OF Suc.prems(4,5)]
  finally show ?case .
qed

lemma rising_Suc: "rising env c (Suc j) \<longleftrightarrow> rising env c j \<and> edge env (c + 128 * int j) < edge env (c + 128 * int j + 128)"
proof (induction j arbitrary: c)
  case (Suc j)
  have e: "c + 128 + 128 * int j = c + 128 * int (Suc j)" by simp
  show ?case using Suc.IH [of "c + 128"] unfolding e by (simp only: rising.simps conj_assoc)
qed simp

lemma search_down_finds:
  assumes "search_range env W"
  shows "\<bar>c\<bar> + 128 * int j \<le> 32700 \<Longrightarrow> rising env (c - 128 * int j) j \<Longrightarrow> wu = bound_at env W (c + 128)
     \<Longrightarrow> bound_at env W (c - 128 * int j) < sv \<Longrightarrow> sv \<le> bound_at env W (c - 128 * int j + 128)
     \<Longrightarrow> search_down env W sv c wu (bound_at env W c)
         = Some (Inr (c - 128 * int j, bound_at env W (c - 128 * int j), bound_at env W (c - 128 * int j + 128)))"
proof (induction j arbitrary: c wu)
  case 0
  then show ?case by (subst search_down.simps) simp
next
  case (Suc j)
  have b: "\<bar>c\<bar> + 128 * int j \<le> 32572" "0 \<le> 128 * int j" using Suc.prems(1) by simp_all
  then have s: "s16 (c - 128) = c - 128" by (intro s16_id) linarith+
  have p: "\<bar>c - 128 * int j\<bar> \<le> 32700" "\<bar>c\<bar> \<le> 32700" "c - 128 * int j \<le> c" using b by auto
  have "bound_at env W (c - 128 * int (Suc j) + 128) \<le> bound_at env W c"
    using bound_at_mono [OF assms p] by simp
  then have down: "\<not> bound_at env W c < sv" using Suc.prems(5) by linarith
  have r: "rising env (c - 128 - 128 * int j) j" "edge env (c - 128) < edge env c"
    using Suc.prems(2) unfolding rising_Suc by (simp_all add: algebra_simps)
  then have ne: "bound_at env W (c - 128) < bound_at env W c" using bound_at_strict [OF assms] by simp
  have "search_down env W sv c wu (bound_at env W c) = search_down env W sv (c - 128) (bound_at env W c) (bound_at env W (c - 128))"
    using down ne s by (subst search_down.simps) (simp add: bound_at_def edge_def)
  also have e: "c - 128 - 128 * int j = c - 128 * int (Suc j)" by simp
  have "\<bar>c - 128\<bar> + 128 * int j \<le> 32700" "bound_at env W c = bound_at env W (c - 128 + 128)" using b by auto
  note Suc.IH [OF this(1) r(1) this(2), unfolded e, OF Suc.prems(4,5)]
  finally show ?case .
qed

lemma logistic_symbol_finds:
  assumes "searchable env dither d" and "2 ^ 24 \<le> W" and "W < 2 ^ 32"
    and "bound_at env W (d - 64) < sv" and "sv \<le> bound_at env W (d + 64)"
  shows "logistic_symbol env dither W sv = Some (Inr (d, bound_at env W (d - 64), bound_at env W (d + 64)))"
proof -
  define m where "m = (d + dither) div 128"
  have r: "search_range env W" using assms(1-3) by (simp add: searchable_def search_range_def)
  have d: "\<bar>d\<bar> \<le> 32000" "\<bar>dither\<bar> \<le> 256" and dm: "d + dither = 128 * m"
    using assms(1) by (auto simp: searchable_def m_def)
  let ?c = "64 - dither"
  have s0: "s16 (- dither + 64) = ?c" "s16 (?c + 128) = ?c + 128" "s16 (?c - 128) = ?c - 128" "s16 d = d"
    using d by (simp_all add: s16_id)
  show ?thesis
  proof (cases "m \<ge> 1")
    case True
    let ?j = "nat (m - 1)"
    have e: "?c + 128 + 128 * int ?j = d + 64" using dm True by simp
    have "search_up env W sv (?c + 128) (bound_at env W ?c) (bound_at env W (?c + 128))
        = Some (Inr (d + 64, bound_at env W (d + 64 - 128), bound_at env W (d + 64)))"
      unfolding e [symmetric]
    proof (rule search_up_finds [OF r])
      show "\<bar>?c + 128\<bar> + 128 * int ?j \<le> 32700" using d dm True e by linarith
      show "rising env (?c + 128) ?j" using assms(1) True by (simp add: searchable_def m_def)
      show "bound_at env W (?c + 128 + 128 * int ?j - 128) < sv" "sv \<le> bound_at env W (?c + 128 + 128 * int ?j)"
        unfolding e using assms(4,5) by simp_all
    qed simp
    moreover have "bound_at env W ?c \<le> bound_at env W (d - 64)"
      using d dm True by (intro bound_at_mono [OF r]) auto
    ultimately show ?thesis using assms(4) s0
      by (simp add: logistic_symbol_def Let_def bound_at_def edge_def)
  next
    case False
    let ?j = "nat (- m)"
    have e: "?c - 128 - 128 * int ?j = d - 64" using dm False by simp
    have "search_down env W sv (?c - 128) (bound_at env W ?c) (bound_at env W (?c - 128))
        = Some (Inr (d - 64, bound_at env W (d - 64), bound_at env W (d - 64 + 128)))"
      unfolding e [symmetric]
    proof (rule search_down_finds [OF r])
      show "\<bar>?c - 128\<bar> + 128 * int ?j \<le> 32700" using d dm False e by linarith
      show "rising env (?c - 128 - 128 * int ?j) ?j" unfolding e using assms(1) False by (simp add: searchable_def m_def)
      show "bound_at env W (?c - 128 - 128 * int ?j) < sv" "sv \<le> bound_at env W (?c - 128 - 128 * int ?j + 128)"
        unfolding e using assms(4,5) by (simp_all add: add.commute)
    qed simp
    moreover have "bound_at env W (d + 64) \<le> bound_at env W ?c"
      using d dm False by (intro bound_at_mono [OF r]) auto
    ultimately show ?thesis using assms(5) s0
      by (simp add: logistic_symbol_def Let_def bound_at_def edge_def add.commute)
  qed
qed


section \<open>The decoder follows the encoder\<close>

text \<open>The samples the encoder writes back can be found from their dither values.\<close>

fun samples_ok :: "int \<Rightarrow> nat \<Rightarrow> int list \<Rightarrow> int list \<Rightarrow> int list \<Rightarrow> bool" where
  "samples_ok isSWB12kHz k envQ8 ditherQ7 [] \<longleftrightarrow> True"
| "samples_ok isSWB12kHz k envQ8 ditherQ7 (d # ds) \<longleftrightarrow>
     envQ8 \<noteq> [] \<and> ditherQ7 \<noteq> [] \<and> searchable (hd envQ8) (hd ditherQ7) d
     \<and> samples_ok isSWB12kHz (k + 1) (drop (env_step isSWB12kHz k) envQ8) (tl ditherQ7) ds"

lemma read_array_hd: "xs \<noteq> [] \<Longrightarrow> read_array xs 0 = Some (hd xs)"
  by (simp add: read_array_def hd_conv_nth)

lemma enc_logistic_step:
  assumes "enc_logistic sw k (Suc n) (d0 # data) envs s = Some (0, d # ds, s')" and "is_s16 d0"
    and "envs \<noteq> []" and "1 \<le> hd envs" and "hd envs \<le> 65535"
  obtains s1 where "enc_interval (edge (hd envs) (d - 64)) (edge (hd envs) (d + 64)) s = Some s1"
    and "edge (hd envs) (d - 64) + 1 < edge (hd envs) (d + 64)"
    and "enc_logistic sw (k + 1) n data (drop (env_step sw k) envs) s1 = Some (0, ds, s')"
proof -
  from clip_loop_returns [OF assms(4,5,2)] obtain d' where
    c: "clip_loop (hd envs) d0 (edge (hd envs) (d0 - 64)) (edge (hd envs) (d0 + 64))
        = Some (d', edge (hd envs) (d' - 64), edge (hd envs) (d' + 64))"
      "edge (hd envs) (d' - 64) + 1 < edge (hd envs) (d' + 64)" by blast
  then have "\<exists>w s1. enc_narrow (edge (hd envs) (d' - 64)) (edge (hd envs) (d' + 64)) s = Some w
      \<and> enc_renorm_max w = Some (False, s1) \<and> d' = d
      \<and> enc_logistic sw (k + 1) n data (drop (env_step sw k) envs) s1 = Some (0, ds, s')"
    using assms(1) read_array_hd [OF assms(3)]
    by (auto simp: edge_def ISAC_DISALLOWED_BITSTREAM_LENGTH_def split: Option.bind_splits prod.splits if_splits)
  then show thesis using c that by (auto simp: enc_interval_def dest: enc_renorm_max_False)
qed

lemma enc_logistic_SucE:
  assumes "enc_logistic sw k (Suc n) data envs s = Some (0, ds, s')"
  obtains d0 rest d ds1 s1 where "data = d0 # rest" and "ds = d # ds1"
    and "enc_logistic sw (k + 1) n rest (drop (env_step sw k) envs) s1 = Some (0, ds1, s')"
proof (cases data)
  case (Cons d0 rest)
  with assms show thesis
    by (auto simp: ISAC_DISALLOWED_BITSTREAM_LENGTH_def split: Option.bind_splits prod.splits if_splits intro: that)
qed (use assms in simp)

lemma enc_logistic_length:
  "enc_logistic sw k n data envs s = Some (0, ds, s') \<Longrightarrow> length ds = n \<and> n \<le> length data"
proof (induction n arbitrary: k data envs s ds)
  case (Suc n)
  show ?case by (rule enc_logistic_SucE [OF Suc.prems]) (auto dest: Suc.IH)
qed simp

lemma enc_logistic_follows:
  "enc_logistic sw k n data envs s = Some (0, ds, s') \<Longrightarrow> list_all is_s16 data \<Longrightarrow> enc_ok (2 ^ 24) s
     \<Longrightarrow> samples_ok sw k envs dithers ds
     \<Longrightarrow> enc_ok (2 ^ 24) s' \<and> length (stream s') = length (stream s)
       \<and> (inside buf s' \<longrightarrow> inside buf s
          \<and> dec_logistic sw k n buf envs dithers (dec_state buf s) = Some (0, ds, dec_state buf s'))"
proof (induction ds arbitrary: k n data envs dithers s)
  case Nil
  then have "n = 0" using enc_logistic_length by fastforce
  then show ?case using Nil by simp
next
  case (Cons d ds)
  then obtain d0 rest n' where n: "n = Suc n'" "data = d0 # rest"
    using enc_logistic_length [OF Cons.prems(1)] by (cases data; cases n) auto
  let ?env = "hd envs" and ?sv = "dec_word buf (stream_index s) - enc_pos s"
  have ok: "envs \<noteq> []" "dithers \<noteq> []" "searchable ?env (hd dithers) d"
      "samples_ok sw (k + 1) (drop (env_step sw k) envs) (tl dithers) ds"
    using Cons.prems(4) by simp_all
  have env: "1 \<le> ?env" "?env \<le> 65535" "is_s16 d0" "list_all is_s16 rest"
    using ok(3) Cons.prems(2) n by (simp_all add: searchable_def)
  obtain s1 where s1: "enc_interval (edge ?env (d - 64)) (edge ?env (d + 64)) s = Some s1"
      "edge ?env (d - 64) + 1 < edge ?env (d + 64)"
      "enc_logistic sw (k + 1) n' rest (drop (env_step sw k) envs) s1 = Some (0, ds, s')"
    using enc_logistic_step [OF Cons.prems(1) [unfolded n] env(3) ok(1) env(1,2)] by blast
  note st = enc_interval_follows [OF Cons.prems(3) _ _ _ s1(1), of buf]
  have e1: "enc_ok (2 ^ 24) s1" "length (stream s1) = length (stream s)"
    and f: "inside buf s1 \<Longrightarrow> inside buf s \<and> bound_at ?env (W_upper s) (d - 64) < ?sv \<and> ?sv \<le> bound_at ?env (W_upper s) (d + 64)
      \<and> dec_shift buf (bound_at ?env (W_upper s) (d - 64)) (stream_index s + 3, bound_at ?env (W_upper s) (d + 64), ?sv)
          = Some (dec_state buf s1)"
    using st s1(2) edge_range [of ?env "d - 64"] edge_range [of ?env "d + 64"] by (auto simp: bound_at_def)
  note IH = Cons.IH [OF s1(3) env(4) e1(1) ok(4)]
  have "inside buf s \<and> dec_logistic sw k n buf envs dithers (dec_state buf s) = Some (0, d # ds, dec_state buf s')"
    if "inside buf s'"
  proof -
    have in1: "inside buf s1" and dec: "dec_logistic sw (k + 1) n' buf (drop (env_step sw k) envs) (tl dithers) (dec_state buf s1)
        = Some (0, ds, dec_state buf s')" using IH that by simp_all
    have "logistic_symbol ?env (hd dithers) (W_upper s) ?sv
        = Some (Inr (d, bound_at ?env (W_upper s) (d - 64), bound_at ?env (W_upper s) (d + 64)))"
      using f [OF in1] Cons.prems(3) by (intro logistic_symbol_finds [OF ok(3)]) (simp_all add: enc_ok_def)
    then show ?thesis
      using f [OF in1] dec n(1) ok(1,2) by (simp add: dec_state_def [of buf s] read_array_hd)
  qed
  then show ?case using IH e1 by auto
qed


section \<open>The encoder always returns\<close>

text \<open>The envelope pointer advances every second or every fourth sample.\<close>

definition env_period :: "int \<Rightarrow> nat" where
  "env_period isSWB12kHz = (if isSWB12kHz \<noteq> 0 then 2 else 4)"

lemma env_step_eq: "env_step sw k = (if k mod env_period sw = env_period sw - 1 then 1 else 0)"
proof -
  have "k mod 4 = 3 \<longleftrightarrow> k mod 2 = 1 \<and> k div 2 mod 2 = 1" by presburger
  then show ?thesis by (auto simp: env_step_def env_period_def mod2_eq_if)
qed

lemma env_period_step:
  assumes "k mod env_period sw + Suc n \<le> env_period sw * length envs"
  shows "envs \<noteq> []" and "(k + 1) mod env_period sw + n \<le> env_period sw * length (drop (env_step sw k) envs)"
proof -
  have p: "0 < env_period sw" by (simp add: env_period_def)
  show "envs \<noteq> []" using assms by auto
  show "(k + 1) mod env_period sw + n \<le> env_period sw * length (drop (env_step sw k) envs)"
  proof (cases "k mod env_period sw = env_period sw - 1")
    case True
    then have "(k + 1) mod env_period sw = 0" using p by (metis Suc_eq_plus1 Suc_pred' mod_Suc)
    then show ?thesis using True assms p by (simp add: env_step_eq diff_mult_distrib2)
  next
    case False
    then have "(k + 1) mod env_period sw = k mod env_period sw + 1"
      using mod_Suc [of k "env_period sw"] p by auto
    then show ?thesis using False assms by (simp add: env_step_eq)
  qed
qed

lemma enc_renorm_max_returns:
  assumes "enc_ok 1 s" and "stream_index s < 400" and "400 \<le> length (stream s)"
  shows "\<exists>full s'. enc_renorm_max s = Some (full, s') \<and> length (stream s') = length (stream s)
     \<and> (full \<or> stream_index s' < 400 \<and> enc_ok (2 ^ 24) s')"
  using assms
proof (induction s rule: enc_renorm_max.induct)
  case (1 s)
  let ?s = "s\<lparr>W_upper := u32 (shl (W_upper s) 8), stream := (stream s)[stream_index s := u8 (shr (streamval s) 24)],
    stream_index := stream_index s + 1\<rparr>"
  have step: "?s\<lparr>streamval := u32 (shl (streamval ?s) 8)\<rparr> = enc_renorm_step s" by (simp add: enc_renorm_step_def)
  have W: "W_upper s AND 0xFF000000 = 0 \<longleftrightarrow> W_upper s < 2 ^ 24"
    using "1.prems"(1) top_byte_0 [of "W_upper s"] by (simp add: enc_ok_def)
  show ?case
  proof (cases "W_upper s < 2 ^ 24")
    case True
    have i: "stream_index s < length (stream s)" using "1.prems"(2,3) by simp
    note st = enc_renorm_step_spec [OF "1.prems"(1) True i]
    show ?thesis
    proof (cases "stream_index s + 1 > STREAM_SIZE_MAX_60 - 1")
      case full: True
      have "enc_renorm_max s = Some (True, ?s)"
        using True W i full by (subst enc_renorm_max.simps) (simp add: Let_def)
      then show ?thesis by auto
    next
      case False
      have e: "enc_renorm_max s = enc_renorm_max (enc_renorm_step s)"
        using True W i False step by (subst enc_renorm_max.simps) (simp add: Let_def)
      have "\<exists>full s'. enc_renorm_max (enc_renorm_step s) = Some (full, s')
          \<and> length (stream s') = length (stream (enc_renorm_step s)) \<and> (full \<or> stream_index s' < 400 \<and> enc_ok (2 ^ 24) s')"
        using "1.IH" [of ?s, unfolded step] True W i False st "1.prems"(3)
        by (simp add: STREAM_SIZE_MAX_60_def)
      then show ?thesis unfolding e using st by simp
    qed
  next
    case False
    then have "enc_renorm_max s = Some (False, s)" using W by (subst enc_renorm_max.simps) simp
    then show ?thesis using False "1.prems" by (auto simp: enc_ok_def)
  qed
qed

lemma enc_narrow_returns:
  assumes "enc_ok (2 ^ 24) s" and "0 \<le> lo" and "lo < hi" and "hi \<le> 65535"
  shows "\<exists>w. enc_narrow lo hi s = Some w \<and> enc_ok 1 w \<and> stream_index w = stream_index s
     \<and> length (stream w) = length (stream s)"
proof -
  let ?l = "W_upper s * lo div 65536" and ?h = "W_upper s * hi div 65536"
  from enc_narrow_spec [OF assms] obtain st where "enc_narrow lo hi s = Some (narrowed s ?l ?h st)"
    "enc_ok 1 (narrowed s ?l ?h st)" "length st = length (stream s)" by blast
  then show ?thesis by simp
qed

lemma enc_logistic_returns:
  assumes "list_all (\<lambda>e. 1 \<le> e \<and> e \<le> 65535) envs" and "list_all is_s16 data"
    and "enc_ok (2 ^ 24) s" and "stream_index s < 400" and "400 \<le> length (stream s)"
    and "n \<le> length data" and "k mod env_period sw + n \<le> env_period sw * length envs"
  shows "\<exists>r ds s'. enc_logistic sw k n data envs s = Some (r, ds, s') \<and> length (stream s') = length (stream s)
     \<and> (r = 0 \<and> length ds = n \<and> stream_index s' < 400 \<and> enc_ok (2 ^ 24) s' \<or> r = - ISAC_DISALLOWED_BITSTREAM_LENGTH)"
  using assms
proof (induction n arbitrary: k data envs s)
  case (Suc n)
  obtain d0 rest where d: "data = d0 # rest" "is_s16 d0" "list_all is_s16 rest" "n \<le> length rest"
    using Suc.prems(2,6) by (cases data) auto
  note per = env_period_step [OF Suc.prems(7)]
  let ?env = "hd envs"
  have env: "1 \<le> ?env" "?env \<le> 65535" and env': "list_all (\<lambda>e. 1 \<le> e \<and> e \<le> 65535) (drop (env_step sw k) envs)"
    using Suc.prems(1) hd_in_set [OF per(1)] set_drop_subset [of "env_step sw k" envs] by (auto simp: list_all_iff)
  from clip_loop_returns [OF env d(2)] obtain d' where
    c: "clip_loop ?env d0 (edge ?env (d0 - 64)) (edge ?env (d0 + 64)) = Some (d', edge ?env (d' - 64), edge ?env (d' + 64))"
      "edge ?env (d' - 64) + 1 < edge ?env (d' + 64)" by blast
  then have "edge ?env (d' - 64) < edge ?env (d' + 64)" by simp
  from enc_narrow_returns [OF Suc.prems(3) _ this] edge_range [of ?env "d' - 64"] edge_range [of ?env "d' + 64"] obtain w where
    w: "enc_narrow (edge ?env (d' - 64)) (edge ?env (d' + 64)) s = Some w" "enc_ok 1 w" "stream_index w = stream_index s"
      "length (stream w) = length (stream s)" by blast
  from enc_renorm_max_returns [OF w(2)] w(3,4) Suc.prems(4,5) obtain full s1 where
    s1: "enc_renorm_max w = Some (full, s1)" "length (stream s1) = length (stream s)"
      "full \<or> stream_index s1 < 400 \<and> enc_ok (2 ^ 24) s1" by auto
  show ?case
  proof (cases full)
    case True
    then show ?thesis using d(1) c(1) w(1) s1 read_array_hd [OF per(1)] by (simp add: edge_def)
  next
    case False
    then have "\<exists>r ds s'. enc_logistic sw (k + 1) n rest (drop (env_step sw k) envs) s1 = Some (r, ds, s')
        \<and> length (stream s') = length (stream s1)
        \<and> (r = 0 \<and> length ds = n \<and> stream_index s' < 400 \<and> enc_ok (2 ^ 24) s' \<or> r = - ISAC_DISALLOWED_BITSTREAM_LENGTH)"
      using s1 Suc.prems(5) d per(2) env' by (intro Suc.IH) auto
    then show ?thesis using False d(1) c(1) w(1) s1 read_array_hd [OF per(1)] by (auto simp: edge_def)
  qed
qed simp

text \<open>C21. The encoder of spectral values always returns, for every samples and positive envelopes: the loop that
  clips improbable samples ends, and the bit stream stays below 400 bytes or the error code for a long stream
  is returned; no write is outside the stream.\<close>

theorem EncLogistic_returns:
  assumes "enc_ok (2 ^ 24) s" and "stream_index s < 400" and "400 \<le> length (stream s)"
    and "list_all (\<lambda>e. 1 \<le> e \<and> e \<le> 65535) envQ8" and "list_all is_s16 dataQ7"
    and "N \<le> length dataQ7" and "N \<le> env_period isSWB12kHz * length envQ8"
  shows "\<exists>r ds s'. WebRtcIsac_EncLogisticMulti2 s dataQ7 envQ8 N isSWB12kHz = Some (r, ds, s')
     \<and> (r = 0 \<and> stream_index s' < 400 \<and> enc_ok (2 ^ 24) s' \<or> r = -6440)"
proof -
  from enc_logistic_returns [OF assms(4,5,1,2,3,6), of 0 isSWB12kHz] assms(7) obtain r ds s' where
    "enc_logistic isSWB12kHz 0 N dataQ7 envQ8 s = Some (r, ds, s')"
    "r = 0 \<and> length ds = N \<and> stream_index s' < 400 \<and> enc_ok (2 ^ 24) s' \<or> r = - ISAC_DISALLOWED_BITSTREAM_LENGTH"
    by auto
  then show ?thesis by (auto simp: WebRtcIsac_EncLogisticMulti2_def ISAC_DISALLOWED_BITSTREAM_LENGTH_def)
qed

definition logist_stream :: Bitstr where
  "logist_stream = WebRtcIsac_ResetBitstream \<lparr>stream = replicate 400 0, W_upper = 0, streamval = 0, stream_index = 0\<rparr>"

lemma logist_stream_ok: "enc_ok (2 ^ 24) logist_stream"
  by (simp add: logist_stream_def WebRtcIsac_ResetBitstream_def enc_ok_def enc_pos_def bytes_def list_all_iff is_u8_def)

theorem EncLogistic_returns_witness:
  "\<exists>r ds s'. WebRtcIsac_EncLogisticMulti2 logist_stream [32767, -5000, 77, 3] [256] 4 0 = Some (r, ds, s')
     \<and> (r = 0 \<and> stream_index s' < 400 \<and> enc_ok (2 ^ 24) s' \<or> r = -6440)"
  by (rule EncLogistic_returns [OF logist_stream_ok])
    (simp_all add: logist_stream_def WebRtcIsac_ResetBitstream_def is_s16_def env_period_def)

end
