(* ===== verification/Isac_Coder.thy ===== *)
theory Isac_Coder
  imports Isac_Logist
begin

text \<open>
  A whole iSAC bit stream: a frame is coded by a sequence of calls of the histogram coder and of the coder of
  spectral values on one stream, and closed by \<open>WebRtcIsac_EncTerminate\<close>. The decoder makes the
  calls in the same order. The theory puts the two coders together and proves the round trip.
\<close>

section \<open>The decoder at the start of a call\<close>

text \<open>The stream structure of a decoder against that of the encoder at the same point; before its first call the
  decoder has read nothing.\<close>

definition dec_follows :: "int list \<Rightarrow> Bitstr \<Rightarrow> Bitstr \<Rightarrow> bool" where
  "dec_follows buf e d \<longleftrightarrow> stream d = buf \<and> W_upper d = W_upper e
     \<and> (if stream_index d = 0 then stream_index e = 0 \<and> enc_pos e = 0
        else (stream_index d, W_upper d, streamval d) = dec_state buf e)"

lemma first_word:
  assumes "bytes buf" and "4 \<le> length buf"
  shows "u32 (shl (buf ! 0) 24) OR u32 (shl (buf ! 1) 16) OR u32 (shl (buf ! 2) 8) OR buf ! 3 = be (take 4 buf)"
proof -
  have b: "0 \<le> buf ! 0 \<and> buf ! 0 \<le> 255" "0 \<le> buf ! 1 \<and> buf ! 1 \<le> 255" "0 \<le> buf ! 2 \<and> buf ! 2 \<le> 255"
    "0 \<le> buf ! 3 \<and> buf ! 3 \<le> 255" by (rule bytes_nth [OF assms(1)], use assms(2) in linarith)+
  have "buf ! 2 * 2 ^ 8 OR buf ! 3 = buf ! 2 * 2 ^ 8 + buf ! 3" using b by (intro or_high_bits) auto
  moreover have "buf ! 1 * 2 ^ 16 OR (buf ! 2 * 2 ^ 8 + buf ! 3) = buf ! 1 * 2 ^ 16 + (buf ! 2 * 2 ^ 8 + buf ! 3)"
    using b by (intro or_high_bits) auto
  moreover have "buf ! 0 * 2 ^ 24 OR (buf ! 1 * 2 ^ 16 + (buf ! 2 * 2 ^ 8 + buf ! 3))
      = buf ! 0 * 2 ^ 24 + (buf ! 1 * 2 ^ 16 + (buf ! 2 * 2 ^ 8 + buf ! 3))" using b by (intro or_high_bits) auto
  moreover have "be (take 4 buf) = ((buf ! 0 * 256 + buf ! 1) * 256 + buf ! 2) * 256 + buf ! 3"
    using assms(2) be_take_Suc [of 0 buf] by (cases "buf = []") (simp_all add: numeral_eq_Suc be_take_Suc)
  ultimately show ?thesis using b by (simp add: shl_def u32_id)
qed

lemma dec_start_follows:
  assumes "dec_follows buf e d" and "bytes buf" and "4 \<le> length buf"
  shows "dec_start d = Some (dec_state buf e)"
proof (cases "stream_index d = 0")
  case True
  have "read_array buf 0 = Some (buf ! 0)" "read_array buf 1 = Some (buf ! 1)" "read_array buf 2 = Some (buf ! 2)"
    "read_array buf 3 = Some (buf ! 3)" using assms(3) by (auto simp: read_array_def)
  then show ?thesis using assms True first_word [OF assms(2,3)]
    by (simp add: dec_start_def dec_follows_def dec_state_def dec_word_def)
next
  case False
  then show ?thesis using assms by (auto simp: dec_start_def dec_follows_def)
qed

section \<open>Calls\<close>

datatype search = OneStep "nat list" | Bisect "nat list"

datatype message =
    Hist "int list" "int list list" search
  | Logist "int list" "int list" "int list" int

text \<open>What the decoder knows of a call: the number of values, the tables or the envelope and dither.\<close>

datatype request =
    HistReq nat "int list list" search
  | LogistReq nat "int list" "int list" int

fun request_of :: "message \<Rightarrow> request" where
  "request_of (Hist ds cdf how) = HistReq (length ds) cdf how"
| "request_of (Logist ds env dither sw) = LogistReq (length ds) env dither sw"

text \<open>A call of the encoder, with the values it leaves in the caller's array; a call that returns an error
  ends the frame.\<close>

fun enc_call :: "Bitstr \<Rightarrow> message \<Rightarrow> (int list \<times> Bitstr) option" where
  "enc_call s (Hist ds cdf how) = do { s \<leftarrow> WebRtcIsac_EncHistMulti s ds cdf (length ds); Some (ds, s) }"
| "enc_call s (Logist ds env dither sw) = do {
     (r, ds, s) \<leftarrow> WebRtcIsac_EncLogisticMulti2 s ds env (length ds) sw;
     if r = 0 then Some (ds, s) else None
   }"

fun dec_call :: "Bitstr \<Rightarrow> request \<Rightarrow> (int \<times> int list \<times> Bitstr) option" where
  "dec_call s (HistReq N cdf (OneStep init_index)) = WebRtcIsac_DecHistOneStepMulti s cdf init_index N"
| "dec_call s (HistReq N cdf (Bisect cdf_size)) = WebRtcIsac_DecHistBisectMulti s cdf cdf_size N"
| "dec_call s (LogistReq N env dither sw) = WebRtcIsac_DecLogisticMulti2 s env dither N sw"

fun enc_calls :: "Bitstr \<Rightarrow> message list \<Rightarrow> (int list list \<times> Bitstr) option" where
  "enc_calls s [] = Some ([], s)"
| "enc_calls s (m # ms) = do {
     (ds, s) \<leftarrow> enc_call s m;
     (dss, s) \<leftarrow> enc_calls s ms;
     Some (ds # dss, s)
   }"

fun dec_calls :: "Bitstr \<Rightarrow> request list \<Rightarrow> (int list \<times> int list list \<times> Bitstr) option" where
  "dec_calls s [] = Some ([], [], s)"
| "dec_calls s (q # qs) = do {
     (r, ds, s) \<leftarrow> dec_call s q;
     (rs, dss, s) \<leftarrow> dec_calls s qs;
     Some (r # rs, ds # dss, s)
   }"

text \<open>The conditions on a call, given the values \<open>ds\<close> it leaves: tables in which the symbols can be coded and
  searched, spectral values that can be searched from their dither.\<close>

fun search_ok :: "int list list \<Rightarrow> search \<Rightarrow> bool" where
  "search_ok cdf (OneStep init_index) = starts_ok cdf init_index"
| "search_ok cdf (Bisect cdf_size) = sizes_ok cdf cdf_size"

fun message_fits :: "message \<Rightarrow> int list \<Rightarrow> bool" where
  "message_fits (Hist ds0 cdf how) ds = (message_ok ds0 cdf \<and> search_ok cdf how)"
| "message_fits (Logist ds0 env dither sw) ds = (list_all is_s16 ds0 \<and> samples_ok sw 0 env dither ds)"

text \<open>The length of the stream when it is terminated.\<close>

definition stream_length :: "Bitstr \<Rightarrow> int" where
  "stream_length s = int (stream_index s) + (if W_upper s > 0x01FFFFFF then 1 else 2)"

lemma dec_finish_follows:
  assumes "dec_follows buf e0 d"
  shows "\<exists>d'. dec_finish d (0, ds, dec_state buf e) = (stream_length e, ds, d') \<and> dec_follows buf e d'"
  using assms by (auto simp: dec_finish_def dec_state_def dec_follows_def stream_length_def)

lemma enc_call_ok:
  assumes "message_fits m ds" and "enc_ok (2 ^ 24) e" and "enc_call e m = Some (ds, e')"
  shows "enc_ok (2 ^ 24) e' \<and> length (stream e') = length (stream e) \<and> (inside buf e' \<longrightarrow> inside buf e)"
proof (cases m)
  case (Hist ds0 cdf how)
  then show ?thesis using assms EncHistMulti_ok [of ds0 cdf e "length ds0" e' buf] by (auto split: Option.bind_splits)
next
  case (Logist ds0 env dither sw)
  then have "enc_logistic sw 0 (length ds0) ds0 env e = Some (0, ds, e')"
    using assms(3) enc_logistic_length [of sw 0 "length ds0" ds0 env e]
    by (auto simp: WebRtcIsac_EncLogisticMulti2_def split: Option.bind_splits if_splits)
  then show ?thesis using enc_logistic_follows [of sw 0 "length ds0" ds0 env e ds e' dither buf] assms Logist by simp
qed

lemma dec_call_follows:
  assumes "message_fits m ds" and "enc_ok (2 ^ 24) e" and "enc_call e m = Some (ds, e')"
    and "inside buf e'" and "dec_follows buf e d"
  shows "\<exists>d'. dec_call d (request_of m) = Some (stream_length e', ds, d') \<and> dec_follows buf e' d'"
proof -
  have in0: "inside buf e" using enc_call_ok [OF assms(1-3)] assms(4) by simp
  then have st: "dec_start d = Some (dec_state buf e)"
    using assms(5) by (intro dec_start_follows) (auto simp: inside_def)
  have W: "W_upper d \<noteq> 0" "stream d = buf" using assms(2,5) by (auto simp: dec_follows_def enc_ok_def)
  have "dec_call d (request_of m) = Some (dec_finish d (0, ds, dec_state buf e'))"
  proof (cases m)
    case (Hist ds0 cdf how)
    then have e: "WebRtcIsac_EncHistMulti e ds0 cdf (length ds0) = Some e'" "ds0 = ds" "message_ok ds cdf" "search_ok cdf how"
      using assms(1,3) by (auto split: Option.bind_splits)
    show ?thesis
    proof (cases how)
      case (OneStep init_index)
      then show ?thesis using one_step_multi_follows [OF e(3) _ assms(2) order_refl _ assms(4), of init_index] e Hist st W
        by (simp add: WebRtcIsac_DecHistOneStepMulti_def)
    next
      case (Bisect cdf_size)
      then show ?thesis using bisect_multi_follows [OF e(3) _ assms(2) order_refl _ assms(4), of cdf_size] e Hist st W
        by (simp add: WebRtcIsac_DecHistBisectMulti_def)
    qed
  next
    case (Logist ds0 env dither sw)
    then have "enc_logistic sw 0 (length ds0) ds0 env e = Some (0, ds, e')"
      using assms(3) enc_logistic_length [of sw 0 "length ds0" ds0 env e]
      by (auto simp: WebRtcIsac_EncLogisticMulti2_def split: Option.bind_splits if_splits)
    then show ?thesis
      using enc_logistic_follows [of sw 0 "length ds0" ds0 env e ds e' dither buf] assms Logist st W
      by (simp add: WebRtcIsac_DecLogisticMulti2_def)
  qed
  then show ?thesis using dec_finish_follows [OF assms(5)] by simp
qed

lemma enc_calls_ConsE:
  assumes "enc_calls e (m # ms) = Some (dss, e')"
  obtains ds dss1 e1 where "dss = ds # dss1" and "enc_call e m = Some (ds, e1)" and "enc_calls e1 ms = Some (dss1, e')"
  using assms by (auto split: Option.bind_splits prod.splits)

lemma enc_calls_ok:
  "list_all2 message_fits ms dss \<Longrightarrow> enc_ok (2 ^ 24) e \<Longrightarrow> enc_calls e ms = Some (dss, e')
     \<Longrightarrow> enc_ok (2 ^ 24) e' \<and> length (stream e') = length (stream e) \<and> (inside buf e' \<longrightarrow> inside buf e)"
proof (induction ms arbitrary: dss e)
  case (Cons m ms)
  obtain ds dss1 e1 where e1: "dss = ds # dss1" "enc_call e m = Some (ds, e1)" "enc_calls e1 ms = Some (dss1, e')"
    by (rule enc_calls_ConsE [OF Cons.prems(3)])
  have "message_fits m ds" "list_all2 message_fits ms dss1" using Cons.prems(1) e1(1) by simp_all
  then show ?case using enc_call_ok [OF _ Cons.prems(2) e1(2), of buf] Cons.IH [OF _ _ e1(3)] by auto
qed simp

lemma dec_calls_follow:
  "list_all2 message_fits ms dss \<Longrightarrow> enc_ok (2 ^ 24) e \<Longrightarrow> enc_calls e ms = Some (dss, e') \<Longrightarrow> inside buf e'
     \<Longrightarrow> dec_follows buf e d
     \<Longrightarrow> \<exists>rs d'. dec_calls d (map request_of ms) = Some (rs, dss, d') \<and> dec_follows buf e' d'
         \<and> (ms \<noteq> [] \<longrightarrow> rs \<noteq> [] \<and> last rs = stream_length e')"
proof (induction ms arbitrary: dss e d)
  case (Cons m ms)
  obtain ds dss1 e1 where e1: "dss = ds # dss1" "enc_call e m = Some (ds, e1)" "enc_calls e1 ms = Some (dss1, e')"
    by (rule enc_calls_ConsE [OF Cons.prems(3)])
  have m: "message_fits m ds" "list_all2 message_fits ms dss1" using Cons.prems(1) e1(1) by simp_all
  have ok: "enc_ok (2 ^ 24) e1" using enc_call_ok [OF m(1) Cons.prems(2) e1(2)] by simp
  have "inside buf e1" using enc_calls_ok [OF m(2) ok e1(3)] Cons.prems(4) by simp
  from dec_call_follows [OF m(1) Cons.prems(2) e1(2) this Cons.prems(5)] obtain d1 where
    d1: "dec_call d (request_of m) = Some (stream_length e1, ds, d1)" "dec_follows buf e1 d1" by blast
  from Cons.IH [OF m(2) ok e1(3) Cons.prems(4) d1(2)] obtain rs d' where
    rs: "dec_calls d1 (map request_of ms) = Some (rs, dss1, d')" "dec_follows buf e' d'"
      "ms \<noteq> [] \<longrightarrow> rs \<noteq> [] \<and> last rs = stream_length e'" by blast
  have "ms = [] \<Longrightarrow> rs = [] \<and> e1 = e'" using rs(1) e1(3) by auto
  then show ?case using d1(1) rs e1(1) by auto
qed simp

lemma ResetBitstream_ok:
  assumes "bytes (stream e)"
  shows "enc_ok (2 ^ 24) (WebRtcIsac_ResetBitstream e)"
    and "dec_follows (stream d) (WebRtcIsac_ResetBitstream e) (WebRtcIsac_ResetBitstream d)"
  using assms by (simp_all add: WebRtcIsac_ResetBitstream_def enc_ok_def enc_pos_def dec_follows_def)

lemma EncHistMulti_room:
  "message_ok ds cdf \<Longrightarrow> enc_ok (2 ^ 24) s \<Longrightarrow> stream_index s + 3 * length ds \<le> length (stream s)
     \<Longrightarrow> \<exists>s'. WebRtcIsac_EncHistMulti s ds cdf (length ds) = Some s'
         \<and> stream_index s' \<le> stream_index s + 3 * length ds"
proof (induction ds arbitrary: cdf s)
  case (Cons d ds)
  then obtain c cdf' where cdf: "cdf = c # cdf'" "codable c d" "message_ok ds cdf'"
    by (auto simp: message_ok_def list_all2_Cons1)
  have d: "int (nat d) = d" "nat (d + 1) = nat d + 1" "0 \<le> d" "d + 1 < int (length c)"
    using cdf(2) by (simp_all add: codable_def nat_add_distrib)
  then have "codable c (int (nat d))" using cdf(2) by simp
  note sym = codable_symbol [OF this]
  let ?l = "W_upper s * (c ! nat d) div 65536" and ?h = "W_upper s * (c ! (nat d + 1)) div 65536"
  from enc_interval_spec [OF Cons.prems(2) sym(2,3,4)] obtain st where gap: "?l + 256 \<le> ?h"
      and e: "enc_interval (c ! nat d) (c ! (nat d + 1)) s = enc_renorm (narrowed s ?l ?h st)"
      and n: "enc_ok 1 (narrowed s ?l ?h st)" "length st = length (stream s)" by blast
  define w where "w = narrowed s ?l ?h st"
  have w: "enc_ok 1 w" "255 \<le> W_upper w" "stream_index w = stream_index s" "length (stream w) = length (stream s)"
    using gap n by (simp_all add: w_def)
  have "2 ^ 24 \<le> W_upper w * 256 ^ 3" using w(2) by simp
  from enc_renorm_room [OF w(1) this] w Cons.prems(3) obtain s1 where
      s1: "enc_renorm w = Some s1" "stream_index s1 \<le> stream_index s + 3" by auto
  have ok: "enc_ok (2 ^ 24) s1" "length (stream s1) = length (stream s)"
    using enc_renorm_spec [OF w(1) s1(1)] w by simp_all
  from Cons.IH [OF cdf(3) ok(1)] ok(2) s1(2) Cons.prems(3) obtain s' where
      "WebRtcIsac_EncHistMulti s1 ds cdf' (length ds) = Some s'" "stream_index s' \<le> stream_index s1 + 3 * length ds" by auto
  then show ?case using cdf(1) d e s1 by (auto simp: read_array_def w_def)
qed simp

lemma EncTerminate_room:
  assumes "enc_ok (2 ^ 24) s" and "stream_index s + 2 \<le> length (stream s)"
  shows "\<exists>n s'. WebRtcIsac_EncTerminate s = Some (n, s')"
proof -
  have W: "2 ^ 24 \<le> W_upper s" using assms(1) by (simp add: enc_ok_def)
  obtain st where st: "add_carry s 0x00010000 = Some st" "length st = length (stream s)"
    using add_carry_spec [OF assms(1), of "0x00010000"] W by auto
  have "W_upper s > 0x01FFFFFF \<Longrightarrow> \<exists>st. add_carry s 0x01000000 = Some st \<and> length st = length (stream s)"
    using add_carry_spec [OF assms(1), of "0x01000000"] by auto
  then show ?thesis
    using st assms(2) by (fastforce simp: WebRtcIsac_EncTerminate_def add_carry_def write_byte_def Let_def)
qed

section \<open>The round trip\<close>

text \<open>A frame with three calls, and streams of bytes \<open>b\<close>.\<close>

definition demo_messages :: "message list" where
  "demo_messages = [Hist [1, 0] [[0, 60000, 65535], [0, 30000, 65535]] (OneStep [1, 1]),
     Logist [123, 20] [256] [5, -20] 0, Hist [1] [[0, 65000, 65535]] (Bisect [4])]"

definition stream_of :: "int list \<Rightarrow> Bitstr" where
  "stream_of bs = \<lparr>stream = bs, W_upper = 0, streamval = 0, stream_index = 0\<rparr>"

lemma demo_messages_fit: "list_all2 message_fits demo_messages [[1, 0], [123, 20], [1]]"
proof -
  have "(4 :: nat) \<in> range (\<lambda>m. 2 * 2 ^ m)" by (rule image_eqI [of _ _ 1]) simp_all
  moreover have "samples_ok 0 0 [256] [5, -20] [123, 20]" by code_simp
  ultimately show ?thesis
    by (simp add: demo_messages_def message_ok_def starts_ok_def sizes_ok_def codable_def is_u16_def is_s16_def)
qed

text \<open>C4. The arithmetic coder round trip. An encoder makes any sequence of calls of the histogram coder, with its two search
  methods, and of the coder of spectral values on a reset stream and terminates it. If the calls fit (\<open>message_fits\<close>:
  the histograms rise at the symbols coded and their search starts or sizes are those of the tables; the spectral values, as the
  encoder leaves them, are at most 32000 in magnitude, the dither at most 256, the envelopes positive, and the probabilities rise
  strictly along the boundaries the decoder meets on its way to the value), then a decoder with the same \<open>n\<close> bytes at
  the start of its buffer, and at least three more bytes of any content, makes the same calls and gets the values the encoder
  coded, and its last call returns \<open>n\<close>, the length of the stream. \<open>DecLogistic_rejects_encoded\<close> below is a
  value that does not fit and is not decoded.\<close>

theorem arith_coder_roundtrip:
  assumes "list_all2 message_fits ms dss" and "ms \<noteq> []" and "bytes (stream e)" and "bytes (stream d)"
    and "enc_calls (WebRtcIsac_ResetBitstream e) ms = Some (dss, e1)" and "WebRtcIsac_EncTerminate e1 = Some (n, e2)"
    and "take (nat n) (stream d) = take (nat n) (stream e2)" and "n + 3 \<le> int (length (stream d))"
  shows "\<exists>rs d'. dec_calls (WebRtcIsac_ResetBitstream d) (map request_of ms) = Some (rs, dss, d') \<and> last rs = n"
proof -
  note ok = ResetBitstream_ok(1) [OF assms(3)]
  have ok1: "enc_ok (2 ^ 24) e1" using enc_calls_ok [OF assms(1) ok assms(5)] by simp
  note t = EncTerminate_spec [OF ok1 assms(6), of "stream d"]
  then have "inside (stream d) e1" using assms(4,7,8) by simp
  from dec_calls_follow [OF assms(1) ok assms(5) this ResetBitstream_ok(2) [OF assms(3)]] assms(2) t
  show ?thesis by (auto simp: stream_length_def)
qed

theorem arith_coder_roundtrip_witness:
  "\<exists>rs d'. dec_calls (WebRtcIsac_ResetBitstream (stream_of [243, 121, 7, 7, 7])) (map request_of demo_messages)
     = Some (rs, [[1, 0], [123, 20], [1]], d') \<and> last rs = 2"
proof -
  let ?e = "stream_of (replicate 16 0)" and ?d = "stream_of [243, 121, 7, 7, 7]"
  let ?e1 = "\<lparr>stream = [243, 0, 0, 0, 0, 0, 0, 0, 0, 0, 0, 0, 0, 0, 0, 0], W_upper = 35417600, streamval = 2017468416,
    stream_index = 1\<rparr>"
  let ?e2 = "\<lparr>stream = [243, 121, 0, 0, 0, 0, 0, 0, 0, 0, 0, 0, 0, 0, 0, 0], W_upper = 35417600, streamval = 2034245632,
    stream_index = 1\<rparr>"
  have ne: "demo_messages \<noteq> []" by (simp add: demo_messages_def)
  have b: "bytes (stream ?e)" "bytes (stream ?d)" by (simp_all add: bytes_def stream_of_def is_u8_def list_all_iff)
  have e1: "enc_calls (WebRtcIsac_ResetBitstream ?e) demo_messages = Some ([[1, 0], [123, 20], [1]], ?e1)" by code_simp
  have e2: "WebRtcIsac_EncTerminate ?e1 = Some (2, ?e2)" by code_simp
  have "take (nat 2) (stream ?d) = take (nat 2) (stream ?e2)" "2 + 3 \<le> int (length (stream ?d))"
    by (simp_all add: stream_of_def)
  from arith_coder_roundtrip [OF demo_messages_fit ne b e1 e2 this] show ?thesis .
qed

text \<open>C22. The histogram encoder, which does not check the size of its buffer, stays inside it when the buffer has
  three bytes for each symbol and two for the end: no write past the end, no carry before the beginning.\<close>

theorem encoder_in_bounds:
  assumes "message_ok ds cdf" and "bytes (stream e)" and "3 * length ds + 2 \<le> length (stream e)"
  shows "\<exists>e1 n e2. WebRtcIsac_EncHistMulti (WebRtcIsac_ResetBitstream e) ds cdf (length ds) = Some e1
     \<and> WebRtcIsac_EncTerminate e1 = Some (n, e2) \<and> 0 < n \<and> n \<le> 3 * int (length ds) + 2"
proof -
  note ok = ResetBitstream_ok(1) [OF assms(2)]
  from EncHistMulti_room [OF assms(1) ok] assms(3) obtain e1 where
    e1: "WebRtcIsac_EncHistMulti (WebRtcIsac_ResetBitstream e) ds cdf (length ds) = Some e1" "stream_index e1 \<le> 3 * length ds"
    by (auto simp: WebRtcIsac_ResetBitstream_def)
  have ok1: "enc_ok (2 ^ 24) e1" "length (stream e1) = length (stream e)"
    using EncHistMulti_ok [OF assms(1) ok order_refl e1(1)] by (simp_all add: WebRtcIsac_ResetBitstream_def)
  from EncTerminate_room [OF ok1(1)] ok1(2) e1(2) assms(3) obtain n e2 where e2: "WebRtcIsac_EncTerminate e1 = Some (n, e2)"
    by auto
  show ?thesis using e1 e2 EncTerminate_spec [OF ok1(1) e2] by (auto split: if_splits)
qed

theorem encoder_in_bounds_witness:
  "\<exists>e1 n e2. WebRtcIsac_EncHistMulti (WebRtcIsac_ResetBitstream (stream_of (replicate 8 0))) [1, 0]
        [[0, 60000, 65535], [0, 30000, 65535]] 2 = Some e1
     \<and> WebRtcIsac_EncTerminate e1 = Some (n, e2) \<and> 0 < n \<and> n \<le> 3 * int 2 + 2"
  using encoder_in_bounds [of "[1, 0]" "[[0, 60000, 65535], [0, 30000, 65535]]" "stream_of (replicate 8 0)"]
  by (simp add: message_ok_def codable_def is_u16_def stream_of_def bytes_def list_all_iff is_u8_def numeral_2_eq_2)

text \<open>The condition on the spectral values is needed: the encoder accepts the sample 14578 with the envelope 10, and
  the decoder rejects the stream. On its way to the sample it meets a boundary with the same probability as
  the one before, which it takes for the end of the distribution.\<close>

lemma DecLogistic_rejects_encoded:
  "(case WebRtcIsac_EncLogisticMulti2 (WebRtcIsac_ResetBitstream (stream_of (replicate 8 0))) [14578] [10] 1 0 of
      None \<Rightarrow> None
    | Some (r, ds, s) \<Rightarrow>
        (case WebRtcIsac_EncTerminate s of None \<Rightarrow> None
         | Some (n, s) \<Rightarrow>
            (case WebRtcIsac_DecLogisticMulti2 (WebRtcIsac_ResetBitstream s) [10] [14] 1 0 of None \<Rightarrow> None
             | Some (r', ds', s') \<Rightarrow> Some (r, ds, n, r', ds')))) = Some (0, [14578], 3, -1, [])"
  by code_simp

end
