(* ===== verification/Isac_Crc.thy ===== *)
theory Isac_Crc
  imports Byte_Lists
begin

text \<open>
  The checksum of an iSAC payload, \<open>modules/audio_coding/codecs/isac/main/source/crc.c\<close>. The payload,
  which the code reads through a \<open>uint8_t*\<close>, is a list of bytes and may be missing. The table is checked
  against the generator polynomial, the table driven loop against division bit by bit, and the
  checksum is shown to detect every burst of errors of up to 32 bits.
\<close>

section \<open>The table driven checksum\<close>

definition POLYNOMIAL :: int where
  "POLYNOMIAL = 0x04c11db7"

definition kCrcTable :: "int list" where
  "kCrcTable = [
    0, 0x4c11db7, 0x9823b6e, 0xd4326d9, 0x130476dc, 0x17c56b6b,
    0x1a864db2, 0x1e475005, 0x2608edb8, 0x22c9f00f, 0x2f8ad6d6, 0x2b4bcb61,
    0x350c9b64, 0x31cd86d3, 0x3c8ea00a, 0x384fbdbd, 0x4c11db70, 0x48d0c6c7,
    0x4593e01e, 0x4152fda9, 0x5f15adac, 0x5bd4b01b, 0x569796c2, 0x52568b75,
    0x6a1936c8, 0x6ed82b7f, 0x639b0da6, 0x675a1011, 0x791d4014, 0x7ddc5da3,
    0x709f7b7a, 0x745e66cd, 0x9823b6e0, 0x9ce2ab57, 0x91a18d8e, 0x95609039,
    0x8b27c03c, 0x8fe6dd8b, 0x82a5fb52, 0x8664e6e5, 0xbe2b5b58, 0xbaea46ef,
    0xb7a96036, 0xb3687d81, 0xad2f2d84, 0xa9ee3033, 0xa4ad16ea, 0xa06c0b5d,
    0xd4326d90, 0xd0f37027, 0xddb056fe, 0xd9714b49, 0xc7361b4c, 0xc3f706fb,
    0xceb42022, 0xca753d95, 0xf23a8028, 0xf6fb9d9f, 0xfbb8bb46, 0xff79a6f1,
    0xe13ef6f4, 0xe5ffeb43, 0xe8bccd9a, 0xec7dd02d, 0x34867077, 0x30476dc0,
    0x3d044b19, 0x39c556ae, 0x278206ab, 0x23431b1c, 0x2e003dc5, 0x2ac12072,
    0x128e9dcf, 0x164f8078, 0x1b0ca6a1, 0x1fcdbb16, 0x18aeb13, 0x54bf6a4,
    0x808d07d, 0xcc9cdca, 0x7897ab07, 0x7c56b6b0, 0x71159069, 0x75d48dde,
    0x6b93dddb, 0x6f52c06c, 0x6211e6b5, 0x66d0fb02, 0x5e9f46bf, 0x5a5e5b08,
    0x571d7dd1, 0x53dc6066, 0x4d9b3063, 0x495a2dd4, 0x44190b0d, 0x40d816ba,
    0xaca5c697, 0xa864db20, 0xa527fdf9, 0xa1e6e04e, 0xbfa1b04b, 0xbb60adfc,
    0xb6238b25, 0xb2e29692, 0x8aad2b2f, 0x8e6c3698, 0x832f1041, 0x87ee0df6,
    0x99a95df3, 0x9d684044, 0x902b669d, 0x94ea7b2a, 0xe0b41de7, 0xe4750050,
    0xe9362689, 0xedf73b3e, 0xf3b06b3b, 0xf771768c, 0xfa325055, 0xfef34de2,
    0xc6bcf05f, 0xc27dede8, 0xcf3ecb31, 0xcbffd686, 0xd5b88683, 0xd1799b34,
    0xdc3abded, 0xd8fba05a, 0x690ce0ee, 0x6dcdfd59, 0x608edb80, 0x644fc637,
    0x7a089632, 0x7ec98b85, 0x738aad5c, 0x774bb0eb, 0x4f040d56, 0x4bc510e1,
    0x46863638, 0x42472b8f, 0x5c007b8a, 0x58c1663d, 0x558240e4, 0x51435d53,
    0x251d3b9e, 0x21dc2629, 0x2c9f00f0, 0x285e1d47, 0x36194d42, 0x32d850f5,
    0x3f9b762c, 0x3b5a6b9b, 0x315d626, 0x7d4cb91, 0xa97ed48, 0xe56f0ff,
    0x1011a0fa, 0x14d0bd4d, 0x19939b94, 0x1d528623, 0xf12f560e, 0xf5ee4bb9,
    0xf8ad6d60, 0xfc6c70d7, 0xe22b20d2, 0xe6ea3d65, 0xeba91bbc, 0xef68060b,
    0xd727bbb6, 0xd3e6a601, 0xdea580d8, 0xda649d6f, 0xc423cd6a, 0xc0e2d0dd,
    0xcda1f604, 0xc960ebb3, 0xbd3e8d7e, 0xb9ff90c9, 0xb4bcb610, 0xb07daba7,
    0xae3afba2, 0xaafbe615, 0xa7b8c0cc, 0xa379dd7b, 0x9b3660c6, 0x9ff77d71,
    0x92b45ba8, 0x9675461f, 0x8832161a, 0x8cf30bad, 0x81b02d74, 0x857130c3,
    0x5d8a9099, 0x594b8d2e, 0x5408abf7, 0x50c9b640, 0x4e8ee645, 0x4a4ffbf2,
    0x470cdd2b, 0x43cdc09c, 0x7b827d21, 0x7f436096, 0x7200464f, 0x76c15bf8,
    0x68860bfd, 0x6c47164a, 0x61043093, 0x65c52d24, 0x119b4be9, 0x155a565e,
    0x18197087, 0x1cd86d30, 0x29f3d35, 0x65e2082, 0xb1d065b, 0xfdc1bec,
    0x3793a651, 0x3352bbe6, 0x3e119d3f, 0x3ad08088, 0x2497d08d, 0x2056cd3a,
    0x2d15ebe3, 0x29d4f654, 0xc5a92679, 0xc1683bce, 0xcc2b1d17, 0xc8ea00a0,
    0xd6ad50a5, 0xd26c4d12, 0xdf2f6bcb, 0xdbee767c, 0xe3a1cbc1, 0xe760d676,
    0xea23f0af, 0xeee2ed18, 0xf0a5bd1d, 0xf464a0aa, 0xf9278673, 0xfde69bc4,
    0x89b8fd09, 0x8d79e0be, 0x803ac667, 0x84fbdbd0, 0x9abc8bd5, 0x9e7d9662,
    0x933eb0bb, 0x97ffad0c, 0xafb010b1, 0xab710d06, 0xa6322bdf, 0xa2f33668,
    0xbcb4666d, 0xb8757bda, 0xb5365d03, 0xb1f740b4]"

definition crc_byte :: "int \<Rightarrow> int \<Rightarrow> int" where
  "crc_byte b crc_state =
     (let crc_tbl_indx = (shr crc_state 24 XOR b) AND 0xFF
      in u32 (shl crc_state 8) XOR kCrcTable ! nat crc_tbl_indx)"

definition WebRtcIsac_GetCrc :: "int list option \<Rightarrow> int \<Rightarrow> int \<Rightarrow> int \<times> int" where
  "WebRtcIsac_GetCrc bitstream len_bitstream_in_bytes crc =
     (case bitstream of None \<Rightarrow> (-1, crc)
      | Some bitstream_ptr_uw8 \<Rightarrow>
          let crc_state = fold (\<lambda>byte_cntr. crc_byte (bitstream_ptr_uw8 ! byte_cntr))
            [0..<nat len_bitstream_in_bytes] 0xFFFFFFFF
          in (0, u32 (NOT crc_state)))"

section \<open>Division bit by bit\<close>

text \<open>One step of the division by the generator polynomial \<open>2\<^sup>3\<^sup>2 + POLYNOMIAL\<close>: the state is shifted, and the
  polynomial subtracted when a bit falls out at the top.\<close>

definition crc_bit :: "int \<Rightarrow> int" where
  "crc_bit w = (if w < 0x80000000 then 2 * w else (2 * w - 0x100000000) XOR POLYNOMIAL)"

fun crc_bits :: "nat \<Rightarrow> int \<Rightarrow> int" where
  "crc_bits 0 w = w"
| "crc_bits (Suc n) w = crc_bits n (crc_bit w)"

text \<open>The entries of the table are the remainders of the 256 values of the top byte.\<close>

fun table_from :: "int \<Rightarrow> int list \<Rightarrow> bool" where
  "table_from i [] \<longleftrightarrow> True"
| "table_from i (x # xs) \<longleftrightarrow> x = crc_bits 8 i \<and> table_from (i + 0x1000000) xs"

lemma kCrcTable_from: "table_from 0 kCrcTable"
  by code_simp


section \<open>The division is linear\<close>

abbreviation word32 :: "int \<Rightarrow> bool" where
  "word32 w \<equiv> 0 \<le> w \<and> w < 2 ^ 32"

lemma word32_xor: "word32 a \<Longrightarrow> word32 b \<Longrightarrow> word32 (a XOR b)"
  using XOR_upper [of a 32 b] by simp

lemma crc_bit_eq:
  assumes "word32 w"
  shows "crc_bit w = take_bit 32 (push_bit 1 w) XOR (if bit w 31 then POLYNOMIAL else 0)"
proof -
  have "bit w 31 \<longleftrightarrow> \<not> w < 2 ^ 31"
  proof -
    have "w div 2 ^ 31 = (if w < 2 ^ 31 then 0 else 1)"
      using assms by (auto simp: div_pos_pos_trivial intro: int_div_pos_eq [where r = "w - 2 ^ 31"])
    then show ?thesis by (simp add: bit_iff_odd)
  qed
  moreover have "take_bit 32 (push_bit 1 w) = (if w < 2 ^ 31 then 2 * w else 2 * w - 2 ^ 32)"
    using assms by (auto simp: take_bit_eq_mod push_bit_eq_mult mult.commute
        intro: int_mod_pos_eq [where q = 1])
  ultimately show ?thesis by (simp add: crc_bit_def)
qed

lemma word32_crc_bit:
  assumes "word32 w"
  shows "word32 (crc_bit w)"
  unfolding crc_bit_eq [OF assms]
  by (rule word32_xor) (use take_bit_int_less_exp [of 32 "push_bit 1 w"] in \<open>simp_all add: POLYNOMIAL_def\<close>)

lemma crc_bit_xor:
  assumes "word32 a" and "word32 b"
  shows "crc_bit (a XOR b) = crc_bit a XOR crc_bit b"
  unfolding crc_bit_eq [OF word32_xor [OF assms]] crc_bit_eq [OF assms(1)] crc_bit_eq [OF assms(2)]
  by (rule bit_eqI) (auto simp: bit_simps)

lemma crc_bit_0_iff: "word32 w \<Longrightarrow> crc_bit w = 0 \<longleftrightarrow> w = 0"
proof -
  assume "word32 w"
  have "(2 * w - 0x100000000) XOR POLYNOMIAL \<noteq> 0"
  proof
    assume "(2 * w - 0x100000000) XOR POLYNOMIAL = 0"
    moreover have "odd ((2 * w - 0x100000000) XOR POLYNOMIAL)" by (simp add: even_xor_iff POLYNOMIAL_def)
    ultimately show False by simp
  qed
  then show ?thesis by (auto simp: crc_bit_def)
qed

lemma word32_crc_bits: "word32 w \<Longrightarrow> word32 (crc_bits n w)"
  by (induction n w rule: crc_bits.induct) (use word32_crc_bit in auto)

lemma crc_bits_xor: "word32 a \<Longrightarrow> word32 b \<Longrightarrow> crc_bits n (a XOR b) = crc_bits n a XOR crc_bits n b"
  by (induction n arbitrary: a b) (use word32_crc_bit crc_bit_xor in auto)

lemma crc_bits_0_iff: "word32 w \<Longrightarrow> crc_bits n w = 0 \<longleftrightarrow> w = 0"
  by (induction n w rule: crc_bits.induct) (use word32_crc_bit crc_bit_0_iff in auto)

lemma crc_bits_add: "crc_bits (m + n) w = crc_bits n (crc_bits m w)"
  by (induction m w rule: crc_bits.induct) auto

lemma crc_bits_shift: "0 \<le> w \<Longrightarrow> w * 2 ^ n < 2 ^ 32 \<Longrightarrow> crc_bits n w = w * 2 ^ n"
proof (induction n arbitrary: w)
  case (Suc n)
  have "w * 2 * 1 \<le> w * 2 * 2 ^ n" using Suc.prems(1) by (intro mult_left_mono) auto
  then have "w < 2 ^ 31" using Suc.prems(2) by simp
  then have "crc_bit w = 2 * w" by (simp add: crc_bit_def)
  then show ?case using Suc by (simp add: ac_simps)
qed simp


section \<open>The table driven step is eight steps of the division\<close>

lemma table_from_nth: "table_from i xs \<Longrightarrow> n < length xs \<Longrightarrow> xs ! n = crc_bits 8 (i + int n * 0x1000000)"
  by (induction i xs arbitrary: n rule: table_from.induct) (auto simp: nth_Cons' of_nat_diff algebra_simps)

lemma length_kCrcTable: "length kCrcTable = 256"
  by (simp add: kCrcTable_def)

lemma kCrcTable_nth: "0 \<le> i \<Longrightarrow> i < 256 \<Longrightarrow> kCrcTable ! nat i = crc_bits 8 (i * 2 ^ 24)"
  using table_from_nth [OF kCrcTable_from, of "nat i"] length_kCrcTable by simp

lemma xor_high_bits:
  assumes "0 \<le> r" and "r < 2 ^ n"
  shows "a * 2 ^ n XOR r = a * 2 ^ n + (r :: int)"
proof -
  have "push_bit n a AND take_bit n r = 0" by (rule bit_eqI) (auto simp: bit_simps)
  then have "a * 2 ^ n AND r = 0" using assms by (simp add: take_bit_int_eq_self push_bit_eq_mult)
  then show ?thesis using plus_and_or [of "a * 2 ^ n" r] disjunctive_xor_eq_or [of "a * 2 ^ n" r] by simp
qed

lemma xor_mult: "(a XOR b) * 2 ^ n = a * 2 ^ n XOR (b * 2 ^ n :: int)"
  using push_bit_xor [of n a b] by (simp add: push_bit_eq_mult)

lemma crc_byte_eq:
  assumes "is_u8 b" and "word32 c"
  shows "crc_byte b c = crc_bits 8 (c XOR b * 2 ^ 24)"
proof -
  let ?h = "c div 2 ^ 24" and ?l = "c mod 2 ^ 24"
  have h: "0 \<le> ?h" "?h < 2 ^ 8" using assms(2) by (simp_all add: div_less_iff pos_imp_zdiv_nonneg_iff)
  have l: "0 \<le> ?l" "?l < 2 ^ 24" by simp_all
  have b: "0 \<le> b" "b < 2 ^ 8" using assms(1) by (simp_all add: is_u8_def)
  have hb: "0 \<le> ?h XOR b" "?h XOR b < 2 ^ 8" using XOR_upper [of ?h 8 b] h b by simp_all
  have "c XOR b * 2 ^ 24 = (?h * 2 ^ 24 XOR ?l) XOR b * 2 ^ 24" using xor_high_bits [of ?l 24 ?h] l by simp
  also have "\<dots> = (?h XOR b) * 2 ^ 24 XOR ?l" by (simp only: xor_mult xor.assoc xor.commute xor.left_commute)
  finally have "c XOR b * 2 ^ 24 = (?h XOR b) * 2 ^ 24 XOR ?l" .
  moreover have "word32 ((?h XOR b) * 2 ^ 24)" "word32 ?l" using hb l by simp_all
  ultimately have "crc_bits 8 (c XOR b * 2 ^ 24) = crc_bits 8 ((?h XOR b) * 2 ^ 24) XOR crc_bits 8 ?l"
    by (simp only: crc_bits_xor)
  moreover have "crc_bits 8 ?l = ?l * 2 ^ 8" using l by (intro crc_bits_shift) simp_all
  moreover have "u32 (shl c 8) = ?l * 2 ^ 8"
    using mult_mod_right [of 256 c "2 ^ 24"] by (simp add: u32_def shl_def mult.commute)
  moreover have "(?h XOR b) AND 0xFF = ?h XOR b"
    using and_low_mask [of "?h XOR b" 8] hb by simp
  ultimately show ?thesis
    using hb kCrcTable_nth [of "?h XOR b"] by (simp add: crc_byte_def shr_def xor.commute)
qed

lemma word32_crc_byte: "is_u8 b \<Longrightarrow> word32 c \<Longrightarrow> word32 (crc_byte b c)"
  unfolding crc_byte_eq by (intro word32_crc_bits word32_xor) (auto simp: is_u8_def)

lemma word32_fold_crc_byte: "bytes xs \<Longrightarrow> word32 c \<Longrightarrow> word32 (fold crc_byte xs c)"
  by (induction xs arbitrary: c) (auto dest: word32_crc_byte)

lemma u32_not: "word32 c \<Longrightarrow> u32 (NOT c) = 0xFFFFFFFF - c"
  using u32_wrap_down [of "- c - 1"] by (simp add: not_int_def)

lemma GetCrc_fold:
  "WebRtcIsac_GetCrc (Some xs) (int (length xs)) crc = (0, u32 (NOT (fold crc_byte xs 0xFFFFFFFF)))"
proof -
  have "fold (\<lambda>i. crc_byte (xs ! i)) [0..<length xs] c = fold crc_byte (map ((!) xs) [0..<length xs]) c" for c
    by (simp only: fold_map comp_def)
  then show ?thesis by (simp add: WebRtcIsac_GetCrc_def map_nth)
qed

text \<open>The table of the checksum is what its polynomial gives, and the table driven loop is division bit by
  bit: each byte is added at the top of the state, which is then divided for eight bits.\<close>

theorem GetCrc_division:
  assumes "bytes xs"
  shows "WebRtcIsac_GetCrc (Some xs) (int (length xs)) crc
     = (0, 0xFFFFFFFF - fold (\<lambda>b c. crc_bits 8 (c XOR b * 2 ^ 24)) xs 0xFFFFFFFF)"
proof -
  have "fold crc_byte ys c = fold (\<lambda>b c. crc_bits 8 (c XOR b * 2 ^ 24)) ys c" if "bytes ys" "word32 c" for ys c
    using that
  proof (induction ys arbitrary: c)
    case (Cons y ys)
    then have "word32 (crc_byte y c)" by (intro word32_crc_byte) simp_all
    then show ?case using Cons by (simp add: crc_byte_eq)
  qed simp
  moreover have "word32 (fold crc_byte xs 0xFFFFFFFF)" using assms by (intro word32_fold_crc_byte) simp_all
  ultimately show ?thesis using assms by (simp add: GetCrc_fold u32_not)
qed


theorem GetCrc_division_witness:
  "WebRtcIsac_GetCrc (Some [0x31, 0x32]) 2 0
     = (0, 0xFFFFFFFF - fold (\<lambda>b c. crc_bits 8 (c XOR b * 2 ^ 24)) [0x31, 0x32] 0xFFFFFFFF)"
  using GetCrc_division [of "[0x31, 0x32]" 0] by (simp add: is_u8_def)

section \<open>Bursts of errors\<close>

text \<open>Up to four bytes are read as one number added at the top of the state.\<close>

lemma fold_crc_byte_be:
  "bytes xs \<Longrightarrow> length xs \<le> 4 \<Longrightarrow> word32 c
     \<Longrightarrow> fold crc_byte xs c = crc_bits (8 * length xs) (c XOR be xs * 256 ^ (4 - length xs))"
proof (induction xs rule: rev_induct)
  case (snoc b xs)
  let ?k = "length xs" and ?p = "256 ^ (3 - length xs) :: int"
  have b: "0 \<le> b" "b < 256" "is_u8 b" and xs: "bytes xs" "?k \<le> 3" using snoc.prems by (auto simp: is_u8_def)
  have p: "?p * 256 ^ ?k = 2 ^ 24" using xs(2) by (simp flip: power_add)
  have p4: "256 ^ (4 - ?k) = 256 * ?p" using xs(2) by (simp flip: power_Suc add: Suc_diff_le)
  have p2: "?p = 2 ^ (8 * (3 - ?k))" by (simp add: power_mult)
  have k8: "2 ^ (8 * ?k) = (256 ^ ?k :: int)" by (simp add: power_mult)
  have eb: "0 \<le> be xs" "be xs < 256 ^ ?k" using be_bounds [OF xs(1)] by simp_all
  have "be xs * (256 * ?p) \<le> (256 ^ ?k - 1) * (256 * ?p)" using eb by (intro mult_right_mono) auto
  also have "\<dots> < 2 ^ 32" using p by (simp add: algebra_simps)
  finally have w: "word32 (c XOR be xs * (256 * ?p))" using snoc.prems(3) eb by (intro word32_xor) auto
  have "b * ?p * 256 ^ ?k < 2 ^ 32" using p b by (simp add: mult.assoc)
  then have sh: "crc_bits (8 * ?k) (b * ?p) = b * ?p * 256 ^ ?k" using b k8 crc_bits_shift [of "b * ?p" "8 * ?k"] by simp
  have "b * ?p \<le> b * ?p * 256 ^ ?k" using b mult_left_mono [of 1 "256 ^ ?k" "b * ?p"] by simp
  then have wb: "word32 (b * ?p)" using \<open>b * ?p * 256 ^ ?k < 2 ^ 32\<close> b by simp
  have "be xs * (256 * ?p) XOR b * ?p = (be xs * 256 XOR b) * ?p"
    unfolding p2 xor_mult by (simp add: mult.assoc)
  also have "be xs * 256 XOR b = be xs * 256 + b" using xor_high_bits [of b 8 "be xs"] b by simp
  finally have x: "be xs * (256 * ?p) XOR b * ?p = be (xs @ [b]) * ?p" by simp
  have "fold crc_byte (xs @ [b]) c = crc_byte b (crc_bits (8 * ?k) (c XOR be xs * (256 * ?p)))"
    using snoc.IH snoc.prems xs p4 by simp
  also have "\<dots> = crc_bits 8 (crc_bits (8 * ?k) (c XOR be xs * (256 * ?p)) XOR b * 2 ^ 24)"
    using b(3) w by (intro crc_byte_eq word32_crc_bits)
  also have "b * 2 ^ 24 = crc_bits (8 * ?k) (b * ?p)" using sh p by (simp add: mult.assoc)
  also have "crc_bits (8 * ?k) (c XOR be xs * (256 * ?p)) XOR crc_bits (8 * ?k) (b * ?p)
      = crc_bits (8 * ?k) ((c XOR be xs * (256 * ?p)) XOR b * ?p)"
    using w wb by (simp only: crc_bits_xor)
  finally show ?case
    using xs(2) by (simp add: x xor.assoc crc_bits_add [symmetric] add.commute)
qed simp

lemma xor_cancel: "a XOR b = a XOR c \<longleftrightarrow> b = (c :: int)"
  by (metis xor.assoc xor.left_neutral xor_self_eq)

lemma crc_bits_inj: "word32 a \<Longrightarrow> word32 b \<Longrightarrow> crc_bits n a = crc_bits n b \<Longrightarrow> a = b"
  using crc_bits_0_iff [of "a XOR b" n] crc_bits_xor [of a b n] word32_xor [of a b] xor_cancel [of a a b]
  by (simp add: xor_self_eq)

lemma fold_crc_byte_inj:
  "bytes ys \<Longrightarrow> word32 a \<Longrightarrow> word32 b \<Longrightarrow> fold crc_byte ys a = fold crc_byte ys b \<Longrightarrow> a = b"
proof (induction ys arbitrary: a b)
  case (Cons y ys)
  have y: "is_u8 y" "bytes ys" "word32 (y * 2 ^ 24)" using Cons.prems(1) by (auto simp: is_u8_def)
  have "crc_byte y a = crc_byte y b"
    using Cons.IH [of "crc_byte y a" "crc_byte y b"] Cons.prems word32_crc_byte y by simp
  then have "crc_bits 8 (a XOR y * 2 ^ 24) = crc_bits 8 (b XOR y * 2 ^ 24)"
    using y Cons.prems by (simp only: crc_byte_eq)
  then have "a XOR y * 2 ^ 24 = b XOR y * 2 ^ 24"
    using crc_bits_inj [OF word32_xor word32_xor] Cons.prems(2,3) y(3) by blast
  then have "y * 2 ^ 24 XOR a = y * 2 ^ 24 XOR b"
    unfolding xor.commute [of a "y * 2 ^ 24"] xor.commute [of b "y * 2 ^ 24"] .
  then show ?case by (rule xor_cancel [THEN iffD1])
qed simp

text \<open>C24. The checksum detects every burst of errors: two payloads that differ only within four consecutive bytes
  have different checksums.\<close>

theorem GetCrc_detects_bursts:
  assumes "bytes (xs @ as @ ys)" and "bytes (xs @ bs @ ys)" and "length as = length bs" and "length as \<le> 4" and "as \<noteq> bs"
  shows "WebRtcIsac_GetCrc (Some (xs @ as @ ys)) (int (length (xs @ as @ ys))) crc
     \<noteq> WebRtcIsac_GetCrc (Some (xs @ bs @ ys)) (int (length (xs @ bs @ ys))) crc"
proof
  let ?c = "fold crc_byte xs 0xFFFFFFFF" and ?k = "length as"
  let ?a = "fold crc_byte as ?c" and ?b = "fold crc_byte bs ?c"
  have c: "word32 ?c" using assms(1) by (intro word32_fold_crc_byte) simp_all
  have ab: "word32 ?a" "word32 ?b" using c assms(1,2) by (intro word32_fold_crc_byte; simp)+
  have w: "word32 (fold crc_byte ys ?a)" "word32 (fold crc_byte ys ?b)" using ab assms(1,2) by (intro word32_fold_crc_byte; simp)+
  assume "WebRtcIsac_GetCrc (Some (xs @ as @ ys)) (int (length (xs @ as @ ys))) crc
     = WebRtcIsac_GetCrc (Some (xs @ bs @ ys)) (int (length (xs @ bs @ ys))) crc"
  then have "fold crc_byte ys ?a = fold crc_byte ys ?b" using w unfolding GetCrc_fold by (simp add: u32_not)
  then have "?a = ?b" using fold_crc_byte_inj [of ys ?a ?b] ab assms(1) by simp
  then have e: "crc_bits (8 * ?k) (?c XOR be as * 256 ^ (4 - ?k)) = crc_bits (8 * ?k) (?c XOR be bs * 256 ^ (4 - ?k))"
    using assms c by (simp add: fold_crc_byte_be)
  have word: "word32 (be zs * 256 ^ (4 - ?k))" if "bytes zs" "length zs = ?k" for zs
  proof -
    have "be zs * 256 ^ (4 - ?k) < 256 ^ ?k * 256 ^ (4 - ?k)" using be_bounds [OF that(1)] that(2) by simp
    also have "\<dots> = 2 ^ 32" using assms(4) by (simp flip: power_add)
    finally show ?thesis using be_bounds [OF that(1)] by simp
  qed
  have "?c XOR be as * 256 ^ (4 - ?k) = ?c XOR be bs * 256 ^ (4 - ?k)"
    using c word [of as] word [of bs] assms(1-3) by (intro crc_bits_inj [OF word32_xor word32_xor e]) simp_all
  then have "be as = be bs" by (simp add: xor_cancel)
  then show False using be_inj [of as bs] assms by simp
qed

theorem GetCrc_detects_bursts_witness:
  "WebRtcIsac_GetCrc (Some ([7] @ [1, 2] @ [9])) (int (length ([7] @ [1, 2] @ [9 :: int]))) 0
     \<noteq> WebRtcIsac_GetCrc (Some ([7] @ [3, 2] @ [9])) (int (length ([7] @ [3, 2] @ [9 :: int]))) 0"
  by (rule GetCrc_detects_bursts) (simp_all add: is_u8_def)

end
