(* ===== verification/Codec_G711.thy ===== *)
theory Codec_G711
  imports Byte_Lists
begin

text \<open>
  The G.711 codec, \<open>modules/audio_coding/codecs/g711\<close>: the companding functions of \<open>g711.h\<close> (the portable
  version of \<open>top_bit\<close>), the transcoding tables of \<open>g711.c\<close>, the frame functions of
  \<open>g711_interface.c\<close>. The little endian version of the latter is modelled: two code words are kept in an
  \<open>int16_t\<close>, the first in the low byte.
\<close>

section \<open>The highest bit\<close>

definition bit_search :: "int \<Rightarrow> int \<Rightarrow> int \<times> int \<Rightarrow> int \<times> int" where
  "bit_search m n st = (case st of (bits, i) \<Rightarrow> if bits AND m \<noteq> 0 then (bits AND m, i + n) else (bits, i))"

definition top_bit :: "int \<Rightarrow> int" where
  "top_bit bits =
     (if bits = 0 then -1
      else let st = (bits, 0);
               st = bit_search 0xFFFF0000 16 st;
               st = bit_search 0xFF00FF00 8 st;
               st = bit_search 0xF0F0F0F0 4 st;
               st = bit_search 0xCCCCCCCC 2 st;
               st = bit_search 0xAAAAAAAA 1 st
           in snd st)"

section \<open>Companding\<close>

definition ULAW_BIAS :: int where
  "ULAW_BIAS = 0x84"

definition linear_to_ulaw :: "int \<Rightarrow> int" where
  "linear_to_ulaw linear =
     (let (linear, m) = (if linear < 0 then (s32 (ULAW_BIAS - linear - 1), 0x7F) else (s32 (ULAW_BIAS + linear), 0xFF));
          seg = top_bit (u32 (linear OR 0xFF)) - 7
      in if seg \<ge> 8 then u8 (0x7F XOR m)
         else u8 ((shl seg 4 OR (shr linear (nat (seg + 3)) AND 0xF)) XOR m))"

definition ulaw_to_linear :: "int \<Rightarrow> int" where
  "ulaw_to_linear ulaw =
     (let ulaw = u8 (NOT ulaw);
          t = shl (shl (ulaw AND 0x0F) 3 + ULAW_BIAS) (nat (shr (ulaw AND 0x70) 4))
      in s16 (if ulaw AND 0x80 \<noteq> 0 then ULAW_BIAS - t else t - ULAW_BIAS))"

definition ALAW_AMI_MASK :: int where
  "ALAW_AMI_MASK = 0x55"

definition linear_to_alaw :: "int \<Rightarrow> int" where
  "linear_to_alaw linear =
     (let (linear, m) = (if linear \<ge> 0 then (linear, ALAW_AMI_MASK OR 0x80) else (s32 (- linear - 1), ALAW_AMI_MASK));
          seg = top_bit (u32 (linear OR 0xFF)) - 7
      in if seg \<ge> 8 then (if linear \<ge> 0 then u8 (0x7F XOR m) else u8 (0x00 XOR m))
         else u8 ((shl seg 4 OR (shr linear (nat (if seg \<noteq> 0 then seg + 3 else 4)) AND 0x0F)) XOR m))"

definition alaw_to_linear :: "int \<Rightarrow> int" where
  "alaw_to_linear alaw =
     (let alaw = u8 (alaw XOR ALAW_AMI_MASK);
          i = shl (alaw AND 0x0F) 4;
          seg = shr (alaw AND 0x70) 4;
          i = (if seg \<noteq> 0 then shl (i + 0x108) (nat (seg - 1)) else i + 8)
      in s16 (if alaw AND 0x80 \<noteq> 0 then i else - i))"

section \<open>Transcoding\<close>

definition ulaw_to_alaw_table :: "int list" where
  "ulaw_to_alaw_table = [
    42, 43, 40, 41, 46, 47, 44, 45, 34, 35, 32, 33, 38, 39, 36, 37, 58, 59, 56, 57,
    62, 63, 60, 61, 50, 51, 48, 49, 54, 55, 52, 53, 10, 11, 8, 9, 14, 15, 12, 13,
    2, 3, 0, 1, 6, 7, 4, 26, 27, 24, 25, 30, 31, 28, 29, 18, 19, 16, 17, 22,
    23, 20, 21, 106, 104, 105, 110, 111, 108, 109, 98, 99, 96, 97, 102, 103, 100, 101, 122, 120,
    126, 127, 124, 125, 114, 115, 112, 113, 118, 119, 116, 117, 75, 73, 79, 77, 66, 67, 64, 65,
    70, 71, 68, 69, 90, 91, 88, 89, 94, 95, 92, 93, 82, 82, 83, 83, 80, 80, 81, 81,
    86, 86, 87, 87, 84, 84, 85, 85, 170, 171, 168, 169, 174, 175, 172, 173, 162, 163, 160, 161,
    166, 167, 164, 165, 186, 187, 184, 185, 190, 191, 188, 189, 178, 179, 176, 177, 182, 183, 180, 181,
    138, 139, 136, 137, 142, 143, 140, 141, 130, 131, 128, 129, 134, 135, 132, 154, 155, 152, 153, 158,
    159, 156, 157, 146, 147, 144, 145, 150, 151, 148, 149, 234, 232, 233, 238, 239, 236, 237, 226, 227,
    224, 225, 230, 231, 228, 229, 250, 248, 254, 255, 252, 253, 242, 243, 240, 241, 246, 247, 244, 245,
    203, 201, 207, 205, 194, 195, 192, 193, 198, 199, 196, 197, 218, 219, 216, 217, 222, 223, 220, 221,
    210, 210, 211, 211, 208, 208, 209, 209, 214, 214, 215, 215, 212, 212, 213, 213]"

definition alaw_to_ulaw_table :: "int list" where
  "alaw_to_ulaw_table = [
    42, 43, 40, 41, 46, 47, 44, 45, 34, 35, 32, 33, 38, 39, 36, 37, 57, 58, 55, 56,
    61, 62, 59, 60, 49, 50, 47, 48, 53, 54, 51, 52, 10, 11, 8, 9, 14, 15, 12, 13,
    2, 3, 0, 1, 6, 7, 4, 5, 26, 27, 24, 25, 30, 31, 28, 29, 18, 19, 16, 17,
    22, 23, 20, 21, 98, 99, 96, 97, 102, 103, 100, 101, 93, 93, 92, 92, 95, 95, 94, 94,
    116, 118, 112, 114, 124, 126, 120, 122, 106, 107, 104, 105, 110, 111, 108, 109, 72, 73, 70, 71,
    76, 77, 74, 75, 64, 65, 63, 63, 68, 69, 66, 67, 86, 87, 84, 85, 90, 91, 88, 89,
    79, 79, 78, 78, 82, 83, 80, 81, 170, 171, 168, 169, 174, 175, 172, 173, 162, 163, 160, 161,
    166, 167, 164, 165, 185, 186, 183, 184, 189, 190, 187, 188, 177, 178, 175, 176, 181, 182, 179, 180,
    138, 139, 136, 137, 142, 143, 140, 141, 130, 131, 128, 129, 134, 135, 132, 133, 154, 155, 152, 153,
    158, 159, 156, 157, 146, 147, 144, 145, 150, 151, 148, 149, 226, 227, 224, 225, 230, 231, 228, 229,
    221, 221, 220, 220, 223, 223, 222, 222, 244, 246, 240, 242, 252, 254, 248, 250, 234, 235, 232, 233,
    238, 239, 236, 237, 200, 201, 198, 199, 204, 205, 202, 203, 192, 193, 191, 191, 196, 197, 194, 195,
    214, 215, 212, 213, 218, 219, 216, 217, 207, 207, 206, 206, 210, 211, 208, 209]"

definition alaw_to_ulaw :: "int \<Rightarrow> int" where
  "alaw_to_ulaw alaw = alaw_to_ulaw_table ! nat alaw"

definition ulaw_to_alaw :: "int \<Rightarrow> int" where
  "ulaw_to_alaw ulaw = ulaw_to_alaw_table ! nat ulaw"

section \<open>Frames\<close>

text \<open>The loops over a frame, for either companding function: code words go in pairs into 16 bit units.\<close>

definition pack_step :: "(int \<Rightarrow> int) \<Rightarrow> int list \<Rightarrow> nat \<Rightarrow> int list \<Rightarrow> int list" where
  "pack_step compand speechIn n encoded =
     (let tempVal = u16 (compand (speechIn ! n))
      in if n mod 2 = 1 then encoded[n div 2 := s16 (encoded ! (n div 2) OR shl tempVal 8)]
         else encoded[n div 2 := s16 tempVal])"

definition unpack_step :: "(int \<Rightarrow> int) \<Rightarrow> int list \<Rightarrow> nat \<Rightarrow> int list \<Rightarrow> int list" where
  "unpack_step expand encoded n decoded =
     (let tempVal = (if n mod 2 = 1 then u16 (shr (encoded ! (n div 2)) 8) else u16 (encoded ! (n div 2) AND 0xFF))
      in decoded[n := expand (u8 tempVal)])"

definition WebRtcG711_EncodeA :: "int list \<Rightarrow> int \<Rightarrow> int list \<Rightarrow> int \<times> int list" where
  "WebRtcG711_EncodeA speechIn len encoded =
     (if len < 0 then (-1, encoded) else (len, fold (pack_step linear_to_alaw speechIn) [0..<nat len] encoded))"

definition WebRtcG711_EncodeU :: "int list \<Rightarrow> int \<Rightarrow> int list \<Rightarrow> int \<times> int list" where
  "WebRtcG711_EncodeU speechIn len encoded =
     (if len < 0 then (-1, encoded) else (len, fold (pack_step linear_to_ulaw speechIn) [0..<nat len] encoded))"

definition WebRtcG711_DecodeA :: "int list \<Rightarrow> int \<Rightarrow> int list \<Rightarrow> int \<Rightarrow> int \<times> int list \<times> int" where
  "WebRtcG711_DecodeA encoded len decoded speechType =
     (if len < 0 then (-1, decoded, speechType)
      else (len, fold (unpack_step alaw_to_linear encoded) [0..<nat len] decoded, 1))"

definition WebRtcG711_DecodeU :: "int list \<Rightarrow> int \<Rightarrow> int list \<Rightarrow> int \<Rightarrow> int \<times> int list \<times> int" where
  "WebRtcG711_DecodeU encoded len decoded speechType =
     (if len < 0 then (-1, decoded, speechType)
      else (len, fold (unpack_step ulaw_to_linear encoded) [0..<nat len] decoded, 1))"

definition WebRtcG711_DurationEst :: "int \<Rightarrow> int" where
  "WebRtcG711_DurationEst payload_length_bytes = payload_length_bytes"

section \<open>The highest bit is found\<close>

text \<open>A mask that covers the upper half of the window of \<open>2 n\<close> bits at \<open>i\<close> selects the upper half of a value
  in the window.\<close>

lemma window_mask:
  assumes "0 \<le> x" and "x < 2 ^ (2 * n)" and "take_bit (2 * n) (drop_bit i m) = (2 ^ (2 * n) - 2 ^ n :: int)"
  shows "(x * 2 ^ i) AND m = (x div 2 ^ n * 2 ^ n) * 2 ^ i"
proof -
  have "push_bit i x AND m = push_bit i (x AND take_bit (2 * n) (drop_bit i m))"
  proof (rule bit_eqI)
    fix k
    have "bit x j \<Longrightarrow> j < 2 * n" for j
      using assms(1,2) by (metis bit_take_bit_iff take_bit_int_eq_self)
    then show "bit (push_bit i x AND m) k = bit (push_bit i (x AND take_bit (2 * n) (drop_bit i m))) k"
      by (auto simp: bit_simps)
  qed
  also have "x AND take_bit (2 * n) (drop_bit i m) = push_bit n (drop_bit n x)"
  proof -
    have hm: "(2 ^ (2 * n) - 2 ^ n :: int) = push_bit n (mask n)"
      by (simp add: push_bit_eq_mult mask_eq_exp_minus_1 left_diff_distrib mult_2 power_add)
    have "x div 2 ^ n < 2 ^ n" using assms by (simp add: div_less_iff mult_2 power_add)
    then have "take_bit n (drop_bit n x) = drop_bit n x"
      using assms by (simp add: take_bit_int_eq_self_iff drop_bit_eq_div pos_imp_zdiv_nonneg_iff)
    moreover have "x AND push_bit n (mask n) = push_bit n (take_bit n (drop_bit n x))"
      by (rule bit_eqI) (auto simp: bit_simps)
    ultimately show ?thesis by (simp add: assms(3) hm)
  qed
  finally show ?thesis by (simp add: push_bit_eq_mult drop_bit_eq_div)
qed

text \<open>The state of the search for the bit \<open>k\<close>: a value in a window of \<open>2 n\<close> bits whose highest bit is \<open>k\<close>.\<close>

definition in_window :: "nat \<Rightarrow> nat \<Rightarrow> int \<times> int \<Rightarrow> bool" where
  "in_window k w st \<longleftrightarrow> (\<exists>x i. st = (x * 2 ^ i, int i) \<and> i mod w = 0 \<and> i + w \<le> 32 \<and> i \<le> k
     \<and> 2 ^ (k - i) \<le> x \<and> x < 2 ^ (k - i + 1) \<and> x < 2 ^ w)"

definition mask_ok :: "int \<Rightarrow> nat \<Rightarrow> bool" where
  "mask_ok m n \<longleftrightarrow> list_all (\<lambda>i. i mod (2 * n) = 0 \<and> i + 2 * n \<le> 32
     \<longrightarrow> take_bit (2 * n) (drop_bit i m) = (2 ^ (2 * n) - 2 ^ n :: int)) [0..<32]"

lemma masks_ok: "mask_ok 0xFFFF0000 16" "mask_ok 0xFF00FF00 8" "mask_ok 0xF0F0F0F0 4" "mask_ok 0xCCCCCCCC 2"
    "mask_ok 0xAAAAAAAA 1"
  by code_simp+


lemma bit_search_window:
  assumes "in_window k (2 * n) st" and "mask_ok m n" and "0 < n"
  shows "in_window k n (bit_search m (int n) st)"
proof -
  obtain x i where st: "st = (x * 2 ^ i, int i)" and i: "i mod (2 * n) = 0" "i + 2 * n \<le> 32" "i \<le> k"
    and x: "2 ^ (k - i) \<le> x" "x < 2 ^ (k - i + 1)" "x < 2 ^ (2 * n)"
    using assms(1) unfolding in_window_def by auto
  have x0: "0 \<le> x" using x(1) by (rule order_trans [rotated]) simp
  have "take_bit (2 * n) (drop_bit i m) = (2 ^ (2 * n) - 2 ^ n :: int)"
    using assms(2,3) i by (auto simp: mask_ok_def list_all_iff)
  note sel = window_mask [OF x0 x(3) this]
  have in0: "i mod n = 0" using i(1) by (metis dvd_eq_mod_eq_0 dvd_mult_left mult.commute)
  show ?thesis
  proof (cases "n \<le> k - i")
    case True
    have p: "(2 :: int) ^ (k - i) = 2 ^ (k - (i + n)) * 2 ^ n" using True i(3) by (simp flip: power_add)
    have y: "2 ^ (k - (i + n)) \<le> x div 2 ^ n" using x(1) p by (simp add: le_div_iff)
    then have "0 < x div 2 ^ n" by (rule less_le_trans [rotated]) simp
    moreover have "x div 2 ^ n < 2 ^ (k - (i + n) + 1)" using x(2) p by (simp add: div_less_iff)
    moreover have "x div 2 ^ n < 2 ^ n" using x(3) by (simp add: div_less_iff mult_2 power_add)
    moreover have "(i + n) mod n = 0" using in0 by simp
    moreover have "x * 2 ^ i AND m = x div 2 ^ n * 2 ^ (i + n)" using sel by (simp add: power_add ac_simps)
    ultimately show ?thesis
      unfolding in_window_def bit_search_def st using True i y
      by (intro exI [of _ "x div 2 ^ n"] exI [of _ "i + n"]) simp
  next
    case False
    then have "(2 :: int) ^ (k - i + 1) \<le> 2 ^ n" by (intro power_increasing) auto
    then have "x < 2 ^ n" using x(2) by linarith
    then have "x * 2 ^ i AND m = 0" using sel x0 by (simp add: div_pos_pos_trivial)
    then show ?thesis
      unfolding in_window_def bit_search_def st using i x \<open>x < 2 ^ n\<close> in0
      by (intro exI [of _ x] exI [of _ i]) simp
  qed
qed

lemma top_bit_eq:
  assumes "2 ^ k \<le> b" and "b < 2 ^ (k + 1)" and "k < 32"
  shows "top_bit b = int k"
proof -
  have "(2 :: int) ^ (k + 1) \<le> 2 ^ 32" using assms(3) by (intro power_increasing) auto
  then have w: "in_window k (2 * 16) (b, 0)"
    using assms by (auto simp: in_window_def intro!: exI [of _ b] exI [of _ 0])
  then have "in_window k (2 * 8) (bit_search 0xFFFF0000 16 (b, 0))" using bit_search_window [OF w masks_ok(1)] by simp
  from bit_search_window [OF this masks_ok(2)]
  have "in_window k (2 * 4) (bit_search 0xFF00FF00 8 (bit_search 0xFFFF0000 16 (b, 0)))" by simp
  from bit_search_window [OF this masks_ok(3)]
  have "in_window k (2 * 2) (bit_search 0xF0F0F0F0 4 (bit_search 0xFF00FF00 8 (bit_search 0xFFFF0000 16 (b, 0))))" by simp
  from bit_search_window [OF this masks_ok(4)]
  have "in_window k (2 * 1) (bit_search 0xCCCCCCCC 2 (bit_search 0xF0F0F0F0 4 (bit_search 0xFF00FF00 8
      (bit_search 0xFFFF0000 16 (b, 0)))))" by simp
  from bit_search_window [OF this masks_ok(5)]
  have "in_window k 1 (bit_search 0xAAAAAAAA 1 (bit_search 0xCCCCCCCC 2 (bit_search 0xF0F0F0F0 4
      (bit_search 0xFF00FF00 8 (bit_search 0xFFFF0000 16 (b, 0))))))" by simp
  moreover have "snd st = int k" if "in_window k 1 st" for st
  proof -
    from that obtain x i where x: "st = (x * 2 ^ i, int i)" "i \<le> k" "2 ^ (k - i) \<le> x" "x < 2 ^ 1"
      unfolding in_window_def by auto
    then have "(2 :: int) ^ (k - i) < 2 ^ 1" by linarith
    then have "k - i < 1" using power_less_imp_less_exp [of "2 :: int" "k - i" 1] by simp
    then show ?thesis using x by simp
  qed
  moreover have "0 < b" using assms(1) by (rule less_le_trans [rotated]) simp
  ultimately show ?thesis by (simp add: top_bit_def Let_def)
qed

section \<open>Segments\<close>

text \<open>The segment of a magnitude: 0 up to 255, then one more for every factor of two.\<close>

lemma or_0xFF: "y OR 0xFF = y div 256 * 256 + (255 :: int)"
proof -
  have "y OR mask 8 = push_bit 8 (drop_bit 8 y) OR mask 8" by (rule bit_eqI) (auto simp: bit_simps)
  also have "\<dots> = y div 2 ^ 8 * 2 ^ 8 OR 255" by (simp add: push_bit_eq_mult drop_bit_eq_div mask_eq_exp_minus_1)
  also have "\<dots> = y div 2 ^ 8 * 2 ^ 8 + 255" by (rule or_high_bits) simp_all
  finally show ?thesis by (simp add: mask_eq_exp_minus_1)
qed

lemma segment_of:
  assumes "0 \<le> y" and "y < 2 ^ 16"
  obtains seg where "top_bit (u32 (y OR 0xFF)) - 7 = int seg" and "seg \<le> 8"
    and "seg = 0 \<Longrightarrow> y < 256" and "0 < seg \<Longrightarrow> 2 ^ (seg + 7) \<le> y" and "y < 2 ^ (seg + 8)"
proof -
  let ?b = "y div 256 * 256 + 255"
  have d: "0 \<le> y div 256" "y div 256 < 256" using assms by (simp_all add: div_less_iff pos_imp_zdiv_nonneg_iff)
  then have u: "u32 (y OR 0xFF) = ?b" by (simp add: or_0xFF u32_id)
  show thesis
  proof (cases "y < 256")
    case True
    then have "?b = 255" using assms by simp
    moreover have "top_bit 255 = int 7" by (rule top_bit_eq) simp_all
    ultimately show thesis using u True by (intro that [of 0]) simp_all
  next
    case False
    obtain k where k: "2 ^ k \<le> y" "y < 2 ^ (k + 1)"
    proof -
      have "\<exists>k. 2 ^ k \<le> n \<and> n < 2 ^ (k + 1)" if "0 < n" for n :: nat
        using ex_power_ivl1 [of 2 n] that by auto
      then obtain k where "2 ^ k \<le> nat y" "nat y < 2 ^ (k + 1)" using False by (metis zero_less_nat_eq not_less le_less_trans zero_less_numeral linorder_not_le)
      then have "int (2 ^ k) \<le> int (nat y)" "int (nat y) < int (2 ^ (k + 1))" by linarith+
      then show thesis using False by (intro that [of k]) simp_all
    qed
    have "(2 :: int) ^ 8 < 2 ^ (k + 1)" using k(2) False by simp
    then have k8: "8 \<le> k" using power_less_imp_less_exp [of "2 :: int" 8 "k + 1"] by simp
    have "(2 :: int) ^ k < 2 ^ 16" using k(1) assms(2) by linarith
    then have k16: "k < 16" using power_less_imp_less_exp [of "2 :: int" k 16] by simp
    have p: "(2 :: int) ^ k = 2 ^ (k - 8) * 256" "(2 :: int) ^ (k + 1) = 2 ^ (k - 7) * 256"
      using k8 power_add [of "2 :: int" "k - 8" 8] power_add [of "2 :: int" "k - 7" 8] by simp_all
    have "2 ^ (k - 8) \<le> y div 256" "y div 256 < 2 ^ (k - 7)" using k p by (simp_all add: le_div_iff div_less_iff)
    then have "2 ^ k \<le> ?b" "?b < 2 ^ (k + 1)" unfolding p by linarith+
    then have "top_bit ?b = int k" using k16 by (intro top_bit_eq) simp_all
    then show thesis using u k k8 k16 False by (intro that [of "k - 7"]) (auto simp: of_nat_diff)
  qed
qed


section \<open>The codes\<close>

text \<open>A code word without its sign and inversion: the segment and four bits of the magnitude.\<close>

lemma code_or: "0 \<le> q \<Longrightarrow> q < 16 \<Longrightarrow> shl s 4 OR q = s * 16 + (q :: int)"
  using or_high_bits [of q 4 s] by (simp add: shl_def)

text \<open>What the masks do to the 128 code words without sign: inversion and its undoing, sign, segment and
  magnitude bits.\<close>

definition code_masks :: "int \<Rightarrow> bool" where
  "code_masks c \<longleftrightarrow> u8 (u8 (c XOR 0xD5) XOR 0x55) = c + 128 \<and> u8 (u8 (c XOR 0x55) XOR 0x55) = c
     \<and> u8 (NOT (u8 (c XOR 0xFF))) = c \<and> u8 (NOT (u8 (c XOR 0x7F))) = c + 128
     \<and> c AND 0x80 = 0 \<and> (c + 128) AND 0x80 = 128 \<and> c AND 0x0F = c mod 16 \<and> (c + 128) AND 0x0F = c mod 16
     \<and> c AND 0x70 = c div 16 * 16 \<and> (c + 128) AND 0x70 = c div 16 * 16"

fun all_from :: "(int \<Rightarrow> bool) \<Rightarrow> int \<Rightarrow> nat \<Rightarrow> bool" where
  "all_from P c 0 \<longleftrightarrow> True"
| "all_from P c (Suc n) \<longleftrightarrow> P c \<and> all_from P (c + 1) n"

lemma all_fromD: "all_from P a n \<Longrightarrow> a \<le> c \<Longrightarrow> c < a + int n \<Longrightarrow> P c"
proof (induction P a n rule: all_from.induct)
  case (2 P a n)
  then show ?case by (cases "c = a") auto
qed simp

lemma code_masks_all: "all_from code_masks 0 128"
  by code_simp

lemma code_masksI: "0 \<le> c \<Longrightarrow> c < 128 \<Longrightarrow> code_masks c"
  using all_fromD [OF code_masks_all] by simp

text \<open>The A-law magnitude of a code word, and the code word of a magnitude.\<close>

definition alaw_magnitude :: "int \<Rightarrow> int" where
  "alaw_magnitude c =
     (if c div 16 \<noteq> 0 then (c mod 16 * 16 + 0x108) * 2 ^ nat (c div 16 - 1) else c mod 16 * 16 + 8)"

lemma alaw_decode:
  assumes "0 \<le> c" and "c < 128"
  shows "alaw_to_linear (u8 (c XOR 0xD5)) = alaw_magnitude c" and "alaw_to_linear (u8 (c XOR 0x55)) = - alaw_magnitude c"
proof -
  have m: "code_masks c" using assms by (rule code_masksI)
  have d: "0 \<le> c div 16" "c div 16 \<le> 7" using assms by (simp_all add: div_less_iff flip: zle_add1_eq_le)
  have "(2 :: int) ^ nat (c div 16 - 1) \<le> 2 ^ 6" using d by (intro power_increasing) auto
  moreover have "c mod 16 * 16 + 0x108 \<le> 504" using pos_mod_bound [of 16 c] by linarith
  ultimately have "(c mod 16 * 16 + 0x108) * 2 ^ nat (c div 16 - 1) \<le> 504 * 2 ^ 6" by (intro mult_mono) auto
  then have r: "0 \<le> alaw_magnitude c" "alaw_magnitude c \<le> 32256"
    using pos_mod_bound [of 16 c] by (auto simp: alaw_magnitude_def)
  have "alaw_to_linear (u8 (c XOR 0xD5)) = s16 (alaw_magnitude c)" "alaw_to_linear (u8 (c XOR 0x55)) = s16 (- alaw_magnitude c)"
    using m unfolding code_masks_def
    by (simp_all add: alaw_to_linear_def ALAW_AMI_MASK_def Let_def alaw_magnitude_def shl_def shr_def)
  then show "alaw_to_linear (u8 (c XOR 0xD5)) = alaw_magnitude c" "alaw_to_linear (u8 (c XOR 0x55)) = - alaw_magnitude c"
    using r by (simp_all add: s16_id)
qed

lemma alaw_encode:
  assumes "0 \<le> y" and "y < 2 ^ 15"
  obtains c where "0 \<le> c" and "c < 128" and "linear_to_alaw y = u8 (c XOR 0xD5)"
    and "linear_to_alaw (- y - 1) = u8 (c XOR 0x55)"
    and "alaw_magnitude c - y \<le> max 8 (y div 32)" and "y - alaw_magnitude c < max 8 (y div 32)"
proof -
  obtain seg where seg: "top_bit (u32 (y OR 0xFF)) - 7 = int seg" "seg = 0 \<Longrightarrow> y < 256"
      "0 < seg \<Longrightarrow> 2 ^ (seg + 7) \<le> y" "y < 2 ^ (seg + 8)"
    using segment_of [of y] assms by auto
  have s7: "seg \<le> 7"
  proof (rule ccontr)
    assume "\<not> seg \<le> 7"
    then have "(2 :: int) ^ 15 \<le> 2 ^ (seg + 7)" by (intro power_increasing) auto
    then show False using seg(3) assms(2) \<open>\<not> seg \<le> 7\<close> by simp
  qed
  define w where "w = (if seg \<noteq> 0 then seg + 3 else 4)"
  define c where "c = int seg * 16 + y div 2 ^ w mod 16"
  have c: "0 \<le> c" "c < 128" "c div 16 = int seg" "c mod 16 = y div 2 ^ w mod 16"
    using s7 pos_mod_bound [of 16 "y div 2 ^ w"] by (simp_all add: c_def)
  have code: "shl (int seg) 4 OR (shr y w AND 0x0F) = c"
    using and_low_mask [of "shr y w" 4] code_or [of "y div 2 ^ w mod 16" "int seg"] by (simp add: c_def shr_def)
  have nat: "nat (if int seg \<noteq> 0 then int seg + 3 else 4) = w" by (simp add: w_def nat_add_distrib)
  have tb: "top_bit (u32 (y OR 0xFF)) = int seg + 7" using seg(1) by linarith
  have enc: "linear_to_alaw y = u8 (c XOR 0xD5)"
    using assms tb s7 nat code by (cases "seg = 0") (simp_all add: linear_to_alaw_def ALAW_AMI_MASK_def Let_def)
  have "s32 (- (- y - 1) - 1) = y" using assms by (simp add: s32_id)
  then have enc': "linear_to_alaw (- y - 1) = u8 (c XOR 0x55)"
    using assms tb s7 nat code by (cases "seg = 0") (simp_all add: linear_to_alaw_def ALAW_AMI_MASK_def Let_def)
  have "alaw_magnitude c - y \<le> max 8 (y div 32) \<and> y - alaw_magnitude c < max 8 (y div 32)"
  proof (cases "seg = 0")
    case True
    then have "y div 16 < 16" "0 \<le> y div 16" using seg(2) assms by (simp_all add: div_less_iff pos_imp_zdiv_nonneg_iff)
    then have "alaw_magnitude c = y div 16 * 16 + 8" using True c by (simp add: alaw_magnitude_def w_def)
    moreover have "y = y div 16 * 16 + y mod 16" by simp
    moreover have "0 \<le> y mod 16" "y mod 16 < 16" by simp_all
    ultimately show ?thesis by linarith
  next
    case False
    let ?q = "y div 2 ^ (seg + 3)" and ?h = "2 ^ (seg + 2) :: int"
    have w: "w = seg + 3" using False by (simp add: w_def)
    have p: "2 ^ (seg + 3) = 2 * ?h" "2 ^ (seg + 7) = 32 * ?h" "2 ^ (seg + 8) = 32 * (2 * ?h)" by (simp_all add: power_add)
    have y: "32 * ?h \<le> y" "y < 32 * (2 * ?h)" using seg(3,4) False p by simp_all
    then have q: "16 \<le> ?q" "?q < 32" unfolding p by (simp_all add: le_div_iff div_less_iff)
    have "?q mod 16 = ?q - 16" using q mod_pos_pos_trivial [of "?q - 16" 16] by simp
    moreover have "nat (int seg - 1) = seg - 1" using False by simp
    ultimately have "alaw_magnitude c = ((?q - 16) * 16 + 0x108) * 2 ^ (seg - 1)"
      using False c(3,4) w by (simp add: alaw_magnitude_def)
    also have "\<dots> = (2 * ?q + 1) * (8 * 2 ^ (seg - 1))" by (simp add: algebra_simps)
    also have "8 * 2 ^ (seg - 1) = ?h" using False power_add [of "2 :: int" 3 "seg - 1"] by (simp add: add.commute)
    finally have mag: "alaw_magnitude c = ?q * (2 * ?h) + ?h" by (simp add: algebra_simps)
    have "y = ?q * (2 * ?h) + y mod (2 * ?h)" unfolding p by (rule div_mult_mod_eq [symmetric])
    moreover have "0 \<le> y mod (2 * ?h)" "y mod (2 * ?h) < 2 * ?h" by simp_all
    ultimately have "alaw_magnitude c - y \<le> ?h" "y - alaw_magnitude c < ?h" unfolding mag by linarith+
    moreover have "?h \<le> y div 32" using y(1) by (simp add: le_div_iff mult.commute)
    ultimately show ?thesis by linarith
  qed
  then show thesis using that c enc enc' by blast
qed


text \<open>The same for u-law, whose magnitudes carry a bias of 132.\<close>

definition ulaw_magnitude :: "int \<Rightarrow> int" where
  "ulaw_magnitude c = (c mod 16 * 8 + 132) * 2 ^ nat (c div 16) - 132"

lemma ulaw_decode:
  assumes "0 \<le> c" and "c < 128"
  shows "ulaw_to_linear (u8 (c XOR 0xFF)) = ulaw_magnitude c" and "ulaw_to_linear (u8 (c XOR 0x7F)) = - ulaw_magnitude c"
proof -
  have m: "code_masks c" using assms by (rule code_masksI)
  have d: "0 \<le> c div 16" "c div 16 \<le> 7" using assms by (simp_all add: div_less_iff flip: zle_add1_eq_le)
  have "(2 :: int) ^ nat (c div 16) \<le> 2 ^ 7" using d by (intro power_increasing) auto
  moreover have "c mod 16 * 8 + 132 \<le> 252" using pos_mod_bound [of 16 c] by linarith
  ultimately have "(c mod 16 * 8 + 132) * 2 ^ nat (c div 16) \<le> 252 * 2 ^ 7" by (intro mult_mono) auto
  moreover have "132 * 1 \<le> (c mod 16 * 8 + 132) * 2 ^ nat (c div 16)" by (intro mult_mono) auto
  ultimately have r: "0 \<le> ulaw_magnitude c" "ulaw_magnitude c \<le> 32124" by (simp_all add: ulaw_magnitude_def)
  have "ulaw_to_linear (u8 (c XOR 0xFF)) = s16 (ulaw_magnitude c)" "ulaw_to_linear (u8 (c XOR 0x7F)) = s16 (- ulaw_magnitude c)"
    using m unfolding code_masks_def
    by (simp_all add: ulaw_to_linear_def ULAW_BIAS_def Let_def ulaw_magnitude_def shl_def shr_def)
  then show "ulaw_to_linear (u8 (c XOR 0xFF)) = ulaw_magnitude c" "ulaw_to_linear (u8 (c XOR 0x7F)) = - ulaw_magnitude c"
    using r by (simp_all add: s16_id)
qed

lemma ulaw_encode:
  assumes "0 \<le> y" and "y < 2 ^ 15"
  obtains c where "0 \<le> c" and "c < 128" and "linear_to_ulaw y = u8 (c XOR 0xFF)"
    and "linear_to_ulaw (- y - 1) = u8 (c XOR 0x7F)"
    and "ulaw_magnitude c - y \<le> (y + 132) div 32" and "y - ulaw_magnitude c < (y + 132) div 32"
proof -
  define L where "L = y + 132"
  have L: "132 \<le> L" "L < 2 ^ 15 + 132" using assms by (simp_all add: L_def)
  then obtain seg where seg: "top_bit (u32 (L OR 0xFF)) - 7 = int seg" "seg \<le> 8" "seg = 0 \<Longrightarrow> L < 256"
      "0 < seg \<Longrightarrow> 2 ^ (seg + 7) \<le> L" "L < 2 ^ (seg + 8)"
    using segment_of [of L] by auto
  have tb: "top_bit (u32 (L OR 0xFF)) = int seg + 7" using seg(1) by linarith
  define c where "c = (if seg = 8 then 127 else int seg * 16 + L div 2 ^ (seg + 3) mod 16)"
  have c: "0 \<le> c" "c < 128" using seg(2) pos_mod_bound [of 16 "L div 2 ^ (seg + 3)"]
    by (auto simp: c_def simp del: pos_mod_bound)
  have code: "seg \<noteq> 8 \<Longrightarrow> shl (int seg) 4 OR (shr L (seg + 3) AND 0xF) = c"
    using and_low_mask [of "shr L (seg + 3)" 4] code_or [of "L div 2 ^ (seg + 3) mod 16" "int seg"]
    by (simp add: c_def shr_def)
  have n: "nat (int seg + 3) = seg + 3" by (simp add: nat_add_distrib)
  have s: "s32 (132 + y) = L" "s32 (132 - (- y - 1) - 1) = L" using assms by (simp_all add: s32_id L_def)
  have enc: "linear_to_ulaw y = u8 (c XOR 0xFF)" "linear_to_ulaw (- y - 1) = u8 (c XOR 0x7F)"
    using assms(1) tb seg(2) n s code
    by (cases "seg = 8"; simp add: linear_to_ulaw_def ULAW_BIAS_def Let_def c_def)+
  have "ulaw_magnitude c + 132 - L \<le> L div 32 \<and> L - (ulaw_magnitude c + 132) < L div 32"
  proof (cases "seg = 8")
    case True
    then have "ulaw_magnitude c = 32124" "2 ^ 15 \<le> L" using seg(4) by (simp_all add: ulaw_magnitude_def c_def)
    then have "1024 \<le> L div 32" "ulaw_magnitude c = 32124" "2 ^ 15 \<le> L" by (simp_all add: le_div_iff)
    then show ?thesis using L by simp
  next
    case False
    let ?q = "L div 2 ^ (seg + 3)" and ?h = "2 ^ (seg + 2) :: int"
    have p: "2 ^ (seg + 3) = 2 * ?h" "2 ^ (seg + 7) = 32 * ?h" "2 ^ (seg + 8) = 32 * (2 * ?h)" by (simp_all add: power_add)
    have y: "32 * ?h \<le> L" "L < 32 * (2 * ?h)" using seg(4,5) L p by (cases "seg = 0"; simp)+
    then have q: "16 \<le> ?q" "?q < 32" unfolding p by (simp_all add: le_div_iff div_less_iff)
    have "c div 16 = int seg" "c mod 16 = ?q - 16"
      using False q mod_pos_pos_trivial [of "?q - 16" 16] by (simp_all add: c_def)
    then have "ulaw_magnitude c + 132 = ((?q - 16) * 8 + 132) * 2 ^ seg" by (simp add: ulaw_magnitude_def)
    also have "\<dots> = (2 * ?q + 1) * ?h" by (simp add: power_add algebra_simps)
    finally have mag: "ulaw_magnitude c + 132 = ?q * (2 * ?h) + ?h" by (simp add: algebra_simps)
    have "L = ?q * (2 * ?h) + L mod (2 * ?h)" unfolding p by (rule div_mult_mod_eq [symmetric])
    moreover have "0 \<le> L mod (2 * ?h)" "L mod (2 * ?h) < 2 * ?h" by simp_all
    ultimately have "ulaw_magnitude c + 132 - L \<le> ?h" "L - (ulaw_magnitude c + 132) < ?h" unfolding mag by linarith+
    moreover have "?h \<le> L div 32" using y(1) by (simp add: le_div_iff mult.commute)
    ultimately show ?thesis by linarith
  qed
  then show thesis using that [OF c enc] by (simp add: L_def)
qed


lemma unpack_word:
  assumes "0 \<le> a" and "a \<le> 255" and "0 \<le> b" and "b \<le> 255"
  shows "u8 (u16 (s16 (a + 256 * b) AND 0xFF)) = a" and "u8 (u16 (shr (s16 (a + 256 * b)) 8)) = b"
proof -
  define k where "k = (if a + 256 * b < 32768 then b else b - 256)"
  have s: "s16 (a + 256 * b) = a + 256 * k"
    using assms s16_wrap_up [of "a + 256 * b"] by (auto simp: s16_id k_def)
  have md: "(a + 256 * k) mod 256 = a" "(a + 256 * k) div 256 = k" using assms(1,2) by simp_all
  have u: "u8 (u16 x) = x mod 256" for x by (simp add: u8_def u16_def mod_mod_cancel)
  show "u8 (u16 (s16 (a + 256 * b) AND 0xFF)) = a"
    using and_low_mask [of "a + 256 * k" 8] md assms by (simp add: s u)
  show "u8 (u16 (shr (s16 (a + 256 * b)) 8)) = b"
    using assms md by (simp add: s u shr_def k_def)
qed

section \<open>The contract of a compander\<close>

text \<open>What the frame functions rely on: code words are bytes, samples have 16 bits, the error is bounded by
  \<open>tol\<close>, and expanding a code word, compressing and expanding again changes nothing.\<close>

locale compander =
  fixes compand expand tol :: "int \<Rightarrow> int"
  assumes compand_byte: "is_s16 x \<Longrightarrow> is_u8 (compand x)"
    and expand_s16: "is_u8 b \<Longrightarrow> is_s16 (expand b)"
    and expand_compand: "is_s16 x \<Longrightarrow> \<bar>expand (compand x) - x\<bar> \<le> tol x"
    and expand_stable: "is_u8 b \<Longrightarrow> expand (compand (expand b)) = expand b"
begin

text \<open>The code words of a frame, two by two, as the encoder leaves them.\<close>

definition pair_at :: "int list \<Rightarrow> nat \<Rightarrow> nat \<Rightarrow> int" where
  "pair_at xs n i = compand (xs ! (2 * i)) + (if 2 * i + 1 < n then 256 * compand (xs ! (2 * i + 1)) else 0)"

lemma pack_loop:
  assumes "list_all is_s16 xs" and "n \<le> length xs" and "n \<le> 2 * length buf"
  shows "length (fold (pack_step compand xs) [0..<n] buf) = length buf
     \<and> (\<forall>i. 2 * i < n \<longrightarrow> fold (pack_step compand xs) [0..<n] buf ! i = s16 (pair_at xs n i))"
  using assms(2,3)
proof (induction n)
  case (Suc n)
  let ?b = "fold (pack_step compand xs) [0..<n] buf"
  have IH: "length ?b = length buf" "\<And>i. 2 * i < n \<Longrightarrow> ?b ! i = s16 (pair_at xs n i)" using Suc by auto
  have c: "0 \<le> compand (xs ! i)" "compand (xs ! i) \<le> 255" if "i \<le> n" for i
    using compand_byte [of "xs ! i"] assms(1) Suc.prems that by (auto simp: is_u8_def list_all_length)
  have u: "u16 (compand (xs ! n)) = compand (xs ! n)" using c [of n] by (simp add: u16_id)
  have step: "fold (pack_step compand xs) [0..<Suc n] buf = pack_step compand xs n ?b" by simp
  show ?case
  proof (cases "n mod 2 = 1")
    case True
    then have n: "2 * (n div 2) + 1 = n" by presburger
    have "?b ! (n div 2) = s16 (compand (xs ! (2 * (n div 2))))"
      using IH(2) [of "n div 2"] n by (simp add: pair_at_def)
    also have "\<dots> = compand (xs ! (2 * (n div 2)))" using c [of "2 * (n div 2)"] n by (simp add: s16_id)
    finally have "?b ! (n div 2) OR shl (compand (xs ! n)) 8 = pair_at xs (Suc n) (n div 2)"
      using or_high_bits [of "compand (xs ! (2 * (n div 2)))" 8 "compand (xs ! n)"] c [of "2 * (n div 2)"] n
      by (simp add: pair_at_def shl_def or.commute add.commute)
    moreover have "pair_at xs (Suc n) i = pair_at xs n i" if "i \<noteq> n div 2" for i using that n by (auto simp: pair_at_def)
    ultimately show ?thesis using True IH Suc.prems n u unfolding step
      by (auto simp: pack_step_def Let_def nth_list_update)
  next
    case False
    then have n: "2 * (n div 2) = n" by presburger
    have "pair_at xs (Suc n) i = pair_at xs n i" if "i \<noteq> n div 2" "2 * i < Suc n" for i
      using that n by (auto simp: pair_at_def)
    moreover have "pair_at xs (Suc n) (n div 2) = compand (xs ! n)" using n by (simp add: pair_at_def)
    ultimately show ?thesis using False IH Suc.prems n u unfolding step
      by (auto simp: pack_step_def Let_def nth_list_update)
  qed
qed simp

text \<open>The frame that comes back: every sample compressed and expanded.\<close>

lemma unpack_pack:
  assumes "list_all is_s16 xs" and "n \<le> length xs" and "n \<le> 2 * length buf" and "n \<le> length out"
  shows "fold (unpack_step expand (fold (pack_step compand xs) [0..<n] buf)) [0..<n] out
     = map (\<lambda>x. expand (compand x)) (take n xs) @ drop n out"
proof -
  let ?b = "fold (pack_step compand xs) [0..<n] buf"
  let ?g = "\<lambda>i. expand (u8 (if i mod 2 = 1 then u16 (shr (?b ! (i div 2)) 8) else u16 (?b ! (i div 2) AND 0xFF)))"
  have "fold (unpack_step expand ?b) [0..<n] out = fold (\<lambda>i v. v[i := ?g i]) [0..<n] out"
    by (rule arg_cong [where f = "\<lambda>f. fold f [0..<n] out"]) (simp add: unpack_step_def [abs_def] Let_def fun_eq_iff)
  also have "\<dots> = map ?g [0..<n] @ drop n out" using assms(4) by (rule fold_write_upt)
  also have "map ?g [0..<n] = map (\<lambda>x. expand (compand x)) (take n xs)"
  proof (rule nth_equalityI)
    fix i
    assume "i < length (map ?g [0..<n])"
    then have i: "i < n" by simp
    have c: "0 \<le> compand (xs ! j)" "compand (xs ! j) \<le> 255" if "j < n" for j
      using compand_byte [of "xs ! j"] assms(1,2) that by (auto simp: is_u8_def list_all_length)
    have p: "?b ! (i div 2) = s16 (pair_at xs n (i div 2))" using pack_loop [OF assms(1-3)] i by simp
    show "map ?g [0..<n] ! i = map (\<lambda>x. expand (compand x)) (take n xs) ! i"
    proof (cases "i mod 2 = 1")
      case True
      then have e: "2 * (i div 2) + 1 = i" by presburger
      then have "pair_at xs n (i div 2) = compand (xs ! (2 * (i div 2))) + 256 * compand (xs ! i)"
        using i by (simp add: pair_at_def)
      then show ?thesis using unpack_word(2) [of "compand (xs ! (2 * (i div 2)))" "compand (xs ! i)"]
          c [of "2 * (i div 2)"] c [of i] p i e True assms(2) by simp
    next
      case False
      then have e: "2 * (i div 2) = i" by presburger
      let ?c = "if i + 1 < n then compand (xs ! (i + 1)) else 0"
      have "pair_at xs n (i div 2) = compand (xs ! i) + 256 * ?c" using e by (simp add: pair_at_def)
      moreover have "0 \<le> ?c" "?c \<le> 255" using c [of "i + 1"] by auto
      ultimately show ?thesis using unpack_word(1) [of "compand (xs ! i)" ?c] c [of i] p i e False assms(2) by simp
    qed
  qed (use assms(2) in simp)
  finally show ?thesis .
qed

lemma expand_compand_s16: "is_s16 x \<Longrightarrow> is_s16 (expand (compand x))"
  by (intro expand_s16 compand_byte)

lemma second_pass: "is_s16 x \<Longrightarrow> expand (compand (expand (compand x))) = expand (compand x)"
  by (intro expand_stable compand_byte)

end


section \<open>The two laws\<close>

lemma law_ranges:
  "is_u8 (linear_to_alaw x)" "is_u8 (linear_to_ulaw x)" "is_s16 (alaw_to_linear b)" "is_s16 (ulaw_to_linear b)"
  by (simp_all add: linear_to_alaw_def linear_to_ulaw_def alaw_to_linear_def ulaw_to_linear_def Let_def split: prod.split)

lemma laws_stable:
  "all_from (\<lambda>b. alaw_to_linear (linear_to_alaw (alaw_to_linear b)) = alaw_to_linear b) 0 256"
  "all_from (\<lambda>b. ulaw_to_linear (linear_to_ulaw (ulaw_to_linear b)) = ulaw_to_linear b) 0 256"
  by code_simp+

lemma alaw_error:
  assumes "is_s16 x"
  shows "\<bar>alaw_to_linear (linear_to_alaw x) - x\<bar> \<le> max 8 (\<bar>x\<bar> div 32)"
proof -
  define y where "y = (if 0 \<le> x then x else - x - 1)"
  have y: "0 \<le> y" "y < 2 ^ 15" using assms by (auto simp: y_def is_s16_def)
  obtain c where c: "0 \<le> c" "c < 128" "linear_to_alaw y = u8 (c XOR 0xD5)" "linear_to_alaw (- y - 1) = u8 (c XOR 0x55)"
      "alaw_magnitude c - y \<le> max 8 (y div 32)" "y - alaw_magnitude c < max 8 (y div 32)"
    by (rule alaw_encode [OF y])
  have "y div 32 \<le> \<bar>x\<bar> div 32" by (rule zdiv_mono1) (auto simp: y_def)
  then show ?thesis using c(3-6) alaw_decode [OF c(1,2)] by (cases "0 \<le> x") (auto simp: y_def)
qed

lemma ulaw_error:
  assumes "is_s16 x"
  shows "\<bar>ulaw_to_linear (linear_to_ulaw x) - x\<bar> \<le> (\<bar>x\<bar> + 132) div 32"
proof -
  define y where "y = (if 0 \<le> x then x else - x - 1)"
  have y: "0 \<le> y" "y < 2 ^ 15" using assms by (auto simp: y_def is_s16_def)
  obtain c where c: "0 \<le> c" "c < 128" "linear_to_ulaw y = u8 (c XOR 0xFF)" "linear_to_ulaw (- y - 1) = u8 (c XOR 0x7F)"
      "ulaw_magnitude c - y \<le> (y + 132) div 32" "y - ulaw_magnitude c < (y + 132) div 32"
    by (rule ulaw_encode [OF y])
  have "(y + 132) div 32 \<le> (\<bar>x\<bar> + 132) div 32" by (rule zdiv_mono1) (auto simp: y_def)
  then show ?thesis using c(3-6) ulaw_decode [OF c(1,2)] by (cases "0 \<le> x") (auto simp: y_def)
qed

interpretation alaw: compander linear_to_alaw alaw_to_linear "\<lambda>x. max 8 (\<bar>x\<bar> div 32)"
  by unfold_locales (use law_ranges alaw_error all_fromD [OF laws_stable(1)] in \<open>auto simp: is_u8_def\<close>)

interpretation ulaw: compander linear_to_ulaw ulaw_to_linear "\<lambda>x. (\<bar>x\<bar> + 132) div 32"
  by unfold_locales (use law_ranges ulaw_error all_fromD [OF laws_stable(2)] in \<open>auto simp: is_u8_def\<close>)

text \<open>C31. A frame coded and decoded with either law comes back, in place, with every sample within the error of the
  law: 8 or a 32nd of the magnitude for A-law, a 32nd of the biased magnitude for u-law; the
  rest of the output is untouched, and the speech type is set.\<close>

theorem G711_frame_error:
  assumes "list_all is_s16 xs" and "length xs \<le> 2 * length buf" and "length xs \<le> length out"
    and "WebRtcG711_EncodeA xs (int (length xs)) buf = (ra, ea)" and "WebRtcG711_DecodeA ea (int (length xs)) out t = (ra', da, ta)"
    and "WebRtcG711_EncodeU xs (int (length xs)) buf = (ru, eu)" and "WebRtcG711_DecodeU eu (int (length xs)) out t = (ru', du, tu)"
  shows "ra = int (length xs) \<and> ra' = ra \<and> ta = 1 \<and> length da = length out \<and> drop (length xs) da = drop (length xs) out
     \<and> (\<forall>i < length xs. \<bar>da ! i - xs ! i\<bar> \<le> max 8 (\<bar>xs ! i\<bar> div 32))
     \<and> ru = int (length xs) \<and> ru' = ru \<and> tu = 1 \<and> length du = length out \<and> drop (length xs) du = drop (length xs) out
     \<and> (\<forall>i < length xs. \<bar>du ! i - xs ! i\<bar> \<le> (\<bar>xs ! i\<bar> + 132) div 32)"
proof -
  have "da = map (\<lambda>x. alaw_to_linear (linear_to_alaw x)) xs @ drop (length xs) out" "ra = int (length xs)" "ra' = ra" "ta = 1"
    using assms(4,5) alaw.unpack_pack [OF assms(1) order_refl assms(2,3)]
    by (auto simp: WebRtcG711_EncodeA_def WebRtcG711_DecodeA_def)
  moreover have "du = map (\<lambda>x. ulaw_to_linear (linear_to_ulaw x)) xs @ drop (length xs) out" "ru = int (length xs)" "ru' = ru" "tu = 1"
    using assms(6,7) ulaw.unpack_pack [OF assms(1) order_refl assms(2,3)]
    by (auto simp: WebRtcG711_EncodeU_def WebRtcG711_DecodeU_def)
  moreover have "is_s16 (xs ! i)" if "i < length xs" for i using assms(1) that by (simp add: list_all_length)
  ultimately show ?thesis using assms(3) by (simp add: nth_append alaw_error ulaw_error)
qed

theorem G711_frame_error_witness:
  "\<exists>da du. snd (WebRtcG711_DecodeA (snd (WebRtcG711_EncodeA [1000, -32768, 5] 3 [0, 0])) 3 [0, 0, 0, 9] 0) = (da, 1)
     \<and> snd (WebRtcG711_DecodeU (snd (WebRtcG711_EncodeU [1000, -32768, 5] 3 [0, 0])) 3 [0, 0, 0, 9] 0) = (du, 1)
     \<and> \<bar>da ! 1 + 32768\<bar> \<le> 1024 \<and> \<bar>du ! 1 + 32768\<bar> \<le> 1028 \<and> drop 3 da = [9] \<and> drop 3 du = [9]"
proof -
  obtain ra ea where a: "WebRtcG711_EncodeA [1000, -32768, 5] 3 [0, 0] = (ra, ea)" by (rule prod.exhaust)
  obtain ra' da ta where a': "WebRtcG711_DecodeA ea 3 [0, 0, 0, 9] 0 = (ra', da, ta)" by (rule prod_cases3)
  obtain ru eu where u: "WebRtcG711_EncodeU [1000, -32768, 5] 3 [0, 0] = (ru, eu)" by (rule prod.exhaust)
  obtain ru' du tu where u': "WebRtcG711_DecodeU eu 3 [0, 0, 0, 9] 0 = (ru', du, tu)" by (rule prod_cases3)
  have "list_all is_s16 [1000, -32768, 5 :: int]" by (simp add: is_s16_def)
  note r = G711_frame_error [OF this, of "[0, 0]" "[0, 0, 0, 9]" ra ea 0 ra' da ta ru eu ru' du tu]
  show ?thesis using r a a' u u' by (auto simp: numeral_3_eq_3 dest: spec [of _ 1])
qed


text \<open>C38. Tandem coding loses nothing more: a frame that has been coded and decoded once passes through the codec
  unchanged, with either law.\<close>

theorem G711_tandem:
  assumes "list_all is_s16 xs" and "length xs \<le> 2 * length buf" and "length xs \<le> length out"
    and "compand = linear_to_alaw \<and> expand = alaw_to_linear \<or> compand = linear_to_ulaw \<and> expand = ulaw_to_linear"
    and "ys = take (length xs) (fold (unpack_step expand (fold (pack_step compand xs) [0..<length xs] buf)) [0..<length xs] out)"
  shows "take (length xs) (fold (unpack_step expand (fold (pack_step compand ys) [0..<length xs] buf)) [0..<length xs] out) = ys"
proof -
  have "compander compand expand (\<lambda>x. max 8 (\<bar>x\<bar> div 32)) \<or> compander compand expand (\<lambda>x. (\<bar>x\<bar> + 132) div 32)"
    using assms(4) alaw.compander_axioms ulaw.compander_axioms by blast
  then obtain tol where c: "compander compand expand tol" by blast
  note up = compander.unpack_pack [OF c]
  have ys: "ys = map (\<lambda>x. expand (compand x)) xs" unfolding assms(5) using up [OF assms(1) order_refl assms(2,3)] by simp
  then have "list_all is_s16 ys"
    using assms(1) compander.expand_compand_s16 [OF c] by (simp add: list_all_iff)
  then have "take (length xs) (fold (unpack_step expand (fold (pack_step compand ys) [0..<length xs] buf)) [0..<length xs] out)
      = map (\<lambda>x. expand (compand x)) ys" using up [of ys "length xs" buf out] assms(2,3) ys by simp
  also have "\<dots> = ys" using assms(1) compander.second_pass [OF c] ys by (simp add: list_all_iff)
  finally show ?thesis .
qed

theorem G711_tandem_witness:
  "take 2 (fold (unpack_step alaw_to_linear (fold (pack_step linear_to_alaw
      (take 2 (fold (unpack_step alaw_to_linear (fold (pack_step linear_to_alaw [100, -77]) [0..<2] [0])) [0..<2] [0, 0])))
        [0..<2] [0])) [0..<2] [0, 0])
   = take 2 (fold (unpack_step alaw_to_linear (fold (pack_step linear_to_alaw [100, -77]) [0..<2] [0])) [0..<2] [0, 0])"
proof -
  have "list_all is_s16 [100, -77 :: int]" "length [100, -77 :: int] \<le> 2 * length [0 :: int]"
    "length [100, -77 :: int] \<le> length [0, 0 :: int]" by (simp_all add: is_s16_def)
  from G711_tandem [OF this disjI1 [OF conjI [OF refl refl]] refl] show ?thesis by (simp add: numeral_2_eq_2)
qed

text \<open>The facts of a transcoded code word, checked on all 256 of them.\<close>

definition transcode_ok :: "int \<Rightarrow> bool" where
  "transcode_ok b \<longleftrightarrow> is_u8 (alaw_to_ulaw b) \<and> is_u8 (ulaw_to_alaw b)
     \<and> alaw_to_ulaw b div 128 = b div 128 \<and> ulaw_to_alaw b div 128 = b div 128
     \<and> \<bar>ulaw_to_linear (alaw_to_ulaw b) - alaw_to_linear b\<bar> \<le> max 8 (\<bar>alaw_to_linear b\<bar> div 16)
     \<and> \<bar>alaw_to_linear (ulaw_to_alaw b) - ulaw_to_linear b\<bar> \<le> max 8 (\<bar>ulaw_to_linear b\<bar> div 16)
     \<and> alaw_to_ulaw (ulaw_to_alaw (alaw_to_ulaw b)) = alaw_to_ulaw b
     \<and> ulaw_to_alaw (alaw_to_ulaw (ulaw_to_alaw b)) = ulaw_to_alaw b"

lemma transcode_all: "all_from transcode_ok 0 256"
  by code_simp

text \<open>Transcoding between the laws keeps the sign bit, stays within 8 or a 16th of the magnitude, and is stable: going
  there and back and there again gives the code word of the first step.\<close>

theorem transcoding_ok:
  assumes "is_u8 b"
  shows "is_u8 (alaw_to_ulaw b) \<and> is_u8 (ulaw_to_alaw b)
     \<and> alaw_to_ulaw b div 128 = b div 128 \<and> ulaw_to_alaw b div 128 = b div 128
     \<and> \<bar>ulaw_to_linear (alaw_to_ulaw b) - alaw_to_linear b\<bar> \<le> max 8 (\<bar>alaw_to_linear b\<bar> div 16)
     \<and> \<bar>alaw_to_linear (ulaw_to_alaw b) - ulaw_to_linear b\<bar> \<le> max 8 (\<bar>ulaw_to_linear b\<bar> div 16)
     \<and> alaw_to_ulaw (ulaw_to_alaw (alaw_to_ulaw b)) = alaw_to_ulaw b
     \<and> ulaw_to_alaw (alaw_to_ulaw (ulaw_to_alaw b)) = ulaw_to_alaw b"
  using all_fromD [OF transcode_all, of b] assms unfolding is_u8_def transcode_ok_def by simp

theorem transcoding_ok_witness:
  "is_u8 213 \<and> \<bar>ulaw_to_linear (alaw_to_ulaw 213) - alaw_to_linear 213\<bar> \<le> max 8 (\<bar>alaw_to_linear 213\<bar> div 16)
     \<and> alaw_to_ulaw (ulaw_to_alaw (alaw_to_ulaw 213)) = alaw_to_ulaw 213"
  using transcoding_ok [of 213] by (simp add: is_u8_def)

end
