(* ===== verification/Codec_Pcm16b.thy ===== *)
theory Codec_Pcm16b
  imports Byte_Lists
begin

text \<open>
  The linear PCM codec, \<open>modules/audio_coding/codecs/pcm16b/pcm16b.c\<close>: samples as big endian pairs of bytes, once
  with 16 bit units (the little endian version, which swaps the bytes of a unit) and once with bytes. The two encoders
  write the same memory, and the decoders invert them.
\<close>

section \<open>Operations\<close>

definition HIGHEND :: int where "HIGHEND = 0xFF00"
definition LOWEND :: int where "LOWEND = 0xFF"

definition WebRtcPcm16b_EncodeW16 :: "int list \<Rightarrow> int \<Rightarrow> int list \<Rightarrow> int \<times> int list" where
  "WebRtcPcm16b_EncodeW16 speechIn16b len speechOut16b =
     (s16 (shl len 1),
      fold (\<lambda>i out. out[i := s16 (shr (u16 (speechIn16b ! i)) 8 OR (shl (u16 (speechIn16b ! i)) 8 AND 0xFF00))])
        [0..<nat len] speechOut16b)"

definition pcm_encode_step :: "int list \<Rightarrow> nat \<Rightarrow> int list \<Rightarrow> int list" where
  "pcm_encode_step speech16b pos speech8b =
     (let short1 = s16 (HIGHEND AND speech16b ! pos);
          short2 = s16 (LOWEND AND speech16b ! pos);
          short1 = s16 (shr short1 8)
      in speech8b[pos * 2 := u8 short1, pos * 2 + 1 := u8 short2])"

definition WebRtcPcm16b_Encode :: "int list \<Rightarrow> int \<Rightarrow> int list \<Rightarrow> int \<times> int list" where
  "WebRtcPcm16b_Encode speech16b len speech8b =
     (s16 (len * 2), fold (pcm_encode_step speech16b) [0..<nat len] speech8b)"

definition WebRtcPcm16b_DecodeW16 :: "int list \<Rightarrow> int \<Rightarrow> int list \<Rightarrow> int \<times> int list \<times> int" where
  "WebRtcPcm16b_DecodeW16 speechIn16b len speechOut16b =
     (let samples = shr len 1
      in (s16 (shr len 1),
          fold (\<lambda>i out. out[i := s16 (shr (u16 (speechIn16b ! i)) 8 OR shl (u16 (speechIn16b ! i AND 0xFF)) 8)])
            [0..<nat samples] speechOut16b,
          1))"

definition pcm_join :: "int \<Rightarrow> int \<Rightarrow> int" where
  "pcm_join b0 b1 =
     (let shortval = s16 b0;
          shortval = s16 (shl shortval 8 AND HIGHEND)
      in s16 (shortval OR (b1 AND LOWEND)))"

definition WebRtcPcm16b_Decode :: "int list \<Rightarrow> int \<Rightarrow> int list \<Rightarrow> int \<times> int list" where
  "WebRtcPcm16b_Decode speech8b len speech16b =
     (let samples = s16 (shr len 1)
      in (samples,
          fold (\<lambda>pos out. out[pos := pcm_join (speech8b ! (pos * 2)) (speech8b ! (pos * 2 + 1))])
            [0..<nat samples] speech16b))"

section \<open>The two bytes of a sample\<close>

text \<open>The memory of a 16 bit unit on a little endian machine, and the big endian bytes of a sample.\<close>

definition le_unit :: "int \<Rightarrow> int list" where
  "le_unit w = [u16 w mod 256, u16 w div 256]"

definition be_sample :: "int \<Rightarrow> int list" where
  "be_sample x = [u16 x div 256, u16 x mod 256]"

lemma and_0xFF00: "z AND 0xFF00 = (z mod 65536) div 256 * (256 :: int)"
proof -
  have "z AND push_bit 8 (mask 8) = push_bit 8 (drop_bit 8 (take_bit 16 z))"
    by (rule bit_eqI) (auto simp: bit_simps)
  then show ?thesis by (simp add: push_bit_eq_mult drop_bit_eq_div take_bit_eq_mod mask_eq_exp_minus_1)
qed

lemma and_0xFF: "z AND 0xFF = z mod (256 :: int)"
  using and_low_mask [of z 8] by simp

lemma join_bytes: "0 \<le> l \<Longrightarrow> l < 256 \<Longrightarrow> h * 256 OR l = h * 256 + (l :: int)"
  using or_high_bits [of l 8 h] by simp

lemma u16_bytes: "u16 x = u16 x div 256 * 256 + u16 x mod 256" "0 \<le> u16 x div 256" "u16 x div 256 < 256"
  "u16 x mod 256 = x mod 256"
  using is_u16_u16 [of x] div_mult_mod_eq [of "u16 x" 256]
  by (simp_all only: is_u16_def) (simp_all add: u16_def mod_mod_cancel div_less_iff)

lemma swap_encode: "shr (u16 x) 8 OR (shl (u16 x) 8 AND 0xFF00) = u16 x mod 256 * 256 + u16 x div 256"
proof -
  have "shl (u16 x) 8 mod 65536 = u16 x mod 256 * 256"
    using mult_mod_right [of 256 "u16 x" 256] by (simp add: shl_def mult.commute)
  then have "shl (u16 x) 8 AND 0xFF00 = u16 x mod 256 * 256" by (simp add: and_0xFF00)
  then show ?thesis using join_bytes [of "u16 x div 256" "u16 x mod 256"] u16_bytes [of x]
    by (simp add: shr_def or.commute)
qed

lemma swap_decode: "shr (u16 x) 8 OR shl (u16 (x AND 0xFF)) 8 = u16 x mod 256 * 256 + u16 x div 256"
proof -
  have "u16 (x AND 0xFF) = u16 x mod 256" using u16_bytes(4) [of x] by (simp add: and_0xFF u16_def)
  then show ?thesis using join_bytes [of "u16 x div 256" "u16 x mod 256"] u16_bytes [of x]
    by (simp add: shr_def shl_def or.commute)
qed

lemma u16_s16 [simp]: "u16 (s16 x) = u16 x"
  by (simp add: u16_take_bit s16_signed_take_bit take_bit_signed_take_bit)

lemma s16_u16 [simp]: "s16 (u16 x) = s16 x"
  by (simp add: u16_take_bit s16_signed_take_bit signed_take_bit_take_bit)

lemma u16_join: "0 \<le> h \<Longrightarrow> h < 256 \<Longrightarrow> 0 \<le> l \<Longrightarrow> l < 256 \<Longrightarrow> u16 (h * 256 + l) = h * 256 + l"
  by (simp add: u16_id)

lemma le_unit_swapped: "le_unit (s16 (u16 x mod 256 * 256 + u16 x div 256)) = be_sample x"
  using u16_bytes [of x] u16_join [of "u16 x mod 256" "u16 x div 256"] by (simp add: le_unit_def be_sample_def)

lemma swapped_twice:
  assumes "w = s16 (u16 x mod 256 * 256 + u16 x div 256)" and "is_s16 x"
  shows "s16 (u16 w mod 256 * 256 + u16 w div 256) = x"
proof -
  have "u16 w = u16 x mod 256 * 256 + u16 x div 256"
    using u16_bytes [of x] u16_join [of "u16 x mod 256" "u16 x div 256"] assms by simp
  then have "u16 w mod 256 = u16 x div 256" "u16 w div 256 = u16 x mod 256" using u16_bytes [of x] by simp_all
  then show ?thesis using u16_bytes(1) [of x] assms(2) by (simp add: s16_conv)
qed

lemma pcm_bytes:
  "u8 (s16 (shr (s16 (HIGHEND AND x)) 8)) = u16 x div 256" "u8 (s16 (LOWEND AND x)) = u16 x mod 256"
proof -
  define h where "h = u16 x div 256"
  have h: "0 \<le> h" "h < 256" using u16_bytes [of x] by (simp_all add: h_def)
  have "HIGHEND AND x = h * 256" by (simp add: HIGHEND_def and.commute [of _ x] and_0xFF00 h_def u16_def)
  moreover have "s16 (h * 256) = (if h < 128 then h * 256 else (h - 256) * 256)"
    using h by (simp add: s16_id s16_wrap_up)
  ultimately have "shr (s16 (HIGHEND AND x)) 8 = (if h < 128 then h else h - 256)" by (simp add: shr_def)
  moreover have "(h - 256) mod 256 = h" using h by (intro int_mod_pos_eq [where q = "-1"]) auto
  ultimately show "u8 (s16 (shr (s16 (HIGHEND AND x)) 8)) = u16 x div 256"
    using h by (simp add: s16_id u8_def h_def)
  show "u8 (s16 (LOWEND AND x)) = u16 x mod 256"
    using u16_bytes(4) [of x] by (simp add: LOWEND_def and.commute [of _ x] and_0xFF u8_def s16_id)
qed

lemma pcm_join_sample: "is_u8 b0 \<Longrightarrow> is_u8 b1 \<Longrightarrow> pcm_join b0 b1 = s16 (b0 * 256 + b1)"
proof -
  assume b: "is_u8 b0" "is_u8 b1"
  then have "shl (s16 b0) 8 AND HIGHEND = b0 * 256" by (simp add: is_u8_def s16_id shl_def HIGHEND_def and_0xFF00)
  moreover have "b1 AND LOWEND = b1" using b by (simp add: LOWEND_def and_0xFF is_u8_def)
  moreover have "s16 (s16 (b0 * 256) OR b1) = s16 (b0 * 256 OR b1)"
  proof -
    have "take_bit 16 (s16 (b0 * 256) OR b1) = take_bit 16 (b0 * 256 OR b1)"
      by (simp add: take_bit_or s16_signed_take_bit take_bit_signed_take_bit)
    then have "u16 (s16 (b0 * 256) OR b1) = u16 (b0 * 256 OR b1)" by (simp add: u16_take_bit)
    then show ?thesis by (metis s16_u16)
  qed
  ultimately show ?thesis using b join_bytes [of b1 b0] by (simp add: pcm_join_def is_u8_def)
qed

section \<open>Frames\<close>

lemma pcm_encode_step_eq:
  "pcm_encode_step xs i v = v[i * 2 := u16 (xs ! i) div 256, Suc (i * 2) := u16 (xs ! i) mod 256]"
  by (simp add: pcm_encode_step_def Let_def pcm_bytes)

lemma pcm_encode_loop:
  "2 * n \<le> length v \<Longrightarrow> fold (pcm_encode_step xs) [0..<n] v = concat (map (\<lambda>i. be_sample (xs ! i)) [0..<n]) @ drop (2 * n) v"
proof (induction n)
  case (Suc n)
  have l: "length (concat (map (\<lambda>i. be_sample (xs ! i)) [0..<n])) = n * 2"
    by (induction n) (simp_all add: be_sample_def)
  have d: "drop (2 * n) v = v ! (2 * n) # v ! Suc (2 * n) # drop (2 * Suc n) v"
    using Suc.prems by (simp add: Cons_nth_drop_Suc)
  have "fold (pcm_encode_step xs) [0..<n] v = concat (map (\<lambda>i. be_sample (xs ! i)) [0..<n]) @ drop (2 * n) v"
    using Suc by simp
  then have "fold (pcm_encode_step xs) [0..<Suc n] v
      = pcm_encode_step xs n (concat (map (\<lambda>i. be_sample (xs ! i)) [0..<n]) @ v ! (2 * n) # v ! Suc (2 * n) # drop (2 * Suc n) v)"
    by (simp only: d) simp
  then show ?case
    using l by (simp add: pcm_encode_step_eq [of xs n] list_update_append be_sample_def)
qed simp

lemma be_sample_nth:
  "i < n \<Longrightarrow> concat (map (\<lambda>i. be_sample (f i)) [0..<n]) ! (i * 2) = u16 (f i) div 256
     \<and> concat (map (\<lambda>i. be_sample (f i)) [0..<n]) ! Suc (i * 2) = u16 (f i) mod 256"
proof (induction n)
  case (Suc n)
  have l: "length (concat (map (\<lambda>i. be_sample (f i)) [0..<n])) = n * 2"
    by (induction n) (simp_all add: be_sample_def)
  show ?case using Suc l by (cases "i = n") (simp_all add: nth_append be_sample_def)
qed simp

lemma concat_le_units: "concat (map le_unit (map (\<lambda>i. s16 (u16 (f i) mod 256 * 256 + u16 (f i) div 256)) [0..<n]))
    = concat (map (\<lambda>i. be_sample (f i)) [0..<n])"
  by (induction n) (simp_all add: le_unit_swapped)

lemma decode_samples:
  assumes "list_all is_s16 xs" and "i < length xs"
  shows "s16 (u16 (xs ! i) div 256 * 256 + u16 (xs ! i) mod 256) = xs ! i"
  using assms u16_bytes(1) [of "xs ! i"] by (simp add: list_all_length s16_conv flip: u16_bytes(1))

text \<open>C32. The two encoders write the same bytes, the samples in big endian order, and return their number in 16 bits. For
  less than 16384 samples each decoder gives the samples back. From 16384 samples on, up to the 32767 a length can say, the
  returned number of bytes is negative, and the decoders take it for a length at which there is nothing to decode.\<close>

theorem pcm16b_roundtrip:
  assumes "list_all is_s16 xs" and "length xs \<le> 32767"
    and "length xs \<le> length units" and "2 * length xs \<le> length octets" and "length xs \<le> length out"
    and "WebRtcPcm16b_EncodeW16 xs (int (length xs)) units = (n, ws)"
    and "WebRtcPcm16b_Encode xs (int (length xs)) octets = (m, bs)"
  shows "m = n
     \<and> concat (map le_unit (take (length xs) ws)) = take (2 * length xs) bs
     \<and> take (2 * length xs) bs = concat (map be_sample xs)
     \<and> (if length xs < 16384
        then n = 2 * int (length xs)
           \<and> WebRtcPcm16b_DecodeW16 ws n out = (int (length xs), xs @ drop (length xs) out, 1)
           \<and> WebRtcPcm16b_Decode bs m out = (int (length xs), xs @ drop (length xs) out)
        else n = 2 * int (length xs) - 65536
           \<and> WebRtcPcm16b_DecodeW16 ws n out = (int (length xs) - 32768, out, 1)
           \<and> WebRtcPcm16b_Decode bs m out = (int (length xs) - 32768, out))"
proof -
  let ?k = "length xs" and ?swap = "\<lambda>x. s16 (u16 x mod 256 * 256 + u16 x div 256)"
  have n0: "n = s16 (2 * int ?k)" "m = n"
    using assms(6,7) by (auto simp: WebRtcPcm16b_EncodeW16_def WebRtcPcm16b_Encode_def shl_def mult.commute)
  have ws: "ws = map (\<lambda>i. ?swap (xs ! i)) [0..<?k] @ drop ?k units"
    using assms(3,6) by (auto simp: WebRtcPcm16b_EncodeW16_def swap_encode fold_write_upt)
  have bs: "bs = concat (map (\<lambda>i. be_sample (xs ! i)) [0..<?k]) @ drop (2 * ?k) octets"
    using assms(4,7) by (auto simp: WebRtcPcm16b_Encode_def pcm_encode_loop)
  have l: "length (concat (map (\<lambda>i. be_sample (xs ! i)) [0..<n])) = 2 * n" for n
    by (induction n) (simp_all add: be_sample_def)
  have xs: "concat (map (\<lambda>i. be_sample (xs ! i)) [0..<?k]) = concat (map be_sample xs)"
    using map_map [of be_sample "(!) xs" "[0..<?k]"] by (simp add: map_nth comp_def)
  have swapped: "map (\<lambda>i. ?swap (ws ! i)) [0..<?k] = map (\<lambda>i. xs ! i) [0..<?k]"
    using swapped_twice assms(1) by (intro map_cong) (auto simp: ws nth_append list_all_length)
  have joined: "map (\<lambda>i. pcm_join (bs ! (i * 2)) (bs ! (i * 2 + 1))) [0..<?k] = map (\<lambda>i. xs ! i) [0..<?k]"
  proof (intro map_cong [OF refl])
    fix i
    assume i: "i \<in> set [0..<?k]"
    then have "bs ! (i * 2) = u16 (xs ! i) div 256" "bs ! (i * 2 + 1) = u16 (xs ! i) mod 256"
      using be_sample_nth [of i ?k "(!) xs"] l [of ?k] by (simp_all add: bs nth_append)
    then show "pcm_join (bs ! (i * 2)) (bs ! (i * 2 + 1)) = xs ! i"
      using u16_bytes [of "xs ! i"] decode_samples [OF assms(1), of i] i by (simp add: pcm_join_sample is_u8_def)
  qed
  have bytes: "concat (map le_unit (take ?k ws)) = take (2 * ?k) bs" "take (2 * ?k) bs = concat (map be_sample xs)"
    using concat_le_units [of "(!) xs" ?k] l [of ?k] by (simp_all add: ws bs flip: xs)
  show ?thesis
  proof (cases "?k < 16384")
    case True
    then have n: "n = 2 * int ?k" "s16 (shr n 1) = int ?k" using n0(1) by (simp_all add: shr_def s16_id)
    have "WebRtcPcm16b_DecodeW16 ws n out = (int ?k, xs @ drop ?k out, 1)"
      using n assms(5) swapped shr_def [of n 1] by (simp add: WebRtcPcm16b_DecodeW16_def swap_decode fold_write_upt map_nth)
    moreover have "WebRtcPcm16b_Decode bs m out = (int ?k, xs @ drop ?k out)"
      using n n0(2) assms(5) joined by (simp add: WebRtcPcm16b_Decode_def fold_write_upt map_nth)
    ultimately show ?thesis using True bytes n(1) n0(2) by simp
  next
    case False
    then have n: "n = 2 * int ?k - 65536" using n0(1) assms(2) by (simp add: s16_wrap_up)
    then have sh: "shr n 1 = int ?k - 32768" by (simp add: shr_def)
    then have neg: "shr n 1 < 0" "s16 (shr n 1) = int ?k - 32768" using assms(2) False by (simp_all add: s16_id)
    then show ?thesis using False bytes n n0(2) sh
      by (simp add: WebRtcPcm16b_DecodeW16_def WebRtcPcm16b_Decode_def Let_def)
  qed
qed

theorem pcm16b_roundtrip_witness:
  "WebRtcPcm16b_Decode (snd (WebRtcPcm16b_Encode [-2, 700] 2 [0, 0, 0, 0])) 4 [0, 0, 9] = (2, [-2, 700, 9])
   \<and> concat (map le_unit (take 2 (snd (WebRtcPcm16b_EncodeW16 [-2, 700] 2 [0, 0])))) = [255, 254, 2, 188]"
proof -
  have "list_all is_s16 [-2, 700 :: int]" by (simp add: is_s16_def)
  moreover obtain n ws where w: "WebRtcPcm16b_EncodeW16 [-2, 700] (int (length [-2, 700 :: int])) [0, 0] = (n, ws)"
    by (rule prod.exhaust)
  moreover obtain m bs where b: "WebRtcPcm16b_Encode [-2, 700] (int (length [-2, 700 :: int])) [0, 0, 0, 0] = (m, bs)"
    by (rule prod.exhaust)
  ultimately show ?thesis
    using pcm16b_roundtrip [of "[-2, 700]" "[0, 0]" "[0, 0, 0, 0]" "[0, 0, 9]" n ws m bs]
    by (auto simp: be_sample_def u16_def numeral_2_eq_2)
qed

end
