(* ===== verification/Spl_Random.thy ===== *)
theory Spl_Random
  imports C_Int
begin

text \<open>
  The pseudo random numbers of the SPL, \<open>randomization_functions.c\<close>: a linear congruential generator with 31 bits of
  state, its uniform output and its table of normal deviates. The generator has the full period \<open>2\<^sup>3\<^sup>1\<close>, so that
  over a period every uniform value appears equally often; the index into the table has 8 bits, so only the first
  half of the table is ever used.
\<close>

section \<open>Operations\<close>

definition kMaxSeedUsed :: int where
  "kMaxSeedUsed = 0x80000000"

definition kRandNTable :: "int list" where
  "kRandNTable = [
    9178, -7260, 40, 10189, 4894, -3531, -13779, 14764, -4008, -8884, -8990, 1008, 7368, 5184, 3251, -5817, -9786,
    5963, 1770, 8066, -7135, 10772, -2298, 1361, 6484, 2241, -8633, 792, 199, -3344, 6553, -10079, -15040, 95, 11608,
    -12469, 14161, -4176, 2476, 6403, 13685, -16005, 6646, 2239, 10916, -3004, -602, -3141, 2142, 14144, -5829, 5305,
    8209, 4713, 2697, -5112, 16092, -1210, -2891, -6631, -5360, -11878, -6781, -2739, -6392, 536, 10923, 10872, 5059,
    -4748, -7770, 5477, 38, -1025, -2892, 1638, 6304, 14375, -11028, 1553, -1565, 10762, -393, 4040, 5257, 12310,
    6554, -4799, 4899, -6354, 1603, -1048, -2220, 8247, -186, -8944, -12004, 2332, 4801, -4933, 6371, 131, 8614,
    -5927, -8287, -22760, 4033, -15162, 3385, 3246, 3153, -5250, 3766, 784, 6494, -62, 3531, -1582, 15572, 662,
    -3952, -330, -3196, 669, 7236, -2678, -6569, 23319, -8645, -741, 14830, -15976, 4903, 315, -11342, 10311, 1858,
    -7777, 2145, 5436, 5677, -113, -10033, 826, -1353, 17210, 7768, 986, -1471, 8291, -4982, 8207, -14911, -6255,
    -2449, -11881, -7059, -11703, -4338, 8025, 7538, -2823, -12490, 9470, -1613, -2529, -10092, -7807, 9480, 6970,
    -12844, 5123, 3532, 4816, 4803, -8455, -5045, 14032, -4378, -1643, 5756, -11041, -2732, -16618, -6430, -18375,
    -3320, 6098, 5131, -4269, -8840, 2482, -7048, 1547, -21890, -6505, -7414, -424, -11722, 7955, 1653, -17299, 1823,
    473, -9232, 3337, 1111, 873, 4018, -8982, 9889, 3531, -11763, -3799, 7373, -4539, 3231, 7054, -8537, 7616, 6244,
    16635, 447, -2915, 13967, 705, -2669, -1520, -1771, -16188, 5956, 5117, 6371, -9936, -1448, 2480, 5128, 7550,
    -8130, 5236, 8213, -6443, 7707, -1950, -13811, 7218, 7031, -3883, 67, 5731, -2874, 13480, -3743, 9298, -3280,
    3552, -4425, -18, -3785, -9988, -5357, 5477, -11794, 2117, 1416, -9935, 3376, 802, -5079, -8243, 12652, 66, 3653,
    -2368, 6781, -21895, -7227, 2487, 7839, -385, 6646, -7016, -4658, 5531, -1705, 834, 129, 3694, -1343, 2238,
    -22640, -6417, -11139, 11301, -2945, -3494, -5626, 185, -3615, -2041, -7972, -3106, -60, -23497, -1566, 17064,
    3519, 2518, 304, -6805, -10269, 2105, 1936, -426, -736, -8122, -1467, 4238, -6939, -13309, 360, 7402, -7970,
    12576, 3287, 12194, -6289, -16006, 9171, 4042, -9193, 9123, -2512, 6388, -4734, -8739, 1028, -5406, -1696, 5889,
    -666, -4736, 4971, 3565, 9362, -6292, 3876, -3652, -19666, 7523, -4061, 391, -11773, 7502, -3763, 4929, -9478,
    13278, 2805, 4496, 7814, 16419, 12455, -14773, 2127, -2746, 3763, 4847, 3698, 6978, 4751, -6957, -3581, -45,
    6252, 1513, -4797, -7925, 11270, 16188, -2359, -5269, 9376, -10777, 7262, 20031, -6515, -2208, -5353, 8085,
    -1341, -1303, 7333, 5576, 3625, 5763, -7931, 9833, -3371, -10305, 6534, -13539, -9971, 997, 8464, -4064, -1495,
    1857, 13624, 5458, 9490, -11086, -4524, 12022, -550, -198, 408, -8455, -7068, 10289, 9712, -3366, 9028, -7621,
    -5243, 2362, 6909, 4672, -4933, -1799, 4709, -4563, -62, -566, 1624, -7010, 14730, -17791, -3697, -2344, -1741,
    7099, -9509, -6855, -1989, 3495, -2289, 2031, 12784, 891, 14189, -3963, -5683, 421, -12575, 1724, -12682, -5970,
    -8169, 3143, -1824, -5488, -5130, 8536, 12799, 794, 5738, 3459, -11689, -258, -3738, -3775, -8742, 2333, 8312,
    -9383, 10331, 13119, 8398, 10644, -19433, -6446, -16277, -11793, 16284, 9345, 15222, 15834, 2009, -7349, 130,
    -14547, 338, -5998, 3337, 21492, 2406, 7703, -951, 11196, -564, 3406, 2217, 4806, 2374, -5797, 11839, 8940,
    -11874, 18213, 2855, 10492]"

definition IncreaseSeed :: "int \<Rightarrow> int" where
  "IncreaseSeed seed = u32 (seed * 69069 + 1) AND (kMaxSeedUsed - 1)"

text \<open>Each function returns its value and the new seed.\<close>

definition WebRtcSpl_RandU :: "int \<Rightarrow> int \<times> int" where
  "WebRtcSpl_RandU seed = (let seed = IncreaseSeed seed in (s16 (shr seed 16), seed))"

definition WebRtcSpl_RandN :: "int \<Rightarrow> int \<times> int" where
  "WebRtcSpl_RandN seed = (let seed = IncreaseSeed seed in (kRandNTable ! nat (shr seed 23), seed))"

definition WebRtcSpl_RandUArray :: "int list \<Rightarrow> int \<Rightarrow> int \<Rightarrow> int \<times> int list \<times> int" where
  "WebRtcSpl_RandUArray vector vector_length seed =
     (let (vector, seed) = fold (\<lambda>i (vector, seed). let (r, seed) = WebRtcSpl_RandU seed in (vector[i := r], seed))
        [0..<nat vector_length] (vector, seed)
      in (vector_length, vector, seed))"

section \<open>The period of the generator\<close>

lemma IncreaseSeed_eq: "IncreaseSeed s = (69069 * s + 1) mod 2147483648"
proof -
  have "u32 (s * 69069 + 1) AND (kMaxSeedUsed - 1) = u32 (s * 69069 + 1) mod 2147483648"
    using and_low_mask [of "u32 (s * 69069 + 1)" 31] by (simp add: kMaxSeedUsed_def)
  then show ?thesis by (simp add: IncreaseSeed_def u32_def mod_mod_cancel mult.commute)
qed

text \<open>The partial sums of the powers of the multiplier: \<open>n\<close> steps from \<open>s\<close> give \<open>s + geo n * (69068 * s + 1)\<close>.\<close>

primrec geo :: "nat \<Rightarrow> int" where
  "geo 0 = 0"
| "geo (Suc n) = 69069 * geo n + 1"

lemma geo_power: "69068 * geo n = 69069 ^ n - 1"
  by (induction n) simp_all

lemma iterate_geo:
  assumes "0 \<le> s" and "s < 2147483648"
  shows "(IncreaseSeed ^^ n) s = (s + geo n * (69068 * s + 1)) mod 2147483648"
proof (induction n)
  case (Suc n)
  have "(IncreaseSeed ^^ Suc n) s = (69069 * ((s + geo n * (69068 * s + 1)) mod 2147483648) + 1) mod 2147483648"
    by (simp add: Suc IncreaseSeed_eq)
  also have "\<dots> = (69069 * (s + geo n * (69068 * s + 1)) + 1) mod 2147483648"
    by (metis mod_add_left_eq mod_mult_right_eq)
  also have "69069 * (s + geo n * (69068 * s + 1)) + 1 = s + geo (Suc n) * (69068 * s + 1)"
    by (simp add: algebra_simps)
  finally show ?case .
qed (use assms in simp)

lemma geo_double: "geo (2 * m) = geo m * (69069 ^ m + 1)"
proof -
  have "69068 * geo (2 * m) = (69069 ^ m - 1) * (69069 ^ m + 1)"
    by (simp only: geo_power mult_2 power_add) (simp add: algebra_simps)
  also have "\<dots> = 69068 * (geo m * (69069 ^ m + 1))" by (simp flip: geo_power)
  finally show ?thesis by simp
qed

lemma power_mod_4: "69069 ^ m mod 4 = (1 :: int)"
  using power_mod [of "69069 :: int" 4 m] by simp

lemma geo_parity: "even (geo n) \<longleftrightarrow> even n"
  by (induction n) simp_all

text \<open>The multiplier is one more than a multiple of four, so the power of two in \<open>geo n\<close> is that in \<open>n\<close>.\<close>

lemma geo_dvd: "2 ^ k dvd geo n \<longleftrightarrow> 2 ^ k dvd n"
proof (induction k arbitrary: n)
  case (Suc k)
  show ?case
  proof (cases "even n")
    case True
    then obtain m where m: "n = 2 * m" by (rule evenE)
    obtain q where q: "(69069 :: int) ^ m + 1 = 2 * q" "odd q"
    proof -
      have "((69069 :: int) ^ m + 1) mod 4 = 2" using power_mod_4 [of m] by presburger
      then have "(69069 :: int) ^ m + 1 = 2 * (((69069 :: int) ^ m + 1) div 2)" "odd (((69069 :: int) ^ m + 1) div 2)"
        by presburger+
      then show thesis by (rule that)
    qed
    have "2 ^ Suc k dvd geo n \<longleftrightarrow> 2 ^ k dvd geo m * q" using q by (simp add: m geo_double mult.left_commute)
    also have "\<dots> \<longleftrightarrow> 2 ^ k dvd geo m" using q(2) by (simp add: coprime_dvd_mult_left_iff)
    finally show ?thesis using Suc m by simp
  next
    case False
    then have "\<not> 2 ^ Suc k dvd n" "\<not> 2 ^ Suc k dvd geo n"
      using geo_parity [of n] dvd_trans [of 2 "2 ^ Suc k" n] dvd_trans [of 2 "2 ^ Suc k" "geo n"] by auto
    then show ?thesis by simp
  qed
qed simp

lemma period:
  assumes "0 \<le> s" and "s < 2147483648"
  shows "(IncreaseSeed ^^ n) s = s \<longleftrightarrow> 2147483648 dvd n"
proof -
  have "(IncreaseSeed ^^ n) s = s \<longleftrightarrow> (s + geo n * (69068 * s + 1)) mod 2147483648 = s mod 2147483648"
    using assms by (simp add: iterate_geo)
  also have "\<dots> \<longleftrightarrow> 2 ^ 31 dvd geo n * (69068 * s + 1)" by (simp add: mod_eq_dvd_iff)
  also have "\<dots> \<longleftrightarrow> 2 ^ 31 dvd geo n"
    by (rule coprime_dvd_mult_left_iff) (simp only: coprime_power_left_iff, simp)
  finally show ?thesis using geo_dvd [of 31 n] by simp
qed

lemma seed_range: "0 \<le> IncreaseSeed s \<and> IncreaseSeed s < 2147483648"
  by (simp add: IncreaseSeed_eq)

lemma iterate_range: "0 \<le> s \<Longrightarrow> s < 2147483648 \<Longrightarrow> 0 \<le> (IncreaseSeed ^^ n) s \<and> (IncreaseSeed ^^ n) s < 2147483648"
  using seed_range by (cases n) simp_all

lemma orbit_inj:
  assumes "0 \<le> s" and "s < 2147483648"
  shows "inj_on (\<lambda>n. (IncreaseSeed ^^ n) s) {..<2147483648}"
proof (rule linorder_inj_onI')
  fix m n :: nat
  assume "m \<in> {..<2147483648}" "n \<in> {..<2147483648}" "m < n"
  moreover have "(IncreaseSeed ^^ n) s = (IncreaseSeed ^^ (n - m)) ((IncreaseSeed ^^ m) s)"
    using \<open>m < n\<close> by (simp flip: funpow_add [THEN fun_cong, simplified])
  moreover have "\<not> 2147483648 dvd n - m" using calculation by (auto dest!: dvd_imp_le)
  ultimately show "(IncreaseSeed ^^ m) s \<noteq> (IncreaseSeed ^^ n) s"
    using period [of "(IncreaseSeed ^^ m) s" "n - m"] iterate_range [OF assms, of m] by auto
qed

lemma orbit_all:
  assumes "0 \<le> s" and "s < 2147483648"
  shows "bij_betw (\<lambda>n. (IncreaseSeed ^^ n) s) {..<2147483648} {0..<2147483648}"
proof -
  have "(\<lambda>n. (IncreaseSeed ^^ n) s) ` {..<2147483648} \<subseteq> {0..<2147483648}"
    using iterate_range [OF assms] by auto
  moreover have "card ((\<lambda>n. (IncreaseSeed ^^ n) s) ` {..<2147483648}) = card {0..<2147483648 :: int}"
    using card_image [OF orbit_inj [OF assms]] by simp
  ultimately show ?thesis using orbit_inj [OF assms] by (simp add: bij_betw_def card_subset_eq)
qed

lemma bij_betw_window:
  assumes "bij_betw f A B" and "W \<subseteq> B"
  shows "bij_betw f {n. n \<in> A \<and> f n \<in> W} W"
proof -
  have "x \<in> f ` {n. n \<in> A \<and> f n \<in> W}" if "x \<in> W" for x
  proof -
    have "x \<in> f ` A" using assms that by (auto simp: bij_betw_def)
    then obtain n where "n \<in> A" "x = f n" by blast
    then show ?thesis using that by blast
  qed
  then have "f ` {n. n \<in> A \<and> f n \<in> W} = W" by auto
  then show ?thesis using assms(1) by (auto simp: bij_betw_def inj_on_def)
qed

text \<open>A window of \<open>2\<^sup>d\<close> consecutive seeds is visited \<open>2\<^sup>d\<close> times in a period.\<close>

lemma visits:
  assumes "0 \<le> s" and "s < 2147483648" and "0 \<le> v" and "(v + 1) * 2 ^ d \<le> 2147483648"
  shows "card {n. n < 2147483648 \<and> shr ((IncreaseSeed ^^ n) s) d = v} = 2 ^ d"
proof -
  let ?f = "\<lambda>n. (IncreaseSeed ^^ n) s"
  have win: "shr x d = v \<longleftrightarrow> x \<in> {v * 2 ^ d..<(v + 1) * 2 ^ d}" for x
    using le_shr_iff [of v x d] shr_less_iff [of x d "v + 1"] by auto
  have sub: "{v * 2 ^ d..<(v + 1) * 2 ^ d} \<subseteq> {0..<2147483648}" using assms(3,4) by auto
  have "bij_betw ?f {n. n < 2147483648 \<and> shr (?f n) d = v} {v * 2 ^ d..<(v + 1) * 2 ^ d}"
    unfolding win using bij_betw_window [OF orbit_all [OF assms(1,2)] sub] by simp
  then have "card {n. n < 2147483648 \<and> shr (?f n) d = v} = card {v * 2 ^ d..<(v + 1) * 2 ^ d}"
    by (rule bij_betw_same_card)
  also have "\<dots> = 2 ^ d" by (simp add: distrib_right nat_power_eq)
  finally show ?thesis .
qed

text \<open>C35. From any seed of 31 bits the generator runs through all such seeds before it repeats, and in such a period
  the uniform generator returns each value from 0 to 32767 exactly \<open>2\<^sup>1\<^sup>6\<close> times; it returns nothing else, so
  never a negative value, although the comment in the header file gives the whole range of 16 bits.\<close>

theorem RandU_uniform:
  assumes "0 \<le> s" and "s < kMaxSeedUsed"
  shows "((IncreaseSeed ^^ n) s = s \<longleftrightarrow> 2 ^ 31 dvd n)
     \<and> fst (WebRtcSpl_RandU s) \<in> {0..32767} \<and> snd (WebRtcSpl_RandU s) = IncreaseSeed s
     \<and> (v \<in> {0..32767} \<longrightarrow> card {n. n < 2 ^ 31 \<and> fst (WebRtcSpl_RandU ((IncreaseSeed ^^ n) s)) = v} = 2 ^ 16)"
proof -
  have s: "0 \<le> s" "s < 2147483648" using assms by (simp_all add: kMaxSeedUsed_def)
  have r: "fst (WebRtcSpl_RandU t) = shr (IncreaseSeed t) 16" "0 \<le> shr (IncreaseSeed t) 16" "shr (IncreaseSeed t) 16 \<le> 32767" for t
    using seed_range [of t] shr_less_iff [of "IncreaseSeed t" 16 32768] shr_nonneg [of "IncreaseSeed t" 16]
      s16_id [of "shr (IncreaseSeed t) 16"]
    by (simp_all del: shr_nonneg add: WebRtcSpl_RandU_def Let_def)
  have "card {n. n < 2147483648 \<and> shr (IncreaseSeed ((IncreaseSeed ^^ n) s)) 16 = v} = 2 ^ 16" if "v \<in> {0..32767}"
  proof -
    have "(IncreaseSeed ^^ n) (IncreaseSeed s) = IncreaseSeed ((IncreaseSeed ^^ n) s)" for n
      by (simp add: funpow_swap1)
    then show ?thesis using visits [of "IncreaseSeed s" v 16] seed_range [of s] that by simp
  qed
  then show ?thesis using period [OF s] r by (simp add: WebRtcSpl_RandU_def Let_def)
qed

theorem RandU_uniform_witness:
  "fst (WebRtcSpl_RandU 777) = 818 \<and> card {n. n < 2 ^ 31 \<and> fst (WebRtcSpl_RandU ((IncreaseSeed ^^ n) 777)) = 818} = 2 ^ 16
   \<and> (IncreaseSeed ^^ 1000000) 777 \<noteq> 777"
proof -
  have "fst (WebRtcSpl_RandU 777) = 818" by code_simp
  then show ?thesis using RandU_uniform [of 777 1000000 818] by (simp add: kMaxSeedUsed_def)
qed

text \<open>The normal generator reads its table of 512 entries only in the first half: the index is the top eight bits of
  a 31 bit seed.\<close>

theorem RandN_half_table:
  "length kRandNTable = 512 \<and> nat (shr (snd (WebRtcSpl_RandN seed)) 23) < 256
   \<and> fst (WebRtcSpl_RandN seed) \<in> set (take 256 kRandNTable)"
proof -
  have l: "length kRandNTable = 512" by (simp add: kRandNTable_def)
  have "nat (shr (IncreaseSeed seed) 23) < 256"
    using seed_range [of seed] shr_less_iff [of "IncreaseSeed seed" 23 256] by simp
  moreover from this have "kRandNTable ! nat (shr (IncreaseSeed seed) 23) \<in> set (take 256 kRandNTable)"
    using l by (auto simp: in_set_conv_nth intro!: exI [of _ "nat (shr (IncreaseSeed seed) 23)"])
  ultimately show ?thesis using l by (simp add: WebRtcSpl_RandN_def Let_def)
qed

end
