(* ===== verification/Spl_Bit_Reverse.thy ===== *)
theory Spl_Bit_Reverse
  imports C_Int
begin

text \<open>
  The reordering before the FFT, \<open>complex_bit_reverse.c\<close>. Complex data is a list of 16 bit values, real and imaginary
  parts in turn; the code swaps elements through a pointer to 32 bit units, so both parts of an element move
  together. For 7 and 8 stages the code takes the pairs of indices from a table, otherwise it counts in bit reversed
  order; both reorder the elements by reversing the bits of their index.
\<close>

section \<open>Operations\<close>

definition index_7 :: "nat list" where
  "index_7 = [
    1, 64, 2, 32, 3, 96, 4, 16, 5, 80, 6, 48, 7, 112, 9, 72, 10, 40, 11, 104, 12, 24, 13, 88, 14, 56, 15, 120, 17,
    68, 18, 36, 19, 100, 21, 84, 22, 52, 23, 116, 25, 76, 26, 44, 27, 108, 29, 92, 30, 60, 31, 124, 33, 66, 35, 98,
    37, 82, 38, 50, 39, 114, 41, 74, 43, 106, 45, 90, 46, 58, 47, 122, 49, 70, 51, 102, 53, 86, 55, 118, 57, 78, 59,
    110, 61, 94, 63, 126, 67, 97, 69, 81, 71, 113, 75, 105, 77, 89, 79, 121, 83, 101, 87, 117, 91, 109, 95, 125, 103,
    115, 111, 123]"

definition index_8 :: "nat list" where
  "index_8 = [
    1, 128, 2, 64, 3, 192, 4, 32, 5, 160, 6, 96, 7, 224, 8, 16, 9, 144, 10, 80, 11, 208, 12, 48, 13, 176, 14, 112,
    15, 240, 17, 136, 18, 72, 19, 200, 20, 40, 21, 168, 22, 104, 23, 232, 25, 152, 26, 88, 27, 216, 28, 56, 29, 184,
    30, 120, 31, 248, 33, 132, 34, 68, 35, 196, 37, 164, 38, 100, 39, 228, 41, 148, 42, 84, 43, 212, 44, 52, 45, 180,
    46, 116, 47, 244, 49, 140, 50, 76, 51, 204, 53, 172, 54, 108, 55, 236, 57, 156, 58, 92, 59, 220, 61, 188, 62,
    124, 63, 252, 65, 130, 67, 194, 69, 162, 70, 98, 71, 226, 73, 146, 74, 82, 75, 210, 77, 178, 78, 114, 79, 242,
    81, 138, 83, 202, 85, 170, 86, 106, 87, 234, 89, 154, 91, 218, 93, 186, 94, 122, 95, 250, 97, 134, 99, 198, 101,
    166, 103, 230, 105, 150, 107, 214, 109, 182, 110, 118, 111, 246, 113, 142, 115, 206, 117, 174, 119, 238, 121,
    158, 123, 222, 125, 190, 127, 254, 131, 193, 133, 161, 135, 225, 137, 145, 139, 209, 141, 177, 143, 241, 147,
    201, 149, 169, 151, 233, 155, 217, 157, 185, 159, 249, 163, 197, 167, 229, 171, 213, 173, 181, 175, 245, 179,
    205, 183, 237, 187, 221, 191, 253, 199, 227, 203, 211, 207, 243, 215, 235, 223, 251, 239, 247]"

text \<open>Swapping two complex elements.\<close>

definition swap_complex :: "nat \<Rightarrow> nat \<Rightarrow> int list \<Rightarrow> int list" where
  "swap_complex i j d =
     (let tr = d ! (2 * i); ti = d ! (2 * i + 1);
          d = d[2 * i := d ! (2 * j), 2 * i + 1 := d ! (2 * j + 1)]
      in d[2 * j := tr, 2 * j + 1 := ti])"

fun swap_table :: "nat list \<Rightarrow> int list \<Rightarrow> int list" where
  "swap_table (a # b # index) d = swap_table index (swap_complex a b d)"
| "swap_table _ d = d"

text \<open>The \<open>do\<close> loop that looks for the highest bit of \<open>mr\<close> that is not set.\<close>

function clear_bit :: "nat \<Rightarrow> nat \<Rightarrow> nat" where
  "clear_bit l r = (let l = l div 2 in if l > r then clear_bit l r else l)"
  by auto
termination by (relation "measure fst") auto

definition next_mr :: "nat \<Rightarrow> nat \<Rightarrow> nat" where
  "next_mr n mr = (let l = clear_bit n (n - 1 - mr) in (mr AND (l - 1)) + l)"

definition reverse_step :: "nat \<Rightarrow> nat \<Rightarrow> nat \<times> int list \<Rightarrow> nat \<times> int list" where
  "reverse_step n m st =
     (case st of (mr, d) \<Rightarrow>
        let mr = next_mr n mr
        in if mr \<le> m then (mr, d) else (mr, swap_complex m mr d))"

definition WebRtcSpl_ComplexBitReverse :: "int list \<Rightarrow> nat \<Rightarrow> int list" where
  "WebRtcSpl_ComplexBitReverse complex_data stages =
     (if stages = 7 \<or> stages = 8 then swap_table (if stages = 8 then index_8 else index_7) complex_data
      else let n = 2 ^ stages in snd (fold (reverse_step n) [1..<n] (0, complex_data)))"

section \<open>Reversing bits\<close>

fun bit_rev :: "nat \<Rightarrow> nat \<Rightarrow> nat" where
  "bit_rev 0 m = 0"
| "bit_rev (Suc s) m = (m mod 2) * 2 ^ s + bit_rev s (m div 2)"

lemma bit_rev_less: "bit_rev s m < 2 ^ s"
proof (induction s arbitrary: m)
  case (Suc s)
  show ?case using Suc [of "m div 2"] by (cases "even m") (simp_all add: odd_iff_mod_2_eq_one)
qed simp

text \<open>The same from the top bit.\<close>

lemma bit_rev_top: "m < 2 ^ s \<Longrightarrow> c < 2 \<Longrightarrow> bit_rev (Suc s) (c * 2 ^ s + m) = 2 * bit_rev s m + c"
proof (induction s arbitrary: m)
  case (Suc s)
  have e: "c * 2 ^ Suc s + m = m + 2 * (c * 2 ^ s)" by simp
  have "(c * 2 ^ Suc s + m) mod 2 = m mod 2" unfolding e by simp
  moreover have "(c * 2 ^ Suc s + m) div 2 = c * 2 ^ s + m div 2" unfolding e by simp
  ultimately have "bit_rev (Suc (Suc s)) (c * 2 ^ Suc s + m) = (m mod 2) * 2 ^ Suc s + bit_rev (Suc s) (c * 2 ^ s + m div 2)"
    by simp
  also have "bit_rev (Suc s) (c * 2 ^ s + m div 2) = 2 * bit_rev s (m div 2) + c" using Suc by (intro Suc.IH) auto
  finally show ?case by simp
qed simp

lemma bit_rev_bit_rev: "m < 2 ^ s \<Longrightarrow> bit_rev s (bit_rev s m) = m"
proof (induction s arbitrary: m)
  case (Suc s)
  have "bit_rev (Suc s) (bit_rev (Suc s) m) = 2 * bit_rev s (bit_rev s (m div 2)) + m mod 2"
    using bit_rev_top [of "bit_rev s (m div 2)" s "m mod 2"] bit_rev_less [of s "m div 2"] by simp
  then show ?case using Suc by simp
qed simp

lemma bit_rev_ones: "bit_rev s (2 ^ s - 1) = 2 ^ s - 1"
proof (induction s)
  case (Suc s)
  have "1 \<le> (2 :: nat) ^ s" by simp
  then have "2 ^ Suc s - 1 = 2 * (2 ^ s - 1) + (1 :: nat)" unfolding power_Suc by arith
  then have "(2 ^ Suc s - 1) mod 2 = (1 :: nat)" "(2 ^ Suc s - 1) div 2 = (2 ^ s - 1 :: nat)"
    by (simp_all del: power_Suc)
  then show ?case using Suc by (simp del: power_Suc) simp
qed simp

lemma bit_rev_inj: "m < 2 ^ s \<Longrightarrow> k < 2 ^ s \<Longrightarrow> bit_rev s m = bit_rev s k \<longleftrightarrow> m = k"
  by (metis bit_rev_bit_rev)

lemma bit_rev_0 [simp]: "bit_rev s 0 = 0"
  by (induction s) simp_all

section \<open>Counting in reversed order\<close>

lemma and_power_mask: "m AND (2 ^ p - 1) = m mod (2 ^ p :: nat)"
  using take_bit_eq_mask [of p m] by (simp only: take_bit_eq_mod mask_eq_exp_minus_1)

lemma clear_bit_hit: "2 ^ s \<le> r \<Longrightarrow> clear_bit (2 ^ Suc s) r = 2 ^ s"
  by (simp add: Let_def)

lemma clear_bit_miss: "r < 2 ^ s \<Longrightarrow> clear_bit (2 ^ Suc s) r = clear_bit (2 ^ s) r"
  by (simp add: Let_def)

declare clear_bit.simps [simp del]

lemma clear_bit_power: "0 < r \<Longrightarrow> r < 2 ^ s \<Longrightarrow> \<exists>p < s. clear_bit (2 ^ s) r = 2 ^ p"
proof (induction s)
  case (Suc s)
  then show ?case by (cases "r < 2 ^ s") (auto simp: clear_bit_hit clear_bit_miss less_Suc_eq simp del: power_Suc)
qed simp

lemma next_mr_rev: "Suc m < 2 ^ s \<Longrightarrow> next_mr (2 ^ s) (bit_rev s m) = bit_rev s (Suc m)"
proof (induction s arbitrary: m)
  case (Suc s)
  show ?case
  proof (cases "even m")
    case True
    then have rev: "bit_rev (Suc s) m = bit_rev s (m div 2)" "bit_rev (Suc s) (Suc m) = 2 ^ s + bit_rev s (m div 2)"
      by (simp_all add: odd_iff_mod_2_eq_one [THEN iffD1])
    have less: "bit_rev s (m div 2) < 2 ^ s" by (rule bit_rev_less)
    then have "clear_bit (2 ^ Suc s) (2 ^ Suc s - 1 - bit_rev s (m div 2)) = 2 ^ s" by (intro clear_bit_hit) simp
    then show ?thesis using less by (simp only: rev next_mr_def Let_def and_power_mask) simp
  next
    case False
    define mr where "mr = bit_rev s (m div 2)"
    have rev: "bit_rev (Suc s) m = 2 ^ s + mr" "bit_rev (Suc s) (Suc m) = bit_rev s (Suc (m div 2))"
      using False by (simp_all add: mr_def odd_iff_mod_2_eq_one)
    have m: "Suc (m div 2) < 2 ^ s" using Suc.prems False by (simp add: odd_iff_mod_2_eq_one) presburger
    have "mr \<noteq> 2 ^ s - 1"
    proof
      assume "mr = 2 ^ s - 1"
      then show False using bit_rev_inj [of "m div 2" s "2 ^ s - 1"] bit_rev_ones [of s] m by (simp add: mr_def)
    qed
    then have less: "Suc mr < 2 ^ s" using bit_rev_less [of s "m div 2"] by (simp add: mr_def)
    have c: "2 ^ Suc s - 1 - (2 ^ s + mr) = 2 ^ s - 1 - mr" by simp
    obtain p where p: "p < s" "clear_bit (2 ^ s) (2 ^ s - 1 - mr) = 2 ^ p"
      using clear_bit_power [of "2 ^ s - 1 - mr" s] less by auto
    have "clear_bit (2 ^ Suc s) (2 ^ s - 1 - mr) = clear_bit (2 ^ s) (2 ^ s - 1 - mr)"
      by (rule clear_bit_miss) simp
    moreover have "(2 ^ s + mr) mod 2 ^ p = mr mod 2 ^ p" 
      using mod_mult_self1 [of mr "2 ^ (s - p)" "2 ^ p"] p(1) by (simp add: add.commute flip: power_add)
    ultimately have "next_mr (2 ^ Suc s) (2 ^ s + mr) = next_mr (2 ^ s) mr"
      by (simp only: next_mr_def Let_def c p(2) and_power_mask)
    then show ?thesis using Suc.IH [OF m] by (simp only: rev) (simp add: mr_def)
  qed
qed simp

section \<open>The swaps\<close>

text \<open>The complex element at an index.\<close>

definition elem :: "int list \<Rightarrow> nat \<Rightarrow> int \<times> int" where
  "elem d k = (d ! (2 * k), d ! (2 * k + 1))"

lemma length_swap_complex [simp]: "length (swap_complex i j d) = length d"
  by (simp add: swap_complex_def Let_def)

lemma elem_swap:
  assumes "2 * i + 1 < length d" and "2 * j + 1 < length d" and "i \<noteq> j"
  shows "elem (swap_complex i j d) k = elem d (if k = i then j else if k = j then i else k)"
proof -
  have "2 * i \<noteq> 2 * j" "2 * i + 1 \<noteq> 2 * j" "2 * i \<noteq> 2 * j + 1" "2 * i + 1 \<noteq> 2 * j + 1"
    using assms(3) by presburger+
  moreover have "k \<noteq> i \<Longrightarrow> 2 * k \<noteq> 2 * i \<and> 2 * k \<noteq> 2 * i + 1 \<and> 2 * k + 1 \<noteq> 2 * i \<and> 2 * k + 1 \<noteq> 2 * i + 1" for i
    by presburger
  ultimately show ?thesis
    using assms by (auto simp: elem_def swap_complex_def Let_def nth_list_update)
qed

text \<open>What a round of the loop does to the data.\<close>

definition rev_swap :: "nat \<Rightarrow> nat \<Rightarrow> int list \<Rightarrow> int list" where
  "rev_swap s m d = (if bit_rev s m \<le> m then d else swap_complex m (bit_rev s m) d)"

lemma reverse_loop:
  "Suc k \<le> 2 ^ s \<Longrightarrow> fold (reverse_step (2 ^ s)) [1..<Suc k] (0, d) = (bit_rev s k, fold (rev_swap s) [1..<Suc k] d)"
proof (induction k)
  case (Suc k)
  have last: "fold f [1..<Suc (Suc k)] x = f (Suc k) (fold f [1..<Suc k] x)" for f x
    by (subst upt_Suc) simp
  have IH: "fold (reverse_step (2 ^ s)) [1..<Suc k] (0, d) = (bit_rev s k, fold (rev_swap s) [1..<Suc k] d)"
    using Suc by simp
  show ?case unfolding last IH using Suc.prems next_mr_rev [of k s]
    by (simp add: reverse_step_def rev_swap_def Let_def)
qed simp

definition rev_pairs :: "nat \<Rightarrow> nat \<Rightarrow> nat list" where
  "rev_pairs s m = (if bit_rev s m \<le> m then [] else [m, bit_rev s m])"

lemma swap_table_pairs: "swap_table (concat (map (rev_pairs s) ms)) d = fold (rev_swap s) ms d"
  by (induction ms arbitrary: d) (simp_all add: rev_pairs_def rev_swap_def)

lemma bit_rev_numeral:
  "bit_rev 8 m = m mod 2 * 128 + bit_rev 7 (m div 2)" "bit_rev 7 m = m mod 2 * 64 + bit_rev 6 (m div 2)"
  "bit_rev 6 m = m mod 2 * 32 + bit_rev 5 (m div 2)" "bit_rev 5 m = m mod 2 * 16 + bit_rev 4 (m div 2)"
  "bit_rev 4 m = m mod 2 * 8 + bit_rev 3 (m div 2)" "bit_rev 3 m = m mod 2 * 4 + bit_rev 2 (m div 2)"
  using bit_rev.simps(2) [of 7 m] bit_rev.simps(2) [of 6 m] bit_rev.simps(2) [of 5 m] bit_rev.simps(2) [of 4 m]
    bit_rev.simps(2) [of 3 m] bit_rev.simps(2) [of 2 m]
  by simp_all

lemma bit_rev_2: "bit_rev 2 m = m mod 2 * 2 + m div 2 mod 2"
  by (simp add: numeral_2_eq_2)

lemma upt_1: "[1..<128] = 1 # [2..<128 :: nat]" "[1..<256] = 1 # [2..<256 :: nat]"
  by (rule upt_conv_Cons [of 1, unfolded Suc_1], simp)+

lemma index_7_pairs: "index_7 = concat (map (rev_pairs 7) [1..<128])"
  unfolding upt_1 by (simp add: index_7_def rev_pairs_def bit_rev_numeral bit_rev_2 upt_rec_numeral)

lemma index_8_pairs: "index_8 = concat (map (rev_pairs 8) [1..<256])"
  unfolding upt_1 by (simp add: index_8_def rev_pairs_def bit_rev_numeral bit_rev_2 upt_rec_numeral)

lemma ComplexBitReverse_fold: "WebRtcSpl_ComplexBitReverse d s = fold (rev_swap s) [1..<2 ^ s] d"
proof (cases "s = 7 \<or> s = 8")
  case True
  then show ?thesis by (auto simp: WebRtcSpl_ComplexBitReverse_def index_7_pairs index_8_pairs swap_table_pairs)
next
  case False
  obtain k where "2 ^ s = Suc k" using not0_implies_Suc [of "2 ^ s"] by auto
  then show ?thesis using False reverse_loop [of k s d] by (simp add: WebRtcSpl_ComplexBitReverse_def Let_def)
qed

lemma rev_swaps:
  assumes "2 * 2 ^ s \<le> length d" and "1 \<le> M" and "M \<le> 2 ^ s"
  shows "length (fold (rev_swap s) [1..<M] d) = length d
     \<and> (\<forall>k. elem (fold (rev_swap s) [1..<M] d) k
          = elem d (if k < 2 ^ s \<and> min k (bit_rev s k) < M then bit_rev s k else k))"
  using assms(2,3)
proof (induction M rule: dec_induct)
  case base
  have "k = 0" if "k < 2 ^ s" "bit_rev s k = 0" for k
    using bit_rev_bit_rev [OF that(1)] that(2) by simp
  then have "(if k < 2 ^ s \<and> min k (bit_rev s k) < 1 then bit_rev s k else k) = k" for k
    by (auto simp: min_def)
  then show ?case by simp
next
  case (step M)
  define e where "e = fold (rev_swap s) [1..<M] d"
  let ?r = "bit_rev s M"
  have M: "M < 2 ^ s" "?r < 2 ^ s" "bit_rev s ?r = M" using step bit_rev_less bit_rev_bit_rev by auto
  have IH: "length e = length d"
    "\<And>k. elem e k = elem d (if k < 2 ^ s \<and> min k (bit_rev s k) < M then bit_rev s k else k)" 
    using step.IH Suc_leD [OF step.prems] unfolding e_def by blast+
  have new: "min k (bit_rev s k) < Suc M \<longleftrightarrow> min k (bit_rev s k) < M \<or> (M \<le> ?r \<and> (k = M \<or> k = ?r))" if "k < 2 ^ s" for k
    using that M bit_rev_bit_rev [of k s] by (auto simp: min_def less_Suc_eq split: if_splits)
  have fold: "fold (rev_swap s) [1..<Suc M] d = rev_swap s M e" using step by (simp add: e_def)
  show ?case
  proof (cases "?r \<le> M")
    case True
    have noop: "rev_swap s M e = e" using True by (simp add: rev_swap_def)
    have "(if k < 2 ^ s \<and> min k (bit_rev s k) < Suc M then bit_rev s k else k)
        = (if k < 2 ^ s \<and> min k (bit_rev s k) < M then bit_rev s k else k)" for k
      using new [of k] True M by auto
    then show ?thesis unfolding fold noop IH by (intro conjI allI refl) (simp only:)
  next
    case False
    then have "2 * M + 1 < length e" "2 * ?r + 1 < length e" "M \<noteq> ?r" using M assms(1) IH(1) by auto
    then have "elem (swap_complex M ?r e) k = elem e (if k = M then ?r else if k = ?r then M else k)" for k
      by (rule elem_swap)
    then have "elem (rev_swap s M e) k
        = elem d (if k < 2 ^ s \<and> min k (bit_rev s k) < Suc M then bit_rev s k else k)" for k
      using False M new [of k] by (auto simp: rev_swap_def IH(2))
    moreover have "length (rev_swap s M e) = length d" using IH(1) by (simp add: rev_swap_def)
    ultimately show ?thesis unfolding fold by (intro conjI allI)
  qed
qed

lemma ComplexBitReverse_elem:
  assumes "2 * 2 ^ s \<le> length d"
  shows "length (WebRtcSpl_ComplexBitReverse d s) = length d"
    and "elem (WebRtcSpl_ComplexBitReverse d s) k = elem d (if k < 2 ^ s then bit_rev s k else k)"
  using rev_swaps [OF assms, of "2 ^ s"] by (auto simp: ComplexBitReverse_fold)

text \<open>C34. For every number of stages, with the tables as with the counting loop, the element at index \<open>k\<close> becomes the one
  at the index with the bits of \<open>k\<close> in reverse order, elements beyond are not touched, and doing it twice changes nothing.\<close>

theorem ComplexBitReverse_correct:
  assumes "2 * 2 ^ s \<le> length d"
  shows "length (WebRtcSpl_ComplexBitReverse d s) = length d
     \<and> elem (WebRtcSpl_ComplexBitReverse d s) k = elem d (if k < 2 ^ s then bit_rev s k else k)
     \<and> elem (WebRtcSpl_ComplexBitReverse (WebRtcSpl_ComplexBitReverse d s) s) k = elem d k"
  using ComplexBitReverse_elem(1) [OF assms] ComplexBitReverse_elem(2) [OF assms, of k] ComplexBitReverse_elem(2) [of s "WebRtcSpl_ComplexBitReverse d s" k]
    ComplexBitReverse_elem(2) [OF assms, of "bit_rev s k"] assms bit_rev_less [of s k] bit_rev_bit_rev [of k s] by auto

theorem ComplexBitReverse_correct_witness:
  "WebRtcSpl_ComplexBitReverse [0, 1, 10, 11, 20, 21, 30, 31] 2 = [0, 1, 20, 21, 10, 11, 30, 31]
   \<and> elem (WebRtcSpl_ComplexBitReverse [0, 1, 10, 11, 20, 21, 30, 31] 2) 1 = elem [0, 1, 10, 11, 20, 21, 30, 31] (bit_rev 2 1)"
proof -
  have "WebRtcSpl_ComplexBitReverse [0, 1, 10, 11, 20, 21, 30, 31] 2 = [0, 1, 20, 21, 10, 11, 30, 31]" by code_simp
  then show ?thesis using ComplexBitReverse_correct [of 2 "[0, 1, 10, 11, 20, 21, 30, 31]" 1] by simp
qed

end
