(* ===== verification/Spl_Fft.thy ===== *)
theory Spl_Fft
  imports Spl_Min_Max Spl_Bit_Reverse
begin

text \<open>
  The fixed point FFT, \<open>complex_fft.c\<close> with its table \<open>complex_fft_tables.h\<close>, and its wrapper for real signals,
  \<open>real_fft.c\<close>: the generic C code of the butterflies in the two accuracy modes of the forward and the inverse
  transform, the loops, and what one stage of the loops does to every element (locale \<open>butterfly\<close>). That the result is
  the Fourier transform up to a few units in the last place is proved in \<open>Fft_Dft\<close>. A number of stages is a natural
  number, below 31 so that \<open>1 << stages\<close> is an \<open>int\<close>.
\<close>

section \<open>Tables and constants\<close>

definition kSinTable1024 :: "int list" where
  "kSinTable1024 = [
    0, 201, 402, 603, 804, 1005, 1206, 1406, 1607, 1808, 2009, 2209, 2410, 2610, 2811, 3011, 3211, 3411, 3611, 3811,
    4011, 4210, 4409, 4608, 4807, 5006, 5205, 5403, 5601, 5799, 5997, 6195, 6392, 6589, 6786, 6982, 7179, 7375, 7571,
    7766, 7961, 8156, 8351, 8545, 8739, 8932, 9126, 9319, 9511, 9703, 9895, 10087, 10278, 10469, 10659, 10849, 11038,
    11227, 11416, 11604, 11792, 11980, 12166, 12353, 12539, 12724, 12909, 13094, 13278, 13462, 13645, 13827, 14009,
    14191, 14372, 14552, 14732, 14911, 15090, 15268, 15446, 15623, 15799, 15975, 16150, 16325, 16499, 16672, 16845,
    17017, 17189, 17360, 17530, 17699, 17868, 18036, 18204, 18371, 18537, 18702, 18867, 19031, 19194, 19357, 19519,
    19680, 19840, 20000, 20159, 20317, 20474, 20631, 20787, 20942, 21096, 21249, 21402, 21554, 21705, 21855, 22004,
    22153, 22301, 22448, 22594, 22739, 22883, 23027, 23169, 23311, 23452, 23592, 23731, 23869, 24006, 24143, 24278,
    24413, 24546, 24679, 24811, 24942, 25072, 25201, 25329, 25456, 25582, 25707, 25831, 25954, 26077, 26198, 26318,
    26437, 26556, 26673, 26789, 26905, 27019, 27132, 27244, 27355, 27466, 27575, 27683, 27790, 27896, 28001, 28105,
    28208, 28309, 28410, 28510, 28608, 28706, 28802, 28897, 28992, 29085, 29177, 29268, 29358, 29446, 29534, 29621,
    29706, 29790, 29873, 29955, 30036, 30116, 30195, 30272, 30349, 30424, 30498, 30571, 30643, 30713, 30783, 30851,
    30918, 30984, 31049, 31113, 31175, 31236, 31297, 31356, 31413, 31470, 31525, 31580, 31633, 31684, 31735, 31785,
    31833, 31880, 31926, 31970, 32014, 32056, 32097, 32137, 32176, 32213, 32249, 32284, 32318, 32350, 32382, 32412,
    32441, 32468, 32495, 32520, 32544, 32567, 32588, 32609, 32628, 32646, 32662, 32678, 32692, 32705, 32717, 32727,
    32736, 32744, 32751, 32757, 32761, 32764, 32766, 32767, 32766, 32764, 32761, 32757, 32751, 32744, 32736, 32727,
    32717, 32705, 32692, 32678, 32662, 32646, 32628, 32609, 32588, 32567, 32544, 32520, 32495, 32468, 32441, 32412,
    32382, 32350, 32318, 32284, 32249, 32213, 32176, 32137, 32097, 32056, 32014, 31970, 31926, 31880, 31833, 31785,
    31735, 31684, 31633, 31580, 31525, 31470, 31413, 31356, 31297, 31236, 31175, 31113, 31049, 30984, 30918, 30851,
    30783, 30713, 30643, 30571, 30498, 30424, 30349, 30272, 30195, 30116, 30036, 29955, 29873, 29790, 29706, 29621,
    29534, 29446, 29358, 29268, 29177, 29085, 28992, 28897, 28802, 28706, 28608, 28510, 28410, 28309, 28208, 28105,
    28001, 27896, 27790, 27683, 27575, 27466, 27355, 27244, 27132, 27019, 26905, 26789, 26673, 26556, 26437, 26318,
    26198, 26077, 25954, 25831, 25707, 25582, 25456, 25329, 25201, 25072, 24942, 24811, 24679, 24546, 24413, 24278,
    24143, 24006, 23869, 23731, 23592, 23452, 23311, 23169, 23027, 22883, 22739, 22594, 22448, 22301, 22153, 22004,
    21855, 21705, 21554, 21402, 21249, 21096, 20942, 20787, 20631, 20474, 20317, 20159, 20000, 19840, 19680, 19519,
    19357, 19194, 19031, 18867, 18702, 18537, 18371, 18204, 18036, 17868, 17699, 17530, 17360, 17189, 17017, 16845,
    16672, 16499, 16325, 16150, 15975, 15799, 15623, 15446, 15268, 15090, 14911, 14732, 14552, 14372, 14191, 14009,
    13827, 13645, 13462, 13278, 13094, 12909, 12724, 12539, 12353, 12166, 11980, 11792, 11604, 11416, 11227, 11038,
    10849, 10659, 10469, 10278, 10087, 9895, 9703, 9511, 9319, 9126, 8932, 8739, 8545, 8351, 8156, 7961, 7766, 7571,
    7375, 7179, 6982, 6786, 6589, 6392, 6195, 5997, 5799, 5601, 5403, 5205, 5006, 4807, 4608, 4409, 4210, 4011, 3811,
    3611, 3411, 3211, 3011, 2811, 2610, 2410, 2209, 2009, 1808, 1607, 1406, 1206, 1005, 804, 603, 402, 201, 0, -201,
    -402, -603, -804, -1005, -1206, -1406, -1607, -1808, -2009, -2209, -2410, -2610, -2811, -3011, -3211, -3411,
    -3611, -3811, -4011, -4210, -4409, -4608, -4807, -5006, -5205, -5403, -5601, -5799, -5997, -6195, -6392, -6589,
    -6786, -6982, -7179, -7375, -7571, -7766, -7961, -8156, -8351, -8545, -8739, -8932, -9126, -9319, -9511, -9703,
    -9895, -10087, -10278, -10469, -10659, -10849, -11038, -11227, -11416, -11604, -11792, -11980, -12166, -12353,
    -12539, -12724, -12909, -13094, -13278, -13462, -13645, -13827, -14009, -14191, -14372, -14552, -14732, -14911,
    -15090, -15268, -15446, -15623, -15799, -15975, -16150, -16325, -16499, -16672, -16845, -17017, -17189, -17360,
    -17530, -17699, -17868, -18036, -18204, -18371, -18537, -18702, -18867, -19031, -19194, -19357, -19519, -19680,
    -19840, -20000, -20159, -20317, -20474, -20631, -20787, -20942, -21096, -21249, -21402, -21554, -21705, -21855,
    -22004, -22153, -22301, -22448, -22594, -22739, -22883, -23027, -23169, -23311, -23452, -23592, -23731, -23869,
    -24006, -24143, -24278, -24413, -24546, -24679, -24811, -24942, -25072, -25201, -25329, -25456, -25582, -25707,
    -25831, -25954, -26077, -26198, -26318, -26437, -26556, -26673, -26789, -26905, -27019, -27132, -27244, -27355,
    -27466, -27575, -27683, -27790, -27896, -28001, -28105, -28208, -28309, -28410, -28510, -28608, -28706, -28802,
    -28897, -28992, -29085, -29177, -29268, -29358, -29446, -29534, -29621, -29706, -29790, -29873, -29955, -30036,
    -30116, -30195, -30272, -30349, -30424, -30498, -30571, -30643, -30713, -30783, -30851, -30918, -30984, -31049,
    -31113, -31175, -31236, -31297, -31356, -31413, -31470, -31525, -31580, -31633, -31684, -31735, -31785, -31833,
    -31880, -31926, -31970, -32014, -32056, -32097, -32137, -32176, -32213, -32249, -32284, -32318, -32350, -32382,
    -32412, -32441, -32468, -32495, -32520, -32544, -32567, -32588, -32609, -32628, -32646, -32662, -32678, -32692,
    -32705, -32717, -32727, -32736, -32744, -32751, -32757, -32761, -32764, -32766, -32767, -32766, -32764, -32761,
    -32757, -32751, -32744, -32736, -32727, -32717, -32705, -32692, -32678, -32662, -32646, -32628, -32609, -32588,
    -32567, -32544, -32520, -32495, -32468, -32441, -32412, -32382, -32350, -32318, -32284, -32249, -32213, -32176,
    -32137, -32097, -32056, -32014, -31970, -31926, -31880, -31833, -31785, -31735, -31684, -31633, -31580, -31525,
    -31470, -31413, -31356, -31297, -31236, -31175, -31113, -31049, -30984, -30918, -30851, -30783, -30713, -30643,
    -30571, -30498, -30424, -30349, -30272, -30195, -30116, -30036, -29955, -29873, -29790, -29706, -29621, -29534,
    -29446, -29358, -29268, -29177, -29085, -28992, -28897, -28802, -28706, -28608, -28510, -28410, -28309, -28208,
    -28105, -28001, -27896, -27790, -27683, -27575, -27466, -27355, -27244, -27132, -27019, -26905, -26789, -26673,
    -26556, -26437, -26318, -26198, -26077, -25954, -25831, -25707, -25582, -25456, -25329, -25201, -25072, -24942,
    -24811, -24679, -24546, -24413, -24278, -24143, -24006, -23869, -23731, -23592, -23452, -23311, -23169, -23027,
    -22883, -22739, -22594, -22448, -22301, -22153, -22004, -21855, -21705, -21554, -21402, -21249, -21096, -20942,
    -20787, -20631, -20474, -20317, -20159, -20000, -19840, -19680, -19519, -19357, -19194, -19031, -18867, -18702,
    -18537, -18371, -18204, -18036, -17868, -17699, -17530, -17360, -17189, -17017, -16845, -16672, -16499, -16325,
    -16150, -15975, -15799, -15623, -15446, -15268, -15090, -14911, -14732, -14552, -14372, -14191, -14009, -13827,
    -13645, -13462, -13278, -13094, -12909, -12724, -12539, -12353, -12166, -11980, -11792, -11604, -11416, -11227,
    -11038, -10849, -10659, -10469, -10278, -10087, -9895, -9703, -9511, -9319, -9126, -8932, -8739, -8545, -8351,
    -8156, -7961, -7766, -7571, -7375, -7179, -6982, -6786, -6589, -6392, -6195, -5997, -5799, -5601, -5403, -5205,
    -5006, -4807, -4608, -4409, -4210, -4011, -3811, -3611, -3411, -3211, -3011, -2811, -2610, -2410, -2209, -2009,
    -1808, -1607, -1406, -1206, -1005, -804, -603, -402, -201]"

definition CFFTSFT :: nat where "CFFTSFT = 14"
definition CFFTRND :: int where "CFFTRND = 1"
definition CFFTRND2 :: int where "CFFTRND2 = 16384"
definition CIFFTSFT :: nat where "CIFFTSFT = 14"
definition CIFFTRND :: int where "CIFFTRND = 1"

section \<open>Butterflies\<close>

text \<open>The loop bodies: \<open>i\<close> and \<open>j = i + l\<close> are the elements that are combined.\<close>

definition fft_butterfly0 :: "int \<Rightarrow> int \<Rightarrow> nat \<Rightarrow> nat \<Rightarrow> int list \<Rightarrow> int list" where
  "fft_butterfly0 wr wi l i frfi =
     (let j = i + l;
          tr32 = shr (s32 (WEBRTC_SPL_MUL_16_16 wr (frfi ! (2 * j)) - WEBRTC_SPL_MUL_16_16 wi (frfi ! (2 * j + 1)))) 15;
          ti32 = shr (s32 (WEBRTC_SPL_MUL_16_16 wr (frfi ! (2 * j + 1)) + WEBRTC_SPL_MUL_16_16 wi (frfi ! (2 * j)))) 15;
          qr32 = frfi ! (2 * i);
          qi32 = frfi ! (2 * i + 1)
      in frfi[2 * j := s16 (shr (s32 (qr32 - tr32)) 1),
              2 * j + 1 := s16 (shr (s32 (qi32 - ti32)) 1),
              2 * i := s16 (shr (s32 (qr32 + tr32)) 1),
              2 * i + 1 := s16 (shr (s32 (qi32 + ti32)) 1)])"

definition fft_butterfly1 :: "int \<Rightarrow> int \<Rightarrow> nat \<Rightarrow> nat \<Rightarrow> int list \<Rightarrow> int list" where
  "fft_butterfly1 wr wi l i frfi =
     (let j = i + l;
          tr32 = s32 (s32 (WEBRTC_SPL_MUL_16_16 wr (frfi ! (2 * j)) - WEBRTC_SPL_MUL_16_16 wi (frfi ! (2 * j + 1))) + CFFTRND);
          ti32 = s32 (s32 (WEBRTC_SPL_MUL_16_16 wr (frfi ! (2 * j + 1)) + WEBRTC_SPL_MUL_16_16 wi (frfi ! (2 * j))) + CFFTRND);
          tr32 = shr tr32 (15 - CFFTSFT);
          ti32 = shr ti32 (15 - CFFTSFT);
          qr32 = s32 (shl (frfi ! (2 * i)) CFFTSFT);
          qi32 = s32 (shl (frfi ! (2 * i + 1)) CFFTSFT)
      in frfi[2 * j := s16 (shr (s32 (s32 (qr32 - tr32) + CFFTRND2)) (1 + CFFTSFT)),
              2 * j + 1 := s16 (shr (s32 (s32 (qi32 - ti32) + CFFTRND2)) (1 + CFFTSFT)),
              2 * i := s16 (shr (s32 (s32 (qr32 + tr32) + CFFTRND2)) (1 + CFFTSFT)),
              2 * i + 1 := s16 (shr (s32 (s32 (qi32 + ti32) + CFFTRND2)) (1 + CFFTSFT))])"

definition ifft_butterfly0 :: "nat \<Rightarrow> int \<Rightarrow> int \<Rightarrow> nat \<Rightarrow> nat \<Rightarrow> int list \<Rightarrow> int list" where
  "ifft_butterfly0 shift wr wi l i frfi =
     (let j = i + l;
          tr32 = shr (s32 (WEBRTC_SPL_MUL_16_16_RSFT wr (frfi ! (2 * j)) 0
                   - WEBRTC_SPL_MUL_16_16_RSFT wi (frfi ! (2 * j + 1)) 0)) 15;
          ti32 = shr (s32 (WEBRTC_SPL_MUL_16_16_RSFT wr (frfi ! (2 * j + 1)) 0
                   + WEBRTC_SPL_MUL_16_16_RSFT wi (frfi ! (2 * j)) 0)) 15;
          qr32 = frfi ! (2 * i);
          qi32 = frfi ! (2 * i + 1)
      in frfi[2 * j := s16 (shr (s32 (qr32 - tr32)) shift),
              2 * j + 1 := s16 (shr (s32 (qi32 - ti32)) shift),
              2 * i := s16 (shr (s32 (qr32 + tr32)) shift),
              2 * i + 1 := s16 (shr (s32 (qi32 + ti32)) shift)])"

definition ifft_butterfly1 :: "nat \<Rightarrow> int \<Rightarrow> int \<Rightarrow> int \<Rightarrow> nat \<Rightarrow> nat \<Rightarrow> int list \<Rightarrow> int list" where
  "ifft_butterfly1 shift round2 wr wi l i frfi =
     (let j = i + l;
          tr32 = s32 (s32 (WEBRTC_SPL_MUL_16_16 wr (frfi ! (2 * j)) - WEBRTC_SPL_MUL_16_16 wi (frfi ! (2 * j + 1))) + CIFFTRND);
          ti32 = s32 (s32 (WEBRTC_SPL_MUL_16_16 wr (frfi ! (2 * j + 1)) + WEBRTC_SPL_MUL_16_16 wi (frfi ! (2 * j))) + CIFFTRND);
          tr32 = shr tr32 (15 - CIFFTSFT);
          ti32 = shr ti32 (15 - CIFFTSFT);
          qr32 = s32 (shl (frfi ! (2 * i)) CIFFTSFT);
          qi32 = s32 (shl (frfi ! (2 * i + 1)) CIFFTSFT)
      in frfi[2 * j := s16 (shr (s32 (s32 (qr32 - tr32) + round2)) (shift + CIFFTSFT)),
              2 * j + 1 := s16 (shr (s32 (s32 (qi32 - ti32) + round2)) (shift + CIFFTSFT)),
              2 * i := s16 (shr (s32 (s32 (qr32 + tr32) + round2)) (shift + CIFFTSFT)),
              2 * i + 1 := s16 (shr (s32 (s32 (qi32 + ti32) + round2)) (shift + CIFFTSFT))])"

section \<open>Stages and transforms\<close>

text \<open>One round of the \<open>while\<close> loop; \<open>wi_of\<close> is the sign the transform gives the sine.\<close>

definition fft_stage :: "(int \<Rightarrow> int \<Rightarrow> nat \<Rightarrow> nat \<Rightarrow> int list \<Rightarrow> int list) \<Rightarrow> (int \<Rightarrow> int) \<Rightarrow> nat \<Rightarrow> nat \<Rightarrow> nat \<Rightarrow> int list \<Rightarrow> int list" where
  "fft_stage butterfly wi_of l k n frfi =
     fold (\<lambda>m frfi.
         let j = m * 2 ^ k;
             wr = kSinTable1024 ! (j + 256);
             wi = wi_of (kSinTable1024 ! j)
         in fold (butterfly wr wi l) (index_range m n (2 * l)) frfi)
       [0..<l] frfi"

function fft_loop :: "(int \<Rightarrow> int \<Rightarrow> nat \<Rightarrow> nat \<Rightarrow> int list \<Rightarrow> int list) \<Rightarrow> nat \<Rightarrow> nat \<Rightarrow> nat \<Rightarrow> int list \<Rightarrow> int list" where
  "fft_loop butterfly l k n frfi =
     (if 0 < l \<and> l < n then fft_loop butterfly (2 * l) (k - 1) n (fft_stage butterfly (\<lambda>w. s16 (- w)) l k n frfi) else frfi)"
  by auto
termination by (relation "measure (\<lambda>(butterfly, l, k, n, frfi). n - l)") auto

definition WebRtcSpl_ComplexFFT :: "int list \<Rightarrow> nat \<Rightarrow> int \<Rightarrow> int \<times> int list" where
  "WebRtcSpl_ComplexFFT frfi stages mode =
     (let n = 2 ^ stages
      in if n > 1024 then (-1, frfi)
         else (0, fft_loop (if mode = 0 then fft_butterfly0 else fft_butterfly1) 1 (10 - 1) n frfi))"

text \<open>The variable scaling of the inverse transform: how many bits a stage shifts out, and half of the last of them.\<close>

definition ifft_scaling :: "nat \<Rightarrow> int list \<Rightarrow> nat \<times> int" where
  "ifft_scaling n frfi =
     (let shift = 0;
          round2 = 8192;
          tmp32 = WebRtcSpl_MaxAbsValueW16C (Some frfi) (2 * int n);
          (shift, round2) = (if tmp32 > 13573 then (shift + 1, s32 (shl round2 1)) else (shift, round2));
          (shift, round2) = (if tmp32 > 27146 then (shift + 1, s32 (shl round2 1)) else (shift, round2))
      in (shift, round2))"

function ifft_loop :: "int \<Rightarrow> nat \<Rightarrow> nat \<Rightarrow> nat \<Rightarrow> int list \<times> nat \<Rightarrow> int list \<times> nat" where
  "ifft_loop mode l k n (frfi, scale) =
     (if 0 < l \<and> l < n
      then let (shift, round2) = ifft_scaling n frfi;
               butterfly = (if mode = 0 then ifft_butterfly0 shift else ifft_butterfly1 shift round2)
           in ifft_loop mode (2 * l) (k - 1) n (fft_stage butterfly (\<lambda>w. w) l k n frfi, scale + shift)
      else (frfi, scale))"
  by pat_completeness auto
termination by (relation "measure (\<lambda>(mode, l, k, n, st). n - l)") auto

definition WebRtcSpl_ComplexIFFT :: "int list \<Rightarrow> nat \<Rightarrow> int \<Rightarrow> int \<times> int list" where
  "WebRtcSpl_ComplexIFFT frfi stages mode =
     (let n = 2 ^ stages
      in if n > 1024 then (-1, frfi)
         else let (frfi, scale) = ifft_loop mode 1 (10 - 1) n (frfi, 0) in (int scale, frfi))"

declare fft_loop.simps [simp del] ifft_loop.simps [simp del]

section \<open>Real signals\<close>

definition kMaxFFTOrder :: nat where "kMaxFFTOrder = 10"

record RealFFT =
  order :: nat

text \<open>\<open>got_memory\<close> is whether \<open>malloc\<close> succeeds.\<close>

definition WebRtcSpl_CreateRealFFTC :: "int \<Rightarrow> bool \<Rightarrow> RealFFT option" where
  "WebRtcSpl_CreateRealFFTC ord got_memory =
     (if ord > int kMaxFFTOrder \<or> ord < 0 then None
      else if \<not> got_memory then None
      else Some \<lparr>order = nat ord\<rparr>)"

text \<open>The buffers on the stack are as long as the part the functions use, \<open>2 * n\<close> values; outputs are the written values.\<close>

definition WebRtcSpl_RealForwardFFTC :: "RealFFT \<Rightarrow> int list \<Rightarrow> int \<times> int list" where
  "WebRtcSpl_RealForwardFFTC self real_data_in =
     (let n = 2 ^ order self;
          complex_buffer = concat (map (\<lambda>i. [real_data_in ! i, 0]) [0..<n]);
          complex_buffer = WebRtcSpl_ComplexBitReverse complex_buffer (order self);
          (result, complex_buffer) = WebRtcSpl_ComplexFFT complex_buffer (order self) 1
      in (result, take (n + 2) complex_buffer))"

definition WebRtcSpl_RealInverseFFTC :: "RealFFT \<Rightarrow> int list \<Rightarrow> int \<times> int list" where
  "WebRtcSpl_RealInverseFFTC self complex_data_in =
     (let n = 2 ^ order self;
          complex_buffer = take (n + 2) complex_data_in
            @ concat (map (\<lambda>i. [complex_data_in ! (2 * n - i), s16 (- (complex_data_in ! (2 * n - i + 1)))])
                (index_range (n + 2) (2 * n) 2));
          complex_buffer = WebRtcSpl_ComplexBitReverse complex_buffer (order self);
          (result, complex_buffer) = WebRtcSpl_ComplexIFFT complex_buffer (order self) 1
      in (result, map (\<lambda>i. complex_buffer ! (2 * i)) [0..<n]))"

section \<open>The indices of a stage\<close>

definition stage_indices :: "nat \<Rightarrow> nat \<Rightarrow> nat list" where
  "stage_indices l n = concat (map (\<lambda>m. index_range m n (2 * l)) [0..<l])"

lemma index_range_mod: "m < d \<Longrightarrow> i \<in> set (index_range m n d) \<longleftrightarrow> i < n \<and> i mod d = m"
proof -
  assume m: "m < d"
  have "m \<le> i \<and> d dvd i - m \<longleftrightarrow> i mod d = m"
  proof
    assume a: "m \<le> i \<and> d dvd i - m"
    then have "i mod d = (m + (i - m)) mod d" by simp
    also have "\<dots> = m" using a m mod_add_right_eq [of m "i - m" d] by simp
    finally show "i mod d = m" .
  next
    assume "i mod d = m"
    then show "m \<le> i \<and> d dvd i - m" using minus_mod_eq_mult_div [of i d] by auto
  qed
  then show ?thesis using m by (auto simp: index_range_set)
qed

lemma stage_indices_set: "i \<in> set (stage_indices l n) \<longleftrightarrow> i < n \<and> i mod (2 * l) < l"
  by (auto simp: stage_indices_def index_range_mod)

lemma distinct_stage_indices: "distinct (stage_indices l n)"
proof -
  have "distinct (concat (map (\<lambda>m. index_range m n (2 * l)) [0..<k]))" if "k \<le> l" for k
    using that by (induction k) (auto simp: distinct_index_range index_range_mod)
  then show ?thesis by (simp add: stage_indices_def)
qed

section \<open>What a stage does\<close>

text \<open>A butterfly combines the elements \<open>i\<close> and \<open>i + l\<close> and leaves the others alone. Every stage of every transform then
  treats each element once, with the values the elements had before the stage.\<close>

locale butterfly =
  fixes b :: "int \<Rightarrow> int \<Rightarrow> nat \<Rightarrow> nat \<Rightarrow> int list \<Rightarrow> int list"
    and plus :: "int \<Rightarrow> int \<Rightarrow> int \<times> int \<Rightarrow> int \<times> int \<Rightarrow> int \<times> int"
    and minus :: "int \<Rightarrow> int \<Rightarrow> int \<times> int \<Rightarrow> int \<times> int \<Rightarrow> int \<times> int"
  assumes length_b: "length (b wr wi l i d) = length d"
    and elem_b: "0 < l \<Longrightarrow> 2 * (i + l) + 1 < length d \<Longrightarrow>
      elem (b wr wi l i d) k =
        (if k = i then plus wr wi (elem d i) (elem d (i + l))
         else if k = i + l then minus wr wi (elem d i) (elem d (i + l)) else elem d k)"
begin

lemma length_fold: "length (fold (\<lambda>i. b (wr i) (wi i) l i) is d) = length d"
  by (induction "is" arbitrary: d) (simp_all add: length_b)

lemma elem_fold:
  assumes "0 < l" and "distinct is" and "\<And>i. i \<in> set is \<Longrightarrow> i mod (2 * l) < l \<and> 2 * (i + l) + 1 < length d"
  shows "elem (fold (\<lambda>i. b (wr i) (wi i) l i) is d) k =
    (if k \<in> set is then plus (wr k) (wi k) (elem d k) (elem d (k + l))
     else if l \<le> k \<and> k - l \<in> set is then minus (wr (k - l)) (wi (k - l)) (elem d (k - l)) (elem d k)
     else elem d k)"
  using assms(2,3)
proof (induction "is" arbitrary: k rule: rev_induct)
  case (snoc i js)
  let ?e = "fold (\<lambda>i. b (wr i) (wi i) l i) js d"
  have high: "(j + l) mod (2 * l) = j mod (2 * l) + l" if "j mod (2 * l) < l" for j
    using that mod_add_left_eq [of j "2 * l" l] by simp
  have i: "i mod (2 * l) < l" "2 * (i + l) + 1 < length d" "i \<notin> set js" using snoc.prems by auto
  have notin: "j + l \<notin> set (js @ [i])" if "j mod (2 * l) < l" for j
    using snoc.prems(2) [of "j + l"] high [OF that] by auto
  have IH: "elem ?e k = (if k \<in> set js then plus (wr k) (wi k) (elem d k) (elem d (k + l))
     else if l \<le> k \<and> k - l \<in> set js then minus (wr (k - l)) (wi (k - l)) (elem d (k - l)) (elem d k)
     else elem d k)" for k using snoc by auto
  have "i - l \<notin> set js" if "l \<le> i"
  proof
    assume a: "i - l \<in> set js"
    then have "(i - l) mod (2 * l) < l" using snoc.prems(2) by simp
    from high [OF this] show False using that i(1) by simp
  qed
  then have ei: "elem ?e i = elem d i" using i(3) by (auto simp: IH)
  have el: "elem ?e (i + l) = elem d (i + l)" using notin [OF i(1)] i(3) by (auto simp: IH)
  have "elem (fold (\<lambda>i. b (wr i) (wi i) l i) (js @ [i]) d) k = elem (b (wr i) (wi i) l i ?e) k" by simp
  also have "\<dots> = (if k = i then plus (wr i) (wi i) (elem d i) (elem d (i + l))
      else if k = i + l then minus (wr i) (wi i) (elem d i) (elem d (i + l)) else elem ?e k)"
    using i(2) assms(1) by (simp add: elem_b length_fold ei el)
  finally show ?case using notin [OF i(1)] i(3) by (auto simp: IH)
qed simp

lemma fft_stage_fold:
  "fft_stage b wi_of l k n d = fold (\<lambda>i. b (kSinTable1024 ! (i mod (2 * l) * 2 ^ k + 256))
      (wi_of (kSinTable1024 ! (i mod (2 * l) * 2 ^ k))) l i) (stage_indices l n) d"
proof -
  let ?f = "\<lambda>m. b (kSinTable1024 ! (m * 2 ^ k + 256)) (wi_of (kSinTable1024 ! (m * 2 ^ k))) l"
  have inner: "fold (?f m) (index_range m n (2 * l)) d = fold (\<lambda>i. ?f (i mod (2 * l)) i) (index_range m n (2 * l)) d"
    if "m < 2 * l" for m d
    using that by (intro fold_cong refl) (simp add: index_range_mod)
  have "fold (\<lambda>m. fold (?f m) (index_range m n (2 * l))) [0..<j] d
      = fold (\<lambda>i. ?f (i mod (2 * l)) i) (concat (map (\<lambda>m. index_range m n (2 * l)) [0..<j])) d" if "j \<le> l" for j
    using that by (induction j) (simp_all add: inner)
  then show ?thesis by (simp add: fft_stage_def stage_indices_def Let_def)
qed

text \<open>The elements after a stage over \<open>n\<close> elements, a multiple of \<open>2 * l\<close>.\<close>

lemma elem_stage:
  assumes "0 < l" and "2 * l dvd n" and "2 * n \<le> length d"
  shows "length (fft_stage b wi_of l k n d) = length d"
    and "i < n \<Longrightarrow> i mod (2 * l) < l \<Longrightarrow>
      elem (fft_stage b wi_of l k n d) i = plus (kSinTable1024 ! (i mod (2 * l) * 2 ^ k + 256))
        (wi_of (kSinTable1024 ! (i mod (2 * l) * 2 ^ k))) (elem d i) (elem d (i + l))"
    and "i < n \<Longrightarrow> \<not> i mod (2 * l) < l \<Longrightarrow>
      elem (fft_stage b wi_of l k n d) i = minus (kSinTable1024 ! ((i mod (2 * l) - l) * 2 ^ k + 256))
        (wi_of (kSinTable1024 ! ((i mod (2 * l) - l) * 2 ^ k))) (elem d (i - l)) (elem d i)"
    and "\<not> i < n \<Longrightarrow> elem (fft_stage b wi_of l k n d) i = elem d i"
proof -
  have room: "i + l < n" if "i < n" "i mod (2 * l) < l" for i
  proof -
    obtain c where c: "n = 2 * l * c" using assms(2) by (rule dvdE)
    then have "i div (2 * l) < c" using that(1) assms(1) by (simp add: div_less_iff_less_mult mult.commute)
    then have "Suc (i div (2 * l)) * (2 * l) \<le> c * (2 * l)" by (intro mult_le_mono1) simp
    then have "i div (2 * l) * (2 * l) + 2 * l \<le> n" by (simp add: c mult.commute)
    then show ?thesis using that(2) div_mult_mod_eq [of i "2 * l"] by linarith
  qed
  have el: "elem (fft_stage b wi_of l k n d) i =
    (if i < n \<and> i mod (2 * l) < l then plus (kSinTable1024 ! (i mod (2 * l) * 2 ^ k + 256))
        (wi_of (kSinTable1024 ! (i mod (2 * l) * 2 ^ k))) (elem d i) (elem d (i + l))
     else if l \<le> i \<and> i - l < n \<and> (i - l) mod (2 * l) < l then minus (kSinTable1024 ! ((i - l) mod (2 * l) * 2 ^ k + 256))
        (wi_of (kSinTable1024 ! ((i - l) mod (2 * l) * 2 ^ k))) (elem d (i - l)) (elem d i)
     else elem d i)" for i
    unfolding fft_stage_fold
  proof (subst elem_fold [OF assms(1) distinct_stage_indices])
    fix i
    assume "i \<in> set (stage_indices l n)"
    then show "i mod (2 * l) < l \<and> 2 * (i + l) + 1 < length d"
      using room [of i] assms(3) by (simp add: stage_indices_set)
  qed (simp only: stage_indices_set)
  show "length (fft_stage b wi_of l k n d) = length d" by (simp add: fft_stage_fold length_fold)
  show "i < n \<Longrightarrow> i mod (2 * l) < l \<Longrightarrow>
      elem (fft_stage b wi_of l k n d) i = plus (kSinTable1024 ! (i mod (2 * l) * 2 ^ k + 256))
        (wi_of (kSinTable1024 ! (i mod (2 * l) * 2 ^ k))) (elem d i) (elem d (i + l))" by (simp only: el simp_thms if_True)
  show "elem (fft_stage b wi_of l k n d) i = minus (kSinTable1024 ! ((i mod (2 * l) - l) * 2 ^ k + 256))
        (wi_of (kSinTable1024 ! ((i mod (2 * l) - l) * 2 ^ k))) (elem d (i - l)) (elem d i)"
    if "i < n" "\<not> i mod (2 * l) < l"
  proof -
    have "l \<le> i" using that(2) mod_less_eq_dividend [of i "2 * l"] by linarith
    moreover have "(i - l) mod (2 * l) = i mod (2 * l) - l"
    proof -
      have "i - l = i mod (2 * l) - l + i div (2 * l) * (2 * l)"
        using that(2) div_mult_mod_eq [of i "2 * l"] by linarith
      moreover have "i mod (2 * l) - l < 2 * l" using assms(1) mod_less_divisor [of "2 * l" i] by linarith
      ultimately show ?thesis by (metis mod_mult_self1 mod_less)
    qed
    moreover have "i mod (2 * l) - l < l" using assms(1) mod_less_divisor [of "2 * l" i] by linarith
    moreover have "i - l < n" using that(1) by simp
    ultimately show ?thesis using that by (simp only: el simp_thms if_True if_False)
  qed
  show "elem (fft_stage b wi_of l k n d) i = elem d i" if "\<not> i < n"
    using room [of "i - l"] that by (auto simp: el)
qed

end

text \<open>The product with the twiddle factor and the scaled sum, in the two modes.\<close>

definition product0 :: "int \<Rightarrow> int \<Rightarrow> int \<times> int \<Rightarrow> int \<times> int" where
  "product0 wr wi x =
     (shr (s32 (WEBRTC_SPL_MUL_16_16 wr (fst x) - WEBRTC_SPL_MUL_16_16 wi (snd x))) 15,
      shr (s32 (WEBRTC_SPL_MUL_16_16 wr (snd x) + WEBRTC_SPL_MUL_16_16 wi (fst x))) 15)"

definition product1 :: "int \<Rightarrow> int \<Rightarrow> int \<times> int \<Rightarrow> int \<times> int" where
  "product1 wr wi x =
     (shr (s32 (s32 (WEBRTC_SPL_MUL_16_16 wr (fst x) - WEBRTC_SPL_MUL_16_16 wi (snd x)) + 1)) 1,
      shr (s32 (s32 (WEBRTC_SPL_MUL_16_16 wr (snd x) + WEBRTC_SPL_MUL_16_16 wi (fst x)) + 1)) 1)"

definition scaled0 :: "nat \<Rightarrow> int \<Rightarrow> int \<Rightarrow> int" where
  "scaled0 sh q t = s16 (shr (s32 (q + t)) sh)"

definition scaled1 :: "nat \<Rightarrow> int \<Rightarrow> int \<Rightarrow> int \<Rightarrow> int" where
  "scaled1 sh rnd q t = s16 (shr (s32 (s32 (s32 (shl q 14) + t) + rnd)) (sh + 14))"

definition both :: "(int \<Rightarrow> int \<Rightarrow> int) \<Rightarrow> int \<times> int \<Rightarrow> int \<times> int \<Rightarrow> int \<times> int" where
  "both f q t = (f (fst q) (fst t), f (snd q) (snd t))"

definition neg :: "int \<times> int \<Rightarrow> int \<times> int" where
  "neg t = (- fst t, - snd t)"

lemma elem_distinct: "k \<noteq> i \<Longrightarrow> 2 * k \<noteq> 2 * i \<and> 2 * k \<noteq> Suc (2 * i) \<and> Suc (2 * k) \<noteq> 2 * i \<and> Suc (2 * k) \<noteq> Suc (2 * i)"
  by presburger

lemma elem_four:
  assumes "0 < l" and "2 * (i + l) + 1 < length d"
  shows "elem (d[2 * (i + l) := a, 2 * (i + l) + 1 := b, 2 * i := c, 2 * i + 1 := e]) k =
    (if k = i then (c, e) else if k = i + l then (a, b) else elem d k)"
  using assms elem_distinct [of k i] elem_distinct [of k "i + l"] elem_distinct [of "i + l" i]
  by (simp add: elem_def nth_list_update)

interpretation coarse: butterfly "ifft_butterfly0 sh" "\<lambda>wr wi q x. both (scaled0 sh) q (product0 wr wi x)"
    "\<lambda>wr wi q x. both (scaled0 sh) q (neg (product0 wr wi x))" for sh
proof unfold_locales
  fix wr wi :: int and l i k :: nat and d :: "int list"
  show "length (ifft_butterfly0 sh wr wi l i d) = length d" by (simp add: ifft_butterfly0_def Let_def)
  assume "0 < l" "2 * (i + l) + 1 < length d"
  then show "elem (ifft_butterfly0 sh wr wi l i d) k =
      (if k = i then both (scaled0 sh) (elem d i) (product0 wr wi (elem d (i + l)))
       else if k = i + l then both (scaled0 sh) (elem d i) (neg (product0 wr wi (elem d (i + l)))) else elem d k)"
    unfolding ifft_butterfly0_def Let_def
    by (subst elem_four)
      (simp_all add: both_def scaled0_def product0_def neg_def elem_def WEBRTC_SPL_MUL_16_16_RSFT_def)
qed

interpretation fine: butterfly "ifft_butterfly1 sh rnd" "\<lambda>wr wi q x. both (scaled1 sh rnd) q (product1 wr wi x)"
    "\<lambda>wr wi q x. both (scaled1 sh rnd) q (neg (product1 wr wi x))" for sh rnd
proof unfold_locales
  fix wr wi :: int and l i k :: nat and d :: "int list"
  show "length (ifft_butterfly1 sh rnd wr wi l i d) = length d" by (simp add: ifft_butterfly1_def Let_def)
  assume "0 < l" "2 * (i + l) + 1 < length d"
  then show "elem (ifft_butterfly1 sh rnd wr wi l i d) k =
      (if k = i then both (scaled1 sh rnd) (elem d i) (product1 wr wi (elem d (i + l)))
       else if k = i + l then both (scaled1 sh rnd) (elem d i) (neg (product1 wr wi (elem d (i + l)))) else elem d k)"
    unfolding ifft_butterfly1_def Let_def
    by (subst elem_four)
      (simp_all add: both_def scaled1_def product1_def neg_def elem_def CIFFTSFT_def CIFFTRND_def)
qed

text \<open>The forward transform has the butterflies of the inverse one with a fixed shift.\<close>

lemma fft_butterfly0_eq: "fft_butterfly0 = ifft_butterfly0 1"
  by (intro ext) (simp add: fft_butterfly0_def ifft_butterfly0_def WEBRTC_SPL_MUL_16_16_RSFT_def)

lemma fft_butterfly1_eq: "fft_butterfly1 = ifft_butterfly1 1 16384"
  by (intro ext) (simp add: fft_butterfly1_def ifft_butterfly1_def CFFTSFT_def CFFTRND_def CFFTRND2_def
      CIFFTSFT_def CIFFTRND_def)

section \<open>Rounding\<close>

text \<open>Each component of a result is the exact value, divided by \<open>2\<^sup>s\<^sup>h\<close>, up to one unit in the coarse mode and half a unit
  and a little in the fine mode, as long as that value fits 16 bits.\<close>

lemma div_between: "0 < D \<Longrightarrow> D * (v div D) \<le> v \<and> v < D * (v div D) + (D :: int)"
  using mult_div_mod_eq [of D v] pos_mod_sign [of D v] pos_mod_bound [of D v] by linarith

lemma scaled0_close:
  assumes "sh = 0 \<or> sh = 1 \<or> sh = 2" and "is_s16 q" and "\<bar>32768 * w - S\<bar> \<le> 32767"
    and "\<bar>S\<bar> \<le> 1518403584" and "\<bar>32768 * q + S\<bar> < 32768 * (32768 * 2 ^ sh - 1)"
  shows "\<bar>32768 * 2 ^ sh * scaled0 sh q w - (32768 * q + S)\<bar> < 32768 * 2 ^ sh"
proof -
  have w: "- 46339 \<le> w" "w \<le> 46339" using assms(3,4) by auto
  then have "s32 (q + w) = q + w" using assms(2) by (simp add: s32_id is_s16_def)
  moreover have d: "2 ^ sh * ((q + w) div 2 ^ sh) \<le> q + w" "q + w < 2 ^ sh * ((q + w) div 2 ^ sh) + 2 ^ sh"
    using le_shr_iff [of "(q + w) div 2 ^ sh" "q + w" sh] shr_less_iff [of "q + w" sh "(q + w) div 2 ^ sh + 1"]
    by (simp_all add: shr_def algebra_simps)
  moreover have "- 32768 \<le> (q + w) div 2 ^ sh \<and> (q + w) div 2 ^ sh \<le> 32767"
    using assms(1,3,5) d by (elim disjE) (auto simp: abs_le_iff abs_less_iff)
  ultimately have r: "scaled0 sh q w = (q + w) div 2 ^ sh" by (simp add: scaled0_def shr_def s16_id)
  show ?thesis using assms(1,3,5) d unfolding r by (elim disjE) (auto simp: abs_le_iff abs_less_iff)
qed

lemma scaled1_close:
  assumes "sh = 0 \<or> sh = 1 \<or> sh = 2" and "is_s16 q" and "\<bar>2 * w - S\<bar> \<le> 1" and "rnd = 8192 * 2 ^ sh"
    and "\<bar>S\<bar> \<le> 1518403584" and "\<bar>32768 * q + S\<bar> < 32768 * 2 ^ sh * 32767 + 16384 * 2 ^ sh - 1"
  shows "\<bar>32768 * 2 ^ sh * scaled1 sh rnd q w - (32768 * q + S)\<bar> \<le> 16384 * 2 ^ sh + 1"
proof -
  define v where "v = 16384 * q + w + rnd"
  have w: "- 759201793 \<le> w" "w \<le> 759201793" using assms(3,5) by (simp_all add: abs_le_iff)
  have q: "shl q 14 = 16384 * q" by (simp add: shl_def)
  have "s32 (s32 (s32 (shl q 14) + w) + rnd) = v"
    using assms(1,2,4) w unfolding q v_def is_s16_def by (elim disjE) (simp_all add: s32_id)
  moreover have d: "16384 * 2 ^ sh * (v div (16384 * 2 ^ sh)) \<le> v" "v < 16384 * 2 ^ sh * (v div (16384 * 2 ^ sh)) + 16384 * 2 ^ sh"
    using div_between [of "16384 * 2 ^ sh" v] by simp_all
  moreover have "- 32768 \<le> v div (16384 * 2 ^ sh) \<and> v div (16384 * 2 ^ sh) \<le> 32767"
    using assms(1,3,4,6) d v_def by (elim disjE) (auto simp: abs_le_iff abs_less_iff)
  ultimately have r: "scaled1 sh rnd q w = v div (16384 * 2 ^ sh)"
    by (simp add: scaled1_def shr_def power_add mult.commute s16_id)
  show ?thesis using assms(1,3,4,6) d v_def unfolding r by (elim disjE) (auto simp: abs_le_iff abs_less_iff)
qed

end
