(* ===== verification/Fft_Twiddle.thy ===== *)
theory Fft_Twiddle
  imports Complex_Main Spl_Fft
begin

text \<open>
  The accuracy of the table of sines of the FFT. The cosine and sine of \<open>\<pi> / 512\<close> are enclosed by repeated halving of the
  angle, in integers scaled by \<open>2\<^sup>6\<^sup>0\<close>; their powers, computed in integers scaled by \<open>2\<^sup>3\<^sup>2\<close>, are then compared with the
  table, which is within two units of \<open>32768 * sin\<close>.
\<close>

section \<open>Halving the angle\<close>

lemma cos_half_bounds:
  fixes x :: real and l u L U :: int
  assumes "0 \<le> cos (x / 2)" and "L \<le> 1152921504606846976 * cos x" and "1152921504606846976 * cos x \<le> U"
    and "0 \<le> l" and "0 \<le> u" and "2 * l\<^sup>2 \<le> 1152921504606846976 * (1152921504606846976 + L)"
    and "1152921504606846976 * (1152921504606846976 + U) \<le> 2 * u\<^sup>2"
  shows "l \<le> 1152921504606846976 * cos (x / 2) \<and> 1152921504606846976 * cos (x / 2) \<le> u"
proof -
  define N c :: real where "N = 1152921504606846976" and "c = N * cos (x / 2)"
  have N: "0 < N" by (simp add: N_def)
  have c: "0 \<le> c" unfolding c_def using N assms(1) by (intro mult_nonneg_nonneg) simp_all
  have sq: "2 * c\<^sup>2 = N * (N + N * cos x)"
  proof -
    have x: "cos x = 2 * (cos (x / 2))\<^sup>2 - 1" using cos_double_cos [of "x / 2"] by simp
    show ?thesis unfolding c_def x by (simp add: power2_eq_square algebra_simps)
  qed
  have "real_of_int (2 * l\<^sup>2) \<le> real_of_int (1152921504606846976 * (1152921504606846976 + L))"
    using assms(6) by (simp only: of_int_le_iff)
  then have "2 * (real_of_int l)\<^sup>2 \<le> N * (N + L)"
    by (simp only: of_int_mult of_int_add of_int_power of_int_numeral N_def)
  also have "\<dots> \<le> N * (N + N * cos x)"
    using assms(2) N by (intro mult_left_mono add_left_mono) (simp_all add: N_def)
  finally have "(real_of_int l)\<^sup>2 \<le> c\<^sup>2" by (simp flip: sq)
  then have "l \<le> c" using c by (rule power2_le_imp_le)
  moreover have "real_of_int (1152921504606846976 * (1152921504606846976 + U)) \<le> real_of_int (2 * u\<^sup>2)"
    using assms(7) by (simp only: of_int_le_iff)
  then have "N * (N + U) \<le> 2 * (real_of_int u)\<^sup>2"
    by (simp only: of_int_mult of_int_add of_int_power of_int_numeral N_def)
  moreover have "N * (N + N * cos x) \<le> N * (N + U)"
    using assms(3) N by (intro mult_left_mono add_left_mono) (simp_all add: N_def)
  ultimately have "c\<^sup>2 \<le> (real_of_int u)\<^sup>2" "l \<le> c" unfolding sq [symmetric] by simp_all
  moreover from this have "c \<le> u" using assms(5) by (intro power2_le_imp_le [OF \<open>c\<^sup>2 \<le> (real_of_int u)\<^sup>2\<close>]) simp
  ultimately show ?thesis by (simp add: c_def N_def)
qed

lemma cos_small: "2 \<le> d \<Longrightarrow> 0 \<le> cos (pi / d)"
proof (rule cos_ge_zero)
  assume d: "2 \<le> d"
  then have "pi * 2 \<le> pi * d" by (intro mult_left_mono) simp_all
  then show "pi / d \<le> pi / 2" using d by (simp add: field_simps)
  have "0 \<le> pi / d" using d by simp
  then show "- (pi / 2) \<le> pi / d" using pi_ge_zero by linarith
qed

lemma cos_pi_4: "815238614083298888 \<le> 1152921504606846976 * cos (pi / 4)" "1152921504606846976 * cos (pi / 4) \<le> 815238614083298889"
  using cos_half_bounds [of "pi / 2" 0 0 815238614083298888 815238614083298889] cos_small [of 4] by simp_all

lemma cos_pi_8: "1065160580698383124 \<le> 1152921504606846976 * cos (pi / 8)" "1152921504606846976 * cos (pi / 8) \<le> 1065160580698383125"
  using cos_half_bounds [of "pi / 4" 815238614083298888 815238614083298889 1065160580698383124 1065160580698383125] cos_small [of 8] cos_pi_4 by simp_all

lemma cos_pi_16: "1130768441178740757 \<le> 1152921504606846976 * cos (pi / 16)" "1152921504606846976 * cos (pi / 16) \<le> 1130768441178740758"
  using cos_half_bounds [of "pi / 8" 1065160580698383124 1065160580698383125 1130768441178740757 1130768441178740758] cos_small [of 16] cos_pi_8 by simp_all

lemma cos_pi_32: "1147369872436662990 \<le> 1152921504606846976 * cos (pi / 32)" "1152921504606846976 * cos (pi / 32) \<le> 1147369872436662992"
  using cos_half_bounds [of "pi / 16" 1130768441178740757 1130768441178740758 1147369872436662990 1147369872436662992] cos_small [of 32] cos_pi_16 by simp_all

lemma cos_pi_64: "1151532760162549489 \<le> 1152921504606846976 * cos (pi / 64)" "1152921504606846976 * cos (pi / 64) \<le> 1151532760162549491"
  using cos_half_bounds [of "pi / 32" 1147369872436662990 1147369872436662992 1151532760162549489 1151532760162549491] cos_small [of 64] cos_pi_32 by simp_all

lemma cos_pi_128: "1152574266204915293 \<le> 1152921504606846976 * cos (pi / 128)" "1152921504606846976 * cos (pi / 128) \<le> 1152574266204915294"
  using cos_half_bounds [of "pi / 64" 1151532760162549489 1151532760162549491 1152574266204915293 1152574266204915294] cos_small [of 128] cos_pi_64 by simp_all

lemma cos_pi_256: "1152834691737939371 \<le> 1152921504606846976 * cos (pi / 256)" "1152921504606846976 * cos (pi / 256) \<le> 1152834691737939372"
  using cos_half_bounds [of "pi / 128" 1152574266204915293 1152574266204915294 1152834691737939371 1152834691737939372] cos_small [of 256] cos_pi_128 by simp_all

lemma cos_pi_512: "1152899801185339686 \<le> 1152921504606846976 * cos (pi / 512)" "1152921504606846976 * cos (pi / 512) \<le> 1152899801185339687"
  using cos_half_bounds [of "pi / 256" 1152834691737939371 1152834691737939372 1152899801185339686 1152899801185339687] cos_small [of 512] cos_pi_256 by simp_all

lemma sin_pi_512: "7074193361797222 \<le> 1152921504606846976 * sin (pi / 512)" "1152921504606846976 * sin (pi / 512) \<le> 7074193361797263"
proof -
  have h: "(pi - pi / 256) / 2 = pi / 2 - pi / 512" by simp
  have "cos ((pi - pi / 256) / 2) = sin (pi / 512)" unfolding h by (simp add: sin_cos_eq)
  moreover have "cos (pi - pi / 256) = - cos (pi / 256)" by (rule cos_pi_minus)
  moreover have "0 \<le> sin (pi / 512)" by (intro sin_ge_zero) simp_all
  ultimately show "7074193361797222 \<le> 1152921504606846976 * sin (pi / 512)" "1152921504606846976 * sin (pi / 512) \<le> 7074193361797263"
    using cos_half_bounds [of "pi - pi / 256" "-1152834691737939372" "-1152834691737939371" 7074193361797222 7074193361797263] cos_pi_256 by simp_all
qed

section \<open>The powers of the first twiddle factor\<close>

text \<open>The first factor, scaled by \<open>2\<^sup>3\<^sup>2\<close> and rounded towards zero, and the check of a piece of the table against the
  powers.\<close>

definition step_re :: int where "step_re = 4294886444"
definition step_im :: int where "step_im = 26353423"

definition power_re :: "int \<Rightarrow> int \<Rightarrow> int" where
  "power_re a b = (a * step_re - b * step_im) div 4294967296"

definition power_im :: "int \<Rightarrow> int \<Rightarrow> int" where
  "power_im a b = (a * step_im + b * step_re) div 4294967296"

fun sines_ok :: "int list \<Rightarrow> int \<Rightarrow> int \<Rightarrow> bool" where
  "sines_ok [] a b = True"
| "sines_ok (t # ts) a b = (\<bar>t * 131072 - b\<bar> \<le> 261000 \<and> sines_ok ts (power_re a b) (power_im a b))"

lemma quarter_checked: "sines_ok (take 257 kSinTable1024) 4294967296 0"
  by code_simp

lemma table_symmetric:
  "rev (take 257 (drop 256 kSinTable1024)) = take 257 kSinTable1024"
  "take 257 (drop 512 kSinTable1024) = map uminus (take 257 kSinTable1024)"
  by (simp_all add: kSinTable1024_def)

text \<open>Each power loses at most three units.\<close>

definition cval :: "int \<times> int \<Rightarrow> complex" where
  "cval z = Complex (of_int (fst z)) (of_int (snd z))"

lemma cmod_le: "\<bar>Re z\<bar> \<le> e \<Longrightarrow> \<bar>Im z\<bar> \<le> e \<Longrightarrow> cmod z \<le> 3 / 2 * e"
proof -
  assume z: "\<bar>Re z\<bar> \<le> e" "\<bar>Im z\<bar> \<le> e"
  then have "(Re z)\<^sup>2 \<le> e\<^sup>2" "(Im z)\<^sup>2 \<le> e\<^sup>2" "0 \<le> e" by (auto intro: abs_le_square_iff [THEN iffD1])
  moreover have "0 \<le> e\<^sup>2" by simp
  moreover have "(3 / 2 * e)\<^sup>2 = 9 / 4 * e\<^sup>2" by (simp add: power2_eq_square)
  ultimately have "(Re z)\<^sup>2 + (Im z)\<^sup>2 \<le> (3 / 2 * e)\<^sup>2" by linarith
  then show ?thesis using z(1) unfolding cmod_def by (intro real_le_lsqrt) simp_all
qed

definition omega :: complex where
  "omega = cis (pi / 512)"

lemma cval_power: "cval (power_re a b, power_im a b) * 4294967296
    = cval (a, b) * cval (step_re, step_im)
      - cval ((a * step_re - b * step_im) mod 4294967296, (a * step_im + b * step_re) mod 4294967296)"
proof -
  have d: "real_of_int (x div 4294967296) * 4294967296 = of_int x - of_int (x mod 4294967296)" for x :: int
    using arg_cong [OF minus_mod_eq_div_mult [of x 4294967296], of real_of_int] by simp
  show ?thesis by (simp add: cval_def complex_eq_iff power_re_def power_im_def d)
qed

lemma first_factor: "cmod (cval (step_re, step_im)) \<le> 4294967296"
    "cmod (cval (step_re, step_im) - 4294967296 * omega) \<le> 3 / 2"
proof -
  have "sqrt ((real_of_int step_re)\<^sup>2 + (real_of_int step_im)\<^sup>2) \<le> 4294967296"
    by (rule real_le_lsqrt) (simp_all add: step_re_def step_im_def)
  then show "cmod (cval (step_re, step_im)) \<le> 4294967296" by (simp add: cmod_def cval_def)
  show "cmod (cval (step_re, step_im) - 4294967296 * omega) \<le> 3 / 2"
    using cmod_le [of "cval (step_re, step_im) - 4294967296 * omega" 1] cos_pi_512 sin_pi_512
    by (simp add: cval_def omega_def step_re_def step_im_def abs_le_iff)
qed

lemma power_close:
  assumes "cmod (cval (a, b) - 4294967296 * omega ^ j) \<le> e"
  shows "cmod (cval (power_re a b, power_im a b) - 4294967296 * omega ^ Suc j) \<le> e + 3"
proof -
  define r where "r = cval ((a * step_re - b * step_im) mod 4294967296, (a * step_im + b * step_re) mod 4294967296)"
  have "cmod r \<le> 3 / 2 * 4294967296"
    unfolding r_def cval_def by (rule cmod_le) (simp_all add: order_less_imp_le)
  moreover have "(cval (power_re a b, power_im a b) - 4294967296 * omega ^ Suc j) * 4294967296
      = (cval (a, b) - 4294967296 * omega ^ j) * cval (step_re, step_im)
        + 4294967296 * (omega ^ j * (cval (step_re, step_im) - 4294967296 * omega)) - r"
    using cval_power [of a b] by (simp add: r_def algebra_simps)
  moreover have "cmod ((cval (a, b) - 4294967296 * omega ^ j) * cval (step_re, step_im)) \<le> e * 4294967296"
    using assms first_factor(1) unfolding norm_mult by (intro mult_mono) (auto intro: order_trans [OF norm_ge_zero])
  moreover have "cmod (omega ^ j * (cval (step_re, step_im) - 4294967296 * omega)) \<le> 3 / 2"
    using first_factor(2) by (simp add: norm_mult norm_power omega_def)
  then have "cmod (4294967296 * (omega ^ j * (cval (step_re, step_im) - 4294967296 * omega))) \<le> 4294967296 * (3 / 2)"
    unfolding norm_mult by simp
  moreover have "cmod (x + y - z) \<le> cmod x + cmod y + cmod z" for x y z
    using norm_triangle_ineq4 [of "x + y" z] norm_triangle_ineq [of x y] by linarith
  ultimately have "cmod ((cval (power_re a b, power_im a b) - 4294967296 * omega ^ Suc j) * 4294967296)
      \<le> e * 4294967296 + 4294967296 * (3 / 2) + 3 / 2 * 4294967296"
    by (smt (verit))
  then show ?thesis unfolding norm_mult norm_numeral by linarith
qed

lemma sines_close:
  assumes "sines_ok ts a b" and "cmod (cval (a, b) - 4294967296 * omega ^ j) \<le> 3 * real j"
    and "i < length ts" and "j + i \<le> 256"
  shows "\<bar>of_int (ts ! i) - 32768 * sin (real (j + i) * (pi / 512))\<bar> \<le> 2"
  using assms
proof (induction ts a b arbitrary: i j rule: sines_ok.induct)
  case (2 t ts a b)
  have im: "Im (omega ^ j) = sin (real j * (pi / 512))" by (simp add: omega_def DeMoivre)
  show ?case
  proof (cases i)
    case 0
    have "\<bar>of_int b - 4294967296 * sin (real j * (pi / 512))\<bar> \<le> 3 * real j"
      using abs_Im_le_cmod [of "cval (a, b) - 4294967296 * omega ^ j"] 2(3) im by (simp add: cval_def)
    moreover have "3 * real j \<le> 768" using 2(5) by simp
    moreover have "\<bar>t * 131072 - b\<bar> \<le> 261000" using 2(2) by simp
    then have "\<bar>of_int (t * 131072 - b)\<bar> \<le> (261000 :: real)" by (simp only: of_int_abs [symmetric] of_int_le_numeral_iff)
    ultimately have "\<bar>of_int t * 131072 - 4294967296 * sin (real j * (pi / 512))\<bar> \<le> 262144" by simp
    then show ?thesis using 0 by (simp add: abs_le_iff)
  next
    case (Suc i')
    have "cmod (cval (power_re a b, power_im a b) - 4294967296 * omega ^ Suc j) \<le> 3 * real (Suc j)"
      using power_close [OF 2(3)] by simp
    then show ?thesis using 2(1) [of "Suc j" i'] 2(2,4,5) Suc by simp
  qed
qed simp

lemma quarter_close: "j \<le> 256 \<Longrightarrow> \<bar>of_int (kSinTable1024 ! j) - 32768 * sin (real j * (pi / 512))\<bar> \<le> 2"
proof -
  assume j: "j \<le> 256"
  have l: "length kSinTable1024 = 1024" by (simp add: kSinTable1024_def)
  show ?thesis using sines_close [OF quarter_checked, of 0 j] j l by (simp add: cval_def complex_eq_iff)
qed

text \<open>The table is within two units of the sines, on three quarters of the circle.\<close>

lemma table_close:
  assumes "j \<le> 768"
  shows "\<bar>of_int (kSinTable1024 ! j) - 32768 * sin (real j * (pi / 512))\<bar> \<le> 2"
proof -
  have l: "length kSinTable1024 = 1024" by (simp add: kSinTable1024_def)
  have second: "kSinTable1024 ! (512 - i) = kSinTable1024 ! i" if "i \<le> 256" for i
    using arg_cong [OF table_symmetric(1), of "\<lambda>xs. xs ! i"] that l by (simp add: rev_nth)
  have third: "kSinTable1024 ! (512 + i) = - (kSinTable1024 ! i)" if "i \<le> 256" for i
    using arg_cong [OF table_symmetric(2), of "\<lambda>xs. xs ! i"] that l by simp
  consider "j \<le> 256" | "256 \<le> j" "j \<le> 512" | "512 \<le> j" by linarith
  then show ?thesis
  proof cases
    case 1
    then show ?thesis by (rule quarter_close)
  next
    case 2
    have "real j * (pi / 512) = pi - real (512 - j) * (pi / 512)" using 2 by (simp add: of_nat_diff field_simps)
    then have "sin (real j * (pi / 512)) = sin (real (512 - j) * (pi / 512))" by (simp only: sin_pi_minus)
    then show ?thesis using quarter_close [of "512 - j"] second [of "512 - j"] 2 by simp
  next
    case 3
    have "real j * (pi / 512) = real (j - 512) * (pi / 512) + pi" using 3 by (simp add: of_nat_diff field_simps)
    then have "sin (real j * (pi / 512)) = - sin (real (j - 512) * (pi / 512))" by (simp only: sin_periodic_pi)
    then show ?thesis using quarter_close [of "j - 512"] third [of "j - 512"] 3 assms by (simp add: abs_le_iff)
  qed
qed

end
