(* ===== verification/Fft_Dft.thy ===== *)
theory Fft_Dft
  imports Fft_Twiddle
begin

text \<open>
  The fixed point FFT computes the discrete Fourier transform. First the exact transform: \<open>dit\<close> is what the stages of
  \<open>Spl_Fft\<close> would do without rounding, and on data in bit reversed order its result is the Fourier sum. Then the
  error: the locale \<open>fourier_stage\<close> states what a rounded butterfly promises, and bounds what one stage adds to the error;
  it is interpreted on the butterflies of the code. In the inverse transform the variable scaling rules out overflow
  for any input, in the forward transform a bound on the modulus of the input does.
\<close>

section \<open>The exact transform\<close>

definition rot :: "real \<Rightarrow> nat \<Rightarrow> nat \<Rightarrow> complex" where
  "rot \<sigma> l m = cis (\<sigma> * pi * m / l)"

definition dit_stage :: "real \<Rightarrow> nat \<Rightarrow> (nat \<Rightarrow> complex) \<Rightarrow> nat \<Rightarrow> complex" where
  "dit_stage \<sigma> l z k =
     (if k mod (2 * l) < l then z k + rot \<sigma> l (k mod (2 * l)) * z (k + l)
      else z (k - l) - rot \<sigma> l (k mod (2 * l) - l) * z k)"

primrec dit :: "real \<Rightarrow> nat \<Rightarrow> (nat \<Rightarrow> complex) \<Rightarrow> nat \<Rightarrow> complex" where
  "dit \<sigma> 0 z = z"
| "dit \<sigma> (Suc s) z = dit_stage \<sigma> (2 ^ s) (dit \<sigma> s z)"

definition dft :: "real \<Rightarrow> nat \<Rightarrow> (nat \<Rightarrow> complex) \<Rightarrow> nat \<Rightarrow> complex" where
  "dft \<sigma> n x k = (\<Sum>p<n. x p * cis (\<sigma> * 2 * pi * k * p / n))"

lemma cis_turns: "\<sigma> = 1 \<or> \<sigma> = -1 \<Longrightarrow> cis (\<sigma> * 2 * pi * real r) = 1"
  using cis_multiple_2pi [of "real r"] cis_multiple_2pi [of "- real r"] by auto

lemma cis_half_turn: "\<sigma> = 1 \<or> \<sigma> = -1 \<Longrightarrow> cis (\<sigma> * pi) = -1"
  by (auto simp: complex_eq_iff)

lemma sum_lessThan_double: "(\<Sum>t<2 * l. f t) = (\<Sum>t<l. f t) + (\<Sum>t<l. f (l + t :: nat) :: complex)"
proof -
  have "(\<Sum>t<l + k. f t) = (\<Sum>t<l. f t) + (\<Sum>t<k. f (l + t))" for k
    by (induction k) (simp_all add: add.assoc)
  from this [of l] show ?thesis by (simp only: mult_2)
qed

definition half_sum :: "real \<Rightarrow> nat \<Rightarrow> (nat \<Rightarrow> complex) \<Rightarrow> nat \<Rightarrow> nat \<Rightarrow> complex" where
  "half_sum \<sigma> s z m a = (\<Sum>t<2 ^ s. z (a * 2 ^ s + t) * cis (\<sigma> * 2 * pi * m * bit_rev s t / 2 ^ s))"

lemma half_sum_period:
  assumes "\<sigma> = 1 \<or> \<sigma> = -1"
  shows "half_sum \<sigma> s z (m + 2 ^ s) a = half_sum \<sigma> s z m a"
proof -
  have "cis (\<sigma> * 2 * pi * real (m + 2 ^ s) * r / 2 ^ s) = cis (\<sigma> * 2 * pi * m * r / 2 ^ s)" for r :: nat
  proof -
    have "\<sigma> * 2 * pi * real (m + 2 ^ s) * r / 2 ^ s = \<sigma> * 2 * pi * m * r / 2 ^ s + \<sigma> * 2 * pi * real r"
      by (simp add: field_simps)
    then show ?thesis using cis_turns [OF assms, of r] by (simp flip: cis_mult)
  qed
  then show ?thesis by (simp add: half_sum_def)
qed

lemma half_sum_double:
  "half_sum \<sigma> (Suc s) z m a = half_sum \<sigma> s z m (2 * a) + rot \<sigma> (2 ^ s) m * half_sum \<sigma> s z m (2 * a + 1)"
proof -
  let ?f = "\<lambda>t. z (a * 2 ^ Suc s + t) * cis (\<sigma> * 2 * pi * m * bit_rev (Suc s) t / 2 ^ Suc s)"
  have low: "?f t = z (2 * a * 2 ^ s + t) * cis (\<sigma> * 2 * pi * m * bit_rev s t / 2 ^ s)" if "t < 2 ^ s" for t
    using bit_rev_top [OF that, of 0] by (simp add: field_simps del: bit_rev.simps)
  have high: "?f (2 ^ s + t) = rot \<sigma> (2 ^ s) m * (z ((2 * a + 1) * 2 ^ s + t) * cis (\<sigma> * 2 * pi * m * bit_rev s t / 2 ^ s))"
    if "t < 2 ^ s" for t
  proof -
    have "\<sigma> * 2 * pi * m * real (2 * bit_rev s t + 1) / 2 ^ Suc s = \<sigma> * pi * m / 2 ^ s + \<sigma> * 2 * pi * m * bit_rev s t / 2 ^ s"
      by (simp add: field_simps)
    then have c: "cis (\<sigma> * 2 * pi * m * real (2 * bit_rev s t + 1) / 2 ^ Suc s)
        = rot \<sigma> (2 ^ s) m * cis (\<sigma> * 2 * pi * m * bit_rev s t / 2 ^ s)"
      by (simp only: cis_mult rot_def) simp
    have r: "bit_rev (Suc s) (2 ^ s + t) = 2 * bit_rev s t + 1" using bit_rev_top [OF that, of 1] by simp
    have i: "a * 2 ^ Suc s + (2 ^ s + t) = (2 * a + 1) * 2 ^ s + t" by simp
    show ?thesis unfolding r c i by (simp only: mult.left_commute)
  qed
  have "half_sum \<sigma> (Suc s) z m a = (\<Sum>t<2 ^ s. ?f t) + (\<Sum>t<2 ^ s. ?f (2 ^ s + t))"
    using sum_lessThan_double [of ?f "2 ^ s"] by (simp add: half_sum_def)
  also have "\<dots> = half_sum \<sigma> s z m (2 * a) + rot \<sigma> (2 ^ s) m * half_sum \<sigma> s z m (2 * a + 1)"
    unfolding half_sum_def sum_distrib_left
    by (intro arg_cong2 [where f = "(+)"] sum.cong refl) (simp_all only: low high lessThan_iff)
  finally show ?thesis .
qed

text \<open>After \<open>s\<close> stages, every block of \<open>2\<^sup>s\<close> elements holds its Fourier sums, with the summands in reversed order.\<close>

lemma dit_half_sum:
  assumes "\<sigma> = 1 \<or> \<sigma> = -1"
  shows "dit \<sigma> s z k = half_sum \<sigma> s z (k mod 2 ^ s) (k div 2 ^ s)"
proof (induction s arbitrary: k)
  case 0
  then show ?case by (simp add: half_sum_def)
next
  case (Suc s)
  define a m where "a = k div 2 ^ Suc s" and "m = k mod 2 ^ Suc s"
  have k: "k = 2 * a * 2 ^ s + m" "m < 2 * 2 ^ s"
    using div_mult_mod_eq [of k "2 ^ Suc s"] by (simp_all add: a_def m_def)
  have stage: "dit \<sigma> (Suc s) z k = (if m < 2 ^ s then dit \<sigma> s z k + rot \<sigma> (2 ^ s) m * dit \<sigma> s z (k + 2 ^ s)
      else dit \<sigma> s z (k - 2 ^ s) - rot \<sigma> (2 ^ s) (m - 2 ^ s) * dit \<sigma> s z k)"
    by (simp add: dit_stage_def m_def)
  have block: "(b * 2 ^ s + r) div 2 ^ s = b" "(b * 2 ^ s + r) mod 2 ^ s = r" if "r < 2 ^ s" for b r :: nat
    using that by simp_all
  have IH: "dit \<sigma> s z (b * 2 ^ s + r) = half_sum \<sigma> s z r b" if "r < 2 ^ s" for b r
    using Suc [of "b * 2 ^ s + r"] by (simp only: block [OF that])
  have "dit \<sigma> (Suc s) z k = half_sum \<sigma> s z m (2 * a) + rot \<sigma> (2 ^ s) m * half_sum \<sigma> s z m (2 * a + 1)"
  proof (cases "m < 2 ^ s")
    case True
    have "k + 2 ^ s = (2 * a + 1) * 2 ^ s + m" by (simp add: k(1))
    then have "dit \<sigma> s z (k + 2 ^ s) = half_sum \<sigma> s z m (2 * a + 1)"
      using IH [OF True, of "2 * a + 1"] by (simp only:)
    moreover have "dit \<sigma> s z k = half_sum \<sigma> s z m (2 * a)" using IH [OF True, of "2 * a"] k(1) by simp
    ultimately show ?thesis unfolding stage using True by simp
  next
    case False
    define r where "r = m - 2 ^ s"
    have r: "r < 2 ^ s" "m = r + 2 ^ s" using False k(2) by (simp_all add: r_def)
    have idx: "k - 2 ^ s = 2 * a * 2 ^ s + r" "k = (2 * a + 1) * 2 ^ s + r" by (simp_all add: k(1) r(2))
    have "\<sigma> * pi * real (r + 2 ^ s) / real (2 ^ s) = \<sigma> * pi * r / real (2 ^ s) + \<sigma> * pi" by (simp add: field_simps)
    then have "rot \<sigma> (2 ^ s) m = - rot \<sigma> (2 ^ s) r"
      using cis_half_turn [OF assms] by (simp only: rot_def r(2) flip: cis_mult) simp
    moreover have "dit \<sigma> (Suc s) z k = dit \<sigma> s z (k - 2 ^ s) - rot \<sigma> (2 ^ s) r * dit \<sigma> s z k"
      using False by (simp only: stage if_False r_def)
    moreover have "dit \<sigma> s z (k - 2 ^ s) = half_sum \<sigma> s z r (2 * a)" "dit \<sigma> s z k = half_sum \<sigma> s z r (2 * a + 1)"
      using IH [OF r(1), of "2 * a"] IH [OF r(1), of "2 * a + 1"] idx by simp_all
    ultimately show ?thesis using half_sum_period [OF assms, of s z r] by (simp add: r(2))
  qed
  then show ?case by (simp only: half_sum_double a_def m_def)
qed

text \<open>On data in bit reversed order the result is the Fourier transform.\<close>

lemma dit_dft:
  assumes "\<sigma> = 1 \<or> \<sigma> = -1" and "\<And>t. t < 2 ^ s \<Longrightarrow> z t = x (bit_rev s t)" and "k < 2 ^ s"
  shows "dit \<sigma> s z k = dft \<sigma> (2 ^ s) x k"
proof -
  have "dit \<sigma> s z k = (\<Sum>t<2 ^ s. x (bit_rev s t) * cis (\<sigma> * 2 * pi * k * bit_rev s t / 2 ^ s))"
    using assms(2,3) by (simp add: dit_half_sum [OF assms(1)] half_sum_def)
  also have "\<dots> = (\<Sum>p<2 ^ s. x p * cis (\<sigma> * 2 * pi * k * p / 2 ^ s))"
    by (rule sum.reindex_bij_witness [of _ "bit_rev s" "bit_rev s"]) (auto simp: bit_rev_bit_rev bit_rev_less)
  finally show ?thesis by (simp add: dft_def)
qed

section \<open>The twiddle factors of the table\<close>

definition twiddle_ok :: "int \<Rightarrow> int \<Rightarrow> bool" where
  "twiddle_ok wr wi \<longleftrightarrow> is_s16 wr \<and> is_s16 wi \<and> \<bar>wr\<bar> + \<bar>wi\<bar> \<le> 46338 \<and> wr\<^sup>2 + wi\<^sup>2 \<le> 1073676289"

lemma twiddles_checked:
  "list_all (\<lambda>(c, s). \<bar>c\<bar> \<le> 32767 \<and> \<bar>s\<bar> \<le> 32767 \<and> \<bar>c\<bar> + \<bar>s\<bar> \<le> 46338 \<and> c * c + s * s \<le> 1073676289)
    (zip (drop 256 kSinTable1024) (take 512 kSinTable1024))"
  by (simp add: kSinTable1024_def)

lemma table_twiddle:
  assumes "j < 512" and "e = 1 \<or> e = -1"
  shows "twiddle_ok (kSinTable1024 ! (j + 256)) (e * kSinTable1024 ! j)"
    and "cmod (cval (kSinTable1024 ! (j + 256), e * kSinTable1024 ! j) - 32768 * cis (of_int e * (real j * (pi / 512)))) \<le> 3"
proof -
  have l: "length kSinTable1024 = 1024" by (simp add: kSinTable1024_def)
  have "\<bar>kSinTable1024 ! (j + 256)\<bar> \<le> 32767 \<and> \<bar>kSinTable1024 ! j\<bar> \<le> 32767
      \<and> \<bar>kSinTable1024 ! (j + 256)\<bar> + \<bar>kSinTable1024 ! j\<bar> \<le> 46338
      \<and> kSinTable1024 ! (j + 256) * kSinTable1024 ! (j + 256) + kSinTable1024 ! j * kSinTable1024 ! j \<le> 1073676289"
    using twiddles_checked assms(1) l by (auto simp: list_all_length add.commute dest: spec [of _ j])
  then show "twiddle_ok (kSinTable1024 ! (j + 256)) (e * kSinTable1024 ! j)"
    using assms(2) by (auto simp: twiddle_ok_def is_s16_def power2_eq_square abs_le_iff)
  have "real (j + 256) * (pi / 512) = pi / 2 + real j * (pi / 512)" by (simp add: field_simps)
  then have "sin (real (j + 256) * (pi / 512)) = cos (real j * (pi / 512))"
    by (simp only: sin_add) simp
  then have "\<bar>of_int (kSinTable1024 ! (j + 256)) - 32768 * cos (real j * (pi / 512))\<bar> \<le> 2"
    using table_close [of "j + 256"] assms(1) by simp
  then show "cmod (cval (kSinTable1024 ! (j + 256), e * kSinTable1024 ! j) - 32768 * cis (of_int e * (real j * (pi / 512)))) \<le> 3"
    using table_close [of j] assms cmod_le [of "cval (kSinTable1024 ! (j + 256), e * kSinTable1024 ! j)
        - 32768 * cis (of_int e * (real j * (pi / 512)))" 2]
    by (auto simp: cval_def abs_le_iff)
qed

section \<open>What a rounded butterfly promises\<close>

definition s16_pair :: "int \<times> int \<Rightarrow> bool" where
  "s16_pair z \<longleftrightarrow> is_s16 (fst z) \<and> is_s16 (snd z)"

text \<open>The exact sum of a butterfly, times 32768, and its difference.\<close>

definition sum_of :: "int \<Rightarrow> int \<Rightarrow> int \<times> int \<Rightarrow> int \<times> int \<Rightarrow> int \<times> int" where
  "sum_of wr wi q x = (32768 * fst q + (wr * fst x - wi * snd x), 32768 * snd q + (wr * snd x + wi * fst x))"

definition diff_of :: "int \<Rightarrow> int \<Rightarrow> int \<times> int \<Rightarrow> int \<times> int \<Rightarrow> int \<times> int" where
  "diff_of wr wi q x = (32768 * fst q - (wr * fst x - wi * snd x), 32768 * snd q - (wr * snd x + wi * fst x))"

definition fits :: "int \<Rightarrow> int \<times> int \<Rightarrow> bool" where
  "fits lmt z \<longleftrightarrow> \<bar>fst z\<bar> < lmt \<and> \<bar>snd z\<bar> < lmt"

lemma cval_sum_diff:
  "cval (sum_of wr wi q x) = 32768 * cval q + cval (wr, wi) * cval x"
  "cval (diff_of wr wi q x) = 32768 * cval q - cval (wr, wi) * cval x"
  by (simp_all add: cval_def sum_of_def diff_of_def complex_eq_iff)

lemma fits_bound:
  assumes "twiddle_ok wr wi" and "\<bar>fst q\<bar> \<le> M" and "\<bar>snd q\<bar> \<le> M" and "\<bar>fst x\<bar> \<le> M" and "\<bar>snd x\<bar> \<le> M"
    and "79106 * M < lmt"
  shows "fits lmt (sum_of wr wi q x) \<and> fits lmt (diff_of wr wi q x)"
proof -
  have prod: "\<bar>wr * a\<bar> + \<bar>wi * b\<bar> \<le> 46338 * M" if "\<bar>a\<bar> \<le> M" "\<bar>b\<bar> \<le> M" for a b
  proof -
    have "\<bar>wr * a\<bar> + \<bar>wi * b\<bar> \<le> \<bar>wr\<bar> * M + \<bar>wi\<bar> * M"
      unfolding abs_mult using that by (intro add_mono mult_left_mono) simp_all
    also have "\<dots> \<le> 46338 * M"
      using assms(1,2) by (simp add: twiddle_ok_def mult_right_mono flip: distrib_right)
    finally show ?thesis .
  qed
  have "\<bar>32768 * r + (a - b)\<bar> < lmt \<and> \<bar>32768 * r + (a + b)\<bar> < lmt \<and> \<bar>32768 * r - (a - b)\<bar> < lmt
      \<and> \<bar>32768 * r - (a + b)\<bar> < lmt" if "\<bar>a\<bar> + \<bar>b\<bar> \<le> 46338 * M" "\<bar>r\<bar> \<le> M" for a b r
    using that assms(6) by linarith
  then show ?thesis
    using prod [OF assms(4,5)] prod [OF assms(5,4)] assms(2,3) by (simp add: fits_def sum_of_def diff_of_def)
qed

locale fourier_stage = butterfly b plus minus
  for b :: "int \<Rightarrow> int \<Rightarrow> nat \<Rightarrow> nat \<Rightarrow> int list \<Rightarrow> int list"
    and plus minus :: "int \<Rightarrow> int \<Rightarrow> int \<times> int \<Rightarrow> int \<times> int \<Rightarrow> int \<times> int" +
  fixes sh :: nat and lmt :: int and e :: real
  assumes plus_close: "sh \<le> 2 \<Longrightarrow> twiddle_ok wr wi \<Longrightarrow> s16_pair q \<Longrightarrow> s16_pair x \<Longrightarrow> fits lmt (sum_of wr wi q x) \<Longrightarrow>
      cmod (32768 * 2 ^ sh * cval (plus wr wi q x) - cval (sum_of wr wi q x)) \<le> e * (32768 * 2 ^ sh)"
    and minus_close: "sh \<le> 2 \<Longrightarrow> twiddle_ok wr wi \<Longrightarrow> s16_pair q \<Longrightarrow> s16_pair x \<Longrightarrow> fits lmt (diff_of wr wi q x) \<Longrightarrow>
      cmod (32768 * 2 ^ sh * cval (minus wr wi q x) - cval (diff_of wr wi q x)) \<le> e * (32768 * 2 ^ sh)"
    and s16_results: "s16_pair (plus wr wi q x)" "s16_pair (minus wr wi q x)"

text \<open>The products of the two modes.\<close>

lemma products:
  assumes "twiddle_ok wr wi" and "s16_pair x"
  shows "WEBRTC_SPL_MUL_16_16 wr (fst x) - WEBRTC_SPL_MUL_16_16 wi (snd x) = wr * fst x - wi * snd x"
    "WEBRTC_SPL_MUL_16_16 wr (snd x) + WEBRTC_SPL_MUL_16_16 wi (fst x) = wr * snd x + wi * fst x"
    "\<bar>wr * fst x - wi * snd x\<bar> \<le> 1518403584" "\<bar>wr * snd x + wi * fst x\<bar> \<le> 1518403584"
proof -
  have m: "WEBRTC_SPL_MUL_16_16 a c = a * c" if "is_s16 a" "is_s16 c" for a c
    using that by (simp add: WEBRTC_SPL_MUL_16_16_def s16_conv mult_s16_s32)
  show "WEBRTC_SPL_MUL_16_16 wr (fst x) - WEBRTC_SPL_MUL_16_16 wi (snd x) = wr * fst x - wi * snd x"
    "WEBRTC_SPL_MUL_16_16 wr (snd x) + WEBRTC_SPL_MUL_16_16 wi (fst x) = wr * snd x + wi * fst x"
    using assms by (simp_all add: m twiddle_ok_def s16_pair_def)
  have "\<bar>wr * a\<bar> + \<bar>wi * c\<bar> \<le> 1518403584" if "is_s16 a" "is_s16 c" for a c
  proof -
    have "\<bar>wr * a\<bar> + \<bar>wi * c\<bar> \<le> \<bar>wr\<bar> * 32768 + \<bar>wi\<bar> * 32768"
      unfolding abs_mult using that by (intro add_mono mult_left_mono) (simp_all add: is_s16_def abs_le_iff)
    then show ?thesis using assms(1) by (simp add: twiddle_ok_def)
  qed
  from this [of "fst x" "snd x"] this [of "snd x" "fst x"] assms(2)
  show "\<bar>wr * fst x - wi * snd x\<bar> \<le> 1518403584" "\<bar>wr * snd x + wi * fst x\<bar> \<le> 1518403584"
    by (auto simp: s16_pair_def)
qed

lemma product0_close:
  assumes "twiddle_ok wr wi" and "s16_pair x"
  shows "\<bar>32768 * fst (product0 wr wi x) - (wr * fst x - wi * snd x)\<bar> \<le> 32767"
    "\<bar>32768 * snd (product0 wr wi x) - (wr * snd x + wi * fst x)\<bar> \<le> 32767"
proof -
  have "\<bar>32768 * shr (s32 S) 15 - S\<bar> \<le> 32767" if "\<bar>S\<bar> \<le> 1518403584" for S
    using that div_between [of 32768 S] by (simp add: shr_def s32_id abs_le_iff)
  then show "\<bar>32768 * fst (product0 wr wi x) - (wr * fst x - wi * snd x)\<bar> \<le> 32767"
    "\<bar>32768 * snd (product0 wr wi x) - (wr * snd x + wi * fst x)\<bar> \<le> 32767"
    using products [OF assms] by (simp_all add: product0_def)
qed

lemma product1_close:
  assumes "twiddle_ok wr wi" and "s16_pair x"
  shows "\<bar>2 * fst (product1 wr wi x) - (wr * fst x - wi * snd x)\<bar> \<le> 1"
    "\<bar>2 * snd (product1 wr wi x) - (wr * snd x + wi * fst x)\<bar> \<le> 1"
proof -
  have "\<bar>2 * shr (s32 (s32 S + 1)) 1 - S\<bar> \<le> 1" if "\<bar>S\<bar> \<le> 1518403584" for S
    using that div_between [of 2 "S + 1"] by (simp add: shr_def s32_id abs_le_iff)
  then show "\<bar>2 * fst (product1 wr wi x) - (wr * fst x - wi * snd x)\<bar> \<le> 1"
    "\<bar>2 * snd (product1 wr wi x) - (wr * snd x + wi * fst x)\<bar> \<le> 1"
    using products [OF assms] by (simp_all add: product1_def)
qed

lemma cval_close:
  assumes "\<bar>D * fst r - fst u\<bar> \<le> E" and "\<bar>D * snd r - snd u\<bar> \<le> E" and "of_int D = d" and "3 / 2 * real_of_int E \<le> B"
  shows "cmod (d * cval r - cval u) \<le> B"
proof -
  have "\<bar>real_of_int (D * fst r - fst u)\<bar> \<le> of_int E" "\<bar>real_of_int (D * snd r - snd u)\<bar> \<le> of_int E"
    using assms(1,2) by (simp_all only: of_int_abs [symmetric] of_int_le_iff)
  moreover have "d * cval r - cval u = cval (D * fst r - fst u, D * snd r - snd u)"
    using assms(3) by (auto simp: cval_def complex_eq_iff)
  ultimately have "cmod (d * cval r - cval u) \<le> 3 / 2 * of_int E"
    by (simp only:) (intro cmod_le, simp_all add: cval_def)
  then show ?thesis using assms(4) by simp
qed

lemma le_2_cases: "sh \<le> 2 \<Longrightarrow> sh = 0 \<or> sh = 1 \<or> sh = (2 :: nat)"
  by auto

lemma scaled0_close_neg:
  assumes "sh \<le> 2" and "is_s16 q" and "\<bar>32768 * w - S\<bar> \<le> 32767"
    and "\<bar>S\<bar> \<le> 1518403584" and "\<bar>32768 * q - S\<bar> < 32768 * (32768 * 2 ^ sh - 1)"
  shows "\<bar>32768 * 2 ^ sh * scaled0 sh q (- w) - (32768 * q - S)\<bar> < 32768 * 2 ^ sh"
proof -
  have "\<bar>32768 * (- w) - (- S)\<bar> \<le> 32767" "\<bar>- S\<bar> \<le> 1518403584" using assms(3,4) by linarith+
  from scaled0_close [OF le_2_cases [OF assms(1)] assms(2) this] assms(5) show ?thesis by simp
qed

lemma scaled1_close_neg:
  assumes "sh \<le> 2" and "is_s16 q" and "\<bar>2 * w - S\<bar> \<le> 1"
    and "\<bar>S\<bar> \<le> 1518403584" and "\<bar>32768 * q - S\<bar> < 32768 * 2 ^ sh * 32767 + 16384 * 2 ^ sh - 1"
  shows "\<bar>32768 * 2 ^ sh * scaled1 sh (8192 * 2 ^ sh) q (- w) - (32768 * q - S)\<bar> \<le> 16384 * 2 ^ sh + 1"
proof -
  have "\<bar>2 * (- w) - (- S)\<bar> \<le> 1" "\<bar>- S\<bar> \<le> 1518403584" using assms(3,4) by linarith+
  from scaled1_close [OF le_2_cases [OF assms(1)] assms(2) this(1) refl this(2)] assms(5) show ?thesis by simp
qed

lemma scaled_s16: "s16_pair (both (scaled0 sh) q t)" "s16_pair (both (scaled1 sh rnd) q t)"
  by (simp_all add: s16_pair_def both_def scaled0_def scaled1_def)

interpretation coarse: fourier_stage "ifft_butterfly0 sh" "\<lambda>wr wi q x. both (scaled0 sh) q (product0 wr wi x)"
    "\<lambda>wr wi q x. both (scaled0 sh) q (neg (product0 wr wi x))" sh "32768 * (32768 * 2 ^ sh - 1)" "3 / 2" for sh
proof unfold_locales
  fix wr wi :: int and q x :: "int \<times> int"
  assume sh: "sh \<le> 2" and ok: "twiddle_ok wr wi" "s16_pair q" "s16_pair x"
  note P = product0_close [OF ok(1,3)] products(3,4) [OF ok(1,3)]
  note close = scaled0_close [OF le_2_cases [OF sh]]
  show "cmod (32768 * 2 ^ sh * cval (both (scaled0 sh) q (product0 wr wi x)) - cval (sum_of wr wi q x))
      \<le> 3 / 2 * (32768 * 2 ^ sh)" if "fits (32768 * (32768 * 2 ^ sh - 1)) (sum_of wr wi q x)"
    using that ok(2) close [of "fst q", OF _ P(1,3)] close [of "snd q", OF _ P(2,4)]
    by (intro cval_close [where D = "32768 * 2 ^ sh" and E = "32768 * 2 ^ sh"])
      (auto simp: both_def sum_of_def fits_def s16_pair_def)
  show "cmod (32768 * 2 ^ sh * cval (both (scaled0 sh) q (neg (product0 wr wi x))) - cval (diff_of wr wi q x))
      \<le> 3 / 2 * (32768 * 2 ^ sh)" if "fits (32768 * (32768 * 2 ^ sh - 1)) (diff_of wr wi q x)"
    using that ok(2) scaled0_close_neg [OF sh _ P(1,3), of "fst q"] scaled0_close_neg [OF sh _ P(2,4), of "snd q"]
    by (intro cval_close [where D = "32768 * 2 ^ sh" and E = "32768 * 2 ^ sh"])
      (auto simp: both_def neg_def diff_of_def fits_def s16_pair_def)
qed (rule scaled_s16)+

interpretation fine: fourier_stage "ifft_butterfly1 sh (8192 * 2 ^ sh)"
    "\<lambda>wr wi q x. both (scaled1 sh (8192 * 2 ^ sh)) q (product1 wr wi x)"
    "\<lambda>wr wi q x. both (scaled1 sh (8192 * 2 ^ sh)) q (neg (product1 wr wi x))" sh
    "32768 * 2 ^ sh * 32767 + 16384 * 2 ^ sh - 1" "3 / 4 + 3 / 65536" for sh
proof unfold_locales
  fix wr wi :: int and q x :: "int \<times> int"
  assume sh: "sh \<le> 2" and ok: "twiddle_ok wr wi" "s16_pair q" "s16_pair x"
  note P = product1_close [OF ok(1,3)] products(3,4) [OF ok(1,3)]
  note close = scaled1_close [OF le_2_cases [OF sh]]
  have E: "3 / 2 * real_of_int (16384 * 2 ^ sh + 1) \<le> (3 / 4 + 3 / 65536) * (32768 * 2 ^ sh)"
    by (simp add: distrib_right)
  show "cmod (32768 * 2 ^ sh * cval (both (scaled1 sh (8192 * 2 ^ sh)) q (product1 wr wi x)) - cval (sum_of wr wi q x))
      \<le> (3 / 4 + 3 / 65536) * (32768 * 2 ^ sh)"
    if "fits (32768 * 2 ^ sh * 32767 + 16384 * 2 ^ sh - 1) (sum_of wr wi q x)"
    using that ok(2) close [of "fst q", OF _ P(1) refl P(3)] close [of "snd q", OF _ P(2) refl P(4)] E
    by (intro cval_close [where D = "32768 * 2 ^ sh" and E = "16384 * 2 ^ sh + 1"])
      (auto simp: both_def sum_of_def fits_def s16_pair_def)
  show "cmod (32768 * 2 ^ sh * cval (both (scaled1 sh (8192 * 2 ^ sh)) q (neg (product1 wr wi x))) - cval (diff_of wr wi q x))
      \<le> (3 / 4 + 3 / 65536) * (32768 * 2 ^ sh)"
    if "fits (32768 * 2 ^ sh * 32767 + 16384 * 2 ^ sh - 1) (diff_of wr wi q x)"
    using that ok(2) scaled1_close_neg [OF sh _ P(1,3), of "fst q"] scaled1_close_neg [OF sh _ P(2,4), of "snd q"] E
    by (intro cval_close [where D = "32768 * 2 ^ sh" and E = "16384 * 2 ^ sh + 1"])
      (auto simp: both_def neg_def diff_of_def fits_def s16_pair_def)
qed (rule scaled_s16)+

section \<open>The error of a stage\<close>

lemma norm_triangle_4: "cmod (a + b + c + d) \<le> cmod a + cmod b + cmod c + cmod d"
  using norm_triangle_ineq [of "a + b + c" d] norm_triangle_ineq [of "a + b" c] norm_triangle_ineq [of a b] by linarith

text \<open>\<open>P\<close> is the result of a butterfly, \<open>W\<close> the twiddle factor of the table times 32768, \<open>w\<close> the exact one; \<open>t\<close> is the
  sign.\<close>

lemma combine_close:
  assumes "cmod (32768 * 2 ^ sh * P - (32768 * q + t * (W * x))) \<le> e * (32768 * 2 ^ sh)" and "cmod t = 1"
    and "cmod (2 ^ c * q - Zq) \<le> E" and "cmod (2 ^ c * x - Zx) \<le> E"
    and "cmod (W - 32768 * w) \<le> 3" and "cmod w = 1" and "cmod x \<le> R"
  shows "cmod (2 ^ (c + sh) * P - (Zq + t * (w * Zx))) \<le> 2 * E + (3 / 32768 * R + e * 2 ^ sh) * 2 ^ c"
proof -
  have R: "0 \<le> R" using norm_ge_zero [of x] assms(7) by linarith
  have "2 ^ (c + sh) * P - (Zq + t * (w * Zx))
      = 2 ^ c / 32768 * (32768 * 2 ^ sh * P - (32768 * q + t * (W * x))) + (2 ^ c * q - Zq)
        + 2 ^ c / 32768 * (t * ((W - 32768 * w) * x)) + t * (w * (2 ^ c * x - Zx))"
    by (simp add: field_simps power_add)
  moreover have "cmod (2 ^ c / 32768 * (32768 * 2 ^ sh * P - (32768 * q + t * (W * x)))) \<le> 2 ^ c / 32768 * (e * (32768 * 2 ^ sh))"
    using assms(1) unfolding norm_mult norm_divide norm_power norm_numeral by (intro mult_left_mono) simp_all
  moreover have "cmod ((W - 32768 * w) * x) \<le> 3 * R"
    unfolding norm_mult using assms(5,7) R by (intro mult_mono) simp_all
  then have "cmod (2 ^ c / 32768 * (t * ((W - 32768 * w) * x))) \<le> 2 ^ c / 32768 * (3 * R)"
    unfolding norm_mult [of "2 ^ c / 32768"] norm_mult [of t] norm_divide norm_power norm_numeral assms(2)
    by (intro mult_left_mono) simp_all
  moreover have "cmod (t * (w * (2 ^ c * x - Zx))) \<le> E" using assms(2,4,6) by (simp add: norm_mult)
  ultimately have "cmod (2 ^ (c + sh) * P - (Zq + t * (w * Zx)))
      \<le> 2 ^ c / 32768 * (e * (32768 * 2 ^ sh)) + E + 2 ^ c / 32768 * (3 * R) + E"
    using assms(3) by (smt (verit) norm_triangle_4)
  then show ?thesis by (simp add: field_simps)
qed

lemma combine_modulus:
  assumes "cmod (32768 * 2 ^ sh * P - (32768 * q + t * (W * x))) \<le> e * (32768 * 2 ^ sh)" and "cmod t = 1"
    and "cmod W \<le> 32768" and "cmod q \<le> R" and "cmod x \<le> R"
  shows "cmod P \<le> 2 * R / 2 ^ sh + e"
proof -
  have "cmod (W * x) \<le> 32768 * R" unfolding norm_mult using assms(3,5) by (intro mult_mono) simp_all
  then have "cmod (t * (W * x)) \<le> 32768 * R" using assms(2) by (simp add: norm_mult)
  moreover have "cmod (32768 * q) \<le> 32768 * R" using assms(4) by (simp add: norm_mult)
  moreover have "cmod (32768 * 2 ^ sh * P) \<le> cmod (32768 * 2 ^ sh * P - (32768 * q + t * (W * x))) + cmod (32768 * q + t * (W * x))"
    by (metis diff_add_cancel norm_triangle_ineq)
  ultimately have "cmod (32768 * 2 ^ sh * P) \<le> e * (32768 * 2 ^ sh) + 65536 * R"
    using assms(1) norm_triangle_ineq [of "32768 * q" "t * (W * x)"] by linarith
  then have "32768 * 2 ^ sh * cmod P \<le> e * (32768 * 2 ^ sh) + 65536 * R" by (simp add: norm_mult norm_power)
  then show ?thesis by (simp add: field_simps)
qed

lemma twiddle_modulus: "twiddle_ok wr wi \<Longrightarrow> cmod (cval (wr, wi)) \<le> 32768"
proof -
  assume "twiddle_ok wr wi"
  then have "real_of_int (wr\<^sup>2 + wi\<^sup>2) \<le> real_of_int 1073676289" unfolding of_int_le_iff by (simp add: twiddle_ok_def)
  then have "(real_of_int wr)\<^sup>2 + (real_of_int wi)\<^sup>2 \<le> 32768\<^sup>2" by simp
  then show ?thesis unfolding cmod_def cval_def by (intro real_le_lsqrt) simp_all
qed

lemma norm_minus_one: "cmod (- 1) = 1"
  by simp

lemma upper_index:
  fixes n i s :: nat
  assumes "2 * 2 ^ s dvd n" and "i < n" and "i mod (2 * 2 ^ s) < 2 ^ s"
  shows "i + 2 ^ s < n"
proof -
  obtain c where c: "n = 2 * 2 ^ s * c" using assms(1) by (rule dvdE)
  then have "i div (2 * 2 ^ s) < c" using assms(2) by (simp add: div_less_iff_less_mult mult.commute)
  then have "Suc (i div (2 * 2 ^ s)) * (2 * 2 ^ s) \<le> c * (2 * 2 ^ s)" by (intro mult_le_mono1) simp
  then have "i div (2 * 2 ^ s) * (2 * 2 ^ s) + 2 * 2 ^ s \<le> n" by (simp add: c mult.commute)
  then show ?thesis using assms(3) div_mult_mod_eq [of i "2 * 2 ^ s"] by linarith
qed

text \<open>The data of a stage: 16 bit values near the exact ones, with values the butterfly can take.\<close>

definition stage_data :: "nat \<Rightarrow> nat \<Rightarrow> int list \<Rightarrow> (nat \<Rightarrow> complex) \<Rightarrow> real \<Rightarrow> bool" where
  "stage_data n c d Z E \<longleftrightarrow> 2 * n \<le> length d
     \<and> (\<forall>i<n. s16_pair (elem d i) \<and> cmod (2 ^ c * cval (elem d i) - Z i) \<le> E)"

definition all_fit :: "int \<Rightarrow> nat \<Rightarrow> int list \<Rightarrow> bool" where
  "all_fit lmt n d \<longleftrightarrow> (\<forall>i<n. \<forall>j<n. \<forall>wr wi. twiddle_ok wr wi \<longrightarrow>
     fits lmt (sum_of wr wi (elem d i) (elem d j)) \<and> fits lmt (diff_of wr wi (elem d i) (elem d j)))"

lemma twiddle_at:
  assumes "g = 1 \<or> g = -1" and "s < 10" and "m < 2 ^ s"
  shows "twiddle_ok (kSinTable1024 ! (m * 2 ^ (9 - s) + 256)) (g * kSinTable1024 ! (m * 2 ^ (9 - s)))"
    and "cmod (cval (kSinTable1024 ! (m * 2 ^ (9 - s) + 256), g * kSinTable1024 ! (m * 2 ^ (9 - s)))
      - 32768 * rot g (2 ^ s) m) \<le> 3"
    and "cmod (rot g (2 ^ s) m) = 1"
proof -
  have p: "(2 :: nat) ^ s * 2 ^ (9 - s) = 512" using assms(2) by (simp flip: power_add)
  have j: "m * 2 ^ (9 - s) < 512"
    using mult_strict_right_mono [OF assms(3), of "2 ^ (9 - s)"] p by simp
  define q where "q = m * 2 ^ (9 - s)"
  have "real q * 2 ^ s = real m * 512" using arg_cong [OF p, of real] by (simp add: q_def mult.commute)
  then have m: "real m = real q * 2 ^ s / 512" by simp
  have "g * pi * m / real (2 ^ s) = of_int g * (real q * (pi / 512))" unfolding m by simp
  then have "rot g (2 ^ s) m = cis (of_int g * (real (m * 2 ^ (9 - s)) * (pi / 512)))" by (simp only: rot_def q_def)
  then show "twiddle_ok (kSinTable1024 ! (m * 2 ^ (9 - s) + 256)) (g * kSinTable1024 ! (m * 2 ^ (9 - s)))"
    and "cmod (cval (kSinTable1024 ! (m * 2 ^ (9 - s) + 256), g * kSinTable1024 ! (m * 2 ^ (9 - s)))
      - 32768 * rot g (2 ^ s) m) \<le> 3"
    using table_twiddle [OF j assms(1)] by simp_all
  show "cmod (rot g (2 ^ s) m) = 1" by (simp add: rot_def)
qed

context fourier_stage
begin

lemma stage_close:
  assumes g: "g = 1 \<or> g = -1" "\<And>j. j < 512 \<Longrightarrow> wi_of (kSinTable1024 ! j) = g * kSinTable1024 ! j"
    and s: "s < 10" "2 * 2 ^ s dvd n" and sh: "sh \<le> 2"
    and d: "stage_data n c d Z E" "all_fit lmt n d" "\<forall>i<n. cmod (cval (elem d i)) \<le> R"
  defines "d' \<equiv> fft_stage b wi_of (2 ^ s) (9 - s) n d"
  shows "stage_data n (c + sh) d' (dit_stage g (2 ^ s) Z) (2 * E + (3 / 32768 * R + e * 2 ^ sh) * 2 ^ c)"
    and "\<forall>i<n. cmod (cval (elem d' i)) \<le> 2 * R / 2 ^ sh + e"
    and "length d' = length d"
proof -
  have l: "0 < (2 :: nat) ^ s" by simp
  note len = d(1) [unfolded stage_data_def, THEN conjunct1]
  note stage = elem_stage [OF l s(2) len, where wi_of = wi_of and k = "9 - s", folded d'_def]
  show "length d' = length d" by (rule stage(1))
  have wi: "wi_of (kSinTable1024 ! (m * 2 ^ (9 - s))) = g * kSinTable1024 ! (m * 2 ^ (9 - s))" if "m < 2 ^ s" for m
  proof -
    have "m * 2 ^ (9 - s) < 2 ^ s * 2 ^ (9 - s)" using that by simp
    then show ?thesis using g(2) s(1) by (simp flip: power_add)
  qed
  have all: "s16_pair (elem d' i) \<and> cmod (2 ^ (c + sh) * cval (elem d' i) - dit_stage g (2 ^ s) Z i)
        \<le> 2 * E + (3 / 32768 * R + e * 2 ^ sh) * 2 ^ c \<and> cmod (cval (elem d' i)) \<le> 2 * R / 2 ^ sh + e" if i: "i < n" for i
  proof (cases "i mod (2 * 2 ^ s) < 2 ^ s")
    case True
    let ?m = "i mod (2 * 2 ^ s)" and ?q = "elem d i" and ?x = "elem d (i + 2 ^ s)"
    let ?wr = "kSinTable1024 ! (?m * 2 ^ (9 - s) + 256)" and ?wi = "g * kSinTable1024 ! (?m * 2 ^ (9 - s))"
    have j: "i + 2 ^ s < n" using upper_index [OF s(2) i True] .
    have r: "elem d' i = plus ?wr ?wi ?q ?x" using stage(2) [OF i True] wi [OF True] by simp
    note tw = twiddle_at [OF g(1) s(1) True]
    have "cmod (32768 * 2 ^ sh * cval (elem d' i) - (32768 * cval ?q + 1 * (cval (?wr, ?wi) * cval ?x))) \<le> e * (32768 * 2 ^ sh)"
      using plus_close [OF sh tw(1), of ?q ?x] d i j tw(1)
      by (simp add: r cval_sum_diff stage_data_def all_fit_def)
    note P = this norm_one
    show ?thesis
      using combine_close [OF P, of c "Z i" E "Z (i + 2 ^ s)" "rot g (2 ^ s) ?m" R]
        combine_modulus [OF P twiddle_modulus [OF tw(1)], of R] tw d i j True s16_results
      by (simp add: r stage_data_def dit_stage_def)
  next
    case False
    let ?m = "i mod (2 * 2 ^ s) - 2 ^ s" and ?q = "elem d (i - 2 ^ s)" and ?x = "elem d i"
    let ?wr = "kSinTable1024 ! (?m * 2 ^ (9 - s) + 256)" and ?wi = "g * kSinTable1024 ! (?m * 2 ^ (9 - s))"
    have m: "?m < 2 ^ s" using mod_less_divisor [of "2 * 2 ^ s" i] l by linarith
    have j: "i - 2 ^ s < n" using i by simp
    have r: "elem d' i = minus ?wr ?wi ?q ?x" using stage(3) [OF i False] wi [OF m] by simp
    note tw = twiddle_at [OF g(1) s(1) m]
    have "cmod (32768 * 2 ^ sh * cval (elem d' i) - (32768 * cval ?q + (- 1) * (cval (?wr, ?wi) * cval ?x))) \<le> e * (32768 * 2 ^ sh)"
      using minus_close [OF sh tw(1), of ?q ?x] d i j tw(1)
      by (simp add: r cval_sum_diff stage_data_def all_fit_def)
    note P = this norm_minus_one
    show ?thesis
      using combine_close [OF P, of c "Z (i - 2 ^ s)" E "Z i" "rot g (2 ^ s) ?m" R]
        combine_modulus [OF P twiddle_modulus [OF tw(1)], of R] tw d i j False s16_results
      by (simp add: r stage_data_def dit_stage_def)
  qed
  show "stage_data n (c + sh) d' (dit_stage g (2 ^ s) Z) (2 * E + (3 / 32768 * R + e * 2 ^ sh) * 2 ^ c)"
    using all len stage(1) by (simp add: stage_data_def)
  show "\<forall>i<n. cmod (cval (elem d' i)) \<le> 2 * R / 2 ^ sh + e" using all by simp
qed

end

end
