(* ===== verification/Fft_Correct.thy ===== *)
theory Fft_Correct
  imports Fft_Dft
begin

text \<open>
  The transforms of \<open>Spl_Fft\<close> as a whole: by induction over the stages, the error of \<open>Fft_Dft\<close> adds up to a few units in the
  last place of the result for the forward transform, and to a multiple of the number of points for the inverse one,
  whose variable scaling is what rules out overflow.
\<close>

section \<open>The forward transform\<close>

lemma stage_data_mono: "stage_data n c d Z E \<Longrightarrow> E \<le> E' \<Longrightarrow> stage_data n c d Z E'"
  by (auto simp: stage_data_def intro: order_trans)

lemma modulus_fits:
  assumes "twiddle_ok wr wi" and "cmod (cval q) \<le> 32765" and "cmod (cval x) \<le> 32765" and "2147287040 < lmt"
  shows "fits lmt (sum_of wr wi q x) \<and> fits lmt (diff_of wr wi q x)"
proof -
  have Wx: "cmod (cval (wr, wi) * cval x) \<le> 32768 * 32765"
    unfolding norm_mult using twiddle_modulus [OF assms(1)] assms(3) by (intro mult_mono) simp_all
  have q: "cmod (32768 * cval q) \<le> 32768 * 32765" using assms(2) by (simp add: norm_mult)
  have "fits lmt z" if "cmod (cval z) \<le> 2147287040" for z
  proof -
    have "\<bar>real_of_int (fst z)\<bar> \<le> real_of_int 2147287040" "\<bar>real_of_int (snd z)\<bar> \<le> real_of_int 2147287040"
      using that abs_Re_le_cmod [of "cval z"] abs_Im_le_cmod [of "cval z"] by (simp_all add: cval_def)
    then have "\<bar>fst z\<bar> \<le> 2147287040" "\<bar>snd z\<bar> \<le> 2147287040" by (simp_all only: of_int_abs [symmetric] of_int_le_iff)
    then show ?thesis using assms(4) by (simp add: fits_def)
  qed
  then show ?thesis
    using norm_triangle_ineq [of "32768 * cval q" "cval (wr, wi) * cval x"]
      norm_triangle_ineq4 [of "32768 * cval q" "cval (wr, wi) * cval x"] Wx q
    by (simp add: cval_sum_diff)
qed

lemma table_s16: "j < 512 \<Longrightarrow> s16 (- kSinTable1024 ! j) = - kSinTable1024 ! j"
  using table_twiddle(1) [of j "- 1"] by (simp add: twiddle_ok_def s16_conv)

context fourier_stage
begin

lemma forward_loop:
  assumes "sh = 1" and "2147287040 < lmt" and "e \<le> 3 / 2" and "3 * 32765 / 32768 + 2 * e \<le> 2 * G"
    and "S \<le> 10" and "s \<le> S"
    and "stage_data (2 ^ S) s d (dit (- 1) s z) (2 ^ s * (G * s))"
    and "\<forall>i<2 ^ S. cmod (cval (elem d i)) \<le> 32750 + 3 / 2 * s"
  shows "stage_data (2 ^ S) S (fft_loop b (2 ^ s) (9 - s) (2 ^ S) d) (dit (- 1) S z) (2 ^ S * (G * S))
    \<and> length (fft_loop b (2 ^ s) (9 - s) (2 ^ S) d) = length d"
  using assms(6-8)
proof (induction "S - s" arbitrary: s d)
  case 0
  then show ?case by (simp add: fft_loop.simps)
next
  case (Suc k)
  then have s: "s < S" "s < 10" using assms(5) by simp_all
  let ?d = "fft_stage b (\<lambda>w. s16 (- w)) (2 ^ s) (9 - s) (2 ^ S) d"
  have R: "32750 + 3 / 2 * real s \<le> 32765" using s(2) by simp
  have R': "\<forall>i<2 ^ S. cmod (cval (elem d i)) \<le> 32765" using Suc.prems(3) R by (meson order_trans)
  then have fit: "all_fit lmt (2 ^ S) d" unfolding all_fit_def using modulus_fits [OF _ _ _ assms(2)] by blast
  have dvd: "2 * 2 ^ s dvd (2 :: nat) ^ S" using s(1) le_imp_power_dvd [of "Suc s" S "2 :: nat"] by simp
  have sh: "sh \<le> 2" using assms(1) by simp
  note step = stage_close [where g = "- 1" and wi_of = "\<lambda>w. s16 (- w)", OF disjI2 [OF refl] _ s(2) dvd sh Suc.prems(2) fit]
  have tab: "s16 (- (kSinTable1024 ! j)) = - 1 * kSinTable1024 ! j" if "j < 512" for j using table_s16 [OF that] by simp
  have "2 * (2 ^ s * (G * s)) + (3 / 32768 * 32765 + e * 2 ^ sh) * 2 ^ s \<le> 2 ^ Suc s * (G * Suc s)"
  proof -
    have "(3 * 32765 / 32768 + 2 * e) * 2 ^ s \<le> 2 * G * 2 ^ s" using assms(4) by (intro mult_right_mono) simp_all
    then show ?thesis by (simp add: assms(1) algebra_simps)
  qed
  then have "stage_data (2 ^ S) (Suc s) ?d (dit (- 1) (Suc s) z) (2 ^ Suc s * (G * Suc s))"
    using step(1) [OF tab R'] stage_data_mono assms(1) by simp
  moreover have "\<forall>i<2 ^ S. cmod (cval (elem ?d i)) \<le> 32750 + 3 / 2 * Suc s"
    using step(2) [OF tab Suc.prems(3)] assms(1,3) by (fastforce simp: field_simps)
  moreover have "fft_loop b (2 ^ s) (9 - s) (2 ^ S) d = fft_loop b (2 ^ Suc s) (9 - Suc s) (2 ^ S) ?d"
    using s(1) by (subst fft_loop.simps) simp
  moreover have "length ?d = length d" using step(3) [OF tab R'] .
  moreover have "k = S - Suc s" "Suc s \<le> S" using Suc.hyps(2) by simp_all
  ultimately show ?case using Suc.hyps(1) [of "Suc s" ?d] by simp
qed

end

text \<open>The error of a mode, in units of the last place per stage.\<close>

definition stage_error :: "int \<Rightarrow> real" where
  "stage_error mode = (if mode = 0 then 3 else 9 / 4)"

lemma bit_reversed_data:
  assumes "2 * 2 ^ S \<le> length d" and "\<forall>i<2 ^ S. P (elem d i)"
  shows "\<forall>i<2 ^ S. P (elem (WebRtcSpl_ComplexBitReverse d S) i)"
    and "i < 2 ^ S \<Longrightarrow> elem (WebRtcSpl_ComplexBitReverse d S) i = elem d (bit_rev S i)"
    and "length (WebRtcSpl_ComplexBitReverse d S) = length d"
  using assms ComplexBitReverse_elem [OF assms(1)] bit_rev_less [of S] by auto

lemma ComplexFFT_close:
  assumes "S \<le> 10" and "2 * 2 ^ S \<le> length d"
    and "\<forall>i<2 ^ S. s16_pair (elem d i) \<and> cmod (cval (elem d i)) \<le> 32750"
    and "WebRtcSpl_ComplexFFT (WebRtcSpl_ComplexBitReverse d S) S mode = (r, out)" and "k < 2 ^ S"
  shows "r = 0 \<and> length out = length d \<and> s16_pair (elem out k)
    \<and> cmod (cval (elem out k) - dft (- 1) (2 ^ S) (\<lambda>p. cval (elem d p)) k / 2 ^ S) \<le> stage_error mode * S"
proof -
  let ?d = "WebRtcSpl_ComplexBitReverse d S" and ?z = "\<lambda>i. cval (elem (WebRtcSpl_ComplexBitReverse d S) i)"
  note rev = bit_reversed_data [OF assms(2,3)]
  have start: "stage_data (2 ^ S) 0 ?d (dit (- 1) 0 ?z) (2 ^ 0 * (G * real 0))" for G
    using rev(1,3) assms(2) by (simp add: stage_data_def)
  have small: "\<forall>i<2 ^ S. cmod (cval (elem ?d i)) \<le> 32750 + 3 / 2 * real 0" using rev(1) by simp
  have pow: "(2 :: nat) ^ S \<le> 1024" using assms(1) power_increasing [of S 10 "2 :: nat"] by simp
  then have r: "r = 0"
    and out: "out = fft_loop (if mode = 0 then fft_butterfly0 else fft_butterfly1) (2 ^ 0) (9 - 0) (2 ^ S) ?d"
    using assms(4) by (simp_all add: WebRtcSpl_ComplexFFT_def Let_def)
  have "stage_data (2 ^ S) S out (dit (- 1) S ?z) (2 ^ S * (stage_error mode * S)) \<and> length out = length d"
  proof (cases "mode = 0")
    case True
    then show ?thesis
      using coarse.forward_loop [where sh = 1 and G = 3, OF refl _ _ _ assms(1) _ start] small rev(3) out
      by (simp add: fft_butterfly0_eq stage_error_def)
  next
    case False
    then show ?thesis
      using fine.forward_loop [where sh = 1 and G = "9 / 4", OF refl _ _ _ assms(1) _ start] small rev(3) out
      by (simp add: fft_butterfly1_eq stage_error_def)
  qed
  moreover have "dit (- 1) S ?z k = dft (- 1) (2 ^ S) (\<lambda>p. cval (elem d p)) k"
    using rev(2) assms(5) by (intro dit_dft) simp_all
  ultimately have o: "s16_pair (elem out k)" "length out = length d"
    "cmod (2 ^ S * cval (elem out k) - dft (- 1) (2 ^ S) (\<lambda>p. cval (elem d p)) k) \<le> 2 ^ S * (stage_error mode * S)"
    using assms(5) by (auto simp: stage_data_def)
  have "2 ^ S * (cval (elem out k) - dft (- 1) (2 ^ S) (\<lambda>p. cval (elem d p)) k / 2 ^ S)
      = 2 ^ S * cval (elem out k) - dft (- 1) (2 ^ S) (\<lambda>p. cval (elem d p)) k" by (simp add: right_diff_distrib)
  then have "2 ^ S * cmod (cval (elem out k) - dft (- 1) (2 ^ S) (\<lambda>p. cval (elem d p)) k / 2 ^ S)
      \<le> 2 ^ S * (stage_error mode * S)" using o(3) by (metis norm_mult norm_numeral norm_power)
  then show ?thesis using r o(1,2) by simp
qed

section \<open>The inverse transform\<close>

text \<open>The scaling of a stage keeps every butterfly within 16 bits.\<close>

lemma stage_data_take:
  assumes "stage_data n c d Z E"
  shows "\<forall>x \<in> set (take (2 * n) d). is_s16 x"
    and "i < n \<Longrightarrow> fst (elem d i) \<in> set (take (2 * n) d) \<and> snd (elem d i) \<in> set (take (2 * n) d)"
proof -
  have len: "2 * n \<le> length d" and s: "\<And>i. i < n \<Longrightarrow> s16_pair (elem d i)" using assms by (auto simp: stage_data_def)
  show "\<forall>x \<in> set (take (2 * n) d). is_s16 x"
  proof
    fix x
    assume "x \<in> set (take (2 * n) d)"
    then obtain m where m: "m < 2 * n" "x = d ! m" using len by (auto simp: in_set_conv_nth)
    have "m = 2 * (m div 2) \<or> m = 2 * (m div 2) + 1" by presburger
    then show "is_s16 x" using s [of "m div 2"] m by (auto simp: s16_pair_def elem_def)
  qed
  show "fst (elem d i) \<in> set (take (2 * n) d) \<and> snd (elem d i) \<in> set (take (2 * n) d)" if "i < n"
    using len that nth_mem [of "2 * i" "take (2 * n) d"] nth_mem [of "2 * i + 1" "take (2 * n) d"] by (simp add: elem_def)
qed

lemma ifft_scaling_fits:
  assumes "stage_data n c d Z E" and "0 < n" and "ifft_scaling n d = (sh, rnd)"
  shows "sh \<le> 2 \<and> rnd = 8192 * 2 ^ sh \<and> all_fit (32768 * (32768 * 2 ^ sh - 1)) n d
    \<and> all_fit (32768 * 2 ^ sh * 32767 + 16384 * 2 ^ sh - 1) n d"
proof -
  define t where "t = WebRtcSpl_MaxAbsValueW16C (Some d) (2 * int n)"
  have "WebRtcSpl_MaxAbsValueW16C (Some (take (2 * n) d)) (2 * int n) = t"
    by (simp add: t_def WebRtcSpl_MaxAbsValueW16C_def vec_empty_def vec_take_def nat_mult_distrib)
  then obtain m where m: "\<forall>x \<in> set (take (2 * n) d). \<bar>x\<bar> \<le> m" "t = min 32767 m"
    using MaxAbsValueW16_scan [of "2 * int n" "take (2 * n) d"] stage_data_take(1) [OF assms(1)] assms(1,2)
    by (auto simp: stage_data_def nat_mult_distrib)
  have comp: "\<bar>fst (elem d i)\<bar> \<le> m" "\<bar>snd (elem d i)\<bar> \<le> m" "\<bar>fst (elem d i)\<bar> \<le> 32768" "\<bar>snd (elem d i)\<bar> \<le> 32768"
    if "i < n" for i
  proof -
    have "\<bar>x\<bar> \<le> m \<and> \<bar>x\<bar> \<le> 32768" if "x \<in> set (take (2 * n) d)" for x
      using that m(1) stage_data_take(1) [OF assms(1)] by (auto simp: is_s16_def abs_le_iff)
    then show "\<bar>fst (elem d i)\<bar> \<le> m" "\<bar>snd (elem d i)\<bar> \<le> m" "\<bar>fst (elem d i)\<bar> \<le> 32768" "\<bar>snd (elem d i)\<bar> \<le> 32768"
      using stage_data_take(2) [OF assms(1) that] by simp_all
  qed
  have fit: "all_fit lmt n d" if "79106 * min m 32768 < lmt" for lmt
    unfolding all_fit_def using comp fits_bound [OF _ _ _ _ _ that] by simp
  have "sh = (if t > 27146 then 2 else if t > 13573 then 1 else 0) \<and> rnd = 8192 * 2 ^ sh"
    using assms(3) by (auto simp: ifft_scaling_def Let_def shl_def s32_id split: if_splits simp flip: t_def)
  moreover have "all_fit (32768 * (32768 * 2 ^ s - 1)) n d \<and> all_fit (32768 * 2 ^ s * 32767 + 16384 * 2 ^ s - 1) n d"
    if "s = (if t > 27146 then 2 else if t > 13573 then 1 else 0 :: nat)" for s
    using that m(2) by (auto intro!: fit split: if_splits)
  ultimately show ?thesis by auto
qed

text \<open>One stage, in either mode.\<close>

lemma inverse_stage:
  fixes mode :: int
  assumes "s < 10" and "2 * 2 ^ s dvd n" and "0 < n" and "stage_data n c d Z (2 ^ c * (6 * (2 ^ s - 1)))" and "ifft_scaling n d = (sh, rnd)"
  defines "d' \<equiv> fft_stage (if mode = 0 then ifft_butterfly0 sh else ifft_butterfly1 sh rnd) (\<lambda>w. w) (2 ^ s) (9 - s) n d"
  shows "stage_data n (c + sh) d' (dit_stage 1 (2 ^ s) Z) (2 ^ (c + sh) * (6 * (2 ^ Suc s - 1))) \<and> length d' = length d \<and> sh \<le> 2"
proof -
  have sc: "sh \<le> 2" "rnd = 8192 * 2 ^ sh" "all_fit (32768 * (32768 * 2 ^ sh - 1)) n d"
    "all_fit (32768 * 2 ^ sh * 32767 + 16384 * 2 ^ sh - 1) n d"
    using ifft_scaling_fits [OF assms(4,3,5)] by simp_all
  have R: "\<forall>i<n. cmod (cval (elem d i)) \<le> 49152"
  proof (intro allI impI)
    fix i
    assume "i < n"
    then have "s16_pair (elem d i)" using assms(4) by (simp add: stage_data_def)
    then have "cmod (cval (elem d i)) \<le> 3 / 2 * 32768"
      by (intro cmod_le) (auto simp: cval_def s16_pair_def is_s16_def abs_le_iff)
    then show "cmod (cval (elem d i)) \<le> 49152" by simp
  qed
  have sum: "2 * (2 ^ c * (6 * (2 ^ s - 1))) + (3 / 32768 * 49152 + e * 2 ^ sh) * 2 ^ c \<le> 2 ^ (c + sh) * (6 * (2 ^ Suc s - 1))"
    if "e \<le> 3 / 2" for e :: real
  proof -
    have "e * 2 ^ sh \<le> 3 / 2 * 2 ^ sh" using that by (intro mult_right_mono) simp_all
    moreover have "2 * (6 * (p - 1)) + (3 / 32768 * 49152 + e * 2 ^ sh) \<le> 2 ^ sh * (6 * (2 * p - 1))"
      if "1 \<le> p" "e * 2 ^ sh \<le> 3 / 2 * 2 ^ sh" for p :: real
      using le_2_cases [OF sc(1)] that by (elim disjE) simp_all
    ultimately have "2 * (6 * (2 ^ s - 1)) + (3 / 32768 * 49152 + e * 2 ^ sh) \<le> 2 ^ sh * (6 * (2 ^ Suc s - 1))"
      by simp
    then have "2 ^ c * (2 * (6 * (2 ^ s - 1)) + (3 / 32768 * 49152 + e * 2 ^ sh)) \<le> 2 ^ c * (2 ^ sh * (6 * (2 ^ Suc s - 1)))"
      by (intro mult_left_mono) simp_all
    then show ?thesis by (simp add: algebra_simps power_add)
  qed
  have tab: "(\<lambda>w. w) (kSinTable1024 ! j) = 1 * kSinTable1024 ! j" for j by simp
  show ?thesis
  proof (cases "mode = 0")
    case True
    note st = coarse.stage_close [where g = 1 and wi_of = "\<lambda>w. w", OF disjI1 [OF refl] tab assms(1,2) sc(1) assms(4) sc(3) R]
    show ?thesis using stage_data_mono [OF st(1) sum] st(3) sc(1) True by (simp add: d'_def)
  next
    case False
    note st = fine.stage_close [where g = 1 and wi_of = "\<lambda>w. w", OF disjI1 [OF refl] tab assms(1,2) sc(1) assms(4) sc(4) R]
    show ?thesis using stage_data_mono [OF st(1) sum] st(3) sc(1,2) False by (simp add: d'_def)
  qed
qed

lemma inverse_loop:
  assumes "S \<le> 10" and "s \<le> S"
    and "stage_data (2 ^ S) c d (dit 1 s z) (2 ^ c * (6 * (2 ^ s - 1)))"
    and "ifft_loop mode (2 ^ s) (9 - s) (2 ^ S) (d, c) = (out, scale)"
  shows "stage_data (2 ^ S) scale out (dit 1 S z) (2 ^ scale * (6 * (2 ^ S - 1))) \<and> length out = length d
    \<and> scale \<le> c + 2 * (S - s)"
  using assms(2-4)
proof (induction "S - s" arbitrary: s d c)
  case 0
  then show ?case by (simp add: ifft_loop.simps)
next
  case (Suc k)
  then have s: "s < S" "s < 10" using assms(1) by simp_all
  obtain sh rnd where sc: "ifft_scaling (2 ^ S) d = (sh, rnd)" by (rule prod.exhaust)
  let ?d = "fft_stage (if mode = 0 then ifft_butterfly0 sh else ifft_butterfly1 sh rnd) (\<lambda>w. w) (2 ^ s) (9 - s) (2 ^ S) d"
  have dvd: "2 * 2 ^ s dvd (2 :: nat) ^ S" using s(1) le_imp_power_dvd [of "Suc s" S "2 :: nat"] by simp
  note st = inverse_stage [OF s(2) dvd _ Suc.prems(2) sc, of mode]
  have "ifft_loop mode (2 ^ s) (9 - s) (2 ^ S) (d, c) = ifft_loop mode (2 ^ Suc s) (9 - Suc s) (2 ^ S) (?d, c + sh)"
    using s(1) sc by (subst ifft_loop.simps) (simp add: Let_def)
  then have loop: "ifft_loop mode (2 ^ Suc s) (9 - Suc s) (2 ^ S) (?d, c + sh) = (out, scale)" using Suc.prems(3) by simp
  have "k = S - Suc s" "Suc s \<le> S" using Suc.hyps(2) by simp_all
  from Suc.hyps(1) [OF this _ loop] st show ?case using Suc_diff_Suc [OF s(1)] by auto
qed

section \<open>The transforms\<close>

text \<open>C9. After bit reversal the forward FFT computes the discrete Fourier transform, with the exponent \<open>-2\<pi>jik/M\<close> (the comment
  in the header file has the opposite sign), divided by the number of points, in up to 1024 points and either mode: for input of modulus at most 32750 the result is off by at most 9/4 units in the last
  place per stage in the accurate mode, 3 in the fast one, and no intermediate result overflows.\<close>

theorem ComplexFFT_dft:
  assumes "S \<le> 10" and "2 * 2 ^ S \<le> length d"
    and "\<forall>i<2 ^ S. s16_pair (elem d i) \<and> cmod (cval (elem d i)) \<le> 32750"
    and "WebRtcSpl_ComplexFFT (WebRtcSpl_ComplexBitReverse d S) S mode = (r, out)" and "k < 2 ^ S"
  shows "r = 0 \<and> length out = length d \<and> s16_pair (elem out k)
    \<and> cmod (cval (elem out k) - dft (- 1) (2 ^ S) (\<lambda>p. cval (elem d p)) k / 2 ^ S) \<le> stage_error mode * S"
  using ComplexFFT_close [OF assms] .

lemma small_pair: "(\<forall>i<2. P i) \<longleftrightarrow> P 0 \<and> P (1 :: nat)"
  by (auto simp: less_2_cases_iff)

theorem ComplexFFT_dft_witness:
  "fst (WebRtcSpl_ComplexFFT (WebRtcSpl_ComplexBitReverse [300, 0, 100, 0] 1) 1 1) = 0
   \<and> cmod (cval (elem (snd (WebRtcSpl_ComplexFFT (WebRtcSpl_ComplexBitReverse [300, 0, 100, 0] 1) 1 1)) 1)
        - dft (- 1) 2 (\<lambda>p. cval (elem [300, 0, 100, 0] p)) 1 / 2) \<le> 9 / 4"
proof -
  obtain r out where o: "WebRtcSpl_ComplexFFT (WebRtcSpl_ComplexBitReverse [300, 0, 100, 0] 1) 1 1 = (r, out)"
    by (rule prod.exhaust)
  have "\<forall>i<2 ^ 1. s16_pair (elem [300, 0, 100, 0] i) \<and> cmod (cval (elem [300, 0, 100, 0] i)) \<le> 32750"
    by (simp add: small_pair elem_def s16_pair_def is_s16_def cval_def cmod_def)
  from ComplexFFT_dft [OF _ _ this o, of 1] o show ?thesis by (simp add: stage_error_def)
qed

text \<open>C10. The inverse FFT never overflows: whatever 16 bit values it is given, its result times \<open>2\<close> to the returned scale is
  the inverse transform, off by at most six units in the last place of the result per point.\<close>

theorem ComplexIFFT_dft:
  assumes "S \<le> 10" and "2 * 2 ^ S \<le> length d" and "\<forall>i<2 ^ S. s16_pair (elem d i)"
    and "WebRtcSpl_ComplexIFFT (WebRtcSpl_ComplexBitReverse d S) S mode = (r, out)" and "k < 2 ^ S"
  shows "0 \<le> r \<and> r \<le> 2 * int S \<and> length out = length d \<and> s16_pair (elem out k)
    \<and> cmod (2 ^ nat r * cval (elem out k) - dft 1 (2 ^ S) (\<lambda>p. cval (elem d p)) k) \<le> 2 ^ nat r * (6 * (2 ^ S - 1))"
proof -
  let ?d = "WebRtcSpl_ComplexBitReverse d S" and ?z = "\<lambda>i. cval (elem (WebRtcSpl_ComplexBitReverse d S) i)"
  note rev = bit_reversed_data [OF assms(2,3)]
  have start: "stage_data (2 ^ S) 0 ?d (dit 1 0 ?z) (2 ^ 0 * (6 * (2 ^ 0 - 1)))"
    using rev(1,3) assms(2) by (simp add: stage_data_def)
  have pow: "(2 :: nat) ^ S \<le> 1024" using assms(1) power_increasing [of S 10 "2 :: nat"] by simp
  obtain scale where loop: "ifft_loop mode (2 ^ 0) (9 - 0) (2 ^ S) (?d, 0) = (out, scale)" and r: "r = int scale"
    using assms(4) pow by (auto simp: WebRtcSpl_ComplexIFFT_def Let_def split: prod.splits)
  have "dit 1 S ?z k = dft 1 (2 ^ S) (\<lambda>p. cval (elem d p)) k"
    using rev(2) assms(5) by (intro dit_dft) simp_all
  then show ?thesis
    using inverse_loop [OF assms(1) _ start loop] rev(3) assms(5) r by (auto simp: stage_data_def)
qed

theorem ComplexIFFT_dft_witness:
  "fst (WebRtcSpl_ComplexIFFT (WebRtcSpl_ComplexBitReverse [-32768, 0, -32768, 0] 1) 1 0) = 2
   \<and> cmod (4 * cval (elem (snd (WebRtcSpl_ComplexIFFT (WebRtcSpl_ComplexBitReverse [-32768, 0, -32768, 0] 1) 1 0)) 0)
        - dft 1 2 (\<lambda>p. cval (elem [-32768, 0, -32768, 0] p)) 0) \<le> 24"
proof -
  obtain r out where o: "WebRtcSpl_ComplexIFFT (WebRtcSpl_ComplexBitReverse [-32768, 0, -32768, 0] 1) 1 0 = (r, out)"
    by (rule prod.exhaust)
  have "fst (WebRtcSpl_ComplexIFFT (WebRtcSpl_ComplexBitReverse [-32768, 0, -32768, 0] 1) 1 0) = 2" by code_simp
  moreover from this have "r = 2" using o by simp
  moreover have "\<forall>i<2 ^ 1. s16_pair (elem [-32768, 0, -32768, 0] i)"
    by (simp add: small_pair elem_def s16_pair_def is_s16_def)
  from ComplexIFFT_dft [OF _ _ this o, of 0] calculation have "cmod (4 * cval (elem out 0) - dft 1 2 (\<lambda>p. cval (elem [-32768, 0, -32768, 0] p)) 0) \<le> 24"
    by simp
  ultimately show ?thesis using o by simp
qed

section \<open>Real signals\<close>

lemma real_buffer: "i < n \<Longrightarrow> elem (concat (map (\<lambda>i. [x i, 0]) [0..<n])) i = (x i, 0)"
  "length (concat (map (\<lambda>i. [x i, 0 :: int]) [0..<n])) = 2 * n"
proof -
  have l: "length (concat (map (\<lambda>i. [x i, 0 :: int]) [0..<n])) = 2 * n" for n by (induction n) simp_all
  then show "length (concat (map (\<lambda>i. [x i, 0 :: int]) [0..<n])) = 2 * n" .
  show "i < n \<Longrightarrow> elem (concat (map (\<lambda>i. [x i, 0]) [0..<n])) i = (x i, 0)"
  proof (induction n)
    case (Suc n)
    then show ?case using l [of n] by (cases "i = n") (auto simp: elem_def nth_append)
  qed simp
qed

lemma RealForwardFFT_close:
  assumes "WebRtcSpl_CreateRealFFTC ord True = Some self" and "1 \<le> ord"
    and "length x = 2 ^ nat ord" and "list_all (\<lambda>v. \<bar>v\<bar> \<le> 32750) x"
    and "WebRtcSpl_RealForwardFFTC self x = (r, out)" and "2 * k \<le> 2 ^ nat ord"
  shows "ord \<le> 10 \<and> r = 0 \<and> length out = 2 ^ nat ord + 2
    \<and> cmod (cval (elem out k) - dft (- 1) (2 ^ nat ord) (\<lambda>p. of_int (x ! p)) k / 2 ^ nat ord) \<le> 9 / 4 * ord"
proof -
  let ?S = "nat ord" and ?n = "2 ^ nat ord :: nat" and ?buf = "concat (map (\<lambda>i. [x ! i, 0]) [0..<2 ^ nat ord])"
  have ord: "ord \<le> 10" "order self = ?S"
    using assms(1) by (auto simp: WebRtcSpl_CreateRealFFTC_def kMaxFFTOrder_def split: if_splits)
  obtain big where big: "WebRtcSpl_ComplexFFT (WebRtcSpl_ComplexBitReverse ?buf ?S) ?S 1 = (r, big)" "out = take (?n + 2) big"
    using assms(5) ord(2) by (auto simp: WebRtcSpl_RealForwardFFTC_def Let_def split: prod.splits)
  have "2 ^ 1 \<le> ?n" using assms(2) by (intro power_increasing) simp_all
  then have n: "2 \<le> ?n" by simp
  then have k: "k < ?n" "2 * k + 1 < ?n + 2" using assms(6) by linarith+
  have small: "\<forall>i<2 ^ ?S. s16_pair (elem ?buf i) \<and> cmod (cval (elem ?buf i)) \<le> 32750"
  proof (intro allI impI)
    fix i :: nat
    assume i: "i < 2 ^ ?S"
    then have x: "\<bar>x ! i\<bar> \<le> 32750" using assms(3,4) by (simp add: list_all_length)
    then have "\<bar>real_of_int (x ! i)\<bar> \<le> real_of_int 32750" by (simp only: of_int_abs [symmetric] of_int_le_iff)
    then show "s16_pair (elem ?buf i) \<and> cmod (cval (elem ?buf i)) \<le> 32750"
      using x real_buffer(1) [OF i, of "(!) x"] by (auto simp: s16_pair_def is_s16_def cval_def cmod_def abs_le_iff)
  qed
  have len: "2 * 2 ^ ?S \<le> length ?buf" using real_buffer(2) [of "(!) x" ?n] by simp
  note main = ComplexFFT_close [OF _ len small big(1) k(1)]
  have dft: "dft (- 1) ?n (\<lambda>p. cval (elem ?buf p)) k = dft (- 1) ?n (\<lambda>p. of_int (x ! p)) k"
    unfolding dft_def using real_buffer(1) [of _ ?n "(!) x"]
    by (intro sum.cong refl) (simp add: cval_def complex_eq_iff)
  have "length big = 2 * ?n" using main ord(1) real_buffer(2) [of "(!) x" ?n] by simp
  then have "length out = ?n + 2" "elem out k = elem big k" using big(2) n k by (simp_all add: elem_def)
  then show ?thesis using main ord(1) assms(2) dft by (simp add: stage_error_def)
qed

text \<open>C33. With memory an FFT for real signals is created exactly for the orders 0 to 10. For the orders 1 to 10 and values of
  magnitude at most 32750 its forward transform returns 0 and delivers the first half of the spectrum, up to half the number of
  points, as real and imaginary parts in turn, up to 9/4 units per stage.\<close>

theorem RealForwardFFT_dft:
  assumes "length x = 2 ^ nat ord" and "list_all (\<lambda>v. \<bar>v\<bar> \<le> 32750) x"
  shows "if 0 \<le> ord \<and> ord \<le> 10
    then \<exists>self. WebRtcSpl_CreateRealFFTC ord True = Some self
      \<and> (1 \<le> ord \<longrightarrow> (\<exists>out. WebRtcSpl_RealForwardFFTC self x = (0, out) \<and> length out = 2 ^ nat ord + 2
          \<and> (\<forall>k. 2 * k \<le> 2 ^ nat ord \<longrightarrow>
               cmod (cval (elem out k) - dft (- 1) (2 ^ nat ord) (\<lambda>p. of_int (x ! p)) k / 2 ^ nat ord) \<le> 9 / 4 * ord)))
    else WebRtcSpl_CreateRealFFTC ord True = None"
proof (cases "0 \<le> ord \<and> ord \<le> 10")
  case True
  then have c: "WebRtcSpl_CreateRealFFTC ord True = Some \<lparr>order = nat ord\<rparr>"
    by (simp add: WebRtcSpl_CreateRealFFTC_def kMaxFFTOrder_def)
  obtain r out where f: "WebRtcSpl_RealForwardFFTC \<lparr>order = nat ord\<rparr> x = (r, out)" by (rule prod.exhaust)
  note close = RealForwardFFT_close [OF c _ assms f]
  have "r = 0 \<and> length out = 2 ^ nat ord + 2" if "1 \<le> ord" using close [OF that, of 0] by simp
  then show ?thesis using True c f close by auto
qed (auto simp: WebRtcSpl_CreateRealFFTC_def kMaxFFTOrder_def)

lemma RealForwardFFT_dft_witness:
  "\<exists>self out. WebRtcSpl_CreateRealFFTC 1 True = Some self \<and> WebRtcSpl_RealForwardFFTC self [300, 100] = (0, out)
    \<and> cmod (cval (elem out 1) - dft (- 1) 2 (\<lambda>p. of_int ([300, 100] ! p)) 1 / 2) \<le> 9 / 4"
  using RealForwardFFT_dft [of "[300, 100]" 1] by auto

end
