(* ===== verification/Spl_Filters.thy ===== *)
theory Spl_Filters
  imports Spl_Vector
begin

text \<open>
  The filters of the SPL: \<open>filter_ar.c\<close>, \<open>filter_ar_fast_q12.c\<close>, \<open>filter_ma_fast_q12.c\<close>, \<open>downsample_fast.c\<close>. A pointer
  into an array that the code reads backwards from is a list and a position in it. The finite filters compute the
  saturated convolution, and the decimator is the moving average filter at every \<open>factor\<close>-th position. The recursive
  filter is seamless over blocks at least as long as its state; for shorter blocks it saves a wrong state.
\<close>

section \<open>Operations\<close>

definition WebRtcSpl_FilterMAFastQ12 :: "int list \<Rightarrow> nat \<Rightarrow> int list \<Rightarrow> int list \<Rightarrow> int \<Rightarrow> int \<Rightarrow> int list" where
  "WebRtcSpl_FilterMAFastQ12 in_data in_pos out B B_length len =
     fold (\<lambda>i out.
         let ob = fold (\<lambda>j ob. s32 (ob + WEBRTC_SPL_MUL_16_16 (B ! j) (in_data ! (in_pos + i - j)))) [0..<nat B_length] 0;
             ob = WEBRTC_SPL_SAT 134215679 ob (-134217728)
         in out[i := s16 (shr (s32 (ob + 2048)) 12)])
       [0..<nat len] out"

definition WebRtcSpl_FilterARFastQ12 :: "int list \<Rightarrow> int list \<Rightarrow> nat \<Rightarrow> int list \<Rightarrow> int \<Rightarrow> int \<Rightarrow> int list" where
  "WebRtcSpl_FilterARFastQ12 data_in data_out out_pos coefficients coefficients_length data_length =
     fold (\<lambda>i data_out.
         let sum = fold (\<lambda>j sum. s32 (sum + coefficients ! j * data_out ! (out_pos + i - j))) (rev [1..<nat coefficients_length]) 0;
             output = coefficients ! 0 * data_in ! i;
             output = s32 (output - sum);
             output = WEBRTC_SPL_SAT 134215679 output (-134217728)
         in data_out[out_pos + i := s16 (shr (s32 (output + 2048)) 12)])
       [0..<nat data_length] data_out"

text \<open>The loop of the decimator ends only for a positive factor; the result is \<open>None\<close> where it does not end.\<close>

definition decimate_at :: "int list \<Rightarrow> nat \<Rightarrow> int list \<Rightarrow> int \<Rightarrow> nat \<Rightarrow> int" where
  "decimate_at data_in in_pos coefficients coefficients_length i =
     WebRtcSpl_SatW32ToW16 (shr (fold (\<lambda>j out_s32. s32 (out_s32 + coefficients ! j * data_in ! (in_pos + i - j)))
       [0..<nat coefficients_length] 2048) 12)"

definition WebRtcSpl_DownsampleFastC ::
    "int list \<Rightarrow> nat \<Rightarrow> int \<Rightarrow> int list \<Rightarrow> int \<Rightarrow> int list \<Rightarrow> int \<Rightarrow> int \<Rightarrow> int \<Rightarrow> (int \<times> int list) option" where
  "WebRtcSpl_DownsampleFastC data_in in_pos data_in_length data_out data_out_length coefficients coefficients_length factor delay =
     (let endpos = delay + factor * (data_out_length - 1) + 1
      in if data_out_length \<le> 0 \<or> coefficients_length \<le> 0 \<or> data_in_length < endpos then Some (-1, data_out)
         else if factor \<le> 0 \<and> delay < endpos then None
         else Some (0, fold (\<lambda>(n, i) data_out. data_out[n := decimate_at data_in in_pos coefficients coefficients_length i])
           (enumerate 0 (index_range (nat delay) (nat endpos) (nat factor))) data_out))"

text \<open>The recursive filter in two precisions: \<open>ar_sums\<close> are the two inner loops over past outputs, \<open>ar_step\<close> one round of
  the outer loop.\<close>

definition ar_sums :: "int list \<Rightarrow> nat \<Rightarrow> int list \<Rightarrow> nat \<Rightarrow> int list \<Rightarrow> nat \<Rightarrow> int \<Rightarrow> int" where
  "ar_sums a a_length state state_length filtered i ob =
     (let stop = (if i < a_length then i + 1 else a_length);
          ob = fold (\<lambda>j ob. s32 (ob - WEBRTC_SPL_MUL_16_16 (a ! j) (filtered ! (i - j)))) [1..<stop] ob
      in fold (\<lambda>j ob. s32 (ob - WEBRTC_SPL_MUL_16_16 (a ! j) (state ! (state_length - 1 - (j - (i + 1)))))) [i + 1..<a_length] ob)"

definition ar_step :: "int list \<Rightarrow> nat \<Rightarrow> int list \<Rightarrow> int list \<Rightarrow> nat \<Rightarrow> int list \<Rightarrow> nat \<Rightarrow> int list \<times> int list \<Rightarrow> int list \<times> int list" where
  "ar_step a a_length x state state_length state_low i st =
     (case st of (filtered, filtered_low) \<Rightarrow>
        let ob = ar_sums a a_length state state_length filtered i (s32 (shl (x ! i) 12));
            oLOW = ar_sums a a_length state_low state_length filtered_low i 0;
            ob = s32 (ob + shr oLOW 12);
            f = s16 (shr (s32 (ob + 2048)) 12)
        in (filtered[i := f], filtered_low[i := s16 (s32 (ob - s32 (shl f 12)))]))"

definition WebRtcSpl_FilterAR ::
    "int list \<Rightarrow> nat \<Rightarrow> int list \<Rightarrow> nat \<Rightarrow> int list \<Rightarrow> nat \<Rightarrow> int list \<Rightarrow> int list \<Rightarrow> int list
      \<Rightarrow> int \<times> int list \<times> int list \<times> int list \<times> int list" where
  "WebRtcSpl_FilterAR a a_length x x_length state state_length state_low filtered filtered_low =
     (let (filtered, filtered_low) = fold (ar_step a a_length x state state_length state_low) [0..<x_length] (filtered, filtered_low);
          (state, state_low) =
            (if x_length \<ge> state_length
             then (snd (WebRtcSpl_CopyFromEndW16 filtered (int x_length) (int a_length - 1) state),
                   snd (WebRtcSpl_CopyFromEndW16 filtered_low (int x_length) (int a_length - 1) state_low))
             else let state = fold (\<lambda>i state. state[i := state ! (i + x_length)]) [0..<state_length - x_length] state;
                      state_low = fold (\<lambda>i state_low. state_low[i := state_low ! (i + x_length)]) [0..<state_length - x_length] state_low;
                      state = fold (\<lambda>i state. state[state_length - x_length + i := filtered ! i,
                                                     state_length - x_length + i := filtered_low ! i]) [0..<x_length] state
                  in (state, state_low))
      in (int x_length, filtered, filtered_low, state, state_low))"

section \<open>The finite filters\<close>

text \<open>The exact convolution at a position.\<close>

definition taps :: "int list \<Rightarrow> int list \<Rightarrow> nat \<Rightarrow> int" where
  "taps B x p = (\<Sum>j\<leftarrow>[0..<length B]. B ! j * x ! (p - j))"

lemma taps_bound:
  assumes "list_all is_s16 x" and "length B \<le> p + 1" and "p < length x"
  shows "\<bar>taps B x p\<bar> \<le> (\<Sum>b\<leftarrow>B. \<bar>b\<bar>) * 32768"
proof -
  have "\<bar>\<Sum>j\<leftarrow>[0..<n]. B ! j * x ! (p - j)\<bar> \<le> (\<Sum>j\<leftarrow>[0..<n]. \<bar>B ! j\<bar>) * 32768" if "n \<le> length B" for n
    using that
  proof (induction n)
    case (Suc n)
    have "is_s16 (x ! (p - n))" using assms by (simp add: list_all_length)
    then have "\<bar>x ! (p - n)\<bar> \<le> 32768" by (simp add: is_s16_def abs_le_iff)
    then have "\<bar>B ! n * x ! (p - n)\<bar> \<le> \<bar>B ! n\<bar> * 32768" unfolding abs_mult by (intro mult_left_mono) simp_all
    then show ?case using Suc by (simp add: distrib_right)
  qed simp
  from this [of "length B"] show ?thesis by (simp add: taps_def map_nth flip: map_map [of abs "(!) B", unfolded comp_def])
qed

lemma fold_taps:
  assumes "list_all is_s16 x" and "length B \<le> p + 1" and "p < length x" and "(\<Sum>b\<leftarrow>B. \<bar>b\<bar>) \<le> 65534" and "0 \<le> c" and "c \<le> 2048"
  shows "fold (\<lambda>j acc. s32 (acc + B ! j * x ! (p - j))) [0..<length B] c = c + taps B x p"
proof -
  have "\<bar>taps B x p\<bar> \<le> 65534 * 32768"
    using order_trans [OF taps_bound [OF assms(1-3)] mult_right_mono [OF assms(4), of 32768]] by simp
  then have "s32 (c + taps B x p) = c + taps B x p" using assms(5,6) by (simp add: s32_id abs_le_iff)
  then show ?thesis using assms(5,6) by (simp add: fold_s32_add is_s32_def taps_def)
qed

text \<open>Saturating before or after the shift is the same.\<close>

lemma saturate_shift: "shr (clamp (-134217728) 134215679 t + 2048) 12 = clamp (-32768) 32767 (shr (2048 + t) 12)"
proof -
  consider "t < -134217728" | "134215679 < t" | "-134217728 \<le> t" "t \<le> 134215679" by linarith
  then show ?thesis
  proof cases
    case 1
    then have "shr (2048 + t) 12 < -32767" by (simp add: shr_less_iff)
    then show ?thesis using 1 by (simp add: clamp_def shr_def)
  next
    case 2
    then have "32767 \<le> shr (2048 + t) 12" by (simp add: le_shr_iff)
    then show ?thesis using 2 by (simp add: clamp_def shr_def)
  next
    case 3
    then have "-32768 \<le> shr (2048 + t) 12" "shr (2048 + t) 12 < 32768" by (simp_all add: le_shr_iff shr_less_iff)
    then show ?thesis using 3 by (simp add: clamp_def add.commute)
  qed
qed

lemma index_range_map: "0 < f \<Longrightarrow> index_range i (i + f * m + 1) f = map (\<lambda>k. i + k * f) [0..<Suc m]"
proof (induction m arbitrary: i)
  case 0
  then show ?case by (simp add: index_range.simps)
next
  case (Suc m)
  have "index_range i (i + f * Suc m + 1) f = i # index_range (i + f) (i + f + f * m + 1) f"
    using Suc.prems by (subst index_range.simps) (simp add: algebra_simps)
  also have "\<dots> = i # map (\<lambda>k. i + f + k * f) [0..<Suc m]" using Suc by simp
  also have "\<dots> = map (\<lambda>k. i + k * f) [0..<Suc (Suc m)]"
    by (simp only: upt_conv_Cons [of 0 "Suc (Suc m)"] map_Suc_upt [symmetric] map_map comp_def list.map) (simp add: algebra_simps)
  finally show ?case .
qed

lemma FilterMA_at:
  assumes "list_all is_s16 x" and "list_all is_s16 B" and "(\<Sum>b\<leftarrow>B. \<bar>b\<bar>) \<le> 65534"
    and "length B \<le> pos + 1" and "pos + n \<le> length x" and "n \<le> length out" and "i < n"
  shows "WebRtcSpl_FilterMAFastQ12 x pos out B (int (length B)) (int n) ! i = clamp (-32768) 32767 (shr (2048 + taps B x (pos + i)) 12)"
proof -
  let ?g = "\<lambda>i. clamp (-32768) 32767 (shr (2048 + taps B x (pos + i)) 12)"
  have mul: "WEBRTC_SPL_MUL_16_16 (B ! j) (x ! p) = B ! j * x ! p" if "j < length B" "p < length x" for j p
    using that assms(1,2) by (simp add: WEBRTC_SPL_MUL_16_16_def list_all_length s16_conv mult_s16_s32)
  have body: "(let ob = fold (\<lambda>j ob. s32 (ob + WEBRTC_SPL_MUL_16_16 (B ! j) (x ! (pos + k - j)))) [0..<nat (int (length B))] 0;
      ob = WEBRTC_SPL_SAT 134215679 ob (-134217728) in out[k := s16 (shr (s32 (ob + 2048)) 12)]) = out[k := ?g k]"
    if "k < n" for k out
  proof -
    have "fold (\<lambda>j ob. s32 (ob + WEBRTC_SPL_MUL_16_16 (B ! j) (x ! (pos + k - j)))) [0..<length B] 0
        = fold (\<lambda>j ob. s32 (ob + B ! j * x ! (pos + k - j))) [0..<length B] 0"
      using that assms(5) by (intro fold_cong refl ext) (simp add: mul)
    also have "\<dots> = taps B x (pos + k)" using that assms fold_taps [of x B "pos + k" 0] by simp
    finally have "fold (\<lambda>j ob. s32 (ob + WEBRTC_SPL_MUL_16_16 (B ! j) (x ! (pos + k - j)))) [0..<nat (int (length B))] 0
        = taps B x (pos + k)" by simp
    moreover have "s32 (clamp (-134217728) 134215679 t + 2048) = clamp (-134217728) 134215679 t + 2048" for t
      by (simp add: clamp_def s32_id)
    moreover have "s16 (?g k) = ?g k" by (simp add: clamp_def s16_id)
    ultimately show ?thesis by (simp add: SPL_SAT_clamp saturate_shift Let_def)
  qed
  have "WebRtcSpl_FilterMAFastQ12 x pos out B (int (length B)) (int n) = fold (\<lambda>k out. out[k := ?g k]) [0..<n] out"
    unfolding WebRtcSpl_FilterMAFastQ12_def using body by (intro fold_cong refl ext) simp_all
  also have "\<dots> = map ?g [0..<n] @ drop n out" using assms(6) by (rule fold_write_upt)
  finally show ?thesis using assms(7) by (simp add: nth_append)
qed

lemma decimate_at_eq:
  assumes "list_all is_s16 x" and "(\<Sum>b\<leftarrow>B. \<bar>b\<bar>) \<le> 65534" and "length B \<le> pos + i + 1" and "pos + i < length x"
  shows "decimate_at x pos B (int (length B)) i = clamp (-32768) 32767 (shr (2048 + taps B x (pos + i)) 12)"
  using assms fold_taps [of x B "pos + i" 2048] by (simp add: decimate_at_def SatW32ToW16_clamp)

lemma DownsampleFast_eq:
  assumes "0 < factor" and "0 \<le> delay" and "0 < B_len" and "delay + factor * int m + 1 \<le> len"
  shows "WebRtcSpl_DownsampleFastC x pos len out (int (Suc m)) B B_len factor delay
    = Some (0, fold (\<lambda>n out. out[n := decimate_at x pos B B_len (nat delay + n * nat factor)]) [0..<Suc m] out)"
proof -
  have e: "nat (delay + factor * int m + 1) = nat delay + nat factor * m + 1"
    using assms(1,2) by (simp add: nat_add_distrib nat_mult_distrib)
  have "enumerate 0 (index_range (nat delay) (nat (delay + factor * int m + 1)) (nat factor))
      = map (\<lambda>n. (n, nat delay + n * nat factor)) [0..<Suc m]"
    unfolding e using assms(1) index_range_map [of "nat factor" "nat delay" m] by (simp only: enumerate_map_upt)
  then show ?thesis using assms by (simp add: WebRtcSpl_DownsampleFastC_def Let_def fold_map comp_def del: upt_Suc)
qed



section \<open>The recursive filter\<close>

text \<open>The filter on the history of its outputs: \<open>H\<close> and \<open>L\<close> are the high and low parts so far, the newest last.\<close>

definition ar_past :: "int list \<Rightarrow> nat \<Rightarrow> int list \<Rightarrow> int \<Rightarrow> int" where
  "ar_past a p H ob = fold (\<lambda>j ob. s32 (ob - WEBRTC_SPL_MUL_16_16 (a ! j) (H ! (length H - j)))) [1..<p + 1] ob"

definition ar_value :: "int list \<Rightarrow> nat \<Rightarrow> int \<Rightarrow> int list \<times> int list \<Rightarrow> int list \<times> int list" where
  "ar_value a p x st =
     (case st of (H, L) \<Rightarrow>
        let ob = s32 (ar_past a p H (s32 (shl x 12)) + shr (ar_past a p L 0) 12);
            f = s16 (shr (s32 (ob + 2048)) 12)
        in (H @ [f], L @ [s16 (s32 (ob - s32 (shl f 12)))]))"

lemma ar_sums_past:
  assumes "length state = p" and "i \<le> length filtered"
  shows "ar_sums a (p + 1) state p filtered i ob = ar_past a p (state @ take i filtered) ob"
proof -
  let ?f = "\<lambda>j ob. s32 (ob - WEBRTC_SPL_MUL_16_16 (a ! j) ((state @ take i filtered) ! (p + i - j)))"
  have new: "fold (\<lambda>j ob. s32 (ob - WEBRTC_SPL_MUL_16_16 (a ! j) (filtered ! (i - j)))) [1..<k] ob = fold ?f [1..<k] ob"
    if "k \<le> i + 1" for k ob
    using that assms by (intro fold_cong refl ext) (auto simp: nth_append)
  have old: "fold (\<lambda>j ob. s32 (ob - WEBRTC_SPL_MUL_16_16 (a ! j) (state ! (p - 1 - (j - (i + 1)))))) [i + 1..<p + 1] ob
      = fold ?f [i + 1..<p + 1] ob" for ob
    using assms by (intro fold_cong refl ext) (auto simp: nth_append intro!: arg_cong [of _ _ "(!) state"])
  have "length (state @ take i filtered) = p + i" using assms by simp
  then have past: "ar_past a p (state @ take i filtered) ob = fold ?f [1..<p + 1] ob" by (simp only: ar_past_def)
  show ?thesis
  proof (cases "i < p + 1")
    case True
    then have "[1..<p + 1] = [1..<i + 1] @ [i + 1..<p + 1]" using upt_add_eq_append [of 1 "i + 1" "p - i"] by simp
    then have "ar_past a p (state @ take i filtered) ob = fold ?f [i + 1..<p + 1] (fold ?f [1..<i + 1] ob)"
      by (simp only: past fold_append comp_def)
    then show ?thesis using True new [of "i + 1" ob] old by (simp add: ar_sums_def Let_def del: upt_Suc)
  next
    case False
    then show ?thesis using new [of "p + 1" ob] unfolding past by (simp add: ar_sums_def Let_def del: upt_Suc)
  qed
qed

lemma length_ar_run:
  "length (fst (fold (ar_value a p) xs (H, L))) = length H + length xs"
  "length (snd (fold (ar_value a p) xs (H, L))) = length L + length xs"
  by (induction xs arbitrary: H L) (simp_all add: ar_value_def Let_def)

lemma ar_loop:
  assumes "length state = p" and "length state_low = p" and "n \<le> length x" and "n \<le> length F" and "n \<le> length G"
    and "fold (ar_value a p) (take n x) (state, state_low) = (H, L)"
  shows "fold (ar_step a (p + 1) x state p state_low) [0..<n] (F, G) = (drop p H @ drop n F, drop p L @ drop n G)
    \<and> take p H = state \<and> take p L = state_low \<and> length H = p + n \<and> length L = p + n"
  using assms(3-6)
proof (induction n arbitrary: H L)
  case 0
  then show ?case using assms(1,2) by simp
next
  case (Suc n)
  obtain H' L' where run: "fold (ar_value a p) (take n x) (state, state_low) = (H', L')" by (rule prod.exhaust)
  let ?F = "drop p H' @ drop n F" and ?G = "drop p L' @ drop n G"
  have IH: "fold (ar_step a (p + 1) x state p state_low) [0..<n] (F, G) = (?F, ?G)"
    "take p H' = state" "take p L' = state_low" "length H' = p + n" "length L' = p + n"
    using Suc.IH [OF _ _ _ run] Suc.prems by simp_all
  have HL: "(H, L) = ar_value a p (x ! n) (H', L')"
    using Suc.prems(1,4) run by (simp add: take_Suc_conv_app_nth)
  have hist: "state @ take n ?F = H'" "state_low @ take n ?G = L'"
    using IH append_take_drop_id [of p H'] append_take_drop_id [of p L'] by simp_all
  have "ar_step a (p + 1) x state p state_low n (?F, ?G) = (drop p H @ drop (Suc n) F, drop p L @ drop (Suc n) G)"
    using ar_sums_past [OF assms(1), of n ?F a] ar_sums_past [OF assms(2), of n ?G a] Suc.prems IH HL
    by (auto simp: ar_step_def ar_value_def Let_def hist list_update_append simp flip: Cons_nth_drop_Suc)
  moreover have "take p H = state \<and> take p L = state_low \<and> length H = p + Suc n \<and> length L = p + Suc n"
    using HL IH by (auto simp: ar_value_def Let_def)
  ultimately show ?case using IH(1) by simp
qed

text \<open>Only the last \<open>p\<close> outputs matter for the next one.\<close>

lemma ar_past_last:
  assumes "p \<le> length H" shows "ar_past a p (K @ H) ob = ar_past a p H ob"
  unfolding ar_past_def using assms by (intro fold_cong refl ext) (auto simp: nth_append simp flip: add_diff_assoc)

lemma ar_run_last:
  assumes "p \<le> length H" and "p \<le> length L" and "fold (ar_value a p) xs (H, L) = (H', L')"
  shows "fold (ar_value a p) xs (K @ H, M @ L) = (K @ H', M @ L')"
  using assms
proof (induction xs arbitrary: H L)
  case (Cons x xs)
  obtain H1 L1 where s: "ar_value a p x (H, L) = (H1, L1)" by (rule prod.exhaust)
  have "ar_value a p x (K @ H, M @ L) = (K @ H1, M @ L1)" "p \<le> length H1" "p \<le> length L1"
    using s Cons.prems(1,2) by (auto simp: ar_value_def Let_def ar_past_last)
  then show ?case using Cons.IH [of H1 L1] Cons.prems(3) s by simp
qed simp

text \<open>What the whole function does when the input is at least as long as the state.\<close>

lemma FilterAR_long:
  assumes "length state = p" and "length state_low = p" and "p \<le> length x" and "length F = length x" and "length G = length x"
    and "fold (ar_value a p) x (state, state_low) = (H, L)"
  shows "WebRtcSpl_FilterAR a (p + 1) x (length x) state p state_low F G
    = (int (length x), drop p H, drop p L, drop (length x) H, drop (length x) L)"
proof -
  have loop: "fold (ar_step a (p + 1) x state p state_low) [0..<length x] (F, G) = (drop p H, drop p L)"
    and len: "length H = p + length x" "length L = p + length x"
    using ar_loop [OF assms(1,2), of "length x" x F G a H L] assms(4-6) by simp_all
  have copy: "snd (WebRtcSpl_CopyFromEndW16 (drop p K) (int (length x)) (int (p + 1) - 1) s) = drop (length x) K"
    if "length K = p + length x" "length s = p" for K s
  proof -
    have "snd (WebRtcSpl_CopyFromEndW16 (drop p K) (int (length x)) (int (p + 1) - 1) s)
        = map (\<lambda>i. drop p K ! (length x - p + i)) [0..<p]"
      using that assms(3) by (simp add: WebRtcSpl_CopyFromEndW16_def fold_write_upt nat_diff_distrib)
    also have "\<dots> = drop (length x) K"
      using that assms(3) by (intro nth_equalityI) (simp_all add: nth_drop)
    finally show ?thesis .
  qed
  show ?thesis
    using assms(1-3) copy [OF len(1) assms(1)] copy [OF len(2) assms(2)] unfolding WebRtcSpl_FilterAR_def loop
    by simp
qed



text \<open>Shifting a list down in place.\<close>

lemma fold_move_down:
  "m + n \<le> length s \<Longrightarrow> fold (\<lambda>i s. s[i := s ! (i + n)]) [0..<m] s = take m (drop n s) @ drop m s"
proof (induction m)
  case (Suc m)
  let ?t = "take m (drop n s) @ drop m s"
  have "?t ! (m + n) = s ! (m + n)" using Suc.prems by (simp add: nth_append)
  moreover have "?t[m := v] = take m (drop n s) @ v # drop (Suc m) s" for v
    using Suc.prems Cons_nth_drop_Suc [of m s] by (simp add: list_update_append min_absorb2 flip: Cons_nth_drop_Suc)
  moreover have "take (Suc m) (drop n s) = take m (drop n s) @ [s ! (m + n)]"
    using Suc.prems by (simp add: take_Suc_conv_app_nth add.commute)
  ultimately show ?case using Suc by simp
qed simp

lemma fold_write_end:
  "n \<le> k \<Longrightarrow> length s = m + k \<Longrightarrow> fold (\<lambda>i s. s[m + i := f i]) [0..<n] s = take m s @ map f [0..<n] @ drop (m + n) s"
proof (induction n)
  case (Suc n)
  then have "fold (\<lambda>i s. s[m + i := f i]) [0..<Suc n] s = (take m s @ map f [0..<n] @ drop (m + n) s)[m + n := f n]" by simp
  also have "\<dots> = take m s @ map f [0..<n] @ (drop (m + n) s)[0 := f n]"
    using Suc.prems by (simp add: list_update_append)
  also have "(drop (m + n) s)[0 := f n] = f n # drop (m + Suc n) s"
    using Suc.prems by (simp flip: Cons_nth_drop_Suc)
  finally show ?case by simp
qed simp

text \<open>C19. For every block shorter than the state the outputs are those of the filter, but the saved state is not: its new
  entries are the low parts of the outputs instead of the outputs, and the state of the low parts keeps its last
  entries. It is the state to go on with only if low parts and outputs of the block are equal and are
  what the low state ended with before.\<close>

theorem FilterAR_short_blocks:
  assumes "length state = p" and "length state_low = p" and "length x < p" and "length F = length x" and "length G = length x"
    and "fold (ar_value a p) x (state, state_low) = (H, L)"
    and "WebRtcSpl_FilterAR a (p + 1) x (length x) state p state_low F G = (n, f, g, s, t)"
  shows "n = int (length x) \<and> f = drop p H \<and> g = drop p L
    \<and> s = drop (length x) state @ g \<and> t = drop (length x) state_low @ drop (p - length x) state_low
    \<and> ((s, t) = (drop (length x) H, drop (length x) L) \<longleftrightarrow> g = f \<and> g = drop (p - length x) state_low)"
proof -
  let ?n = "length x"
  have loop: "fold (ar_step a (p + 1) x state p state_low) [0..<?n] (F, G) = (drop p H, drop p L)"
    and past: "take p H = state" "take p L = state_low" and len: "length H = p + ?n" "length L = p + ?n"
    using ar_loop [OF assms(1,2), of ?n x F G a H L] assms(4-6) by simp_all
  have shift: "fold (\<lambda>i s. s[i := s ! (i + ?n)]) [0..<p - ?n] u = drop ?n u @ drop (p - ?n) u" if "length u = p" for u :: "int list"
    using that assms(3) fold_move_down [of "p - ?n" ?n u] by simp
  let ?u = "drop ?n state @ drop (p - ?n) state"
  have "fold (\<lambda>i state. state[p - ?n + i := drop p H ! i, p - ?n + i := drop p L ! i]) [0..<?n] ?u
      = fold (\<lambda>i state. state[p - ?n + i := drop p L ! i]) [0..<?n] ?u" by simp
  also have "\<dots> = take (p - ?n) ?u @ map (\<lambda>i. drop p L ! i) [0..<?n] @ drop (p - ?n + ?n) ?u"
    using assms(1,3) by (intro fold_write_end [of _ ?n]) simp_all
  also have "\<dots> = drop ?n state @ drop p L"
    using assms(1,3) len map_nth [of "drop p L"] by simp
  finally have r: "n = int ?n" "f = drop p H" "g = drop p L" "s = drop ?n state @ drop p L" "t = drop ?n state_low @ drop (p - ?n) state_low"
    using assms(1-3,7) unfolding WebRtcSpl_FilterAR_def loop by (auto simp: Let_def shift)
  have split: "drop ?n K = drop ?n (take p K) @ drop p K" if "length K = p + ?n" for K :: "int list"
    using that assms(3) append_take_drop_id [of p K] drop_append [of ?n "take p K" "drop p K"] by simp
  have "(s, t) = (drop ?n H, drop ?n L) \<longleftrightarrow> g = f \<and> g = drop (p - ?n) state_low"
    unfolding split [OF len(1)] split [OF len(2)] past r(2-5) by auto
  then show ?thesis using r by simp
qed

lemma FilterAR_short_blocks_witness:
  "WebRtcSpl_FilterAR [4096, -4096, 0] 3 [1000] 1 [0, 0] 2 [0, 0] [0] [0] = (1, [1000], [0], [0, 0], [0, 0])
   \<and> [0, 0 :: int] \<noteq> drop 1 (fst (fold (ar_value [4096, -4096, 0] 2) [1000] ([0, 0], [0, 0])))"
proof -
  have run: "fold (ar_value [4096, -4096, 0] 2) [1000] ([0, 0], [0, 0]) = ([0, 0, 1000], [0, 0, 0])" by code_simp
  have "WebRtcSpl_FilterAR [4096, -4096, 0] (2 + 1) [1000] (length [1000 :: int]) [0, 0] 2 [0, 0] [0] [0] = (1, [1000], [0], [0, 0], [0, 0])"
    by code_simp
  from FilterAR_short_blocks [OF _ _ _ _ _ run this] this run show ?thesis by simp
qed

end
