(* ===== verification/Spl_Qmf.thy ===== *)
theory Spl_Qmf
  imports Spl_Resample
begin

text \<open>
  The two band splitting filter, \<open>splitting_filter.c\<close>. An all-pass filter is three sections in a row; each keeps its last
  input and its last output between calls. On 16 bit signals nothing overflows or saturates in 32 bits, so the
  sections are exact integer recursions (\<open>analysis_exact\<close>, \<open>synthesis_exact\<close>); the filter states this needs form an invariant. Splitting a signal
  frame by frame is splitting it whole (the locale \<open>stream_filter\<close> of \<open>Spl_Resample\<close>).
\<close>

section \<open>Operations\<close>

definition kMaxBandFrameLength :: nat where "kMaxBandFrameLength = 240"

definition WebRtcSpl_kAllPassFilter1 :: "int list" where "WebRtcSpl_kAllPassFilter1 = [6418, 36982, 57261]"
definition WebRtcSpl_kAllPassFilter2 :: "int list" where "WebRtcSpl_kAllPassFilter2 = [21333, 49062, 63010]"

text \<open>One section, from the array \<open>src\<close> to the array \<open>dst\<close>, with the last input \<open>x1\<close> and output \<open>y1\<close> of the previous call.\<close>

definition allpass_value :: "int \<Rightarrow> int \<Rightarrow> int \<Rightarrow> int \<Rightarrow> int" where
  "allpass_value coef x y1 x1 = (let diff = WebRtcSpl_SubSatW32 x y1 in WEBRTC_SPL_SCALEDIFF32 coef diff x1)"

definition allpass_section :: "int \<Rightarrow> int list \<Rightarrow> nat \<Rightarrow> int list \<Rightarrow> int \<Rightarrow> int \<Rightarrow> int list" where
  "allpass_section coef src data_length dst x1 y1 =
     (let dst = dst[0 := allpass_value coef (src ! 0) y1 x1]
      in fold (\<lambda>k dst. dst[k := allpass_value coef (src ! k) (dst ! (k - 1)) (src ! (k - 1))]) [1..<data_length] dst)"

definition WebRtcSpl_AllPassQMF :: "int list \<Rightarrow> nat \<Rightarrow> int list \<Rightarrow> int list \<Rightarrow> int list \<Rightarrow> int list \<times> int list \<times> int list" where
  "WebRtcSpl_AllPassQMF in_data data_length out_data filter_coefficients filter_state =
     (let out_data = allpass_section (filter_coefficients ! 0) in_data data_length out_data (filter_state ! 0) (filter_state ! 1);
          filter_state = filter_state[0 := in_data ! (data_length - 1), 1 := out_data ! (data_length - 1)];
          in_data = allpass_section (filter_coefficients ! 1) out_data data_length in_data (filter_state ! 2) (filter_state ! 3);
          filter_state = filter_state[2 := out_data ! (data_length - 1), 3 := in_data ! (data_length - 1)];
          out_data = allpass_section (filter_coefficients ! 2) in_data data_length out_data (filter_state ! 4) (filter_state ! 5);
          filter_state = filter_state[4 := in_data ! (data_length - 1), 5 := out_data ! (data_length - 1)]
      in (in_data, out_data, filter_state))"

text \<open>The bands are the lists of the written samples; \<open>None\<close> where the arrays on the stack are too short, or empty. Their
  values before they are written are \<open>junk\<close>.\<close>

definition WebRtcSpl_AnalysisQMF ::
    "int list \<Rightarrow> int list \<Rightarrow> int list \<Rightarrow> int list \<Rightarrow> (int list \<times> int list \<times> int list \<times> int list) option" where
  "WebRtcSpl_AnalysisQMF junk in_data filter_state1 filter_state2 =
     (let band_length = length in_data div 2
      in if band_length > kMaxBandFrameLength \<or> band_length = 0 then None
         else let half_in2 = map (\<lambda>i. s32 (shl (in_data ! (2 * i)) 10)) [0..<band_length];
                  half_in1 = map (\<lambda>i. s32 (shl (in_data ! (2 * i + 1)) 10)) [0..<band_length];
                  (_, filter1, filter_state1) =
                    WebRtcSpl_AllPassQMF half_in1 band_length (take band_length junk) WebRtcSpl_kAllPassFilter1 filter_state1;
                  (_, filter2, filter_state2) =
                    WebRtcSpl_AllPassQMF half_in2 band_length (take band_length junk) WebRtcSpl_kAllPassFilter2 filter_state2;
                  low_band = map (\<lambda>i. WebRtcSpl_SatW32ToW16 (shr (s32 (s32 (filter1 ! i + filter2 ! i) + 1024)) 11)) [0..<band_length];
                  high_band = map (\<lambda>i. WebRtcSpl_SatW32ToW16 (shr (s32 (s32 (filter1 ! i - filter2 ! i) + 1024)) 11)) [0..<band_length]
              in Some (low_band, high_band, filter_state1, filter_state2))"

definition WebRtcSpl_SynthesisQMF ::
    "int list \<Rightarrow> int list \<Rightarrow> int list \<Rightarrow> nat \<Rightarrow> int list \<Rightarrow> int list \<Rightarrow> (int list \<times> int list \<times> int list) option" where
  "WebRtcSpl_SynthesisQMF junk low_band high_band band_length filter_state1 filter_state2 =
     (if band_length > kMaxBandFrameLength \<or> band_length = 0 then None
      else let half_in1 = map (\<lambda>i. s32 (shl (low_band ! i + high_band ! i) 10)) [0..<band_length];
               half_in2 = map (\<lambda>i. s32 (shl (low_band ! i - high_band ! i) 10)) [0..<band_length];
               (_, filter1, filter_state1) =
                 WebRtcSpl_AllPassQMF half_in1 band_length (take band_length junk) WebRtcSpl_kAllPassFilter2 filter_state1;
               (_, filter2, filter_state2) =
                 WebRtcSpl_AllPassQMF half_in2 band_length (take band_length junk) WebRtcSpl_kAllPassFilter1 filter_state2;
               out_data = concat (map (\<lambda>i. [WebRtcSpl_SatW32ToW16 (shr (s32 (filter2 ! i + 512)) 10),
                                            WebRtcSpl_SatW32ToW16 (shr (s32 (filter1 ! i + 512)) 10)]) [0..<band_length])
           in Some (out_data, filter_state1, filter_state2))"

section \<open>Sections as recursions over the signal\<close>

fun section_run :: "(int \<Rightarrow> int \<Rightarrow> int \<Rightarrow> int) \<Rightarrow> int \<times> int \<Rightarrow> int list \<Rightarrow> int list" where
  "section_run f s [] = []"
| "section_run f (x1, y1) (x # xs) = (let y = f x y1 x1 in y # section_run f (x, y) xs)"

definition section_state :: "(int \<Rightarrow> int \<Rightarrow> int \<Rightarrow> int) \<Rightarrow> int \<times> int \<Rightarrow> int list \<Rightarrow> int \<times> int" where
  "section_state f s xs = (if xs = [] then s else (last xs, last (section_run f s xs)))"

lemma length_section_run [simp]: "length (section_run f s xs) = length xs"
  by (induction f s xs rule: section_run.induct) (simp_all add: Let_def)

lemma section_run_Nil_iff [simp]: "section_run f s xs = [] \<longleftrightarrow> xs = []"
  by (simp flip: length_0_conv)

lemma section_run_append:
  "section_run f s (xs @ ys) = section_run f s xs @ section_run f (section_state f s xs) ys"
  "section_state f s (xs @ ys) = section_state f (section_state f s xs) ys"
proof -
  show run: "section_run f s (xs @ ys) = section_run f s xs @ section_run f (section_state f s xs) ys"
    by (induction f s xs rule: section_run.induct) (auto simp: Let_def section_state_def)
  show "section_state f s (xs @ ys) = section_state f (section_state f s xs) ys"
    by (simp add: section_state_def run)
qed

lemma section_run_snoc:
  "section_run f s (xs @ [x]) = section_run f s xs @ [f x (snd (section_state f s xs)) (fst (section_state f s xs))]"
  by (cases "section_state f s xs") (simp add: section_run_append)

lemma allpass_section_run:
  assumes "0 < n" and "n \<le> length src" and "n \<le> length dst"
  shows "allpass_section c src n dst x1 y1 = section_run (allpass_value c) (x1, y1) (take n src) @ drop n dst"
proof -
  let ?f = "allpass_value c" and ?b = "\<lambda>k dst. dst[k := allpass_value c (src ! k) (dst ! (k - 1)) (src ! (k - 1))]"
  have "fold ?b [1..<Suc m] (dst[0 := ?f (src ! 0) y1 x1]) = section_run ?f (x1, y1) (take (Suc m) src) @ drop (Suc m) dst"
    if "Suc m \<le> n" for m
    using that
  proof (induction m)
    case 0
    then show ?case using assms by (cases src; cases dst) (simp_all add: Let_def)
  next
    case (Suc m)
    let ?r = "section_run ?f (x1, y1) (take (Suc m) src)"
    have t: "take (Suc (Suc m)) src = take (Suc m) src @ [src ! Suc m]"
      using Suc.prems assms(2) by (simp add: take_Suc_conv_app_nth)
    have l: "length ?r = Suc m" using Suc.prems assms(2) by simp
    have st: "section_state ?f (x1, y1) (take (Suc m) src) = (src ! m, ?r ! m)"
      using Suc.prems assms(2) l by (auto simp: section_state_def last_conv_nth)
    have d: "drop (Suc m) dst = dst ! Suc m # drop (Suc (Suc m)) dst" using Suc.prems assms(3) by (simp add: Cons_nth_drop_Suc)
    have "fold ?b [1..<Suc (Suc m)] (dst[0 := ?f (src ! 0) y1 x1]) = ?b (Suc m) (?r @ drop (Suc m) dst)"
      using Suc by (subst upt_Suc) simp
    also have "\<dots> = ?r @ ?f (src ! Suc m) (?r ! m) (src ! m) # drop (Suc (Suc m)) dst"
      unfolding d using l by (simp add: nth_append list_update_append)
    finally show ?case by (simp add: t section_run_snoc st)
  qed
  from this [of "n - 1"] show ?thesis using assms(1) by (simp add: allpass_section_def)
qed


section \<open>The three sections in a row\<close>

definition allpass_chain :: "(int \<Rightarrow> int \<Rightarrow> int \<Rightarrow> int \<Rightarrow> int) \<Rightarrow> int list \<Rightarrow> int list \<Rightarrow> int list \<Rightarrow> int list \<times> int list" where
  "allpass_chain f c s xs =
     (let ys = section_run (f (c ! 0)) (s ! 0, s ! 1) xs;
          zs = section_run (f (c ! 1)) (s ! 2, s ! 3) ys;
          (s0, s1) = section_state (f (c ! 0)) (s ! 0, s ! 1) xs;
          (s2, s3) = section_state (f (c ! 1)) (s ! 2, s ! 3) ys;
          (s4, s5) = section_state (f (c ! 2)) (s ! 4, s ! 5) zs
      in (section_run (f (c ! 2)) (s ! 4, s ! 5) zs, [s0, s1, s2, s3, s4, s5]))"

lemma list6_eq: "length s = 6 \<Longrightarrow> s = [s ! 0, s ! 1, s ! 2, s ! 3, s ! 4, s ! 5]"
  by (auto simp: list_eq_iff_nth_eq less_Suc_eq numeral_eq_Suc)

lemma AllPassQMF_chain:
  assumes n: "n = length xs" and xs: "xs \<noteq> []" and out: "length out = n" and s: "length s = 6"
  shows "snd (WebRtcSpl_AllPassQMF xs n out c s) = allpass_chain allpass_value c s xs"
proof -
  define ys where "ys = section_run (allpass_value (c ! 0)) (s ! 0, s ! 1) xs"
  define zs where "zs = section_run (allpass_value (c ! 1)) (s ! 2, s ! 3) ys"
  define us where "us = section_run (allpass_value (c ! 2)) (s ! 4, s ! 5) zs"
  have pos: "0 < n" using n xs by simp
  have l: "length ys = n" "length zs = n" "length us = n" "length xs = n" by (simp_all add: ys_def zs_def us_def n)
  have e: "ys \<noteq> []" "zs \<noteq> []" "us \<noteq> []" using l pos by auto
  have last: "xs ! (n - 1) = last xs" "ys ! (n - 1) = last ys" "zs ! (n - 1) = last zs" "us ! (n - 1) = last us"
    using l e xs by (simp_all add: last_conv_nth)
  have r1: "allpass_section (c ! 0) xs n out (s ! 0) (s ! 1) = ys"
    using pos l out by (simp add: allpass_section_run ys_def)
  have r2: "allpass_section (c ! 1) ys n xs (s ! 2) (s ! 3) = zs"
    using pos l by (simp add: allpass_section_run zs_def)
  have r3: "allpass_section (c ! 2) zs n ys (s ! 4) (s ! 5) = us"
    using pos l by (simp add: allpass_section_run us_def)
  have "snd (WebRtcSpl_AllPassQMF xs n out c s) = (us, [last xs, last ys, last ys, last zs, last zs, last us])"
    using s by (subst list6_eq [OF s]) (simp add: WebRtcSpl_AllPassQMF_def Let_def r1 [unfolded One_nat_def] r2 [unfolded One_nat_def] r3 [unfolded One_nat_def]
        last [unfolded One_nat_def])
  also have "\<dots> = allpass_chain allpass_value c s xs"
    using e xs by (simp add: allpass_chain_def section_state_def Let_def flip: ys_def zs_def us_def del: One_nat_def)
  finally show ?thesis .
qed

lemma length_allpass_chain [simp]:
  "length (fst (allpass_chain f c s xs)) = length xs" "length (snd (allpass_chain f c s xs)) = 6"
  by (simp_all add: allpass_chain_def Let_def split: prod.splits)

lemma allpass_chain_append:
  "allpass_chain f c s (xs @ ys) =
     (let (us, s) = allpass_chain f c s xs; (vs, s) = allpass_chain f c s ys in (us @ vs, s))"
  by (simp add: allpass_chain_def Let_def section_run_append split: prod.splits)

interpretation chain: stream_filter "allpass_chain f c" "\<lambda>s. length s = 6" 1
proof unfold_locales
  fix s xs ys :: "int list" assume s: "length s = 6"
  show "allpass_chain f c s [] = ([], s)"
    using list6_eq [OF s] by (simp add: allpass_chain_def section_state_def)
  show "length (snd (allpass_chain f c s xs)) = 6" by simp
  show "allpass_chain f c s (xs @ ys) =
      (let (us, s) = allpass_chain f c s xs; (vs, s) = allpass_chain f c s ys in (us @ vs, s))"
    by (rule allpass_chain_append)
qed


section \<open>No overflow\<close>

text \<open>
  A section whose inputs are bounded by \<open>X\<close> keeps \<open>65536 y - A x\<close> bounded by \<open>K\<close>, and its outputs by \<open>Y\<close>: the
  contract of a section, for given bounds. With it nothing saturates or wraps, and the value is the exact one.
\<close>

definition allpass_exact :: "int \<Rightarrow> int \<Rightarrow> int \<Rightarrow> int \<Rightarrow> int" where
  "allpass_exact A x y1 x1 = x1 + (A * (x - y1)) div 65536"

definition section_ok :: "int \<Rightarrow> int \<Rightarrow> int \<Rightarrow> int \<times> int \<Rightarrow> bool" where
  "section_ok A X K s = (case s of (x1, y1) \<Rightarrow> \<bar>x1\<bar> \<le> X \<and> \<bar>65536 * y1 - A * x1\<bar> \<le> K)"

locale allpass_bound =
  fixes A X K Y :: int
  assumes coefficient: "0 \<le> A" "A \<le> 65535"
    and in_bound: "0 \<le> X"
    and invariant: "X * (65536 - A) * (65536 + A) + 65536 * 65536 \<le> K * (65536 - A)"
    and out_bound: "K + A * X \<le> 65536 * Y"
    and range: "X + Y \<le> 2147483647"
begin

lemma output_bound:
  assumes "section_ok A X K (x1, y1)"
  shows "\<bar>y1\<bar> \<le> Y"
proof -
  have "\<bar>A * x1\<bar> \<le> A * X" using assms coefficient by (simp add: section_ok_def abs_mult mult_left_mono)
  then have "\<bar>65536 * y1\<bar> \<le> 65536 * Y" using assms out_bound unfolding section_ok_def prod.case by linarith
  then show ?thesis by simp
qed

lemma step_ok:
  assumes ok: "section_ok A X K (x1, y1)" and x: "\<bar>x\<bar> \<le> X"
  shows "section_ok A X K (x, allpass_exact A x y1 x1)"
proof -
  define e where "e = 65536 * y1 - A * x1"
  define r where "r = A * (x - y1) mod 65536"
  have e: "\<bar>e\<bar> \<le> K" and x1: "\<bar>x1\<bar> \<le> X" using ok by (simp_all add: section_ok_def e_def)
  have r: "0 \<le> r" "r < 65536" by (simp_all add: r_def)
  have y: "65536 * allpass_exact A x y1 x1 = 65536 * x1 + (A * (x - y1) - r)"
    unfolding allpass_exact_def r_def by (simp add: minus_mod_eq_mult_div [symmetric] distrib_left)
  have "65536 * (65536 * allpass_exact A x y1 x1 - A * x) = x1 * ((65536 - A) * (65536 + A)) - A * e - 65536 * r"
    unfolding y e_def by (simp add: algebra_simps)
  moreover have "\<bar>A * e\<bar> \<le> A * K" using coefficient e by (simp add: abs_mult mult_left_mono)
  moreover have "\<bar>x1 * ((65536 - A) * (65536 + A))\<bar> \<le> X * ((65536 - A) * (65536 + A))"
    using coefficient x1 by (simp add: abs_mult mult_right_mono)
  moreover have "X * ((65536 - A) * (65536 + A)) + 65536 * 65536 + A * K \<le> 65536 * K"
    using invariant by (simp add: algebra_simps)
  ultimately have "\<bar>65536 * (65536 * allpass_exact A x y1 x1 - A * x)\<bar> \<le> 65536 * K" using r by linarith
  then have "\<bar>65536 * allpass_exact A x y1 x1 - A * x\<bar> \<le> K" by (simp only: abs_mult) simp
  then show ?thesis using x by (simp add: section_ok_def)
qed

lemma value_exact:
  assumes ok: "section_ok A X K (x1, y1)" and x: "\<bar>x\<bar> \<le> X"
  shows "allpass_value A x y1 x1 = allpass_exact A x y1 x1"
proof -
  have b: "\<bar>y1\<bar> \<le> Y" "\<bar>allpass_exact A x y1 x1\<bar> \<le> Y"
    using output_bound [OF ok] output_bound [OF step_ok [OF ok x]] by simp_all
  have d: "\<bar>x - y1\<bar> \<le> 2147483647" using b(1) x range by linarith
  have "is_s32 x" "is_s32 y1" using b(1) x range in_bound by (auto simp: is_s32_def)
  then have "WebRtcSpl_SubSatW32 x y1 = x - y1" using d by (simp add: SubSatW32_clamp clamp_id abs_le_iff)
  moreover have "s32 (allpass_exact A x y1 x1) = allpass_exact A x y1 x1"
    using b(2) range in_bound by (intro s32_id) linarith+
  ultimately show ?thesis using coefficient d
    by (simp add: allpass_value_def SCALEDIFF32_eq is_u16_def is_s32_def abs_le_iff allpass_exact_def shr_def)
qed

lemma run_exact:
  assumes "section_ok A X K s" and "\<forall>x \<in> set xs. \<bar>x\<bar> \<le> X"
  shows "section_run (allpass_value A) s xs = section_run (allpass_exact A) s xs
       \<and> (\<forall>y \<in> set (section_run (allpass_exact A) s xs). \<bar>y\<bar> \<le> Y)
       \<and> section_ok A X K (section_state (allpass_exact A) s xs)"
  using assms
proof (induction xs arbitrary: s)
  case Nil
  then show ?case by (simp add: section_state_def)
next
  case (Cons x xs)
  obtain x1 y1 where s: "s = (x1, y1)" by (cases s)
  let ?y = "allpass_exact A x y1 x1"
  have v: "allpass_value A x y1 x1 = ?y" and ok: "section_ok A X K (x, ?y)"
    using value_exact step_ok Cons.prems unfolding s by auto
  have st: "section_state (allpass_exact A) s (x # xs) = section_state (allpass_exact A) (x, ?y) xs"
    using section_run_append(2) [of "allpass_exact A" s "[x]" xs] by (simp add: s section_state_def Let_def)
  show ?case using Cons.IH [OF ok] Cons.prems(2) output_bound [OF ok] by (simp add: s st [unfolded s] v Let_def)
qed

end

text \<open>Three sections in a row, the bound of each the bound of the next one's input.\<close>

definition chain_ok :: "int list \<Rightarrow> int list \<Rightarrow> int list \<Rightarrow> int list \<Rightarrow> bool" where
  "chain_ok A X K s = (length s = 6 \<and> section_ok (A ! 0) (X ! 0) (K ! 0) (s ! 0, s ! 1)
     \<and> section_ok (A ! 1) (X ! 1) (K ! 1) (s ! 2, s ! 3) \<and> section_ok (A ! 2) (X ! 2) (K ! 2) (s ! 4, s ! 5))"

locale chain_bound =
  fst: allpass_bound A0 X0 K0 X1 + snd: allpass_bound A1 X1 K1 X2 + thd: allpass_bound A2 X2 K2 X3
  for A0 X0 K0 X1 A1 K1 X2 A2 K2 X3
begin

lemma chain_exact:
  assumes s: "chain_ok [A0, A1, A2] [X0, X1, X2] [K0, K1, K2] s" and xs: "\<forall>x \<in> set xs. \<bar>x\<bar> \<le> X0"
  shows "allpass_chain allpass_value [A0, A1, A2] s xs = allpass_chain allpass_exact [A0, A1, A2] s xs"
    and "\<forall>y \<in> set (fst (allpass_chain allpass_exact [A0, A1, A2] s xs)). \<bar>y\<bar> \<le> X3"
    and "chain_ok [A0, A1, A2] [X0, X1, X2] [K0, K1, K2] (snd (allpass_chain allpass_exact [A0, A1, A2] s xs))"
proof -
  have s': "section_ok A0 X0 K0 (s ! 0, s ! 1)" "section_ok A1 X1 K1 (s ! 2, s ! 3)" "section_ok A2 X2 K2 (s ! 4, s ! 5)"
    using s by (simp_all add: chain_ok_def)
  define ys where "ys = section_run (allpass_exact A0) (s ! 0, s ! 1) xs"
  define zs where "zs = section_run (allpass_exact A1) (s ! 2, s ! 3) ys"
  define us where "us = section_run (allpass_exact A2) (s ! 4, s ! 5) zs"
  note 1 = fst.run_exact [OF s'(1) xs, folded ys_def]
  have ys: "\<forall>y \<in> set ys. \<bar>y\<bar> \<le> X1" using 1 by blast
  note 2 = snd.run_exact [OF s'(2) ys, folded zs_def]
  have zs: "\<forall>y \<in> set zs. \<bar>y\<bar> \<le> X2" using 2 by blast
  note 3 = thd.run_exact [OF s'(3) zs, folded us_def]
  have st: "section_state (allpass_value A0) (s ! 0, s ! 1) xs = section_state (allpass_exact A0) (s ! 0, s ! 1) xs"
      "section_state (allpass_value A1) (s ! 2, s ! 3) ys = section_state (allpass_exact A1) (s ! 2, s ! 3) ys"
      "section_state (allpass_value A2) (s ! 4, s ! 5) zs = section_state (allpass_exact A2) (s ! 4, s ! 5) zs"
    using 1 2 3 by (simp_all only: section_state_def ys_def zs_def us_def)
  have e: "allpass_chain allpass_exact [A0, A1, A2] s xs =
      (let (s0, s1) = section_state (allpass_exact A0) (s ! 0, s ! 1) xs;
           (s2, s3) = section_state (allpass_exact A1) (s ! 2, s ! 3) ys;
           (s4, s5) = section_state (allpass_exact A2) (s ! 4, s ! 5) zs
       in (us, [s0, s1, s2, s3, s4, s5]))"
    by (simp add: allpass_chain_def Let_def ys_def zs_def us_def split: prod.splits)
  have v: "allpass_chain allpass_value [A0, A1, A2] s xs = allpass_chain allpass_exact [A0, A1, A2] s xs"
    unfolding e using 1 2 3 by (simp add: allpass_chain_def Let_def st del: One_nat_def split: prod.splits)
  show "allpass_chain allpass_value [A0, A1, A2] s xs = allpass_chain allpass_exact [A0, A1, A2] s xs" by (rule v)
  show "\<forall>y \<in> set (fst (allpass_chain allpass_exact [A0, A1, A2] s xs)). \<bar>y\<bar> \<le> X3"
    unfolding e using 3 by (simp add: Let_def split: prod.splits)
  show "chain_ok [A0, A1, A2] [X0, X1, X2] [K0, K1, K2] (snd (allpass_chain allpass_exact [A0, A1, A2] s xs))"
    unfolding e using 1 2 3 by (auto simp: Let_def chain_ok_def split: prod.splits)
qed

end

interpretation filter1: chain_bound 6418 67108864 4828751272907 80252930 36982 8227370028156 170826476 57261 20976979292402 469340121
  by unfold_locales simp_all
interpretation filter2: chain_bound 21333 67108864 5829680003981 110798850 49062 12697326873012 276692811 63010 35567755783110 808748929
  by unfold_locales simp_all

definition filter1_ok :: "int list \<Rightarrow> bool" where
  "filter1_ok = chain_ok WebRtcSpl_kAllPassFilter1 [67108864, 80252930, 170826476] [4828751272907, 8227370028156, 20976979292402]"

definition filter2_ok :: "int list \<Rightarrow> bool" where
  "filter2_ok = chain_ok WebRtcSpl_kAllPassFilter2 [67108864, 110798850, 276692811] [5829680003981, 12697326873012, 35567755783110]"

lemmas filter1_exact = filter1.chain_exact [folded WebRtcSpl_kAllPassFilter1_def, folded filter1_ok_def]
lemmas filter2_exact = filter2.chain_exact [folded WebRtcSpl_kAllPassFilter2_def, folded filter2_ok_def]


section \<open>Analysis and synthesis of a signal of any length\<close>

definition qmf_split :: "int list \<times> int list \<Rightarrow> int list \<Rightarrow> (int \<times> int) list \<times> int list \<times> int list" where
  "qmf_split st xs =
     (let (s1, s2) = st; n = length xs div 2;
          (us, s1) = allpass_chain allpass_exact WebRtcSpl_kAllPassFilter1 s1 (map (\<lambda>x. 1024 * x) (odds n xs));
          (vs, s2) = allpass_chain allpass_exact WebRtcSpl_kAllPassFilter2 s2 (map (\<lambda>x. 1024 * x) (evens n xs))
      in (map2 (\<lambda>u v. (clamp (-32768) 32767 ((u + v + 1024) div 2048), clamp (-32768) 32767 ((u - v + 1024) div 2048))) us vs,
          s1, s2))"

definition qmf_join :: "int list \<times> int list \<Rightarrow> (int \<times> int) list \<Rightarrow> int list \<times> int list \<times> int list" where
  "qmf_join st bands =
     (let (s1, s2) = st;
          (us, s1) = allpass_chain allpass_exact WebRtcSpl_kAllPassFilter2 s1 (map (\<lambda>(l, h). 1024 * (l + h)) bands);
          (vs, s2) = allpass_chain allpass_exact WebRtcSpl_kAllPassFilter1 s2 (map (\<lambda>(l, h). 1024 * (l - h)) bands)
      in (interleave (map (\<lambda>v. clamp (-32768) 32767 ((v + 512) div 1024)) vs)
                     (map (\<lambda>u. clamp (-32768) 32767 ((u + 512) div 1024)) us), s1, s2))"

interpretation qmf_split: stream_filter qmf_split "\<lambda>(s1, s2). length s1 = 6 \<and> length s2 = 6" 2
proof unfold_locales
  fix s :: "int list \<times> int list" and xs ys :: "int list"
  obtain s1 s2 where s: "s = (s1, s2)" by (cases s)
  { assume "case s of (s1, s2) \<Rightarrow> length s1 = 6 \<and> length s2 = 6"
    then have l: "length s1 = 6" "length s2 = 6" by (simp_all add: s)
    show "qmf_split s [] = ([], s)"
      using chain.empty [OF l(1)] chain.empty [OF l(2)] by (simp add: qmf_split_def s evens_def odds_def)
    show "case snd (qmf_split s xs) of (s1, s2) \<Rightarrow> length s1 = 6 \<and> length s2 = 6"
      by (simp add: qmf_split_def s split_beta Let_def)
    assume "2 dvd length xs"
    then show "qmf_split s (xs @ ys) = (let (us, s) = qmf_split s xs; (vs, s) = qmf_split s ys in (us @ vs, s))"
      by (simp add: qmf_split_def s even_split [unfolded length_append] stream_simps allpass_chain_append) }
qed

interpretation qmf_join: stream_filter qmf_join "\<lambda>(s1, s2). length s1 = 6 \<and> length s2 = 6" 1
proof unfold_locales
  fix s :: "int list \<times> int list" and xs ys :: "(int \<times> int) list"
  obtain s1 s2 where s: "s = (s1, s2)" by (cases s)
  { assume "case s of (s1, s2) \<Rightarrow> length s1 = 6 \<and> length s2 = 6"
    then have l: "length s1 = 6" "length s2 = 6" by (simp_all add: s)
    show "qmf_join s [] = ([], s)"
      using chain.empty [OF l(1)] chain.empty [OF l(2)] by (simp add: qmf_join_def s)
    show "case snd (qmf_join s xs) of (s1, s2) \<Rightarrow> length s1 = 6 \<and> length s2 = 6"
      by (simp add: qmf_join_def s split_beta Let_def)
    show "qmf_join s (xs @ ys) = (let (us, s) = qmf_join s xs; (vs, s) = qmf_join s ys in (us @ vs, s))"
      by (simp add: qmf_join_def s stream_simps allpass_chain_append) }
qed

definition qmf_ok :: "int list \<times> int list \<Rightarrow> bool" where
  "qmf_ok st = (case st of (s1, s2) \<Rightarrow> filter1_ok s1 \<and> filter2_ok s2)"

lemma filter_ok_length: "filter1_ok s \<Longrightarrow> length s = 6" "filter2_ok s \<Longrightarrow> length s = 6"
  by (simp_all add: filter1_ok_def filter2_ok_def chain_ok_def)

lemma qmf_ok_zero: "qmf_ok (replicate 6 0, replicate 6 0)"
  by (simp add: qmf_ok_def filter1_ok_def filter2_ok_def chain_ok_def section_ok_def WebRtcSpl_kAllPassFilter1_def
      WebRtcSpl_kAllPassFilter2_def numeral_eq_Suc)

lemma band_exact:
  assumes "\<bar>u\<bar> \<le> 469340121" and "\<bar>v\<bar> \<le> 808748929"
  shows "WebRtcSpl_SatW32ToW16 (shr (s32 (s32 (u + v) + 1024)) 11) = clamp (-32768) 32767 ((u + v + 1024) div 2048)"
    and "WebRtcSpl_SatW32ToW16 (shr (s32 (s32 (u - v) + 1024)) 11) = clamp (-32768) 32767 ((u - v + 1024) div 2048)"
proof -
  have "s32 (u + v) = u + v" "s32 (u + v + 1024) = u + v + 1024"
    "s32 (u - v) = u - v" "s32 (u - v + 1024) = u - v + 1024"
    using assms by (auto intro!: s32_id)
  then show "WebRtcSpl_SatW32ToW16 (shr (s32 (s32 (u + v) + 1024)) 11) = clamp (-32768) 32767 ((u + v + 1024) div 2048)"
    and "WebRtcSpl_SatW32ToW16 (shr (s32 (s32 (u - v) + 1024)) 11) = clamp (-32768) 32767 ((u - v + 1024) div 2048)"
    by (simp_all add: SatW32ToW16_clamp shr_def)
qed

lemma q10_exact: "\<bar>x\<bar> \<le> 65536 \<Longrightarrow> s32 (shl x 10) = 1024 * x \<and> \<bar>1024 * x\<bar> \<le> 67108864"
  using s32_id [of "1024 * x"] by (auto simp: shl_def mult.commute)

lemma branch1_exact:
  assumes "filter1_ok s" and "\<forall>x \<in> set xs. \<bar>x\<bar> \<le> 67108864" and "length xs = n" and "0 < n" and "n \<le> length junk"
  obtains us t where "snd (WebRtcSpl_AllPassQMF xs n (take n junk) WebRtcSpl_kAllPassFilter1 s) = (us, t)"
    and "allpass_chain allpass_exact WebRtcSpl_kAllPassFilter1 s xs = (us, t)"
    and "length us = n" and "\<forall>u \<in> set us. \<bar>u\<bar> \<le> 469340121" and "filter1_ok t"
proof -
  obtain us t where us: "allpass_chain allpass_exact WebRtcSpl_kAllPassFilter1 s xs = (us, t)" by (rule prod.exhaust)
  note e = filter1_exact [OF assms(1,2), unfolded us fst_conv snd_conv]
  have "snd (WebRtcSpl_AllPassQMF xs n (take n junk) WebRtcSpl_kAllPassFilter1 s) = (us, t)"
    using assms(3-5) filter_ok_length(1) [OF assms(1)] by (subst AllPassQMF_chain) (auto simp: e(1))
  moreover have "length us = n"
    using length_allpass_chain(1) [of allpass_exact WebRtcSpl_kAllPassFilter1 s xs] by (simp add: us assms(3))
  ultimately show thesis using that us e(2,3) by blast
qed

lemma branch2_exact:
  assumes "filter2_ok s" and "\<forall>x \<in> set xs. \<bar>x\<bar> \<le> 67108864" and "length xs = n" and "0 < n" and "n \<le> length junk"
  obtains us t where "snd (WebRtcSpl_AllPassQMF xs n (take n junk) WebRtcSpl_kAllPassFilter2 s) = (us, t)"
    and "allpass_chain allpass_exact WebRtcSpl_kAllPassFilter2 s xs = (us, t)"
    and "length us = n" and "\<forall>u \<in> set us. \<bar>u\<bar> \<le> 808748929" and "filter2_ok t"
proof -
  obtain us t where us: "allpass_chain allpass_exact WebRtcSpl_kAllPassFilter2 s xs = (us, t)" by (rule prod.exhaust)
  note e = filter2_exact [OF assms(1,2), unfolded us fst_conv snd_conv]
  have "snd (WebRtcSpl_AllPassQMF xs n (take n junk) WebRtcSpl_kAllPassFilter2 s) = (us, t)"
    using assms(3-5) filter_ok_length(2) [OF assms(1)] by (subst AllPassQMF_chain) (auto simp: e(1))
  moreover have "length us = n"
    using length_allpass_chain(1) [of allpass_exact WebRtcSpl_kAllPassFilter2 s xs] by (simp add: us assms(3))
  ultimately show thesis using that us e(2,3) by blast
qed

lemma analysis_exact:
  assumes xs: "\<forall>x \<in> set xs. is_s16 x" "even (length xs)" "0 < length xs" "length xs \<le> 480"
    and junk: "240 \<le> length junk" and st: "qmf_ok st"
  shows "WebRtcSpl_AnalysisQMF junk xs (fst st) (snd st) =
           (let (bands, s1, s2) = qmf_split st xs in Some (map fst bands, map snd bands, s1, s2))
       \<and> qmf_ok (snd (qmf_split st xs))"
proof -
  obtain s1 s2 where s: "st = (s1, s2)" by (cases st)
  have ok: "filter1_ok s1" "filter2_ok s2" using st by (simp_all add: qmf_ok_def s)
  obtain n where n: "length xs = 2 * n" using xs(2) by (elim evenE)
  then have n': "0 < n" "n \<le> 240" "length xs div 2 = n" "n \<le> length junk" using xs junk by auto
  define i1 where "i1 = map (\<lambda>x. 1024 * x) (odds n xs)"
  define i2 where "i2 = map (\<lambda>x. 1024 * x) (evens n xs)"
  have s16: "\<bar>xs ! (2 * i)\<bar> \<le> 65536" "\<bar>xs ! (2 * i + 1)\<bar> \<le> 65536" if "i < n" for i
  proof -
    have "is_s16 (xs ! (2 * i))" "is_s16 (xs ! (2 * i + 1))" using that n xs(1) by (simp_all add: nth_mem)
    then show "\<bar>xs ! (2 * i)\<bar> \<le> 65536" "\<bar>xs ! (2 * i + 1)\<bar> \<le> 65536" by (auto simp: is_s16_def)
  qed
  have h: "map (\<lambda>i. s32 (shl (xs ! (2 * i + 1)) 10)) [0..<n] = i1" "map (\<lambda>i. s32 (shl (xs ! (2 * i)) 10)) [0..<n] = i2"
    using q10_exact [OF s16(1)] q10_exact [OF s16(2)] by (simp_all add: i1_def odds_def i2_def evens_def)
  have b: "\<forall>x \<in> set i1. \<bar>x\<bar> \<le> 67108864" "\<forall>x \<in> set i2. \<bar>x\<bar> \<le> 67108864"
    using q10_exact [OF s16(1)] q10_exact [OF s16(2)] by (auto simp: i1_def i2_def odds_def evens_def)
  have l: "length i1 = n" "length i2 = n" by (simp_all add: i1_def i2_def)
  obtain us t1 where us: "snd (WebRtcSpl_AllPassQMF i1 n (take n junk) WebRtcSpl_kAllPassFilter1 s1) = (us, t1)"
      "allpass_chain allpass_exact WebRtcSpl_kAllPassFilter1 s1 i1 = (us, t1)" "length us = n"
      "\<forall>u \<in> set us. \<bar>u\<bar> \<le> 469340121" "filter1_ok t1"
    by (rule branch1_exact [OF ok(1) b(1) l(1) n'(1,4)])
  obtain vs t2 where vs: "snd (WebRtcSpl_AllPassQMF i2 n (take n junk) WebRtcSpl_kAllPassFilter2 s2) = (vs, t2)"
      "allpass_chain allpass_exact WebRtcSpl_kAllPassFilter2 s2 i2 = (vs, t2)" "length vs = n"
      "\<forall>v \<in> set vs. \<bar>v\<bar> \<le> 808748929" "filter2_ok t2"
    by (rule branch2_exact [OF ok(2) b(2) l(2) n'(1,4)])
  have r: "qmf_split st xs =
      (map2 (\<lambda>u v. (clamp (-32768) 32767 ((u + v + 1024) div 2048), clamp (-32768) 32767 ((u - v + 1024) div 2048))) us vs, t1, t2)"
    by (simp add: qmf_split_def s us(2) vs(2) Let_def n'(3) flip: i1_def i2_def)
  have g: "\<bar>us ! i\<bar> \<le> 469340121" "\<bar>vs ! i\<bar> \<le> 808748929" if "i < n" for i using that us vs by (simp_all add: nth_mem)
  let ?bands = "map2 (\<lambda>u v. (clamp (-32768) 32767 ((u + v + 1024) div 2048), clamp (-32768) 32767 ((u - v + 1024) div 2048))) us vs"
  have m: "map (\<lambda>i. WebRtcSpl_SatW32ToW16 (shr (s32 (s32 (us ! i + vs ! i) + 1024)) 11)) [0..<n] = map fst ?bands"
      "map (\<lambda>i. WebRtcSpl_SatW32ToW16 (shr (s32 (s32 (us ! i - vs ! i) + 1024)) 11)) [0..<n] = map snd ?bands"
    using us(3) vs(3) g by (simp_all add: list_eq_iff_nth_eq band_exact)
  show ?thesis unfolding WebRtcSpl_AnalysisQMF_def r Let_def n'(3) h using n'(1,2) us(1,5) vs(1,5)
    by (simp add: kMaxBandFrameLength_def qmf_ok_def s split_beta m del: map_map)
qed

lemma sample_exact:
  "\<bar>u\<bar> \<le> 808748929 \<Longrightarrow> WebRtcSpl_SatW32ToW16 (shr (s32 (u + 512)) 10) = clamp (-32768) 32767 ((u + 512) div 1024)"
  by (subst s32_id) (auto simp: SatW32ToW16_clamp shr_def)

lemma synthesis_exact:
  assumes bands: "\<forall>(l, h) \<in> set bands. is_s16 l \<and> is_s16 h" "0 < length bands" "length bands \<le> 240"
    and junk: "240 \<le> length junk" and st: "qmf_ok (snd st, fst st)"
  shows "WebRtcSpl_SynthesisQMF junk (map fst bands) (map snd bands) (length bands) (fst st) (snd st) = Some (qmf_join st bands)
       \<and> qmf_ok (prod.swap (snd (qmf_join st bands)))"
proof -
  obtain s1 s2 where s: "st = (s1, s2)" by (cases st)
  have ok: "filter2_ok s1" "filter1_ok s2" using st by (simp_all add: qmf_ok_def s)
  define n where "n = length bands"
  have n: "0 < n" "n \<le> 240" "n \<le> length junk" using bands junk by (auto simp: n_def)
  define i1 where "i1 = map (\<lambda>(l, h). 1024 * (l + h)) bands"
  define i2 where "i2 = map (\<lambda>(l, h). 1024 * (l - h)) bands"
  have s16: "\<bar>fst b + snd b\<bar> \<le> 65536" "\<bar>fst b - snd b\<bar> \<le> 65536" if "b \<in> set bands" for b
    using that bands(1) by (auto simp: is_s16_def split_beta)
  note q = q10_exact [OF s16(1), THEN conjunct1] q10_exact [OF s16(2), THEN conjunct1]
  have h: "map (\<lambda>i. s32 (shl (map fst bands ! i + map snd bands ! i) 10)) [0..<n] = i1"
    by (rule nth_equalityI) (simp_all add: i1_def n_def split_beta q(1) del: distrib_left_numeral)
  have h': "map (\<lambda>i. s32 (shl (map fst bands ! i - map snd bands ! i) 10)) [0..<n] = i2"
    by (rule nth_equalityI) (simp_all add: i2_def n_def split_beta q(2) del: right_diff_distrib_numeral)
  have b: "\<forall>x \<in> set i1. \<bar>x\<bar> \<le> 67108864"
    using q10_exact [OF s16(1), THEN conjunct2] by (simp add: i1_def split_beta del: distrib_left_numeral)
  have b': "\<forall>x \<in> set i2. \<bar>x\<bar> \<le> 67108864"
    using q10_exact [OF s16(2), THEN conjunct2] by (simp add: i2_def split_beta del: right_diff_distrib_numeral)
  have l: "length i1 = n" "length i2 = n" by (simp_all add: i1_def i2_def n_def)
  obtain us t1 where us: "snd (WebRtcSpl_AllPassQMF i1 n (take n junk) WebRtcSpl_kAllPassFilter2 s1) = (us, t1)"
      "allpass_chain allpass_exact WebRtcSpl_kAllPassFilter2 s1 i1 = (us, t1)" "length us = n"
      "\<forall>u \<in> set us. \<bar>u\<bar> \<le> 808748929" "filter2_ok t1"
    by (rule branch2_exact [OF ok(1) b l(1) n(1,3)])
  obtain vs t2 where vs: "snd (WebRtcSpl_AllPassQMF i2 n (take n junk) WebRtcSpl_kAllPassFilter1 s2) = (vs, t2)"
      "allpass_chain allpass_exact WebRtcSpl_kAllPassFilter1 s2 i2 = (vs, t2)" "length vs = n"
      "\<forall>v \<in> set vs. \<bar>v\<bar> \<le> 469340121" "filter1_ok t2"
    by (rule branch1_exact [OF ok(2) b' l(2) n(1,3)])
  let ?f = "\<lambda>u. clamp (-32768) 32767 ((u + 512) div 1024)"
  have r: "qmf_join st bands = (interleave (map ?f vs) (map ?f us), t1, t2)"
    unfolding qmf_join_def s by (simp add: us(2) vs(2) flip: i1_def i2_def del: distrib_left_numeral right_diff_distrib_numeral)
  have g: "\<bar>us ! i\<bar> \<le> 808748929" "\<bar>vs ! i\<bar> \<le> 808748929" if "i < n" for i
    using that us(3,4) vs(3,4) nth_mem [of i us] nth_mem [of i vs] by fastforce+
  have m: "map (\<lambda>i. [WebRtcSpl_SatW32ToW16 (shr (s32 (vs ! i + 512)) 10), WebRtcSpl_SatW32ToW16 (shr (s32 (us ! i + 512)) 10)]) [0..<n]
      = map2 (\<lambda>x y. [x, y]) (map ?f vs) (map ?f us)"
    using us(3) vs(3) g by (simp add: list_eq_iff_nth_eq sample_exact)
  show ?thesis unfolding WebRtcSpl_SynthesisQMF_def r Let_def n_def [symmetric] h h' using n(1,2) us(1,5) vs(1,5)
    by (simp add: kMaxBandFrameLength_def qmf_ok_def s split_beta m interleave_def del: map_map)
qed

section \<open>Frame by frame\<close>

fun analysis_frames :: "int list \<Rightarrow> int list \<times> int list \<Rightarrow> int list list \<Rightarrow> (int list \<times> int list \<times> int list \<times> int list) option" where
  "analysis_frames junk st [] = Some ([], [], fst st, snd st)"
| "analysis_frames junk st (xs # xss) =
     (case WebRtcSpl_AnalysisQMF junk xs (fst st) (snd st) of
        None \<Rightarrow> None
      | Some (low, high, s1, s2) \<Rightarrow>
          map_option (\<lambda>(lows, highs, st). (low @ lows, high @ highs, st)) (analysis_frames junk (s1, s2) xss))"

fun synthesis_frames :: "int list \<Rightarrow> int list \<times> int list \<Rightarrow> (int \<times> int) list list \<Rightarrow> (int list \<times> int list \<times> int list) option" where
  "synthesis_frames junk st [] = Some ([], st)"
| "synthesis_frames junk st (bands # bss) =
     (case WebRtcSpl_SynthesisQMF junk (map fst bands) (map snd bands) (length bands) (fst st) (snd st) of
        None \<Rightarrow> None
      | Some (out, st) \<Rightarrow> map_option (\<lambda>(outs, st). (out @ outs, st)) (synthesis_frames junk st bss))"

lemma analysis_frames_feed:
  assumes "\<forall>xs \<in> set xss. (\<forall>x \<in> set xs. is_s16 x) \<and> even (length xs) \<and> 0 < length xs \<and> length xs \<le> 480"
    and "240 \<le> length junk" and "qmf_ok st"
  shows "analysis_frames junk st xss =
           (let (bands, s1, s2) = feed_blocks qmf_split st xss in Some (map fst bands, map snd bands, s1, s2))
       \<and> qmf_ok (snd (feed_blocks qmf_split st xss))"
  using assms
proof (induction xss arbitrary: st)
  case (Cons xs xss)
  obtain bands s1 s2 where q: "qmf_split st xs = (bands, s1, s2)" by (metis prod_cases3)
  have e: "WebRtcSpl_AnalysisQMF junk xs (fst st) (snd st) = Some (map fst bands, map snd bands, s1, s2)" "qmf_ok (s1, s2)"
    using analysis_exact [of xs junk st] Cons.prems by (auto simp: q)
  show ?case using Cons.IH [OF _ assms(2) e(2)] Cons.prems(1) by (auto simp: e(1) q split_beta Let_def)
qed (simp add: split_beta)

lemma synthesis_frames_feed:
  assumes "\<forall>bands \<in> set bss. (\<forall>(l, h) \<in> set bands. is_s16 l \<and> is_s16 h) \<and> 0 < length bands \<and> length bands \<le> 240"
    and "240 \<le> length junk" and "qmf_ok (prod.swap st)"
  shows "synthesis_frames junk st bss = Some (feed_blocks qmf_join st bss)
       \<and> qmf_ok (prod.swap (snd (feed_blocks qmf_join st bss)))"
  using assms
proof (induction bss arbitrary: st)
  case (Cons bands bss)
  obtain out t where q: "qmf_join st bands = (out, t)" by (rule prod.exhaust)
  have e: "WebRtcSpl_SynthesisQMF junk (map fst bands) (map snd bands) (length bands) (fst st) (snd st) = Some (out, t)"
      "qmf_ok (prod.swap t)"
    using synthesis_exact [of bands junk st] Cons.prems by (auto simp: q prod.swap_def)
  show ?case using Cons.IH [OF _ assms(2) e(2)] Cons.prems(1) by (auto simp: e(1) q split_beta Let_def)
qed simp

lemma qmf_ok_length: "qmf_ok st \<Longrightarrow> case st of (s1, s2) \<Rightarrow> length s1 = 6 \<and> length s2 = 6"
  by (auto simp: qmf_ok_def filter_ok_length)

text \<open>
  C15. Splitting a signal of 16 bit samples into two bands frame by frame, with the filter states handed from call to call,
  is splitting the whole signal, for any division into frames of even length up to 480; the result is the one of the
  exact all-pass recursions (nothing saturates or wraps in 32 bits), rounded and clamped once; the states stay in
  the invariant \<open>qmf_ok\<close>, which the zero states satisfy.
\<close>

theorem AnalysisQMF_seamless:
  assumes "\<forall>xs \<in> set xss. (\<forall>x \<in> set xs. is_s16 x) \<and> even (length xs) \<and> 0 < length xs \<and> length xs \<le> 480"
    and "240 \<le> length junk" and "qmf_ok st"
  shows "analysis_frames junk st xss =
           (let (bands, s1, s2) = qmf_split st (concat xss) in Some (map fst bands, map snd bands, s1, s2))
       \<and> qmf_ok (snd (qmf_split st (concat xss)))"
  using analysis_frames_feed [OF assms] qmf_split.blocks [OF qmf_ok_length [OF assms(3)], of xss] assms(1) by simp

lemma AnalysisQMF_seamless_witness:
  "analysis_frames (replicate 240 7) (replicate 6 0, replicate 6 0) [[100, -200], [32767, -32768, 5, 6]] =
     (let (bands, s1, s2) = qmf_split (replicate 6 0, replicate 6 0) [100, -200, 32767, -32768, 5, 6]
      in Some (map fst bands, map snd bands, s1, s2))"
  using AnalysisQMF_seamless [of "[[100, -200], [32767, -32768, 5, 6]]" "replicate 240 7", OF _ _ qmf_ok_zero]
  by (simp add: is_s16_def)

text \<open>
  C16. Joining the bands frame by frame is joining the whole bands, exactly: no overflow or saturation of an intermediate value
  for any 16 bit bands, one rounding and clamping per output sample, and the states stay in their invariant.
\<close>

theorem SynthesisQMF_seamless:
  assumes "\<forall>bands \<in> set bss. (\<forall>(l, h) \<in> set bands. is_s16 l \<and> is_s16 h) \<and> 0 < length bands \<and> length bands \<le> 240"
    and "240 \<le> length junk" and "qmf_ok (prod.swap st)"
  shows "synthesis_frames junk st bss = Some (qmf_join st (concat bss))
       \<and> qmf_ok (prod.swap (snd (qmf_join st (concat bss))))"
proof -
  have "case st of (s1, s2) \<Rightarrow> length s1 = 6 \<and> length s2 = 6" using qmf_ok_length [OF assms(3)] by (cases st) simp
  from qmf_join.blocks [OF this, of bss] show ?thesis using synthesis_frames_feed [OF assms] by simp
qed

lemma SynthesisQMF_seamless_witness:
  "synthesis_frames (replicate 240 7) (replicate 6 0, replicate 6 0) [[(100, -200)], [(32767, -32768), (5, 6)]] =
     Some (qmf_join (replicate 6 0, replicate 6 0) [(100, -200), (32767, -32768), (5, 6)])"
  using SynthesisQMF_seamless [of "[[(100, -200)], [(32767, -32768), (5, 6)]]" "replicate 240 7" "(replicate 6 0, replicate 6 0)"]
    qmf_ok_zero by (simp add: is_s16_def)

end
