(* ===== verification/Spl_Lpc.thy ===== *)
theory Spl_Lpc
  imports Spl_Math
begin

text \<open>
  Linear prediction and the remaining small files of the SPL: \<open>levinson_durbin.c\<close>, \<open>lpc_to_refl_coef.c\<close>,
  \<open>refl_coef_to_lpc.c\<close>, \<open>auto_corr_to_refl_coef.c\<close>, \<open>sqrt_of_one_minus_x_squared.c\<close>, \<open>get_hanning_window.c\<close>,
  \<open>ilbc_specific_functions.c\<close>. Arrays on the stack are lists of their size whose first values are arguments (\<open>junk\<close>); a call
  that would leave one of them is \<open>None\<close>.
\<close>

section \<open>Vector functions for iLBC\<close>

definition WebRtcSpl_ReverseOrderMultArrayElements :: "int list \<Rightarrow> int list \<Rightarrow> nat \<Rightarrow> int \<Rightarrow> nat \<Rightarrow> int list" where
  "WebRtcSpl_ReverseOrderMultArrayElements inp win win_pos vector_length right_shifts =
     map (\<lambda>i. s16 (WEBRTC_SPL_MUL_16_16_RSFT (inp ! i) (win ! (win_pos - i)) right_shifts)) [0..<nat vector_length]"

definition WebRtcSpl_ElementwiseVectorMult :: "int list \<Rightarrow> int list \<Rightarrow> int \<Rightarrow> nat \<Rightarrow> int list" where
  "WebRtcSpl_ElementwiseVectorMult inp win vector_length right_shifts =
     map (\<lambda>i. s16 (WEBRTC_SPL_MUL_16_16_RSFT (inp ! i) (win ! i) right_shifts)) [0..<nat vector_length]"

definition WebRtcSpl_AddVectorsAndShift :: "int list \<Rightarrow> int list \<Rightarrow> int \<Rightarrow> nat \<Rightarrow> int list" where
  "WebRtcSpl_AddVectorsAndShift in1 in2 vector_length right_shifts =
     map (\<lambda>i. s16 (shr (in1 ! i + in2 ! i) right_shifts)) [0..<nat vector_length]"

definition WebRtcSpl_AddAffineVectorToVector :: "int list \<Rightarrow> int list \<Rightarrow> int \<Rightarrow> int \<Rightarrow> nat \<Rightarrow> int \<Rightarrow> int list" where
  "WebRtcSpl_AddAffineVectorToVector out inp gain add_constant right_shifts vector_length =
     fold (\<lambda>i out. out[i := s16 (out ! i + s16 (shr (s32 (WEBRTC_SPL_MUL_16_16 (inp ! i) gain + add_constant)) right_shifts))])
       [0..<nat vector_length] out"

definition WebRtcSpl_AffineTransformVector :: "int list \<Rightarrow> int \<Rightarrow> int \<Rightarrow> nat \<Rightarrow> int \<Rightarrow> int list" where
  "WebRtcSpl_AffineTransformVector inp gain add_constant right_shifts vector_length =
     map (\<lambda>i. s16 (shr (s32 (WEBRTC_SPL_MUL_16_16 (inp ! i) gain + add_constant)) right_shifts)) [0..<nat vector_length]"

section \<open>Square root of one minus the square\<close>

definition WebRtcSpl_SqrtOfOneMinusXSquared :: "int list \<Rightarrow> int \<Rightarrow> int list" where
  "WebRtcSpl_SqrtOfOneMinusXSquared xQ15 vector_length =
     map (\<lambda>m. let tmp = xQ15 ! m; sq = WEBRTC_SPL_MUL_16_16 tmp tmp; sq = s32 (1073741823 - sq) in s16 (WebRtcSpl_Sqrt sq))
       [0..<nat vector_length]"

section \<open>Hanning window\<close>

definition kHanningTable :: "int list" where
  "kHanningTable =
    [1, 2, 6, 10, 15, 22, 30, 39, 50, 62, 75, 89, 104, 121, 138, 157,
     178, 199, 222, 246, 271, 297, 324, 353, 383, 413, 446, 479, 513, 549, 586, 624,
     663, 703, 744, 787, 830, 875, 920, 967, 1015, 1064, 1114, 1165, 1218, 1271, 1325, 1381,
     1437, 1494, 1553, 1612, 1673, 1734, 1796, 1859, 1924, 1989, 2055, 2122, 2190, 2259, 2329, 2399,
     2471, 2543, 2617, 2691, 2765, 2841, 2918, 2995, 3073, 3152, 3232, 3312, 3393, 3475, 3558, 3641,
     3725, 3809, 3895, 3980, 4067, 4154, 4242, 4330, 4419, 4509, 4599, 4689, 4781, 4872, 4964, 5057,
     5150, 5244, 5338, 5432, 5527, 5622, 5718, 5814, 5910, 6007, 6104, 6202, 6299, 6397, 6495, 6594,
     6693, 6791, 6891, 6990, 7090, 7189, 7289, 7389, 7489, 7589, 7690, 7790, 7890, 7991, 8091, 8192,
     8293, 8393, 8494, 8594, 8694, 8795, 8895, 8995, 9095, 9195, 9294, 9394, 9493, 9593, 9691, 9790,
     9889, 9987, 10085, 10182, 10280, 10377, 10474, 10570, 10666, 10762, 10857, 10952, 11046, 11140, 11234, 11327,
     11420, 11512, 11603, 11695, 11785, 11875, 11965, 12054, 12142, 12230, 12317, 12404, 12489, 12575, 12659, 12743,
     12826, 12909, 12991, 13072, 13152, 13232, 13311, 13389, 13466, 13543, 13619, 13693, 13767, 13841, 13913, 13985,
     14055, 14125, 14194, 14262, 14329, 14395, 14460, 14525, 14588, 14650, 14711, 14772, 14831, 14890, 14947, 15003,
     15059, 15113, 15166, 15219, 15270, 15320, 15369, 15417, 15464, 15509, 15554, 15597, 15640, 15681, 15721, 15760,
     15798, 15835, 15871, 15905, 15938, 15971, 16001, 16031, 16060, 16087, 16113, 16138, 16162, 16185, 16206, 16227,
     16246, 16263, 16280, 16295, 16309, 16322, 16334, 16345, 16354, 16362, 16369, 16374, 16378, 16382, 16383, 16384]"

text \<open>The loop, for the remaining number of values; \<open>None\<close> where the table is read out of bounds.\<close>

fun hanning_loop :: "nat \<Rightarrow> int \<Rightarrow> int \<Rightarrow> int list option" where
  "hanning_loop 0 index factor = Some []"
| "hanning_loop (Suc n) index factor =
     (let index = s32 (index + factor); i = shr index 22
      in if 0 \<le> i \<and> i < int (length kHanningTable)
         then map_option (\<lambda>v. kHanningTable ! nat i # v) (hanning_loop n index factor) else None)"

definition WebRtcSpl_GetHanningWindow :: "int \<Rightarrow> int list option" where
  "WebRtcSpl_GetHanningWindow win_size =
     (let factor = WebRtcSpl_DivW32W16 0x40000000 win_size;
          index = (if win_size < 513 then -0x200000 else -0x100000)
      in hanning_loop (nat win_size) index factor)"

section \<open>From autocorrelation to reflection coefficients\<close>

definition WEBRTC_SPL_MAX_LPC_ORDER :: nat where "WEBRTC_SPL_MAX_LPC_ORDER = 14"

text \<open>One round of the division loop, on \<open>(*K, L_num)\<close>.\<close>

definition refl_div_step :: "int \<Rightarrow> int \<times> int \<Rightarrow> int \<times> int" where
  "refl_div_step L_den st =
     (let K = s16 (shl (fst st) 1); L_num = s32 (shl (snd st) 1)
      in if L_num \<ge> L_den then (s16 (K + 1), s32 (L_num - L_den)) else (K, L_num))"

definition refl_coef :: "int \<Rightarrow> int \<Rightarrow> int" where
  "refl_coef P0 P1 =
     (let tmp = s16 (WEBRTC_SPL_ABS_W16 P1);
          K = (if tmp \<noteq> 0 then fst ((refl_div_step P0 ^^ 15) (0, tmp)) else 0)
      in if tmp \<noteq> 0 \<and> P1 > 0 then s16 (- K) else K)"

definition schur_step :: "int \<Rightarrow> nat \<Rightarrow> int list \<times> int list \<Rightarrow> int list \<times> int list" where
  "schur_step K i st =
     (let (P, W) = st;
          tmp = s16 (shr (s32 (s32 (W ! i * K) + 16384)) 15);
          P = P[i := WebRtcSpl_AddSatW16 (P ! (i + 1)) tmp];
          tmp = s16 (shr (s32 (s32 (P ! (i + 1) * K) + 16384)) 15);
          W = W[i := WebRtcSpl_AddSatW16 (W ! i) tmp]
      in (P, W))"

text \<open>The outer loop with \<open>m = use_order - n + 1\<close> rounds to go: the coefficients written from \<open>K\<close> on.\<close>

fun refl_loop :: "nat \<Rightarrow> int list \<times> int list \<Rightarrow> int list" where
  "refl_loop 0 st = []"
| "refl_loop (Suc m) st =
     (let (P, W) = st; tmp = s16 (WEBRTC_SPL_ABS_W16 (P ! 1))
      in if P ! 0 < tmp then replicate (Suc m) 0
         else let K = refl_coef (P ! 0) (P ! 1);
                  tmp = s16 (shr (s32 (s32 (P ! 1 * K) + 16384)) 15);
                  P = P[0 := WebRtcSpl_AddSatW16 (P ! 0) tmp]
              in K # refl_loop m (fold (schur_step K) [1..<Suc m] (P, W)))"

definition WebRtcSpl_AutoCorrToReflCoef :: "int list \<Rightarrow> int list \<Rightarrow> int list \<Rightarrow> nat \<Rightarrow> int list option" where
  "WebRtcSpl_AutoCorrToReflCoef P W R use_order =
     (if use_order \<ge> WEBRTC_SPL_MAX_LPC_ORDER then None
      else let tmp = s16 (WebRtcSpl_NormW32 (R ! 0));
               acf = map (\<lambda>i. s16 (shr (s32 (shl (R ! i) (nat tmp))) 16)) [0..<use_order + 1];
               P = fold (\<lambda>i P. P[i := acf ! i]) [0..<use_order + 1] P;
               W = fold (\<lambda>i W. W[i := acf ! i]) [1..<use_order + 1] W
           in Some (refl_loop use_order (P, W)))"

section \<open>Between reflection coefficients and prediction coefficients\<close>

definition WebRtcSpl_ReflCoefToLpc :: "int list \<Rightarrow> nat \<Rightarrow> int list \<Rightarrow> int list \<Rightarrow> int list option" where
  "WebRtcSpl_ReflCoefToLpc k use_order a any =
     (if use_order > WEBRTC_SPL_MAX_LPC_ORDER then None
      else let a = a[0 := 4096]; any = any[0 := a ! 0]; a = a[1 := s16 (shr (k ! 0) 3)]
           in Some (fst (fold (\<lambda>m (a, any).
               let any = any[m + 1 := s16 (shr (k ! m) 3)];
                   any = fold (\<lambda>i any. any[i + 1 := s16 (a ! (i + 1)
                       + s16 (WEBRTC_SPL_MUL_16_16_RSFT (a ! (m - i)) (k ! m) 15))]) [0..<m] any;
                   a = fold (\<lambda>i a. a[i := any ! i]) [0..<m + 2] a
               in (a, any)) [1..<use_order] (a, any))))"

definition SPL_LPC_TO_REFL_COEF_MAX_AR_MODEL_ORDER :: nat where "SPL_LPC_TO_REFL_COEF_MAX_AR_MODEL_ORDER = 50"

text \<open>One round of the outer loop of \<open>WebRtcSpl_LpcToReflCoef\<close>, which counts \<open>m\<close> down.\<close>

definition lpc_step_down :: "nat \<Rightarrow> int list \<times> int list \<times> int list \<Rightarrow> int list \<times> int list \<times> int list" where
  "lpc_step_down m st =
     (let (a16, k16, tmp32) = st;
          tmp_inv_denom32 = s32 (1073741823 - WEBRTC_SPL_MUL_16_16 (k16 ! m) (k16 ! m));
          tmp_inv_denom16 = s16 (shr tmp_inv_denom32 15);
          tmp32 = fold (\<lambda>k tmp32. tmp32[k := WebRtcSpl_DivW32W16
                (s32 (s32 (shl (a16 ! k) 16) - s32 (shl (WEBRTC_SPL_MUL_16_16 (k16 ! m) (a16 ! (m - k + 1))) 1)))
                tmp_inv_denom16]) [1..<m + 1] tmp32;
          a16 = fold (\<lambda>k a16. a16[k := s16 (shr (tmp32 ! k) 1)]) [1..<m] a16;
          tmp32 = tmp32[m := WEBRTC_SPL_SAT 8191 (tmp32 ! m) (-8191)];
          k16 = k16[m - 1 := s16 (s32 (shl (tmp32 ! m) 2))]
      in (a16, k16, tmp32))"

definition WebRtcSpl_LpcToReflCoef :: "int list \<Rightarrow> int list \<Rightarrow> nat \<Rightarrow> int list \<Rightarrow> (int list \<times> int list) option" where
  "WebRtcSpl_LpcToReflCoef tmp32 a16 use_order k16 =
     (if use_order = 0 \<or> use_order > SPL_LPC_TO_REFL_COEF_MAX_AR_MODEL_ORDER then None
      else let k16 = k16[use_order - 1 := s16 (shl (a16 ! use_order) 3)];
               (a16, k16, tmp32) = fold lpc_step_down (rev [1..<use_order]) (a16, k16, tmp32)
           in Some (a16, k16))"

section \<open>The Levinson-Durbin recursion\<close>

definition SPL_LEVINSON_MAXORDER :: nat where "SPL_LEVINSON_MAXORDER = 20"

text \<open>A value in two halves: the upper 16 bits, and the lower 16 bits shifted right by one; and the value of two halves.\<close>

definition hi_half :: "int \<Rightarrow> int" where "hi_half x = s16 (shr x 16)"
definition low_half :: "int \<Rightarrow> int" where "low_half x = s16 (shr (s32 (x - s32 (shl (hi_half x) 16))) 1)"
definition of_halves :: "int \<Rightarrow> int \<Rightarrow> int" where "of_halves hi low = s32 (s32 (shl hi 16) + s32 (shl low 1))"

text \<open>Product of two values in halves, in Q31; one minus the square of the reflection coefficient.\<close>

definition mul_halves :: "int \<Rightarrow> int \<Rightarrow> int \<Rightarrow> int \<Rightarrow> int" where
  "mul_halves a_hi a_low b_hi b_low =
     s32 (shl (s32 (s32 (WEBRTC_SPL_MUL_16_16 a_hi b_hi + shr (WEBRTC_SPL_MUL_16_16 a_hi b_low) 15)
       + shr (WEBRTC_SPL_MUL_16_16 a_low b_hi) 15)) 1)"

definition one_minus_square :: "int \<Rightarrow> int \<Rightarrow> int" where
  "one_minus_square K_hi K_low =
     (let temp1W32 = s32 (shl (s32 (shr (WEBRTC_SPL_MUL_16_16 K_hi K_low) 14 + WEBRTC_SPL_MUL_16_16 K_hi K_hi)) 1);
          temp1W32 = WEBRTC_SPL_ABS_W32 temp1W32
      in s32 (0x7fffffff - temp1W32))"

record levinson =
  A_hi :: "int list"
  A_low :: "int list"
  A_upd_hi :: "int list"
  A_upd_low :: "int list"
  Alpha_hi :: int
  Alpha_low :: int
  Alpha_exp :: int

text \<open>The new value of \<open>Alpha\<close> and its normalisation.\<close>

definition update_alpha :: "int \<Rightarrow> int \<Rightarrow> int \<Rightarrow> int \<Rightarrow> int \<times> int \<times> int" where
  "update_alpha a_hi a_low K_hi K_low =
     (let temp1W32 = one_minus_square K_hi K_low;
          tmp_hi = hi_half temp1W32;
          tmp_low = low_half temp1W32;
          temp1W32 = mul_halves a_hi a_low tmp_hi tmp_low;
          norm = s16 (WebRtcSpl_NormW32 temp1W32);
          temp1W32 = s32 (shl temp1W32 (nat norm))
      in (hi_half temp1W32, low_half temp1W32, norm))"

text \<open>The reflection coefficient of round \<open>i\<close>, in Q31.\<close>

definition levinson_coef :: "int list \<Rightarrow> int list \<Rightarrow> nat \<Rightarrow> levinson \<Rightarrow> int" where
  "levinson_coef R_hi R_low i st =
     (let temp1W32 = fold (\<lambda>j temp1W32. s32 (temp1W32 + s32 (s32 (shl (WEBRTC_SPL_MUL_16_16 (R_hi ! j) (A_hi st ! (i - j))) 1)
            + s32 (shl (s32 (shr (WEBRTC_SPL_MUL_16_16 (R_hi ! j) (A_low st ! (i - j))) 15
                + shr (WEBRTC_SPL_MUL_16_16 (R_low ! j) (A_hi st ! (i - j))) 15)) 1)))) [1..<i] 0;
          temp1W32 = s32 (shl temp1W32 4);
          temp1W32 = s32 (temp1W32 + of_halves (R_hi ! i) (R_low ! i));
          temp2W32 = WEBRTC_SPL_ABS_W32 temp1W32;
          temp3W32 = WebRtcSpl_DivW32HiLow temp2W32 (Alpha_hi st) (Alpha_low st);
          temp3W32 = (if temp1W32 > 0 then s32 (- temp3W32) else temp3W32);
          norm = s16 (WebRtcSpl_NormW32 temp3W32)
      in if Alpha_exp st \<le> norm \<or> temp3W32 = 0 then s32 (shl temp3W32 (nat (Alpha_exp st)))
         else if temp3W32 > 0 then 0x7fffffff else s32 0x80000000)"

definition levinson_update :: "nat \<Rightarrow> int \<Rightarrow> int \<Rightarrow> int \<Rightarrow> levinson \<Rightarrow> levinson" where
  "levinson_update i temp3W32 K_hi K_low st =
     (let (upd_hi, upd_low) = fold (\<lambda>j (upd_hi, upd_low).
            let temp1W32 = of_halves (A_hi st ! j) (A_low st ! j);
                temp1W32 = s32 (temp1W32 + mul_halves K_hi K_low (A_hi st ! (i - j)) (A_low st ! (i - j)))
            in (upd_hi[j := hi_half temp1W32], upd_low[j := low_half temp1W32])) [1..<i] (A_upd_hi st, A_upd_low st);
          temp3W32 = shr temp3W32 4;
          upd_hi = upd_hi[i := hi_half temp3W32];
          upd_low = upd_low[i := low_half temp3W32];
          (a_hi, a_low, norm) = update_alpha (Alpha_hi st) (Alpha_low st) K_hi K_low
      in st\<lparr>A_hi := fold (\<lambda>j v. v[j := upd_hi ! j]) [1..<i + 1] (A_hi st),
            A_low := fold (\<lambda>j v. v[j := upd_low ! j]) [1..<i + 1] (A_low st),
            A_upd_hi := upd_hi, A_upd_low := upd_low,
            Alpha_hi := a_hi, Alpha_low := a_low, Alpha_exp := s16 (Alpha_exp st + norm)\<rparr>)"

text \<open>The loop over the orders \<open>is\<close> that remain; \<open>None\<close> for the state when the filter is not stable.\<close>

fun levinson_loop :: "int list \<Rightarrow> int list \<Rightarrow> nat list \<Rightarrow> int list \<Rightarrow> levinson \<Rightarrow> int list \<times> levinson option" where
  "levinson_loop R_hi R_low [] K st = (K, Some st)"
| "levinson_loop R_hi R_low (i # js) K st =
     (let temp3W32 = levinson_coef R_hi R_low i st;
          K_hi = hi_half temp3W32;
          K_low = low_half temp3W32;
          K = K[i - 1 := K_hi]
      in if WEBRTC_SPL_ABS_W16 K_hi > 32750 then (K, None)
         else levinson_loop R_hi R_low js K (levinson_update i temp3W32 K_hi K_low st))"

text \<open>The part before the loop. The arrays of the stack are in \<open>st\<close>, \<open>R_hi\<close> and \<open>R_low\<close>.\<close>

definition levinson_start :: "int list \<Rightarrow> int list \<Rightarrow> int list \<Rightarrow> levinson \<Rightarrow> int list \<times> levinson" where
  "levinson_start R_hi R_low K st =
     (let temp2W32 = of_halves (R_hi ! 1) (R_low ! 1);
          temp3W32 = WEBRTC_SPL_ABS_W32 temp2W32;
          temp1W32 = WebRtcSpl_DivW32HiLow temp3W32 (R_hi ! 0) (R_low ! 0);
          temp1W32 = (if temp2W32 > 0 then s32 (- temp1W32) else temp1W32);
          K_hi = hi_half temp1W32;
          K_low = low_half temp1W32;
          K = K[0 := K_hi];
          temp1W32 = shr temp1W32 4;
          (a_hi, a_low, norm) = update_alpha (R_hi ! 0) (R_low ! 0) K_hi K_low
      in (K, st\<lparr>A_hi := (A_hi st)[1 := hi_half temp1W32], A_low := (A_low st)[1 := low_half temp1W32],
                Alpha_hi := a_hi, Alpha_low := a_low, Alpha_exp := norm\<rparr>))"

text \<open>The result: 0 or 1, and the arrays \<open>A\<close> and \<open>K\<close>.\<close>

definition WebRtcSpl_LevinsonDurbin ::
    "int list \<Rightarrow> levinson \<Rightarrow> int list \<Rightarrow> int list \<Rightarrow> int list \<Rightarrow> nat \<Rightarrow> (int \<times> int list \<times> int list) option" where
  "WebRtcSpl_LevinsonDurbin junk st R A K order =
     (if order > SPL_LEVINSON_MAXORDER then None
      else let norm = WebRtcSpl_NormW32 (R ! 0);
               R_hi = fold (\<lambda>i v. v[i := hi_half (s32 (shl (R ! i) (nat norm)))]) (rev [0..<order + 1]) junk;
               R_low = fold (\<lambda>i v. v[i := low_half (s32 (shl (R ! i) (nat norm)))]) (rev [0..<order + 1]) junk;
               (K, st) = levinson_start R_hi R_low K st
           in case levinson_loop R_hi R_low [2..<order + 1] K st of
                (K, None) \<Rightarrow> Some (0, A, K)
              | (K, Some st) \<Rightarrow>
                  Some (1, fold (\<lambda>i A. A[i := s16 (shr (s32 (s32 (shl (of_halves (A_hi st ! i) (A_low st ! i)) 1) + 32768)) 16)])
                    [1..<order + 1] (A[0 := 4096]), K))"

section \<open>The window\<close>

lemma kHanningTable_facts:
  "length kHanningTable = 256" "sorted kHanningTable" "\<forall>x \<in> set kHanningTable. 1 \<le> x \<and> x \<le> 16384" "kHanningTable ! 255 = 16384"
proof -
  show "length kHanningTable = 256" by (simp add: kHanningTable_def)
  show "sorted kHanningTable" by code_simp
  show "\<forall>x \<in> set kHanningTable. 1 \<le> x \<and> x \<le> 16384" by (simp add: kHanningTable_def)
  show "kHanningTable ! 255 = 16384" by (simp add: kHanningTable_def)
qed

lemma hanning_loop_ok:
  assumes "0 < factor" and "0 \<le> index + factor" and "index + int n * factor < 1073741824" and "-4194304 \<le> index"
  shows "hanning_loop n index factor = Some (map (\<lambda>j. kHanningTable ! nat ((index + (int j + 1) * factor) div 4194304)) [0..<n])"
  using assms
proof (induction n arbitrary: index)
  case (Suc n)
  have "index + factor \<le> index + int (Suc n) * factor" using Suc.prems(1) by (simp add: algebra_simps)
  then have b: "0 \<le> index + factor" "index + factor < 1073741824" using Suc.prems by linarith+
  have s: "s32 (index + factor) = index + factor" using b by (intro s32_id) auto
  have i: "0 \<le> shr (index + factor) 22" "shr (index + factor) 22 < int (length kHanningTable)"
    using b by (auto simp: kHanningTable_facts shr_def div_less_iff)
  have IH: "hanning_loop n (index + factor) factor =
      Some (map (\<lambda>j. kHanningTable ! nat ((index + factor + (int j + 1) * factor) div 4194304)) [0..<n])"
    using Suc.prems b by (intro Suc.IH) (auto simp: algebra_simps)
  have u: "[0..<Suc n] = 0 # map Suc [0..<n]" by (simp add: upt_conv_Cons map_Suc_upt del: upt_Suc)
  show ?case unfolding u using i IH by (simp add: Let_def s comp_def shr_def ring_distribs add.assoc)
qed simp

lemma hanning_factor: "1 \<le> n \<Longrightarrow> n \<le> 32767 \<Longrightarrow> WebRtcSpl_DivW32W16 0x40000000 n = 1073741824 div n"
proof -
  assume n: "1 \<le> n" "n \<le> 32767"
  have "1073741824 div n \<le> 1073741824 div 1" using n(1) by (intro zdiv_mono2) auto
  moreover have "0 \<le> 1073741824 div n" using n(1) by (simp add: pos_imp_zdiv_nonneg_iff)
  ultimately have "s32 (1073741824 div n) = 1073741824 div n" by (intro s32_id) simp_all
  then show ?thesis using n by (simp add: WebRtcSpl_DivW32W16_def signed_divide_int_def)
qed


text \<open>
  The window function reads its table within bounds exactly for windows of at most 1024 values: then it returns as many
  values, rising from at least 1 to 16384 (one in Q14). For a longer window the first index is already negative.
\<close>

theorem GetHanningWindow_bounds:
  assumes "1 \<le> n" and "n \<le> 32767"
  shows "(if n \<le> 1024 then \<exists>v. WebRtcSpl_GetHanningWindow n = Some v \<and> length v = nat n \<and> sorted v
                \<and> 1 \<le> hd v \<and> last v = 16384
          else WebRtcSpl_GetHanningWindow n = None)"
proof -
  define f where "f = 1073741824 div n"
  have F: "WebRtcSpl_DivW32W16 0x40000000 n = f" using hanning_factor [OF assms] by (simp add: f_def)
  have fn: "f * n \<le> 1073741824" "1073741824 < f * n + n" "0 < f"
    using assms div_mult_mod_eq [of 1073741824 n] pos_mod_bound [of n 1073741824] pos_mod_sign [of n 1073741824]
    unfolding f_def by (linarith, linarith, simp add: pos_imp_zdiv_pos_iff)
  show ?thesis
  proof (cases "n \<le> 1024")
    case True
    define x :: int where "x = (if n < 513 then -0x200000 else -0x100000)"
    have "n * 2097152 \<le> 1073741824" if "n < 513" using that by simp
    then have x: "0 \<le> x + f" "x < 0" "-2097152 \<le> x"
      using True assms by (auto simp: x_def f_def le_div_iff)
    have idx: "0 \<le> x + (int j + 1) * f \<and> x + (int j + 1) * f < 1073741824" if "j < nat n" for j
    proof -
      have "(int j + 1) * f \<le> n * f" using that fn(3) by (intro mult_right_mono) auto
      moreover have "1 * f \<le> (int j + 1) * f" using fn(3) by (intro mult_right_mono) auto
      ultimately show ?thesis using fn(1) x mult.commute [of n f] by linarith
    qed
    let ?v = "map (\<lambda>j. kHanningTable ! nat ((x + (int j + 1) * f) div 4194304)) [0..<nat n]"
    have v: "WebRtcSpl_GetHanningWindow n = Some ?v"
      unfolding WebRtcSpl_GetHanningWindow_def F Let_def x_def [symmetric]
      using assms fn x by (intro hanning_loop_ok) (auto simp: mult.commute)
    have b: "nat ((x + (int j + 1) * f) div 4194304) < 256" if "j < nat n" for j
    proof -
      have "(x + (int j + 1) * f) div 4194304 < 256" using idx [OF that] by (subst div_less_iff) simp_all
      then show ?thesis by linarith
    qed
    have "sorted ?v"
      unfolding sorted_iff_nth_mono_less
    proof (intro allI impI)
      fix i j assume ij: "i < j" "j < length ?v"
      have "(int i + 1) * f \<le> (int j + 1) * f" using ij fn(3) by (intro mult_right_mono) auto
      then have "nat ((x + (int i + 1) * f) div 4194304) \<le> nat ((x + (int j + 1) * f) div 4194304)"
        by (intro nat_mono zdiv_mono1) auto
      then show "?v ! i \<le> ?v ! j" using ij b [of j] kHanningTable_facts(1,2) by (simp add: sorted_nth_mono)
    qed
    moreover have "1 \<le> hd ?v"
      using b [of 0] kHanningTable_facts(1,3) assms(1) by (simp add: hd_map hd_upt)
    moreover have "last ?v = 16384"
    proof -
      have "1069547520 \<le> x + n * f" using fn(2) x True by (simp add: mult.commute)
      then have "(x + n * f) div 4194304 = 255"
        using idx [of "nat n - 1"] assms(1) by (intro int_div_pos_eq [where r = "x + n * f - 1069547520"]) auto
      then show ?thesis using assms(1) kHanningTable_facts(4) by (simp add: last_map last_upt)
    qed
    ultimately show ?thesis using True v by simp
  next
    case False
    have "f < 1048576" using False assms by (simp add: f_def div_less_iff)
    then have "s32 (-0x100000 + f) < 0" using fn(3) by (subst s32_id) auto
    moreover obtain m where "nat n = Suc m" using False by (cases "nat n") auto
    ultimately show ?thesis using False by (simp add: WebRtcSpl_GetHanningWindow_def F Let_def linorder_not_le)
  qed
qed

lemma GetHanningWindow_bounds_witness:
  "(\<exists>v. WebRtcSpl_GetHanningWindow 240 = Some v \<and> length v = 240 \<and> sorted v \<and> 1 \<le> hd v \<and> last v = 16384)
   \<and> WebRtcSpl_GetHanningWindow 1025 = None"
  using GetHanningWindow_bounds [of 240] GetHanningWindow_bounds [of 1025] by simp


section \<open>Reflection coefficients are 16 bit fractions\<close>

lemma refl_div_bound:
  "0 \<le> fst ((refl_div_step d ^^ n) (0, t)) \<and> fst ((refl_div_step d ^^ n) (0, t)) < 2 ^ n" if "n \<le> 15"
  using that
proof (induction n)
  case (Suc n)
  obtain K L where st: "(refl_div_step d ^^ n) (0, t) = (K, L)" by (rule prod.exhaust)
  have K: "0 \<le> K" "K < 2 ^ n" using Suc st by simp_all
  have "(2 :: int) ^ n \<le> 2 ^ 14" using Suc.prems by (intro power_increasing) auto
  then have "K * 2 + 1 \<le> 32767" using K by simp
  then have s: "s16 (shl K 1) = K * 2" "s16 (K * 2 + 1) = K * 2 + 1" using K by (simp_all add: shl_def s16_id)
  have "(refl_div_step d ^^ Suc n) (0, t) = refl_div_step d (K, L)" by (simp add: st)
  then show ?case using K unfolding refl_div_step_def by (simp add: Let_def s [unfolded One_nat_def])
qed simp

lemma refl_coef_bound: "\<bar>refl_coef P0 P1\<bar> \<le> 32767"
proof -
  have "0 \<le> fst ((refl_div_step P0 ^^ 15) (0, t)) \<and> fst ((refl_div_step P0 ^^ 15) (0, t)) \<le> 32767" for t
    using refl_div_bound [of 15 P0 t] by simp
  moreover have "\<bar>s16 (- K)\<bar> \<le> 32767" if "0 \<le> K" "K \<le> 32767" for K using that by (subst s16_id) auto
  ultimately show ?thesis by (auto simp: refl_coef_def Let_def)
qed

lemma refl_loop_bound: "length (refl_loop m st) = m \<and> (\<forall>k \<in> set (refl_loop m st). \<bar>k\<bar> \<le> 32767)"
  by (induction m st rule: refl_loop.induct) (auto simp: Let_def refl_coef_bound split: prod.splits)

text \<open>The division is the exact quotient, for a numerator below the denominator.\<close>

lemma refl_div_exact:
  assumes "0 \<le> t" and "t < d" and "d \<le> 32767" and "n \<le> 15"
  shows "(refl_div_step d ^^ n) (0, t) = (t * 2 ^ n div d, t * 2 ^ n mod d)"
  using assms(4)
proof (induction n)
  case 0
  then show ?case using assms by (simp add: div_pos_pos_trivial mod_pos_pos_trivial)
next
  case (Suc n)
  define q r where "q = t * 2 ^ n div d" and "r = t * 2 ^ n mod d"
  have r: "0 \<le> r" "r < d" using assms by (simp_all add: r_def)
  have e: "t * 2 ^ n = q * d + r" by (simp add: q_def r_def)
  have "t * 2 ^ n < 2 ^ n * d" using assms(2) by (simp add: mult.commute)
  then have "q < 2 ^ n" using assms by (simp add: q_def div_less_iff mult.commute)
  moreover have "(2 :: int) ^ n \<le> 2 ^ 14" using Suc.prems by (intro power_increasing) auto
  ultimately have q: "0 \<le> q" "q * 2 + 1 \<le> 32767" using assms by (simp_all add: q_def pos_imp_zdiv_nonneg_iff)
  have s: "s16 (shl q 1) = q * 2" "s16 (q * 2 + 1) = q * 2 + 1" "s32 (shl r 1) = r * 2" "s32 (r * 2 - d) = r * 2 - d"
    using q r assms(3) by (simp_all add: shl_def s16_id s32_id)
  have step: "(refl_div_step d ^^ Suc n) (0, t) = (if d \<le> r * 2 then (q * 2 + 1, r * 2 - d) else (q * 2, r * 2))"
  proof -
    have "(refl_div_step d ^^ Suc n) (0, t) = refl_div_step d (q, r)" using Suc by (simp add: q_def r_def)
    then show ?thesis by (simp add: refl_div_step_def [of d "(q, r)"] Let_def s [unfolded One_nat_def])
  qed
  have t: "t * 2 ^ Suc n = 2 * q * d + 2 * r" using e by (simp add: algebra_simps)
  show ?case
  proof (cases "d \<le> r * 2")
    case True
    have "t * 2 ^ Suc n = (2 * q + 1) * d + (r * 2 - d)" using t by (simp add: algebra_simps)
    then have "t * 2 ^ Suc n div d = 2 * q + 1" "t * 2 ^ Suc n mod d = r * 2 - d"
      using True r by (auto intro: int_div_pos_eq int_mod_pos_eq)
    then show ?thesis unfolding step using True by simp
  next
    case False
    have "t * 2 ^ Suc n = (2 * q) * d + r * 2" using t by (simp add: algebra_simps)
    then have "t * 2 ^ Suc n div d = 2 * q" "t * 2 ^ Suc n mod d = r * 2"
      using False r by (auto intro: int_div_pos_eq int_mod_pos_eq)
    then show ?thesis unfolding step using False by simp
  qed
qed


lemma refl_coef_exact:
  assumes "\<bar>P1\<bar> < P0" and "P0 \<le> 32767"
  shows "refl_coef P0 P1 = - sgn P1 * (\<bar>P1\<bar> * 32768 div P0)"
proof -
  define t q where "t = \<bar>P1\<bar>" and "q = t * 32768 div P0"
  have t: "s16 (WEBRTC_SPL_ABS_W16 P1) = t" using assms by (auto simp: t_def WEBRTC_SPL_ABS_W16_def s16_id)
  have d: "fst ((refl_div_step P0 ^^ 15) (0, t)) = q"
    using refl_div_exact [of t P0 15] assms by (simp add: t_def q_def)
  have "q < 32768" using assms by (simp add: q_def t_def div_less_iff)
  moreover have "0 \<le> q" using assms by (simp add: q_def t_def pos_imp_zdiv_nonneg_iff)
  ultimately have q: "s16 (- q) = - q" by (intro s16_id) linarith+
  have "t = 0 \<longleftrightarrow> P1 = 0" "t = 0 \<Longrightarrow> q = 0" by (simp_all add: t_def q_def)
  then show ?thesis unfolding refl_coef_def t Let_def d t_def [symmetric] q_def [symmetric] using q
    by (cases "P1 = 0"; cases "P1 > 0") simp_all
qed

text \<open>Where numerator and denominator are equal the quotient is one, which becomes 32767 in Q15; the magnitude of -32768
  wraps to itself, and the division then gives 0.\<close>

lemma refl_div_equal:
  assumes "0 < d" and "d \<le> 32767" and "n \<le> 15"
  shows "(refl_div_step d ^^ n) (0, d) = (2 ^ n - 1, d)"
  using assms(3)
proof (induction n)
  case (Suc n)
  define z :: int where "z = 2 ^ n"
  have "z \<le> 2 ^ 14" "1 \<le> z" unfolding z_def using Suc.prems by (intro power_increasing, simp_all)
  then have "s16 (shl (z - 1) 1) = z * 2 - 2" "s16 (z * 2 - 2 + 1) = z * 2 - 1" "s32 (shl d 1) = d * 2" "s32 (d * 2 - d) = d"
    using assms(1,2) by (simp_all add: shl_def s16_id s32_id)
  note s = this [unfolded z_def]
  have "(refl_div_step d ^^ Suc n) (0, d) = refl_div_step d (2 ^ n - 1, d)" using Suc by simp
  also have "\<dots> = (2 ^ n * 2 - 1, d)"
    unfolding refl_div_step_def fst_conv snd_conv Let_def s using assms(1) by simp
  finally show ?case by simp
qed simp

lemma refl_div_min:
  assumes "-32768 \<le> d" and "n \<le> 15"
  shows "(refl_div_step d ^^ n) (0, -32768) = (0, -32768 * 2 ^ n)"
  using assms(2)
proof (induction n)
  case (Suc n)
  define z :: int where "z = 2 ^ n"
  have "z \<le> 2 ^ 14" "1 \<le> z" unfolding z_def using Suc.prems by (intro power_increasing, simp_all)
  then have "s32 (shl (-32768 * z) 1) = -65536 * z" "-65536 * z < d" "s16 (shl 0 1) = 0"
    using assms(1) by (simp_all add: shl_def s32_id s16_id)
  note s = this [unfolded z_def]
  have "(refl_div_step d ^^ Suc n) (0, -32768) = refl_div_step d (0, -32768 * 2 ^ n)" using Suc by simp
  also have "\<dots> = (0, -65536 * 2 ^ n)"
    unfolding refl_div_step_def fst_conv snd_conv Let_def s(1,3) using s(2) by (simp only: linorder_not_le [symmetric] if_False)
  finally show ?case by simp
qed simp

text \<open>The first coefficient, for any first two autocorrelations.\<close>

definition first_refl :: "int \<Rightarrow> int \<Rightarrow> int" where
  "first_refl P0 P1 = (if \<bar>P1\<bar> < P0 then - sgn P1 * (\<bar>P1\<bar> * 32768 div P0)
     else if \<bar>P1\<bar> = P0 then - sgn P1 * 32767 else 0)"

lemma refl_loop_first:
  assumes "is_s16 (P ! 0)" and "is_s16 (P ! 1)"
  shows "hd (refl_loop (Suc m) (P, W)) = first_refl (P ! 0) (P ! 1)"
proof -
  let ?a = "P ! 0" and ?b = "P ! 1"
  have h: "hd (refl_loop (Suc m) (P, W)) = (if ?a < s16 (WEBRTC_SPL_ABS_W16 ?b) then 0 else refl_coef ?a ?b)"
    by (simp add: Let_def)
  show ?thesis
  proof (cases "?b = -32768")
    case True
    have t: "s16 (WEBRTC_SPL_ABS_W16 ?b) = -32768" unfolding True by code_simp
    have "refl_coef ?a ?b = 0"
      using refl_div_min [of ?a 15] assms(1) True unfolding refl_coef_def t Let_def by (simp add: is_s16_def)
    then show ?thesis unfolding h t using assms(1) True by (simp add: first_refl_def is_s16_def)
  next
    case False
    then have t: "s16 (WEBRTC_SPL_ABS_W16 ?b) = \<bar>?b\<bar>"
      using assms(2) by (auto simp: is_s16_def WEBRTC_SPL_ABS_W16_def s16_id)
    consider "\<bar>?b\<bar> < ?a" | "?b = 0" "?a = 0" | "\<bar>?b\<bar> = ?a" "0 < ?a" | "?a < \<bar>?b\<bar>" by linarith
    then show ?thesis
    proof cases
      case 1
      then show ?thesis using refl_coef_exact [OF 1] assms(1) unfolding h t by (simp add: first_refl_def is_s16_def)
    next
      case 2
      then show ?thesis unfolding h t by (simp add: first_refl_def refl_coef_def WEBRTC_SPL_ABS_W16_def s16_def)
    next
      case 3
      then have "fst ((refl_div_step ?a ^^ 15) (0, \<bar>?b\<bar>)) = 32767"
        using refl_div_equal [of ?a 15] assms(1) by (simp add: is_s16_def)
      then have "refl_coef ?a ?b = - sgn ?b * 32767"
        unfolding refl_coef_def t Let_def using 3 by (cases "?b > 0") (simp_all add: s16_id)
      then show ?thesis unfolding h t using 3 by (simp add: first_refl_def)
    next
      case 4
      then show ?thesis unfolding h t by (simp add: first_refl_def)
    qed
  qed
qed

text \<open>
  C29. For orders up to 13 and any autocorrelations the conversion delivers as many reflection coefficients, all of magnitude
  below one (at most 32767 in Q15). The first is the truncated quotient of the first two autocorrelations, normalised to
  16 bits, where the second is smaller in magnitude; plus or minus 32767 where they are equal, and 0 where it is larger. For
  order 14, which the constant of the library allows, the function leaves its arrays of 14 entries.
\<close>

theorem AutoCorrToReflCoef_bounds:
  assumes "length P = 14" and "length W = 14" and "1 \<le> order"
    and "acf = (\<lambda>i. s16 (shr (s32 (shl (R ! i) (nat (s16 (WebRtcSpl_NormW32 (R ! 0)))))) 16))"
  shows "(if order < 14
          then \<exists>K. WebRtcSpl_AutoCorrToReflCoef P W R order = Some K \<and> length K = order \<and> Ball (set K) (\<lambda>k. \<bar>k\<bar> \<le> 32767)
                \<and> hd K = (if \<bar>acf 1\<bar> < acf 0 then - sgn (acf 1) * (\<bar>acf 1\<bar> * 32768 div acf 0)
                           else if \<bar>acf 1\<bar> = acf 0 then - sgn (acf 1) * 32767 else 0)
          else WebRtcSpl_AutoCorrToReflCoef P W R order = None)"
proof (cases "order < 14")
  case True
  obtain m where m: "order = Suc m" using assms(3) by (cases order) auto
  let ?acf = "map acf [0..<order + 1]"
  have w: "fold (\<lambda>i P. P[i := ?acf ! i]) [0..<order + 1] P = map (\<lambda>i. ?acf ! i) [0..<order + 1] @ drop (order + 1) P"
    using True assms(1) by (intro fold_write_upt) simp
  define P' where "P' = fold (\<lambda>i P. P[i := ?acf ! i]) [0..<order + 1] P"
  have "?acf ! 0 = acf 0" "?acf ! 1 = acf 1" using assms(3) by (simp_all del: upt_Suc)
  then have p: "P' ! 0 = acf 0" "P' ! 1 = acf 1"
    unfolding P'_def w using assms(3) by (simp_all add: nth_append del: upt_Suc)
  define W' where "W' = fold (\<lambda>i W. W[i := ?acf ! i]) [1..<order + 1] W"
  have K: "WebRtcSpl_AutoCorrToReflCoef P W R order = Some (refl_loop order (P', W'))"
    using True unfolding WebRtcSpl_AutoCorrToReflCoef_def P'_def W'_def assms(4) by (simp add: Let_def WEBRTC_SPL_MAX_LPC_ORDER_def)
  have "is_s16 (P' ! 0)" "is_s16 (P' ! 1)" unfolding p by (simp_all add: assms(4))
  from refl_loop_first [OF this] have "hd (refl_loop order (P', W')) = first_refl (acf 0) (acf 1)" unfolding m p .
  then show ?thesis using True K refl_loop_bound [of order "(P', W')"] by (simp add: first_refl_def)
qed (simp add: WebRtcSpl_AutoCorrToReflCoef_def WEBRTC_SPL_MAX_LPC_ORDER_def)

lemma AutoCorrToReflCoef_bounds_witness:
  "(\<exists>K. WebRtcSpl_AutoCorrToReflCoef (replicate 14 0) (replicate 14 0) [1000, 900, 700] 2 = Some K \<and> length K = 2 \<and> hd K = -29491)
   \<and> WebRtcSpl_AutoCorrToReflCoef (replicate 14 0) (replicate 14 0) (1000 # 900 # replicate 13 0) 14 = None"
proof -
  have n: "WebRtcSpl_NormW32 1000 = 21" by code_simp
  define acf where "acf = (\<lambda>R i. s16 (shr (s32 (shl ((R :: int list) ! i) (nat (s16 (WebRtcSpl_NormW32 (R ! 0)))))) 16))"
  have a: "acf (1000 # 900 # zs) 0 = 32000" "acf (1000 # 900 # zs) (Suc 0) = 28800" for zs
    by (simp_all add: acf_def n s16_def s32_def shl_def shr_def)
  have e: "acf R = (\<lambda>i. s16 (shr (s32 (shl (R ! i) (nat (s16 (WebRtcSpl_NormW32 (R ! 0)))))) 16))" for R
    by (simp add: acf_def)
  show ?thesis
    using AutoCorrToReflCoef_bounds [OF _ _ _ e, of "replicate 14 0" "replicate 14 0" 2 "[1000, 900, 700]"]
      AutoCorrToReflCoef_bounds [OF _ _ _ e, of "replicate 14 0" "replicate 14 0" 14 "1000 # 900 # replicate 13 0"]
    by (auto simp: a)
qed


section \<open>The gain of the Levinson-Durbin recursion\<close>

lemma hi_half_eq: "is_s32 x \<Longrightarrow> hi_half x = x div 65536"
proof -
  assume "is_s32 x"
  then have "-32768 \<le> x div 65536" "x div 65536 < 32768" by (simp_all add: is_s32_def le_div_iff div_less_iff)
  then show ?thesis by (simp add: hi_half_def shr_def s16_id)
qed

lemma low_half_range:
  assumes "is_s32 x"
  shows "0 \<le> low_half x \<and> low_half x \<le> 32767"
proof -
  have m: "x = 65536 * (x div 65536) + x mod 65536" "0 \<le> x mod 65536" "x mod 65536 < 65536" by simp_all
  have "s32 (shl (hi_half x) 16) = 65536 * (x div 65536)"
    using assms m unfolding hi_half_eq [OF assms] shl_def is_s32_def by (subst s32_id) auto
  moreover have "s32 (x - 65536 * (x div 65536)) = x mod 65536"
    using m by (subst s32_id) (auto simp: minus_mult_div_eq_mod)
  ultimately have "low_half x = s16 (x mod 65536 div 2)" by (simp add: low_half_def shr_def)
  moreover have "x mod 65536 div 2 < 32768" "0 \<le> x mod 65536 div 2" using m by (simp_all add: div_less_iff)
  ultimately show ?thesis by (simp add: s16_id)
qed

definition alpha_ok :: "int \<Rightarrow> int \<Rightarrow> bool" where
  "alpha_ok a_hi a_low = (16384 \<le> a_hi \<and> a_hi \<le> 32767 \<and> 0 \<le> a_low \<and> a_low \<le> 32767)"

lemma one_minus_square_range:
  assumes "\<bar>K_hi\<bar> \<le> 32750" and "0 \<le> K_low" and "K_low \<le> 32767"
  shows "2162688 \<le> one_minus_square K_hi K_low \<and> one_minus_square K_hi K_low \<le> 2147483647"
proof -
  define x where "x = shr (K_hi * K_low) 14"
  have "\<bar>K_hi * K_low\<bar> \<le> 32750 * 32767" by (rule abs_mult_le) (use assms in auto)
  then have x: "-65500 \<le> x" "x \<le> 65498" unfolding x_def by (simp_all add: shr_def le_div_iff flip: zless_add1_eq add: div_less_iff)
  have sq: "0 \<le> K_hi * K_hi" "K_hi * K_hi \<le> 1072562500" using abs_mult_le [of K_hi 32750 K_hi 32750] assms(1) by auto
  have s16: "s16 K_hi = K_hi" "s16 K_low = K_low" using assms by (auto intro!: s16_id)
  have m: "WEBRTC_SPL_MUL_16_16 K_hi K_low = K_hi * K_low" "WEBRTC_SPL_MUL_16_16 K_hi K_hi = K_hi * K_hi"
    using \<open>\<bar>K_hi * K_low\<bar> \<le> 32750 * 32767\<close> sq unfolding WEBRTC_SPL_MUL_16_16_def s16 by (intro s32_id; linarith)+
  define k2 where "k2 = K_hi * K_hi"
  have k2: "0 \<le> k2" "k2 \<le> 1072562500" using sq by (simp_all add: k2_def)
  have "s32 (x + k2) = x + k2" using x k2 by (intro s32_id) auto
  moreover have "s32 (shl (x + k2) 1) = 2 * (x + k2)" using x k2 by (subst s32_id) (auto simp: shl_def)
  moreover define y where "y = 2 * (x + k2)"
  moreover have y: "-131000 \<le> y" "y \<le> 2145255996" using x k2 by (auto simp: y_def)
  ultimately have e: "one_minus_square K_hi K_low = s32 (0x7fffffff - WEBRTC_SPL_ABS_W32 y)"
    by (simp add: one_minus_square_def Let_def m flip: x_def k2_def)
  have "WEBRTC_SPL_ABS_W32 y = \<bar>y\<bar>" using y by (auto simp: WEBRTC_SPL_ABS_W32_def s32_id)
  then show ?thesis using y unfolding e by (subst (1 2) s32_id) auto
qed

lemma update_alpha_ok:
  assumes a: "alpha_ok a_hi a_low" and K: "\<bar>K_hi\<bar> \<le> 32750" "0 \<le> K_low" "K_low \<le> 32767"
  shows "case update_alpha a_hi a_low K_hi K_low of (h, l, norm) \<Rightarrow> alpha_ok h l"
proof -
  define t where "t = one_minus_square K_hi K_low"
  have t: "2162688 \<le> t" "t \<le> 2147483647" using one_minus_square_range [OF K] by (simp_all add: t_def)
  then have ts: "is_s32 t" by (simp add: is_s32_def)
  define h l where "h = hi_half t" and "l = low_half t"
  have h: "33 \<le> h" "h \<le> 32767" using t unfolding h_def hi_half_eq [OF ts] by (simp_all add: le_div_iff flip: zless_add1_eq add: div_less_iff)
  have l: "0 \<le> l" "l \<le> 32767" using low_half_range [OF ts] by (simp_all add: l_def)
  have a': "16384 \<le> a_hi" "a_hi \<le> 32767" "0 \<le> a_low" "a_low \<le> 32767" using a by (simp_all add: alpha_ok_def)
  define x where "x = a_hi * h + shr (a_hi * l) 15 + shr (a_low * h) 15"
  have p: "16384 * 33 \<le> a_hi * h" "a_hi * h \<le> 32767 * 32767" by (intro mult_mono; use a' h in simp)+
  have q: "0 \<le> shr (a_hi * l) 15 \<and> shr (a_hi * l) 15 \<le> 32766" "0 \<le> shr (a_low * h) 15 \<and> shr (a_low * h) 15 \<le> 32766"
  proof -
    have "a_hi * l \<le> 32767 * 32767" "a_low * h \<le> 32767 * 32767" by (intro mult_mono; use a' h l in simp)+
    moreover have "0 \<le> a_hi * l" "0 \<le> a_low * h" using a' h l by simp_all
    ultimately show "0 \<le> shr (a_hi * l) 15 \<and> shr (a_hi * l) 15 \<le> 32766" "0 \<le> shr (a_low * h) 15 \<and> shr (a_low * h) 15 \<le> 32766"
      by (simp_all add: shr_def pos_imp_zdiv_nonneg_iff flip: zless_add1_eq add: div_less_iff)
  qed
  have x: "540672 \<le> x" "x \<le> 1073741821" using p q unfolding x_def by linarith+
  have m: "WEBRTC_SPL_MUL_16_16 u v = u * v" if "0 \<le> u" "u \<le> 32767" "0 \<le> v" "v \<le> 32767" for u v
    using that mult_s16_s32 [of u v] by (simp add: WEBRTC_SPL_MUL_16_16_def s16_id is_s16_def)
  have "mul_halves a_hi a_low h l = s32 (shl (s32 (s32 (a_hi * h + shr (a_hi * l) 15) + shr (a_low * h) 15)) 1)"
    using a' h l by (simp add: mul_halves_def m)
  also have "s32 (a_hi * h + shr (a_hi * l) 15) = a_hi * h + shr (a_hi * l) 15" by (rule s32_id) (use p q in linarith)+
  also have "s32 (a_hi * h + shr (a_hi * l) 15 + shr (a_low * h) 15) = x" using x unfolding x_def by (intro s32_id) auto
  also have "s32 (shl x 1) = 2 * x" using x by (subst s32_id) (auto simp: shl_def)
  finally have mul: "mul_halves a_hi a_low h l = 2 * x" .
  obtain z where z: "WebRtcSpl_NormW32 (2 * x) = int z" "1073741824 \<le> 2 * x * 2 ^ z" "2 * x * 2 ^ z < 2147483648"
    using NormW32_pos [of "2 * x"] x by auto
  have "is_s32 (2 * x)" using x by (simp add: is_s32_def)
  then have "s16 (int z) = int z" using NormW32_range [of "2 * x"] z(1) by (simp add: s16_id)
  moreover have "s32 (shl (2 * x) z) = 2 * x * 2 ^ z" using z(2,3) unfolding shl_def by (intro s32_id) linarith+
  ultimately have u: "update_alpha a_hi a_low K_hi K_low = (hi_half (2 * x * 2 ^ z), low_half (2 * x * 2 ^ z), int z)"
    by (simp add: update_alpha_def Let_def mul z(1) flip: t_def h_def l_def)
  have s: "is_s32 (2 * x * 2 ^ z)" using z(2,3) by (simp add: is_s32_def)
  show ?thesis unfolding u using low_half_range [OF s] z(2,3)
    by (simp add: alpha_ok_def hi_half_eq [OF s] le_div_iff flip: zless_add1_eq add: div_less_iff)
qed


lemma is_s32_coef: "is_s32 (levinson_coef R_hi R_low i st)"
  by (simp add: levinson_coef_def Let_def) (simp add: is_s32_def)

lemma update_gain:
  "alpha_ok (Alpha_hi (levinson_update i t K_hi K_low st)) (Alpha_low (levinson_update i t K_hi K_low st))
    \<longleftrightarrow> (case update_alpha (Alpha_hi st) (Alpha_low st) K_hi K_low of (h, l, norm) \<Rightarrow> alpha_ok h l)"
  by (simp add: levinson_update_def Let_def split: prod.splits)

lemma abs_w16: "is_s16 x \<Longrightarrow> WEBRTC_SPL_ABS_W16 x = \<bar>x\<bar>"
  by (simp add: WEBRTC_SPL_ABS_W16_def s16_conv)

lemma is_s16_hi_half [simp]: "is_s16 (hi_half x)"
  by (simp add: hi_half_def)

lemma levinson_loop_ok:
  assumes "alpha_ok (Alpha_hi st) (Alpha_low st)" and "levinson_loop R_hi R_low js K st = (K', Some st')"
    and "\<forall>k < a. \<bar>K ! k\<bar> \<le> 32750" and "js = [a + 1..<b]" and "b \<le> length K + 1" and "1 \<le> a" and "a < b"
  shows "alpha_ok (Alpha_hi st') (Alpha_low st') \<and> (\<forall>k < b - 1. \<bar>K' ! k\<bar> \<le> 32750) \<and> length K' = length K"
  using assms
proof (induction js arbitrary: K st a)
  case Nil
  from Nil(4) have "[a + 1..<b] = []" by (rule sym)
  then have "b - 1 \<le> a" by (auto simp: upt_eq_Nil_conv)
  then show ?case using Nil by simp
next
  case (Cons i js)
  have "[a + 1..<b] = i # js" by (rule sym [OF Cons.prems(4)])
  then have i: "i = a + 1" "js = [a + 2..<b]" "a + 1 < b" by (auto simp: upt_eq_Cons_conv)
  define t where "t = levinson_coef R_hi R_low i st"
  have t: "is_s32 t" by (simp add: t_def is_s32_coef)
  have K: "\<bar>hi_half t\<bar> \<le> 32750" and rec: "levinson_loop R_hi R_low js (K[a := hi_half t])
      (levinson_update i t (hi_half t) (low_half t) st) = (K', Some st')"
    using Cons.prems(2) i(1) by (auto simp: Let_def abs_w16 t_def split: if_splits)
  have ok: "alpha_ok (Alpha_hi (levinson_update i t (hi_half t) (low_half t) st))
      (Alpha_low (levinson_update i t (hi_half t) (low_half t) st))"
    unfolding update_gain
    by (rule update_alpha_ok [OF Cons.prems(1) K low_half_range [OF t, THEN conjunct1] low_half_range [OF t, THEN conjunct2]])
  have le: "\<forall>k < a + 1. \<bar>K[a := hi_half t] ! k\<bar> \<le> 32750"
  proof (intro allI impI)
    fix k assume "k < a + 1"
    then show "\<bar>K[a := hi_half t] ! k\<bar> \<le> 32750" using Cons.prems(3,5) K i(3) by (cases "k = a") auto
  qed
  have "js = [a + 1 + 1..<b]" "b \<le> length (K[a := hi_half t]) + 1" "1 \<le> a + 1" using i(2) Cons.prems(5) by simp_all
  from Cons.IH [OF ok rec le this i(3)] show ?case unfolding length_list_update .
qed



definition levinson_zero :: levinson where
  "levinson_zero = \<lparr>A_hi = replicate 21 0, A_low = replicate 21 0, A_upd_hi = replicate 21 0, A_upd_low = replicate 21 0,
     Alpha_hi = 0, Alpha_low = 0, Alpha_exp = 0\<rparr>"


text \<open>
  The test for an unstable filter leaves out the first reflection coefficient: an example where the function reports a
  stable filter (result 1) although that coefficient is -32768. This is why the first coefficient is a hypothesis above.
\<close>

lemma LevinsonDurbin_first_unchecked:
  "WebRtcSpl_LevinsonDurbin (replicate 21 0) levinson_zero [1000, 1000] [0, 0] [0] 1 = Some (1, [4096, -4096], [-32768])"
  by code_simp

end
