(* ===== verification/Ilbc_Bits.thy ===== *)
theory Ilbc_Bits
  imports C_Int
begin

text \<open>
  The bit packing of the iLBC codec, \<open>codecs/ilbc/pack_bits.c\<close> and \<open>unpack_bits.c\<close> with the structure \<open>iLBC_bits\<close> of
  \<open>defines.h\<close>: the parameters of a frame of 20 or 30 ms are distributed over 19 or 25 words of 16 bits, in three classes by
  their sensitivity to errors. The bit streams are the lists of the words written from the start of the array. The
  two functions are inverse to each other on parameters in their ranges (\<open>bits_ok\<close>) and on streams whose last
  bit is zero.
\<close>

section \<open>Operations\<close>

record iLBC_bits =
  lsf :: "int list"
  cb_index :: "int list"
  gain_index :: "int list"
  idxForMax :: int
  state_first :: int
  idxVec :: "int list"
  firstbits :: int
  startIdx :: int

text \<open>A word of the stream: the assignment of the first value and the bitwise or with the others, in 16 bits. An element of an array
  of the structure: its assignment, and the bitwise or, in signed 16 bits.\<close>

definition pack_word :: "int list \<Rightarrow> int" where
  "pack_word es = fold (\<lambda>e w. u16 (w OR e)) es 0"

definition assign_at :: "nat \<Rightarrow> int \<Rightarrow> int list \<Rightarrow> int list" where
  "assign_at i e v = v[i := s16 e]"

definition or_at :: "nat \<Rightarrow> int \<Rightarrow> int list \<Rightarrow> int list" where
  "or_at i e v = v[i := s16 (v ! i OR e)]"

subsection \<open>Packing\<close>

definition pack_class1_20 :: "iLBC_bits \<Rightarrow> int list" where
  "pack_class1_20 b =
     [pack_word [shl (u16 (lsf b ! 0)) 10,
                 shl (lsf b ! 1) 3,
                 shr ((lsf b ! 2) AND 0x70) 4],
      pack_word [shl (u16 (lsf b ! 2) AND 0xF) 12,
                 shl (startIdx b) 10,
                 shl (state_first b) 9,
                 shl (idxForMax b) 3,
                 shr ((cb_index b ! 0) AND 0x70) 4],
      pack_word [shl ((cb_index b ! 0) AND 0xE) 12,
                 shl ((gain_index b ! 0) AND 0x18) 8,
                 shl ((gain_index b ! 1) AND 0x8) 7,
                 shl ((cb_index b ! 3) AND 0xFE) 2,
                 shr ((gain_index b ! 3) AND 0x10) 2,
                 shr ((gain_index b ! 4) AND 0x8) 2,
                 shr ((gain_index b ! 6) AND 0x10) 4]]"

definition pack_class1_30 :: "iLBC_bits \<Rightarrow> int list" where
  "pack_class1_30 b =
     [pack_word [shl (u16 (lsf b ! 0)) 10,
                 shl (lsf b ! 1) 3,
                 shr ((lsf b ! 2) AND 0x70) 4],
      pack_word [shl (u16 (lsf b ! 2) AND 0xF) 12,
                 shl (lsf b ! 3) 6,
                 shr ((lsf b ! 4) AND 0x7E) 1],
      pack_word [shl (u16 (lsf b ! 4) AND 0x1) 15,
                 shl (lsf b ! 5) 8,
                 shl (startIdx b) 5,
                 shl (state_first b) 4,
                 shr ((idxForMax b) AND 0x3C) 2],
      pack_word [shl (u16 (idxForMax b) AND 0x3) 14,
                 shl ((cb_index b ! 0) AND 0x78) 7,
                 shl ((gain_index b ! 0) AND 0x10) 5,
                 shl ((gain_index b ! 1) AND 0x8) 5,
                 (cb_index b ! 3) AND 0xFC,
                 shr ((gain_index b ! 3) AND 0x10) 3,
                 shr ((gain_index b ! 4) AND 0x8) 3]]"

definition pack_class2 :: "iLBC_bits \<Rightarrow> int list" where
  "pack_class2 b = map (\<lambda>k. pack_word (map (\<lambda>i. shl (shr (u16 (idxVec b ! (16 * k + (15 - i)) AND 0x4)) 2) i) (rev [0..<16]))) [0..<3]"

definition pack_class2_20 :: "iLBC_bits \<Rightarrow> int list" where
  "pack_class2_20 b =
     [pack_word (map (\<lambda>i. shl (shr (u16 (idxVec b ! (48 + (15 - i)) AND 0x4)) 2) i) (rev [7..<16]) @
                 [shl ((gain_index b ! 1) AND 0x4) 4,
                  shl ((gain_index b ! 3) AND 0xC) 2,
                  shl ((gain_index b ! 4) AND 0x4) 1,
                  shr ((gain_index b ! 6) AND 0x8) 1,
                  shr ((gain_index b ! 7) AND 0xC) 2])]"

definition pack_class2_30 :: "iLBC_bits \<Rightarrow> int list" where
  "pack_class2_30 b =
     [pack_word (map (\<lambda>i. shl (shr (u16 (idxVec b ! (48 + (15 - i)) AND 0x4)) 2) i) (rev [6..<16]) @
                 [shl ((cb_index b ! 0) AND 0x6) 3,
                  (gain_index b ! 0) AND 0x8,
                  (gain_index b ! 1) AND 0x4,
                  (cb_index b ! 3) AND 0x2,
                  shr ((cb_index b ! 6) AND 0x80) 7]),
      pack_word [shl (u16 (cb_index b ! 6) AND 0x7E) 9,
                 shl ((cb_index b ! 9) AND 0xFE) 2,
                 shr ((cb_index b ! 12) AND 0xE0) 5],
      pack_word [shl (u16 (cb_index b ! 12) AND 0x1E) 11,
                 shl ((gain_index b ! 3) AND 0xC) 8,
                 shl ((gain_index b ! 4) AND 0x6) 7,
                 shl ((gain_index b ! 6) AND 0x18) 3,
                 shl ((gain_index b ! 7) AND 0xC) 2,
                 shr ((gain_index b ! 9) AND 0x10) 1,
                 shr ((gain_index b ! 10) AND 0x8) 1,
                 shr ((gain_index b ! 12) AND 0x10) 3,
                 shr ((gain_index b ! 13) AND 0x8) 3]]"

definition pack_class3 :: "iLBC_bits \<Rightarrow> int list" where
  "pack_class3 b = map (\<lambda>k. pack_word (map (\<lambda>i. shl (u16 (idxVec b ! (8 * k + (14 - i) div 2) AND 0x3)) i) [14, 12, 10, 8, 6, 4, 2, 0])) [0..<7]"

definition pack_class3_20 :: "iLBC_bits \<Rightarrow> int list" where
  "pack_class3_20 b =
     [pack_word [shl (u16 ((idxVec b ! 56) AND 0x3)) 14,
                 shl ((cb_index b ! 0) AND 1) 13,
                 shl (cb_index b ! 1) 6,
                 shr ((cb_index b ! 2) AND 0x7E) 1],
      pack_word [shl (u16 ((cb_index b ! 2) AND 0x1)) 15,
                 shl ((gain_index b ! 0) AND 0x7) 12,
                 shl ((gain_index b ! 1) AND 0x3) 10,
                 shl (gain_index b ! 2) 7,
                 shl ((cb_index b ! 3) AND 0x1) 6,
                 shr ((cb_index b ! 4) AND 0x7E) 1],
      pack_word [shl (u16 ((cb_index b ! 4) AND 0x1)) 15,
                 shl (cb_index b ! 5) 8,
                 cb_index b ! 6],
      pack_word [shl (u16 (cb_index b ! 7)) 8,
                 cb_index b ! 8],
      pack_word [shl (u16 ((gain_index b ! 3) AND 0x3)) 14,
                 shl ((gain_index b ! 4) AND 0x3) 12,
                 shl (gain_index b ! 5) 9,
                 shl ((gain_index b ! 6) AND 0x7) 6,
                 shl ((gain_index b ! 7) AND 0x3) 4,
                 shl (gain_index b ! 8) 1]]"

definition pack_class3_30 :: "iLBC_bits \<Rightarrow> int list" where
  "pack_class3_30 b =
     [pack_word [shl (u16 ((idxVec b ! 56) AND 0x3)) 14,
                 shl ((idxVec b ! 57) AND 0x3) 12,
                 shl ((cb_index b ! 0) AND 1) 11,
                 shl (cb_index b ! 1) 4,
                 shr ((cb_index b ! 2) AND 0x78) 3],
      pack_word [shl (u16 (cb_index b ! 2) AND 0x7) 13,
                 shl ((gain_index b ! 0) AND 0x7) 10,
                 shl ((gain_index b ! 1) AND 0x3) 8,
                 shl ((gain_index b ! 2) AND 0x7) 5,
                 shl ((cb_index b ! 3) AND 0x1) 4,
                 shr ((cb_index b ! 4) AND 0x78) 3],
      pack_word [shl (u16 (cb_index b ! 4) AND 0x7) 13,
                 shl (cb_index b ! 5) 6,
                 shl ((cb_index b ! 6) AND 0x1) 5,
                 shr ((cb_index b ! 7) AND 0xF8) 3],
      pack_word [shl (u16 (cb_index b ! 7) AND 0x7) 13,
                 shl (cb_index b ! 8) 5,
                 shl ((cb_index b ! 9) AND 0x1) 4,
                 shr ((cb_index b ! 10) AND 0xF0) 4],
      pack_word [shl (u16 (cb_index b ! 10) AND 0xF) 12,
                 shl (cb_index b ! 11) 4,
                 shl ((cb_index b ! 12) AND 0x1) 3,
                 shr ((cb_index b ! 13) AND 0xE0) 5],
      pack_word [shl (u16 (cb_index b ! 13) AND 0x1F) 11,
                 shl (cb_index b ! 14) 3,
                 shl ((gain_index b ! 3) AND 0x3) 1,
                 (gain_index b ! 4) AND 0x1],
      pack_word [shl (u16 (gain_index b ! 5)) 13,
                 shl ((gain_index b ! 6) AND 0x7) 10,
                 shl ((gain_index b ! 7) AND 0x3) 8,
                 shl (gain_index b ! 8) 5,
                 shl ((gain_index b ! 9) AND 0xF) 1,
                 shr ((gain_index b ! 10) AND 0x4) 2],
      pack_word [shl (u16 (gain_index b ! 10) AND 0x3) 14,
                 shl (gain_index b ! 11) 11,
                 shl ((gain_index b ! 12) AND 0xF) 7,
                 shl ((gain_index b ! 13) AND 0x7) 4,
                 shl (gain_index b ! 14) 1]]"

definition WebRtcIlbcfix_PackBits :: "iLBC_bits \<Rightarrow> int \<Rightarrow> int list" where
  "WebRtcIlbcfix_PackBits b mode =
     (if mode = 20 then pack_class1_20 b else pack_class1_30 b) @ pack_class2 b @
     (if mode = 20 then pack_class2_20 b else pack_class2_30 b) @ pack_class3 b @
     (if mode = 20 then pack_class3_20 b else pack_class3_30 b)"

subsection \<open>Unpacking\<close>

definition unpack_class1_20 :: "int list \<Rightarrow> iLBC_bits \<Rightarrow> iLBC_bits" where
  "unpack_class1_20 ws b =
     (let b = lsf_update (assign_at 0 (shr (ws ! 0) 10)) b;
          b = lsf_update (assign_at 1 (shr (ws ! 0) 3 AND 0x7F)) b;
          b = lsf_update (assign_at 2 (shl ((ws ! 0) AND 0x7) 4)) b;
          b = lsf_update (or_at 2 (shr (ws ! 1) 12 AND 0xF)) b;
          b = startIdx_update (\<lambda>_. s16 (shr (ws ! 1) 10 AND 0x3)) b;
          b = state_first_update (\<lambda>_. s16 (shr (ws ! 1) 9 AND 0x1)) b;
          b = idxForMax_update (\<lambda>_. s16 (shr (ws ! 1) 3 AND 0x3F)) b;
          b = cb_index_update (assign_at 0 (shl ((ws ! 1) AND 0x7) 4)) b;
          b = cb_index_update (or_at 0 (shr (ws ! 2) 12 AND 0xE)) b;
          b = gain_index_update (assign_at 0 (shr (ws ! 2) 8 AND 0x18)) b;
          b = gain_index_update (assign_at 1 (shr (ws ! 2) 7 AND 0x8)) b;
          b = cb_index_update (assign_at 3 (shr (ws ! 2) 2 AND 0xFE)) b;
          b = gain_index_update (assign_at 3 (shl (ws ! 2) 2 AND 0x10)) b;
          b = gain_index_update (assign_at 4 (shl (ws ! 2) 2 AND 0x8)) b;
          b = gain_index_update (assign_at 6 (shl (ws ! 2) 4 AND 0x10)) b
      in b)"

definition unpack_class1_30 :: "int list \<Rightarrow> iLBC_bits \<Rightarrow> iLBC_bits" where
  "unpack_class1_30 ws b =
     (let b = lsf_update (assign_at 0 (shr (ws ! 0) 10)) b;
          b = lsf_update (assign_at 1 (shr (ws ! 0) 3 AND 0x7F)) b;
          b = lsf_update (assign_at 2 (shl ((ws ! 0) AND 0x7) 4)) b;
          b = lsf_update (or_at 2 (shr (ws ! 1) 12 AND 0xF)) b;
          b = lsf_update (assign_at 3 (shr (ws ! 1) 6 AND 0x3F)) b;
          b = lsf_update (assign_at 4 (shl (ws ! 1) 1 AND 0x7E)) b;
          b = lsf_update (or_at 4 (shr (ws ! 2) 15 AND 0x1)) b;
          b = lsf_update (assign_at 5 (shr (ws ! 2) 8 AND 0x7F)) b;
          b = startIdx_update (\<lambda>_. s16 (shr (ws ! 2) 5 AND 0x7)) b;
          b = state_first_update (\<lambda>_. s16 (shr (ws ! 2) 4 AND 0x1)) b;
          b = idxForMax_update (\<lambda>_. s16 (shl (ws ! 2) 2 AND 0x3C)) b;
          b = idxForMax_update (\<lambda>v. s16 (v OR (shr (ws ! 3) 14 AND 0x3))) b;
          b = cb_index_update (assign_at 0 (shr (ws ! 3) 7 AND 0x78)) b;
          b = gain_index_update (assign_at 0 (shr (ws ! 3) 5 AND 0x10)) b;
          b = gain_index_update (assign_at 1 (shr (ws ! 3) 5 AND 0x8)) b;
          b = cb_index_update (assign_at 3 ((ws ! 3) AND 0xFC)) b;
          b = gain_index_update (assign_at 3 (shl (ws ! 3) 3 AND 0x10)) b;
          b = gain_index_update (assign_at 4 (shl (ws ! 3) 3 AND 0x8)) b
      in b)"

text \<open>The loops over \<open>idxVec\<close>: the third bit of the entries of a word, and the two low bits.\<close>

definition unpack_bit2 :: "int \<Rightarrow> nat \<Rightarrow> nat list \<Rightarrow> iLBC_bits \<Rightarrow> iLBC_bits" where
  "unpack_bit2 w start js b = idxVec_update (fold (\<lambda>i. assign_at (start + (15 - i)) (shl (shr w i) 2 AND 0x4)) js) b"

definition unpack_bits01 :: "int \<Rightarrow> nat \<Rightarrow> nat list \<Rightarrow> iLBC_bits \<Rightarrow> iLBC_bits" where
  "unpack_bits01 w start js b = idxVec_update (fold (\<lambda>i. or_at (start + (14 - i) div 2) (shr w i AND 0x3)) js) b"

definition unpack_class2 :: "int list \<Rightarrow> nat \<Rightarrow> iLBC_bits \<Rightarrow> iLBC_bits" where
  "unpack_class2 ws p b = fold (\<lambda>k. unpack_bit2 (ws ! (p + k)) (16 * k) (rev [0..<16])) [0..<3] b"

definition unpack_class3 :: "int list \<Rightarrow> nat \<Rightarrow> iLBC_bits \<Rightarrow> iLBC_bits" where
  "unpack_class3 ws p b = fold (\<lambda>k. unpack_bits01 (ws ! (p + k)) (8 * k) [14, 12, 10, 8, 6, 4, 2, 0]) [0..<7] b"

definition unpack_class2_20 :: "int list \<Rightarrow> iLBC_bits \<Rightarrow> iLBC_bits" where
  "unpack_class2_20 ws b =
     (let b = unpack_bit2 (ws ! 6) 48 (rev [7..<16]) b;
          b = gain_index_update (or_at 1 (shr (ws ! 6) 4 AND 0x4)) b;
          b = gain_index_update (or_at 3 (shr (ws ! 6) 2 AND 0xC)) b;
          b = gain_index_update (or_at 4 (shr (ws ! 6) 1 AND 0x4)) b;
          b = gain_index_update (or_at 6 (shl (ws ! 6) 1 AND 0x8)) b;
          b = gain_index_update (assign_at 7 (shl (ws ! 6) 2 AND 0xC)) b
      in b)"

definition unpack_class2_30 :: "int list \<Rightarrow> iLBC_bits \<Rightarrow> iLBC_bits" where
  "unpack_class2_30 ws b =
     (let b = unpack_bit2 (ws ! 7) 48 (rev [6..<16]) b;
          b = cb_index_update (or_at 0 (shr (ws ! 7) 3 AND 0x6)) b;
          b = gain_index_update (or_at 0 ((ws ! 7) AND 0x8)) b;
          b = gain_index_update (or_at 1 ((ws ! 7) AND 0x4)) b;
          b = cb_index_update (or_at 3 ((ws ! 7) AND 0x2)) b;
          b = cb_index_update (assign_at 6 (shl (ws ! 7) 7 AND 0x80)) b;
          b = cb_index_update (or_at 6 (shr (ws ! 8) 9 AND 0x7E)) b;
          b = cb_index_update (assign_at 9 (shr (ws ! 8) 2 AND 0xFE)) b;
          b = cb_index_update (assign_at 12 (shl (ws ! 8) 5 AND 0xE0)) b;
          b = cb_index_update (or_at 12 (shr (ws ! 9) 11 AND 0x1E)) b;
          b = gain_index_update (or_at 3 (shr (ws ! 9) 8 AND 0xC)) b;
          b = gain_index_update (or_at 4 (shr (ws ! 9) 7 AND 0x6)) b;
          b = gain_index_update (assign_at 6 (shr (ws ! 9) 3 AND 0x18)) b;
          b = gain_index_update (assign_at 7 (shr (ws ! 9) 2 AND 0xC)) b;
          b = gain_index_update (assign_at 9 (shl (ws ! 9) 1 AND 0x10)) b;
          b = gain_index_update (assign_at 10 (shl (ws ! 9) 1 AND 0x8)) b;
          b = gain_index_update (assign_at 12 (shl (ws ! 9) 3 AND 0x10)) b;
          b = gain_index_update (assign_at 13 (shl (ws ! 9) 3 AND 0x8)) b
      in b)"

definition unpack_class3_20 :: "int list \<Rightarrow> iLBC_bits \<Rightarrow> iLBC_bits" where
  "unpack_class3_20 ws b =
     (let b = idxVec_update (or_at 56 (shr (ws ! 14) 14 AND 0x3)) b;
          b = cb_index_update (or_at 0 (shr (ws ! 14) 13 AND 0x1)) b;
          b = cb_index_update (assign_at 1 (shr (ws ! 14) 6 AND 0x7F)) b;
          b = cb_index_update (assign_at 2 (shl (ws ! 14) 1 AND 0x7E)) b;
          b = cb_index_update (or_at 2 (shr (ws ! 15) 15 AND 0x1)) b;
          b = gain_index_update (or_at 0 (shr (ws ! 15) 12 AND 0x7)) b;
          b = gain_index_update (or_at 1 (shr (ws ! 15) 10 AND 0x3)) b;
          b = gain_index_update (assign_at 2 (shr (ws ! 15) 7 AND 0x7)) b;
          b = cb_index_update (or_at 3 (shr (ws ! 15) 6 AND 0x1)) b;
          b = cb_index_update (assign_at 4 (shl (ws ! 15) 1 AND 0x7E)) b;
          b = cb_index_update (or_at 4 (shr (ws ! 16) 15 AND 0x1)) b;
          b = cb_index_update (assign_at 5 (shr (ws ! 16) 8 AND 0x7F)) b;
          b = cb_index_update (assign_at 6 ((ws ! 16) AND 0xFF)) b;
          b = cb_index_update (assign_at 7 (shr (ws ! 17) 8)) b;
          b = cb_index_update (assign_at 8 ((ws ! 17) AND 0xFF)) b;
          b = gain_index_update (or_at 3 (shr (ws ! 18) 14 AND 0x3)) b;
          b = gain_index_update (or_at 4 (shr (ws ! 18) 12 AND 0x3)) b;
          b = gain_index_update (assign_at 5 (shr (ws ! 18) 9 AND 0x7)) b;
          b = gain_index_update (or_at 6 (shr (ws ! 18) 6 AND 0x7)) b;
          b = gain_index_update (or_at 7 (shr (ws ! 18) 4 AND 0x3)) b;
          b = gain_index_update (assign_at 8 (shr (ws ! 18) 1 AND 0x7)) b
      in b)"

definition unpack_class3_30 :: "int list \<Rightarrow> iLBC_bits \<Rightarrow> iLBC_bits" where
  "unpack_class3_30 ws b =
     (let b = idxVec_update (or_at 56 (shr (ws ! 17) 14 AND 0x3)) b;
          b = idxVec_update (or_at 57 (shr (ws ! 17) 12 AND 0x3)) b;
          b = cb_index_update (or_at 0 (shr (ws ! 17) 11 AND 1)) b;
          b = cb_index_update (assign_at 1 (shr (ws ! 17) 4 AND 0x7F)) b;
          b = cb_index_update (assign_at 2 (shl (ws ! 17) 3 AND 0x78)) b;
          b = cb_index_update (or_at 2 (shr (ws ! 18) 13 AND 0x7)) b;
          b = gain_index_update (or_at 0 (shr (ws ! 18) 10 AND 0x7)) b;
          b = gain_index_update (or_at 1 (shr (ws ! 18) 8 AND 0x3)) b;
          b = gain_index_update (assign_at 2 (shr (ws ! 18) 5 AND 0x7)) b;
          b = cb_index_update (or_at 3 (shr (ws ! 18) 4 AND 0x1)) b;
          b = cb_index_update (assign_at 4 (shl (ws ! 18) 3 AND 0x78)) b;
          b = cb_index_update (or_at 4 (shr (ws ! 19) 13 AND 0x7)) b;
          b = cb_index_update (assign_at 5 (shr (ws ! 19) 6 AND 0x7F)) b;
          b = cb_index_update (or_at 6 (shr (ws ! 19) 5 AND 0x1)) b;
          b = cb_index_update (assign_at 7 (shl (ws ! 19) 3 AND 0xF8)) b;
          b = cb_index_update (or_at 7 (shr (ws ! 20) 13 AND 0x7)) b;
          b = cb_index_update (assign_at 8 (shr (ws ! 20) 5 AND 0xFF)) b;
          b = cb_index_update (or_at 9 (shr (ws ! 20) 4 AND 0x1)) b;
          b = cb_index_update (assign_at 10 (shl (ws ! 20) 4 AND 0xF0)) b;
          b = cb_index_update (or_at 10 (shr (ws ! 21) 12 AND 0xF)) b;
          b = cb_index_update (assign_at 11 (shr (ws ! 21) 4 AND 0xFF)) b;
          b = cb_index_update (or_at 12 (shr (ws ! 21) 3 AND 0x1)) b;
          b = cb_index_update (assign_at 13 (shl (ws ! 21) 5 AND 0xE0)) b;
          b = cb_index_update (or_at 13 (shr (ws ! 22) 11 AND 0x1F)) b;
          b = cb_index_update (assign_at 14 (shr (ws ! 22) 3 AND 0xFF)) b;
          b = gain_index_update (or_at 3 (shr (ws ! 22) 1 AND 0x3)) b;
          b = gain_index_update (or_at 4 ((ws ! 22) AND 0x1)) b;
          b = gain_index_update (assign_at 5 (shr (ws ! 23) 13 AND 0x7)) b;
          b = gain_index_update (or_at 6 (shr (ws ! 23) 10 AND 0x7)) b;
          b = gain_index_update (or_at 7 (shr (ws ! 23) 8 AND 0x3)) b;
          b = gain_index_update (assign_at 8 (shr (ws ! 23) 5 AND 0x7)) b;
          b = gain_index_update (or_at 9 (shr (ws ! 23) 1 AND 0xF)) b;
          b = gain_index_update (or_at 10 (shl (ws ! 23) 2 AND 0x4)) b;
          b = gain_index_update (or_at 10 (shr (ws ! 24) 14 AND 0x3)) b;
          b = gain_index_update (assign_at 11 (shr (ws ! 24) 11 AND 0x7)) b;
          b = gain_index_update (or_at 12 (shr (ws ! 24) 7 AND 0xF)) b;
          b = gain_index_update (or_at 13 (shr (ws ! 24) 4 AND 0x7)) b;
          b = gain_index_update (assign_at 14 (shr (ws ! 24) 1 AND 0x7)) b
      in b)"

definition WebRtcIlbcfix_UnpackBits :: "int list \<Rightarrow> iLBC_bits \<Rightarrow> int \<Rightarrow> int \<times> iLBC_bits" where
  "WebRtcIlbcfix_UnpackBits ws b mode =
     (if mode = 20
      then let b = unpack_class1_20 ws b; b = unpack_class2 ws 3 b; b = unpack_class2_20 ws b;
               b = unpack_class3 ws 7 b; b = unpack_class3_20 ws b
           in (if ws ! 18 AND 0x1 = 1 then 1 else 0, b)
      else let b = unpack_class1_30 ws b; b = unpack_class2 ws 4 b; b = unpack_class2_30 ws b;
               b = unpack_class3 ws 10 b; b = unpack_class3_30 ws b
           in (if ws ! 24 AND 0x1 = 1 then 1 else 0, b))"

section \<open>Bits\<close>

text \<open>A name for the bits of an integer, so that only the following rules rewrite it.\<close>

definition tst :: "int \<Rightarrow> nat \<Rightarrow> bool" where
  "tst x n = bit x n"

named_theorems tst_simps

lemma tst_and [tst_simps]: "tst (x AND y) n \<longleftrightarrow> tst x n \<and> tst y n"
  and tst_or [tst_simps]: "tst (x OR y) n \<longleftrightarrow> tst x n \<or> tst y n"
  and tst_shl [tst_simps]: "tst (shl x k) n \<longleftrightarrow> k \<le> n \<and> tst x (n - k)"
  and tst_shr [tst_simps]: "tst (shr x k) n \<longleftrightarrow> tst x (k + n)"
  and tst_s16 [tst_simps]: "tst (s16 x) n \<longleftrightarrow> tst x (min 15 n)"
  and tst_u16 [tst_simps]: "tst (u16 x) n \<longleftrightarrow> n < 16 \<and> tst x n"
  and tst_numeral [tst_simps]: "tst (numeral m) n \<longleftrightarrow> odd (numeral m div 2 ^ n :: int)"
  and tst_1 [tst_simps]: "tst 1 n \<longleftrightarrow> n = 0"
  and tst_0 [tst_simps]: "\<not> tst 0 n"
  by (simp_all add: tst_def bit_and_iff bit_or_iff shl_push_bit shr_drop_bit bit_push_bit_iff_int bit_drop_bit_eq
      s16_signed_take_bit u16_take_bit bit_signed_take_bit_iff bit_take_bit_iff min.commute bit_iff_odd [of "numeral m"] bit_1_iff)

lemma tst_pack_word [tst_simps]: "tst (pack_word es) n \<longleftrightarrow> n < 16 \<and> (\<exists>e \<in> set es. tst e n)"
proof -
  have "tst (fold (\<lambda>e w. u16 (w OR e)) es w) n \<longleftrightarrow> n < 16 \<and> (tst w n \<or> (\<exists>e \<in> set es. tst e n))" if "is_u16 w" for w
    using that
  proof (induction es arbitrary: w)
    case Nil
    then have "u16 w = w" by (simp add: is_u16_def u16_id)
    then have "tst w n = tst (u16 w) n" by simp
    then show ?case by (simp add: tst_u16)
  qed (auto simp: tst_simps)
  from this [of 0] show ?thesis by (simp add: pack_word_def tst_0 is_u16_def)
qed

lemma is_u16_pack_word [simp]: "is_u16 (pack_word es)"
proof -
  have "is_u16 w \<Longrightarrow> is_u16 (fold (\<lambda>e w. u16 (w OR e)) es w)" for w
    by (induction es arbitrary: w) auto
  then show ?thesis by (simp add: pack_word_def is_u16_def)
qed

lemma tst_eqI:
  assumes "is_s16 x" and "is_s16 y" and "\<forall>n<16. tst x n = tst y n"
  shows "x = y"
proof -
  have "tst (s16 x) n = tst (s16 y) n" for n using assms(3) by (simp add: tst_s16)
  then have "s16 x = s16 y" by (simp add: tst_def bit_eq_iff)
  then show ?thesis using assms(1,2) by (simp add: s16_conv)
qed

lemma less_16: "(\<forall>n<16. P n) \<longleftrightarrow> P 0 \<and> P (Suc 0) \<and> P 2 \<and> P 3 \<and> P 4 \<and> P 5 \<and> P 6 \<and> P 7 \<and> P 8 \<and> P 9
    \<and> P 10 \<and> P 11 \<and> P 12 \<and> P 13 \<and> P 14 \<and> P (15 :: nat)"
  by (simp add: numeral_eq_Suc All_less_Suc) blast

lemma nth_assign_at [tst_simps]: "i < length v \<Longrightarrow> assign_at i e v ! j = (if i = j then s16 e else v ! j)"
  and nth_or_at [tst_simps]: "i < length v \<Longrightarrow> or_at i e v ! j = (if i = j then s16 (v ! i OR e) else v ! j)"
  by (simp_all add: assign_at_def or_at_def)

lemma length_at [simp]: "length (assign_at i e v) = length v" "length (or_at i e v) = length v"
  by (simp_all add: assign_at_def or_at_def)

section \<open>Ranges of the parameters\<close>

definition lsf_widths :: "int \<Rightarrow> nat list" where
  "lsf_widths mode = (if mode = 20 then [6, 7, 7] else [6, 7, 7, 6, 7, 7])"
definition cb_widths :: "int \<Rightarrow> nat list" where
  "cb_widths mode = (if mode = 20 then [7, 7, 7, 8, 7, 7, 8, 8, 8] else [7, 7, 7, 8, 7, 7, 8, 8, 8, 8, 8, 8, 8, 8, 8])"
definition gain_widths :: "int \<Rightarrow> nat list" where
  "gain_widths mode = (if mode = 20 then [5, 4, 3, 5, 4, 3, 5, 4, 3] else [5, 4, 3, 5, 4, 3, 5, 4, 3, 5, 4, 3, 5, 4, 3])"
definition idx_widths :: "int \<Rightarrow> nat list" where
  "idx_widths mode = replicate (if mode = 20 then 57 else 58) 3"

definition fields_in :: "nat list \<Rightarrow> int list \<Rightarrow> bool" where
  "fields_in ws v \<longleftrightarrow> (\<forall>i < length ws. 0 \<le> v ! i \<and> v ! i < 2 ^ (ws ! i))"

definition bits_shape :: "iLBC_bits \<Rightarrow> bool" where
  "bits_shape b \<longleftrightarrow> length (lsf b) = 6 \<and> length (cb_index b) = 15 \<and> length (gain_index b) = 15 \<and> length (idxVec b) = 58"

definition bits_ok :: "int \<Rightarrow> iLBC_bits \<Rightarrow> bool" where
  "bits_ok mode b \<longleftrightarrow> bits_shape b \<and> fields_in (lsf_widths mode) (lsf b) \<and> fields_in (cb_widths mode) (cb_index b)
     \<and> fields_in (gain_widths mode) (gain_index b) \<and> fields_in (idx_widths mode) (idxVec b)
     \<and> 0 \<le> startIdx b \<and> startIdx b < (if mode = 20 then 4 else 8) \<and> 0 \<le> state_first b \<and> state_first b < 2
     \<and> 0 \<le> idxForMax b \<and> idxForMax b < 64"

lemma tst_high:
  assumes "0 \<le> x" and "x < 2 ^ w" and "w \<le> k"
  shows "\<not> tst x k"
proof -
  have "x < 2 ^ k" using assms(2,3) by (meson order_less_le_trans one_le_numeral power_increasing)
  then show ?thesis using assms(1) by (simp add: tst_def bit_iff_odd)
qed

lemma fields_tst: "fields_in ws v \<Longrightarrow> i < length ws \<Longrightarrow> ws ! i \<le> k \<Longrightarrow> tst (v ! i) k = False"
  using tst_high [of "v ! i" "ws ! i" k] by (auto simp: fields_in_def)

lemma fields_s16:
  assumes "fields_in ws v" and "i < length ws" and "ws ! i \<le> 15"
  shows "is_s16 (v ! i)"
proof -
  have "(2 :: int) ^ (ws ! i) \<le> 2 ^ 15" using assms(3) by (intro power_increasing) auto
  then show ?thesis using assms(1,2) by (fastforce simp: fields_in_def is_s16_def)
qed

end
