(* ===== verification/Ilbc_Roundtrip.thy ===== *)
theory Ilbc_Roundtrip
  imports Ilbc_Bits
begin

text \<open>
  The two directions of the iLBC bit packing of \<open>Ilbc_Bits\<close>. \<open>unpack_20_values\<close> and \<open>unpack_30_values\<close> read every parameter off the
  words of a stream, \<open>idx_unpack_20\<close> and \<open>idx_unpack_30\<close> the residual indices of the loops; the round trips then compare
  bit by bit.
\<close>

section \<open>The loops\<close>

lemma fold_update_nth:
  fixes g :: "nat \<Rightarrow> 'a \<Rightarrow> 'a"
  assumes "distinct (map f js)" and "\<forall>i \<in> set js. f i < length v"
  shows "length (fold (\<lambda>i v. v[f i := g i (v ! f i)]) js v) = length v"
    and "i \<in> set js \<Longrightarrow> fold (\<lambda>i v. v[f i := g i (v ! f i)]) js v ! f i = g i (v ! f i)"
    and "j \<notin> f ` set js \<Longrightarrow> fold (\<lambda>i v. v[f i := g i (v ! f i)]) js v ! j = v ! j"
proof -
  have "length (fold (\<lambda>i v. v[f i := g i (v ! f i)]) js v) = length v
    \<and> (\<forall>i \<in> set js. fold (\<lambda>i v. v[f i := g i (v ! f i)]) js v ! f i = g i (v ! f i))
    \<and> (\<forall>j. j \<notin> f ` set js \<longrightarrow> fold (\<lambda>i v. v[f i := g i (v ! f i)]) js v ! j = v ! j)"
    using assms by (induction js arbitrary: v) (auto simp: nth_list_update image_iff)
  then show "length (fold (\<lambda>i v. v[f i := g i (v ! f i)]) js v) = length v"
    and "i \<in> set js \<Longrightarrow> fold (\<lambda>i v. v[f i := g i (v ! f i)]) js v ! f i = g i (v ! f i)"
    and "j \<notin> f ` set js \<Longrightarrow> fold (\<lambda>i v. v[f i := g i (v ! f i)]) js v ! j = v ! j"
    by blast+
qed

lemma unpack_bit2_nth:
  assumes "s + (16 - lo) \<le> length (idxVec b)"
  shows "idxVec (unpack_bit2 w s (rev [lo..<16]) b) ! j =
      (if s \<le> j \<and> j < s + (16 - lo) then s16 (shl (shr w (15 - (j - s))) 2 AND 4) else idxVec b ! j)"
    and "length (idxVec (unpack_bit2 w s (rev [lo..<16]) b)) = length (idxVec b)"
proof -
  let ?f = "\<lambda>i. s + (15 - i)" and ?g = "\<lambda>i _. s16 (shl (shr w i) 2 AND 4)"
  have e: "idxVec (unpack_bit2 w s (rev [lo..<16]) b) = fold (\<lambda>i v. v[?f i := ?g i (v ! ?f i)]) (rev [lo..<16]) (idxVec b)"
    by (simp add: unpack_bit2_def assign_at_def [abs_def])
  have d: "distinct (map ?f (rev [lo..<16]))" "\<forall>i \<in> set (rev [lo..<16]). ?f i < length (idxVec b)"
    using assms by (auto simp: distinct_map inj_on_def)
  note f = fold_update_nth [OF d, where g = ?g, folded e]
  show "length (idxVec (unpack_bit2 w s (rev [lo..<16]) b)) = length (idxVec b)" by (rule f(1))
  show "idxVec (unpack_bit2 w s (rev [lo..<16]) b) ! j =
      (if s \<le> j \<and> j < s + (16 - lo) then s16 (shl (shr w (15 - (j - s))) 2 AND 4) else idxVec b ! j)"
  proof (cases "s \<le> j \<and> j < s + (16 - lo)")
    case True
    then have "15 - (j - s) \<in> set (rev [lo..<16])" "?f (15 - (j - s)) = j" by auto
    then show ?thesis using f(2) [of "15 - (j - s)"] True by simp
  next
    case False
    then have "j \<notin> ?f ` set (rev [lo..<16])" by auto
    then show ?thesis unfolding if_not_P [OF False] by (rule f(3))
  qed
qed

lemma evens_below_16: "[14, 12, 10, 8, 6, 4, 2, 0] = map (\<lambda>m. 2 * m) (rev [0..<8])"
  by (simp add: upt_rec)

lemma unpack_bits01_nth:
  assumes "s + 8 \<le> length (idxVec b)"
  shows "idxVec (unpack_bits01 w s [14, 12, 10, 8, 6, 4, 2, 0] b) ! j =
      (if s \<le> j \<and> j < s + 8 then s16 (idxVec b ! j OR (shr w (14 - 2 * (j - s)) AND 3)) else idxVec b ! j)"
    and "length (idxVec (unpack_bits01 w s [14, 12, 10, 8, 6, 4, 2, 0] b)) = length (idxVec b)"
proof -
  let ?f = "\<lambda>i. s + (14 - i) div 2" and ?g = "\<lambda>i x. s16 (x OR (shr w i AND 3))" and ?is = "[14, 12, 10, 8, 6, 4, 2, 0]"
  have e: "idxVec (unpack_bits01 w s ?is b) = fold (\<lambda>i v. v[?f i := ?g i (v ! ?f i)]) ?is (idxVec b)"
    unfolding unpack_bits01_def or_at_def [abs_def] by simp
  have d: "distinct (map ?f ?is)" "\<forall>i \<in> set ?is. ?f i < length (idxVec b)" using assms by auto
  note f = fold_update_nth [OF d, where g = ?g, folded e]
  show "length (idxVec (unpack_bits01 w s ?is b)) = length (idxVec b)" by (rule f(1))
  show "idxVec (unpack_bits01 w s ?is b) ! j =
      (if s \<le> j \<and> j < s + 8 then s16 (idxVec b ! j OR (shr w (14 - 2 * (j - s)) AND 3)) else idxVec b ! j)"
  proof (cases "s \<le> j \<and> j < s + 8")
    case True
    define k where "k = j - s"
    have k: "k < 8" "j = s + k" using True by (auto simp: k_def)
    then have "14 - 2 * k = 2 * (7 - k)" "14 - (14 - 2 * k) = 2 * k" by simp_all
    then have "14 - 2 * k \<in> set ?is" "?f (14 - 2 * k) = j" unfolding evens_below_16 using k by auto
    then show ?thesis using f(2) [of "14 - 2 * k"] True k by simp
  next
    case False
    then have "j \<notin> ?f ` set ?is" by auto
    then show ?thesis unfolding if_not_P [OF False] by (rule f(3))
  qed
qed

lemma tst_pack_class2 [tst_simps]:
  "k < 3 \<Longrightarrow> tst (pack_class2 b ! k) n \<longleftrightarrow> n < 16 \<and> tst (idxVec b ! (16 * k + (15 - n))) 2"
proof -
  assume k: "k < 3"
  have "tst (pack_class2 b ! k) n \<longleftrightarrow> n < 16 \<and> (\<exists>i \<in> {0..<16}. tst (shl (shr (u16 (idxVec b ! (16 * k + (15 - i)) AND 4)) 2) i) n)"
    using k by (simp add: pack_class2_def tst_pack_word)
  also have "\<dots> \<longleftrightarrow> n < 16 \<and> (\<exists>i \<in> {0..<16}. i = n \<and> tst (idxVec b ! (16 * k + (15 - i))) 2)"
    by (intro conj_cong bex_cong refl) (auto simp: tst_simps simp flip: numeral_2_eq_2)
  finally show ?thesis by auto
qed

lemma tst_pack_class3 [tst_simps]:
  "k < 7 \<Longrightarrow> tst (pack_class3 b ! k) n \<longleftrightarrow> n < 16 \<and> tst (idxVec b ! (8 * k + (7 - n div 2))) (n mod 2)"
proof -
  assume k: "k < 7"
  have "tst (pack_class3 b ! k) n \<longleftrightarrow>
      n < 16 \<and> (\<exists>m \<in> {0..<8}. tst (shl (u16 (idxVec b ! (8 * k + (14 - 2 * m) div 2) AND 3)) (2 * m)) n)"
    using k unfolding pack_class3_def evens_below_16 by (simp add: tst_pack_word)
  also have "\<dots> \<longleftrightarrow> n < 16 \<and> (\<exists>m \<in> {0..<8}. m = n div 2 \<and> tst (idxVec b ! (8 * k + (7 - m))) (n mod 2))"
  proof (intro conj_cong bex_cong refl)
    fix m assume "m \<in> {0..<8::nat}"
    have d: "(14 - 2 * m) div 2 = 7 - m" by simp
    have t: "tst 3 x \<longleftrightarrow> x < 2" for x
      using bit_mask_iff [where ?'a = int, of 2 x] by (simp add: tst_def mask_eq_exp_minus_1)
    have "tst (shl (u16 (idxVec b ! (8 * k + (14 - 2 * m) div 2) AND 3)) (2 * m)) n
        \<longleftrightarrow> (2 * m \<le> n \<and> n - 2 * m < 2) \<and> tst (idxVec b ! (8 * k + (7 - m))) (n - 2 * m)"
      unfolding tst_shl tst_u16 tst_and d t by auto
    moreover have "2 * m \<le> n \<and> n - 2 * m < 2 \<longleftrightarrow> m = n div 2" by presburger
    moreover have "n - 2 * (n div 2) = n mod 2" by presburger
    ultimately show "tst (shl (u16 (idxVec b ! (8 * k + (14 - 2 * m) div 2) AND 3)) (2 * m)) n
        \<longleftrightarrow> m = n div 2 \<and> tst (idxVec b ! (8 * k + (7 - m))) (n mod 2)" by metis
  qed
  finally show ?thesis by auto
qed

lemma length_pack [simp]: "length (pack_class1_20 b) = 3" "length (pack_class1_30 b) = 4" "length (pack_class2 b) = 3"
  "length (pack_class2_20 b) = 1" "length (pack_class2_30 b) = 3" "length (pack_class3 b) = 7"
  "length (pack_class3_20 b) = 5" "length (pack_class3_30 b) = 8"
  by (simp_all add: pack_class1_20_def pack_class1_30_def pack_class2_def pack_class2_20_def pack_class2_30_def
      pack_class3_def pack_class3_20_def pack_class3_30_def)

text \<open>The words of a stream, by class.\<close>

lemma pack20_nth:
  "WebRtcIlbcfix_PackBits b 20 ! 0 = pack_class1_20 b ! 0"
  "WebRtcIlbcfix_PackBits b 20 ! Suc 0 = pack_class1_20 b ! Suc 0"
  "WebRtcIlbcfix_PackBits b 20 ! 2 = pack_class1_20 b ! 2"
  "WebRtcIlbcfix_PackBits b 20 ! 3 = pack_class2 b ! 0"
  "WebRtcIlbcfix_PackBits b 20 ! 4 = pack_class2 b ! Suc 0"
  "WebRtcIlbcfix_PackBits b 20 ! 5 = pack_class2 b ! 2"
  "WebRtcIlbcfix_PackBits b 20 ! 6 = pack_class2_20 b ! 0"
  "WebRtcIlbcfix_PackBits b 20 ! 7 = pack_class3 b ! 0"
  "WebRtcIlbcfix_PackBits b 20 ! 8 = pack_class3 b ! Suc 0"
  "WebRtcIlbcfix_PackBits b 20 ! 9 = pack_class3 b ! 2"
  "WebRtcIlbcfix_PackBits b 20 ! 10 = pack_class3 b ! 3"
  "WebRtcIlbcfix_PackBits b 20 ! 11 = pack_class3 b ! 4"
  "WebRtcIlbcfix_PackBits b 20 ! 12 = pack_class3 b ! 5"
  "WebRtcIlbcfix_PackBits b 20 ! 13 = pack_class3 b ! 6"
  "WebRtcIlbcfix_PackBits b 20 ! 14 = pack_class3_20 b ! 0"
  "WebRtcIlbcfix_PackBits b 20 ! 15 = pack_class3_20 b ! Suc 0"
  "WebRtcIlbcfix_PackBits b 20 ! 16 = pack_class3_20 b ! 2"
  "WebRtcIlbcfix_PackBits b 20 ! 17 = pack_class3_20 b ! 3"
  "WebRtcIlbcfix_PackBits b 20 ! 18 = pack_class3_20 b ! 4"
  by (simp_all add: WebRtcIlbcfix_PackBits_def nth_append)

lemma pack30_nth:
  "WebRtcIlbcfix_PackBits b 30 ! 0 = pack_class1_30 b ! 0"
  "WebRtcIlbcfix_PackBits b 30 ! Suc 0 = pack_class1_30 b ! Suc 0"
  "WebRtcIlbcfix_PackBits b 30 ! 2 = pack_class1_30 b ! 2"
  "WebRtcIlbcfix_PackBits b 30 ! 3 = pack_class1_30 b ! 3"
  "WebRtcIlbcfix_PackBits b 30 ! 4 = pack_class2 b ! 0"
  "WebRtcIlbcfix_PackBits b 30 ! 5 = pack_class2 b ! Suc 0"
  "WebRtcIlbcfix_PackBits b 30 ! 6 = pack_class2 b ! 2"
  "WebRtcIlbcfix_PackBits b 30 ! 7 = pack_class2_30 b ! 0"
  "WebRtcIlbcfix_PackBits b 30 ! 8 = pack_class2_30 b ! Suc 0"
  "WebRtcIlbcfix_PackBits b 30 ! 9 = pack_class2_30 b ! 2"
  "WebRtcIlbcfix_PackBits b 30 ! 10 = pack_class3 b ! 0"
  "WebRtcIlbcfix_PackBits b 30 ! 11 = pack_class3 b ! Suc 0"
  "WebRtcIlbcfix_PackBits b 30 ! 12 = pack_class3 b ! 2"
  "WebRtcIlbcfix_PackBits b 30 ! 13 = pack_class3 b ! 3"
  "WebRtcIlbcfix_PackBits b 30 ! 14 = pack_class3 b ! 4"
  "WebRtcIlbcfix_PackBits b 30 ! 15 = pack_class3 b ! 5"
  "WebRtcIlbcfix_PackBits b 30 ! 16 = pack_class3 b ! 6"
  "WebRtcIlbcfix_PackBits b 30 ! 17 = pack_class3_30 b ! 0"
  "WebRtcIlbcfix_PackBits b 30 ! 18 = pack_class3_30 b ! Suc 0"
  "WebRtcIlbcfix_PackBits b 30 ! 19 = pack_class3_30 b ! 2"
  "WebRtcIlbcfix_PackBits b 30 ! 20 = pack_class3_30 b ! 3"
  "WebRtcIlbcfix_PackBits b 30 ! 21 = pack_class3_30 b ! 4"
  "WebRtcIlbcfix_PackBits b 30 ! 22 = pack_class3_30 b ! 5"
  "WebRtcIlbcfix_PackBits b 30 ! 23 = pack_class3_30 b ! 6"
  "WebRtcIlbcfix_PackBits b 30 ! 24 = pack_class3_30 b ! 7"
  by (simp_all add: WebRtcIlbcfix_PackBits_def nth_append)

lemma Suc_Suc_0_eq: "Suc (Suc 0) = 2"
  by simp

lemmas [tst_simps] = Suc_Suc_0_eq

lemma fields_small: "fields_in ws v \<Longrightarrow> i < length ws \<Longrightarrow> \<forall>w \<in> set ws. w \<le> 15 \<Longrightarrow> is_s16 (v ! i)"
  by (rule fields_s16) (auto dest: nth_mem)

lemmas pack_single_defs = pack_class1_20_def pack_class1_30_def pack_class2_20_def pack_class2_30_def pack_class3_20_def pack_class3_30_def
lemmas unpack_single_defs = unpack_class1_20_def unpack_class1_30_def unpack_class2_20_def unpack_class2_30_def
  unpack_class3_20_def unpack_class3_30_def

lemma upts: "[0..<3] = [0, Suc 0, 2]" "[0..<7] = [0, Suc 0, 2, 3, 4, 5, 6]"
  by (simp_all add: upt_rec)

lemma idx_loops [simp]:
  "cb_index (unpack_bit2 w s js b) = cb_index b" "gain_index (unpack_bit2 w s js b) = gain_index b"
  "lsf (unpack_bit2 w s js b) = lsf b" "startIdx (unpack_bit2 w s js b) = startIdx b"
  "state_first (unpack_bit2 w s js b) = state_first b" "idxForMax (unpack_bit2 w s js b) = idxForMax b"
  "firstbits (unpack_bit2 w s js b) = firstbits b"
  "cb_index (unpack_bits01 w s js b) = cb_index b" "gain_index (unpack_bits01 w s js b) = gain_index b"
  "lsf (unpack_bits01 w s js b) = lsf b" "startIdx (unpack_bits01 w s js b) = startIdx b"
  "state_first (unpack_bits01 w s js b) = state_first b" "idxForMax (unpack_bits01 w s js b) = idxForMax b"
  "firstbits (unpack_bits01 w s js b) = firstbits b"
  by (simp_all add: unpack_bit2_def unpack_bits01_def)

lemmas unpack_simps = WebRtcIlbcfix_UnpackBits_def unpack_single_defs unpack_class2_def unpack_class3_def upts Let_def tst_simps
lemmas field_bits = less_16 tst_simps fields_tst pack_single_defs


text \<open>The values of the parameters as functions of the words.\<close>

lemma unpack_20_values:
  fixes ws :: "int list"
  assumes b0: "bits_shape b0"
  defines "r \<equiv> snd (WebRtcIlbcfix_UnpackBits ws b0 20)"
  shows "lsf r ! 0 = s16 (shr (ws ! 0) 10)"
    and "lsf r ! 1 = s16 (shr (ws ! 0) 3 AND 0x7F)"
    and "lsf r ! 2 = s16 (s16 (shl ((ws ! 0) AND 0x7) 4) OR (shr (ws ! 1) 12 AND 0xF))"
    and "startIdx r = s16 (shr (ws ! 1) 10 AND 0x3)"
    and "state_first r = s16 (shr (ws ! 1) 9 AND 0x1)"
    and "idxForMax r = s16 (shr (ws ! 1) 3 AND 0x3F)"
    and "cb_index r ! 0 = s16 (s16 (s16 (shl ((ws ! 1) AND 0x7) 4) OR (shr (ws ! 2) 12 AND 0xE)) OR (shr (ws ! 14) 13 AND 0x1))"
    and "gain_index r ! 0 = s16 (s16 (shr (ws ! 2) 8 AND 0x18) OR (shr (ws ! 15) 12 AND 0x7))"
    and "gain_index r ! 1 = s16 (s16 (s16 (shr (ws ! 2) 7 AND 0x8) OR (shr (ws ! 6) 4 AND 0x4)) OR (shr (ws ! 15) 10 AND 0x3))"
    and "cb_index r ! 3 = s16 (s16 (shr (ws ! 2) 2 AND 0xFE) OR (shr (ws ! 15) 6 AND 0x1))"
    and "gain_index r ! 3 = s16 (s16 (s16 (shl (ws ! 2) 2 AND 0x10) OR (shr (ws ! 6) 2 AND 0xC)) OR (shr (ws ! 18) 14 AND 0x3))"
    and "gain_index r ! 4 = s16 (s16 (s16 (shl (ws ! 2) 2 AND 0x8) OR (shr (ws ! 6) 1 AND 0x4)) OR (shr (ws ! 18) 12 AND 0x3))"
    and "gain_index r ! 6 = s16 (s16 (s16 (shl (ws ! 2) 4 AND 0x10) OR (shl (ws ! 6) 1 AND 0x8)) OR (shr (ws ! 18) 6 AND 0x7))"
    and "gain_index r ! 7 = s16 (s16 (shl (ws ! 6) 2 AND 0xC) OR (shr (ws ! 18) 4 AND 0x3))"
    and "cb_index r ! 1 = s16 (shr (ws ! 14) 6 AND 0x7F)"
    and "cb_index r ! 2 = s16 (s16 (shl (ws ! 14) 1 AND 0x7E) OR (shr (ws ! 15) 15 AND 0x1))"
    and "gain_index r ! 2 = s16 (shr (ws ! 15) 7 AND 0x7)"
    and "cb_index r ! 4 = s16 (s16 (shl (ws ! 15) 1 AND 0x7E) OR (shr (ws ! 16) 15 AND 0x1))"
    and "cb_index r ! 5 = s16 (shr (ws ! 16) 8 AND 0x7F)"
    and "cb_index r ! 6 = s16 ((ws ! 16) AND 0xFF)"
    and "cb_index r ! 7 = s16 (shr (ws ! 17) 8)"
    and "cb_index r ! 8 = s16 ((ws ! 17) AND 0xFF)"
    and "gain_index r ! 5 = s16 (shr (ws ! 18) 9 AND 0x7)"
    and "gain_index r ! 8 = s16 (shr (ws ! 18) 1 AND 0x7)"
proof -
  have l: "length (cb_index b0) = 15" "length (gain_index b0) = 15" "length (lsf b0) = 6" using b0 by (simp_all add: bits_shape_def)
  show "lsf r ! 0 = s16 (shr (ws ! 0) 10)"
    "lsf r ! 1 = s16 (shr (ws ! 0) 3 AND 0x7F)"
    "lsf r ! 2 = s16 (s16 (shl ((ws ! 0) AND 0x7) 4) OR (shr (ws ! 1) 12 AND 0xF))"
    "startIdx r = s16 (shr (ws ! 1) 10 AND 0x3)"
    "state_first r = s16 (shr (ws ! 1) 9 AND 0x1)"
    "idxForMax r = s16 (shr (ws ! 1) 3 AND 0x3F)"
    "cb_index r ! 0 = s16 (s16 (s16 (shl ((ws ! 1) AND 0x7) 4) OR (shr (ws ! 2) 12 AND 0xE)) OR (shr (ws ! 14) 13 AND 0x1))"
    "gain_index r ! 0 = s16 (s16 (shr (ws ! 2) 8 AND 0x18) OR (shr (ws ! 15) 12 AND 0x7))"
    "gain_index r ! 1 = s16 (s16 (s16 (shr (ws ! 2) 7 AND 0x8) OR (shr (ws ! 6) 4 AND 0x4)) OR (shr (ws ! 15) 10 AND 0x3))"
    "cb_index r ! 3 = s16 (s16 (shr (ws ! 2) 2 AND 0xFE) OR (shr (ws ! 15) 6 AND 0x1))"
    "gain_index r ! 3 = s16 (s16 (s16 (shl (ws ! 2) 2 AND 0x10) OR (shr (ws ! 6) 2 AND 0xC)) OR (shr (ws ! 18) 14 AND 0x3))"
    "gain_index r ! 4 = s16 (s16 (s16 (shl (ws ! 2) 2 AND 0x8) OR (shr (ws ! 6) 1 AND 0x4)) OR (shr (ws ! 18) 12 AND 0x3))"
    "gain_index r ! 6 = s16 (s16 (s16 (shl (ws ! 2) 4 AND 0x10) OR (shl (ws ! 6) 1 AND 0x8)) OR (shr (ws ! 18) 6 AND 0x7))"
    "gain_index r ! 7 = s16 (s16 (shl (ws ! 6) 2 AND 0xC) OR (shr (ws ! 18) 4 AND 0x3))"
    "cb_index r ! 1 = s16 (shr (ws ! 14) 6 AND 0x7F)"
    "cb_index r ! 2 = s16 (s16 (shl (ws ! 14) 1 AND 0x7E) OR (shr (ws ! 15) 15 AND 0x1))"
    "gain_index r ! 2 = s16 (shr (ws ! 15) 7 AND 0x7)"
    "cb_index r ! 4 = s16 (s16 (shl (ws ! 15) 1 AND 0x7E) OR (shr (ws ! 16) 15 AND 0x1))"
    "cb_index r ! 5 = s16 (shr (ws ! 16) 8 AND 0x7F)"
    "cb_index r ! 6 = s16 ((ws ! 16) AND 0xFF)"
    "cb_index r ! 7 = s16 (shr (ws ! 17) 8)"
    "cb_index r ! 8 = s16 ((ws ! 17) AND 0xFF)"
    "gain_index r ! 5 = s16 (shr (ws ! 18) 9 AND 0x7)"
    "gain_index r ! 8 = s16 (shr (ws ! 18) 1 AND 0x7)"
    by (simp_all add: r_def unpack_simps l)
qed

lemma unpack_30_values:
  fixes ws :: "int list"
  assumes b0: "bits_shape b0"
  defines "r \<equiv> snd (WebRtcIlbcfix_UnpackBits ws b0 30)"
  shows "lsf r ! 0 = s16 (shr (ws ! 0) 10)"
    and "lsf r ! 1 = s16 (shr (ws ! 0) 3 AND 0x7F)"
    and "lsf r ! 2 = s16 (s16 (shl ((ws ! 0) AND 0x7) 4) OR (shr (ws ! 1) 12 AND 0xF))"
    and "lsf r ! 3 = s16 (shr (ws ! 1) 6 AND 0x3F)"
    and "lsf r ! 4 = s16 (s16 (shl (ws ! 1) 1 AND 0x7E) OR (shr (ws ! 2) 15 AND 0x1))"
    and "lsf r ! 5 = s16 (shr (ws ! 2) 8 AND 0x7F)"
    and "startIdx r = s16 (shr (ws ! 2) 5 AND 0x7)"
    and "state_first r = s16 (shr (ws ! 2) 4 AND 0x1)"
    and "idxForMax r = s16 (s16 (shl (ws ! 2) 2 AND 0x3C) OR (shr (ws ! 3) 14 AND 0x3))"
    and "cb_index r ! 0 = s16 (s16 (s16 (shr (ws ! 3) 7 AND 0x78) OR (shr (ws ! 7) 3 AND 0x6)) OR (shr (ws ! 17) 11 AND 1))"
    and "gain_index r ! 0 = s16 (s16 (s16 (shr (ws ! 3) 5 AND 0x10) OR ((ws ! 7) AND 0x8)) OR (shr (ws ! 18) 10 AND 0x7))"
    and "gain_index r ! 1 = s16 (s16 (s16 (shr (ws ! 3) 5 AND 0x8) OR ((ws ! 7) AND 0x4)) OR (shr (ws ! 18) 8 AND 0x3))"
    and "cb_index r ! 3 = s16 (s16 (s16 ((ws ! 3) AND 0xFC) OR ((ws ! 7) AND 0x2)) OR (shr (ws ! 18) 4 AND 0x1))"
    and "gain_index r ! 3 = s16 (s16 (s16 (shl (ws ! 3) 3 AND 0x10) OR (shr (ws ! 9) 8 AND 0xC)) OR (shr (ws ! 22) 1 AND 0x3))"
    and "gain_index r ! 4 = s16 (s16 (s16 (shl (ws ! 3) 3 AND 0x8) OR (shr (ws ! 9) 7 AND 0x6)) OR ((ws ! 22) AND 0x1))"
    and "cb_index r ! 6 = s16 (s16 (s16 (shl (ws ! 7) 7 AND 0x80) OR (shr (ws ! 8) 9 AND 0x7E)) OR (shr (ws ! 19) 5 AND 0x1))"
    and "cb_index r ! 9 = s16 (s16 (shr (ws ! 8) 2 AND 0xFE) OR (shr (ws ! 20) 4 AND 0x1))"
    and "cb_index r ! 12 = s16 (s16 (s16 (shl (ws ! 8) 5 AND 0xE0) OR (shr (ws ! 9) 11 AND 0x1E)) OR (shr (ws ! 21) 3 AND 0x1))"
    and "gain_index r ! 6 = s16 (s16 (shr (ws ! 9) 3 AND 0x18) OR (shr (ws ! 23) 10 AND 0x7))"
    and "gain_index r ! 7 = s16 (s16 (shr (ws ! 9) 2 AND 0xC) OR (shr (ws ! 23) 8 AND 0x3))"
    and "gain_index r ! 9 = s16 (s16 (shl (ws ! 9) 1 AND 0x10) OR (shr (ws ! 23) 1 AND 0xF))"
    and "gain_index r ! 10 = s16 (s16 (s16 (shl (ws ! 9) 1 AND 0x8) OR (shl (ws ! 23) 2 AND 0x4)) OR (shr (ws ! 24) 14 AND 0x3))"
    and "gain_index r ! 12 = s16 (s16 (shl (ws ! 9) 3 AND 0x10) OR (shr (ws ! 24) 7 AND 0xF))"
    and "gain_index r ! 13 = s16 (s16 (shl (ws ! 9) 3 AND 0x8) OR (shr (ws ! 24) 4 AND 0x7))"
    and "cb_index r ! 1 = s16 (shr (ws ! 17) 4 AND 0x7F)"
    and "cb_index r ! 2 = s16 (s16 (shl (ws ! 17) 3 AND 0x78) OR (shr (ws ! 18) 13 AND 0x7))"
    and "gain_index r ! 2 = s16 (shr (ws ! 18) 5 AND 0x7)"
    and "cb_index r ! 4 = s16 (s16 (shl (ws ! 18) 3 AND 0x78) OR (shr (ws ! 19) 13 AND 0x7))"
    and "cb_index r ! 5 = s16 (shr (ws ! 19) 6 AND 0x7F)"
    and "cb_index r ! 7 = s16 (s16 (shl (ws ! 19) 3 AND 0xF8) OR (shr (ws ! 20) 13 AND 0x7))"
    and "cb_index r ! 8 = s16 (shr (ws ! 20) 5 AND 0xFF)"
    and "cb_index r ! 10 = s16 (s16 (shl (ws ! 20) 4 AND 0xF0) OR (shr (ws ! 21) 12 AND 0xF))"
    and "cb_index r ! 11 = s16 (shr (ws ! 21) 4 AND 0xFF)"
    and "cb_index r ! 13 = s16 (s16 (shl (ws ! 21) 5 AND 0xE0) OR (shr (ws ! 22) 11 AND 0x1F))"
    and "cb_index r ! 14 = s16 (shr (ws ! 22) 3 AND 0xFF)"
    and "gain_index r ! 5 = s16 (shr (ws ! 23) 13 AND 0x7)"
    and "gain_index r ! 8 = s16 (shr (ws ! 23) 5 AND 0x7)"
    and "gain_index r ! 11 = s16 (shr (ws ! 24) 11 AND 0x7)"
    and "gain_index r ! 14 = s16 (shr (ws ! 24) 1 AND 0x7)"
proof -
  have l: "length (cb_index b0) = 15" "length (gain_index b0) = 15" "length (lsf b0) = 6" using b0 by (simp_all add: bits_shape_def)
  show "lsf r ! 0 = s16 (shr (ws ! 0) 10)"
    "lsf r ! 1 = s16 (shr (ws ! 0) 3 AND 0x7F)"
    "lsf r ! 2 = s16 (s16 (shl ((ws ! 0) AND 0x7) 4) OR (shr (ws ! 1) 12 AND 0xF))"
    "lsf r ! 3 = s16 (shr (ws ! 1) 6 AND 0x3F)"
    "lsf r ! 4 = s16 (s16 (shl (ws ! 1) 1 AND 0x7E) OR (shr (ws ! 2) 15 AND 0x1))"
    "lsf r ! 5 = s16 (shr (ws ! 2) 8 AND 0x7F)"
    "startIdx r = s16 (shr (ws ! 2) 5 AND 0x7)"
    "state_first r = s16 (shr (ws ! 2) 4 AND 0x1)"
    "idxForMax r = s16 (s16 (shl (ws ! 2) 2 AND 0x3C) OR (shr (ws ! 3) 14 AND 0x3))"
    "cb_index r ! 0 = s16 (s16 (s16 (shr (ws ! 3) 7 AND 0x78) OR (shr (ws ! 7) 3 AND 0x6)) OR (shr (ws ! 17) 11 AND 1))"
    "gain_index r ! 0 = s16 (s16 (s16 (shr (ws ! 3) 5 AND 0x10) OR ((ws ! 7) AND 0x8)) OR (shr (ws ! 18) 10 AND 0x7))"
    "gain_index r ! 1 = s16 (s16 (s16 (shr (ws ! 3) 5 AND 0x8) OR ((ws ! 7) AND 0x4)) OR (shr (ws ! 18) 8 AND 0x3))"
    "cb_index r ! 3 = s16 (s16 (s16 ((ws ! 3) AND 0xFC) OR ((ws ! 7) AND 0x2)) OR (shr (ws ! 18) 4 AND 0x1))"
    "gain_index r ! 3 = s16 (s16 (s16 (shl (ws ! 3) 3 AND 0x10) OR (shr (ws ! 9) 8 AND 0xC)) OR (shr (ws ! 22) 1 AND 0x3))"
    "gain_index r ! 4 = s16 (s16 (s16 (shl (ws ! 3) 3 AND 0x8) OR (shr (ws ! 9) 7 AND 0x6)) OR ((ws ! 22) AND 0x1))"
    "cb_index r ! 6 = s16 (s16 (s16 (shl (ws ! 7) 7 AND 0x80) OR (shr (ws ! 8) 9 AND 0x7E)) OR (shr (ws ! 19) 5 AND 0x1))"
    "cb_index r ! 9 = s16 (s16 (shr (ws ! 8) 2 AND 0xFE) OR (shr (ws ! 20) 4 AND 0x1))"
    "cb_index r ! 12 = s16 (s16 (s16 (shl (ws ! 8) 5 AND 0xE0) OR (shr (ws ! 9) 11 AND 0x1E)) OR (shr (ws ! 21) 3 AND 0x1))"
    "gain_index r ! 6 = s16 (s16 (shr (ws ! 9) 3 AND 0x18) OR (shr (ws ! 23) 10 AND 0x7))"
    "gain_index r ! 7 = s16 (s16 (shr (ws ! 9) 2 AND 0xC) OR (shr (ws ! 23) 8 AND 0x3))"
    "gain_index r ! 9 = s16 (s16 (shl (ws ! 9) 1 AND 0x10) OR (shr (ws ! 23) 1 AND 0xF))"
    "gain_index r ! 10 = s16 (s16 (s16 (shl (ws ! 9) 1 AND 0x8) OR (shl (ws ! 23) 2 AND 0x4)) OR (shr (ws ! 24) 14 AND 0x3))"
    "gain_index r ! 12 = s16 (s16 (shl (ws ! 9) 3 AND 0x10) OR (shr (ws ! 24) 7 AND 0xF))"
    "gain_index r ! 13 = s16 (s16 (shl (ws ! 9) 3 AND 0x8) OR (shr (ws ! 24) 4 AND 0x7))"
    "cb_index r ! 1 = s16 (shr (ws ! 17) 4 AND 0x7F)"
    "cb_index r ! 2 = s16 (s16 (shl (ws ! 17) 3 AND 0x78) OR (shr (ws ! 18) 13 AND 0x7))"
    "gain_index r ! 2 = s16 (shr (ws ! 18) 5 AND 0x7)"
    "cb_index r ! 4 = s16 (s16 (shl (ws ! 18) 3 AND 0x78) OR (shr (ws ! 19) 13 AND 0x7))"
    "cb_index r ! 5 = s16 (shr (ws ! 19) 6 AND 0x7F)"
    "cb_index r ! 7 = s16 (s16 (shl (ws ! 19) 3 AND 0xF8) OR (shr (ws ! 20) 13 AND 0x7))"
    "cb_index r ! 8 = s16 (shr (ws ! 20) 5 AND 0xFF)"
    "cb_index r ! 10 = s16 (s16 (shl (ws ! 20) 4 AND 0xF0) OR (shr (ws ! 21) 12 AND 0xF))"
    "cb_index r ! 11 = s16 (shr (ws ! 21) 4 AND 0xFF)"
    "cb_index r ! 13 = s16 (s16 (shl (ws ! 21) 5 AND 0xE0) OR (shr (ws ! 22) 11 AND 0x1F))"
    "cb_index r ! 14 = s16 (shr (ws ! 22) 3 AND 0xFF)"
    "gain_index r ! 5 = s16 (shr (ws ! 23) 13 AND 0x7)"
    "gain_index r ! 8 = s16 (shr (ws ! 23) 5 AND 0x7)"
    "gain_index r ! 11 = s16 (shr (ws ! 24) 11 AND 0x7)"
    "gain_index r ! 14 = s16 (shr (ws ! 24) 1 AND 0x7)"
    by (simp_all add: r_def unpack_simps l)
qed

lemma tst_range:
  assumes "is_s16 x" and "w \<le> 15" and "\<forall>n<16. w \<le> n \<longrightarrow> \<not> tst x n"
  shows "0 \<le> x \<and> x < 2 ^ w"
proof -
  have "tst x n = tst (take_bit w x) n" for n
  proof (cases "n < w")
    case False
    have "tst x n = tst (s16 x) n" using assms(1) by (simp add: s16_conv)
    also have "\<dots> = tst x (min 15 n)" by (rule tst_s16)
    also have "\<not> \<dots>" using assms(2,3) False by (simp add: min_def)
    finally show ?thesis using False by (simp add: tst_def bit_take_bit_iff)
  qed (simp add: tst_def bit_take_bit_iff)
  then have "x = take_bit w x" by (simp add: tst_def bit_eq_iff)
  then show ?thesis by (metis take_bit_nonnegative take_bit_int_less_exp)
qed

lemma tst_u16_high: "is_u16 x \<Longrightarrow> 16 \<le> k \<Longrightarrow> \<not> tst x k"
  using tst_high [of x 16 k] by (simp add: is_u16_def)

lemma fields_inI: "(\<And>j. j < length ws \<Longrightarrow> 0 \<le> v ! j \<and> v ! j < 2 ^ (ws ! j)) \<Longrightarrow> fields_in ws v"
  by (simp add: fields_in_def)

lemma unpack_20_range:
  fixes ws :: "int list"
  assumes b0: "bits_shape b0" and len: "length ws = 19" and u16: "\<forall>w \<in> set ws. is_u16 w"
  defines "r \<equiv> snd (WebRtcIlbcfix_UnpackBits ws b0 20)"
  shows "fields_in [7, 7, 7, 8, 7, 7, 8, 8, 8] (cb_index r)" and "fields_in [5, 4, 3, 5, 4, 3, 5, 4, 3] (gain_index r)" and "fields_in [6, 7, 7] (lsf r)"
    and "0 \<le> startIdx r \<and> startIdx r < 2 ^ 2" and "0 \<le> state_first r \<and> state_first r < 2 ^ 1"
    and "0 \<le> idxForMax r \<and> idxForMax r < 2 ^ 6"
proof -
  note v = unpack_20_values [OF b0, of ws, folded r_def, unfolded One_nat_def]
  have h: "\<not> tst (ws ! n) k" if "n < 19" "16 \<le> k" for n k using that len u16 by (intro tst_u16_high) auto
  show "fields_in [7, 7, 7, 8, 7, 7, 8, 8, 8] (cb_index r)"
  proof (rule fields_inI)
    fix j assume "j < length ([7, 7, 7, 8, 7, 7, 8, 8, 8] :: nat list)"
    then have "j = 0 \<or> j = 1 \<or> j = 2 \<or> j = 3 \<or> j = 4 \<or> j = 5 \<or> j = 6 \<or> j = 7 \<or> j = 8" by (simp; presburger)
    then show "0 \<le> cb_index r ! j \<and> cb_index r ! j < 2 ^ ([7, 7, 7, 8, 7, 7, 8, 8, 8] ! j)"
      by (elim disjE; simp only:; intro tst_range; simp add: v less_16 tst_simps h)
  qed
  show "fields_in [5, 4, 3, 5, 4, 3, 5, 4, 3] (gain_index r)"
  proof (rule fields_inI)
    fix j assume "j < length ([5, 4, 3, 5, 4, 3, 5, 4, 3] :: nat list)"
    then have "j = 0 \<or> j = 1 \<or> j = 2 \<or> j = 3 \<or> j = 4 \<or> j = 5 \<or> j = 6 \<or> j = 7 \<or> j = 8" by (simp; presburger)
    then show "0 \<le> gain_index r ! j \<and> gain_index r ! j < 2 ^ ([5, 4, 3, 5, 4, 3, 5, 4, 3] ! j)"
      by (elim disjE; simp only:; intro tst_range; simp add: v less_16 tst_simps h)
  qed
  show "fields_in [6, 7, 7] (lsf r)"
  proof (rule fields_inI)
    fix j assume "j < length ([6, 7, 7] :: nat list)"
    then have "j = 0 \<or> j = 1 \<or> j = 2" by (simp; presburger)
    then show "0 \<le> lsf r ! j \<and> lsf r ! j < 2 ^ ([6, 7, 7] ! j)"
      by (elim disjE; simp only:; intro tst_range; simp add: v less_16 tst_simps h)
  qed
  show "0 \<le> startIdx r \<and> startIdx r < 2 ^ 2" "0 \<le> state_first r \<and> state_first r < 2 ^ 1"
    "0 \<le> idxForMax r \<and> idxForMax r < 2 ^ 6"
    by (intro tst_range; simp add: v less_16 tst_simps h)+
qed

lemma unpack_30_range:
  fixes ws :: "int list"
  assumes b0: "bits_shape b0" and len: "length ws = 25" and u16: "\<forall>w \<in> set ws. is_u16 w"
  defines "r \<equiv> snd (WebRtcIlbcfix_UnpackBits ws b0 30)"
  shows "fields_in [7, 7, 7, 8, 7, 7, 8, 8, 8, 8, 8, 8, 8, 8, 8] (cb_index r)" and "fields_in [5, 4, 3, 5, 4, 3, 5, 4, 3, 5, 4, 3, 5, 4, 3] (gain_index r)" and "fields_in [6, 7, 7, 6, 7, 7] (lsf r)"
    and "0 \<le> startIdx r \<and> startIdx r < 2 ^ 3" and "0 \<le> state_first r \<and> state_first r < 2 ^ 1"
    and "0 \<le> idxForMax r \<and> idxForMax r < 2 ^ 6"
proof -
  note v = unpack_30_values [OF b0, of ws, folded r_def, unfolded One_nat_def]
  have h: "\<not> tst (ws ! n) k" if "n < 25" "16 \<le> k" for n k using that len u16 by (intro tst_u16_high) auto
  show "fields_in [7, 7, 7, 8, 7, 7, 8, 8, 8, 8, 8, 8, 8, 8, 8] (cb_index r)"
  proof (rule fields_inI)
    fix j assume "j < length ([7, 7, 7, 8, 7, 7, 8, 8, 8, 8, 8, 8, 8, 8, 8] :: nat list)"
    then have "j = 0 \<or> j = 1 \<or> j = 2 \<or> j = 3 \<or> j = 4 \<or> j = 5 \<or> j = 6 \<or> j = 7 \<or> j = 8 \<or> j = 9 \<or> j = 10 \<or> j = 11 \<or> j = 12 \<or> j = 13 \<or> j = 14" by (simp; presburger)
    then show "0 \<le> cb_index r ! j \<and> cb_index r ! j < 2 ^ ([7, 7, 7, 8, 7, 7, 8, 8, 8, 8, 8, 8, 8, 8, 8] ! j)"
      by (elim disjE; simp only:; intro tst_range; simp add: v less_16 tst_simps h)
  qed
  show "fields_in [5, 4, 3, 5, 4, 3, 5, 4, 3, 5, 4, 3, 5, 4, 3] (gain_index r)"
  proof (rule fields_inI)
    fix j assume "j < length ([5, 4, 3, 5, 4, 3, 5, 4, 3, 5, 4, 3, 5, 4, 3] :: nat list)"
    then have "j = 0 \<or> j = 1 \<or> j = 2 \<or> j = 3 \<or> j = 4 \<or> j = 5 \<or> j = 6 \<or> j = 7 \<or> j = 8 \<or> j = 9 \<or> j = 10 \<or> j = 11 \<or> j = 12 \<or> j = 13 \<or> j = 14" by (simp; presburger)
    then show "0 \<le> gain_index r ! j \<and> gain_index r ! j < 2 ^ ([5, 4, 3, 5, 4, 3, 5, 4, 3, 5, 4, 3, 5, 4, 3] ! j)"
      by (elim disjE; simp only:; intro tst_range; simp add: v less_16 tst_simps h)
  qed
  show "fields_in [6, 7, 7, 6, 7, 7] (lsf r)"
  proof (rule fields_inI)
    fix j assume "j < length ([6, 7, 7, 6, 7, 7] :: nat list)"
    then have "j = 0 \<or> j = 1 \<or> j = 2 \<or> j = 3 \<or> j = 4 \<or> j = 5" by (simp; presburger)
    then show "0 \<le> lsf r ! j \<and> lsf r ! j < 2 ^ ([6, 7, 7, 6, 7, 7] ! j)"
      by (elim disjE; simp only:; intro tst_range; simp add: v less_16 tst_simps h)
  qed
  show "0 \<le> startIdx r \<and> startIdx r < 2 ^ 3" "0 \<le> state_first r \<and> state_first r < 2 ^ 1"
    "0 \<le> idxForMax r \<and> idxForMax r < 2 ^ 6"
    by (intro tst_range; simp add: v less_16 tst_simps h)+
qed

lemma list_take_drop:
  "length xs = length zs \<Longrightarrow> (\<And>j. j < n \<Longrightarrow> xs ! j = ys ! j) \<Longrightarrow> (\<And>j. n \<le> j \<Longrightarrow> j < length zs \<Longrightarrow> xs ! j = zs ! j)
    \<Longrightarrow> n \<le> length ys \<Longrightarrow> n \<le> length zs \<Longrightarrow> xs = take n ys @ drop n zs"
  by (rule nth_equalityI) (auto simp: nth_append)

lemma tail_lists: "rev [7..<16] = [15, 14, 13, 12, 11, 10, 9, 8, 7]" "rev [6..<16] = [15, 14, 13, 12, 11, 10, 9, 8, 7, 6]"
  by (simp_all add: upt_rec)

lemmas loops_nth = unpack_bit2_nth unpack_bit2_nth [where lo = 7, unfolded tail_lists] unpack_bit2_nth [where lo = 6, unfolded tail_lists]
  unpack_bits01_nth

section \<open>The residual indices\<close>

lemma fold_bit2_nth:
  assumes "length (idxVec b) = 58" and "m \<le> 3"
  shows "length (idxVec (fold (\<lambda>k. unpack_bit2 (ws ! (p + k)) (16 * k) (rev [0..<16])) [0..<m] b)) = 58 \<and>
      idxVec (fold (\<lambda>k. unpack_bit2 (ws ! (p + k)) (16 * k) (rev [0..<16])) [0..<m] b) ! j =
      (if j < 16 * m then s16 (shl (shr (ws ! (p + j div 16)) (15 - j mod 16)) 2 AND 4) else idxVec b ! j)"
  using assms(2)
proof (induction m)
  case (Suc m)
  let ?b = "fold (\<lambda>k. unpack_bit2 (ws ! (p + k)) (16 * k) (rev [0..<16])) [0..<m] b"
  have IH: "length (idxVec ?b) = 58"
    "idxVec ?b ! j = (if j < 16 * m then s16 (shl (shr (ws ! (p + j div 16)) (15 - j mod 16)) 2 AND 4) else idxVec b ! j)" using Suc by simp_all
  have e: "fold (\<lambda>k. unpack_bit2 (ws ! (p + k)) (16 * k) (rev [0..<16])) [0..<Suc m] b = unpack_bit2 (ws ! (p + m)) (16 * m) (rev [0..<16]) ?b" by simp
  have l: "16 * m + (16 - 0) \<le> length (idxVec ?b)" using Suc.prems IH(1) by simp
  show ?case
  proof (cases "16 * m \<le> j \<and> j < 16 * m + 16")
    case True
    then obtain t where t: "j = 16 * m + t" "t < 16" by (metis add_less_cancel_left le_Suc_ex)
    then have "j div 16 = m" "j mod 16 = t" by simp_all
    then show ?thesis unfolding e unpack_bit2_nth(1) [OF l] unpack_bit2_nth(2) [OF l] IH using t by simp
  next
    case False
    then have "(j < 16 * Suc m) = (j < 16 * m)" by (simp; linarith)
    then show ?thesis unfolding e unpack_bit2_nth(1) [OF l] unpack_bit2_nth(2) [OF l] IH using False by auto
  qed
qed (simp add: assms(1))

lemma fold_bits01_nth:
  assumes "length (idxVec b) = 58" and "m \<le> 7"
  shows "length (idxVec (fold (\<lambda>k. unpack_bits01 (ws ! (p + k)) (8 * k) [14, 12, 10, 8, 6, 4, 2, 0]) [0..<m] b)) = 58 \<and>
      idxVec (fold (\<lambda>k. unpack_bits01 (ws ! (p + k)) (8 * k) [14, 12, 10, 8, 6, 4, 2, 0]) [0..<m] b) ! j =
      (if j < 8 * m then s16 (idxVec b ! j OR (shr (ws ! (p + j div 8)) (14 - 2 * (j mod 8)) AND 3)) else idxVec b ! j)"
  using assms(2)
proof (induction m)
  case (Suc m)
  let ?b = "fold (\<lambda>k. unpack_bits01 (ws ! (p + k)) (8 * k) [14, 12, 10, 8, 6, 4, 2, 0]) [0..<m] b"
  have IH: "length (idxVec ?b) = 58"
    "idxVec ?b ! j = (if j < 8 * m then s16 (idxVec b ! j OR (shr (ws ! (p + j div 8)) (14 - 2 * (j mod 8)) AND 3)) else idxVec b ! j)" using Suc by simp_all
  have e: "fold (\<lambda>k. unpack_bits01 (ws ! (p + k)) (8 * k) [14, 12, 10, 8, 6, 4, 2, 0]) [0..<Suc m] b = unpack_bits01 (ws ! (p + m)) (8 * m) [14, 12, 10, 8, 6, 4, 2, 0] ?b" by simp
  have l: "8 * m + 8 \<le> length (idxVec ?b)" using Suc.prems IH(1) by simp
  show ?case
  proof (cases "8 * m \<le> j \<and> j < 8 * m + 8")
    case True
    then obtain t where t: "j = 8 * m + t" "t < 8" by (metis add_less_cancel_left le_Suc_ex)
    then have "j div 8 = m" "j mod 8 = t" by simp_all
    then show ?thesis unfolding e unpack_bits01_nth(1) [OF l] unpack_bits01_nth(2) [OF l] IH using t by simp
  next
    case False
    then have "(j < 8 * Suc m) = (j < 8 * m)" by (simp; linarith)
    then show ?thesis unfolding e unpack_bits01_nth(1) [OF l] unpack_bits01_nth(2) [OF l] IH using False by auto
  qed
qed (simp add: assms(1))

lemma unpack_class2_nth:
  assumes "length (idxVec b) = 58"
  shows "idxVec (unpack_class2 ws p b) ! j =
      (if j < 48 then s16 (shl (shr (ws ! (p + j div 16)) (15 - j mod 16)) 2 AND 4) else idxVec b ! j)"
    and "length (idxVec (unpack_class2 ws p b)) = 58"
  using fold_bit2_nth [OF assms, of 3] by (simp_all add: unpack_class2_def)

lemma unpack_class3_nth:
  assumes "length (idxVec b) = 58"
  shows "idxVec (unpack_class3 ws p b) ! j =
      (if j < 56 then s16 (idxVec b ! j OR (shr (ws ! (p + j div 8)) (14 - 2 * (j mod 8)) AND 3)) else idxVec b ! j)"
    and "length (idxVec (unpack_class3 ws p b)) = 58"
  using fold_bits01_nth [OF assms, of 7] by (simp_all add: unpack_class3_def)


lemma idx_class2_bit:
  assumes "j < 48"
  shows "tst (pack_class2 b ! (j div 16)) (15 - j mod 16) = tst (idxVec b ! j) 2"
proof -
  define t where "t = j mod 16"
  have t: "t < 16" "16 * (j div 16) + t = j" by (simp_all add: t_def)
  have "15 - (15 - t) = t" "15 - t < 16" using t(1) by linarith+
  moreover have "j div 16 < 3" using assms by (simp add: less_mult_imp_div_less)
  ultimately show ?thesis unfolding t_def [symmetric] tst_pack_class2 [OF \<open>j div 16 < 3\<close>] by (simp only: t(2)) simp
qed

lemma idx_class3_bits:
  assumes "j < 56" and "n < 2"
  shows "tst (pack_class3 b ! (j div 8)) (14 - 2 * (j mod 8) + n) = tst (idxVec b ! j) n"
proof -
  define t where "t = j mod 8"
  have t: "t < 8" "8 * (j div 8) + t = j" by (simp_all add: t_def)
  have "14 - 2 * t + n = 2 * (7 - t) + n" using t(1) by (simp add: diff_mult_distrib2)
  moreover have "(2 * (7 - t) + n) div 2 = 7 - t" "(2 * (7 - t) + n) mod 2 = n" "2 * (7 - t) + n < 16" "7 - (7 - t) = t"
    using assms(2) t(1) by simp_all
  moreover have k: "j div 8 < 7" using assms(1) by (simp add: less_mult_imp_div_less)
  ultimately show ?thesis unfolding t_def [symmetric] tst_pack_class3 [OF k] by (simp only: t(2)) simp
qed

lemma idx_phases:
  "idxVec (unpack_class1_20 ws b) = idxVec b" "idxVec (unpack_class1_30 ws b) = idxVec b"
  "idxVec (unpack_class2_20 ws b) = idxVec (unpack_bit2 (ws ! 6) 48 (rev [7..<16]) b)"
  "idxVec (unpack_class2_30 ws b) = idxVec (unpack_bit2 (ws ! 7) 48 (rev [6..<16]) b)"
  "idxVec (unpack_class3_20 ws b) = or_at 56 (shr (ws ! 14) 14 AND 3) (idxVec b)"
  "idxVec (unpack_class3_30 ws b) = or_at 57 (shr (ws ! 17) 12 AND 3) (or_at 56 (shr (ws ! 17) 14 AND 3) (idxVec b))"
  by (simp_all add: unpack_single_defs Let_def)

definition idx_value :: "int \<Rightarrow> nat \<Rightarrow> int \<Rightarrow> nat \<Rightarrow> int" where
  "idx_value w i v k = s16 (s16 (shl (shr w i) 2 AND 4) OR (shr v k AND 3))"

lemma tst_idx_value: "n < 16 \<Longrightarrow> tst (idx_value w i v k) n \<longleftrightarrow> (if n < 2 then tst v (k + n) else n = 2 \<and> tst w i)"
proof -
  assume "n < 16"
  then have "n = 0 \<or> n = 1 \<or> n = 2 \<or> n = 3 \<or> n = 4 \<or> n = 5 \<or> n = 6 \<or> n = 7 \<or> n = 8 \<or> n = 9 \<or> n = 10 \<or> n = 11
      \<or> n = 12 \<or> n = 13 \<or> n = 14 \<or> n = 15" by presburger
  then show ?thesis by (elim disjE) (simp_all add: idx_value_def tst_simps)
qed

lemma is_s16_idx_value [simp]: "is_s16 (idx_value w i v k)"
  by (simp add: idx_value_def)

lemma idx_value_eq:
  assumes "0 \<le> x" and "x < 8" and "tst w i = tst x 2" and "\<And>n. n < 2 \<Longrightarrow> tst v (k + n) = tst x n"
  shows "idx_value w i v k = x"
proof (rule tst_eqI)
  show "\<forall>n<16. tst (idx_value w i v k) n = tst x n"
  proof (intro allI impI)
    fix n :: nat assume n: "n < 16"
    consider "n < 2" | "n = 2" | "3 \<le> n" by linarith
    then show "tst (idx_value w i v k) n = tst x n"
    proof cases
      case 3
      then have "\<not> tst x n" using tst_high [of x 3 n] assms(1,2) by simp
      then show ?thesis using 3 n by (simp add: tst_idx_value)
    qed (use assms(3,4) n in \<open>simp_all add: tst_idx_value\<close>)
  qed
qed (use assms(1,2) in \<open>simp_all add: is_s16_def [of x]\<close>)

lemma idx_unpack_20:
  assumes "length (idxVec b0) = 58" and "j < 57"
  shows "idxVec (snd (WebRtcIlbcfix_UnpackBits ws b0 20)) ! j =
     (if j < 48 then idx_value (ws ! (3 + j div 16)) (15 - j mod 16) (ws ! (7 + j div 8)) (14 - 2 * (j mod 8))
      else if j < 56 then idx_value (ws ! 6) (63 - j) (ws ! (7 + j div 8)) (14 - 2 * (j mod 8))
      else idx_value (ws ! 6) 7 (ws ! 14) 14)"
  using assms(2) by (simp add: WebRtcIlbcfix_UnpackBits_def Let_def idx_phases unpack_class2_nth unpack_class3_nth
      unpack_bit2_nth nth_or_at assms(1) idx_value_def del: upt_rec_numeral)

lemma idx_unpack_30:
  assumes "length (idxVec b0) = 58" and "j < 58"
  shows "idxVec (snd (WebRtcIlbcfix_UnpackBits ws b0 30)) ! j =
     (if j < 48 then idx_value (ws ! (4 + j div 16)) (15 - j mod 16) (ws ! (10 + j div 8)) (14 - 2 * (j mod 8))
      else if j < 56 then idx_value (ws ! 7) (63 - j) (ws ! (10 + j div 8)) (14 - 2 * (j mod 8))
      else if j = 56 then idx_value (ws ! 7) 7 (ws ! 17) 14 else idx_value (ws ! 7) 6 (ws ! 17) 12)"
  using assms(2) by (auto simp add: WebRtcIlbcfix_UnpackBits_def Let_def idx_phases unpack_class2_nth unpack_class3_nth
      unpack_bit2_nth nth_or_at assms(1) idx_value_def less_Suc_eq simp del: upt_rec_numeral)

lemma idx_tail_20:
  assumes "48 \<le> j" and "j < 57"
  shows "tst (pack_class2_20 b ! 0) (63 - j) = tst (idxVec b ! j) 2"
proof -
  have "j = 48 \<or> j = 49 \<or> j = 50 \<or> j = 51 \<or> j = 52 \<or> j = 53 \<or> j = 54 \<or> j = 55 \<or> j = 56" using assms by presburger
  then show ?thesis by (elim disjE) (simp_all add: pack_class2_20_def tst_simps)
qed

lemma idx_tail_30:
  assumes "48 \<le> j" and "j < 58"
  shows "tst (pack_class2_30 b ! 0) (63 - j) = tst (idxVec b ! j) 2"
proof -
  have "j = 48 \<or> j = 49 \<or> j = 50 \<or> j = 51 \<or> j = 52 \<or> j = 53 \<or> j = 54 \<or> j = 55 \<or> j = 56 \<or> j = 57" using assms by presburger
  then show ?thesis by (elim disjE) (simp_all add: pack_class2_30_def tst_simps)
qed


lemma unpack_pack_20_idx:
  assumes ok: "bits_ok 20 b" and b0: "bits_shape b0" and j: "j < 57"
  shows "idxVec (snd (WebRtcIlbcfix_UnpackBits (WebRtcIlbcfix_PackBits b 20) b0 20)) ! j = idxVec b ! j"
proof -
  have "0 \<le> idxVec b ! j \<and> idxVec b ! j < 2 ^ (replicate 57 3 ! j)" using ok j by (auto simp: bits_ok_def idx_widths_def fields_in_def)
  then have x: "0 \<le> idxVec b ! j" "idxVec b ! j < 8" using j by simp_all
  have c: "fields_in [7, 7, 7, 8, 7, 7, 8, 8, 8] (cb_index b)" using ok by (simp add: bits_ok_def cb_widths_def)
  define P where "P = WebRtcIlbcfix_PackBits b 20"
  have w2: "P ! (3 + j div 16) = pack_class2 b ! (j div 16)" if "j < 48"
    using that by (simp add: P_def WebRtcIlbcfix_PackBits_def nth_append less_mult_imp_div_less)
  have w3: "P ! (7 + j div 8) = pack_class3 b ! (j div 8)" if "j < 56"
    using that by (simp add: P_def WebRtcIlbcfix_PackBits_def nth_append less_mult_imp_div_less)
  have w: "P ! 6 = pack_class2_20 b ! 0" "P ! 14 = pack_class3_20 b ! 0" by (simp_all add: P_def pack20_nth)
  have t: "tst (pack_class3_20 b ! 0) (14 + n) = tst (idxVec b ! 56) n" if "n < 2" for n
    using that c by (auto simp: pack_class3_20_def tst_simps less_2_cases_iff fields_tst)
  have "length (idxVec b0) = 58" using b0 by (simp add: bits_shape_def)
  note u = idx_unpack_20 [OF this j]
  consider "j < 48" | "48 \<le> j" "j < 56" | "j = 56" using j by linarith
  then show ?thesis
  proof cases
    case 1
    then show ?thesis unfolding u P_def [symmetric] using idx_class2_bit [of j b] idx_class3_bits [of j _ b]
      by (simp add: w2 w3 idx_value_eq [OF x])
  next
    case 2
    then show ?thesis unfolding u P_def [symmetric] using idx_tail_20 [of j b] idx_class3_bits [of j _ b]
      by (simp add: w w3 idx_value_eq [OF x])
  next
    case 3
    then show ?thesis unfolding u P_def [symmetric] using idx_tail_20 [of j b] t
      by (simp add: w idx_value_eq [OF x])
  qed
qed

lemma unpack_pack_30_idx:
  assumes ok: "bits_ok 30 b" and b0: "bits_shape b0" and j: "j < 58"
  shows "idxVec (snd (WebRtcIlbcfix_UnpackBits (WebRtcIlbcfix_PackBits b 30) b0 30)) ! j = idxVec b ! j"
proof -
  have "0 \<le> idxVec b ! j \<and> idxVec b ! j < 2 ^ (replicate 58 3 ! j)" using ok j by (auto simp: bits_ok_def idx_widths_def fields_in_def)
  then have x: "0 \<le> idxVec b ! j" "idxVec b ! j < 8" using j by simp_all
  have c: "fields_in [7, 7, 7, 8, 7, 7, 8, 8, 8, 8, 8, 8, 8, 8, 8] (cb_index b)" using ok by (simp add: bits_ok_def cb_widths_def)
  define P where "P = WebRtcIlbcfix_PackBits b 30"
  have w2: "P ! (4 + j div 16) = pack_class2 b ! (j div 16)" if "j < 48"
    using that by (simp add: P_def WebRtcIlbcfix_PackBits_def nth_append less_mult_imp_div_less)
  have w3: "P ! (10 + j div 8) = pack_class3 b ! (j div 8)" if "j < 56"
    using that by (simp add: P_def WebRtcIlbcfix_PackBits_def nth_append less_mult_imp_div_less)
  have w: "P ! 7 = pack_class2_30 b ! 0" "P ! 17 = pack_class3_30 b ! 0" by (simp_all add: P_def pack30_nth)
  have t: "tst (pack_class3_30 b ! 0) (14 + n) = tst (idxVec b ! 56) n"
      "tst (pack_class3_30 b ! 0) (12 + n) = tst (idxVec b ! 57) n" if "n < 2" for n
    using that c by (auto simp: pack_class3_30_def tst_simps less_2_cases_iff fields_tst)
  have "length (idxVec b0) = 58" using b0 by (simp add: bits_shape_def)
  note u = idx_unpack_30 [OF this j]
  consider "j < 48" | "48 \<le> j" "j < 56" | "j = 56" | "j = 57" using j by linarith
  then show ?thesis
  proof cases
    case 1
    then show ?thesis unfolding u P_def [symmetric] using idx_class2_bit [of j b] idx_class3_bits [of j _ b]
      by (simp add: w2 w3 idx_value_eq [OF x])
  next
    case 2
    then show ?thesis unfolding u P_def [symmetric] using idx_tail_30 [of j b] idx_class3_bits [of j _ b]
      by (simp add: w w3 idx_value_eq [OF x])
  next
    case 3
    then show ?thesis unfolding u P_def [symmetric] using idx_tail_30 [of j b] t(1)
      by (simp add: w idx_value_eq [OF x])
  next
    case 4
    then show ?thesis unfolding u P_def [symmetric] using idx_tail_30 [of j b] t(2)
      by (simp add: w idx_value_eq [OF x])
  qed
qed

lemma idx_value_range: "0 \<le> idx_value w i v k \<and> idx_value w i v k < 8"
  using tst_range [of "idx_value w i v k" 3] by (simp add: tst_idx_value)

lemma unpack_pack_20_fields:
  assumes ok: "bits_ok 20 b" and b0: "bits_shape b0"
  defines "r \<equiv> snd (WebRtcIlbcfix_UnpackBits (WebRtcIlbcfix_PackBits b 20) b0 20)"
  shows "j < 9 \<Longrightarrow> cb_index r ! j = cb_index b ! j"
    and "j < 9 \<Longrightarrow> gain_index r ! j = gain_index b ! j"
    and "j < 3 \<Longrightarrow> lsf r ! j = lsf b ! j"
    and "startIdx r = startIdx b" and "state_first r = state_first b" and "idxForMax r = idxForMax b"
proof -
  have f: "fields_in [7, 7, 7, 8, 7, 7, 8, 8, 8] (cb_index b)" "fields_in [5, 4, 3, 5, 4, 3, 5, 4, 3] (gain_index b)"
     "fields_in [6, 7, 7] (lsf b)" using ok by (auto simp: bits_ok_def cb_widths_def gain_widths_def lsf_widths_def)
  have h: "\<And>k. 2 \<le> k \<Longrightarrow> \<not> tst (startIdx b) k" "\<And>k. 1 \<le> k \<Longrightarrow> \<not> tst (state_first b) k"
      "\<And>k. 6 \<le> k \<Longrightarrow> \<not> tst (idxForMax b) k" and s: "is_s16 (startIdx b)" "is_s16 (state_first b)" "is_s16 (idxForMax b)"
    using ok tst_high [of "startIdx b" 2] tst_high [of "state_first b" 1] tst_high [of "idxForMax b" 6]
    by (auto simp: bits_ok_def is_s16_def)
  note v = unpack_20_values [OF b0, of "WebRtcIlbcfix_PackBits b 20", folded r_def, unfolded One_nat_def]
  have hf: "\<And>k. 7 \<le> k \<Longrightarrow> \<not> tst (cb_index b ! 0) k"
    "\<And>k. 7 \<le> k \<Longrightarrow> \<not> tst (cb_index b ! Suc 0) k"
    "\<And>k. 7 \<le> k \<Longrightarrow> \<not> tst (cb_index b ! 2) k"
    "\<And>k. 8 \<le> k \<Longrightarrow> \<not> tst (cb_index b ! 3) k"
    "\<And>k. 7 \<le> k \<Longrightarrow> \<not> tst (cb_index b ! 4) k"
    "\<And>k. 7 \<le> k \<Longrightarrow> \<not> tst (cb_index b ! 5) k"
    "\<And>k. 8 \<le> k \<Longrightarrow> \<not> tst (cb_index b ! 6) k"
    "\<And>k. 8 \<le> k \<Longrightarrow> \<not> tst (cb_index b ! 7) k"
    "\<And>k. 8 \<le> k \<Longrightarrow> \<not> tst (cb_index b ! 8) k"
    "\<And>k. 5 \<le> k \<Longrightarrow> \<not> tst (gain_index b ! 0) k"
    "\<And>k. 4 \<le> k \<Longrightarrow> \<not> tst (gain_index b ! Suc 0) k"
    "\<And>k. 3 \<le> k \<Longrightarrow> \<not> tst (gain_index b ! 2) k"
    "\<And>k. 5 \<le> k \<Longrightarrow> \<not> tst (gain_index b ! 3) k"
    "\<And>k. 4 \<le> k \<Longrightarrow> \<not> tst (gain_index b ! 4) k"
    "\<And>k. 3 \<le> k \<Longrightarrow> \<not> tst (gain_index b ! 5) k"
    "\<And>k. 5 \<le> k \<Longrightarrow> \<not> tst (gain_index b ! 6) k"
    "\<And>k. 4 \<le> k \<Longrightarrow> \<not> tst (gain_index b ! 7) k"
    "\<And>k. 3 \<le> k \<Longrightarrow> \<not> tst (gain_index b ! 8) k"
    "\<And>k. 6 \<le> k \<Longrightarrow> \<not> tst (lsf b ! 0) k"
    "\<And>k. 7 \<le> k \<Longrightarrow> \<not> tst (lsf b ! Suc 0) k"
    "\<And>k. 7 \<le> k \<Longrightarrow> \<not> tst (lsf b ! 2) k"
    using fields_tst [OF f(1)] fields_tst [OF f(2)] fields_tst [OF f(3)] by (simp_all add: nth_Cons')
  { assume j: "j < 9"
    have "j = 0 \<or> j = 1 \<or> j = 2 \<or> j = 3 \<or> j = 4 \<or> j = 5 \<or> j = 6 \<or> j = 7 \<or> j = 8" using j by presburger
    moreover have "is_s16 (cb_index b ! j)" by (rule fields_small [OF f(1)]) (use j in simp_all)
    ultimately show "cb_index r ! j = cb_index b ! j"
      by (elim disjE; simp only:; intro tst_eqI; simp add: v pack20_nth less_16 tst_simps h hf pack_single_defs) }
  { assume j: "j < 9"
    have "j = 0 \<or> j = 1 \<or> j = 2 \<or> j = 3 \<or> j = 4 \<or> j = 5 \<or> j = 6 \<or> j = 7 \<or> j = 8" using j by presburger
    moreover have "is_s16 (gain_index b ! j)" by (rule fields_small [OF f(2)]) (use j in simp_all)
    ultimately show "gain_index r ! j = gain_index b ! j"
      by (elim disjE; simp only:; intro tst_eqI; simp add: v pack20_nth less_16 tst_simps h hf pack_single_defs) }
  { assume j: "j < 3"
    have "j = 0 \<or> j = 1 \<or> j = 2" using j by presburger
    moreover have "is_s16 (lsf b ! j)" by (rule fields_small [OF f(3)]) (use j in simp_all)
    ultimately show "lsf r ! j = lsf b ! j"
      by (elim disjE; simp only:; intro tst_eqI; simp add: v pack20_nth less_16 tst_simps h hf pack_single_defs) }
  show "startIdx r = startIdx b" "state_first r = state_first b" "idxForMax r = idxForMax b"
    using s by (intro tst_eqI; simp add: v pack20_nth less_16 tst_simps h hf pack_single_defs)+
qed

lemma unpack_pack_30_fields:
  assumes ok: "bits_ok 30 b" and b0: "bits_shape b0"
  defines "r \<equiv> snd (WebRtcIlbcfix_UnpackBits (WebRtcIlbcfix_PackBits b 30) b0 30)"
  shows "j < 15 \<Longrightarrow> cb_index r ! j = cb_index b ! j"
    and "j < 15 \<Longrightarrow> gain_index r ! j = gain_index b ! j"
    and "j < 6 \<Longrightarrow> lsf r ! j = lsf b ! j"
    and "startIdx r = startIdx b" and "state_first r = state_first b" and "idxForMax r = idxForMax b"
proof -
  have f: "fields_in [7, 7, 7, 8, 7, 7, 8, 8, 8, 8, 8, 8, 8, 8, 8] (cb_index b)" "fields_in [5, 4, 3, 5, 4, 3, 5, 4, 3, 5, 4, 3, 5, 4, 3] (gain_index b)"
     "fields_in [6, 7, 7, 6, 7, 7] (lsf b)" using ok by (auto simp: bits_ok_def cb_widths_def gain_widths_def lsf_widths_def)
  have h: "\<And>k. 3 \<le> k \<Longrightarrow> \<not> tst (startIdx b) k" "\<And>k. 1 \<le> k \<Longrightarrow> \<not> tst (state_first b) k"
      "\<And>k. 6 \<le> k \<Longrightarrow> \<not> tst (idxForMax b) k" and s: "is_s16 (startIdx b)" "is_s16 (state_first b)" "is_s16 (idxForMax b)"
    using ok tst_high [of "startIdx b" 3] tst_high [of "state_first b" 1] tst_high [of "idxForMax b" 6]
    by (auto simp: bits_ok_def is_s16_def)
  note v = unpack_30_values [OF b0, of "WebRtcIlbcfix_PackBits b 30", folded r_def, unfolded One_nat_def]
  have hf: "\<And>k. 7 \<le> k \<Longrightarrow> \<not> tst (cb_index b ! 0) k"
    "\<And>k. 7 \<le> k \<Longrightarrow> \<not> tst (cb_index b ! Suc 0) k"
    "\<And>k. 7 \<le> k \<Longrightarrow> \<not> tst (cb_index b ! 2) k"
    "\<And>k. 8 \<le> k \<Longrightarrow> \<not> tst (cb_index b ! 3) k"
    "\<And>k. 7 \<le> k \<Longrightarrow> \<not> tst (cb_index b ! 4) k"
    "\<And>k. 7 \<le> k \<Longrightarrow> \<not> tst (cb_index b ! 5) k"
    "\<And>k. 8 \<le> k \<Longrightarrow> \<not> tst (cb_index b ! 6) k"
    "\<And>k. 8 \<le> k \<Longrightarrow> \<not> tst (cb_index b ! 7) k"
    "\<And>k. 8 \<le> k \<Longrightarrow> \<not> tst (cb_index b ! 8) k"
    "\<And>k. 8 \<le> k \<Longrightarrow> \<not> tst (cb_index b ! 9) k"
    "\<And>k. 8 \<le> k \<Longrightarrow> \<not> tst (cb_index b ! 10) k"
    "\<And>k. 8 \<le> k \<Longrightarrow> \<not> tst (cb_index b ! 11) k"
    "\<And>k. 8 \<le> k \<Longrightarrow> \<not> tst (cb_index b ! 12) k"
    "\<And>k. 8 \<le> k \<Longrightarrow> \<not> tst (cb_index b ! 13) k"
    "\<And>k. 8 \<le> k \<Longrightarrow> \<not> tst (cb_index b ! 14) k"
    "\<And>k. 5 \<le> k \<Longrightarrow> \<not> tst (gain_index b ! 0) k"
    "\<And>k. 4 \<le> k \<Longrightarrow> \<not> tst (gain_index b ! Suc 0) k"
    "\<And>k. 3 \<le> k \<Longrightarrow> \<not> tst (gain_index b ! 2) k"
    "\<And>k. 5 \<le> k \<Longrightarrow> \<not> tst (gain_index b ! 3) k"
    "\<And>k. 4 \<le> k \<Longrightarrow> \<not> tst (gain_index b ! 4) k"
    "\<And>k. 3 \<le> k \<Longrightarrow> \<not> tst (gain_index b ! 5) k"
    "\<And>k. 5 \<le> k \<Longrightarrow> \<not> tst (gain_index b ! 6) k"
    "\<And>k. 4 \<le> k \<Longrightarrow> \<not> tst (gain_index b ! 7) k"
    "\<And>k. 3 \<le> k \<Longrightarrow> \<not> tst (gain_index b ! 8) k"
    "\<And>k. 5 \<le> k \<Longrightarrow> \<not> tst (gain_index b ! 9) k"
    "\<And>k. 4 \<le> k \<Longrightarrow> \<not> tst (gain_index b ! 10) k"
    "\<And>k. 3 \<le> k \<Longrightarrow> \<not> tst (gain_index b ! 11) k"
    "\<And>k. 5 \<le> k \<Longrightarrow> \<not> tst (gain_index b ! 12) k"
    "\<And>k. 4 \<le> k \<Longrightarrow> \<not> tst (gain_index b ! 13) k"
    "\<And>k. 3 \<le> k \<Longrightarrow> \<not> tst (gain_index b ! 14) k"
    "\<And>k. 6 \<le> k \<Longrightarrow> \<not> tst (lsf b ! 0) k"
    "\<And>k. 7 \<le> k \<Longrightarrow> \<not> tst (lsf b ! Suc 0) k"
    "\<And>k. 7 \<le> k \<Longrightarrow> \<not> tst (lsf b ! 2) k"
    "\<And>k. 6 \<le> k \<Longrightarrow> \<not> tst (lsf b ! 3) k"
    "\<And>k. 7 \<le> k \<Longrightarrow> \<not> tst (lsf b ! 4) k"
    "\<And>k. 7 \<le> k \<Longrightarrow> \<not> tst (lsf b ! 5) k"
    using fields_tst [OF f(1)] fields_tst [OF f(2)] fields_tst [OF f(3)] by (simp_all add: nth_Cons')
  { assume j: "j < 15"
    have "j = 0 \<or> j = 1 \<or> j = 2 \<or> j = 3 \<or> j = 4 \<or> j = 5 \<or> j = 6 \<or> j = 7 \<or> j = 8 \<or> j = 9 \<or> j = 10 \<or> j = 11 \<or> j = 12 \<or> j = 13 \<or> j = 14" using j by presburger
    moreover have "is_s16 (cb_index b ! j)" by (rule fields_small [OF f(1)]) (use j in simp_all)
    ultimately show "cb_index r ! j = cb_index b ! j"
      by (elim disjE; simp only:; intro tst_eqI; simp add: v pack30_nth less_16 tst_simps h hf pack_single_defs) }
  { assume j: "j < 15"
    have "j = 0 \<or> j = 1 \<or> j = 2 \<or> j = 3 \<or> j = 4 \<or> j = 5 \<or> j = 6 \<or> j = 7 \<or> j = 8 \<or> j = 9 \<or> j = 10 \<or> j = 11 \<or> j = 12 \<or> j = 13 \<or> j = 14" using j by presburger
    moreover have "is_s16 (gain_index b ! j)" by (rule fields_small [OF f(2)]) (use j in simp_all)
    ultimately show "gain_index r ! j = gain_index b ! j"
      by (elim disjE; simp only:; intro tst_eqI; simp add: v pack30_nth less_16 tst_simps h hf pack_single_defs) }
  { assume j: "j < 6"
    have "j = 0 \<or> j = 1 \<or> j = 2 \<or> j = 3 \<or> j = 4 \<or> j = 5" using j by presburger
    moreover have "is_s16 (lsf b ! j)" by (rule fields_small [OF f(3)]) (use j in simp_all)
    ultimately show "lsf r ! j = lsf b ! j"
      by (elim disjE; simp only:; intro tst_eqI; simp add: v pack30_nth less_16 tst_simps h hf pack_single_defs) }
  show "startIdx r = startIdx b" "state_first r = state_first b" "idxForMax r = idxForMax b"
    using s by (intro tst_eqI; simp add: v pack30_nth less_16 tst_simps h hf pack_single_defs)+
qed

section \<open>Packing what was unpacked\<close>

lemma tst_eqI_u16:
  assumes "is_u16 x" and "is_u16 y" and "\<forall>n<16. tst x n = tst y n"
  shows "x = y"
proof -
  have "tst (u16 x) n = tst (u16 y) n" for n using assms(3) by (auto simp: tst_u16)
  then have "u16 x = u16 y" by (simp add: tst_def bit_eq_iff)
  then show ?thesis using assms(1,2) by (simp add: is_u16_def u16_id)
qed

lemma is_u16_pack_nth:
  "n < 3 \<Longrightarrow> is_u16 (pack_class2 b ! n)" "n < 7 \<Longrightarrow> is_u16 (pack_class3 b ! n)"
  by (simp_all add: pack_class2_def pack_class3_def)

lemma pack_unpack_20:
  fixes ws :: "int list"
  assumes b0: "bits_shape b0" and len: "length ws = 19" and u16: "\<forall>w \<in> set ws. is_u16 w" and last: "\<not> tst (ws ! 18) 0"
  defines "r \<equiv> snd (WebRtcIlbcfix_UnpackBits ws b0 20)"
  shows "WebRtcIlbcfix_PackBits r 20 = ws"
proof -
  note v = unpack_20_values [OF b0, of ws, folded r_def, unfolded One_nat_def]
  have l: "length (idxVec b0) = 58" using b0 by (simp add: bits_shape_def)
  note x = idx_unpack_20 [OF l, of _ ws, folded r_def]
  have u: "is_u16 (ws ! n)" if "n < 19" for n using that len u16 by simp
  have h: "\<not> tst (ws ! n) k" if "n < 19" "16 \<le> k" for n k using that u by (intro tst_u16_high) auto
  have "pack_class2 r ! k = ws ! (3 + k)" if k: "k < 3" for k
  proof (rule tst_eqI_u16)
    show "\<forall>n<16. tst (pack_class2 r ! k) n = tst (ws ! (3 + k)) n"
    proof (intro allI impI)
      fix n :: nat assume n: "n < 16"
      define t where "t = 15 - n"
      have "t < 16" "15 - t = n" using n by (auto simp: t_def)
      then have "(16 * k + t) div 16 = k" "(16 * k + t) mod 16 = t" "16 * k + t < 48" "15 - t = n" using k by auto
      then show "tst (pack_class2 r ! k) n = tst (ws ! (3 + k)) n"
        using n by (simp add: tst_pack_class2 [OF k] x tst_idx_value flip: t_def)
    qed
  qed (use k u is_u16_pack_nth in auto)
  note c2 = this
  have "pack_class3 r ! k = ws ! (7 + k)" if k: "k < 7" for k
  proof (rule tst_eqI_u16)
    show "\<forall>n<16. tst (pack_class3 r ! k) n = tst (ws ! (7 + k)) n"
    proof (intro allI impI)
      fix n :: nat assume n: "n < 16"
      define t where "t = 7 - n div 2"
      have t: "t < 8" "14 - 2 * t + n mod 2 = n" using n unfolding t_def by presburger+
      then have "(8 * k + t) div 8 = k" "(8 * k + t) mod 8 = t" "8 * k + t < 56" using k by auto
      then show "tst (pack_class3 r ! k) n = tst (ws ! (7 + k)) n"
        using n k t by (simp add: tst_pack_class3 [OF k] x tst_idx_value flip: t_def)
    qed
  qed (use k u is_u16_pack_nth in auto)
  note c3 = this
  have "pack_class1_20 r ! 0 = ws ! 0"
    "pack_class1_20 r ! Suc 0 = ws ! Suc 0"
    "pack_class1_20 r ! 2 = ws ! 2"
    by (intro tst_eqI_u16; simp add: u h v less_16 tst_simps pack_single_defs)+
  note s1 = this
  have "pack_class2_20 r ! 0 = ws ! 6"
    by (intro tst_eqI_u16; simp add: u h v x tst_idx_value less_16 tst_simps pack_single_defs)+
  note s2 = this
  have "pack_class3_20 r ! 0 = ws ! 14"
    "pack_class3_20 r ! Suc 0 = ws ! 15"
    "pack_class3_20 r ! 2 = ws ! 16"
    "pack_class3_20 r ! 3 = ws ! 17"
    "pack_class3_20 r ! 4 = ws ! 18"
    using last by (intro tst_eqI_u16; simp add: u h v x tst_idx_value less_16 tst_simps pack_single_defs)+
  note s3 = this
  show ?thesis
  proof (rule nth_equalityI)
    show "length (WebRtcIlbcfix_PackBits r 20) = length ws" by (simp add: WebRtcIlbcfix_PackBits_def len)
    fix n assume "n < length (WebRtcIlbcfix_PackBits r 20)"
    then have "n = 0 \<or> n = 1 \<or> n = 2 \<or> n = 3 \<or> n = 4 \<or> n = 5 \<or> n = 6 \<or> n = 7 \<or> n = 8 \<or> n = 9 \<or> n = 10 \<or> n = 11 \<or> n = 12 \<or> n = 13 \<or> n = 14 \<or> n = 15 \<or> n = 16 \<or> n = 17 \<or> n = 18" by (simp add: WebRtcIlbcfix_PackBits_def; presburger)
    then show "WebRtcIlbcfix_PackBits r 20 ! n = ws ! n"
      by (elim disjE; simp add: pack20_nth c2 c3 s1 s2 s3)
  qed
qed

lemma pack_unpack_30:
  fixes ws :: "int list"
  assumes b0: "bits_shape b0" and len: "length ws = 25" and u16: "\<forall>w \<in> set ws. is_u16 w" and last: "\<not> tst (ws ! 24) 0"
  defines "r \<equiv> snd (WebRtcIlbcfix_UnpackBits ws b0 30)"
  shows "WebRtcIlbcfix_PackBits r 30 = ws"
proof -
  note v = unpack_30_values [OF b0, of ws, folded r_def, unfolded One_nat_def]
  have l: "length (idxVec b0) = 58" using b0 by (simp add: bits_shape_def)
  note x = idx_unpack_30 [OF l, of _ ws, folded r_def]
  have u: "is_u16 (ws ! n)" if "n < 25" for n using that len u16 by simp
  have h: "\<not> tst (ws ! n) k" if "n < 25" "16 \<le> k" for n k using that u by (intro tst_u16_high) auto
  have "pack_class2 r ! k = ws ! (4 + k)" if k: "k < 3" for k
  proof (rule tst_eqI_u16)
    show "\<forall>n<16. tst (pack_class2 r ! k) n = tst (ws ! (4 + k)) n"
    proof (intro allI impI)
      fix n :: nat assume n: "n < 16"
      define t where "t = 15 - n"
      have "t < 16" "15 - t = n" using n by (auto simp: t_def)
      then have "(16 * k + t) div 16 = k" "(16 * k + t) mod 16 = t" "16 * k + t < 48" "15 - t = n" using k by auto
      then show "tst (pack_class2 r ! k) n = tst (ws ! (4 + k)) n"
        using n by (simp add: tst_pack_class2 [OF k] x tst_idx_value flip: t_def)
    qed
  qed (use k u is_u16_pack_nth in auto)
  note c2 = this
  have "pack_class3 r ! k = ws ! (10 + k)" if k: "k < 7" for k
  proof (rule tst_eqI_u16)
    show "\<forall>n<16. tst (pack_class3 r ! k) n = tst (ws ! (10 + k)) n"
    proof (intro allI impI)
      fix n :: nat assume n: "n < 16"
      define t where "t = 7 - n div 2"
      have t: "t < 8" "14 - 2 * t + n mod 2 = n" using n unfolding t_def by presburger+
      then have "(8 * k + t) div 8 = k" "(8 * k + t) mod 8 = t" "8 * k + t < 56" using k by auto
      then show "tst (pack_class3 r ! k) n = tst (ws ! (10 + k)) n"
        using n k t by (simp add: tst_pack_class3 [OF k] x tst_idx_value flip: t_def)
    qed
  qed (use k u is_u16_pack_nth in auto)
  note c3 = this
  have "pack_class1_30 r ! 0 = ws ! 0"
    "pack_class1_30 r ! Suc 0 = ws ! Suc 0"
    "pack_class1_30 r ! 2 = ws ! 2"
    "pack_class1_30 r ! 3 = ws ! 3"
    by (intro tst_eqI_u16; simp add: u h v less_16 tst_simps pack_single_defs)+
  note s1 = this
  have "pack_class2_30 r ! 0 = ws ! 7"
    "pack_class2_30 r ! Suc 0 = ws ! 8"
    "pack_class2_30 r ! 2 = ws ! 9"
    by (intro tst_eqI_u16; simp add: u h v x tst_idx_value less_16 tst_simps pack_single_defs)+
  note s2 = this
  have "pack_class3_30 r ! 0 = ws ! 17"
    "pack_class3_30 r ! Suc 0 = ws ! 18"
    "pack_class3_30 r ! 2 = ws ! 19"
    "pack_class3_30 r ! 3 = ws ! 20"
    "pack_class3_30 r ! 4 = ws ! 21"
    "pack_class3_30 r ! 5 = ws ! 22"
    "pack_class3_30 r ! 6 = ws ! 23"
    "pack_class3_30 r ! 7 = ws ! 24"
    using last by (intro tst_eqI_u16; simp add: u h v x tst_idx_value less_16 tst_simps pack_single_defs)+
  note s3 = this
  show ?thesis
  proof (rule nth_equalityI)
    show "length (WebRtcIlbcfix_PackBits r 30) = length ws" by (simp add: WebRtcIlbcfix_PackBits_def len)
    fix n assume "n < length (WebRtcIlbcfix_PackBits r 30)"
    then have "n = 0 \<or> n = 1 \<or> n = 2 \<or> n = 3 \<or> n = 4 \<or> n = 5 \<or> n = 6 \<or> n = 7 \<or> n = 8 \<or> n = 9 \<or> n = 10 \<or> n = 11 \<or> n = 12 \<or> n = 13 \<or> n = 14 \<or> n = 15 \<or> n = 16 \<or> n = 17 \<or> n = 18 \<or> n = 19 \<or> n = 20 \<or> n = 21 \<or> n = 22 \<or> n = 23 \<or> n = 24" by (simp add: WebRtcIlbcfix_PackBits_def; presburger)
    then show "WebRtcIlbcfix_PackBits r 30 ! n = ws ! n"
      by (elim disjE; simp add: pack30_nth c2 c3 s1 s2 s3)
  qed
qed

section \<open>What a mode transmits\<close>

text \<open>The parameters after a frame of the given mode: those it carries are the sent ones, the others stay.\<close>

definition received :: "int \<Rightarrow> iLBC_bits \<Rightarrow> iLBC_bits \<Rightarrow> iLBC_bits" where
  "received mode b b0 =
     (let put = \<lambda>n xs ys. take n xs @ drop n ys
      in b0\<lparr>lsf := put (length (lsf_widths mode)) (lsf b) (lsf b0),
            cb_index := put (length (cb_widths mode)) (cb_index b) (cb_index b0),
            gain_index := put (length (gain_widths mode)) (gain_index b) (gain_index b0),
            idxForMax := idxForMax b, state_first := state_first b,
            idxVec := put (length (idx_widths mode)) (idxVec b) (idxVec b0),
            startIdx := startIdx b\<rparr>)"

lemma unpack_20_rest:
  fixes ws :: "int list"
  assumes b0: "bits_shape b0"
  defines "r \<equiv> snd (WebRtcIlbcfix_UnpackBits ws b0 20)"
  shows "bits_shape r" and "9 \<le> j \<Longrightarrow> cb_index r ! j = cb_index b0 ! j" and "9 \<le> j \<Longrightarrow> gain_index r ! j = gain_index b0 ! j"
    and "3 \<le> j \<Longrightarrow> lsf r ! j = lsf b0 ! j" and "57 \<le> j \<Longrightarrow> idxVec r ! j = idxVec b0 ! j" and "firstbits r = firstbits b0"
proof -
  have l: "length (cb_index b0) = 15" "length (gain_index b0) = 15" "length (lsf b0) = 6" "length (idxVec b0) = 58"
    using b0 by (simp_all add: bits_shape_def)
  have i: "length (idxVec r) = 58" "57 \<le> j \<Longrightarrow> idxVec r ! j = idxVec b0 ! j"
    by (simp_all add: r_def WebRtcIlbcfix_UnpackBits_def Let_def idx_phases unpack_class2_nth unpack_class3_nth unpack_bit2_nth
        nth_or_at l del: upt_rec_numeral)
  show "bits_shape r" "9 \<le> j \<Longrightarrow> cb_index r ! j = cb_index b0 ! j" "9 \<le> j \<Longrightarrow> gain_index r ! j = gain_index b0 ! j"
    "3 \<le> j \<Longrightarrow> lsf r ! j = lsf b0 ! j" "firstbits r = firstbits b0"
    using i(1) by (simp_all add: r_def bits_shape_def unpack_simps l)
  show "57 \<le> j \<Longrightarrow> idxVec r ! j = idxVec b0 ! j" by (rule i(2))
qed

lemma unpack_30_rest:
  fixes ws :: "int list"
  assumes b0: "bits_shape b0"
  defines "r \<equiv> snd (WebRtcIlbcfix_UnpackBits ws b0 30)"
  shows "bits_shape r" and "firstbits r = firstbits b0"
proof -
  have l: "length (cb_index b0) = 15" "length (gain_index b0) = 15" "length (lsf b0) = 6" "length (idxVec b0) = 58"
    using b0 by (simp_all add: bits_shape_def)
  have "length (idxVec r) = 58"
    by (simp add: r_def WebRtcIlbcfix_UnpackBits_def Let_def idx_phases unpack_class2_nth unpack_class3_nth unpack_bit2_nth
        l del: upt_rec_numeral)
  then show "bits_shape r" "firstbits r = firstbits b0"
    by (simp_all add: r_def bits_shape_def unpack_simps l)
qed

lemma is_u16_PackBits: "\<forall>w \<in> set (WebRtcIlbcfix_PackBits b mode). is_u16 w"
  by (simp add: WebRtcIlbcfix_PackBits_def pack_class2_def pack_class3_def pack_single_defs ball_Un)

lemma unpack_flag:
  "fst (WebRtcIlbcfix_UnpackBits ws b0 20) = (if tst (ws ! 18) 0 then 1 else 0)"
  "fst (WebRtcIlbcfix_UnpackBits ws b0 30) = (if tst (ws ! 24) 0 then 1 else 0)"
  by (simp_all add: WebRtcIlbcfix_UnpackBits_def Let_def tst_def and_one_eq mod_2_eq_odd bit_0)

text \<open>
  C11. Unpacking recovers what was packed: for a frame of 20 or 30 ms whose parameters are within their ranges, the 19 or 25
  words of the stream are 16 bit values, the frame is not marked empty, and every parameter the mode carries comes back,
  while the others keep the value they had before.
\<close>

theorem UnpackBits_PackBits:
  assumes "mode = 20 \<or> mode = 30" and "bits_ok mode b" and "bits_shape b0"
  shows "WebRtcIlbcfix_UnpackBits (WebRtcIlbcfix_PackBits b mode) b0 mode = (0, received mode b b0)
       \<and> length (WebRtcIlbcfix_PackBits b mode) = (if mode = 20 then 19 else 25)
       \<and> Ball (set (WebRtcIlbcfix_PackBits b mode)) is_u16"
proof -
  have b: "bits_shape b" using assms(2) by (simp add: bits_ok_def)
  note sh = b [unfolded bits_shape_def] assms(3) [unfolded bits_shape_def]
  have len: "length (WebRtcIlbcfix_PackBits b mode) = (if mode = 20 then 19 else 25)" by (simp add: WebRtcIlbcfix_PackBits_def)
  have "\<not> tst (pack_class3_20 b ! 4) 0" "\<not> tst (pack_class3_30 b ! 7) 0" by (simp_all add: pack_single_defs tst_simps)
  then have flag: "fst (WebRtcIlbcfix_UnpackBits (WebRtcIlbcfix_PackBits b mode) b0 mode) = 0"
    using assms(1) by (elim disjE) (simp_all add: unpack_flag pack20_nth pack30_nth)
  have "snd (WebRtcIlbcfix_UnpackBits (WebRtcIlbcfix_PackBits b mode) b0 mode) = received mode b b0" using assms(1)
  proof
    assume m: "mode = 20"
    have ok: "bits_ok 20 b" using assms(2) m by simp
    define r where "r = snd (WebRtcIlbcfix_UnpackBits (WebRtcIlbcfix_PackBits b 20) b0 20)"
    note f = unpack_pack_20_fields [OF ok assms(3), folded r_def] and i = unpack_pack_20_idx [OF ok assms(3), folded r_def]
      and o = unpack_20_rest [OF assms(3), where ws = "WebRtcIlbcfix_PackBits b 20", folded r_def]
    have "cb_index r = take 9 (cb_index b) @ drop 9 (cb_index b0)" "gain_index r = take 9 (gain_index b) @ drop 9 (gain_index b0)"
      "lsf r = take 3 (lsf b) @ drop 3 (lsf b0)" "idxVec r = take 57 (idxVec b) @ drop 57 (idxVec b0)"
      using f i o sh by (auto simp: bits_shape_def intro!: list_take_drop)
    then show ?thesis using f(4-6) o(6)
      by (intro iLBC_bits.equality) (simp_all add: m received_def r_def [symmetric] lsf_widths_def cb_widths_def gain_widths_def
          idx_widths_def numeral_eq_Suc)
  next
    assume m: "mode = 30"
    have ok: "bits_ok 30 b" using assms(2) m by simp
    define r where "r = snd (WebRtcIlbcfix_UnpackBits (WebRtcIlbcfix_PackBits b 30) b0 30)"
    note f = unpack_pack_30_fields [OF ok assms(3), folded r_def] and i = unpack_pack_30_idx [OF ok assms(3), folded r_def]
      and o = unpack_30_rest [OF assms(3), where ws = "WebRtcIlbcfix_PackBits b 30", folded r_def]
    have "cb_index r = cb_index b" "gain_index r = gain_index b" "lsf r = lsf b" "idxVec r = idxVec b"
      using f i o(1) sh by (auto simp: bits_shape_def intro!: nth_equalityI)
    then show ?thesis using f(4-6) o(2) sh
      by (intro iLBC_bits.equality) (simp_all add: m received_def r_def [symmetric] lsf_widths_def cb_widths_def gain_widths_def
          idx_widths_def numeral_eq_Suc)
  qed
  then show ?thesis using flag len is_u16_PackBits by (metis prod.collapse)
qed

lemma fields_in_Nil [simp]: "fields_in [] v" and fields_in_Cons [simp]:
  "fields_in (w # ws) (x # v) \<longleftrightarrow> 0 \<le> x \<and> x < 2 ^ w \<and> fields_in ws v"
  by (auto simp: fields_in_def less_Suc_eq_0_disj)

lemma UnpackBits_PackBits_witness:
  "let b = \<lparr>lsf = [63, 1, 127, 0, 0, 0], cb_index = [127, 3, 64, 255, 5, 6, 200, 8, 9, 0, 0, 0, 0, 0, 0],
            gain_index = [31, 15, 7, 1, 2, 3, 16, 8, 4, 0, 0, 0, 0, 0, 0], idxForMax = 42, state_first = 1,
            idxVec = replicate 58 5, firstbits = 0, startIdx = 3\<rparr>;
       b0 = b\<lparr>lsf := replicate 6 9, idxVec := replicate 58 0, firstbits := 4\<rparr>
   in WebRtcIlbcfix_UnpackBits (WebRtcIlbcfix_PackBits b 20) b0 20 = (0, received 20 b b0)"
proof -
  let ?b = "\<lparr>lsf = [63, 1, 127, 0, 0, 0], cb_index = [127, 3, 64, 255, 5, 6, 200, 8, 9, 0, 0, 0, 0, 0, 0],
            gain_index = [31, 15, 7, 1, 2, 3, 16, 8, 4, 0, 0, 0, 0, 0, 0], idxForMax = 42, state_first = 1,
            idxVec = replicate 58 5, firstbits = 0, startIdx = 3\<rparr> :: iLBC_bits"
  have "bits_ok 20 ?b"
    by (simp add: bits_ok_def bits_shape_def lsf_widths_def cb_widths_def gain_widths_def idx_widths_def)
      (simp add: fields_in_def)
  then show ?thesis
    using UnpackBits_PackBits [of 20 ?b "?b\<lparr>lsf := replicate 6 9, idxVec := replicate 58 0, firstbits := 4\<rparr>"]
    by (simp add: Let_def bits_shape_def)
qed

text \<open>
  C13. Whatever 16 bit words arrive, the unpacked parameters are within the ranges of the mode, and the result is 0 or 1.
\<close>

theorem UnpackBits_type:
  assumes "mode = 20 \<or> mode = 30" and "length ws = (if mode = 20 then 19 else 25)" and "Ball (set ws) is_u16" and "bits_shape b0"
  shows "case WebRtcIlbcfix_UnpackBits ws b0 mode of (flag, b) \<Rightarrow> flag \<in> {0, 1} \<and> bits_ok mode b"
  using assms(1)
proof
  assume m: "mode = 20"
  have l: "length (idxVec b0) = 58" using assms(4) by (simp add: bits_shape_def)
  have "fields_in (replicate 57 3) (idxVec (snd (WebRtcIlbcfix_UnpackBits ws b0 20)))"
    by (rule fields_inI) (simp add: idx_unpack_20 [OF l] idx_value_range)
  then show ?thesis using unpack_20_range [OF assms(4), of ws] unpack_20_rest(1) [OF assms(4), where ws = ws] assms(2,3) unpack_flag(1) [of ws b0]
    by (simp add: m bits_ok_def cb_widths_def gain_widths_def lsf_widths_def idx_widths_def split_beta)
next
  assume m: "mode = 30"
  have l: "length (idxVec b0) = 58" using assms(4) by (simp add: bits_shape_def)
  have "fields_in (replicate 58 3) (idxVec (snd (WebRtcIlbcfix_UnpackBits ws b0 30)))"
    by (rule fields_inI) (simp add: idx_unpack_30 [OF l] idx_value_range)
  then show ?thesis using unpack_30_range [OF assms(4), of ws] unpack_30_rest(1) [OF assms(4), where ws = ws] assms(2,3) unpack_flag(2) [of ws b0]
    by (simp add: m bits_ok_def cb_widths_def gain_widths_def lsf_widths_def idx_widths_def split_beta)
qed

definition empty_bits :: iLBC_bits where
  "empty_bits = \<lparr>lsf = replicate 6 0, cb_index = replicate 15 0, gain_index = replicate 15 0, idxForMax = 0, state_first = 0,
     idxVec = replicate 58 0, firstbits = 0, startIdx = 0\<rparr>"

lemma UnpackBits_type_witness:
  "case WebRtcIlbcfix_UnpackBits (replicate 19 54321) empty_bits 20 of (flag, b) \<Rightarrow> flag \<in> {0, 1} \<and> bits_ok 20 b"
  using UnpackBits_type [of 20 "replicate 19 54321" empty_bits] by (simp add: is_u16_def bits_shape_def empty_bits_def)

text \<open>
  C12. Packing reproduces the stream: if the words are 16 bit values and the frame is not marked empty, packing the unpacked
  parameters gives the same words, so the two functions are inverse bijections.
\<close>

theorem PackBits_UnpackBits:
  assumes "mode = 20 \<or> mode = 30" and "length ws = (if mode = 20 then 19 else 25)" and "Ball (set ws) is_u16" and "bits_shape b0"
    and "fst (WebRtcIlbcfix_UnpackBits ws b0 mode) = 0"
  shows "WebRtcIlbcfix_PackBits (snd (WebRtcIlbcfix_UnpackBits ws b0 mode)) mode = ws"
  using assms(1)
proof
  assume "mode = 20"
  then show ?thesis using pack_unpack_20 [OF assms(4), of ws] assms(2,3,5) by (simp add: unpack_flag split: if_splits)
next
  assume "mode = 30"
  then show ?thesis using pack_unpack_30 [OF assms(4), of ws] assms(2,3,5) by (simp add: unpack_flag split: if_splits)
qed

lemma PackBits_UnpackBits_witness:
  "WebRtcIlbcfix_PackBits (snd (WebRtcIlbcfix_UnpackBits (replicate 25 54320) empty_bits 30)) 30 = replicate 25 54320"
  using PackBits_UnpackBits [of 30 "replicate 25 54320" empty_bits]
  by (simp add: is_u16_def bits_shape_def unpack_flag tst_numeral) (simp add: empty_bits_def)

end
