(* ===== verification/Rtp_Fec.thy ===== *)
theory Rtp_Fec
  imports Byte_Lists "HOL-Library.Monad_Syntax"
begin

text \<open>
  The sender of the forward error correction of RTP packets
  (\<open>modules/rtp_rtcp/source/forward_error_correction.cc\<close>): the packets, the number of FEC packets,
  the exclusive or of the media packets and the two headers. The masks are in \<open>Rtp_Fec_Masks\<close>.

  \<open>Packet\<close> is the class \<open>ForwardErrorCorrection::Packet\<close> without its reference count: packets that have been
  built are never changed, so a reference to one is the packet itself. The masks are one list, row after row, as
  in the code. A write or a read outside a buffer and a shift by a negative number of bits are \<open>None\<close>.
\<close>

section \<open>Packets and buffers\<close>

definition IP_PACKET_SIZE :: nat where "IP_PACKET_SIZE = 1500"
definition kRtpHeaderSize :: nat where "kRtpHeaderSize = 12"
definition kFecHeaderSize :: nat where "kFecHeaderSize = 10"
definition kMaskSizeLBitSet :: nat where "kMaskSizeLBitSet = 6"
definition kMaskSizeLBitClear :: nat where "kMaskSizeLBitClear = 2"
definition kUlpHeaderSizeLBitSet :: nat where "kUlpHeaderSizeLBitSet = 2 + kMaskSizeLBitSet"
definition kUlpHeaderSizeLBitClear :: nat where "kUlpHeaderSizeLBitClear = 2 + kMaskSizeLBitClear"
definition kMaxMediaPackets :: nat where "kMaxMediaPackets = 48"

lemmas fec_constants = IP_PACKET_SIZE_def kRtpHeaderSize_def kFecHeaderSize_def kMaskSizeLBitSet_def
  kMaskSizeLBitClear_def kUlpHeaderSizeLBitSet_def kUlpHeaderSizeLBitClear_def kMaxMediaPackets_def

record Packet =
  pkt_length :: int
  pkt_data :: "int list"

text \<open>\<open>memcpy\<close> within two buffers, and the loop that combines bytes with \<open>^=\<close>.\<close>

definition memcpy :: "int list \<Rightarrow> nat \<Rightarrow> int list \<Rightarrow> nat \<Rightarrow> nat \<Rightarrow> int list option" where
  "memcpy dst i src j n =
     (if i + n \<le> length dst \<and> j + n \<le> length src
      then Some (take i dst @ take n (drop j src) @ drop (i + n) dst) else None)"

definition xor_bytes :: "int list \<Rightarrow> nat \<Rightarrow> int list \<Rightarrow> nat \<Rightarrow> nat \<Rightarrow> int list option" where
  "xor_bytes dst i src j n =
     (if i + n \<le> length dst \<and> j + n \<le> length src
      then Some (fold (\<lambda>k d. d[i + k := d ! (i + k) XOR src ! (j + k)]) [0..<n] dst) else None)"

text \<open>Both, where they stay in bounds, as functions of the position.\<close>

lemma nth_map_upt_0: "k < n \<Longrightarrow> map f [0..<n] ! k = f k"
  by simp

lemma memcpy_Some:
  assumes "i + n \<le> length d" and "j + n \<le> length s"
  shows "memcpy d i s j n = Some (map (\<lambda>k. if i \<le> k \<and> k < i + n then s ! (j + (k - i)) else d ! k) [0..<length d])"
proof -
  have l: "length (take n (drop j s)) = n" "length (take i d) = i" using assms by simp_all
  have "take i d @ take n (drop j s) @ drop (i + n) d
     = map (\<lambda>k. if i \<le> k \<and> k < i + n then s ! (j + (k - i)) else d ! k) [0..<length d]" (is "?l = ?r")
  proof (rule nth_equalityI)
    show "length ?l = length ?r" using assms by simp
    fix k assume k: "k < length ?l"
    consider "k < i" | "i \<le> k" "k < i + n" | "i + n \<le> k" by linarith
    then show "?l ! k = ?r ! k"
    proof cases
      case 1
      then show ?thesis using assms by (simp add: nth_append)
    next
      case 2
      then have d: "k - i < n" "k < length d" "\<not> k < i" using assms by linarith+
      then have "?l ! k = take n (drop j s) ! (k - i)" using l by (simp only: nth_append if_True if_False)
      also have "\<dots> = s ! (j + (k - i))" using d assms by (simp only: nth_take nth_drop)
      finally show ?thesis using 2 d by (simp only: nth_map_upt_0) simp
    next
      case 3
      then have "?l ! k = drop (i + n) d ! (k - (i + n))" using l by (simp add: nth_append)
      then show ?thesis using 3 assms k by simp
    qed
  qed
  then show ?thesis using assms by (simp add: memcpy_def)
qed

lemma xor_fold: "i + n \<le> length d \<Longrightarrow>
   fold (\<lambda>k d. d[i + k := d ! (i + k) XOR s ! (j + k)]) [0..<n] d
     = map (\<lambda>k. if i \<le> k \<and> k < i + n then d ! k XOR s ! (j + (k - i)) else d ! k) [0..<length d]"
proof (induction n)
  case 0
  have "\<not> (i \<le> k \<and> k < i + 0)" for k by simp
  then show ?case by (intro nth_equalityI) (simp_all only: fold_simps upt_0 if_False length_map length_upt diff_zero nth_map_upt_0 list.size upt_conv_Nil le_refl id_apply fold_Nil)
next
  case (Suc n)
  let ?g = "\<lambda>n. map (\<lambda>k. if i \<le> k \<and> k < i + n then d ! k XOR s ! (j + (k - i)) else d ! k) [0..<length d]"
  have g: "(?g n) ! (i + n) = d ! (i + n)" using Suc.prems by simp
  have "fold (\<lambda>k d. d[i + k := d ! (i + k) XOR s ! (j + k)]) [0..<Suc n] d
      = (?g n)[i + n := ?g n ! (i + n) XOR s ! (j + n)]"
    using Suc by simp
  also have "\<dots> = ?g (Suc n)"
  proof (rule nth_equalityI)
    fix k assume "k < length ((?g n)[i + n := ?g n ! (i + n) XOR s ! (j + n)])"
    then have k: "k < length d" by simp
    then show "(?g n)[i + n := ?g n ! (i + n) XOR s ! (j + n)] ! k = ?g (Suc n) ! k"
      unfolding g by (cases "k = i + n") auto
  qed simp
  finally show ?case .
qed

lemma xor_bytes_Some: "i + n \<le> length d \<Longrightarrow> j + n \<le> length s \<Longrightarrow>
   xor_bytes d i s j n
     = Some (map (\<lambda>k. if i \<le> k \<and> k < i + n then d ! k XOR s ! (j + (k - i)) else d ! k) [0..<length d])"
  by (simp only: xor_bytes_def xor_fold if_True simp_thms)

definition AssignUWord16ToBuffer :: "int \<Rightarrow> int list" where
  "AssignUWord16ToBuffer v = [u8 (shr v 8), u8 v]"

definition AssignUWord32ToBuffer :: "int \<Rightarrow> int list" where
  "AssignUWord32ToBuffer v = [u8 (shr v 24), u8 (shr v 16), u8 (shr v 8), u8 v]"

definition BufferToUWord16 :: "int list \<Rightarrow> int" where
  "BufferToUWord16 b = u16 (shl (b ! 0) 8 + b ! 1)"

definition ParseSequenceNumber :: "int list \<Rightarrow> int" where
  "ParseSequenceNumber packet = u16 (shl (packet ! 2) 8 + packet ! 3)"

definition IsNewerSequenceNumber :: "int \<Rightarrow> int \<Rightarrow> bool" where
  "IsNewerSequenceNumber s prev \<longleftrightarrow> s \<noteq> prev \<and> u16 (s - prev) < 0x8000"

definition num_mask_bytes :: "bool \<Rightarrow> nat" where
  "num_mask_bytes l_bit = (if l_bit then kMaskSizeLBitSet else kMaskSizeLBitClear)"

definition ulp_header_size :: "bool \<Rightarrow> nat" where
  "ulp_header_size l_bit = (if l_bit then kUlpHeaderSizeLBitSet else kUlpHeaderSizeLBitClear)"

section \<open>The number of FEC packets\<close>

definition GetNumberOfFecPackets :: "int \<Rightarrow> int \<Rightarrow> int" where
  "GetNumberOfFecPackets num_media_packets protection_factor =
     (let n = shr (num_media_packets * protection_factor + 128) 8
      in if protection_factor > 0 \<and> n = 0 then 1 else n)"

section \<open>The protection of a media packet\<close>

text \<open>One media packet is added to an FEC packet: copied into an untouched one, combined with the bytes of
  one that protects others already.\<close>

definition add_media :: "bool \<Rightarrow> Packet \<Rightarrow> Packet \<Rightarrow> Packet option" where
  "add_media l_bit media fec =
     (let payload_length = AssignUWord16ToBuffer (u16 (pkt_length media - int kRtpHeaderSize));
          start = kFecHeaderSize + ulp_header_size l_bit;
          fec_rtp_offset = start - kRtpHeaderSize;
          fec_packet_length = u16 (pkt_length media + int fec_rtp_offset);
          m = pkt_data media
      in do {
           d \<leftarrow> (if pkt_length fec = 0
                then if pkt_length media < int kRtpHeaderSize then None
                else do {
                  d \<leftarrow> memcpy (pkt_data fec) 0 m 0 2;
                  d \<leftarrow> memcpy d 4 m 4 4;
                  d \<leftarrow> memcpy d 8 payload_length 0 2;
                  memcpy d start m kRtpHeaderSize (nat (pkt_length media - int kRtpHeaderSize))
                }
                else do {
                  d \<leftarrow> xor_bytes (pkt_data fec) 0 m 0 2;
                  d \<leftarrow> xor_bytes d 4 m 4 4;
                  d \<leftarrow> xor_bytes d 8 payload_length 0 2;
                  xor_bytes d start m (start - fec_rtp_offset) (nat (fec_packet_length - int start))
                });
           Some \<lparr>pkt_length = (if fec_packet_length > pkt_length fec then fec_packet_length else pkt_length fec),
                 pkt_data = d\<rparr>
         })"

text \<open>The walk over the media packets for one FEC packet. \<open>idx\<close> and \<open>b\<close> are \<open>pkt_mask_idx\<close> and
  \<open>media_pkt_idx\<close>; the sequence numbers move the bit, and only a bit number of exactly 8 moves to the next byte.
  Beyond 7, \<open>7 - media_pkt_idx\<close> is no valid shift.\<close>

definition next_mask_bit :: "nat \<Rightarrow> int \<Rightarrow> nat \<times> int" where
  "next_mask_bit idx b = (if b = 8 then (idx + 1, 0) else (idx, b))"

fun protect_loop :: "int list \<Rightarrow> bool \<Rightarrow> nat \<Rightarrow> int \<Rightarrow> Packet list \<Rightarrow> Packet \<Rightarrow> Packet option" where
  "protect_loop packet_mask l_bit idx b [] fec = Some fec"
| "protect_loop packet_mask l_bit idx b (p # ps) fec =
     (if idx < length packet_mask \<and> b \<le> 7
      then do {
        fec \<leftarrow> (if packet_mask ! idx AND shl 1 (nat (7 - b)) \<noteq> 0 then add_media l_bit p fec else Some fec);
        let b' = (case ps of [] \<Rightarrow> b
                    | q # _ \<Rightarrow> u32 (b + u16 (ParseSequenceNumber (pkt_data q) - ParseSequenceNumber (pkt_data p))));
        let (idx', b'') = next_mask_bit idx b';
        protect_loop packet_mask l_bit idx' b'' ps fec
      }
      else None)"

fun fec_rows :: "(nat \<Rightarrow> Packet \<Rightarrow> Packet option) \<Rightarrow> nat \<Rightarrow> nat \<Rightarrow> Packet list \<Rightarrow> Packet list option" where
  "fec_rows f i 0 gen = Some gen"
| "fec_rows f i (Suc n) gen =
     (if i < length gen
      then do { p \<leftarrow> f i (gen ! i); fec_rows f (i + 1) n (gen[i := p]) }
      else None)"

definition GenerateFecBitStrings :: "Packet list \<Rightarrow> int list \<Rightarrow> nat \<Rightarrow> bool \<Rightarrow> Packet list \<Rightarrow> Packet list option" where
  "GenerateFecBitStrings media packet_mask num_fec l_bit gen =
     (if media = [] then Some gen
      else fec_rows (\<lambda>i. protect_loop packet_mask l_bit (i * num_mask_bytes l_bit) 0 media) 0 num_fec gen)"

section \<open>The headers\<close>

definition ulp_header :: "Packet \<Rightarrow> int list \<Rightarrow> bool \<Rightarrow> nat \<Rightarrow> Packet \<Rightarrow> Packet option" where
  "ulp_header media packet_mask l_bit i fec =
     (let d0 = pkt_data fec ! 0 AND 0x7f;
          d0 = (if l_bit then d0 OR 0x40 else d0 AND 0xbf);
          prot = u16 (pkt_length fec - int kFecHeaderSize - int (ulp_header_size l_bit))
      in do {
        d \<leftarrow> memcpy (pkt_data fec) 0 [d0] 0 1;
        d \<leftarrow> memcpy d 2 (pkt_data media) 2 2;
        d \<leftarrow> memcpy d 10 (AssignUWord16ToBuffer prot) 0 2;
        d \<leftarrow> memcpy d 12 packet_mask (i * num_mask_bytes l_bit) (num_mask_bytes l_bit);
        Some (fec\<lparr>pkt_data := d\<rparr>)
      })"

definition GenerateFecUlpHeaders :: "Packet list \<Rightarrow> int list \<Rightarrow> bool \<Rightarrow> nat \<Rightarrow> Packet list \<Rightarrow> Packet list option" where
  "GenerateFecUlpHeaders media packet_mask l_bit num_fec gen =
     (case media of [] \<Rightarrow> None | p # _ \<Rightarrow> fec_rows (ulp_header p packet_mask l_bit) 0 num_fec gen)"

end
