(* ===== verification/Rtp_Fec_Receive.thy ===== *)
theory Rtp_Fec_Receive
  imports Rtp_Fec
begin

text \<open>
  The receiver of the forward error correction (\<open>forward_error_correction.cc\<close>): the list of FEC packets, the list of
  received and recovered media packets, and the recovery of a packet that is the only one missing under an FEC
  packet.

  The pointer of a protected packet to its data is an \<open>option\<close>. \<open>std::list::sort\<close> is stable insertion,
  \<open>std::lower_bound\<close> the first element that is not less, \<open>std::set_intersection\<close> the usual merge; all three
  are specified by the standard for a strict weak order, which \<open>LessThan\<close> is on sequence numbers less than
  \<open>2\<^sup>1\<^sup>5\<close> apart. A read beyond the end of a list and a copy beyond the end of a buffer are \<open>None\<close>.
  Fields drop the trailing underscore of the source. \<open>length_recovery\<close> is the empty list while it is not initialised.
\<close>

section \<open>State\<close>

record ProtectedPacket =
  pp_seq_num :: int
  pp_pkt :: "Packet option"

record FecPacket =
  fp_seq_num :: int
  protected_pkt_list :: "ProtectedPacket list"
  fp_ssrc :: int
  fp_pkt :: Packet

record ReceivedPacket =
  rx_seq_num :: int
  rx_ssrc :: int
  is_fec :: bool
  rx_pkt :: Packet

record RecoveredPacket =
  rc_seq_num :: int
  was_recovered :: bool
  returned :: bool
  length_recovery :: "int list"
  rc_pkt :: Packet

record ForwardErrorCorrection =
  generated_fec_packets :: "Packet list"
  fec_packet_list :: "FecPacket list"
  fec_packet_received :: bool

definition kMaxFecPackets :: nat where "kMaxFecPackets = kMaxMediaPackets"

definition ForwardErrorCorrection_init :: ForwardErrorCorrection where
  "ForwardErrorCorrection_init =
     \<lparr>generated_fec_packets = replicate kMaxMediaPackets \<lparr>pkt_length = 0, pkt_data = replicate IP_PACKET_SIZE 0\<rparr>,
      fec_packet_list = [], fec_packet_received = False\<rparr>"

section \<open>Sorted lists\<close>

definition LessThan :: "int \<Rightarrow> int \<Rightarrow> bool" where
  "LessThan first second \<longleftrightarrow> IsNewerSequenceNumber second first"

fun insert_by :: "('a \<Rightarrow> int) \<Rightarrow> 'a \<Rightarrow> 'a list \<Rightarrow> 'a list" where
  "insert_by f x [] = [x]"
| "insert_by f x (y # ys) = (if LessThan (f y) (f x) then y # insert_by f x ys else x # y # ys)"

definition list_sort :: "('a \<Rightarrow> int) \<Rightarrow> 'a list \<Rightarrow> 'a list" where
  "list_sort f xs = foldr (insert_by f) xs []"

fun set_intersection :: "RecoveredPacket list \<Rightarrow> ProtectedPacket list \<Rightarrow> RecoveredPacket list" where
  "set_intersection (a # as) (b # bs) =
     (if LessThan (rc_seq_num a) (pp_seq_num b) then set_intersection as (b # bs)
      else if LessThan (pp_seq_num b) (rc_seq_num a) then set_intersection (a # as) bs
      else a # set_intersection as bs)"
| "set_intersection _ _ = []"

section \<open>The packets an FEC packet protects\<close>

definition NumCoveredPacketsMissing :: "FecPacket \<Rightarrow> nat" where
  "NumCoveredPacketsMissing fec = min 2 (length (filter (\<lambda>p. pp_pkt p = None) (protected_pkt_list fec)))"

text \<open>The search that stops at the first protected packet not less than the given one. Protected packets lie within
  48 sequence numbers, so the binary search of \<open>std::lower_bound\<close> finds a packet with the given number exactly
  when this walk does, and nothing is done where there is none.\<close>

fun cover_protected :: "int \<Rightarrow> Packet \<Rightarrow> ProtectedPacket list \<Rightarrow> ProtectedPacket list" where
  "cover_protected s p [] = []"
| "cover_protected s p (q # qs) =
     (if LessThan (pp_seq_num q) s then q # cover_protected s p qs
      else if pp_seq_num q = s then q\<lparr>pp_pkt := Some p\<rparr> # qs
      else q # qs)"

definition UpdateCoveringFECPackets :: "RecoveredPacket \<Rightarrow> FecPacket list \<Rightarrow> FecPacket list" where
  "UpdateCoveringFECPackets packet =
     map (\<lambda>fec. fec\<lparr>protected_pkt_list :=
        cover_protected (rc_seq_num packet) (rc_pkt packet) (protected_pkt_list fec)\<rparr>)"

text \<open>Both lists are walked in parallel; a packet that is not found takes the walk beyond the end.\<close>

fun assign_recovered :: "RecoveredPacket list \<Rightarrow> ProtectedPacket list \<Rightarrow> ProtectedPacket list option" where
  "assign_recovered [] qs = Some qs"
| "assign_recovered (r # rs) [] = None"
| "assign_recovered (r # rs) (q # qs) =
     (if pp_seq_num q \<noteq> rc_seq_num r then map_option ((#) q) (assign_recovered (r # rs) qs)
      else assign_recovered rs (q\<lparr>pp_pkt := Some (rc_pkt r)\<rparr> # qs))"

definition AssignRecoveredPackets :: "RecoveredPacket list \<Rightarrow> FecPacket \<Rightarrow> FecPacket option" where
  "AssignRecoveredPackets recovered_packets fec =
     do {
       qs \<leftarrow> assign_recovered (set_intersection recovered_packets (protected_pkt_list fec)) (protected_pkt_list fec);
       Some (fec\<lparr>protected_pkt_list := qs\<rparr>)
     }"

section \<open>Insertion of received packets\<close>

definition DiscardOldPackets :: "RecoveredPacket list \<Rightarrow> RecoveredPacket list" where
  "DiscardOldPackets rs = drop (length rs - kMaxMediaPackets) rs"

definition InsertMediaPacket ::
    "ReceivedPacket \<Rightarrow> FecPacket list \<Rightarrow> RecoveredPacket list \<Rightarrow> FecPacket list \<times> RecoveredPacket list" where
  "InsertMediaPacket rx fecs rs =
     (if list_ex (\<lambda>r. rx_seq_num rx = rc_seq_num r) rs then (fecs, rs)
      else let r = \<lparr>rc_seq_num = rx_seq_num rx, was_recovered = False, returned = True, length_recovery = [],
                    rc_pkt = rx_pkt rx\<rparr>
           in (UpdateCoveringFECPackets r fecs, list_sort rc_seq_num (rs @ [r])))"

text \<open>The sequence numbers of the bits that are set in the mask, a byte and a bit at a time.\<close>

definition mask_seqs :: "int list \<Rightarrow> int \<Rightarrow> nat \<Rightarrow> int list" where
  "mask_seqs data seq_num_base mask_bytes =
     concat (map (\<lambda>byte_idx. concat (map (\<lambda>bit_idx.
         if data ! (12 + byte_idx) AND shl 1 (7 - bit_idx) \<noteq> 0
         then [u16 (seq_num_base + shl (int byte_idx) 3 + int bit_idx)] else []) [0..<8])) [0..<mask_bytes])"

definition L_bit_set :: "Packet \<Rightarrow> bool" where
  "L_bit_set p \<longleftrightarrow> pkt_data p ! 0 AND 0x40 \<noteq> 0"

definition parse_fec :: "ReceivedPacket \<Rightarrow> FecPacket" where
  "parse_fec rx =
     (let data = pkt_data (rx_pkt rx)
      in \<lparr>fp_seq_num = rx_seq_num rx,
          protected_pkt_list = map (\<lambda>s. \<lparr>pp_seq_num = s, pp_pkt = None\<rparr>)
            (mask_seqs data (BufferToUWord16 (drop 2 data)) (num_mask_bytes (L_bit_set (rx_pkt rx)))),
          fp_ssrc = rx_ssrc rx, fp_pkt = rx_pkt rx\<rparr>)"

definition InsertFECPacket ::
    "ReceivedPacket \<Rightarrow> FecPacket list \<Rightarrow> RecoveredPacket list \<Rightarrow> FecPacket list option" where
  "InsertFECPacket rx fecs rs =
     (if list_ex (\<lambda>f. rx_seq_num rx = fp_seq_num f) fecs then Some fecs
      else let fec = parse_fec rx
           in if protected_pkt_list fec = [] then Some fecs
              else do {
                fec \<leftarrow> AssignRecoveredPackets rs fec;
                let fecs = list_sort fp_seq_num (fecs @ [fec]);
                Some (if length fecs > kMaxFecPackets then tl fecs else fecs)
              })"

text \<open>The oldest FEC packet is dropped when a packet arrives that is more than \<open>0x3fff\<close> away from it.\<close>

definition drop_old_fec :: "int \<Rightarrow> FecPacket list \<Rightarrow> FecPacket list" where
  "drop_old_fec s fecs =
     (case fecs of [] \<Rightarrow> []
      | f # fs \<Rightarrow> if u16 \<bar>s - fp_seq_num f\<bar> > 0x3fff then fs else f # fs)"

fun insert_packets :: "ReceivedPacket list \<Rightarrow> ForwardErrorCorrection \<Rightarrow> RecoveredPacket list
    \<Rightarrow> (ForwardErrorCorrection \<times> RecoveredPacket list) option" where
  "insert_packets [] st rs = Some (st, rs)"
| "insert_packets (rx # rxs) st rs =
     (let fecs = drop_old_fec (rx_seq_num rx) (fec_packet_list st)
      in if is_fec rx
         then do {
           fecs \<leftarrow> InsertFECPacket rx fecs rs;
           insert_packets rxs (st\<lparr>fec_packet_list := fecs, fec_packet_received := True\<rparr>) rs
         }
         else let (fecs, rs) = InsertMediaPacket rx fecs rs
              in insert_packets rxs (st\<lparr>fec_packet_list := fecs\<rparr>) rs)"

definition InsertPackets :: "ReceivedPacket list \<Rightarrow> ForwardErrorCorrection \<Rightarrow> RecoveredPacket list
    \<Rightarrow> (ForwardErrorCorrection \<times> RecoveredPacket list) option" where
  "InsertPackets received st rs =
     do { (st, rs) \<leftarrow> insert_packets received st rs; Some (st, DiscardOldPackets rs) }"

section \<open>Recovery\<close>

definition InitRecovery :: "FecPacket \<Rightarrow> (int list \<times> int list) option" where
  "InitRecovery fec =
     (let src = pkt_data (fp_pkt fec);
          ulp = ulp_header_size (L_bit_set (fp_pkt fec));
          protection_length = BufferToUWord16 (take 2 (drop 10 src))
      in do {
        d \<leftarrow> memcpy (replicate IP_PACKET_SIZE 0) kRtpHeaderSize src (kFecHeaderSize + ulp) (nat protection_length);
        l \<leftarrow> memcpy [0, 0] 0 src 8 2;
        d \<leftarrow> memcpy d 0 src 0 2;
        d \<leftarrow> memcpy d 4 src 4 4;
        d \<leftarrow> memcpy d 8 (AssignUWord32ToBuffer (fp_ssrc fec)) 0 4;
        Some (d, l)
      })"

text \<open>The data and the two bytes of the length under recovery.\<close>

definition XorPackets :: "Packet \<Rightarrow> int list \<times> int list \<Rightarrow> (int list \<times> int list) option" where
  "XorPackets src dst =
     do {
       d \<leftarrow> xor_bytes (fst dst) 0 (pkt_data src) 0 2;
       d \<leftarrow> xor_bytes d 4 (pkt_data src) 4 4;
       l \<leftarrow> xor_bytes (snd dst) 0 (AssignUWord16ToBuffer (u16 (pkt_length src - int kRtpHeaderSize))) 0 2;
       d \<leftarrow> xor_bytes d kRtpHeaderSize (pkt_data src) kRtpHeaderSize (nat (pkt_length src - int kRtpHeaderSize));
       Some (d, l)
     }"

text \<open>The sequence number is \<open>None\<close> until a packet without data is met.\<close>

definition FinishRecovery :: "int option \<Rightarrow> int list \<times> int list \<Rightarrow> RecoveredPacket option" where
  "FinishRecovery seq_num dst =
     do {
       s \<leftarrow> seq_num;
       d \<leftarrow> memcpy (fst dst) 0 [(fst dst ! 0 OR 0x80) AND 0xbf] 0 1;
       d \<leftarrow> memcpy d 2 (AssignUWord16ToBuffer s) 0 2;
       Some \<lparr>rc_seq_num = s, was_recovered = True, returned = False, length_recovery = snd dst,
             rc_pkt = \<lparr>pkt_length = u16 (BufferToUWord16 (snd dst) + int kRtpHeaderSize), pkt_data = d\<rparr>\<rparr>
     }"

fun recover_loop :: "ProtectedPacket list \<Rightarrow> int option \<Rightarrow> int list \<times> int list
    \<Rightarrow> (int option \<times> int list \<times> int list) option" where
  "recover_loop [] s dst = Some (s, dst)"
| "recover_loop (q # qs) s dst =
     (case pp_pkt q of
        None \<Rightarrow> recover_loop qs (Some (pp_seq_num q)) dst
      | Some p \<Rightarrow> do { dst \<leftarrow> XorPackets p dst; recover_loop qs s dst })"

definition RecoverPacket :: "FecPacket \<Rightarrow> RecoveredPacket option" where
  "RecoverPacket fec =
     do {
       dst \<leftarrow> InitRecovery fec;
       (s, dst) \<leftarrow> recover_loop (protected_pkt_list fec) None dst;
       FinishRecovery s dst
     }"

definition erase :: "nat \<Rightarrow> 'a list \<Rightarrow> 'a list" where
  "erase i xs = take i xs @ drop (i + 1) xs"

text \<open>The loop over the FEC packets, \<open>i\<close> the position of the iterator. It is restarted after every recovery, so
  that it ends is a property: \<open>None\<close> is a loop that does not end, \<open>Some None\<close> an error in memory.\<close>

partial_function (option) attempt_loop :: "nat \<Rightarrow> FecPacket list \<Rightarrow> RecoveredPacket list
    \<Rightarrow> (FecPacket list \<times> RecoveredPacket list) option option" where
  [code]: "attempt_loop i fecs rs =
     (if i < length fecs
      then if NumCoveredPacketsMissing (fecs ! i) = 1
           then case RecoverPacket (fecs ! i) of
                  None \<Rightarrow> Some None
                | Some r \<Rightarrow> attempt_loop 0 (erase i (UpdateCoveringFECPackets r fecs))
                             (DiscardOldPackets (list_sort rc_seq_num (rs @ [r])))
           else if NumCoveredPacketsMissing (fecs ! i) = 0 then attempt_loop i (erase i fecs) rs
           else attempt_loop (i + 1) fecs rs
      else Some (Some (fecs, rs)))"

definition AttemptRecover :: "FecPacket list \<Rightarrow> RecoveredPacket list
    \<Rightarrow> (FecPacket list \<times> RecoveredPacket list) option option" where
  "AttemptRecover fecs rs = attempt_loop 0 fecs rs"

section \<open>The public call\<close>

definition ResetState :: "ForwardErrorCorrection \<Rightarrow> ForwardErrorCorrection \<times> RecoveredPacket list" where
  "ResetState st = (st\<lparr>fec_packet_list := [], fec_packet_received := False\<rparr>, [])"

definition DecodeFEC :: "ReceivedPacket list \<Rightarrow> ForwardErrorCorrection \<Rightarrow> RecoveredPacket list
    \<Rightarrow> (int \<times> ForwardErrorCorrection \<times> RecoveredPacket list) option option" where
  "DecodeFEC received st rs =
     (if length rs = kMaxMediaPackets \<and> received = [] then Some None
      else let (st, rs) =
             (if length rs = kMaxMediaPackets
                 \<and> \<bar>rx_seq_num (hd received) - rc_seq_num (last rs)\<bar> > int kMaxMediaPackets
              then ResetState st else (st, rs))
      in case InsertPackets received st rs of
           None \<Rightarrow> Some None
         | Some (st, rs) \<Rightarrow>
             map_option (map_option (\<lambda>(fecs, rs). (0, st\<lparr>fec_packet_list := fecs\<rparr>, rs)))
               (AttemptRecover (fec_packet_list st) rs))"

definition PacketOverhead :: int where
  "PacketOverhead = int (kFecHeaderSize + kUlpHeaderSizeLBitSet)"

end
