(* ===== verification/Rtp_Fec_Xor.thy ===== *)
theory Rtp_Fec_Xor
  imports Rtp_Fec
begin

text \<open>
  What the sender computes: every byte of an FEC packet is the exclusive or of the bytes the protected media packets
  contribute to it, a media packet being padded with zeros behind its end.
\<close>

section \<open>The contribution of a media packet\<close>

definition fec_start :: "bool \<Rightarrow> nat" where "fec_start l_bit = kFecHeaderSize + ulp_header_size l_bit"

definition fec_offset :: "bool \<Rightarrow> nat" where "fec_offset l_bit = fec_start l_bit - kRtpHeaderSize"

lemma fec_start_simps [simp]: "fec_start True = 18" "fec_start False = 14" "fec_offset True = 6" "fec_offset False = 2"
  by (simp_all add: fec_start_def fec_offset_def ulp_header_size_def fec_constants)

lemma fec_start_bounds: "14 \<le> fec_start l" "fec_start l \<le> 18" "fec_start l = fec_offset l + 12"
  by (cases l; simp)+

definition length_bytes :: "Packet \<Rightarrow> int list" where
  "length_bytes p = AssignUWord16ToBuffer (u16 (pkt_length p - int kRtpHeaderSize))"

definition contribution :: "bool \<Rightarrow> Packet \<Rightarrow> nat \<Rightarrow> int" where
  "contribution l_bit p j =
     (if j < 2 \<or> 4 \<le> j \<and> j < 8 then pkt_data p ! j
      else if j = 8 \<or> j = 9 then length_bytes p ! (j - 8)
      else if fec_start l_bit \<le> j \<and> int j < pkt_length p + int (fec_offset l_bit)
           then pkt_data p ! (j - fec_offset l_bit)
      else 0)"

definition fits :: "bool \<Rightarrow> Packet \<Rightarrow> bool" where
  "fits l_bit p \<longleftrightarrow> length (pkt_data p) = IP_PACKET_SIZE \<and> int kRtpHeaderSize \<le> pkt_length p
     \<and> pkt_length p + int (fec_offset l_bit) \<le> int IP_PACKET_SIZE"

definition untouched_zero :: "Packet \<Rightarrow> bool" where
  "untouched_zero fec \<longleftrightarrow> length (pkt_data fec) = IP_PACKET_SIZE
     \<and> (pkt_length fec = 0 \<longrightarrow> pkt_data fec = replicate IP_PACKET_SIZE 0)"

lemma length_length_bytes [simp]: "length (length_bytes p) = 2"
  by (simp add: length_bytes_def AssignUWord16ToBuffer_def)

lemma replicate_eq_map: "replicate n x = map (\<lambda>_. x) [0..<n]"
  by (simp add: map_replicate_trivial)

lemma map_upt_eq: "(\<And>k. k < n \<Longrightarrow> f k = g k) \<Longrightarrow> map f [0..<n] = map g [0..<n]"
  by simp

text \<open>The four copies and the four loops of exclusive or, as one function of the position.\<close>

definition payload_at :: "nat \<Rightarrow> nat \<Rightarrow> int list \<Rightarrow> int list \<Rightarrow> nat \<Rightarrow> int option" where
  "payload_at s n m lb k =
     (if k < 2 \<or> 4 \<le> k \<and> k < 8 then Some (m ! k)
      else if k = 8 \<or> k = 9 then Some (lb ! (k - 8))
      else if s \<le> k \<and> k < s + n then Some (m ! (12 + (k - s))) else None)"

lemma four_copies:
  assumes "length d = 1500" "length m = 1500" "length lb = 2" "14 \<le> s" "s + n \<le> 1500" "12 + n \<le> 1500"
  shows "do { d \<leftarrow> memcpy d 0 m 0 2; d \<leftarrow> memcpy d 4 m 4 4; d \<leftarrow> memcpy d 8 lb 0 2; memcpy d s m 12 n }
     = Some (map (\<lambda>k. case payload_at s n m lb k of Some b \<Rightarrow> b | None \<Rightarrow> d ! k) [0..<1500])"
proof -
  have "do { d \<leftarrow> memcpy d 0 m 0 2; d \<leftarrow> memcpy d 4 m 4 4; d \<leftarrow> memcpy d 8 lb 0 2; memcpy d s m 12 n }
     = Some (map (\<lambda>k. if s \<le> k \<and> k < s + n then m ! (12 + (k - s))
         else if 8 \<le> k \<and> k < 10 then lb ! (k - 8) else if 4 \<le> k \<and> k < 8 then m ! k
         else if k < 2 then m ! k else d ! k) [0..<1500])"
    using assms by (simp add: memcpy_Some cong: if_cong)
  then show ?thesis using assms(4) by (simp only:) (auto simp: payload_at_def)
qed

lemma four_xors:
  assumes "length d = 1500" "length m = 1500" "length lb = 2" "14 \<le> s" "s + n \<le> 1500" "12 + n \<le> 1500"
  shows "do { d \<leftarrow> xor_bytes d 0 m 0 2; d \<leftarrow> xor_bytes d 4 m 4 4; d \<leftarrow> xor_bytes d 8 lb 0 2; xor_bytes d s m 12 n }
     = Some (map (\<lambda>k. case payload_at s n m lb k of Some b \<Rightarrow> d ! k XOR b | None \<Rightarrow> d ! k) [0..<1500])"
  using assms by (simp add: xor_bytes_Some cong: if_cong) (auto simp: payload_at_def)

lemma contribution_payload:
  assumes "12 \<le> pkt_length p"
  shows "contribution l p k
     = (case payload_at (fec_start l) (nat (pkt_length p - 12)) (pkt_data p) (length_bytes p) k of Some b \<Rightarrow> b | None \<Rightarrow> 0)"
proof -
  have s: "fec_start l = fec_offset l + 12" using fec_start_bounds [of l] by simp
  have "fec_start l \<le> k \<Longrightarrow> 12 + (k - fec_start l) = k - fec_offset l" using s by linarith
  moreover have "k < fec_start l + nat (pkt_length p - 12) \<longleftrightarrow> int k < pkt_length p + int (fec_offset l)"
    using s assms by linarith
  ultimately show ?thesis by (simp add: contribution_def payload_at_def)
qed

lemma add_media_Some:
  assumes "fits l p" and "untouched_zero fec"
  shows "add_media l p fec = Some \<lparr>pkt_length = max (pkt_length fec) (pkt_length p + int (fec_offset l)),
           pkt_data = map (\<lambda>j. pkt_data fec ! j XOR contribution l p j) [0..<IP_PACKET_SIZE]\<rparr>"
proof -
  let ?n = "nat (pkt_length p - 12)" and ?s = "fec_start l"
  have len: "length (pkt_data p) = 1500" "length (pkt_data fec) = 1500" "12 \<le> pkt_length p"
      "pkt_length p + int (fec_offset l) \<le> 1500"
    using assms by (simp_all add: fits_def untouched_zero_def fec_constants)
  have s: "?s = fec_offset l + 12" "14 \<le> ?s" using fec_start_bounds [of l] by simp_all
  have n: "?s + ?n \<le> 1500" "12 + ?n \<le> 1500" using len s by linarith+
  have u: "u16 (pkt_length p + int (fec_offset l)) = pkt_length p + int (fec_offset l)"
    using len by (intro u16_id) linarith+
  have e: "pkt_length p + int (fec_offset l) - int ?s = pkt_length p - 12" using s by linarith
  have pl: "AssignUWord16ToBuffer (u16 (pkt_length p - 12)) = length_bytes p"
    by (simp add: length_bytes_def fec_constants)
  have st: "kFecHeaderSize + ulp_header_size l = ?s" "?s - 12 = fec_offset l" "kRtpHeaderSize = 12"
      "?s - fec_offset l = 12" "IP_PACKET_SIZE = 1500"
    using s by (simp_all add: fec_start_def fec_offset_def fec_constants)
  have neg: "\<not> pkt_length p < 12" "0 < pkt_length p + int (fec_offset l)" using len by linarith+
  note args = len(2,1) length_length_bytes [of p] s(2) n
  note eqs = add_media_def Let_def st of_nat_numeral pl u e
  show ?thesis
  proof (cases "pkt_length fec = 0")
    case True
    have "pkt_data fec ! j = 0" if "j < 1500" for j
      using assms(2) that True by (simp add: untouched_zero_def fec_constants)
    then have d: "map (\<lambda>k. case payload_at ?s ?n (pkt_data p) (length_bytes p) k of Some b \<Rightarrow> b | None \<Rightarrow> pkt_data fec ! k)
        [0..<1500] = map (\<lambda>j. pkt_data fec ! j XOR contribution l p j) [0..<1500]"
      by (intro map_upt_eq) (simp add: contribution_payload [OF len(3)] split: option.split)
    show ?thesis unfolding eqs using four_copies [OF args] True neg d by (simp add: max_def)
  next
    case False
    have d: "map (\<lambda>k. case payload_at ?s ?n (pkt_data p) (length_bytes p) k of Some b \<Rightarrow> pkt_data fec ! k XOR b
        | None \<Rightarrow> pkt_data fec ! k) [0..<1500] = map (\<lambda>j. pkt_data fec ! j XOR contribution l p j) [0..<1500]"
      by (intro map_upt_eq) (simp add: contribution_payload [OF len(3)] split: option.split)
    show ?thesis unfolding eqs using four_xors [OF args] False d by (simp add: max_def)
  qed
qed

section \<open>The media packets of a row\<close>

definition pkt_seq :: "Packet \<Rightarrow> int" where "pkt_seq p = ParseSequenceNumber (pkt_data p)"

text \<open>The column of a packet in the masks is its distance in sequence numbers from the first one.\<close>

fun columns :: "nat \<Rightarrow> Packet list \<Rightarrow> nat list" where
  "columns c [] = []"
| "columns c [p] = [c]"
| "columns c (p # q # ps) = c # columns (c + nat (u16 (pkt_seq q - pkt_seq p))) (q # ps)"

text \<open>The columns ascend and a gap does not lead over the first bit of the next byte.\<close>

fun mask_walk :: "nat list \<Rightarrow> bool" where
  "mask_walk (c # d # cs) \<longleftrightarrow> c < d \<and> (d div 8 = c div 8 \<or> d = 8 * (c div 8 + 1)) \<and> mask_walk (d # cs)"
| "mask_walk _ \<longleftrightarrow> True"

definition row_bit :: "int list \<Rightarrow> nat \<Rightarrow> nat \<Rightarrow> bool" where
  "row_bit packet_mask first c = bit (packet_mask ! (first + c div 8)) (7 - c mod 8)"

definition in_row :: "int list \<Rightarrow> nat \<Rightarrow> nat \<Rightarrow> Packet list \<Rightarrow> Packet list" where
  "in_row packet_mask first c ps = map fst (filter (\<lambda>(p, d). row_bit packet_mask first d) (zip ps (columns c ps)))"

definition add_to :: "bool \<Rightarrow> Packet \<Rightarrow> Packet \<Rightarrow> Packet" where
  "add_to l p fec = \<lparr>pkt_length = max (pkt_length fec) (pkt_length p + int (fec_offset l)),
           pkt_data = map (\<lambda>j. pkt_data fec ! j XOR contribution l p j) [0..<IP_PACKET_SIZE]\<rparr>"

lemma untouched_zero_add_to: "fits l p \<Longrightarrow> untouched_zero (add_to l p fec)"
  by (simp add: untouched_zero_def add_to_def fits_def fec_constants max_def)

lemma mask_test: "(m AND shl 1 n \<noteq> 0) = bit m n" for m :: int
  by (simp add: shl_def and_exp_eq_0_iff_not_bit)

lemma columns_ge: "d \<in> set (columns c ps) \<Longrightarrow> c \<le> d"
  by (induction c ps rule: columns.induct) force+

lemma length_columns [simp]: "length (columns c ps) = length ps"
  by (induction c ps rule: columns.induct) simp_all

lemma in_row_simps [simp]:
  "in_row packet_mask first c [] = []"
  "in_row packet_mask first c [p] = (if row_bit packet_mask first c then [p] else [])"
  "in_row packet_mask first c (p # q # ps) = (if row_bit packet_mask first c then [p] else [])
     @ in_row packet_mask first (c + nat (u16 (pkt_seq q - pkt_seq p))) (q # ps)"
  by (simp_all add: in_row_def)

lemma next_column:
  assumes "c < e" "e div 8 = c div 8 \<or> e = 8 * (c div 8 + 1)"
  shows "next_mask_bit (first + c div 8) (u32 (int (e - 8 * (c div 8)))) = (first + e div 8, int (e mod 8))"
  using assms(2)
proof
  assume e: "e div 8 = c div 8"
  then have "e - 8 * (c div 8) = e mod 8" by (metis minus_mult_div_eq_mod)
  moreover have "e mod 8 < 8" by simp
  ultimately show ?thesis using e by (simp add: next_mask_bit_def u32_id)
next
  assume e: "e = 8 * (c div 8 + 1)"
  then have "e - 8 * (c div 8) = 8" "e div 8 = c div 8 + 1" "e mod 8 = 0" by simp_all
  then show ?thesis by (simp add: next_mask_bit_def u32_id)
qed

lemma protect_loop_Some:
  assumes "mask_walk (columns c ps)" "\<forall>d\<in>set (columns c ps). first + d div 8 < length packet_mask"
    and "\<forall>p\<in>set ps. fits l p" "untouched_zero fec"
  shows "protect_loop packet_mask l (first + c div 8) (int (c mod 8)) ps fec
     = Some (fold (add_to l) (in_row packet_mask first c ps) fec)"
  using assms
proof (induction c ps arbitrary: fec rule: columns.induct)
  case (2 c p)
  have n: "nat (7 - int (c mod 8)) = 7 - c mod 8" by linarith
  show ?case using 2
    by (simp add: next_mask_bit_def mask_test n row_bit_def add_media_Some add_to_def [symmetric])
next
  case (3 c p q ps)
  let ?d = "c + nat (u16 (pkt_seq q - pkt_seq p))"
  have n: "nat (7 - int (c mod 8)) = 7 - c mod 8" by linarith
  have d: "c < ?d" "?d div 8 = c div 8 \<or> ?d = 8 * (c div 8 + 1)"
  proof -
    obtain ds where "columns ?d (q # ps) = ?d # ds" by (cases ps) simp_all
    then show "c < ?d" "?d div 8 = c div 8 \<or> ?d = 8 * (c div 8 + 1)" using "3.prems"(1) by simp_all
  qed
  have u: "0 \<le> u16 (pkt_seq q - pkt_seq p)" "u16 (pkt_seq q - pkt_seq p) \<le> 65535"
    using is_u16_u16 [of "pkt_seq q - pkt_seq p"] by (simp_all add: is_u16_def)
  have "int (c mod 8) + u16 (pkt_seq q - pkt_seq p) = int (?d - 8 * (c div 8))"
    using u d(1) by (simp add: of_nat_diff minus_mult_div_eq_mod [symmetric])
  then have nb: "next_mask_bit (first + c div 8) (u32 (int (c mod 8) + u16 (pkt_seq q - pkt_seq p)))
      = (first + ?d div 8, int (?d mod 8))"
    using next_column [OF d] by simp
  let ?fec = "if row_bit packet_mask first c then add_to l p fec else fec"
  have w: "mask_walk (columns ?d (q # ps))" using "3.prems"(1) by (cases "columns ?d (q # ps)") simp_all
  have z: "untouched_zero ?fec" using "3.prems"(3,4) by (simp add: untouched_zero_add_to)
  have "protect_loop packet_mask l (first + ?d div 8) (int (?d mod 8)) (q # ps) ?fec
     = Some (fold (add_to l) (in_row packet_mask first ?d (q # ps)) ?fec)"
    using "3.prems" by (intro "3.IH" w z) simp_all
  moreover have "first + c div 8 < length packet_mask" "fits l p" using "3.prems" by simp_all
  moreover have "c mod 8 \<le> 7" by (simp add: less_Suc_eq_le [symmetric])
  ultimately show ?case
    using nb add_media_Some [OF \<open>fits l p\<close> "3.prems"(4)]
    by (cases "row_bit packet_mask first c"; subst protect_loop.simps(2))
       (simp_all add: mask_test n row_bit_def [symmetric] add_to_def [symmetric] pkt_seq_def [symmetric]
         del: protect_loop.simps)
qed simp

text \<open>The bytes of the result.\<close>

definition xor_sum :: "('a \<Rightarrow> int) \<Rightarrow> 'a list \<Rightarrow> int" where
  "xor_sum f ps = foldr (\<lambda>p a. f p XOR a) ps 0"

lemma xor_sum_simps [simp]: "xor_sum f [] = 0" "xor_sum f (p # ps) = f p XOR xor_sum f ps"
  by (simp_all add: xor_sum_def)

lemma xor_sum_append: "xor_sum f (ps @ qs) = xor_sum f ps XOR xor_sum f qs"
  by (induction ps) (simp_all add: ac_simps)

lemma fold_add_to_data:
  "length (pkt_data fec) = IP_PACKET_SIZE \<Longrightarrow> pkt_data (fold (add_to l) ps fec)
     = map (\<lambda>j. pkt_data fec ! j XOR xor_sum (\<lambda>p. contribution l p j) ps) [0..<IP_PACKET_SIZE]"
proof (induction ps arbitrary: fec)
  case Nil
  then show ?case by (simp add: list_eq_iff_nth_eq)
next
  case (Cons p ps)
  have "length (pkt_data (add_to l p fec)) = IP_PACKET_SIZE" by (simp add: add_to_def)
  from Cons.IH [OF this] show ?case by (simp add: add_to_def ac_simps)
qed

lemma fold_add_to_length:
  "pkt_length (fold (add_to l) ps fec) = fold (\<lambda>p n. max n (pkt_length p + int (fec_offset l))) ps (pkt_length fec)"
  by (induction ps arbitrary: fec) (simp_all add: add_to_def)

lemma fec_rows_Some:
  assumes "\<And>i. i0 \<le> i \<Longrightarrow> i < i0 + n \<Longrightarrow> f i (gen ! i) = Some (g i)" and "i0 + n \<le> length gen"
  shows "fec_rows f i0 n gen = Some (take i0 gen @ map g [i0..<i0 + n] @ drop (i0 + n) gen)"
  using assms
proof (induction n arbitrary: i0 gen)
  case (Suc n)
  have "fec_rows f (Suc i0) n (gen[i0 := g i0])
     = Some (take (Suc i0) (gen[i0 := g i0]) @ map g [Suc i0..<Suc i0 + n] @ drop (Suc i0 + n) (gen[i0 := g i0]))"
    using Suc.prems by (intro Suc.IH) simp_all
  then show ?case using Suc.prems
    by (simp add: take_Suc_conv_app_nth upt_conv_Cons del: upt_Suc)
qed simp

lemma GenerateFecBitStrings_Some:
  assumes "media \<noteq> []" "mask_walk (columns 0 media)" "\<forall>d\<in>set (columns 0 media). d < 8 * num_mask_bytes l"
    and "\<forall>p\<in>set media. fits l p" "n * num_mask_bytes l \<le> length packet_mask" "n \<le> length gen"
    and "\<forall>i<n. untouched_zero (gen ! i)"
  shows "GenerateFecBitStrings media packet_mask n l gen
     = Some (map (\<lambda>i. fold (add_to l) (in_row packet_mask (i * num_mask_bytes l) 0 media) (gen ! i)) [0..<n] @ drop n gen)"
proof -
  have b: "i * num_mask_bytes l + d div 8 < length packet_mask" if "i < n" "d \<in> set (columns 0 media)" for i d
  proof -
    have "d div 8 < num_mask_bytes l" using assms(3) that(2) by (simp add: less_mult_imp_div_less mult.commute)
    moreover have "(i + 1) * num_mask_bytes l \<le> n * num_mask_bytes l" using that(1) by (intro mult_le_mono1) simp
    ultimately show ?thesis using assms(5) by simp
  qed
  have "protect_loop packet_mask l (i * num_mask_bytes l) 0 media (gen ! i)
      = Some (fold (add_to l) (in_row packet_mask (i * num_mask_bytes l) 0 media) (gen ! i))" if "i < n" for i
    using protect_loop_Some [of 0 media "i * num_mask_bytes l" packet_mask l "gen ! i"] assms b that by simp
  then show ?thesis using assms(1,6) by (simp add: GenerateFecBitStrings_def fec_rows_Some)
qed

section \<open>A finished FEC packet\<close>

definition set_L_bit :: "bool \<Rightarrow> int \<Rightarrow> int" where
  "set_L_bit l b = (if l then (b AND 0x7f) OR 0x40 else (b AND 0x7f) AND 0xbf)"

definition longest :: "Packet list \<Rightarrow> int" where
  "longest ps = fold (\<lambda>p n. max n (pkt_length p)) ps 0"

text \<open>\<open>is_fec_of l sel base row f\<close>: \<open>f\<close> is the FEC packet of the media packets \<open>sel\<close>.\<close>

definition is_fec_of :: "bool \<Rightarrow> Packet list \<Rightarrow> Packet \<Rightarrow> int list \<Rightarrow> Packet \<Rightarrow> bool" where
  "is_fec_of l sel base row f \<longleftrightarrow>
     length (pkt_data f) = IP_PACKET_SIZE
     \<and> pkt_length f = longest sel + int (fec_offset l)
     \<and> pkt_data f ! 0 = set_L_bit l (xor_sum (\<lambda>p. contribution l p 0) sel)
     \<and> (\<forall>j. j = 1 \<or> 4 \<le> j \<and> j < 10 \<or> fec_start l \<le> j \<and> j < IP_PACKET_SIZE
            \<longrightarrow> pkt_data f ! j = xor_sum (\<lambda>p. contribution l p j) sel)
     \<and> pkt_data f ! 2 = pkt_data base ! 2 \<and> pkt_data f ! 3 = pkt_data base ! 3
     \<and> [pkt_data f ! 10, pkt_data f ! 11] = AssignUWord16ToBuffer (u16 (longest sel - int kRtpHeaderSize))
     \<and> (\<forall>k<num_mask_bytes l. pkt_data f ! (12 + k) = row ! k)"

lemma fec_start_bytes: "fec_start l = 12 + num_mask_bytes l"
  by (cases l) (simp_all add: num_mask_bytes_def fec_constants)

lemma offset_bytes: "fec_offset l = num_mask_bytes l"
  by (cases l) (simp_all add: num_mask_bytes_def fec_constants)

lemma ulp_header_Some:
  assumes "length (pkt_data fec) = IP_PACKET_SIZE" "length (pkt_data base) = IP_PACKET_SIZE"
    and "(i + 1) * num_mask_bytes l \<le> length packet_mask"
  shows "ulp_header base packet_mask l i fec = Some (fec\<lparr>pkt_data :=
     map (\<lambda>k. if 12 \<le> k \<and> k < fec_start l then packet_mask ! (i * num_mask_bytes l + (k - 12))
       else if 10 \<le> k \<and> k < 12 then AssignUWord16ToBuffer (u16 (pkt_length fec - int (fec_start l))) ! (k - 10)
       else if 2 \<le> k \<and> k < 4 then pkt_data base ! k
       else if k < 1 then set_L_bit l (pkt_data fec ! 0) else pkt_data fec ! k) [0..<IP_PACKET_SIZE]\<rparr>)"
proof -
  have e: "pkt_length fec - int kFecHeaderSize - int (ulp_header_size l) = pkt_length fec - int (fec_start l)"
    by (simp add: fec_start_def)
  have b: "i * num_mask_bytes l + num_mask_bytes l \<le> length packet_mask" using assms(3) by simp
  have m: "12 + num_mask_bytes l \<le> 1500" by (simp add: num_mask_bytes_def fec_constants)
  have a: "length (AssignUWord16ToBuffer v) = 2" for v by (simp add: AssignUWord16ToBuffer_def)
  show ?thesis using assms(1,2) b m
    by (simp add: ulp_header_def Let_def e memcpy_Some a fec_start_bytes set_L_bit_def [symmetric] fec_constants(1) cong: if_cong)
       (rule arg_cong [where f = "\<lambda>d. fec\<lparr>pkt_data := d\<rparr>"], rule map_upt_eq,
        auto simp: Suc_diff_Suc numeral_2_eq_2)
qed

lemma fold_max_offset:
  "fold (\<lambda>p n. max n (pkt_length p + k)) ps (m + k) = fold (\<lambda>p n. max n (pkt_length p)) ps m + k"
  by (induction ps arbitrary: m) (simp_all add: max_add_distrib_left [symmetric])

lemma length_of_row:
  assumes "ps \<noteq> []" "\<forall>p\<in>set ps. fits l p" "pkt_length fec = 0"
  shows "pkt_length (fold (add_to l) ps fec) = longest ps + int (fec_offset l)"
proof -
  obtain p qs where ps: "ps = p # qs" using assms(1) by (cases ps) simp_all
  then have "0 \<le> pkt_length p" using assms(2) by (simp add: fits_def)
  then have "max 0 (pkt_length p + int (fec_offset l)) = pkt_length p + int (fec_offset l)" "max 0 (pkt_length p) = pkt_length p"
    by simp_all
  then show ?thesis unfolding ps fold_add_to_length longest_def using assms(3)
    by (simp add: fold_max_offset)
qed

lemma longest_ge: "p \<in> set ps \<Longrightarrow> pkt_length p \<le> longest ps" and longest_nonneg: "0 \<le> longest ps"
proof -
  have ge: "m \<le> fold (\<lambda>p n. max n (pkt_length p)) ps m" for ps m
    by (induction ps arbitrary: m) (simp, simp, metis max.bounded_iff)
  have "p \<in> set ps \<Longrightarrow> pkt_length p \<le> fold (\<lambda>p n. max n (pkt_length p)) ps m" for m
  proof (induction ps arbitrary: m)
    case (Cons q ps)
    then show ?case using ge [of "max m (pkt_length q)" ps] by auto
  qed simp
  then show "p \<in> set ps \<Longrightarrow> pkt_length p \<le> longest ps" by (simp add: longest_def)
  show "0 \<le> longest ps" using ge [of 0 ps] by (simp add: longest_def)
qed

lemma longest_le: "\<forall>p\<in>set ps. pkt_length p \<le> b \<Longrightarrow> 0 \<le> b \<Longrightarrow> longest ps \<le> b"
proof -
  have "\<forall>p\<in>set ps. pkt_length p \<le> b \<Longrightarrow> m \<le> b \<Longrightarrow> fold (\<lambda>p n. max n (pkt_length p)) ps m \<le> b" for m
    by (induction ps arbitrary: m) simp_all
  then show "\<forall>p\<in>set ps. pkt_length p \<le> b \<Longrightarrow> 0 \<le> b \<Longrightarrow> longest ps \<le> b" by (simp add: longest_def)
qed

lemma set_in_row: "set (in_row packet_mask first c ps) \<subseteq> set ps"
  by (auto simp: in_row_def dest: set_zip_leftD)

text \<open>The rows of a finished mask that protect anything give FEC packets of their media packets.\<close>

lemma sender_rows:
  assumes media: "media \<noteq> []" "mask_walk (columns 0 media)" "\<forall>d\<in>set (columns 0 media). d < 8 * num_mask_bytes l"
      "\<forall>p\<in>set media. fits l p"
    and m: "n * num_mask_bytes l \<le> length packet_mask" and gen: "n \<le> length gen"
      "\<forall>i<n. gen ! i = \<lparr>pkt_length = 0, pkt_data = replicate IP_PACKET_SIZE 0\<rparr>"
  obtains g1 g2 where "GenerateFecBitStrings media packet_mask n l gen = Some g1"
    "GenerateFecUlpHeaders media packet_mask l n g1 = Some g2" "length g2 = length gen"
    "\<And>i. i < n \<Longrightarrow> in_row packet_mask (i * num_mask_bytes l) 0 media \<noteq> [] \<Longrightarrow>
       is_fec_of l (in_row packet_mask (i * num_mask_bytes l) 0 media) (hd media)
         (take (num_mask_bytes l) (drop (i * num_mask_bytes l) packet_mask)) (g2 ! i)"
proof -
  let ?sel = "\<lambda>i. in_row packet_mask (i * num_mask_bytes l) 0 media" and ?z = "\<lparr>pkt_length = 0, pkt_data = replicate IP_PACKET_SIZE 0\<rparr>"
  let ?f = "\<lambda>i. fold (add_to l) (?sel i) ?z"
  define g1 where "g1 = map ?f [0..<n] @ drop n gen"
  have "\<forall>i<n. untouched_zero (gen ! i)" using gen(2) by (simp add: untouched_zero_def)
  from GenerateFecBitStrings_Some [OF media m gen(1) this]
  have g1: "GenerateFecBitStrings media packet_mask n l gen = Some g1" using gen(2) by (simp add: g1_def cong: map_cong)
  have d: "pkt_data (?f i) = map (\<lambda>j. xor_sum (\<lambda>p. contribution l p j) (?sel i)) [0..<IP_PACKET_SIZE]" for i
    by (simp add: fold_add_to_data cong: map_cong)
  have base: "length (pkt_data (hd media)) = IP_PACKET_SIZE" using media(1,4) by (simp add: fits_def)
  have rows: "(i + 1) * num_mask_bytes l \<le> length packet_mask" if "i < n" for i
    using that m mult_le_mono1 [of "i + 1" n "num_mask_bytes l"] by linarith
  have nth: "g1 ! i = ?f i" if "i < n" for i using that gen(1) by (simp add: g1_def nth_append)
  define h where "h i = the (ulp_header (hd media) packet_mask l i (?f i))" for i
  have h: "ulp_header (hd media) packet_mask l i (g1 ! i) = Some (h i)" if "i < n" for i
    using ulp_header_Some [OF _ base rows [OF that], of "?f i"] d [of i] nth that by (simp add: h_def)
  define g2 where "g2 = map h [0..<n] @ drop n g1"
  have "fec_rows (ulp_header (hd media) packet_mask l) 0 n g1 = Some g2"
    using fec_rows_Some [of 0 n _ g1 h] h gen(1) by (simp add: g1_def g2_def)
  then have g2: "GenerateFecUlpHeaders media packet_mask l n g1 = Some g2"
    using media(1) by (cases media) (simp_all add: GenerateFecUlpHeaders_def)
  have "is_fec_of l (?sel i) (hd media) (take (num_mask_bytes l) (drop (i * num_mask_bytes l) packet_mask)) (g2 ! i)"
    if i: "i < n" "?sel i \<noteq> []" for i
  proof -
    have len: "pkt_length (?f i) = longest (?sel i) + int (fec_offset l)"
      using i(2) media(4) set_in_row [of packet_mask "i * num_mask_bytes l" 0 media] by (intro length_of_row) auto
    have e: "pkt_length (?f i) - int (fec_start l) = longest (?sel i) - int kRtpHeaderSize"
      using len fec_start_bounds(3) [of l] by (simp add: fec_constants)
    have "g2 ! i = h i" using i(1) by (simp add: g2_def nth_append)
    moreover have "num_mask_bytes l \<le> 6" by (simp add: num_mask_bytes_def fec_constants)
    moreover have "AssignUWord16ToBuffer v = [AssignUWord16ToBuffer v ! 0, AssignUWord16ToBuffer v ! 1]" for v
      by (simp add: AssignUWord16ToBuffer_def)
    ultimately show ?thesis
      using ulp_header_Some [OF _ base rows [OF i(1)], of "?f i"] d [of i] len rows [OF i(1)]
      by (simp add: h_def is_fec_of_def e) (simp add: fec_start_bytes offset_bytes fec_constants(1,2) AssignUWord16ToBuffer_def numeral_2_eq_2)
  qed
  then show ?thesis using g1 g2 gen(1) by (intro that [of g1 g2]) (simp_all add: g1_def g2_def)
qed

section \<open>A gap in the sequence numbers\<close>

text \<open>
  C39. When the second media packet is more than eight sequence numbers after the first one, the walk over the mask
  never moves to the next byte (it waits for a bit number of exactly 8) and shifts by a negative number: the
  generation of the bit strings has no result, whatever the mask is.
\<close>

theorem GenerateFecBitStrings_gap:
  assumes "8 < u16 (pkt_seq q - pkt_seq p)" "0 < n"
  shows "GenerateFecBitStrings (p # q # ps) packet_mask n l gen = None"
proof -
  let ?d = "u16 (pkt_seq q - pkt_seq p)"
  have "?d \<le> 65535" using is_u16_u16 [of "pkt_seq q - pkt_seq p"] by (simp add: is_u16_def)
  then have "next_mask_bit idx (u32 (0 + ?d)) = (idx, ?d)" for idx using assms(1) by (simp add: next_mask_bit_def u32_id)
  then have "protect_loop packet_mask l idx 0 (p # q # ps) fec = None" for idx fec
    using assms(1) by (simp add: pkt_seq_def Option.bind_eq_None_conv)
  moreover obtain n' where "n = Suc n'" using assms(2) by (cases n) simp_all
  ultimately show ?thesis by (simp add: GenerateFecBitStrings_def del: protect_loop.simps)
qed

lemma GenerateFecBitStrings_gap_witness:
  "GenerateFecBitStrings
     [\<lparr>pkt_length = 12, pkt_data = 0x80 # 0 # 0 # 5 # replicate 1496 0\<rparr>, \<lparr>pkt_length = 12, pkt_data = 0x80 # 0 # 0 # 14 # replicate 1496 0\<rparr>]
     [0x80, 0x40] 1 False [\<lparr>pkt_length = 0, pkt_data = replicate 1500 0\<rparr>] = None"
  by (rule GenerateFecBitStrings_gap) (simp_all add: pkt_seq_def ParseSequenceNumber_def shl_def u16_def)

end
