(* ===== verification/Rtp_Fec_Recover.thy ===== *)
theory Rtp_Fec_Recover
  imports Rtp_Fec_Receive Rtp_Fec_Xor
begin

text \<open>
  The recovery of one packet: what \<open>RecoverPacket\<close> computes from an FEC packet of the sender and all but one of the
  media packets it protects is the missing packet, with its length, its sequence number and every byte.
\<close>

section \<open>Exclusive or on the receiver's side\<close>

text \<open>What a media packet contributes to byte \<open>j\<close> of a packet under recovery.\<close>

definition media_byte :: "Packet \<Rightarrow> nat \<Rightarrow> int" where
  "media_byte p j = (if j < 2 \<or> 4 \<le> j \<and> j < 8 \<or> 12 \<le> j \<and> int j < pkt_length p then pkt_data p ! j else 0)"

definition recoverable :: "Packet \<Rightarrow> bool" where
  "recoverable p \<longleftrightarrow> length (pkt_data p) = IP_PACKET_SIZE \<and> 12 \<le> pkt_length p \<and> pkt_length p \<le> int IP_PACKET_SIZE"

lemma fits_recoverable: "fits l p \<Longrightarrow> recoverable p"
  by (simp add: fits_def recoverable_def fec_constants)

definition xor_all :: "Packet list \<Rightarrow> int list \<times> int list \<Rightarrow> int list \<times> int list" where
  "xor_all ps dst = (map (\<lambda>j. fst dst ! j XOR xor_sum (\<lambda>p. media_byte p j) ps) [0..<IP_PACKET_SIZE],
     map (\<lambda>j. snd dst ! j XOR xor_sum (\<lambda>p. length_bytes p ! j) ps) [0..<2])"

lemma XorPackets_Some:
  assumes "recoverable p" "length (fst dst) = IP_PACKET_SIZE" "length (snd dst) = 2"
  shows "XorPackets p dst = Some (xor_all [p] dst)"
proof -
  let ?n = "nat (pkt_length p - 12)" and ?d = "fst dst" and ?m = "pkt_data p"
  have len: "length ?d = 1500" "length ?m = 1500" "12 + ?n \<le> 1500" "\<And>k. k < 12 + ?n \<longleftrightarrow> int k < pkt_length p"
    using assms by (auto simp: recoverable_def fec_constants)
  have d: "do { d \<leftarrow> xor_bytes ?d 0 ?m 0 2; d \<leftarrow> xor_bytes d 4 ?m 4 4; xor_bytes d 12 ?m 12 ?n }
     = Some (fst (xor_all [p] dst))"
    using len by (simp add: xor_bytes_Some fec_constants(1) xor_all_def cong: if_cong) (auto simp: media_byte_def)
  have l: "xor_bytes (snd dst) 0 (length_bytes p) 0 2 = Some (snd (xor_all [p] dst))"
    using assms(3) by (simp add: xor_bytes_Some xor_all_def)
  have "AssignUWord16ToBuffer (u16 (pkt_length p - int kRtpHeaderSize)) = length_bytes p"
    by (simp add: length_bytes_def)
  then show ?thesis using d l by (auto simp: XorPackets_def fec_constants(2) split: bind_splits)
qed

lemma xor_all_simps:
  "length (fst dst) = IP_PACKET_SIZE \<Longrightarrow> length (snd dst) = 2 \<Longrightarrow> xor_all [] dst = dst"
  "xor_all qs (xor_all ps dst) = xor_all (ps @ qs) dst"
  by (auto simp: xor_all_def xor_sum_append ac_simps prod_eq_iff list_eq_iff_nth_eq)

lemma length_xor_all [simp]: "length (fst (xor_all ps dst)) = IP_PACKET_SIZE" "length (snd (xor_all ps dst)) = 2"
  by (simp_all add: xor_all_def)

text \<open>Two packets that differ only behind their end.\<close>

definition same_packet :: "Packet \<Rightarrow> Packet \<Rightarrow> bool" where
  "same_packet p q \<longleftrightarrow> length (pkt_data p) = length (pkt_data q) \<and> pkt_length p = pkt_length q
     \<and> (\<forall>j. int j < pkt_length q \<longrightarrow> pkt_data p ! j = pkt_data q ! j)"

definition holds_packet :: "ProtectedPacket \<Rightarrow> Packet \<Rightarrow> bool" where
  "holds_packet e p \<longleftrightarrow> (case pp_pkt e of None \<Rightarrow> False | Some p' \<Rightarrow> same_packet p' p)"

lemma same_packet_bytes:
  assumes "same_packet p q" "recoverable q"
  shows "media_byte p = media_byte q" "length_bytes p = length_bytes q" "recoverable p"
  using assms by (auto simp: same_packet_def media_byte_def length_bytes_def recoverable_def)

lemma xor_all_same: "same_packet p q \<Longrightarrow> recoverable q \<Longrightarrow> xor_all [p] dst = xor_all [q] dst"
  using same_packet_bytes [of p q] by (simp add: xor_all_def)

lemma recover_loop_present:
  assumes "list_all2 holds_packet es ps" "\<forall>p\<in>set ps. recoverable p"
    and "length (fst dst) = IP_PACKET_SIZE" "length (snd dst) = 2"
  shows "recover_loop (es @ rest) s dst = recover_loop rest s (xor_all ps dst)"
  using assms
proof (induction es ps arbitrary: dst rule: list_all2_induct)
  case (Cons e es p ps)
  then obtain p' where p': "pp_pkt e = Some p'" "same_packet p' p" by (auto simp: holds_packet_def split: option.splits)
  moreover have "XorPackets p' dst = Some (xor_all [p] dst)"
    using Cons.prems p' same_packet_bytes [OF p'(2)] by (simp add: XorPackets_Some xor_all_same [OF p'(2)])
  ultimately show ?case using Cons by (simp add: xor_all_simps(2))
qed (simp add: xor_all_simps)

section \<open>The first step\<close>

lemma bit_set_L_bit: "bit (set_L_bit l b) 6 = l" "n < 6 \<Longrightarrow> bit (set_L_bit l b) n = bit b n" "7 \<le> n \<Longrightarrow> \<not> bit (set_L_bit l b) n"
proof -
  show "bit (set_L_bit l b) 6 = l" by (simp add: set_L_bit_def bit_simps)
  show "bit (set_L_bit l b) n = bit b n" if "n < 6"
  proof -
    from that have "n = 0 \<or> n = 1 \<or> n = 2 \<or> n = 3 \<or> n = 4 \<or> n = 5" by linarith
    then show ?thesis by (elim disjE) (simp_all add: set_L_bit_def bit_simps)
  qed
  show "\<not> bit (set_L_bit l b) n" if "7 \<le> n"
  proof -
    have "\<not> bit (0x7f :: int) n" "\<not> bit (0x40 :: int) n"
      using that bit_mask_iff [where 'a = int, of 7 n] bit_exp_iff [where 'a = int, of 6 n]
      by (simp_all add: mask_eq_exp_minus_1)
    then show ?thesis by (simp add: set_L_bit_def bit_or_iff bit_and_iff)
  qed
qed

lemma L_bit_of: "is_fec_of l sel base row f \<Longrightarrow> L_bit_set f = l"
proof -
  assume "is_fec_of l sel base row f"
  moreover have "(b AND 0x40 \<noteq> 0) = bit b 6" for b :: int
    using mask_test [of b 6] by (simp add: shl_def)
  ultimately show ?thesis by (simp add: L_bit_set_def is_fec_of_def bit_set_L_bit)
qed

text \<open>The packet under recovery before any media packet is removed from it.\<close>

definition first_step :: "bool \<Rightarrow> int \<Rightarrow> Packet list \<Rightarrow> int list \<times> int list" where
  "first_step l ssrc sel =
     (map (\<lambda>j. if 8 \<le> j \<and> j < 12 then AssignUWord32ToBuffer ssrc ! (j - 8)
        else if j = 0 then set_L_bit l (xor_sum (\<lambda>p. media_byte p 0) sel)
        else xor_sum (\<lambda>p. media_byte p j) sel) [0..<IP_PACKET_SIZE],
      map (\<lambda>j. xor_sum (\<lambda>p. length_bytes p ! j) sel) [0..<2])"

lemma xor_sum_cong: "(\<And>p. p \<in> set ps \<Longrightarrow> f p = g p) \<Longrightarrow> xor_sum f ps = xor_sum g ps"
  by (induction ps) simp_all

lemma xor_sum_zero: "(\<And>p. p \<in> set ps \<Longrightarrow> f p = 0) \<Longrightarrow> xor_sum f ps = 0"
  by (induction ps) simp_all

lemma contribution_media:
  "j < 8 \<Longrightarrow> contribution l p j = media_byte p j"
  "12 \<le> j \<Longrightarrow> contribution l p (j - 12 + fec_start l) = media_byte p j"
proof -
  show "j < 8 \<Longrightarrow> contribution l p j = media_byte p j"
    using fec_start_bounds [of l] by (auto simp: contribution_def media_byte_def)
  have "12 \<le> j \<Longrightarrow> j - 12 + fec_start l - fec_offset l = j" "12 \<le> j \<Longrightarrow> int (j - 12 + fec_start l) = int j + int (fec_offset l)"
    using fec_start_bounds [of l] by linarith+
  then show "12 \<le> j \<Longrightarrow> contribution l p (j - 12 + fec_start l) = media_byte p j"
    using fec_start_bounds(1) [of l] by (auto simp: contribution_def media_byte_def)
qed

lemma AssignUWord16_inverse:
  "is_u16 v \<Longrightarrow> BufferToUWord16 (AssignUWord16ToBuffer v) = v"
proof -
  assume v: "is_u16 v"
  have "shr v 8 = v div 256" "v = 256 * (v div 256) + v mod 256" by (simp_all add: shr_def)
  moreover have "0 \<le> v div 256" "v div 256 \<le> 255" using v unfolding is_u16_def by linarith+
  ultimately show ?thesis using v
    by (simp add: BufferToUWord16_def AssignUWord16ToBuffer_def u8_def shl_def is_u16_def u16_def)
qed

lemma InitRecovery_Some:
  assumes f: "is_fec_of l sel base row (fp_pkt fec)" and sel: "sel \<noteq> []" "\<forall>p\<in>set sel. fits l p"
  shows "InitRecovery fec = Some (first_step l (fp_ssrc fec) sel)"
proof -
  let ?f = "pkt_data (fp_pkt fec)" and ?s = "fec_start l"
  have len: "length ?f = 1500" using f by (simp add: is_fec_of_def fec_constants)
  define m where "m = longest sel"
  obtain p where p: "p \<in> set sel" using sel(1) by (cases sel) auto
  have m: "12 \<le> m" "m + int (fec_offset l) \<le> 1500"
  proof -
    show "12 \<le> m" using longest_ge [OF p] sel(2) p unfolding m_def fits_def fec_constants by force
    have "\<forall>p\<in>set sel. pkt_length p \<le> 1500 - int (fec_offset l)" using sel(2) by (force simp: fits_def fec_constants)
    from longest_le [OF this] show "m + int (fec_offset l) \<le> 1500" using fec_start_bounds [of l] by (simp add: m_def)
  qed
  have "take 2 (drop 10 ?f) = [?f ! 10, ?f ! 11]"
    using len by (intro nth_equalityI) (auto simp: less_2_cases_iff)
  then have "take 2 (drop 10 ?f) = AssignUWord16ToBuffer (u16 (m - 12))"
    using f by (simp add: is_fec_of_def m_def fec_constants)
  then have prot: "BufferToUWord16 (take 2 (drop 10 ?f)) = m - 12"
    using m AssignUWord16_inverse [of "m - 12"] by (simp add: is_u16_def u16_id)
  let ?n = "nat (m - 12)"
  have n: "12 + ?n \<le> 1500" "?s + ?n \<le> 1500" using m fec_start_bounds [of l] by linarith+
  have st: "kFecHeaderSize + ulp_header_size l = ?s" by (simp add: fec_start_def)
  have a: "length (AssignUWord32ToBuffer v) = 4" for v by (simp add: AssignUWord32ToBuffer_def)
  have b: "?f ! j = xor_sum (\<lambda>p. contribution l p j) sel" if "j = 1 \<or> 4 \<le> j \<and> j < 10" for j
    using f that unfolding is_fec_of_def by blast
  have z: "?f ! 0 = set_L_bit l (xor_sum (\<lambda>p. media_byte p 0) sel)"
    using f by (simp add: is_fec_of_def contribution_media)
  have t: "?f ! (j - 12 + ?s) = xor_sum (\<lambda>p. media_byte p j) sel" if "12 \<le> j" "j < 12 + ?n" for j
  proof -
    have "?s \<le> j - 12 + ?s" "j - 12 + ?s < IP_PACKET_SIZE" using that n unfolding fec_constants by linarith+
    then have "?f ! (j - 12 + ?s) = xor_sum (\<lambda>p. contribution l p (j - 12 + ?s)) sel"
      using f unfolding is_fec_of_def by blast
    then show ?thesis unfolding contribution_media(2) [OF that(1)] .
  qed
  have t': "?f ! (?s + j - 12) = xor_sum (\<lambda>p. media_byte p j) sel" if "12 \<le> j" "j < 12 + ?n" for j
    using t [OF that] that by (simp add: add.commute)
  have far: "xor_sum (\<lambda>p. media_byte p j) sel = 0" if "12 + ?n \<le> j" for j
  proof (rule xor_sum_zero)
    fix q assume "q \<in> set sel"
    then have "pkt_length q \<le> int j" using longest_ge [of q sel] that m(1) unfolding m_def by linarith
    then show "media_byte q j = 0" using that by (simp add: media_byte_def)
  qed
  have lb: "xor_sum (\<lambda>p. contribution l p 8) sel = xor_sum (\<lambda>p. length_bytes p ! 0) sel"
    "xor_sum (\<lambda>p. contribution l p 9) sel = xor_sum (\<lambda>p. length_bytes p ! 1) sel"
    by (simp_all add: contribution_def)
  have lo: "memcpy [0, 0] 0 ?f 8 2 = Some (snd (first_step l (fp_ssrc fec) sel))"
    using len b [of 8] b [of 9] lb
    by (simp add: memcpy_Some first_step_def upt_conv_Cons)
  have two: "xor_sum (\<lambda>p. media_byte p j) sel = 0" if "\<not> j < Suc (Suc 0)" "\<not> 4 \<le> j" for j
    using that by (intro xor_sum_zero) (auto simp: media_byte_def)
  have low: "?f ! j = xor_sum (\<lambda>p. media_byte p j) sel" if "j = 1 \<or> 4 \<le> j \<and> j < 8" for j
    using b [of j] that by (auto simp: contribution_media)
  have "do { d \<leftarrow> memcpy (replicate IP_PACKET_SIZE 0) 12 ?f ?s ?n; d \<leftarrow> memcpy d 0 ?f 0 2; d \<leftarrow> memcpy d 4 ?f 4 4;
             memcpy d 8 (AssignUWord32ToBuffer (fp_ssrc fec)) 0 4 } = Some (fst (first_step l (fp_ssrc fec) sel))"
    using len n
    by (simp add: memcpy_Some fec_constants(1) first_step_def a cong: if_cong) (auto simp: z far two low t')
  then show ?thesis using lo L_bit_of [OF f] prot
    by (auto simp: InitRecovery_def st fec_constants(2) split: bind_splits)
qed

section \<open>The missing packet\<close>

lemma xor_sum_missing: "xor_sum f (ps @ q # qs) XOR xor_sum f (ps @ qs) = f q"
proof -
  have "(a XOR (x XOR b)) XOR (a XOR b) = x" for a b x :: int
    by (rule bit_eqI) (auto simp: bit_xor_iff)
  then show ?thesis by (simp add: xor_sum_append)
qed

text \<open>A packet as it arrives: version 2 in the first two bits, bytes, the size of the buffer.\<close>

definition rtp_packet :: "Packet \<Rightarrow> bool" where
  "rtp_packet p \<longleftrightarrow> length (pkt_data p) = IP_PACKET_SIZE \<and> bytes (pkt_data p) \<and> 12 \<le> pkt_length p
     \<and> pkt_data p ! 0 AND 0xc0 = 0x80"

definition rtp_ssrc :: "Packet \<Rightarrow> int" where
  "rtp_ssrc p = be (take 4 (drop 8 (pkt_data p)))"

text \<open>The packet with zeros behind its end.\<close>

definition zero_padded :: "Packet \<Rightarrow> Packet" where
  "zero_padded p = p\<lparr>pkt_data := map (\<lambda>j. if int j < pkt_length p then pkt_data p ! j else 0) [0..<IP_PACKET_SIZE]\<rparr>"

lemma version_byte:
  assumes "is_u8 x" "x AND 0xc0 = 0x80" "is_u8 y"
  shows "((set_L_bit l (x XOR y) XOR y) OR 0x80) AND 0xbf = x"
proof (rule bit_eqI)
  fix n
  have small: "\<not> bit z n" if "is_u8 z" "8 \<le> n" for z :: int
  proof -
    have "z = take_bit 8 z" using that(1) by (simp add: is_u8_def take_bit_int_eq_self)
    then show ?thesis using that(2) by (metis bit_take_bit_iff not_le)
  qed
  have x: "bit (x AND 0xc0) 7 = bit (0x80 :: int) 7" "bit (x AND 0xc0) 6 = bit (0x80 :: int) 6" using assms(2) by simp_all
  have top: "bit x 7" "\<not> bit x 6" using x by (simp_all add: bit_simps)
  consider "n < 6" | "n = 6" | "n = 7" | "8 \<le> n" by linarith
  then show "bit (((set_L_bit l (x XOR y) XOR y) OR 0x80) AND 0xbf) n = bit x n"
  proof cases
    case 1
    then have "n = 0 \<or> n = 1 \<or> n = 2 \<or> n = 3 \<or> n = 4 \<or> n = 5" by linarith
    then show ?thesis using bit_set_L_bit(2) [OF 1, of l "x XOR y"]
      by (elim disjE) (auto simp: bit_simps)
  next
    case 2
    then show ?thesis using top by (simp add: bit_simps)
  next
    case 3
    then show ?thesis using top by (simp add: bit_simps)
  next
    case 4
    have "\<not> bit (0xbf :: int) n" using 4 by (intro small) (simp_all add: is_u8_def)
    moreover have "\<not> bit x n" using 4 assms(1) by (intro small)
    ultimately show ?thesis by (simp add: bit_simps)
  qed
qed

lemma AssignUWord16_sequence:
  assumes "is_u8 a" "is_u8 b"
  shows "AssignUWord16ToBuffer (u16 (shl a 8 + b)) = [a, b]"
proof -
  have "u16 (shl a 8 + b) = 256 * a + b" using assms by (simp add: shl_def is_u8_def u16_id)
  moreover have "(256 * a + b) div 256 = a" "(256 * a + b) mod 256 = b" using assms by (simp_all add: is_u8_def)
  ultimately show ?thesis using assms by (simp add: AssignUWord16ToBuffer_def shr_def u8_def is_u8_def)
qed

lemma AssignUWord32_be:
  assumes "is_u8 a" "is_u8 b" "is_u8 c" "is_u8 d"
  shows "AssignUWord32ToBuffer (be [a, b, c, d]) = [a, b, c, d]"
proof -
  define x where "x = a * 16777216 + b * 65536 + c * 256 + d"
  have "be [a, b, c, d] = x" by (simp add: be_def x_def)
  moreover have "x div 16777216 = a"
    using assms unfolding x_def is_u8_def by (intro int_div_pos_eq [where r = "b * 65536 + c * 256 + d"]) auto
  moreover have "x div 65536 = a * 256 + b"
    using assms unfolding x_def is_u8_def by (intro int_div_pos_eq [where r = "c * 256 + d"]) auto
  moreover have "x div 256 = a * 65536 + b * 256 + c"
    using assms unfolding x_def is_u8_def by (intro int_div_pos_eq [where r = d]) auto
  moreover have "x mod 256 = d"
    using assms unfolding x_def is_u8_def
    by (intro int_mod_pos_eq [where q = "a * 65536 + b * 256 + c"]) auto
  moreover have "(a * 256 + b) mod 256 = b" "a mod 256 = a"
    using assms unfolding is_u8_def by simp_all
  moreover have "(a * 65536 + b * 256 + c) mod 256 = c"
    using assms unfolding is_u8_def by (intro int_mod_pos_eq [where q = "a * 256 + b"]) auto
  moreover have "(2::int) ^ 24 = 16777216" "(2::int) ^ 16 = 65536" "(2::int) ^ 8 = 256" by simp_all
  ultimately show ?thesis by (simp only: AssignUWord32ToBuffer_def shr_def u8_def)
qed

lemma is_u8_xor: "is_u8 a \<Longrightarrow> is_u8 b \<Longrightarrow> is_u8 (a XOR b)"
proof -
  assume a: "is_u8 a" and b: "is_u8 b"
  have "take_bit 8 (a XOR b) = a XOR b" using a b by (simp add: is_u8_def take_bit_xor take_bit_int_eq_self)
  moreover have "0 \<le> take_bit 8 (a XOR b)" "take_bit 8 (a XOR b) < 2 ^ 8"
    by (rule take_bit_nonnegative, rule take_bit_int_less_exp)
  ultimately show "is_u8 (a XOR b)" unfolding is_u8_def by simp
qed

lemma is_u8_xor_sum: "(\<And>p. p \<in> set ps \<Longrightarrow> is_u8 (f p)) \<Longrightarrow> is_u8 (xor_sum f ps)"
  by (induction ps) (simp_all add: is_u8_xor, simp add: is_u8_def)

definition missing_packet :: "Packet \<Rightarrow> ProtectedPacket" where
  "missing_packet p = \<lparr>pp_seq_num = pkt_seq p, pp_pkt = None\<rparr>"

definition recovered_packet :: "Packet \<Rightarrow> RecoveredPacket" where
  "recovered_packet q = \<lparr>rc_seq_num = pkt_seq q, was_recovered = True, returned = False,
     length_recovery = length_bytes q, rc_pkt = zero_padded q\<rparr>"

lemma FinishRecovery_Some:
  assumes "length d = IP_PACKET_SIZE"
  shows "FinishRecovery (Some s) (d, lb) = Some \<lparr>rc_seq_num = s, was_recovered = True, returned = False,
     length_recovery = lb, rc_pkt = \<lparr>pkt_length = u16 (BufferToUWord16 lb + 12),
       pkt_data = map (\<lambda>j. if j = 0 then (d ! 0 OR 0x80) AND 0xbf
          else if 2 \<le> j \<and> j < 4 then AssignUWord16ToBuffer s ! (j - 2) else d ! j) [0..<IP_PACKET_SIZE]\<rparr>\<rparr>"
proof -
  have a: "length (AssignUWord16ToBuffer s) = 2" by (simp add: AssignUWord16ToBuffer_def)
  show ?thesis using assms
    by (simp add: FinishRecovery_def memcpy_Some a fec_constants cong: if_cong)
qed

lemma finished_byte:
  assumes sel: "sel = ps @ q # qs" and rtp: "\<forall>p\<in>set sel. rtp_packet p"
    and lb: "j < IP_PACKET_SIZE" "AssignUWord32ToBuffer ssrc = take 4 (drop 8 (pkt_data q))"
  shows "(let d = fst (xor_all (ps @ qs) (first_step l ssrc sel)) in
      if j = 0 then (d ! 0 OR 0x80) AND 0xbf
      else if 2 \<le> j \<and> j < 4 then AssignUWord16ToBuffer (pkt_seq q) ! (j - 2) else d ! j)
    = (if int j < pkt_length q then pkt_data q ! j else 0)"
proof -
  have q: "length (pkt_data q) = 1500" "bytes (pkt_data q)" "12 \<le> pkt_length q" "pkt_data q ! 0 AND 0xc0 = 0x80"
    using rtp by (simp_all add: sel rtp_packet_def fec_constants)
  have miss: "xor_sum (\<lambda>p. media_byte p j) (ps @ q # qs) XOR xor_sum (\<lambda>p. media_byte p j) (ps @ qs) = media_byte q j" for j
    by (rule xor_sum_missing)
  consider "j = 0" | "2 \<le> j" "j < 4" | "8 \<le> j" "j < 12" | "j = 1 \<or> 4 \<le> j \<and> j < 8 \<or> 12 \<le> j" by linarith
  then show ?thesis
  proof cases
    case 1
    let ?y = "xor_sum (\<lambda>p. media_byte p 0) (ps @ qs)"
    have u: "is_u8 (pkt_data p ! 0)" if "p \<in> set sel" for p
      using rtp that bytes_nth [of "pkt_data p" 0] by (simp add: rtp_packet_def is_u8_def fec_constants)
    have y: "is_u8 ?y" using u by (intro is_u8_xor_sum) (auto simp: media_byte_def sel)
    have "xor_sum (\<lambda>p. media_byte p 0) sel = pkt_data q ! 0 XOR ?y"
      using miss [of 0] by (simp add: sel media_byte_def xor_sum_append ac_simps)
    then have "fst (xor_all (ps @ qs) (first_step l ssrc sel)) ! 0 = set_L_bit l (pkt_data q ! 0 XOR ?y) XOR ?y"
      by (simp add: xor_all_def first_step_def fec_constants)
    moreover have "((set_L_bit l (pkt_data q ! 0 XOR ?y) XOR ?y) OR 0x80) AND 0xbf = pkt_data q ! 0"
      using u [of q] q(4) y by (intro version_byte) (simp_all add: sel)
    ultimately show ?thesis using 1 q(3) by (simp add: Let_def)
  next
    case 2
    have "AssignUWord16ToBuffer (pkt_seq q) = [pkt_data q ! 2, pkt_data q ! 3]"
      unfolding pkt_seq_def ParseSequenceNumber_def using q(1,2)
      by (intro AssignUWord16_sequence) (simp_all add: is_u8_def bytes_nth)
    moreover have "j = 2 \<or> j = 3" using 2 by linarith
    ultimately show ?thesis using q(3) by (auto simp: Let_def)
  next
    case 3
    then have "xor_sum (\<lambda>p. media_byte p j) (ps @ qs) = 0" by (intro xor_sum_zero) (simp add: media_byte_def)
    then show ?thesis using 3 lb q(1,3) by (simp add: Let_def xor_all_def first_step_def)
  next
    case 4
    then show ?thesis using lb(1) miss [of j] q(3)
      by (auto simp: Let_def xor_all_def first_step_def sel media_byte_def [of q])
  qed
qed

lemma recover_missing:
  assumes sel: "sel = ps @ q # qs" and rtp: "\<forall>p\<in>set sel. fits l p \<and> rtp_packet p"
    and f: "is_fec_of l sel base row (fp_pkt fec)" and ssrc: "fp_ssrc fec = rtp_ssrc q"
    and list: "protected_pkt_list fec = es @ missing_packet q # es'" "list_all2 holds_packet es ps" "list_all2 holds_packet es' qs"
  shows "RecoverPacket fec = Some (recovered_packet q)"
proof -
  let ?d = "first_step l (fp_ssrc fec) sel"
  have rec: "\<forall>p\<in>set ps. recoverable p" "\<forall>p\<in>set qs. recoverable p"
    using rtp fits_recoverable by (auto simp: sel)
  have len: "length (fst ?d) = IP_PACKET_SIZE" "length (snd ?d) = 2" by (simp_all add: first_step_def)
  have loop: "recover_loop (protected_pkt_list fec) None ?d = Some (Some (pkt_seq q), xor_all (ps @ qs) ?d)"
    using recover_loop_present [OF list(2) rec(1) len, of "missing_packet q # es'" None]
      recover_loop_present [OF list(3) rec(2), of "xor_all ps ?d" "[]" "Some (pkt_seq q)"]
    by (simp add: list(1) missing_packet_def xor_all_simps(2))
  have q: "length (pkt_data q) = 1500" "bytes (pkt_data q)" "12 \<le> pkt_length q" "pkt_length q \<le> 1500"
    using rtp by (simp_all add: sel rtp_packet_def fits_def fec_constants)
  have "AssignUWord32ToBuffer (be [pkt_data q ! 8, pkt_data q ! 9, pkt_data q ! 10, pkt_data q ! 11])
     = [pkt_data q ! 8, pkt_data q ! 9, pkt_data q ! 10, pkt_data q ! 11]"
    using q(1,2) by (intro AssignUWord32_be) (simp_all add: is_u8_def bytes_nth)
  moreover have "take 4 (drop 8 (pkt_data q)) = [pkt_data q ! 8, pkt_data q ! 9, pkt_data q ! 10, pkt_data q ! 11]"
    using q(1) by (intro nth_equalityI) (auto simp: less_Suc_eq numeral_eq_Suc)
  ultimately have s: "AssignUWord32ToBuffer (fp_ssrc fec) = take 4 (drop 8 (pkt_data q))"
    by (simp add: ssrc rtp_ssrc_def)
  have lb: "snd (xor_all (ps @ qs) ?d) = length_bytes q"
    using xor_sum_missing [of _ ps q qs]
    by (intro nth_equalityI) (auto simp: xor_all_def first_step_def sel)
  have "BufferToUWord16 (length_bytes q) = pkt_length q - 12"
    using q AssignUWord16_inverse [of "pkt_length q - 12"]
    by (simp add: length_bytes_def fec_constants is_u16_def u16_id)
  then have l: "u16 (BufferToUWord16 (length_bytes q) + 12) = pkt_length q" using q by (simp add: u16_id)
  have fin: "FinishRecovery (Some (pkt_seq q)) (xor_all (ps @ qs) ?d) = Some (recovered_packet q)"
  proof -
    define d where "d = fst (xor_all (ps @ qs) ?d)"
    have pair: "xor_all (ps @ qs) ?d = (d, length_bytes q)" using lb by (simp add: d_def prod_eq_iff)
    have "map (\<lambda>j. if j = 0 then (d ! 0 OR 0x80) AND 0xbf
          else if 2 \<le> j \<and> j < 4 then AssignUWord16ToBuffer (pkt_seq q) ! (j - 2) else d ! j) [0..<IP_PACKET_SIZE]
        = pkt_data (zero_padded q)"
      using finished_byte [OF sel _ _ s, of _ l] rtp unfolding Let_def d_def [symmetric] zero_padded_def
      by (simp cong: map_cong)
    moreover have "zero_padded q = \<lparr>pkt_length = pkt_length q, pkt_data = pkt_data (zero_padded q)\<rparr>"
      by (simp add: zero_padded_def)
    moreover have "length d = IP_PACKET_SIZE" by (simp add: d_def)
    ultimately show ?thesis unfolding pair
      using FinishRecovery_Some [of d "pkt_seq q" "length_bytes q"] l unfolding recovered_packet_def by metis
  qed
  then show ?thesis using InitRecovery_Some [OF f] rtp loop fin by (simp add: RecoverPacket_def sel)
qed

section \<open>Properties of one recovery\<close>

text \<open>
  C5. For every mask, with either length of the header and with gaps in the sequence numbers that do not lead over a
  byte of the mask: from an FEC packet of the sender and all but one of the media packets it protects,
  \<open>RecoverPacket\<close> gives the missing one, with its sequence number, its length and every byte, zeros behind its end.
\<close>

theorem RecoverPacket_exact:
  assumes media: "media \<noteq> []" "mask_walk (columns 0 media)" "\<forall>d\<in>set (columns 0 media). d < 8 * num_mask_bytes l"
      "\<forall>p\<in>set media. fits l p \<and> rtp_packet p"
    and m: "n * num_mask_bytes l \<le> length packet_mask" and gen: "n \<le> length gen"
      "\<forall>i<n. gen ! i = \<lparr>pkt_length = 0, pkt_data = replicate IP_PACKET_SIZE 0\<rparr>"
    and g1: "GenerateFecBitStrings media packet_mask n l gen = Some g1"
    and g2: "GenerateFecUlpHeaders media packet_mask l n g1 = Some g2"
    and i: "i < n" "in_row packet_mask (i * num_mask_bytes l) 0 media = ps @ q # qs"
    and fec: "fp_pkt fec = g2 ! i" "fp_ssrc fec = rtp_ssrc q"
      "protected_pkt_list fec = es @ missing_packet q # es'" "list_all2 holds_packet es ps" "list_all2 holds_packet es' qs"
  shows "RecoverPacket fec = Some (recovered_packet q)"
proof -
  have fits: "\<forall>p\<in>set media. fits l p" using media(4) by simp
  obtain row where f: "is_fec_of l (in_row packet_mask (i * num_mask_bytes l) 0 media) (hd media) row (g2 ! i)"
    using sender_rows [OF media(1-3) fits m gen] g1 g2 i by (metis append_is_Nil_conv list.distinct(1) option.inject)
  have "\<forall>p\<in>set (in_row packet_mask (i * num_mask_bytes l) 0 media). fits l p \<and> rtp_packet p"
    using set_in_row [of packet_mask "i * num_mask_bytes l" 0 media] media(4) by blast
  moreover have "is_fec_of l (in_row packet_mask (i * num_mask_bytes l) 0 media) (hd media) row (fp_pkt fec)"
    unfolding fec(1) by (rule f)
  ultimately show ?thesis by (rule recover_missing [OF i(2) _ _ fec(2-5)])
qed

definition example_media :: "int \<Rightarrow> int \<Rightarrow> Packet" where
  "example_media s x = \<lparr>pkt_length = 13,
     pkt_data = [0x80, 0x60, 0, s, 0, 0, 0, 90, 0, 0, 0, 7, x] @ replicate 1487 0\<rparr>"

lemma bytes_replicate: "is_u8 x \<Longrightarrow> bytes (replicate n x)"
  by (simp add: bytes_def list_all_iff)

lemma example_media_ok:
  "fits l (example_media s x)" "rtp_ssrc (example_media s x) = 7"
  "is_u8 s \<Longrightarrow> is_u8 x \<Longrightarrow> rtp_packet (example_media s x)" "is_u8 s \<Longrightarrow> pkt_seq (example_media s x) = s"
proof -
  show "fits l (example_media s x)" by (cases l) (simp_all add: example_media_def fits_def fec_constants)
  show "rtp_ssrc (example_media s x) = 7" by (simp add: example_media_def rtp_ssrc_def be_def)
  show "is_u8 s \<Longrightarrow> is_u8 x \<Longrightarrow> rtp_packet (example_media s x)"
    using bytes_replicate [of 0] by (simp add: example_media_def rtp_packet_def fec_constants) (simp add: is_u8_def)
  show "is_u8 s \<Longrightarrow> pkt_seq (example_media s x) = s"
    by (simp add: example_media_def pkt_seq_def ParseSequenceNumber_def shl_def is_u8_def u16_id)
qed

lemma RecoverPacket_exact_witness:
  "\<exists>g1 g2. GenerateFecBitStrings [example_media 3 5, example_media 4 6] [0xc0, 0] 1 False
        [\<lparr>pkt_length = 0, pkt_data = replicate IP_PACKET_SIZE 0\<rparr>] = Some g1
     \<and> GenerateFecUlpHeaders [example_media 3 5, example_media 4 6] [0xc0, 0] False 1 g1 = Some g2
     \<and> RecoverPacket \<lparr>fp_seq_num = 9, protected_pkt_list = [missing_packet (example_media 3 5),
          \<lparr>pp_seq_num = 4, pp_pkt = Some (example_media 4 6)\<rparr>], fp_ssrc = 7, fp_pkt = g2 ! 0\<rparr>
        = Some (recovered_packet (example_media 3 5))"
proof -
  let ?m = "[example_media 3 5, example_media 4 6]" and ?z = "[\<lparr>pkt_length = 0, pkt_data = replicate IP_PACKET_SIZE 0\<rparr>]"
  have s: "pkt_seq (example_media 3 5) = 3" "pkt_seq (example_media 4 6) = 4"
    by (simp_all add: example_media_ok is_u8_def)
  have nb: "num_mask_bytes False = 2" by (simp add: num_mask_bytes_def fec_constants)
  have h: "?m \<noteq> []" "mask_walk (columns 0 ?m)" "\<forall>d\<in>set (columns 0 ?m). d < 8 * num_mask_bytes False"
      "\<forall>p\<in>set ?m. fits False p \<and> rtp_packet p" "1 * num_mask_bytes False \<le> length [0xc0, 0 :: int]" "1 \<le> length ?z"
      "\<forall>i<1. ?z ! i = \<lparr>pkt_length = 0, pkt_data = replicate IP_PACKET_SIZE 0\<rparr>"
    by (simp_all add: s nb u16_id example_media_ok is_u8_def)
  then have fits: "\<forall>p\<in>set ?m. fits False p" by simp
  obtain g1 g2 where g: "GenerateFecBitStrings ?m [0xc0, 0] 1 False ?z = Some g1" "GenerateFecUlpHeaders ?m [0xc0, 0] False 1 g1 = Some g2"
    using sender_rows [OF h(1-3) fits h(5-7)] by blast
  have row: "in_row [0xc0, 0] (0 * num_mask_bytes False) 0 ?m = [] @ example_media 3 5 # [example_media 4 6]"
    by (simp add: s row_bit_def u16_id bit_iff_odd)
  let ?f = "\<lparr>fp_seq_num = 9, protected_pkt_list = [missing_packet (example_media 3 5),
          \<lparr>pp_seq_num = 4, pp_pkt = Some (example_media 4 6)\<rparr>], fp_ssrc = 7, fp_pkt = g2 ! 0\<rparr>"
  have hold: "list_all2 holds_packet [\<lparr>pp_seq_num = 4, pp_pkt = Some (example_media 4 6)\<rparr>] [example_media 4 6]"
    by (simp add: holds_packet_def same_packet_def)
  have "fp_pkt ?f = g2 ! 0" "fp_ssrc ?f = rtp_ssrc (example_media 3 5)" "protected_pkt_list ?f = [] @
      missing_packet (example_media 3 5) # [\<lparr>pp_seq_num = 4, pp_pkt = Some (example_media 4 6)\<rparr>]"
    by (simp_all add: example_media_ok)
  then have "RecoverPacket ?f = Some (recovered_packet (example_media 3 5))"
    by (rule RecoverPacket_exact [OF h g zero_less_one row]) (simp_all only: hold list_all2_Nil)
  then show ?thesis using g by blast
qed

text \<open>
  C23. The first step of a recovery stays within its buffers exactly if the length in the header of the FEC packet does:
  this length comes from the network and nothing in the receiver checks it, so a packet with a larger value makes it
  copy beyond the end.
\<close>

theorem InitRecovery_in_bounds:
  assumes "length (pkt_data (fp_pkt fec)) = IP_PACKET_SIZE"
  shows "InitRecovery fec \<noteq> None \<longleftrightarrow>
     fec_start (L_bit_set (fp_pkt fec)) + nat (BufferToUWord16 (take 2 (drop 10 (pkt_data (fp_pkt fec))))) \<le> IP_PACKET_SIZE"
proof -
  let ?s = "fec_start (L_bit_set (fp_pkt fec))" and ?n = "nat (BufferToUWord16 (take 2 (drop 10 (pkt_data (fp_pkt fec)))))"
  have st: "kFecHeaderSize + ulp_header_size (L_bit_set (fp_pkt fec)) = ?s" by (simp add: fec_start_def)
  have a: "length (AssignUWord32ToBuffer v) = 4" for v by (simp add: AssignUWord32ToBuffer_def)
  show ?thesis
  proof (cases "?s + ?n \<le> 1500")
    case True
    then have "12 + ?n \<le> 1500" using fec_start_bounds(1) [of "L_bit_set (fp_pkt fec)"] by linarith
    then show ?thesis using True assms
      by (simp add: InitRecovery_def Let_def st memcpy_Some a fec_constants(1,2))
  next
    case False
    then show ?thesis using assms by (simp add: InitRecovery_def Let_def st memcpy_def fec_constants(1,2))
  qed
qed

lemma InitRecovery_in_bounds_witness:
  "InitRecovery \<lparr>fp_seq_num = 1, protected_pkt_list = [], fp_ssrc = 7,
     fp_pkt = \<lparr>pkt_length = 20, pkt_data = replicate 10 0 @ [0xff, 0xff] @ replicate 1488 0\<rparr>\<rparr> = None" (is "InitRecovery ?f = None")
proof -
  have "length (pkt_data (fp_pkt ?f)) = IP_PACKET_SIZE" by (simp add: fec_constants)
  moreover have "BufferToUWord16 (take 2 (drop 10 (pkt_data (fp_pkt ?f)))) = 65535"
    by (simp add: BufferToUWord16_def shl_def u16_def)
  ultimately have "\<not> InitRecovery ?f \<noteq> None"
    using InitRecovery_in_bounds [of ?f] by (simp add: fec_constants del: not_None_eq not_not)
  then show ?thesis by blast
qed

end
