(* ===== verification/Rtp_Fec_Decode.thy ===== *)
theory Rtp_Fec_Decode
  imports Rtp_Fec_Recover
begin

text \<open>
  The receiver as a whole: sequence numbers in a window are ordered by their offsets, the lists stay sorted and
  in step with each other, and the loop of recoveries ends with every FEC packet that is left missing two or more of
  its packets.
\<close>

section \<open>Sequence numbers in a window\<close>

definition seq_offset :: "int \<Rightarrow> int \<Rightarrow> int" where "seq_offset base s = u16 (s - base)"

definition in_window :: "int \<Rightarrow> int \<Rightarrow> bool" where
  "in_window base s \<longleftrightarrow> is_u16 s \<and> seq_offset base s < 0x8000"

lemma seq_offset_bounds: "0 \<le> seq_offset base s" "seq_offset base s < 65536"
  using is_u16_u16 [of "s - base"] by (simp_all add: seq_offset_def is_u16_def)

lemma seq_offset_inject: "is_u16 s \<Longrightarrow> is_u16 t \<Longrightarrow> seq_offset base s = seq_offset base t \<longleftrightarrow> s = t"
proof
  assume u: "is_u16 s" "is_u16 t" and e: "seq_offset base s = seq_offset base t"
  then have "(s - base) mod 65536 = (t - base) mod 65536" by (simp add: seq_offset_def u16_def)
  then have "65536 dvd (s - base) - (t - base)" unfolding mod_eq_dvd_iff .
  then obtain k where "s - t = 65536 * k" by (auto elim: dvdE)
  moreover from this have "k < 1" "-1 < k" using u unfolding is_u16_def by linarith+
  ultimately show "s = t" by simp
qed simp

lemma LessThan_offset:
  assumes "in_window base s" "in_window base t"
  shows "LessThan s t \<longleftrightarrow> seq_offset base s < seq_offset base t"
proof -
  have u: "is_u16 s" "is_u16 t" "seq_offset base s < 32768" "seq_offset base t < 32768"
    using assms by (simp_all add: in_window_def)
  have d: "u16 (t - s) = (seq_offset base t - seq_offset base s) mod 65536"
    by (simp add: u16_def seq_offset_def mod_diff_eq)
  have eq: "s = t \<longleftrightarrow> seq_offset base s = seq_offset base t" using seq_offset_inject [OF u(1,2)] by simp
  consider "seq_offset base s \<le> seq_offset base t" | "seq_offset base t < seq_offset base s" by linarith
  then show ?thesis
  proof cases
    case 1
    then have "u16 (t - s) = seq_offset base t - seq_offset base s"
      unfolding d using u seq_offset_bounds [of base s] by simp
    then show ?thesis using 1 u eq seq_offset_bounds [of base s]
      unfolding LessThan_def IsNewerSequenceNumber_def by auto
  next
    case 2
    have "(seq_offset base t - seq_offset base s) mod 65536 = seq_offset base t - seq_offset base s + 65536"
      using 2 u seq_offset_bounds [of base t] by (intro int_mod_pos_eq [where q = "-1"]) auto
    then have "\<not> u16 (t - s) < 32768" unfolding d using u(3) seq_offset_bounds [of base t] by linarith
    then show ?thesis using 2 unfolding LessThan_def IsNewerSequenceNumber_def by simp
  qed
qed

section \<open>Sorting\<close>

definition sorted_by_seq :: "int \<Rightarrow> ('a \<Rightarrow> int) \<Rightarrow> 'a list \<Rightarrow> bool" where
  "sorted_by_seq base f xs \<longleftrightarrow> sorted_wrt (\<lambda>a b. seq_offset base (f a) < seq_offset base (f b)) xs
     \<and> (\<forall>x\<in>set xs. in_window base (f x))"

lemma sorted_by_seq_simps:
  "sorted_by_seq base f []"
  "sorted_by_seq base f (x # xs) \<longleftrightarrow> in_window base (f x) \<and> sorted_by_seq base f xs
     \<and> (\<forall>y\<in>set xs. seq_offset base (f x) < seq_offset base (f y))"
  by (auto simp: sorted_by_seq_def)

lemma set_insert_by [simp]: "set (insert_by f x ys) = insert x (set ys)"
  by (induction ys) auto

lemma length_insert_by [simp]: "length (insert_by f x ys) = Suc (length ys)"
  by (induction ys) auto

lemma set_list_sort [simp]: "set (list_sort f xs) = set xs"
  by (induction xs) (simp_all add: list_sort_def)

lemma length_list_sort [simp]: "length (list_sort f xs) = length xs"
  by (induction xs) (simp_all add: list_sort_def)

lemma sorted_insert_by:
  assumes "sorted_by_seq base f ys" "in_window base (f x)" "\<forall>y\<in>set ys. f y \<noteq> f x"
  shows "sorted_by_seq base f (insert_by f x ys)"
  using assms
proof (induction ys)
  case (Cons y ys)
  have w: "in_window base (f y)" "in_window base (f x)" using Cons.prems by (simp_all add: sorted_by_seq_simps)
  have ne: "seq_offset base (f y) \<noteq> seq_offset base (f x)"
    using Cons.prems(3) w seq_offset_inject [of "f y" "f x" base] by (simp add: in_window_def)
  show ?case
  proof (cases "LessThan (f y) (f x)")
    case True
    then show ?thesis using Cons w LessThan_offset [OF w] by (simp add: sorted_by_seq_simps)
  next
    case False
    then have "seq_offset base (f x) < seq_offset base (f y)" using LessThan_offset [OF w] ne by linarith
    then show ?thesis using False Cons.prems w by (auto simp: sorted_by_seq_simps)
  qed
qed (simp add: sorted_by_seq_simps)

lemma sorted_list_sort:
  assumes "\<forall>x\<in>set xs. in_window base (f x)" "distinct (map f xs)"
  shows "sorted_by_seq base f (list_sort f xs)"
  using assms
proof (induction xs)
  case (Cons x xs)
  then have "sorted_by_seq base f (insert_by f x (list_sort f xs))"
    by (intro sorted_insert_by) (auto simp: image_iff)
  then show ?case by (simp add: list_sort_def)
qed (simp add: list_sort_def sorted_by_seq_simps)

lemma sorted_distinct: "sorted_by_seq base f xs \<Longrightarrow> distinct (map f xs)"
  by (induction xs) (auto simp: sorted_by_seq_simps)

section \<open>The lists in step\<close>

definition known :: "RecoveredPacket list \<Rightarrow> int \<Rightarrow> Packet option" where
  "known rs = map_of (map (\<lambda>r. (rc_seq_num r, rc_pkt r)) rs)"

definition entries :: "(int \<Rightarrow> Packet option) \<Rightarrow> Packet list \<Rightarrow> ProtectedPacket list" where
  "entries K sel = map (\<lambda>p. \<lparr>pp_seq_num = pkt_seq p, pp_pkt = K (pkt_seq p)\<rparr>) sel"

lemma known_simps [simp]: "known [] s = None" "known (r # rs) s = (if rc_seq_num r = s then Some (rc_pkt r) else known rs s)"
  by (simp_all add: known_def)

lemma dom_known: "known rs s = None \<longleftrightarrow> s \<notin> rc_seq_num ` set rs"
  by (induction rs) auto

lemma known_Some: "known rs s = Some p \<Longrightarrow> \<exists>r\<in>set rs. rc_seq_num r = s \<and> rc_pkt r = p"
  by (induction rs) (auto split: if_splits)

lemma known_set: "distinct (map rc_seq_num rs) \<Longrightarrow> r \<in> set rs \<Longrightarrow> known rs (rc_seq_num r) = Some (rc_pkt r)"
  by (induction rs) (auto simp: image_iff)

lemma known_eqI:
  assumes "distinct (map rc_seq_num rs)" "distinct (map rc_seq_num rs')" "set rs = set rs'"
  shows "known rs = known rs'"
proof
  fix s
  show "known rs s = known rs' s"
  proof (cases "known rs s")
    case None
    then have "known rs' s = None" using assms(3) by (simp add: dom_known)
    then show ?thesis using None by simp
  next
    case (Some p)
    then obtain r where "r \<in> set rs'" "rc_seq_num r = s" "rc_pkt r = p" using known_Some [OF Some] assms(3) by auto
    then show ?thesis using Some known_set [OF assms(2), of r] by simp
  qed
qed

lemma known_sort:
  assumes "distinct (map rc_seq_num (rs @ [r]))" "\<forall>x\<in>set (rs @ [r]). in_window base (rc_seq_num x)"
  shows "known (list_sort rc_seq_num (rs @ [r])) = (known rs)(rc_seq_num r \<mapsto> rc_pkt r)"
proof -
  have "distinct (map rc_seq_num (list_sort rc_seq_num (rs @ [r])))"
    using sorted_list_sort [OF assms(2,1)] by (rule sorted_distinct)
  then have "known (list_sort rc_seq_num (rs @ [r])) = known (r # rs)"
    using assms(1) by (intro known_eqI) auto
  then show ?thesis by (auto simp: fun_eq_iff)
qed

text \<open>The update of one entry, and the assignment of all packets received so far.\<close>

lemma cover_entries:
  assumes "sorted_by_seq base pkt_seq sel" "in_window base s"
  shows "cover_protected s p (entries K sel) = entries (K(s \<mapsto> p)) sel"
  using assms(1)
proof (induction sel)
  case (Cons q sel)
  have w: "in_window base (pkt_seq q)" using Cons.prems by (simp add: sorted_by_seq_simps)
  have same: "entries (K(s \<mapsto> p)) xs = entries K xs" if "\<forall>x\<in>set xs. pkt_seq x \<noteq> s" for xs
    using that by (simp add: entries_def)
  show ?case
  proof (cases "LessThan (pkt_seq q) s")
    case True
    then have "pkt_seq q \<noteq> s" by (auto simp: LessThan_def IsNewerSequenceNumber_def)
    then show ?thesis using True Cons by (simp add: entries_def sorted_by_seq_simps)
  next
    case False
    then have "seq_offset base s \<le> seq_offset base (pkt_seq q)" using LessThan_offset [OF w assms(2)] by simp
    then have "\<forall>x\<in>set sel. pkt_seq x \<noteq> s" using Cons.prems by (auto simp: sorted_by_seq_simps)
    then show ?thesis using False same [of sel] by (auto simp: entries_def)
  qed
qed (simp add: entries_def)

lemma intersection_filter:
  assumes "sorted_by_seq base rc_seq_num rs" "sorted_by_seq base pp_seq_num qs"
  shows "set_intersection rs qs = filter (\<lambda>r. rc_seq_num r \<in> pp_seq_num ` set qs) rs"
  using assms
proof (induction rs qs rule: set_intersection.induct)
  case (1 r rs q qs)
  have w: "in_window base (rc_seq_num r)" "in_window base (pp_seq_num q)"
    using 1(4,5) by (simp_all add: sorted_by_seq_simps)
  note lt = LessThan_offset [OF w] LessThan_offset [OF w(2,1)]
  have rs: "\<forall>x\<in>set rs. seq_offset base (rc_seq_num r) < seq_offset base (rc_seq_num x)"
    and qs: "\<forall>x\<in>set qs. seq_offset base (pp_seq_num q) < seq_offset base (pp_seq_num x)"
    using 1(4,5) by (simp_all add: sorted_by_seq_simps)
  consider "LessThan (rc_seq_num r) (pp_seq_num q)" | "LessThan (pp_seq_num q) (rc_seq_num r)"
    | "rc_seq_num r = pp_seq_num q"
    using lt w seq_offset_inject [of "rc_seq_num r" "pp_seq_num q" base] by (force simp: in_window_def)
  then show ?case
  proof cases
    case 1
    then have "rc_seq_num r \<notin> pp_seq_num ` set (q # qs)" using lt qs by auto
    then show ?thesis using 1 "1.IH"(1) "1.prems" by (simp add: sorted_by_seq_simps)
  next
    case 2
    then have "\<forall>x\<in>set (r # rs). rc_seq_num x \<noteq> pp_seq_num q" using lt rs by auto
    then have "filter (\<lambda>x. rc_seq_num x \<in> pp_seq_num ` set (q # qs)) (r # rs)
        = filter (\<lambda>x. rc_seq_num x \<in> pp_seq_num ` set qs) (r # rs)" by (intro filter_cong) auto
    moreover have "\<not> LessThan (rc_seq_num r) (pp_seq_num q)" using 2 lt by simp
    ultimately show ?thesis using 2 "1.IH"(2) "1.prems" by (simp add: sorted_by_seq_simps del: filter.simps)
  next
    case 3
    then have "\<forall>x\<in>set rs. rc_seq_num x \<noteq> pp_seq_num q" using rs by auto
    then have "filter (\<lambda>x. rc_seq_num x \<in> pp_seq_num ` set (q # qs)) rs
        = filter (\<lambda>x. rc_seq_num x \<in> pp_seq_num ` set qs) rs" by (intro filter_cong) auto
    then show ?thesis using 3 lt "1.IH"(3) "1.prems" by (simp add: sorted_by_seq_simps)
  qed
qed simp_all

definition fill :: "(int \<Rightarrow> Packet option) \<Rightarrow> ProtectedPacket \<Rightarrow> ProtectedPacket" where
  "fill K q = (case K (pp_seq_num q) of None \<Rightarrow> q | Some p \<Rightarrow> q\<lparr>pp_pkt := Some p\<rparr>)"

lemma assign_fill:
  assumes "sorted_by_seq base rc_seq_num rs" "sorted_by_seq base pp_seq_num qs"
    and "rc_seq_num ` set rs \<subseteq> pp_seq_num ` set qs"
  shows "assign_recovered rs qs = Some (map (fill (known rs)) qs)"
  using assms
proof (induction rs qs rule: assign_recovered.induct)
  case (1 qs)
  then show ?case by (simp add: fill_def)
next
  case (2 r rs)
  then show ?case by simp
next
  case (3 r rs q qs)
  have qs: "\<forall>x\<in>set qs. seq_offset base (pp_seq_num q) < seq_offset base (pp_seq_num x)"
    and rs: "\<forall>x\<in>set rs. seq_offset base (rc_seq_num r) < seq_offset base (rc_seq_num x)"
    using "3.prems"(1,2) by (simp_all add: sorted_by_seq_simps)
  show ?case
  proof (cases "pp_seq_num q = rc_seq_num r")
    case False
    then obtain x where "x \<in> set qs" "rc_seq_num r = pp_seq_num x" using "3.prems"(3) by auto
    then have lt: "seq_offset base (pp_seq_num q) < seq_offset base (rc_seq_num r)" using qs by auto
    have "y \<in> set (r # rs) \<Longrightarrow> seq_offset base (pp_seq_num q) < seq_offset base (rc_seq_num y)" for y using lt rs by fastforce
    then have ne: "y \<in> set (r # rs) \<Longrightarrow> rc_seq_num y \<noteq> pp_seq_num q" for y by fastforce
    then have "known (r # rs) (pp_seq_num q) = None" unfolding dom_known by (metis imageE)
    moreover have "rc_seq_num ` set (r # rs) \<subseteq> pp_seq_num ` set qs" using "3.prems"(3) ne by fastforce
    ultimately show ?thesis using "3.IH"(1) [OF False] "3.prems"(1,2) False
      by (simp add: sorted_by_seq_simps fill_def [of _ q])
  next
    case True
    let ?q = "q\<lparr>pp_pkt := Some (rc_pkt r)\<rparr>"
    have "assign_recovered rs (?q # qs) = Some (map (fill (known rs)) (?q # qs))"
      using "3.IH"(2) True "3.prems" by (simp add: sorted_by_seq_simps)
    moreover have none: "known rs (pp_seq_num q) = None" unfolding dom_known using rs True by auto
    moreover have "map (fill (known rs)) qs = map (fill (known (r # rs))) qs"
      using qs True by (intro map_cong) (auto simp: fill_def)
    ultimately show ?thesis using True by (simp add: fill_def)
  qed
qed

lemma sorted_entries: "sorted_by_seq base pkt_seq sel \<Longrightarrow> sorted_by_seq base pp_seq_num (entries K sel)"
  by (simp add: sorted_by_seq_def entries_def sorted_wrt_map)

lemma sorted_filter: "sorted_by_seq base f xs \<Longrightarrow> sorted_by_seq base f (filter P xs)"
  by (induction xs) (auto simp: sorted_by_seq_simps)

lemma known_filter: "P s \<Longrightarrow> known (filter (\<lambda>r. P (rc_seq_num r)) rs) s = known rs s"
  by (induction rs) auto

lemma AssignRecoveredPackets_Some:
  assumes "sorted_by_seq base rc_seq_num rs" "sorted_by_seq base pkt_seq sel"
    and "protected_pkt_list fec = entries (\<lambda>_. None) sel"
  shows "AssignRecoveredPackets rs fec = Some (fec\<lparr>protected_pkt_list := entries (known rs) sel\<rparr>)"
proof -
  let ?q = "entries (\<lambda>_. None) sel" and ?S = "pkt_seq ` set sel"
  let ?rs = "filter (\<lambda>r. rc_seq_num r \<in> ?S) rs"
  have q: "pp_seq_num ` set ?q = ?S" by (simp add: entries_def image_image)
  have sq: "sorted_by_seq base pp_seq_num ?q" using assms(2) by (rule sorted_entries)
  have "set_intersection rs ?q = ?rs" using intersection_filter [OF assms(1) sq] q by simp
  moreover have "assign_recovered ?rs ?q = Some (map (fill (known ?rs)) ?q)"
    using q by (intro assign_fill [OF sorted_filter [OF assms(1)] sq]) auto
  moreover have "map (fill (known ?rs)) ?q = entries (known rs) sel"
    using known_filter [of "\<lambda>s. s \<in> ?S" _ rs] by (auto simp: entries_def fill_def split: option.split)
  ultimately show ?thesis by (simp add: AssignRecoveredPackets_def assms(3))
qed

section \<open>The loop of recoveries ends\<close>

lemma length_erase [simp]: "i < length xs \<Longrightarrow> length (erase i xs) = length xs - 1"
  by (simp add: erase_def)

lemma length_UpdateCovering [simp]: "length (UpdateCoveringFECPackets r fecs) = length fecs"
  by (simp add: UpdateCoveringFECPackets_def)

lemma set_erase: "x \<in> set (erase i xs) \<Longrightarrow> x \<in> set xs"
  by (auto simp: erase_def dest: in_set_takeD in_set_dropD)

lemma set_erase_cases: "i < length xs \<Longrightarrow> set xs = insert (xs ! i) (set (erase i xs))"
  using id_take_nth_drop [of i xs] unfolding erase_def by (metis Suc_eq_plus1 Un_insert_right list.simps(15) set_append)

text \<open>Every recovery and every discarded FEC packet shortens the list, every other step moves the iterator.\<close>

function attempt_total :: "nat \<Rightarrow> FecPacket list \<Rightarrow> RecoveredPacket list
    \<Rightarrow> (FecPacket list \<times> RecoveredPacket list) option" where
  "attempt_total i fecs rs =
     (if i < length fecs
      then if NumCoveredPacketsMissing (fecs ! i) = 1
           then case RecoverPacket (fecs ! i) of
                  None \<Rightarrow> None
                | Some r \<Rightarrow> attempt_total 0 (erase i (UpdateCoveringFECPackets r fecs))
                             (DiscardOldPackets (list_sort rc_seq_num (rs @ [r])))
           else if NumCoveredPacketsMissing (fecs ! i) = 0 then attempt_total i (erase i fecs) rs
           else attempt_total (i + 1) fecs rs
      else Some (fecs, rs))"
  by pat_completeness auto

termination
  by (relation "measures [\<lambda>(i, fecs, rs). length fecs, \<lambda>(i, fecs, rs). length fecs - i]") auto

declare attempt_total.simps [simp del]

lemma attempt_loop_total: "attempt_loop i fecs rs = Some (attempt_total i fecs rs)"
proof (induction i fecs rs rule: attempt_total.induct)
  case (1 i fecs rs)
  show ?case
    apply (subst attempt_loop.simps)
    apply (subst attempt_total.simps)
    using 1 by (simp split: option.split)
qed

text \<open>What is left misses at least two packets; positions before the iterator have been passed.\<close>

lemma attempt_total_left:
  assumes "attempt_total i fecs rs = Some (fecs', rs')" "\<forall>fec\<in>set (take i fecs). NumCoveredPacketsMissing fec = 2"
  shows "\<forall>fec\<in>set fecs'. NumCoveredPacketsMissing fec = 2"
  using assms
proof (induction i fecs rs rule: attempt_total.induct)
  case (1 i fecs rs)
  let ?n = "NumCoveredPacketsMissing (fecs ! i)"
  consider "length fecs \<le> i" | "i < length fecs" "?n = 1" | "i < length fecs" "?n = 0" | "i < length fecs" "?n = 2"
  proof -
    have "?n \<le> 2" by (simp add: NumCoveredPacketsMissing_def)
    then show ?thesis using that by linarith
  qed
  then show ?case
  proof cases
    case 2
    then obtain r where r: "RecoverPacket (fecs ! i) = Some r"
      using "1.prems"(1) by (cases "RecoverPacket (fecs ! i)") (simp_all add: attempt_total.simps [of i fecs rs])
    then show ?thesis using 2 "1.prems"(1) "1.IH"(1) [OF 2 r] by (simp add: attempt_total.simps [of i fecs rs])
  next
    case 3
    moreover have "take i (erase i fecs) = take i fecs" using 3(1) by (simp add: erase_def)
    ultimately show ?thesis using "1.prems" "1.IH"(2) by (simp add: attempt_total.simps [of i fecs rs])
  next
    case 4
    then have "\<forall>fec\<in>set (take (i + 1) fecs). NumCoveredPacketsMissing fec = 2"
      using "1.prems"(2) by (simp add: take_Suc_conv_app_nth)
    then show ?thesis using 4 "1.prems"(1) "1.IH"(3) by (simp add: attempt_total.simps [of i fecs rs])
  qed (use "1.prems" in \<open>simp add: attempt_total.simps [of i fecs rs]\<close>)
qed

section \<open>Properties of the lists\<close>

text \<open>
  C7. The loop of recoveries of \<open>AttemptRecover\<close> ends for every list of FEC packets, although every recovery restarts it,
  and where it ends without an error in memory, every FEC packet that is left misses at least two packets.
\<close>

theorem AttemptRecover_ends:
  "\<exists>r. AttemptRecover fecs rs = Some r
     \<and> (case r of None \<Rightarrow> True | Some (fecs', rs') \<Rightarrow> list_all (\<lambda>fec. NumCoveredPacketsMissing fec = 2) fecs')"
  using attempt_total_left [of 0 fecs rs]
  by (auto simp: AttemptRecover_def attempt_loop_total list_all_iff split: option.split)

text \<open>
  C40. The order of sequence numbers takes two numbers \<open>2\<^sup>1\<^sup>5\<close> apart for equal. When an FEC packet protects the number
  that is \<open>2\<^sup>1\<^sup>5\<close> after the one received packet, the search for the received packet among the protected ones runs
  beyond the end of the list.
\<close>

theorem AssignRecoveredPackets_half_range:
  assumes "is_u16 (rc_seq_num r)" "protected_pkt_list fec = [\<lparr>pp_seq_num = u16 (rc_seq_num r + 0x8000), pp_pkt = None\<rparr>]"
  shows "AssignRecoveredPackets [r] fec = None"
proof -
  let ?s = "rc_seq_num r" and ?t = "u16 (rc_seq_num r + 0x8000)"
  have t: "?t = (if ?s < 32768 then ?s + 32768 else ?s - 32768)"
  proof (cases "?s < 32768")
    case False
    then have "(?s + 32768) mod 65536 = ?s - 32768"
      using assms(1) by (intro int_mod_pos_eq [where q = 1]) (auto simp: is_u16_def)
    then show ?thesis using False by (simp add: u16_def)
  qed (use assms(1) in \<open>simp add: is_u16_def u16_id\<close>)
  have "u16 (?t - ?s) = 32768" "u16 (?s - ?t) = 32768"
    unfolding t by (simp_all add: u16_def)
  then have "\<not> LessThan ?s ?t" "\<not> LessThan ?t ?s" by (simp_all add: LessThan_def IsNewerSequenceNumber_def)
  moreover have "?t \<noteq> ?s" unfolding t by simp
  ultimately show ?thesis by (simp add: AssignRecoveredPackets_def assms(2))
qed

lemma AssignRecoveredPackets_half_range_witness:
  "AssignRecoveredPackets [\<lparr>rc_seq_num = 5, was_recovered = False, returned = True, length_recovery = [],
        rc_pkt = \<lparr>pkt_length = 12, pkt_data = []\<rparr>\<rparr>]
     \<lparr>fp_seq_num = 1, protected_pkt_list = [\<lparr>pp_seq_num = 32773, pp_pkt = None\<rparr>], fp_ssrc = 7,
      fp_pkt = \<lparr>pkt_length = 12, pkt_data = []\<rparr>\<rparr> = None"
  by (rule AssignRecoveredPackets_half_range) (simp_all add: is_u16_def u16_def)

end
