(* ===== verification/Rtp_Fec_Frame.thy ===== *)
theory Rtp_Fec_Frame
  imports Rtp_Fec_Decode
begin

text \<open>
  A frame of media packets with its FEC packets, and what every call of the receiver keeps while packets of the frame
  arrive: everything in the recovered list is a packet of the frame, every stored FEC packet points to exactly the
  packets that are known, and an FEC packet is dropped only when all its packets are known.
\<close>

section \<open>Frames\<close>

text \<open>An FEC packet of a frame: its sequence number, the media packets it protects, the packet.\<close>

type_synonym fec_info = "int \<times> Packet list \<times> Packet"

definition as_received :: "int \<Rightarrow> int \<Rightarrow> Packet \<Rightarrow> ReceivedPacket" where
  "as_received s ssrc f = \<lparr>rx_seq_num = s, rx_ssrc = ssrc, is_fec = True, rx_pkt = f\<rparr>"

definition fec_info_ok :: "bool \<Rightarrow> int \<Rightarrow> Packet list \<Rightarrow> fec_info \<Rightarrow> bool" where
  "fec_info_ok l ssrc media = (\<lambda>(s, sel, f). sel \<noteq> [] \<and> set sel \<subseteq> set media
     \<and> sorted_by_seq (pkt_seq (hd media)) pkt_seq sel \<and> (\<exists>row. is_fec_of l sel (hd media) row f)
     \<and> protected_pkt_list (parse_fec (as_received s ssrc f)) = entries (\<lambda>_. None) sel)"

definition fec_frame :: "bool \<Rightarrow> int \<Rightarrow> Packet list \<Rightarrow> fec_info set \<Rightarrow> bool" where
  "fec_frame l ssrc media U \<longleftrightarrow>
     sorted_by_seq (pkt_seq (hd media)) pkt_seq media \<and> length media < kMaxMediaPackets
     \<and> Ball (set media) (\<lambda>p. fits l p \<and> rtp_packet p \<and> rtp_ssrc p = ssrc)
     \<and> finite U \<and> card (fst ` U) \<le> kMaxFecPackets \<and> inj_on fst U \<and> Ball U (fec_info_ok l ssrc media)"

definition rs_ok :: "Packet list \<Rightarrow> RecoveredPacket list \<Rightarrow> bool" where
  "rs_ok media rs \<longleftrightarrow> sorted_by_seq (pkt_seq (hd media)) rc_seq_num rs
     \<and> (\<forall>r\<in>set rs. \<exists>p\<in>set media. rc_seq_num r = pkt_seq p \<and> same_packet (rc_pkt r) p)"

definition fec_ok :: "fec_info set \<Rightarrow> int \<Rightarrow> (int \<Rightarrow> Packet option) \<Rightarrow> FecPacket \<Rightarrow> bool" where
  "fec_ok U ssrc K fec \<longleftrightarrow> (\<exists>sel. (fp_seq_num fec, sel, fp_pkt fec) \<in> U \<and> fp_ssrc fec = ssrc
     \<and> protected_pkt_list fec = entries K sel)"

definition all_known :: "(int \<Rightarrow> Packet option) \<Rightarrow> Packet list \<Rightarrow> bool" where
  "all_known K sel \<longleftrightarrow> (\<forall>p\<in>set sel. K (pkt_seq p) \<noteq> None)"

text \<open>The FEC packets seen so far are stored or of no more use.\<close>

definition seen_ok :: "fec_info set \<Rightarrow> (int \<Rightarrow> Packet option) \<Rightarrow> FecPacket list \<Rightarrow> bool" where
  "seen_ok F K fecs \<longleftrightarrow> (\<forall>(s, sel, f)\<in>F. s \<in> fp_seq_num ` set fecs \<or> all_known K sel)"

definition grows :: "(int \<Rightarrow> Packet option) \<Rightarrow> (int \<Rightarrow> Packet option) \<Rightarrow> bool" where
  "grows K K' \<longleftrightarrow> (\<forall>s. K s \<noteq> None \<longrightarrow> K' s \<noteq> None)"

lemma frame_basic:
  assumes "fec_frame l ssrc media U"
  shows "sorted_by_seq (pkt_seq (hd media)) pkt_seq media" "length media < kMaxMediaPackets"
    "finite U" "card (fst ` U) \<le> kMaxFecPackets" "inj_on fst U"
  using assms by (simp_all only: fec_frame_def)

lemma frame_packet:
  assumes "fec_frame l ssrc media U" "p \<in> set media"
  shows "fits l p \<and> rtp_packet p \<and> rtp_ssrc p = ssrc"
proof -
  have "Ball (set media) (\<lambda>p. fits l p \<and> rtp_packet p \<and> rtp_ssrc p = ssrc)"
    using assms(1) unfolding fec_frame_def by (elim conjE)
  then show ?thesis using assms(2) by (rule bspec)
qed

lemma frame_fec:
  assumes "fec_frame l ssrc media U" "(s, sel, f) \<in> U"
  shows "sel \<noteq> []" "set sel \<subseteq> set media" "sorted_by_seq (pkt_seq (hd media)) pkt_seq sel"
    "\<exists>row. is_fec_of l sel (hd media) row f"
    "protected_pkt_list (parse_fec (as_received s ssrc f)) = entries (\<lambda>_. None) sel"
proof -
  have "Ball U (fec_info_ok l ssrc media)" using assms(1) unfolding fec_frame_def by (elim conjE)
  from bspec [OF this assms(2)]
  show "sel \<noteq> []" "set sel \<subseteq> set media" "sorted_by_seq (pkt_seq (hd media)) pkt_seq sel"
    "\<exists>row. is_fec_of l sel (hd media) row f"
    "protected_pkt_list (parse_fec (as_received s ssrc f)) = entries (\<lambda>_. None) sel"
    by (simp_all only: fec_info_ok_def split_conv simp_thms)
qed

lemma frame_fec_unique:
  "fec_frame l ssrc media U \<Longrightarrow> (s, sel, f) \<in> U \<Longrightarrow> (s, sel', f') \<in> U \<Longrightarrow> sel = sel' \<and> f = f'"
  using inj_onD [OF frame_basic(5), of l ssrc media U "(s, sel, f)" "(s, sel', f')"] by simp

section \<open>The list of recovered packets\<close>

lemma pkt_seq_inject:
  assumes "fec_frame l ssrc media U" "p \<in> set media" "q \<in> set media" "pkt_seq p = pkt_seq q"
  shows "p = q"
proof -
  have "inj_on pkt_seq (set media)"
    using sorted_distinct [OF frame_basic(1) [OF assms(1)]] unfolding distinct_map by simp
  then show ?thesis using assms(2-4) by (auto dest: inj_onD)
qed

lemma frame_window:
  assumes "fec_frame l ssrc media U" "p \<in> set media"
  shows "in_window (pkt_seq (hd media)) (pkt_seq p)"
  using frame_basic(1) [OF assms(1)] assms(2) by (simp add: sorted_by_seq_def)

lemma known_frame:
  assumes "fec_frame l ssrc media U" "rs_ok media rs" "p \<in> set media" "known rs (pkt_seq p) = Some p'"
  shows "same_packet p' p"
proof -
  obtain r where "r \<in> set rs" "rc_seq_num r = pkt_seq p" "rc_pkt r = p'" using known_Some [OF assms(4)] by auto
  moreover from this obtain q where "q \<in> set media" "rc_seq_num r = pkt_seq q" "same_packet (rc_pkt r) q"
    using assms(2) by (auto simp: rs_ok_def)
  ultimately show ?thesis using pkt_seq_inject [OF assms(1,3), of q] by simp
qed

lemma rs_length:
  assumes "fec_frame l ssrc media U" "rs_ok media rs"
  shows "length rs \<le> length media" "DiscardOldPackets rs = rs"
proof -
  have "length rs = card (rc_seq_num ` set rs)"
    using assms(2) sorted_distinct [of _ rc_seq_num rs] by (metis distinct_card length_map list.set_map rs_ok_def)
  also have "\<dots> \<le> card (pkt_seq ` set media)" using assms(2) by (intro card_mono) (auto simp: rs_ok_def)
  also have "\<dots> \<le> length media" by (metis card_image_le card_length List.finite_set order_trans)
  finally show "length rs \<le> length media" .
  then show "DiscardOldPackets rs = rs" using frame_basic(2) [OF assms(1)] by (simp add: DiscardOldPackets_def)
qed

lemma insert_known:
  assumes "fec_frame l ssrc media U" "rs_ok media rs" "p \<in> set media" "rc_seq_num r = pkt_seq p"
    and "same_packet (rc_pkt r) p" "known rs (pkt_seq p) = None"
  shows "rs_ok media (list_sort rc_seq_num (rs @ [r]))"
    "known (list_sort rc_seq_num (rs @ [r])) = (known rs)(pkt_seq p \<mapsto> rc_pkt r)"
proof -
  have w: "\<forall>x\<in>set (rs @ [r]). in_window (pkt_seq (hd media)) (rc_seq_num x)"
    using assms(2,4) frame_window [OF assms(1,3)] by (auto simp: rs_ok_def sorted_by_seq_def)
  have d: "distinct (map rc_seq_num (rs @ [r]))"
    using assms(2,4,6) sorted_distinct [of _ rc_seq_num rs] by (auto simp: rs_ok_def dom_known)
  show "rs_ok media (list_sort rc_seq_num (rs @ [r]))"
    using assms(2-5) sorted_list_sort [OF w d] by (auto simp: rs_ok_def)
  show "known (list_sort rc_seq_num (rs @ [r])) = (known rs)(pkt_seq p \<mapsto> rc_pkt r)"
    using known_sort [OF d w] assms(4) by simp
qed

section \<open>One recovery\<close>

lemma entries_append: "entries K (ps @ q # qs) = entries K ps @ \<lparr>pp_seq_num = pkt_seq q, pp_pkt = K (pkt_seq q)\<rparr> # entries K qs"
  by (simp add: entries_def)

lemma entries_hold:
  assumes "fec_frame l ssrc media U" "rs_ok media rs" "set ps \<subseteq> set media" "all_known (known rs) ps"
  shows "list_all2 holds_packet (entries (known rs) ps) ps"
proof -
  have "holds_packet \<lparr>pp_seq_num = pkt_seq p, pp_pkt = known rs (pkt_seq p)\<rparr> p" if "p \<in> set ps" for p
    using that assms(3,4) known_frame [OF assms(1,2), of p] by (auto simp: holds_packet_def all_known_def split: option.split)
  then show ?thesis by (auto simp: entries_def list_all2_map1 intro: list_all2_refl [THEN list.rel_mono_strong] list.rel_refl_strong)
qed

lemma one_missing:
  assumes "NumCoveredPacketsMissing fec = 1" "protected_pkt_list fec = entries K sel"
  obtains ps q qs where "sel = ps @ q # qs" "K (pkt_seq q) = None" "all_known K ps" "all_known K qs"
proof -
  have "length (filter (\<lambda>p. K (pkt_seq p) = None) sel) = 1"
    using assms by (simp add: NumCoveredPacketsMissing_def entries_def filter_map o_def min_def split: if_splits)
  then obtain q where "filter (\<lambda>p. K (pkt_seq p) = None) sel = [q]" by (auto simp: length_Suc_conv)
  then obtain ps qs where "sel = ps @ q # qs" "\<forall>p\<in>set ps. K (pkt_seq p) \<noteq> None" "K (pkt_seq q) = None"
      and e: "[] = filter (\<lambda>p. K (pkt_seq p) = None) qs"
    unfolding filter_eq_Cons_iff by blast
  moreover have "all_known K qs" using e [symmetric] by (simp add: all_known_def filter_empty_conv)
  ultimately show ?thesis using that [of ps q qs] by (simp add: all_known_def)
qed

lemma same_zero_padded: "fits l q \<Longrightarrow> same_packet (zero_padded q) q"
  by (auto simp: same_packet_def zero_padded_def fits_def)

lemma recover_one:
  assumes frame: "fec_frame l ssrc media U" and rs: "rs_ok media rs" and fec: "fec_ok U ssrc (known rs) fec"
    and one: "NumCoveredPacketsMissing fec = 1"
  obtains q sel where "RecoverPacket fec = Some (recovered_packet q)" "q \<in> set media" "known rs (pkt_seq q) = None"
    "(fp_seq_num fec, sel, fp_pkt fec) \<in> U" "all_known ((known rs)(pkt_seq q \<mapsto> zero_padded q)) sel"
proof -
  obtain sel where sel: "(fp_seq_num fec, sel, fp_pkt fec) \<in> U" "fp_ssrc fec = ssrc"
      "protected_pkt_list fec = entries (known rs) sel"
    using fec by (auto simp: fec_ok_def)
  obtain ps q qs where split: "sel = ps @ q # qs" "known rs (pkt_seq q) = None" "all_known (known rs) ps" "all_known (known rs) qs"
    using one_missing [OF one sel(3)] .
  have "set sel \<subseteq> set media" using frame_fec(2) [OF frame sel(1)] .
  then have sub: "set ps \<subseteq> set media" "set qs \<subseteq> set media" "q \<in> set media" using split(1) by auto
  obtain row where f: "is_fec_of l sel (hd media) row (fp_pkt fec)" using frame_fec(4) [OF frame sel(1)] by blast
  have "\<forall>p\<in>set sel. fits l p \<and> rtp_packet p" using frame_packet [OF frame] \<open>set sel \<subseteq> set media\<close> by blast
  moreover have "protected_pkt_list fec = entries (known rs) ps @ missing_packet q # entries (known rs) qs"
    using split(2) by (simp add: sel(3) split(1) entries_append missing_packet_def)
  moreover have "fp_ssrc fec = rtp_ssrc q" using frame_packet [OF frame sub(3)] sel(2) by simp
  ultimately have "RecoverPacket fec = Some (recovered_packet q)"
    using recover_missing [OF split(1) _ f] entries_hold [OF frame rs sub(1) split(3)]
      entries_hold [OF frame rs sub(2) split(4)] by blast
  moreover have "all_known ((known rs)(pkt_seq q \<mapsto> zero_padded q)) sel"
    using split by (auto simp: all_known_def)
  ultimately show ?thesis using that sub(3) split(2) sel(1) by blast
qed

section \<open>The loop of recoveries\<close>

definition stored_ok :: "fec_info set \<Rightarrow> int \<Rightarrow> fec_info set \<Rightarrow> (int \<Rightarrow> Packet option) \<Rightarrow> FecPacket list \<Rightarrow> bool" where
  "stored_ok U ssrc F K fecs \<longleftrightarrow> (\<forall>fec\<in>set fecs. fec_ok U ssrc K fec) \<and> distinct (map fp_seq_num fecs) \<and> seen_ok F K fecs"

lemma seen_ok_mono:
  assumes "seen_ok F K fecs" "grows K K'" "fp_seq_num ` set fecs = fp_seq_num ` set fecs'"
  shows "seen_ok F K' fecs'"
proof -
  have "all_known K' sel" if "all_known K sel" for sel using that assms(2) by (auto simp: all_known_def grows_def)
  then show ?thesis using assms(1,3) by (auto simp: seen_ok_def)
qed

lemma stored_update:
  assumes frame: "fec_frame l ssrc media U" and ok: "stored_ok U ssrc F K fecs"
    and r: "rc_seq_num r = pkt_seq q" "q \<in> set media"
  shows "stored_ok U ssrc F (K(pkt_seq q \<mapsto> rc_pkt r)) (UpdateCoveringFECPackets r fecs)"
proof -
  let ?K = "K(pkt_seq q \<mapsto> rc_pkt r)"
  have upd: "fec_ok U ssrc ?K (fec\<lparr>protected_pkt_list := cover_protected (pkt_seq q) (rc_pkt r) (protected_pkt_list fec)\<rparr>)"
    if "fec_ok U ssrc K fec" for fec
  proof -
    obtain sel where "(fp_seq_num fec, sel, fp_pkt fec) \<in> U" "fp_ssrc fec = ssrc" "protected_pkt_list fec = entries K sel"
      using \<open>fec_ok U ssrc K fec\<close> by (auto simp: fec_ok_def)
    moreover from this have "cover_protected (pkt_seq q) (rc_pkt r) (protected_pkt_list fec) = entries ?K sel"
      using cover_entries [OF frame_fec(3) [OF frame] frame_window [OF frame r(2)]] by simp
    ultimately show ?thesis by (auto simp: fec_ok_def)
  qed
  have "map fp_seq_num (UpdateCoveringFECPackets r fecs) = map fp_seq_num fecs"
    by (simp add: UpdateCoveringFECPackets_def)
  then have "distinct (map fp_seq_num (UpdateCoveringFECPackets r fecs))" using ok by (simp add: stored_ok_def)
  moreover have "seen_ok F ?K (UpdateCoveringFECPackets r fecs)"
  proof (rule seen_ok_mono [of F K fecs])
    show "seen_ok F K fecs" using ok by (simp add: stored_ok_def)
    show "grows K ?K" by (simp add: grows_def)
    show "fp_seq_num ` set fecs = fp_seq_num ` set (UpdateCoveringFECPackets r fecs)"
      by (simp add: UpdateCoveringFECPackets_def image_image)
  qed
  moreover have "\<forall>fec\<in>set (UpdateCoveringFECPackets r fecs). fec_ok U ssrc ?K fec"
  proof
    fix fec assume "fec \<in> set (UpdateCoveringFECPackets r fecs)"
    then obtain x where x: "x \<in> set fecs" "fec = x\<lparr>protected_pkt_list :=
        cover_protected (pkt_seq q) (rc_pkt r) (protected_pkt_list x)\<rparr>"
      by (auto simp: UpdateCoveringFECPackets_def r(1))
    have "fec_ok U ssrc K x" using ok x(1) by (simp add: stored_ok_def)
    then show "fec_ok U ssrc ?K fec" unfolding x(2) by (rule upd)
  qed
  ultimately show ?thesis unfolding stored_ok_def by simp
qed

lemma stored_erase:
  assumes frame: "fec_frame l ssrc media U" and ok: "stored_ok U ssrc F K fecs" and F: "F \<subseteq> U"
    and i: "i < length fecs" "(fp_seq_num (fecs ! i), sel, f) \<in> U" "all_known K sel"
  shows "stored_ok U ssrc F K (erase i fecs)"
proof -
  have "s \<in> fp_seq_num ` set (erase i fecs) \<or> all_known K sel'" if x: "(s, sel', f') \<in> F" for s sel' f'
  proof (cases "s = fp_seq_num (fecs ! i)")
    case True
    then have "sel' = sel" using frame_fec_unique [OF frame] x F i(2) by blast
    then show ?thesis using i(3) by simp
  next
    case False
    have "s \<in> fp_seq_num ` set fecs \<or> all_known K sel'" using ok x by (auto simp: stored_ok_def seen_ok_def)
    then show ?thesis using set_erase_cases [OF i(1)] False by auto
  qed
  moreover have "distinct (map fp_seq_num (erase i fecs))"
  proof -
    have "map fp_seq_num (erase i fecs) = erase i (map fp_seq_num fecs)" by (simp add: erase_def take_map drop_map)
    moreover have "distinct (erase i xs)" if "distinct xs" for xs :: "int list"
      using that set_take_disj_set_drop_if_distinct [OF that, of i "i + 1"]
      by (simp add: erase_def)
    ultimately show ?thesis using ok by (simp add: stored_ok_def)
  qed
  ultimately show ?thesis using ok by (auto simp: stored_ok_def seen_ok_def dest: set_erase)
qed

lemma none_missing:
  "NumCoveredPacketsMissing fec = 0 \<Longrightarrow> protected_pkt_list fec = entries K sel \<Longrightarrow> all_known K sel"
  by (simp add: NumCoveredPacketsMissing_def entries_def filter_map o_def all_known_def filter_empty_conv min_def split: if_splits)

lemma grows_trans: "grows K K' \<Longrightarrow> grows K' K'' \<Longrightarrow> grows K K''"
  by (simp add: grows_def)

lemma attempt_total_ok:
  assumes "fec_frame l ssrc media U" "F \<subseteq> U" "rs_ok media rs" "stored_ok U ssrc F (known rs) fecs"
  shows "\<exists>fecs' rs'. attempt_total i fecs rs = Some (fecs', rs') \<and> rs_ok media rs'
     \<and> stored_ok U ssrc F (known rs') fecs' \<and> grows (known rs) (known rs')"
  using assms(3,4)
proof (induction i fecs rs rule: attempt_total.induct)
  case (1 i fecs rs)
  note frame = assms(1)
  let ?n = "NumCoveredPacketsMissing (fecs ! i)"
  consider "length fecs \<le> i" | "i < length fecs" "?n = 1" | "i < length fecs" "?n = 0" | "i < length fecs" "?n \<noteq> 1" "?n \<noteq> 0"
    by linarith
  then show ?case
  proof cases
    case 2
    have fec: "fec_ok U ssrc (known rs) (fecs ! i)" using "1.prems"(2) 2 by (simp add: stored_ok_def)
    obtain q sel where r: "RecoverPacket (fecs ! i) = Some (recovered_packet q)" "q \<in> set media" "known rs (pkt_seq q) = None"
        "(fp_seq_num (fecs ! i), sel, fp_pkt (fecs ! i)) \<in> U" "all_known ((known rs)(pkt_seq q \<mapsto> zero_padded q)) sel"
      using recover_one [OF frame "1.prems"(1) fec 2(2)] .
    let ?r = "recovered_packet q" and ?rs = "list_sort rc_seq_num (rs @ [recovered_packet q])"
    have rp: "rc_seq_num ?r = pkt_seq q" "rc_pkt ?r = zero_padded q" by (simp_all add: recovered_packet_def)
    have same: "same_packet (rc_pkt ?r) q" using same_zero_padded frame_packet [OF frame r(2)] rp(2) by metis
    note new = insert_known [OF frame "1.prems"(1) r(2) rp(1) same r(3)]
    have "stored_ok U ssrc F (known ?rs) (UpdateCoveringFECPackets ?r fecs)"
      using stored_update [OF frame "1.prems"(2) rp(1) r(2)] new(2) by simp
    moreover have "fp_seq_num (UpdateCoveringFECPackets ?r fecs ! i) = fp_seq_num (fecs ! i)"
      using 2(1) by (simp add: UpdateCoveringFECPackets_def)
    ultimately have st: "stored_ok U ssrc F (known ?rs) (erase i (UpdateCoveringFECPackets ?r fecs))"
      using stored_erase [OF frame _ assms(2)] 2(1) r(4,5) new(2) rp(2) by simp
    have g: "grows (known rs) (known ?rs)" by (simp add: new(2) grows_def)
    have d: "DiscardOldPackets ?rs = ?rs" using rs_length(2) [OF frame new(1)] .
    obtain fecs' rs' where "attempt_total 0 (erase i (UpdateCoveringFECPackets ?r fecs)) ?rs = Some (fecs', rs')"
        "rs_ok media rs'" "stored_ok U ssrc F (known rs') fecs'" "grows (known ?rs) (known rs')"
      using "1.IH"(1) [OF 2 r(1), unfolded d, OF new(1) st] by blast
    moreover from this(1) have "attempt_total i fecs rs = Some (fecs', rs')"
      using 2 r(1) unfolding attempt_total.simps [of i fecs rs] by (simp add: d)
    ultimately show ?thesis using grows_trans [OF g] by blast
  next
    case 3
    obtain sel where sel: "(fp_seq_num (fecs ! i), sel, fp_pkt (fecs ! i)) \<in> U" "protected_pkt_list (fecs ! i) = entries (known rs) sel"
      using "1.prems"(2) nth_mem [OF 3(1)] unfolding stored_ok_def fec_ok_def by blast
    have "stored_ok U ssrc F (known rs) (erase i fecs)"
      using stored_erase [OF frame "1.prems"(2) assms(2) 3(1) sel(1)] none_missing [OF 3(2) sel(2)] .
    then show ?thesis using "1.IH"(2) 3 "1.prems"(1) unfolding attempt_total.simps [of i fecs rs] by simp
  next
    case 4
    then show ?thesis using "1.IH"(3) "1.prems" unfolding attempt_total.simps [of i fecs rs] by simp
  qed (use "1.prems" in \<open>simp add: attempt_total.simps [of i fecs rs] grows_def\<close>)
qed

section \<open>Insertion\<close>

definition genuine :: "int \<Rightarrow> Packet list \<Rightarrow> fec_info set \<Rightarrow> ReceivedPacket \<Rightarrow> bool" where
  "genuine ssrc media U rx \<longleftrightarrow>
     (if is_fec rx then rx_ssrc rx = ssrc \<and> (\<exists>sel. (rx_seq_num rx, sel, rx_pkt rx) \<in> U)
      else \<exists>p\<in>set media. rx_seq_num rx = pkt_seq p \<and> same_packet (rx_pkt rx) p)"

text \<open>No two sequence numbers of the frame are so far apart that the receiver would drop an FEC packet as old.\<close>

definition close_seqs :: "Packet list \<Rightarrow> fec_info set \<Rightarrow> bool" where
  "close_seqs media U \<longleftrightarrow> (\<forall>s \<in> fst ` U \<union> pkt_seq ` set media. \<forall>t \<in> fst ` U. \<bar>s - t\<bar> \<le> 0x3fff)"

definition fecs_of :: "fec_info set \<Rightarrow> ReceivedPacket list \<Rightarrow> fec_info set" where
  "fecs_of U rxs = {x \<in> U. \<exists>rx\<in>set rxs. is_fec rx \<and> rx_seq_num rx = fst x}"

lemma fecs_of_Cons: "fecs_of U (rx # rxs) = fecs_of U [rx] \<union> fecs_of U rxs"
  by (auto simp: fecs_of_def)

lemma genuine_seq: "genuine ssrc media U rx \<Longrightarrow> rx_seq_num rx \<in> fst ` U \<union> pkt_seq ` set media"
  by (cases "is_fec rx") (force simp: genuine_def, auto simp: genuine_def)

lemma stored_seq: "stored_ok U ssrc F K fecs \<Longrightarrow> fec \<in> set fecs \<Longrightarrow> fp_seq_num fec \<in> fst ` U"
  by (force simp: stored_ok_def fec_ok_def)

lemma drop_old_same:
  assumes "close_seqs media U" "genuine ssrc media U rx" "stored_ok U ssrc F K fecs"
  shows "drop_old_fec (rx_seq_num rx) fecs = fecs"
proof (cases fecs)
  case (Cons fec fs)
  have "\<bar>rx_seq_num rx - fp_seq_num fec\<bar> \<le> 0x3fff"
    using bspec [OF bspec [OF assms(1) [unfolded close_seqs_def] genuine_seq [OF assms(2)]] stored_seq [OF assms(3)]] Cons
    by simp
  then have "u16 \<bar>rx_seq_num rx - fp_seq_num fec\<bar> \<le> 0x3fff" by (simp add: u16_id)
  then show ?thesis using Cons by (simp add: drop_old_fec_def)
qed (simp add: drop_old_fec_def)

lemma stored_length:
  assumes "fec_frame l ssrc media U" "stored_ok U ssrc F K fecs"
  shows "length fecs \<le> kMaxFecPackets"
proof -
  have "length fecs = card (fp_seq_num ` set fecs)"
    using assms(2) distinct_card [of "map fp_seq_num fecs"] by (simp add: stored_ok_def)
  also have "\<dots> \<le> card (fst ` U)"
    using frame_basic(3) [OF assms(1)] stored_seq [OF assms(2)] by (intro card_mono) auto
  also have "\<dots> \<le> kMaxFecPackets" using frame_basic(4) [OF assms(1)] .
  finally show ?thesis .
qed

lemma sort_distinct:
  assumes "distinct (map f (xs @ [x]))"
  shows "distinct (map f (list_sort f (xs @ [x])))"
proof -
  have "card (set (map f (list_sort f (xs @ [x])))) = length (map f (list_sort f (xs @ [x])))"
    using distinct_card [OF assms] by simp
  then show ?thesis by (rule card_distinct)
qed

lemma insert_fec_ok:
  assumes frame: "fec_frame l ssrc media U" and rs: "rs_ok media rs" and st: "stored_ok U ssrc F (known rs) fecs"
    and F: "F \<subseteq> U" and rx: "genuine ssrc media U rx" "is_fec rx"
  shows "\<exists>fecs'. InsertFECPacket rx fecs rs = Some fecs' \<and> stored_ok U ssrc (F \<union> fecs_of U [rx]) (known rs) fecs'"
proof -
  obtain sel where sel: "(rx_seq_num rx, sel, rx_pkt rx) \<in> U" "rx_ssrc rx = ssrc" using rx by (auto simp: genuine_def)
  let ?s = "rx_seq_num rx"
  have new: "fecs_of U [rx] = {(?s, sel, rx_pkt rx)}"
  proof -
    have u: "x = (?s, sel, rx_pkt rx)" if "x \<in> U" "fst x = ?s" for x
      using inj_onD [OF frame_basic(5) [OF frame] _ that(1) sel(1)] that(2) by simp
    show ?thesis
    proof (intro equalityI subsetI)
      fix x assume "x \<in> fecs_of U [rx]"
      then have "x \<in> U" "fst x = ?s" by (simp_all add: fecs_of_def)
      then have "x = (?s, sel, rx_pkt rx)" by (rule u)
      then show "x \<in> {(?s, sel, rx_pkt rx)}" by simp
    next
      fix x assume "x \<in> {(?s, sel, rx_pkt rx)}"
      then show "x \<in> fecs_of U [rx]" using sel(1) rx(2) by (simp add: fecs_of_def)
    qed
  qed
  have parse: "protected_pkt_list (parse_fec rx) = entries (\<lambda>_. None) sel"
    using frame_fec(5) [OF frame sel(1)] sel(2) by (simp add: parse_fec_def as_received_def Let_def)
  show ?thesis
  proof (cases "?s \<in> fp_seq_num ` set fecs")
    case True
    then have "list_ex (\<lambda>f. ?s = fp_seq_num f) fecs" unfolding list_ex_iff by blast
    moreover have "stored_ok U ssrc (F \<union> fecs_of U [rx]) (known rs) fecs"
      using st True by (simp add: new stored_ok_def seen_ok_def)
    ultimately show ?thesis by (simp add: InsertFECPacket_def)
  next
    case False
    then have dup: "\<not> list_ex (\<lambda>f. ?s = fp_seq_num f) fecs" unfolding list_ex_iff by blast
    let ?fec = "(parse_fec rx)\<lparr>protected_pkt_list := entries (known rs) sel\<rparr>"
    let ?fecs = "list_sort fp_seq_num (fecs @ [?fec])"
    have fields: "fp_seq_num ?fec = ?s" "fp_pkt ?fec = rx_pkt rx" "fp_ssrc ?fec = ssrc"
      using sel(2) by (simp_all add: parse_fec_def Let_def)
    have "AssignRecoveredPackets rs (parse_fec rx) = Some ?fec"
      using AssignRecoveredPackets_Some [OF _ frame_fec(3) [OF frame sel(1)] parse] rs unfolding rs_ok_def by blast
    moreover have "protected_pkt_list (parse_fec rx) \<noteq> []" using parse frame_fec(1) [OF frame sel(1)] by (simp add: entries_def)
    moreover have st': "stored_ok U ssrc (F \<union> fecs_of U [rx]) (known rs) ?fecs"
    proof -
      have "fec_ok U ssrc (known rs) ?fec" unfolding fec_ok_def fields using sel(1) by auto
      moreover have "distinct (map fp_seq_num ?fecs)"
        using st False fields(1) by (intro sort_distinct) (auto simp: stored_ok_def)
      moreover have "seen_ok (F \<union> fecs_of U [rx]) (known rs) ?fecs"
        using st fields(1) by (auto simp: stored_ok_def seen_ok_def new)
      ultimately show ?thesis using st unfolding stored_ok_def by auto
    qed
    moreover have "length ?fecs \<le> kMaxFecPackets" using stored_length [OF frame st'] .
    ultimately show ?thesis using dup by (simp add: InsertFECPacket_def Let_def)
  qed
qed

lemma insert_media_ok:
  assumes frame: "fec_frame l ssrc media U" and rs: "rs_ok media rs" and st: "stored_ok U ssrc F (known rs) fecs"
    and rx: "genuine ssrc media U rx" "\<not> is_fec rx"
  shows "\<exists>fecs' rs'. InsertMediaPacket rx fecs rs = (fecs', rs') \<and> rs_ok media rs' \<and> stored_ok U ssrc F (known rs') fecs'
     \<and> grows (known rs) (known rs') \<and> known rs' (rx_seq_num rx) \<noteq> None"
proof -
  obtain p where p: "p \<in> set media" "rx_seq_num rx = pkt_seq p" "same_packet (rx_pkt rx) p"
    using rx by (auto simp: genuine_def)
  have ex: "list_ex (\<lambda>r. rx_seq_num rx = rc_seq_num r) rs \<longleftrightarrow> known rs (rx_seq_num rx) \<noteq> None"
    by (auto simp: list_ex_iff dom_known)
  show ?thesis
  proof (cases "known rs (rx_seq_num rx) = None")
    case True
    let ?r = "\<lparr>rc_seq_num = rx_seq_num rx, was_recovered = False, returned = True, length_recovery = [], rc_pkt = rx_pkt rx\<rparr>"
    have r: "rc_seq_num ?r = pkt_seq p" "same_packet (rc_pkt ?r) p" "known rs (pkt_seq p) = None"
      using p True by simp_all
    note new = insert_known [OF frame rs p(1) r]
    have "stored_ok U ssrc F (known (list_sort rc_seq_num (rs @ [?r]))) (UpdateCoveringFECPackets ?r fecs)"
      unfolding new(2) by (rule stored_update [OF frame st r(1) p(1)])
    then show ?thesis using new ex True p(2) by (simp add: InsertMediaPacket_def Let_def grows_def)
  next
    case False
    then show ?thesis using ex rs st by (simp add: InsertMediaPacket_def grows_def)
  qed
qed

lemma insert_packets_ok:
  assumes "fec_frame l ssrc media U" "close_seqs media U" "F \<subseteq> U" "rs_ok media rs"
    and "stored_ok U ssrc F (known rs) (fec_packet_list st)" "\<forall>rx\<in>set rxs. genuine ssrc media U rx"
  shows "\<exists>st' rs'. insert_packets rxs st rs = Some (st', rs') \<and> rs_ok media rs'
     \<and> stored_ok U ssrc (F \<union> fecs_of U rxs) (known rs') (fec_packet_list st') \<and> grows (known rs) (known rs')
     \<and> (\<forall>rx\<in>set rxs. \<not> is_fec rx \<longrightarrow> known rs' (rx_seq_num rx) \<noteq> None)"
  using assms(3-6)
proof (induction rxs arbitrary: F st rs)
  case Nil
  then show ?case by (auto simp: fecs_of_def grows_def)
next
  case (Cons rx rxs)
  note frame = assms(1)
  have g: "genuine ssrc media U rx" "\<forall>rx\<in>set rxs. genuine ssrc media U rx" using Cons.prems(4) by simp_all
  have d: "drop_old_fec (rx_seq_num rx) (fec_packet_list st) = fec_packet_list st"
    using drop_old_same [OF assms(2) g(1) Cons.prems(3)] .
  show ?case
  proof (cases "is_fec rx")
    case True
    obtain fecs' where f: "InsertFECPacket rx (fec_packet_list st) rs = Some fecs'"
        "stored_ok U ssrc (F \<union> fecs_of U [rx]) (known rs) fecs'"
      using insert_fec_ok [OF frame Cons.prems(2,3,1) g(1) True] by blast
    let ?st = "st\<lparr>fec_packet_list := fecs', fec_packet_received := True\<rparr>"
    have "F \<union> fecs_of U [rx] \<subseteq> U" using Cons.prems(1) by (auto simp: fecs_of_def)
    moreover have "stored_ok U ssrc (F \<union> fecs_of U [rx]) (known rs) (fec_packet_list ?st)" using f(2) by simp
    ultimately obtain st' rs' where r: "insert_packets rxs ?st rs = Some (st', rs')" "rs_ok media rs'"
        "stored_ok U ssrc (F \<union> fecs_of U [rx] \<union> fecs_of U rxs) (known rs') (fec_packet_list st')"
        "grows (known rs) (known rs')" "\<forall>rx\<in>set rxs. \<not> is_fec rx \<longrightarrow> known rs' (rx_seq_num rx) \<noteq> None"
      using Cons.IH [OF _ Cons.prems(2) _ g(2)] by blast
    have "insert_packets (rx # rxs) st rs = Some (st', rs')" using r(1) f(1) True by (simp add: d Let_def)
    then show ?thesis using r True fecs_of_Cons [of U rx rxs] by (simp add: Un_assoc)
  next
    case False
    obtain fecs1 rs1 where m: "InsertMediaPacket rx (fec_packet_list st) rs = (fecs1, rs1)" "rs_ok media rs1"
        "stored_ok U ssrc F (known rs1) fecs1" "grows (known rs) (known rs1)" "known rs1 (rx_seq_num rx) \<noteq> None"
      using insert_media_ok [OF frame Cons.prems(2,3) g(1) False] by blast
    let ?st = "st\<lparr>fec_packet_list := fecs1\<rparr>"
    have "stored_ok U ssrc F (known rs1) (fec_packet_list ?st)" using m(3) by simp
    then obtain st' rs' where r: "insert_packets rxs ?st rs1 = Some (st', rs')" "rs_ok media rs'"
        "stored_ok U ssrc (F \<union> fecs_of U rxs) (known rs') (fec_packet_list st')"
        "grows (known rs1) (known rs')" "\<forall>rx\<in>set rxs. \<not> is_fec rx \<longrightarrow> known rs' (rx_seq_num rx) \<noteq> None"
      using Cons.IH [OF Cons.prems(1) m(2) _ g(2)] by blast
    have "insert_packets (rx # rxs) st rs = Some (st', rs')" using r(1) m(1) False by (simp add: d Let_def)
    moreover have "fecs_of U (rx # rxs) = fecs_of U rxs" using False by (auto simp: fecs_of_def)
    moreover have "known rs' (rx_seq_num rx) \<noteq> None" using r(4) m(5) unfolding grows_def by blast
    ultimately show ?thesis using r grows_trans [OF m(4) r(4)] by simp
  qed
qed

section \<open>The public call\<close>

text \<open>The state of the receiver, after it has seen the FEC packets \<open>F\<close>.\<close>

definition receiver_ok :: "int \<Rightarrow> Packet list \<Rightarrow> fec_info set \<Rightarrow> fec_info set \<Rightarrow> ForwardErrorCorrection
    \<Rightarrow> RecoveredPacket list \<Rightarrow> bool" where
  "receiver_ok ssrc media U F st rs \<longleftrightarrow> F \<subseteq> U \<and> rs_ok media rs \<and> stored_ok U ssrc F (known rs) (fec_packet_list st)
     \<and> (\<forall>fec\<in>set (fec_packet_list st). NumCoveredPacketsMissing fec = 2)"

lemma receiver_init: "receiver_ok ssrc media U {} ForwardErrorCorrection_init []"
  by (simp add: receiver_ok_def rs_ok_def stored_ok_def seen_ok_def ForwardErrorCorrection_init_def sorted_by_seq_simps)

lemma DecodeFEC_ok:
  assumes frame: "fec_frame l ssrc media U" and close: "close_seqs media U" and st: "receiver_ok ssrc media U F st rs"
    and rx: "\<forall>rx\<in>set rxs. genuine ssrc media U rx"
  obtains st' rs' where "DecodeFEC rxs st rs = Some (Some (0, st', rs'))" "receiver_ok ssrc media U (F \<union> fecs_of U rxs) st' rs'"
    "grows (known rs) (known rs')" "\<forall>rx\<in>set rxs. \<not> is_fec rx \<longrightarrow> known rs' (rx_seq_num rx) \<noteq> None"
proof -
  have ok: "F \<subseteq> U" "rs_ok media rs" "stored_ok U ssrc F (known rs) (fec_packet_list st)"
    using st by (simp_all add: receiver_ok_def)
  have len: "length rs \<noteq> kMaxMediaPackets" using rs_length(1) [OF frame ok(2)] frame_basic(2) [OF frame] by simp
  obtain st1 rs1 where i: "insert_packets rxs st rs = Some (st1, rs1)" "rs_ok media rs1"
      "stored_ok U ssrc (F \<union> fecs_of U rxs) (known rs1) (fec_packet_list st1)" "grows (known rs) (known rs1)"
      "\<forall>rx\<in>set rxs. \<not> is_fec rx \<longrightarrow> known rs1 (rx_seq_num rx) \<noteq> None"
    using insert_packets_ok [OF frame close ok rx] by blast
  have F: "F \<union> fecs_of U rxs \<subseteq> U" using ok(1) by (auto simp: fecs_of_def)
  obtain fecs2 rs2 where a: "attempt_total 0 (fec_packet_list st1) rs1 = Some (fecs2, rs2)" "rs_ok media rs2"
      "stored_ok U ssrc (F \<union> fecs_of U rxs) (known rs2) fecs2" "grows (known rs1) (known rs2)"
    using attempt_total_ok [OF frame F i(2,3), of 0] by blast
  have left: "\<forall>fec\<in>set fecs2. NumCoveredPacketsMissing fec = 2" using attempt_total_left [OF a(1)] by simp
  let ?st = "st1\<lparr>fec_packet_list := fecs2\<rparr>"
  have "DecodeFEC rxs st rs = Some (Some (0, ?st, rs2))"
    using len i(1) a(1) rs_length(2) [OF frame i(2)]
    by (simp add: DecodeFEC_def InsertPackets_def AttemptRecover_def attempt_loop_total)
  moreover have "receiver_ok ssrc media U (F \<union> fecs_of U rxs) ?st rs2"
    using F a(2,3) left by (simp add: receiver_ok_def)
  moreover have "\<forall>rx\<in>set rxs. \<not> is_fec rx \<longrightarrow> known rs2 (rx_seq_num rx) \<noteq> None"
    using i(5) a(4) unfolding grows_def by blast
  ultimately show ?thesis using that grows_trans [OF i(4) a(4)] by blast
qed

text \<open>A sequence of calls, each with the packets that have arrived since the last one.\<close>

fun decode_calls :: "ReceivedPacket list list \<Rightarrow> ForwardErrorCorrection \<Rightarrow> RecoveredPacket list
    \<Rightarrow> (ForwardErrorCorrection \<times> RecoveredPacket list) option" where
  "decode_calls [] st rs = Some (st, rs)"
| "decode_calls (b # bs) st rs =
     (case DecodeFEC b st rs of Some (Some (rc, st', rs')) \<Rightarrow> decode_calls bs st' rs' | _ \<Rightarrow> None)"

lemma decode_calls_ok:
  assumes "fec_frame l ssrc media U" "close_seqs media U" "receiver_ok ssrc media U F st rs"
    and "\<forall>rx\<in>set (concat bs). genuine ssrc media U rx"
  shows "\<exists>st' rs'. decode_calls bs st rs = Some (st', rs') \<and> receiver_ok ssrc media U (F \<union> fecs_of U (concat bs)) st' rs'
     \<and> grows (known rs) (known rs') \<and> (\<forall>rx\<in>set (concat bs). \<not> is_fec rx \<longrightarrow> known rs' (rx_seq_num rx) \<noteq> None)"
  using assms(3,4)
proof (induction bs arbitrary: F st rs)
  case Nil
  then show ?case by (simp add: fecs_of_def grows_def)
next
  case (Cons b bs)
  obtain st1 rs1 where d: "DecodeFEC b st rs = Some (Some (0, st1, rs1))" "receiver_ok ssrc media U (F \<union> fecs_of U b) st1 rs1"
      "grows (known rs) (known rs1)" "\<forall>rx\<in>set b. \<not> is_fec rx \<longrightarrow> known rs1 (rx_seq_num rx) \<noteq> None"
    using DecodeFEC_ok [OF assms(1,2) Cons.prems(1), of b] Cons.prems(2) by auto
  obtain st' rs' where r: "decode_calls bs st1 rs1 = Some (st', rs')"
      "receiver_ok ssrc media U (F \<union> fecs_of U b \<union> fecs_of U (concat bs)) st' rs'" "grows (known rs1) (known rs')"
      "\<forall>rx\<in>set (concat bs). \<not> is_fec rx \<longrightarrow> known rs' (rx_seq_num rx) \<noteq> None"
    using Cons.IH [OF d(2)] Cons.prems(2) by auto
  have "fecs_of U (concat (b # bs)) = fecs_of U b \<union> fecs_of U (concat bs)" by (auto simp: fecs_of_def)
  moreover have "\<forall>rx\<in>set b. \<not> is_fec rx \<longrightarrow> known rs' (rx_seq_num rx) \<noteq> None" using d(4) r(3) unfolding grows_def by blast
  ultimately show ?case using d(1) r grows_trans [OF d(3) r(3)] by (auto simp: Un_assoc)
qed



end
