(* ===== verification/Rtp_Fec_Masks.thy ===== *)
theory Rtp_Fec_Masks
  imports Rtp_Fec
begin

text \<open>
  The packet masks of the forward error correction (\<open>forward_error_correction_internal.cc\<close>,
  \<open>fec_private_tables_bursty.h\<close>) and the sender as a whole, \<open>GenerateFEC\<close>.

  A mask is a matrix of bits, a row for every FEC packet and a column for every media packet, the columns from the
  highest bit of a byte down, a row in \<open>num_mask_bytes\<close> bytes. The tables of masks for bursts are here in
  full; the table for random losses (24,500 lines of numbers) is an argument of the definitions, as
  \<open>mask_table\<close> is in the code.
\<close>

section \<open>The table for bursts\<close>

definition kPacketMaskBursty1 :: "int list list" where
  "kPacketMaskBursty1 = [
    [0x80, 0x00]]"

definition kPacketMaskBursty2 :: "int list list" where
  "kPacketMaskBursty2 = [
    [0xc0, 0x00],
    [0x80, 0x00, 0xc0, 0x00]]"

definition kPacketMaskBursty3 :: "int list list" where
  "kPacketMaskBursty3 = [
    [0xe0, 0x00],
    [0xc0, 0x00, 0xa0, 0x00],
    [0x80, 0x00, 0xc0, 0x00, 0x60, 0x00]]"

definition kPacketMaskBursty4 :: "int list list" where
  "kPacketMaskBursty4 = [
    [0xf0, 0x00],
    [0xa0, 0x00, 0xd0, 0x00],
    [0xc0, 0x00, 0x60, 0x00, 0x90, 0x00],
    [0x80, 0x00, 0xc0, 0x00, 0x60, 0x00, 0x30, 0x00]]"

definition kPacketMaskBursty5 :: "int list list" where
  "kPacketMaskBursty5 = [
    [0xf8, 0x00],
    [0xd0, 0x00, 0xa8, 0x00],
    [0x70, 0x00, 0x90, 0x00, 0xc8, 0x00],
    [0xc0, 0x00, 0x60, 0x00, 0x30, 0x00, 0x88, 0x00],
    [0x80, 0x00, 0xc0, 0x00, 0x60, 0x00, 0x30, 0x00, 0x18, 0x00]]"

definition kPacketMaskBursty6 :: "int list list" where
  "kPacketMaskBursty6 = [
    [0xfc, 0x00],
    [0xa8, 0x00, 0xd4, 0x00],
    [0x94, 0x00, 0xc8, 0x00, 0x64, 0x00],
    [0x60, 0x00, 0x38, 0x00, 0x88, 0x00, 0xc4, 0x00],
    [0xc0, 0x00, 0x60, 0x00, 0x30, 0x00, 0x18, 0x00, 0x84, 0x00],
    [0x80, 0x00, 0xc0, 0x00, 0x60, 0x00, 0x30, 0x00, 0x18, 0x00, 0x0c, 0x00]]"

definition kPacketMaskBursty7 :: "int list list" where
  "kPacketMaskBursty7 = [
    [0xfe, 0x00],
    [0xd4, 0x00, 0xaa, 0x00],
    [0xc8, 0x00, 0x74, 0x00, 0x92, 0x00],
    [0x38, 0x00, 0x8a, 0x00, 0xc4, 0x00, 0x62, 0x00],
    [0x60, 0x00, 0x30, 0x00, 0x1c, 0x00, 0x84, 0x00, 0xc2, 0x00],
    [0xc0, 0x00, 0x60, 0x00, 0x30, 0x00, 0x18, 0x00, 0x0c, 0x00, 0x82, 0x00],
    [0x80, 0x00, 0xc0, 0x00, 0x60, 0x00, 0x30, 0x00, 0x18, 0x00, 0x0c, 0x00, 0x06, 0x00]]"

definition kPacketMaskBursty8 :: "int list list" where
  "kPacketMaskBursty8 = [
    [0xff, 0x00],
    [0xaa, 0x00, 0xd5, 0x00],
    [0x74, 0x00, 0x92, 0x00, 0xc9, 0x00],
    [0x8a, 0x00, 0xc5, 0x00, 0x62, 0x00, 0x31, 0x00],
    [0x30, 0x00, 0x1c, 0x00, 0x85, 0x00, 0xc2, 0x00, 0x61, 0x00],
    [0x60, 0x00, 0x30, 0x00, 0x18, 0x00, 0x0e, 0x00, 0x82, 0x00, 0xc1, 0x00],
    [0xc0, 0x00, 0x60, 0x00, 0x30, 0x00, 0x18, 0x00, 0x0c, 0x00, 0x06, 0x00, 0x81, 0x00],
    [0x80, 0x00, 0xc0, 0x00, 0x60, 0x00, 0x30, 0x00, 0x18, 0x00, 0x0c, 0x00, 0x06, 0x00, 0x03, 0x00]]"

definition kPacketMaskBursty9 :: "int list list" where
  "kPacketMaskBursty9 = [
    [0xff, 0x80],
    [0xd5, 0x00, 0xaa, 0x80],
    [0x92, 0x00, 0xc9, 0x00, 0x74, 0x80],
    [0xc5, 0x00, 0x62, 0x00, 0x39, 0x00, 0x8a, 0x80],
    [0x1c, 0x00, 0x85, 0x00, 0xc2, 0x80, 0x61, 0x00, 0x30, 0x80],
    [0x30, 0x00, 0x18, 0x00, 0x0e, 0x00, 0x82, 0x80, 0xc1, 0x00, 0x60, 0x80],
    [0x60, 0x00, 0x30, 0x00, 0x18, 0x00, 0x0c, 0x00, 0x07, 0x00, 0x81, 0x00, 0xc0, 0x80],
    [0xc0, 0x00, 0x60, 0x00, 0x30, 0x00, 0x18, 0x00, 0x0c, 0x00, 0x06, 0x00, 0x03, 0x00, 0x80, 0x80],
    [0x80, 0x00, 0xc0, 0x00, 0x60, 0x00, 0x30, 0x00, 0x18, 0x00, 0x0c, 0x00, 0x06, 0x00, 0x03, 0x00, 0x01,
      0x80]]"

definition kPacketMaskBursty10 :: "int list list" where
  "kPacketMaskBursty10 = [
    [0xff, 0xc0],
    [0xaa, 0x80, 0xd5, 0x40],
    [0xc9, 0x00, 0x74, 0x80, 0x92, 0x40],
    [0x62, 0x00, 0x39, 0x00, 0x8a, 0x80, 0xc5, 0x40],
    [0x85, 0x00, 0xc2, 0x80, 0x61, 0x40, 0x30, 0x80, 0x18, 0x40],
    [0x18, 0x00, 0x0e, 0x00, 0x82, 0x80, 0xc1, 0x40, 0x60, 0x80, 0x30, 0x40],
    [0x30, 0x00, 0x18, 0x00, 0x0c, 0x00, 0x07, 0x00, 0x81, 0x40, 0xc0, 0x80, 0x60, 0x40],
    [0x60, 0x00, 0x30, 0x00, 0x18, 0x00, 0x0c, 0x00, 0x06, 0x00, 0x03, 0x00, 0x80, 0x80, 0xc0, 0x40],
    [0xc0, 0x00, 0x60, 0x00, 0x30, 0x00, 0x18, 0x00, 0x0c, 0x00, 0x06, 0x00, 0x03, 0x00, 0x01, 0x80, 0x80,
      0x40],
    [0x80, 0x00, 0xc0, 0x00, 0x60, 0x00, 0x30, 0x00, 0x18, 0x00, 0x0c, 0x00, 0x06, 0x00, 0x03, 0x00, 0x01,
      0x80, 0x00, 0xc0]]"

definition kPacketMaskBursty11 :: "int list list" where
  "kPacketMaskBursty11 = [
    [0xff, 0xe0],
    [0xd5, 0x40, 0xaa, 0xa0],
    [0x74, 0x80, 0x92, 0x40, 0xc9, 0x20],
    [0x39, 0x00, 0x8a, 0x80, 0xc5, 0x40, 0x62, 0x20],
    [0xc2, 0xc0, 0x61, 0x00, 0x30, 0xa0, 0x1c, 0x40, 0x85, 0x20],
    [0x0e, 0x00, 0x82, 0x80, 0xc1, 0x40, 0x60, 0xa0, 0x30, 0x40, 0x18, 0x20],
    [0x18, 0x00, 0x0c, 0x00, 0x07, 0x00, 0x81, 0x40, 0xc0, 0xa0, 0x60, 0x40, 0x30, 0x20],
    [0x30, 0x00, 0x18, 0x00, 0x0c, 0x00, 0x06, 0x00, 0x03, 0x40, 0x80, 0xa0, 0xc0, 0x40, 0x60, 0x20],
    [0x60, 0x00, 0x30, 0x00, 0x18, 0x00, 0x0c, 0x00, 0x06, 0x00, 0x03, 0x00, 0x01, 0x80, 0x80, 0x40, 0xc0,
      0x20],
    [0xc0, 0x00, 0x60, 0x00, 0x30, 0x00, 0x18, 0x00, 0x0c, 0x00, 0x06, 0x00, 0x03, 0x00, 0x01, 0x80, 0x00,
      0xc0, 0x80, 0x20],
    [0x80, 0x00, 0xc0, 0x00, 0x60, 0x00, 0x30, 0x00, 0x18, 0x00, 0x0c, 0x00, 0x06, 0x00, 0x03, 0x00, 0x01,
      0x80, 0x00, 0xc0, 0x00, 0x60]]"

definition kPacketMaskBursty12 :: "int list list" where
  "kPacketMaskBursty12 = [
    [0xff, 0xf0],
    [0xaa, 0xa0, 0xd5, 0x50],
    [0x92, 0x40, 0xc9, 0x20, 0x74, 0x90],
    [0x8a, 0x80, 0xc5, 0x40, 0x62, 0x20, 0x39, 0x10],
    [0x61, 0x00, 0x30, 0xa0, 0x1c, 0x50, 0x85, 0x20, 0xc2, 0x90],
    [0x82, 0x90, 0xc1, 0x40, 0x60, 0xa0, 0x30, 0x50, 0x18, 0x20, 0x0c, 0x10],
    [0x0c, 0x00, 0x07, 0x00, 0x81, 0x40, 0xc0, 0xa0, 0x60, 0x50, 0x30, 0x20, 0x18, 0x10],
    [0x18, 0x00, 0x0c, 0x00, 0x06, 0x00, 0x03, 0x00, 0x80, 0xa0, 0xc0, 0x50, 0x60, 0x20, 0x30, 0x10],
    [0x30, 0x00, 0x18, 0x00, 0x0c, 0x00, 0x06, 0x00, 0x03, 0x00, 0x01, 0x80, 0x80, 0x50, 0xc0, 0x20, 0x60,
      0x10],
    [0x60, 0x00, 0x30, 0x00, 0x18, 0x00, 0x0c, 0x00, 0x06, 0x00, 0x03, 0x00, 0x01, 0x80, 0x00, 0xc0, 0x80,
      0x20, 0xc0, 0x10],
    [0xc0, 0x00, 0x60, 0x00, 0x30, 0x00, 0x18, 0x00, 0x0c, 0x00, 0x06, 0x00, 0x03, 0x00, 0x01, 0x80, 0x00,
      0xc0, 0x00, 0x60, 0x80, 0x10],
    [0x80, 0x00, 0xc0, 0x00, 0x60, 0x00, 0x30, 0x00, 0x18, 0x00, 0x0c, 0x00, 0x06, 0x00, 0x03, 0x00, 0x01,
      0x80, 0x00, 0xc0, 0x00, 0x60, 0x00, 0x30]]"

definition kPacketMaskBurstyTbl :: "int list list list" where
  "kPacketMaskBurstyTbl = [kPacketMaskBursty1, kPacketMaskBursty2, kPacketMaskBursty3, kPacketMaskBursty4, kPacketMaskBursty5, kPacketMaskBursty6,
    kPacketMaskBursty7, kPacketMaskBursty8, kPacketMaskBursty9, kPacketMaskBursty10, kPacketMaskBursty11, kPacketMaskBursty12]"

section \<open>The choice of a mask\<close>

datatype FecMaskType = kFecMaskRandom | kFecMaskBursty

datatype ProtectionMode = kModeNoOverlap | kModeOverlap | kModeBiasFirstPacket

definition InitMaskType :: "FecMaskType \<Rightarrow> nat \<Rightarrow> FecMaskType" where
  "InitMaskType fec_mask_type num_media_packets =
     (case fec_mask_type of
        kFecMaskRandom \<Rightarrow> kFecMaskRandom
      | kFecMaskBursty \<Rightarrow> if num_media_packets > length kPacketMaskBurstyTbl then kFecMaskRandom else kFecMaskBursty)"

definition InitMaskTable :: "int list list list \<Rightarrow> FecMaskType \<Rightarrow> int list list list" where
  "InitMaskTable kPacketMaskRandomTbl fec_mask_type =
     (case fec_mask_type of kFecMaskRandom \<Rightarrow> kPacketMaskRandomTbl | kFecMaskBursty \<Rightarrow> kPacketMaskBurstyTbl)"

definition PacketMaskTable :: "int list list list \<Rightarrow> FecMaskType \<Rightarrow> nat \<Rightarrow> int list list list" where
  "PacketMaskTable random_tbl fec_mask_type num_media_packets =
     InitMaskTable random_tbl (InitMaskType fec_mask_type num_media_packets)"

definition at_opt :: "'a list \<Rightarrow> nat \<Rightarrow> 'a option" where
  "at_opt xs i = (if i < length xs then Some (xs ! i) else None)"

definition mask_entry :: "int list list list \<Rightarrow> nat \<Rightarrow> nat \<Rightarrow> int list option" where
  "mask_entry tbl k m = (if k = 0 \<or> m = 0 then None else do { t \<leftarrow> at_opt tbl (k - 1); at_opt t (m - 1) })"

definition FitSubMask :: "nat \<Rightarrow> nat \<Rightarrow> nat \<Rightarrow> int list \<Rightarrow> nat \<Rightarrow> int list \<Rightarrow> int list option" where
  "FitSubMask num_bytes num_sub_bytes num_rows sub_mask off packet_mask =
     (if num_bytes = num_sub_bytes then memcpy packet_mask off sub_mask 0 (num_rows * num_sub_bytes)
      else foldl (\<lambda>acc i. do { d \<leftarrow> acc; memcpy d (off + i * num_bytes) sub_mask (i * num_sub_bytes) num_sub_bytes })
             (Some packet_mask) [0..<num_rows])"

definition put_opt :: "'a list \<Rightarrow> nat \<Rightarrow> 'a \<Rightarrow> 'a list option" where
  "put_opt xs i v = (if i < length xs then Some (xs[i := v]) else None)"

text \<open>The bytes of a row from the last one down to the first, each filled up with the bits of its left
  neighbour.\<close>

fun shift_row :: "nat \<Rightarrow> nat \<Rightarrow> nat \<Rightarrow> nat \<Rightarrow> int list \<Rightarrow> int list \<Rightarrow> int list option" where
  "shift_row s 0 i j sub_mask packet_mask =
     do { b \<leftarrow> at_opt sub_mask j; put_opt packet_mask i (shr b s) }"
| "shift_row s (Suc n) i j sub_mask packet_mask =
     do {
       b \<leftarrow> at_opt sub_mask j;
       a \<leftarrow> at_opt sub_mask (j - 1);
       d \<leftarrow> put_opt packet_mask i (shr b s OR u8 (shl a (8 - s)));
       shift_row s n (i - 1) (j - 1) sub_mask d
     }"

definition ShiftFitSubMask :: "nat \<Rightarrow> nat \<Rightarrow> nat \<Rightarrow> nat \<Rightarrow> int list \<Rightarrow> int list \<Rightarrow> int list option" where
  "ShiftFitSubMask num_bytes res_bytes num_column_shift end_row sub_mask packet_mask =
     (let s = num_column_shift mod 8
      in foldl (\<lambda>acc i. do {
             d \<leftarrow> acc;
             let idx = i * num_bytes + res_bytes - 1 + num_column_shift div 8;
             let idx2 = (i - num_column_shift) * res_bytes + res_bytes - 1;
             d \<leftarrow> (if num_bytes > res_bytes
                  then do { b \<leftarrow> at_opt sub_mask idx2; put_opt d (idx + 1) (u8 (shl b (8 - s))) }
                  else Some d);
             shift_row s (res_bytes - 1) idx idx2 sub_mask d
           }) (Some packet_mask) [num_column_shift..<end_row])"

definition RemainingPacketProtection ::
    "nat \<Rightarrow> nat \<Rightarrow> nat \<Rightarrow> nat \<Rightarrow> ProtectionMode \<Rightarrow> int list \<Rightarrow> int list list list \<Rightarrow> int list option" where
  "RemainingPacketProtection num_media num_fec_remaining num_fec_for_imp num_bytes mode packet_mask mask_table =
     (case mode of
        kModeNoOverlap \<Rightarrow> do {
          sub \<leftarrow> (if num_media < num_fec_for_imp then None
                 else mask_entry mask_table (num_media - num_fec_for_imp) num_fec_remaining);
          ShiftFitSubMask num_bytes (num_mask_bytes (num_media - num_fec_for_imp > 16)) num_fec_for_imp
            (num_fec_for_imp + num_fec_remaining) sub packet_mask
        }
      | _ \<Rightarrow> do {
          sub \<leftarrow> mask_entry mask_table num_media num_fec_remaining;
          d \<leftarrow> FitSubMask num_bytes num_bytes num_fec_remaining sub (num_fec_for_imp * num_bytes) packet_mask;
          if mode = kModeBiasFirstPacket
          then foldl (\<lambda>acc i. do { d \<leftarrow> acc; b \<leftarrow> at_opt d (i * num_bytes); put_opt d (i * num_bytes) (b OR 128) })
                 (Some d) [0..<num_fec_remaining]
          else Some d
        })"

definition ImportantPacketProtection ::
    "nat \<Rightarrow> nat \<Rightarrow> nat \<Rightarrow> int list \<Rightarrow> int list list list \<Rightarrow> int list option" where
  "ImportantPacketProtection num_fec_for_imp num_imp num_bytes packet_mask mask_table =
     do {
       sub \<leftarrow> mask_entry mask_table num_imp num_fec_for_imp;
       FitSubMask num_bytes (num_mask_bytes (num_imp > 16)) num_fec_for_imp sub 0 packet_mask
     }"

text \<open>\<open>alloc_par * num_fec_packets\<close> is half the number, truncated to an integer.\<close>

definition SetProtectionAllocation :: "nat \<Rightarrow> nat \<Rightarrow> nat \<Rightarrow> nat" where
  "SetProtectionAllocation num_media num_fec num_imp =
     (let max_num_fec_for_imp = num_fec div 2;
          n = (if num_imp < max_num_fec_for_imp then num_imp else max_num_fec_for_imp)
      in if num_fec = 1 \<and> num_media > 2 * num_imp then 0 else n)"

definition UnequalProtectionMask ::
    "nat \<Rightarrow> nat \<Rightarrow> nat \<Rightarrow> nat \<Rightarrow> int list \<Rightarrow> int list list list \<Rightarrow> int list option" where
  "UnequalProtectionMask num_media num_fec num_imp num_bytes packet_mask mask_table =
     (let mode = kModeOverlap;
          num_fec_for_imp = (if mode \<noteq> kModeBiasFirstPacket then SetProtectionAllocation num_media num_fec num_imp else 0);
          num_fec_remaining = num_fec - num_fec_for_imp
      in do {
        d \<leftarrow> (if num_fec_for_imp > 0
             then ImportantPacketProtection num_fec_for_imp num_imp num_bytes packet_mask mask_table
             else Some packet_mask);
        if num_fec_remaining > 0
        then RemainingPacketProtection num_media num_fec_remaining num_fec_for_imp num_bytes mode d mask_table
        else Some d
      })"

definition GeneratePacketMasks ::
    "nat \<Rightarrow> nat \<Rightarrow> nat \<Rightarrow> bool \<Rightarrow> int list list list \<Rightarrow> int list \<Rightarrow> int list option" where
  "GeneratePacketMasks num_media num_fec num_imp use_unequal_protection mask_table packet_mask =
     (let num_bytes = num_mask_bytes (num_media > 16)
      in if \<not> use_unequal_protection \<or> num_imp = 0
         then do { t \<leftarrow> mask_entry mask_table num_media num_fec; memcpy packet_mask 0 t 0 (num_fec * num_bytes) }
         else UnequalProtectionMask num_media num_fec num_imp num_bytes packet_mask mask_table)"

section \<open>Missing sequence numbers\<close>

text \<open>The loops over the rows; both masks are read and written with the bounds of their allocation.\<close>

definition CopyColumn :: "nat \<Rightarrow> nat \<Rightarrow> nat \<Rightarrow> nat \<Rightarrow> nat \<Rightarrow> int list \<times> int list \<Rightarrow> (int list \<times> int list) option" where
  "CopyColumn new_bytes old_bytes num_fec new_bit old_bit masks =
     foldl (\<lambda>acc row. do {
         (new, old) \<leftarrow> acc;
         let i = row * new_bytes + new_bit div 8;
         let j = row * old_bytes + old_bit div 8;
         n \<leftarrow> at_opt new i;
         b \<leftarrow> at_opt old j;
         let n = n OR shr (b AND 0x80) 7;
         let n = (if new_bit mod 8 \<noteq> 7 then u8 (shl n 1) else n);
         Some (new[i := n], old[j := u8 (shl b 1)])
       }) (Some masks) [0..<num_fec]"

definition InsertZeroColumns :: "nat \<Rightarrow> nat \<Rightarrow> nat \<Rightarrow> nat \<Rightarrow> int list \<Rightarrow> int list option" where
  "InsertZeroColumns num_zeros new_bytes num_fec new_bit new =
     foldl (\<lambda>acc row. do {
         new \<leftarrow> acc;
         let i = row * new_bytes + new_bit div 8;
         n \<leftarrow> at_opt new i;
         Some (new[i := u8 (shl n (min num_zeros (7 - new_bit mod 8)))])
       }) (Some new) [0..<num_fec]"

fun insert_columns :: "nat \<Rightarrow> nat \<Rightarrow> nat \<Rightarrow> int \<Rightarrow> nat \<Rightarrow> nat \<Rightarrow> int list \<Rightarrow> int list \<times> int list
    \<Rightarrow> (nat \<times> int list) option" where
  "insert_columns new_bytes old_bytes num_fec prev new_bit old_bit [] masks = Some (new_bit, fst masks)"
| "insert_columns new_bytes old_bytes num_fec prev new_bit old_bit (s # ss) masks =
     (if new_bit = 8 * kMaskSizeLBitSet then Some (new_bit, fst masks)
      else do {
        let zeros = nat (u16 (s - prev - 1));
        new \<leftarrow> (if zeros > 0 then InsertZeroColumns zeros new_bytes num_fec new_bit (fst masks) else Some (fst masks));
        masks \<leftarrow> CopyColumn new_bytes old_bytes num_fec (new_bit + zeros) old_bit (new, snd masks);
        insert_columns new_bytes old_bytes num_fec s (new_bit + zeros + 1) (old_bit + 1) ss masks
      })"

definition InsertZerosInBitMasks :: "Packet list \<Rightarrow> int list \<Rightarrow> nat \<Rightarrow> nat \<Rightarrow> (int \<times> int list) option" where
  "InsertZerosInBitMasks media packet_mask num_bytes num_fec =
     (let size = length media; seqs = map (\<lambda>p. ParseSequenceNumber (pkt_data p)) media
      in if size \<le> 1 then Some (int size, packet_mask)
         else let first = hd seqs;
                  covered = u16 (last seqs - first);
                  missing = covered - int size + 1
              in if missing = 0 then Some (int size, packet_mask)
                 else do {
                   let new_bytes = num_mask_bytes (int size + missing > 16);
                   let new = replicate (num_fec * kMaskSizeLBitSet) 0;
                   masks \<leftarrow> CopyColumn new_bytes num_bytes num_fec 0 0 (new, packet_mask);
                   (n, new) \<leftarrow> insert_columns new_bytes num_bytes num_fec first 1 1 (tl seqs) masks;
                   new \<leftarrow> (if n mod 8 \<noteq> 0
                          then foldl (\<lambda>acc row. do {
                                 new \<leftarrow> acc;
                                 b \<leftarrow> at_opt new (row * new_bytes + n div 8);
                                 Some (new[row * new_bytes + n div 8 := u8 (shl b (7 - n mod 8))])
                               }) (Some new) [0..<num_fec]
                          else Some new);
                   mask' \<leftarrow> memcpy packet_mask 0 new 0 (kMaskSizeLBitSet * num_fec);
                   Some (int n, mask')
                 })"

section \<open>The sender\<close>

text \<open>The result is the return value, \<open>generated_fec_packets_\<close> and the number of them put into
  \<open>fec_packet_list\<close>. \<open>junk\<close> is the content of the mask array before it is written.\<close>

definition fresh_packet :: Packet where
  "fresh_packet = \<lparr>pkt_length = 0, pkt_data = replicate IP_PACKET_SIZE 0\<rparr>"

definition GenerateFEC ::
    "int list \<Rightarrow> int list list list \<Rightarrow> Packet list \<Rightarrow> int \<Rightarrow> nat \<Rightarrow> bool \<Rightarrow> FecMaskType \<Rightarrow> Packet list
     \<Rightarrow> (int \<times> Packet list \<times> nat) option" where
  "GenerateFEC junk random_tbl media protection_factor num_important use_unequal_protection fec_mask_type gen =
     (let num_media = nat (u16 (int (length media)));
          num_bytes = num_mask_bytes (num_media > 8 * kMaskSizeLBitClear);
          n = nat (GetNumberOfFecPackets (int num_media) protection_factor)
      in if num_media > kMaxMediaPackets then Some (-1, gen, 0)
         else if list_ex (\<lambda>p. pkt_length p < int kRtpHeaderSize) media then Some (-1, gen, 0)
         else if n = 0 then Some (0, gen, 0)
         else if n > length gen then None
         else do {
           let gen = replicate n fresh_packet @ drop n gen;
           let tbl = PacketMaskTable random_tbl fec_mask_type num_media;
           let packet_mask = replicate (n * num_bytes) 0
               @ take (n * kMaskSizeLBitSet - n * num_bytes) (drop (n * num_bytes) junk);
           packet_mask \<leftarrow> GeneratePacketMasks num_media n num_important use_unequal_protection tbl packet_mask;
           (num_bits, packet_mask) \<leftarrow> InsertZerosInBitMasks media packet_mask num_bytes n;
           let l_bit = (num_bits > 8 * int kMaskSizeLBitClear);
           if num_bits < 0 then Some (-1, gen, n)
           else do {
             gen \<leftarrow> GenerateFecBitStrings media packet_mask n l_bit gen;
             gen \<leftarrow> GenerateFecUlpHeaders media packet_mask l_bit n gen;
             Some (0, gen, n)
           }
         })"

end
