(* ===== verification/Rtp_Fec_Peel.thy ===== *)
theory Rtp_Fec_Peel
  imports Rtp_Fec_Masks
begin

text \<open>
  The table of masks for bursts has the property its header promises: with \<open>k\<close> media packets and \<open>m\<close> FEC packets,
  whatever is lost among \<open>m\<close> consecutive packets of the \<open>k + m\<close> can be recovered, one packet after the other. The
  check of the 78 masks is a computation on rows of bits.
\<close>

section \<open>Rows of bits\<close>

text \<open>The bits of a byte, the highest first, and the rows of a mask with two bytes per row.\<close>

fun byte_bits :: "nat \<Rightarrow> int \<Rightarrow> bool list \<Rightarrow> bool list" where
  "byte_bits 0 b acc = acc"
| "byte_bits (Suc n) b acc = byte_bits n (b div 2) (odd b # acc)"

fun mask_rows :: "int list \<Rightarrow> bool list list" where
  "mask_rows (a # b # t) = (byte_bits 8 a [] @ byte_bits 8 b []) # mask_rows t"
| "mask_rows _ = []"

lemma byte_bits_map: "byte_bits n b acc = map (\<lambda>i. bit b (n - 1 - i)) [0..<n] @ acc"
proof (induction n arbitrary: b acc)
  case (Suc n)
  have "map (\<lambda>i. bit b (Suc n - 1 - i)) [0..<Suc n] = map (\<lambda>i. bit (b div 2) (n - 1 - i)) [0..<n] @ [odd b]"
  proof -
    have "bit b (n - i) = bit (b div 2) (n - 1 - i)" if "i < n" for i
    proof -
      have "n - i = Suc (n - 1 - i)" using that by linarith
      then show ?thesis by (simp add: bit_Suc)
    qed
    then show ?thesis by (simp add: bit_0)
  qed
  then show ?case using Suc.IH [of "b div 2" "odd b # acc"] by simp
qed simp

lemma mask_rows_nth:
  assumes "length t = 2 * m" "i < m"
  shows "mask_rows t ! i = byte_bits 8 (t ! (2 * i)) [] @ byte_bits 8 (t ! (2 * i + 1)) []"
  using assms
proof (induction t arbitrary: m i rule: mask_rows.induct)
  case (1 a b t)
  then obtain m' where m: "m = Suc m'" by (cases m) simp_all
  then show ?case using 1 by (cases i) simp_all
qed simp_all

lemma length_mask_rows: "length t = 2 * m \<Longrightarrow> length (mask_rows t) = m"
proof (induction t arbitrary: m rule: mask_rows.induct)
  case (1 a b t)
  then obtain m' where "m = Suc m'" by (cases m) simp_all
  then show ?case using 1 by simp
qed simp_all

lemma mask_row_bit:
  assumes "length t = 2 * m" "i < m" "c < 16"
  shows "mask_rows t ! i ! c = bit (t ! (i * 2 + c div 8)) (7 - c mod 8)"
proof (cases "c < 8")
  case True
  then show ?thesis using mask_rows_nth [OF assms(1,2)] by (simp add: byte_bits_map nth_append mult.commute)
next
  case False
  then have "c div 8 = 1" "c mod 8 = c - 8" "[0..<8] ! (c - 8) = c - 8" using assms(3) by (simp_all add: div_nat_eqI mod_if)
  then show ?thesis using mask_rows_nth [OF assms(1,2)] False assms(3)
    by (simp add: byte_bits_map nth_append mult.commute)
qed

section \<open>Recovering one packet after the other\<close>

datatype lost_in_row = No_Loss | One_Loss | Many_Losses

fun count_lost :: "bool list \<Rightarrow> bool list \<Rightarrow> lost_in_row" where
  "count_lost (True # r) (True # l) = (case count_lost r l of No_Loss \<Rightarrow> One_Loss | _ \<Rightarrow> Many_Losses)"
| "count_lost (_ # r) (_ # l) = count_lost r l"
| "count_lost _ _ = No_Loss"

fun clear_row :: "bool list \<Rightarrow> bool list \<Rightarrow> bool list" where
  "clear_row (b # r) (x # l) = (if b then False # clear_row r l else x # clear_row r l)"
| "clear_row _ l = l"

fun one_pass :: "bool list list \<Rightarrow> bool list \<Rightarrow> bool list" where
  "one_pass [] l = l"
| "one_pass (r # rs) l = (case count_lost r l of One_Loss \<Rightarrow> one_pass rs (clear_row r l) | _ \<Rightarrow> one_pass rs l)"

fun recovers_all :: "bool list list \<Rightarrow> bool list \<Rightarrow> bool list \<Rightarrow> bool" where
  "recovers_all rows [] l = (\<not> list_ex id l)"
| "recovers_all rows (_ # fuel) l = (if list_ex id l then recovers_all rows fuel (one_pass rows l) else True)"

text \<open>Media packets \<open>a\<close> to \<open>a + m - 1\<close> are lost, and the FEC packets among the next ones.\<close>

definition burst_window :: "nat \<Rightarrow> nat \<Rightarrow> nat \<Rightarrow> bool list" where
  "burst_window k m a = replicate a False @ replicate (min m (k - a)) True @ replicate (k - a - m) False"

definition burst_ok :: "nat \<Rightarrow> nat \<Rightarrow> bool list list \<Rightarrow> bool" where
  "burst_ok k m rows = list_all (\<lambda>a. let l = burst_window k m a in recovers_all (drop (a + m - k) rows) l l) [0..<k + 1]"

text \<open>A well formed mask: every row protects something and nothing beyond the \<open>k\<close> packets.\<close>

definition mask_ok :: "nat \<Rightarrow> nat \<Rightarrow> int list \<Rightarrow> bool" where
  "mask_ok k m t \<longleftrightarrow> length t = 2 * m \<and> list_all (\<lambda>r. list_ex id r \<and> \<not> list_ex id (drop k r)) (mask_rows t)
     \<and> burst_ok k m (mask_rows t)"

fun masks_ok :: "nat \<Rightarrow> nat \<Rightarrow> int list list \<Rightarrow> bool" where
  "masks_ok k m [] = True"
| "masks_ok k m (t # ts) = (mask_ok k m t \<and> masks_ok k (m + 1) ts)"

lemma bursty_1: "masks_ok 1 1 kPacketMaskBursty1 \<and> length kPacketMaskBursty1 = 1" by code_simp
lemma bursty_2: "masks_ok 2 1 kPacketMaskBursty2 \<and> length kPacketMaskBursty2 = 2" by code_simp
lemma bursty_3: "masks_ok 3 1 kPacketMaskBursty3 \<and> length kPacketMaskBursty3 = 3" by code_simp
lemma bursty_4: "masks_ok 4 1 kPacketMaskBursty4 \<and> length kPacketMaskBursty4 = 4" by code_simp
lemma bursty_5: "masks_ok 5 1 kPacketMaskBursty5 \<and> length kPacketMaskBursty5 = 5" by code_simp
lemma bursty_6: "masks_ok 6 1 kPacketMaskBursty6 \<and> length kPacketMaskBursty6 = 6" by code_simp
lemma bursty_7: "masks_ok 7 1 kPacketMaskBursty7 \<and> length kPacketMaskBursty7 = 7" by code_simp
lemma bursty_8: "masks_ok 8 1 kPacketMaskBursty8 \<and> length kPacketMaskBursty8 = 8" by code_simp
lemma bursty_9: "masks_ok 9 1 kPacketMaskBursty9 \<and> length kPacketMaskBursty9 = 9" by code_simp
lemma bursty_10: "masks_ok 10 1 kPacketMaskBursty10 \<and> length kPacketMaskBursty10 = 10" by code_simp
lemma bursty_11: "masks_ok 11 1 kPacketMaskBursty11 \<and> length kPacketMaskBursty11 = 11" by code_simp
lemma bursty_12: "masks_ok 12 1 kPacketMaskBursty12 \<and> length kPacketMaskBursty12 = 12" by code_simp

lemma masks_ok_nth: "masks_ok k m ts \<Longrightarrow> i < length ts \<Longrightarrow> mask_ok k (m + i) (ts ! i)"
proof (induction ts arbitrary: m i)
  case (Cons t ts)
  then show ?case using Cons.IH [of "m + 1" "i - 1"] by (cases i) simp_all
qed simp

lemma bursty_mask:
  assumes "1 \<le> k" "k \<le> 12" "1 \<le> m" "m \<le> k"
  obtains t where "mask_entry kPacketMaskBurstyTbl k m = Some t" "mask_ok k m t"
proof -
  let ?ts = "kPacketMaskBurstyTbl ! (k - 1)"
  have "k = 1 \<or> k = 2 \<or> k = 3 \<or> k = 4 \<or> k = 5 \<or> k = 6 \<or> k = 7 \<or> k = 8 \<or> k = 9 \<or> k = 10 \<or> k = 11 \<or> k = 12"
    using assms(1,2) by presburger
  then have ts: "masks_ok k 1 ?ts \<and> length ?ts = k" "k - 1 < length kPacketMaskBurstyTbl"
    using bursty_1 bursty_2 bursty_3 bursty_4 bursty_5 bursty_6 bursty_7 bursty_8 bursty_9 bursty_10 bursty_11 bursty_12
    unfolding kPacketMaskBurstyTbl_def by auto
  then have "mask_ok k m (?ts ! (m - 1))" using masks_ok_nth [of k 1 ?ts "m - 1"] assms(3,4) by simp
  moreover have "mask_entry kPacketMaskBurstyTbl k m = Some (?ts ! (m - 1))"
    using ts assms by (simp add: mask_entry_def at_opt_def)
  ultimately show ?thesis using that by blast
qed

section \<open>The order of recoveries is sound\<close>

lemma count_none: "count_lost r l = No_Loss \<Longrightarrow> c < length r \<Longrightarrow> c < length l \<Longrightarrow> \<not> (r ! c \<and> l ! c)"
  by (induction r l arbitrary: c rule: count_lost.induct) (auto simp: nth_Cons' split: lost_in_row.splits)

lemma count_one:
  "count_lost r l = One_Loss \<Longrightarrow> \<exists>c. \<forall>d. d < length r \<longrightarrow> d < length l \<longrightarrow> r ! d \<and> l ! d \<longrightarrow> d = c"
proof (induction r l rule: count_lost.induct, goal_cases)
  case (1 r l)
  then have "count_lost r l = No_Loss" by (auto split: lost_in_row.splits)
  then have "\<forall>d. d < length (True # r) \<longrightarrow> d < length (True # l) \<longrightarrow> (True # r) ! d \<and> (True # l) ! d \<longrightarrow> d = 0"
    using count_none [of r l] by (auto simp: nth_Cons')
  then show ?case by blast
next
  case (2 r x l)
  then obtain c where "\<forall>d. d < length r \<longrightarrow> d < length l \<longrightarrow> r ! d \<and> l ! d \<longrightarrow> d = c" by auto
  then have "d < length (False # r) \<longrightarrow> d < length (x # l) \<longrightarrow> (False # r) ! d \<and> (x # l) ! d \<longrightarrow> d = Suc c" for d
    by (cases d) auto
  then show ?case by blast
next
  case (3 x r l)
  then obtain c where "\<forall>d. d < length r \<longrightarrow> d < length l \<longrightarrow> r ! d \<and> l ! d \<longrightarrow> d = c" by auto
  then have "d < length (x # r) \<longrightarrow> d < length (False # l) \<longrightarrow> (x # r) ! d \<and> (False # l) ! d \<longrightarrow> d = Suc c" for d
    by (cases d) auto
  then show ?case by blast
qed simp_all

lemma length_clear_row [simp]: "length (clear_row r l) = length l"
  by (induction r l rule: clear_row.induct) simp_all

lemma clear_row_nth: "c < length l \<Longrightarrow> clear_row r l ! c = (l ! c \<and> \<not> (c < length r \<and> r ! c))"
  by (induction r l arbitrary: c rule: clear_row.induct) (auto simp: nth_Cons')

text \<open>\<open>N\<close> are the packets that stay unknown: a row with one possible loss has none, if it cannot have exactly one.\<close>

definition unknown_in :: "(nat \<Rightarrow> bool) \<Rightarrow> bool list \<Rightarrow> bool" where
  "unknown_in N l \<longleftrightarrow> (\<forall>c. N c \<longrightarrow> c < length l \<and> l ! c)"

definition not_one :: "(nat \<Rightarrow> bool) \<Rightarrow> bool list \<Rightarrow> bool" where
  "not_one N r \<longleftrightarrow> card {c. c < length r \<and> r ! c \<and> N c} \<noteq> 1"

lemma one_pass_sound:
  "\<forall>r\<in>set rows. not_one N r \<Longrightarrow> unknown_in N l \<Longrightarrow> unknown_in N (one_pass rows l)"
proof (induction rows arbitrary: l)
  case (Cons r rows)
  show ?case
  proof (cases "count_lost r l = One_Loss")
    case True
    obtain c where c: "\<forall>d. d < length r \<longrightarrow> d < length l \<longrightarrow> r ! d \<and> l ! d \<longrightarrow> d = c" using count_one [OF True] by blast
    let ?S = "{d. d < length r \<and> r ! d \<and> N d}"
    have "?S \<subseteq> {c}" using c Cons.prems(2) by (auto simp: unknown_in_def)
    moreover have "?S \<noteq> {c}" using Cons.prems(1) by (auto simp: not_one_def)
    ultimately have "?S = {}" by blast
    then have "unknown_in N (clear_row r l)" using Cons.prems(2) by (auto simp: unknown_in_def clear_row_nth)
    then show ?thesis using True Cons by simp
  next
    case False
    then show ?thesis using Cons by (cases "count_lost r l") simp_all
  qed
qed simp

lemma unknown_nothing: "unknown_in N l \<Longrightarrow> \<not> list_ex id l \<Longrightarrow> \<not> N c"
  unfolding unknown_in_def list_ex_length by auto

lemma recovers_all_sound:
  "recovers_all rows fuel l \<Longrightarrow> \<forall>r\<in>set rows. not_one N r \<Longrightarrow> unknown_in N l \<Longrightarrow> \<not> N c"
proof (induction rows fuel l rule: recovers_all.induct)
  case (1 rows l)
  then show ?case using unknown_nothing by simp
next
  case (2 rows x fuel l)
  show ?case
  proof (cases "list_ex id l")
    case True
    then show ?thesis using 2 one_pass_sound [OF 2(3,4)] by simp
  next
    case False
    then show ?thesis using unknown_nothing [OF 2(4)] by simp
  qed
qed

end
