(* ===== verification/Rtp_Fec_Burst.thy ===== *)
theory Rtp_Fec_Burst
  imports Rtp_Fec_Frame Rtp_Fec_Peel
begin

text \<open>
  Sender, channel and receiver together: the FEC packets \<open>GenerateFEC\<close> makes with the masks for bursts, a channel that
  loses packets in one burst and delivers the others in any order, duplicated and in any portions, and
  \<open>DecodeFEC\<close>, which has all media packets at the end.
\<close>

section \<open>Reading the mask\<close>

lemma concat_filter: "concat (map (\<lambda>b. if P b then [f b] else []) xs) = map f (filter P xs)"
  by (induction xs) simp_all

lemma filter_offset: "filter P [a..<a + n] = map ((+) a) (filter (\<lambda>b. P (a + b)) [0..<n])" for a n :: nat
  by (induction n) simp_all

lemma mask_seqs_filter:
  "mask_seqs data base nb = map (\<lambda>c. u16 (base + int c)) (filter (row_bit data 12) [0..<8 * nb])"
proof (induction nb)
  case (Suc nb)
  have "filter (row_bit data 12) [8 * nb..<8 * nb + 8]
      = map ((+) (8 * nb)) (filter (\<lambda>b. data ! (12 + nb) AND shl 1 (7 - b) \<noteq> 0) [0..<8])"
    unfolding filter_offset
    by (rule arg_cong [where f = "map ((+) (8 * nb))"], rule filter_cong)
       (auto simp: row_bit_def mask_test)
  moreover have "[0..<8 * Suc nb] = [0..<8 * nb] @ [8 * nb..<8 * nb + 8]"
    using upt_add_eq_append [of 0 "8 * nb" 8] by (simp add: add.commute)
  moreover have "u16 (base + shl (int nb) 3 + int b) = u16 (base + int (8 * nb + b))" for b
    by (simp add: shl_def algebra_simps)
  ultimately show ?case using Suc by (simp add: mask_seqs_def concat_filter)
qed (simp add: mask_seqs_def)

section \<open>Consecutive media packets\<close>

definition consecutive :: "int \<Rightarrow> Packet list \<Rightarrow> bool" where
  "consecutive base ps \<longleftrightarrow> 0 \<le> base \<and> base + int (length ps) \<le> 65536 \<and> (\<forall>c<length ps. pkt_seq (ps ! c) = base + int c)"

lemma consecutive_Cons:
  "consecutive base (p # q # ps) \<Longrightarrow> consecutive (base + 1) (q # ps) \<and> u16 (pkt_seq q - pkt_seq p) = 1"
proof -
  assume c: "consecutive base (p # q # ps)"
  have n: "pkt_seq ((p # q # ps) ! i) = base + int i" if "i < Suc (Suc (length ps))" for i
    using c that by (simp add: consecutive_def)
  have "pkt_seq ((q # ps) ! i) = base + 1 + int i" if "i < Suc (length ps)" for i
    using n [of "Suc i"] that by simp
  moreover have "pkt_seq p = base" "pkt_seq q = base + 1" using n [of 0] n [of 1] by simp_all
  ultimately show ?thesis using c by (auto simp: consecutive_def u16_id)
qed

lemma columns_consecutive: "consecutive base ps \<Longrightarrow> columns c ps = [c..<c + length ps]"
proof (induction c ps arbitrary: base rule: columns.induct)
  case (3 c p q ps)
  have u: "u16 (pkt_seq q - pkt_seq p) = 1" and n: "consecutive (base + 1) (q # ps)"
    using consecutive_Cons [OF 3(2)] by simp_all
  have "columns (c + 1) (q # ps) = [c + 1..<c + 1 + length (q # ps)]" using 3(1) [of "base + 1"] u n by simp
  then show ?case using u by (simp add: upt_conv_Cons del: upt_Suc columns.simps(2,3)) (simp add: u upt_conv_Cons del: upt_Suc)
qed simp_all

lemma mask_walk_upt: "mask_walk [c..<c + n]"
proof (induction n arbitrary: c)
  case (Suc n)
  have "Suc c div 8 = c div 8 \<or> Suc c = 8 * (c div 8 + 1)" by presburger
  then show ?case using Suc [of "Suc c"] by (cases n) (simp_all add: upt_conv_Cons del: upt_Suc)
qed simp

lemma in_row_consecutive:
  assumes "consecutive base ps"
  shows "in_row packet_mask first 0 ps = map ((!) ps) (filter (row_bit packet_mask first) [0..<length ps])"
proof -
  have "zip ps [0..<length ps] = map (\<lambda>d. (ps ! d, d)) [0..<length ps]"
    by (rule nth_equalityI) simp_all
  then show ?thesis using columns_consecutive [OF assms, of 0]
    by (simp add: in_row_def filter_map o_def)
qed

lemma consecutive_sorted:
  assumes "consecutive base ps" "length ps \<le> 0x8000" "ps \<noteq> []"
  shows "sorted_by_seq (pkt_seq (hd ps)) pkt_seq ps" "pkt_seq (hd ps) = base"
    "c < length ps \<Longrightarrow> seq_offset (pkt_seq (hd ps)) (pkt_seq (ps ! c)) = int c"
    "c < length ps \<Longrightarrow> in_window (pkt_seq (hd ps)) (pkt_seq (ps ! c))"
proof -
  have hd: "pkt_seq (hd ps) = base" using assms(1,3) by (cases ps) (auto simp: consecutive_def)
  have o: "seq_offset base (pkt_seq (ps ! c)) = int c" if "c < length ps" for c
    using assms(1,2) that by (simp add: consecutive_def seq_offset_def u16_id)
  have w: "in_window base (pkt_seq (ps ! c))" if "c < length ps" for c
    using assms(1,2) that o [OF that] by (auto simp: in_window_def is_u16_def consecutive_def)
  show "pkt_seq (hd ps) = base" by (rule hd)
  show "c < length ps \<Longrightarrow> seq_offset (pkt_seq (hd ps)) (pkt_seq (ps ! c)) = int c" using o hd by simp
  show "c < length ps \<Longrightarrow> in_window (pkt_seq (hd ps)) (pkt_seq (ps ! c))" using w hd by simp
  show "sorted_by_seq (pkt_seq (hd ps)) pkt_seq ps"
    unfolding sorted_by_seq_def hd sorted_wrt_iff_nth_less using o w by (auto simp: in_set_conv_nth)
qed

lemma sorted_select:
  assumes "sorted_by_seq base f xs" "sorted_wrt (<) is" "\<forall>i\<in>set is. i < length xs"
  shows "sorted_by_seq base f (map ((!) xs) is)"
  using assms by (auto simp: sorted_by_seq_def sorted_wrt_map sorted_wrt_iff_nth_less)

section \<open>The FEC packets of a frame\<close>

text \<open>The media packets row \<open>i\<close> of a mask with two bytes per row protects.\<close>

definition row_of :: "int list \<Rightarrow> Packet list \<Rightarrow> nat \<Rightarrow> Packet list" where
  "row_of t media i = map ((!) media) (filter (row_bit t (i * 2)) [0..<length media])"

text \<open>The bits of every row are within the media packets, and no row is empty.\<close>

definition rows_within :: "int list \<Rightarrow> nat \<Rightarrow> nat \<Rightarrow> bool" where
  "rows_within t k m \<longleftrightarrow> (\<forall>i<m. (\<exists>c<k. row_bit t (i * 2) c) \<and> (\<forall>c. k \<le> c \<and> c < 16 \<longrightarrow> \<not> row_bit t (i * 2) c))"

lemma parse_row:
  assumes f: "is_fec_of False (row_of t media i) (hd media) (take 2 (drop (i * 2) t)) f"
    and c: "consecutive base media" "media \<noteq> []" "length media \<le> 16"
    and t: "i * 2 + 2 \<le> length t" "\<forall>c. length media \<le> c \<and> c < 16 \<longrightarrow> \<not> row_bit t (i * 2) c"
    and hd: "length (pkt_data (hd media)) = IP_PACKET_SIZE"
  shows "protected_pkt_list (parse_fec (as_received s ssrc f)) = entries (\<lambda>_. None) (row_of t media i)"
proof -
  let ?k = "length media"
  have len: "length (pkt_data f) = 1500" using f by (simp add: is_fec_of_def fec_constants)
  have nb: "num_mask_bytes (L_bit_set f) = 2" using L_bit_of [OF f] by (simp add: num_mask_bytes_def fec_constants)
  have base: "BufferToUWord16 (drop 2 (pkt_data f)) = base"
  proof -
    have "BufferToUWord16 (drop 2 (pkt_data f)) = ParseSequenceNumber (pkt_data (hd media))"
      using f len by (simp add: is_fec_of_def BufferToUWord16_def ParseSequenceNumber_def)
    then show ?thesis using consecutive_sorted(2) [OF c(1) _ c(2)] c(3) by (simp add: pkt_seq_def)
  qed
  have bits: "row_bit (pkt_data f) 12 c = row_bit t (i * 2) c" if "c < 16" for c
  proof -
    have "c div 8 < 2" using that by linarith
    then have "pkt_data f ! (12 + c div 8) = t ! (i * 2 + c div 8)"
      using f t(1) by (simp add: is_fec_of_def num_mask_bytes_def fec_constants)
    then show ?thesis by (simp add: row_bit_def)
  qed
  have "filter (row_bit (pkt_data f) 12) [0..<16] = filter (row_bit t (i * 2)) ([0..<?k] @ [?k..<16])"
    using bits upt_add_eq_append [of 0 ?k "16 - ?k"] c(3) by (intro filter_cong) auto
  also have "\<dots> = filter (row_bit t (i * 2)) [0..<?k]" using t(2) by (simp add: filter_empty_conv)
  finally have "mask_seqs (pkt_data f) base 2 = map (\<lambda>c. u16 (base + int c)) (filter (row_bit t (i * 2)) [0..<?k])"
    by (simp add: mask_seqs_filter)
  also have "\<dots> = map pkt_seq (row_of t media i)"
    using c(1) by (auto simp: row_of_def consecutive_def u16_id)
  finally show ?thesis
    by (simp add: parse_fec_def as_received_def Let_def nb base entries_def)
qed

lemma no_missing:
  assumes "consecutive base media" "media \<noteq> []" "length media \<le> 16"
  shows "InsertZerosInBitMasks media t nb n = Some (int (length media), t)"
proof (cases "length media \<le> 1")
  case False
  let ?k = "length media"
  have "last (map pkt_seq media) = base + int (?k - 1)"
    using assms by (simp add: last_map last_conv_nth consecutive_def)
  moreover have "hd (map pkt_seq media) = base" using consecutive_sorted(2) [OF assms(1) _ assms(2)] assms(3) by (simp add: hd_map assms(2))
  ultimately have "u16 (last (map pkt_seq media) - hd (map pkt_seq media)) = int ?k - 1"
    using assms(2,3) False by (simp add: u16_id of_nat_diff)
  then show ?thesis using False by (simp add: InsertZerosInBitMasks_def Let_def pkt_seq_def [symmetric])
qed (simp add: InsertZerosInBitMasks_def)

lemma number_of_fec:
  assumes "1 \<le> k" "0 < pf" "pf \<le> 255"
  shows "1 \<le> GetNumberOfFecPackets k pf" "GetNumberOfFecPackets k pf \<le> k"
proof -
  define x where "x = k * pf + 128"
  have "k * pf \<le> k * 255" "0 \<le> k * pf" using assms by (simp_all add: mult_left_mono)
  then have x: "0 \<le> x" "x \<le> k * 255 + 128" by (simp_all add: x_def)
  have "0 \<le> x div 256" "x div 256 \<le> k" using x assms(1) by linarith+
  then show "1 \<le> GetNumberOfFecPackets k pf" "GetNumberOfFecPackets k pf \<le> k"
    using assms unfolding GetNumberOfFecPackets_def Let_def shr_def x_def [symmetric] by auto
qed

lemma bursty_generate:
  assumes k: "1 \<le> length media" "length media \<le> 12" and c: "consecutive base media"
    and fit: "\<forall>p\<in>set media. fits False p" and pf: "0 < pf" "pf \<le> 255"
    and bufs: "length media \<le> length gen" "6 * length media \<le> length junk" and uep: "\<not> uep \<or> num_imp = 0"
    and m_def: "m = nat (GetNumberOfFecPackets (int (length media)) pf)"
  obtains t pm gen' where "GenerateFEC junk rtbl media pf num_imp uep kFecMaskBursty gen = Some (0, gen', m)"
    "1 \<le> m" "m \<le> length media" "mask_ok (length media) m t" "2 * m \<le> length pm"
    "\<And>i c. i < m \<Longrightarrow> c < 16 \<Longrightarrow> row_bit pm (i * 2) c = mask_rows t ! i ! c"
    "\<And>i. i < m \<Longrightarrow> row_of pm media i \<noteq> [] \<Longrightarrow>
       is_fec_of False (row_of pm media i) (hd media) (take 2 (drop (i * 2) pm)) (gen' ! i)"
proof -
  let ?k = "length media"
  have ne: "media \<noteq> []" using k(1) by auto
  have m: "1 \<le> m" "m \<le> ?k" using number_of_fec [of "int ?k" pf] k pf by (simp_all add: m_def)
  obtain t where t: "mask_entry kPacketMaskBurstyTbl ?k m = Some t" "mask_ok ?k m t" using bursty_mask [OF k m] .
  have lt: "length t = 2 * m" using t(2) by (simp add: mask_ok_def)
  define pm0 where "pm0 = replicate (m * 2) 0 @ take (m * 6 - m * 2) (drop (m * 2) junk)"
  have "m * 6 - m * 2 \<le> length junk - m * 2" using bufs(2) m by linarith
  then have lpm: "length pm0 = 6 * m" by (simp add: pm0_def min_def)
  define pm where "pm = t @ drop (2 * m) pm0"
  have gm: "GeneratePacketMasks ?k m num_imp uep kPacketMaskBurstyTbl pm0 = Some pm"
    using k(2) uep t(1) lt lpm
    by (auto simp: GeneratePacketMasks_def Let_def num_mask_bytes_def fec_constants memcpy_def pm_def mult.commute)
  have iz: "InsertZerosInBitMasks media pm 2 m = Some (int ?k, pm)" using no_missing [OF c ne] k(2) by simp
  have cols: "columns 0 media = [0..<?k]" using columns_consecutive [OF c, of 0] by simp
  have w: "mask_walk (columns 0 media)" "\<forall>d\<in>set (columns 0 media). d < 8 * num_mask_bytes False"
    using mask_walk_upt [of 0 ?k] k(2) by (simp_all add: cols num_mask_bytes_def fec_constants)
  have b: "m * num_mask_bytes False \<le> length pm" using lpm lt by (simp add: pm_def num_mask_bytes_def fec_constants)
  let ?gen = "replicate m fresh_packet @ drop m gen"
  have lg: "m \<le> length ?gen" "\<forall>i<m. ?gen ! i = \<lparr>pkt_length = 0, pkt_data = replicate IP_PACKET_SIZE 0\<rparr>"
    by (simp_all add: nth_append fresh_packet_def)
  obtain g1 g2 where g: "GenerateFecBitStrings media pm m False ?gen = Some g1" "GenerateFecUlpHeaders media pm False m g1 = Some g2"
      "\<And>i. i < m \<Longrightarrow> in_row pm (i * num_mask_bytes False) 0 media \<noteq> [] \<Longrightarrow>
         is_fec_of False (in_row pm (i * num_mask_bytes False) 0 media) (hd media)
           (take (num_mask_bytes False) (drop (i * num_mask_bytes False) pm)) (g2 ! i)"
    using sender_rows [OF ne w fit b lg] by metis
  have nb: "num_mask_bytes False = 2" by (simp add: num_mask_bytes_def fec_constants)
  have len12: "\<not> list_ex (\<lambda>p. pkt_length p < int kRtpHeaderSize) media"
    using fit by (auto simp: list_ex_iff fits_def not_less)
  have type: "PacketMaskTable rtbl kFecMaskBursty ?k = kPacketMaskBurstyTbl"
    using k(2) by (simp add: PacketMaskTable_def InitMaskType_def InitMaskTable_def kPacketMaskBurstyTbl_def)
  have size: "nat (u16 (int ?k)) = ?k" using k(2) by (simp add: u16_id)
  have "GenerateFEC junk rtbl media pf num_imp uep kFecMaskBursty gen = Some (0, g2, m)"
    using k m bufs(1) len12 gm iz g(1,2) m_def [symmetric]
    unfolding GenerateFEC_def size Let_def type pm0_def fec_constants(7) nb
    by (simp add: fec_constants num_mask_bytes_def)
  moreover have "row_bit pm (i * 2) c = mask_rows t ! i ! c" if "i < m" "c < 16" for i c
  proof -
    have "i * 2 + c div 8 < 2 * m" using that by linarith
    then have "pm ! (i * 2 + c div 8) = t ! (i * 2 + c div 8)" using lt by (simp add: pm_def nth_append)
    then show ?thesis using mask_row_bit [OF lt that] by (simp add: row_bit_def)
  qed
  moreover have "in_row pm (i * 2) 0 media = row_of pm media i" for i
    unfolding row_of_def by (rule in_row_consecutive [OF c])
  ultimately show ?thesis using that [of g2 t pm] m t(2) g(3) nb lt by (simp add: pm_def)
qed

section \<open>What the receiver knows in the end\<close>

lemma sorted_unique:
  assumes "sorted_by_seq base f xs" "sorted_by_seq base g ys" "f ` set xs = g ` set ys"
  shows "map f xs = map g ys"
proof -
  have o: "sorted_wrt (<) (map (seq_offset base) (map h zs))" if "sorted_by_seq base h zs" for h :: "'c \<Rightarrow> int" and zs
    using that by (simp add: sorted_by_seq_def sorted_wrt_map)
  have s: "sorted zs \<and> distinct zs" if "sorted_wrt (<) zs" for zs :: "int list"
    using that by (simp add: strict_sorted_iff)
  have "set (map (seq_offset base) (map f xs)) = set (map (seq_offset base) (map g ys))"
    using assms(3) by (simp add: image_image [symmetric] del: image_image)
  then have "map (seq_offset base) (map f xs) = map (seq_offset base) (map g ys)"
    using s [OF o [OF assms(1)]] s [OF o [OF assms(2)]] by (intro sorted_distinct_set_unique) simp_all
  moreover have "inj_on (seq_offset base) (set (map f xs) \<union> set (map g ys))"
    using assms(1,2) seq_offset_inject by (auto simp: inj_on_def sorted_by_seq_def in_window_def)
  ultimately show ?thesis by (rule map_inj_on)
qed

lemma receiver_complete:
  assumes frame: "fec_frame l ssrc media U" and rs: "rs_ok media rs" and all: "\<forall>p\<in>set media. known rs (pkt_seq p) \<noteq> None"
  shows "map rc_seq_num rs = map pkt_seq media" "list_all2 (\<lambda>r p. same_packet (rc_pkt r) p) rs media"
proof -
  have "rc_seq_num ` set rs = pkt_seq ` set media" using rs all by (auto simp: rs_ok_def dom_known)
  then show eq: "map rc_seq_num rs = map pkt_seq media"
    using rs frame_basic(1) [OF frame] by (intro sorted_unique) (simp_all add: rs_ok_def)
  have "same_packet (rc_pkt (rs ! i)) (media ! i)" if i: "i < length rs" for i
  proof -
    have im: "i < length media" using i eq by (metis length_map)
    have si: "rc_seq_num (rs ! i) = pkt_seq (media ! i)" using eq i im by (metis nth_map)
    obtain p where "p \<in> set media" "rc_seq_num (rs ! i) = pkt_seq p" "same_packet (rc_pkt (rs ! i)) p"
      using rs nth_mem [OF i] unfolding rs_ok_def by blast
    moreover from this have "p = media ! i" using si by (intro pkt_seq_inject [OF frame _ nth_mem [OF im]]) simp_all
    ultimately show ?thesis by simp
  qed
  then show "list_all2 (\<lambda>r p. same_packet (rc_pkt r) p) rs media"
    using arg_cong [OF eq, of length] by (simp add: list_all2_conv_all_nth)
qed

text \<open>A row whose FEC packet has arrived does not miss exactly one packet.\<close>

lemma row_not_one:
  assumes frame: "fec_frame l ssrc media U" and st: "receiver_ok ssrc media U F st rs"
    and x: "(s, row_of pm media i, f) \<in> F" and len: "length media \<le> 16" "length r = 16"
    and r: "\<And>c. c < 16 \<Longrightarrow> r ! c = row_bit pm (i * 2) c"
  shows "not_one (\<lambda>c. c < length media \<and> known rs (pkt_seq (media ! c)) = None) r"
proof -
  let ?N = "\<lambda>c. c < length media \<and> known rs (pkt_seq (media ! c)) = None" and ?sel = "row_of pm media i"
  let ?cs = "filter (\<lambda>c. row_bit pm (i * 2) c \<and> ?N c) [0..<length media]"
  have "{c. c < length r \<and> r ! c \<and> ?N c} = set ?cs" using len r by auto
  then have card: "card {c. c < length r \<and> r ! c \<and> ?N c} = length ?cs" using distinct_card [of ?cs] by simp
  have "length (filter (\<lambda>p. known rs (pkt_seq p) = None) ?sel) = length ?cs"
    by (simp add: row_of_def filter_map o_def)
       (rule arg_cong [where f = length], rule filter_cong, auto)
  moreover have "length (filter (\<lambda>p. known rs (pkt_seq p) = None) ?sel) \<noteq> 1"
  proof -
    have "F \<subseteq> U" and so: "stored_ok U ssrc F (known rs) (fec_packet_list st)"
      and two: "\<forall>fec\<in>set (fec_packet_list st). NumCoveredPacketsMissing fec = 2"
      using st by (simp_all add: receiver_ok_def)
    have "s \<in> fp_seq_num ` set (fec_packet_list st) \<or> all_known (known rs) ?sel"
      using so x by (auto simp: stored_ok_def seen_ok_def)
    then show ?thesis
    proof
      assume "s \<in> fp_seq_num ` set (fec_packet_list st)"
      then obtain fec where fec: "fec \<in> set (fec_packet_list st)" "fp_seq_num fec = s" by auto
      then obtain sel' where sel': "(s, sel', fp_pkt fec) \<in> U" "protected_pkt_list fec = entries (known rs) sel'"
        using so unfolding stored_ok_def fec_ok_def by blast
      have "(s, ?sel, f) \<in> U" using x \<open>F \<subseteq> U\<close> by blast
      then have "sel' = ?sel" using frame_fec_unique [OF frame sel'(1)] by blast
      then show ?thesis using two fec(1) sel'(2)
        by (auto simp: NumCoveredPacketsMissing_def entries_def filter_map o_def)
    next
      assume "all_known (known rs) ?sel"
      then show ?thesis by (simp add: all_known_def)
    qed
  qed
  ultimately show ?thesis using card by (simp add: not_one_def)
qed

lemma burst_window_nth:
  "a \<le> k \<Longrightarrow> length (burst_window k m a) = k"
  "c < k \<Longrightarrow> a \<le> c \<Longrightarrow> c < a + m \<Longrightarrow> burst_window k m a ! c"
  by (auto simp: burst_window_def nth_append)

section \<open>End to end\<close>

text \<open>The media packets as they are sent, followed by the FEC packets with the next sequence numbers.\<close>

definition sent_packets :: "int \<Rightarrow> Packet list \<Rightarrow> Packet list \<Rightarrow> nat \<Rightarrow> ReceivedPacket list" where
  "sent_packets ssrc media gen m =
     map (\<lambda>p. \<lparr>rx_seq_num = pkt_seq p, rx_ssrc = ssrc, is_fec = False, rx_pkt = p\<rparr>) media
     @ map (\<lambda>i. as_received (pkt_seq (hd media) + int (length media) + int i) ssrc (gen ! i)) [0..<m]"

text \<open>Whatever did not arrive was sent within \<open>m\<close> consecutive packets.\<close>

definition one_burst :: "nat \<Rightarrow> ReceivedPacket list \<Rightarrow> ReceivedPacket list \<Rightarrow> bool" where
  "one_burst m sent arrived \<longleftrightarrow> set arrived \<subseteq> set sent
     \<and> (\<exists>a. \<forall>j<length sent. sent ! j \<in> set arrived \<or> a \<le> j \<and> j < a + m)"

definition rtp_frame :: "int \<Rightarrow> Packet list \<Rightarrow> bool" where
  "rtp_frame ssrc media \<longleftrightarrow> consecutive (pkt_seq (hd media)) media
     \<and> pkt_seq (hd media) + 2 * int (length media) \<le> 65536
     \<and> (\<forall>p\<in>set media. fits False p \<and> rtp_packet p \<and> rtp_ssrc p = ssrc)"

lemma fec_frame_of_rows:
  assumes media: "rtp_frame ssrc media" "1 \<le> length media" "length media \<le> 12" and m: "m \<le> length media"
    and rows: "rows_within pm (length media) m" "2 * m \<le> length pm"
    and gen: "\<And>i. i < m \<Longrightarrow> is_fec_of False (row_of pm media i) (hd media) (take 2 (drop (i * 2) pm)) (gen ! i)"
    and U: "U = (\<lambda>i. (pkt_seq (hd media) + int (length media) + int i, row_of pm media i, gen ! i)) ` {..<m}"
  shows "fec_frame False ssrc media U" "close_seqs media U"
proof -
  let ?k = "length media" and ?b = "pkt_seq (hd media)"
  have c: "consecutive ?b media" and top: "?b + 2 * int ?k \<le> 65536"
    and pk: "\<forall>p\<in>set media. fits False p \<and> rtp_packet p \<and> rtp_ssrc p = ssrc"
    using media(1) by (simp_all add: rtp_frame_def)
  have ne: "media \<noteq> []" using media(2) by auto
  have srt: "sorted_by_seq ?b pkt_seq media" using consecutive_sorted(1) [OF c _ ne] media(3) by simp
  have hd: "length (pkt_data (hd media)) = IP_PACKET_SIZE" using pk ne by (simp add: fits_def)
  have info: "fec_info_ok False ssrc media (s, row_of pm media i, gen ! i)" if i: "i < m" for s i
  proof -
    obtain d where d: "d < ?k" "row_bit pm (i * 2) d" using rows(1) i by (auto simp: rows_within_def)
    then have "row_of pm media i \<noteq> []" by (auto simp: row_of_def filter_empty_conv)
    moreover have "set (row_of pm media i) \<subseteq> set media" by (auto simp: row_of_def)
    moreover have "sorted_by_seq ?b pkt_seq (row_of pm media i)"
      unfolding row_of_def by (rule sorted_select [OF srt]) (simp_all add: sorted_wrt_filter)
    moreover have "protected_pkt_list (parse_fec (as_received s ssrc (gen ! i))) = entries (\<lambda>_. None) (row_of pm media i)"
      using parse_row [OF gen [OF i] c ne] rows i media(3) hd by (simp add: rows_within_def)
    ultimately show ?thesis using gen [OF i] unfolding fec_info_ok_def by auto
  qed
  have fstU: "fst ` U = (\<lambda>i. ?b + int ?k + int i) ` {..<m}" by (simp add: U image_image)
  have "card (fst ` U) \<le> m" unfolding fstU by (metis card_image_le card_lessThan finite_lessThan)
  moreover have "inj_on fst U" by (auto simp: U inj_on_def)
  moreover have "finite U" by (simp add: U)
  moreover have "Ball U (fec_info_ok False ssrc media)" using info by (auto simp: U)
  ultimately show "fec_frame False ssrc media U"
    using srt pk m media(3) unfolding fec_frame_def by (simp add: kMaxFecPackets_def fec_constants)
  show "close_seqs media U"
    unfolding close_seqs_def fstU using c m media(3) by (auto simp: in_set_conv_nth consecutive_def)
qed

lemma mask_rows_wf:
  assumes "mask_ok k m t" "i < m"
  shows "length (mask_rows t ! i) = 16" "mask_rows t ! i \<in> set (mask_rows t)"
proof -
  have lt: "length t = 2 * m" using assms(1) by (simp add: mask_ok_def)
  show "length (mask_rows t ! i) = 16" using mask_rows_nth [OF lt assms(2)] by (simp add: byte_bits_map)
  show "mask_rows t ! i \<in> set (mask_rows t)" using length_mask_rows [OF lt] assms(2) by simp
qed

lemma mask_ok_within:
  assumes "mask_ok k m t" "\<And>i c. i < m \<Longrightarrow> c < 16 \<Longrightarrow> row_bit pm (i * 2) c = mask_rows t ! i ! c"
  shows "rows_within pm k m"
  unfolding rows_within_def
proof (intro allI impI conjI)
  fix i assume i: "i < m"
  note wf = mask_rows_wf [OF assms(1) i]
  have row: "list_ex id (mask_rows t ! i)" "\<not> list_ex id (drop k (mask_rows t ! i))"
    using assms(1) wf(2) by (auto simp: mask_ok_def list_all_iff)
  have far: "\<not> mask_rows t ! i ! c" if "k \<le> c" "c < 16" for c
  proof -
    have "drop k (mask_rows t ! i) ! (c - k) = mask_rows t ! i ! c" "c - k < length (drop k (mask_rows t ! i))"
      using that wf(1) by simp_all
    then show ?thesis using row(2) unfolding list_ex_length by (metis id_apply)
  qed
  show "\<exists>c<k. row_bit pm (i * 2) c"
  proof -
    obtain c where c: "c < 16" "mask_rows t ! i ! c" using row(1) wf(1) by (auto simp: list_ex_length)
    then have "c < k" using far [of c] by linarith
    then show ?thesis using c assms(2) [OF i c(1)] by blast
  qed
  show "\<not> row_bit pm (i * 2) c" if "k \<le> c \<and> c < 16" for c using far [of c] assms(2) [OF i, of c] that by simp
qed

lemma sent_genuine:
  assumes "U = (\<lambda>i. (pkt_seq (hd media) + int (length media) + int i, row_of pm media i, gen ! i)) ` {..<m}"
    and "rx \<in> set (sent_packets ssrc media gen m)"
  shows "genuine ssrc media U rx"
proof -
  have "\<exists>sel. (pkt_seq (hd media) + int (length media) + int i, sel, gen ! i) \<in> U" if "i < m" for i
    using that unfolding assms(1) by (intro exI [of _ "row_of pm media i"] image_eqI [of _ _ i]) simp_all
  then show ?thesis using assms(2) by (auto simp: sent_packets_def genuine_def same_packet_def as_received_def)
qed

text \<open>After the loss of a burst a receiver in good order knows every media packet.\<close>

lemma burst_all_known:
  assumes frame: "fec_frame False ssrc media U" and k: "length media \<le> 16" and mask: "mask_ok (length media) m t"
    and bits: "\<And>i c. i < m \<Longrightarrow> c < 16 \<Longrightarrow> row_bit pm (i * 2) c = mask_rows t ! i ! c"
    and U: "U = (\<lambda>i. (pkt_seq (hd media) + int (length media) + int i, row_of pm media i, gen ! i)) ` {..<m}"
    and st: "receiver_ok ssrc media U (fecs_of U arrived) st rs"
    and known: "\<forall>rx\<in>set arrived. \<not> is_fec rx \<longrightarrow> known rs (rx_seq_num rx) \<noteq> None"
    and a: "\<forall>j<length media + m. sent_packets ssrc media gen m ! j \<in> set arrived \<or> a \<le> j \<and> j < a + m"
  shows "\<forall>p\<in>set media. known rs (pkt_seq p) \<noteq> None"
proof -
  let ?k = "length media" and ?sent = "sent_packets ssrc media gen m"
  let ?N = "\<lambda>c. c < ?k \<and> known rs (pkt_seq (media ! c)) = None"
  have lt: "length t = 2 * m" using mask by (simp add: mask_ok_def)
  have lost: "a \<le> c \<and> c < a + m" if "?N c" for c
  proof -
    have "?sent ! c = \<lparr>rx_seq_num = pkt_seq (media ! c), rx_ssrc = ssrc, is_fec = False, rx_pkt = media ! c\<rparr>"
      using that by (simp add: sent_packets_def nth_append)
    then have "?sent ! c \<notin> set arrived" using known that by fastforce
    then show ?thesis using a that by (meson trans_less_add1)
  qed
  have row: "not_one ?N (mask_rows t ! i)" if i: "i < m" "a + m - ?k \<le> i" for i
  proof (rule row_not_one [OF frame st _ _ mask_rows_wf(1) [OF mask i(1)]])
    have s: "?sent ! (?k + i) = as_received (pkt_seq (hd media) + int ?k + int i) ssrc (gen ! i)"
      using i(1) by (simp add: sent_packets_def nth_append)
    have "?sent ! (?k + i) \<in> set arrived" using a i by (metis add.commute add_less_cancel_left le_diff_conv not_le)
    then show "(pkt_seq (hd media) + int ?k + int i, row_of pm media i, gen ! i) \<in> fecs_of U arrived"
      using s i(1) by (force simp: fecs_of_def U as_received_def)
    show "mask_rows t ! i ! c = row_bit pm (i * 2) c" if "c < 16" for c using bits [OF i(1) that] by simp
  qed (rule k)
  have "\<not> ?N c" for c
  proof (cases "a \<le> ?k")
    case True
    let ?l = "burst_window ?k m a" and ?rows = "drop (a + m - ?k) (mask_rows t)"
    have "recovers_all ?rows ?l ?l"
      using mask True unfolding mask_ok_def burst_ok_def list_all_iff Let_def by (cases "a = ?k") simp_all
    moreover have "\<forall>r\<in>set ?rows. not_one ?N r" using row length_mask_rows [OF lt] by (auto simp: in_set_conv_nth)
    moreover have "unknown_in ?N ?l"
      using lost burst_window_nth(1) [of a ?k m] burst_window_nth(2) [of _ ?k a m] True by (auto simp: unknown_in_def)
    ultimately show ?thesis using recovers_all_sound by blast
  next
    case False
    then show ?thesis using lost [of c] by linarith
  qed
  then show ?thesis by (metis in_set_conv_nth)
qed

text \<open>
  C3. Sender, lossy channel and receiver together. The frame has 1 to 12 RTP packets of one source with consecutive sequence numbers,
  which like those of the FEC packets after them do not wrap around, and packets of 12 to 1498 bytes that fit the buffers; the FEC
  packets are made by \<open>GenerateFEC\<close> with the masks for bursts and equal protection (no unequal protection asked for,
  or no important packets). Then, whatever is lost among \<open>m\<close> packets sent in a row (\<open>m\<close> the number of FEC
  packets, which are sent after the media packets), and in whatever order, portions and repetitions the others arrive,
  the calls of \<open>DecodeFEC\<close> on a new receiver return and leave exactly the media packets of the frame in the recovered list,
  in order, each with its length and all its bytes. Frames with a gap in their sequence numbers are not covered: there two
  losses in a row are not always recovered.
\<close>

theorem bursty_recovery:
  assumes media: "rtp_frame ssrc media" "1 \<le> length media" "length media \<le> 12" and pf: "0 < pf" "pf \<le> 255"
    and bufs: "length media \<le> length gen" "6 * length media \<le> length junk" and uep: "\<not> uep \<or> num_imp = 0"
    and m_def: "m = nat (GetNumberOfFecPackets (int (length media)) pf)"
  shows "\<exists>gen'. GenerateFEC junk rtbl media pf num_imp uep kFecMaskBursty gen = Some (0, gen', m) \<and>
     (\<forall>calls. one_burst m (sent_packets ssrc media gen' m) (concat calls) \<longrightarrow>
       (\<exists>st rs. decode_calls calls ForwardErrorCorrection_init [] = Some (st, rs)
          \<and> map rc_seq_num rs = map pkt_seq media \<and> list_all2 (\<lambda>r p. same_packet (rc_pkt r) p) rs media))"
proof -
  let ?k = "length media" and ?b = "pkt_seq (hd media)"
  have c: "consecutive ?b media" and fit: "\<forall>p\<in>set media. fits False p"
    using media(1) by (simp_all add: rtp_frame_def)
  obtain t pm gen' where g: "GenerateFEC junk rtbl media pf num_imp uep kFecMaskBursty gen = Some (0, gen', m)"
      "1 \<le> m" "m \<le> ?k" "mask_ok ?k m t" "2 * m \<le> length pm"
      "\<And>i c. i < m \<Longrightarrow> c < 16 \<Longrightarrow> row_bit pm (i * 2) c = mask_rows t ! i ! c"
      "\<And>i. i < m \<Longrightarrow> row_of pm media i \<noteq> [] \<Longrightarrow>
         is_fec_of False (row_of pm media i) (hd media) (take 2 (drop (i * 2) pm)) (gen' ! i)"
    by (rule bursty_generate [where rtbl = rtbl, OF media(2,3) c fit pf bufs uep m_def]) (rule that; assumption)
  note within = mask_ok_within [OF g(4) g(6)]
  have ne: "row_of pm media i \<noteq> []" if "i < m" for i
  proof -
    obtain d where "d < ?k" "row_bit pm (i * 2) d" using within \<open>i < m\<close> by (auto simp: rows_within_def)
    then show ?thesis by (auto simp: row_of_def filter_empty_conv)
  qed
  have is_fec: "is_fec_of False (row_of pm media i) (hd media) (take 2 (drop (i * 2) pm)) (gen' ! i)" if "i < m" for i
    using g(7) [OF that ne [OF that]] .
  define U where "U = (\<lambda>i. (?b + int ?k + int i, row_of pm media i, gen' ! i)) ` {..<m}"
  note frame = fec_frame_of_rows [OF media g(3) within g(5) is_fec U_def]
  have "\<exists>st rs. decode_calls calls ForwardErrorCorrection_init [] = Some (st, rs)
      \<and> map rc_seq_num rs = map pkt_seq media \<and> list_all2 (\<lambda>r p. same_packet (rc_pkt r) p) rs media"
    if burst: "one_burst m (sent_packets ssrc media gen' m) (concat calls)" for calls
  proof -
    let ?sent = "sent_packets ssrc media gen' m"
    have arrived: "set (concat calls) \<subseteq> set ?sent" using burst by (simp add: one_burst_def)
    obtain a where a: "\<forall>j<?k + m. ?sent ! j \<in> set (concat calls) \<or> a \<le> j \<and> j < a + m"
      using burst unfolding one_burst_def sent_packets_def by auto
    have gen': "\<forall>rx\<in>set (concat calls). genuine ssrc media U rx" using arrived sent_genuine [OF U_def] by blast
    obtain st rs where d: "decode_calls calls ForwardErrorCorrection_init [] = Some (st, rs)"
        "receiver_ok ssrc media U (fecs_of U (concat calls)) st rs"
        "\<forall>rx\<in>set (concat calls). \<not> is_fec rx \<longrightarrow> known rs (rx_seq_num rx) \<noteq> None"
      using decode_calls_ok [OF frame receiver_init gen', unfolded Un_empty_left] by blast
    have "\<forall>p\<in>set media. known rs (pkt_seq p) \<noteq> None"
      using media(3) by (intro burst_all_known [OF frame(1) _ g(4) g(6) U_def d(2,3) a]) simp_all
    then show ?thesis using d(1) receiver_complete [OF frame(1)] d(2) by (auto simp: receiver_ok_def)
  qed
  then show ?thesis using g(1) by blast
qed

lemma example_frame: "rtp_frame 7 [example_media 10 42, example_media 11 43, example_media 12 44]"
  by (auto simp: rtp_frame_def consecutive_def example_media_ok is_u8_def less_Suc_eq)

lemma bursty_recovery_witness:
  "\<exists>gen' st rs. GenerateFEC (replicate 300 0) [] [example_media 10 42, example_media 11 43, example_media 12 44]
       170 0 False kFecMaskBursty (replicate 48 fresh_packet) = Some (0, gen', 2)
     \<and> decode_calls [drop 2 (sent_packets 7 [example_media 10 42, example_media 11 43, example_media 12 44] gen' 2)]
         ForwardErrorCorrection_init [] = Some (st, rs)
     \<and> map rc_seq_num rs = map pkt_seq [example_media 10 42, example_media 11 43, example_media 12 44]"
proof -
  let ?media = "[example_media 10 42, example_media 11 43, example_media 12 44]"
  have "2 = nat (GetNumberOfFecPackets (int (length ?media)) 170)"
    by (simp add: GetNumberOfFecPackets_def shr_def)
  then obtain gen' where g: "GenerateFEC (replicate 300 0) [] ?media 170 0 False kFecMaskBursty (replicate 48 fresh_packet)
      = Some (0, gen', 2)"
    "\<forall>calls. one_burst 2 (sent_packets 7 ?media gen' 2) (concat calls) \<longrightarrow>
       (\<exists>st rs. decode_calls calls ForwardErrorCorrection_init [] = Some (st, rs)
          \<and> map rc_seq_num rs = map pkt_seq ?media \<and> list_all2 (\<lambda>r p. same_packet (rc_pkt r) p) rs ?media)"
    using bursty_recovery [of 7 ?media 170 "replicate 48 fresh_packet" "replicate 300 0" False 0 2 "[]"] example_frame by auto
  have "one_burst 2 (sent_packets 7 ?media gen' 2) (concat [drop 2 (sent_packets 7 ?media gen' 2)])"
    unfolding one_burst_def by (intro conjI exI [of _ 0]) (auto simp: sent_packets_def less_Suc_eq upt_rec nth_Cons')
  then show ?thesis using g by blast
qed

end
