(* ===== verification/Rtp_Fec_Zeros.thy ===== *)
theory Rtp_Fec_Zeros
  imports Rtp_Fec_Xor Rtp_Fec_Masks
begin

text \<open>
  \<open>InsertZerosInBitMasks\<close> moves the columns of a mask apart where sequence numbers are missing. It shifts the bits of
  every row out of the old mask and into the new one, a byte under construction being kept shifted by one place; the
  abstraction is the list of bits written so far.
\<close>

section \<open>Bits of a row\<close>

definition bits_val :: "bool list \<Rightarrow> int" where
  "bits_val bs = foldl (\<lambda>a b. 2 * a + of_bool b) 0 bs"

lemma bits_val_simps [simp]: "bits_val [] = 0" "bits_val (bs @ [b]) = 2 * bits_val bs + of_bool b"
  by (simp_all add: bits_val_def)

lemma bits_val_bounds: "0 \<le> bits_val bs" "bits_val bs < 2 ^ length bs"
proof -
  have "0 \<le> bits_val bs \<and> bits_val bs < 2 ^ length bs" by (induction bs rule: rev_induct) auto
  then show "0 \<le> bits_val bs" "bits_val bs < 2 ^ length bs" by simp_all
qed

lemma bits_val_zeros: "bits_val (bs @ replicate z False) = bits_val bs * 2 ^ z"
proof (induction z)
  case (Suc z)
  have "bs @ replicate (Suc z) False = (bs @ replicate z False) @ [False]" by (simp add: replicate_append_same)
  then show ?case using Suc by (simp only: bits_val_simps) simp
qed simp

lemma bit_bits_val: "bit (bits_val bs) i \<longleftrightarrow> i < length bs \<and> bs ! (length bs - 1 - i)"
proof (induction bs arbitrary: i rule: rev_induct)
  case (snoc b bs)
  show ?case
  proof (cases i)
    case 0
    then show ?thesis by (simp add: bit_0)
  next
    case (Suc j)
    have "(2 * bits_val bs + of_bool b) div 2 = bits_val bs" by simp
    then show ?thesis using snoc [of j] Suc by (auto simp: bit_Suc nth_append)
  qed
qed simp

text \<open>Byte \<open>k\<close> of a row into which the bits \<open>ws\<close> have been written.\<close>

definition row_byte :: "bool list \<Rightarrow> nat \<Rightarrow> int" where
  "row_byte ws k = (let seg = take 8 (drop (8 * k) ws) in if 8 * k + 8 \<le> length ws then bits_val seg else 2 * bits_val seg)"

lemma row_byte_last: "row_byte ws (length ws div 8) = 2 * bits_val (drop (8 * (length ws div 8)) ws)"
  and row_byte_small: "row_byte ws (length ws div 8) * 2 ^ (7 - length ws mod 8) < 256" "0 \<le> row_byte ws k"
proof -
  let ?q = "length ws div 8" and ?m = "length ws mod 8"
  have m: "length ws - 8 * ?q = ?m" "?m < 8" "\<not> 8 * ?q + 8 \<le> length ws" by (simp_all add: minus_mult_div_eq_mod)
  then show eq: "row_byte ws ?q = 2 * bits_val (drop (8 * ?q) ws)" by (simp add: row_byte_def Let_def)
  have "bits_val (drop (8 * ?q) ws) < 2 ^ ?m" using bits_val_bounds(2) [of "drop (8 * ?q) ws"] m(1) by simp
  then have "2 * bits_val (drop (8 * ?q) ws) * 2 ^ (7 - ?m) < 2 * 2 ^ ?m * 2 ^ (7 - ?m)" by simp
  also have "(2::int) * 2 ^ ?m * 2 ^ (7 - ?m) = 256" using m(2) by (simp add: power_add [symmetric])
  finally show "row_byte ws ?q * 2 ^ (7 - ?m) < 256" using eq by simp
  show "0 \<le> row_byte ws k" using bits_val_bounds(1) by (simp add: row_byte_def Let_def)
qed

lemma row_byte_snoc:
  "row_byte (ws @ [b]) k = (if k = length ws div 8 then
      (let v = row_byte ws k + of_bool b in if length ws mod 8 \<noteq> 7 then 2 * v else v) else row_byte ws k)"
proof -
  let ?L = "length ws"
  consider "k < ?L div 8" | "k = ?L div 8" | "?L div 8 < k" by linarith
  then show ?thesis
  proof cases
    case 1
    then have "8 * k + 8 \<le> ?L" by linarith
    then show ?thesis using 1 by (simp add: row_byte_def Let_def)
  next
    case 2
    have "8 * k + ?L mod 8 = ?L" "?L mod 8 < 8" using 2 mult_div_mod_eq [of 8 ?L] by simp_all
    then have d: "8 * k \<le> ?L" "?L < 8 * k + 8" "?L mod 8 = 7 \<longleftrightarrow> ?L = 8 * k + 7" by linarith+
    have "row_byte (ws @ [b]) k = (if 8 * k + 8 \<le> ?L + 1 then bits_val (drop (8 * k) ws @ [b]) else 2 * bits_val (drop (8 * k) ws @ [b]))"
      using d(1,2) by (simp add: row_byte_def Let_def)
    moreover have "8 * k + 8 \<le> ?L + 1 \<longleftrightarrow> ?L mod 8 = 7" using d by linarith
    ultimately show ?thesis using 2 row_byte_last [of ws] by (simp add: Let_def)
  next
    case 3
    then have "?L < 8 * k" by linarith
    then show ?thesis using 3 by (simp add: row_byte_def Let_def)
  qed
qed

lemma row_byte_zeros:
  "row_byte (ws @ replicate z False) k
     = (if k = length ws div 8 then row_byte ws k * 2 ^ min z (7 - length ws mod 8) else row_byte ws k)"
proof -
  let ?L = "length ws"
  consider "k < ?L div 8" | "k = ?L div 8" | "?L div 8 < k" by linarith
  then show ?thesis
  proof cases
    case 1
    then have "8 * k + 8 \<le> ?L" by linarith
    then show ?thesis using 1 by (simp add: row_byte_def Let_def)
  next
    case 2
    let ?m = "?L mod 8" and ?v = "bits_val (drop (8 * k) ws)"
    have d: "?L - 8 * k = ?m" "?m < 8" "8 * k \<le> ?L" using 2 by (simp_all add: minus_mult_div_eq_mod)
    have v: "bits_val (take 8 (drop (8 * k) (ws @ replicate z False))) = ?v * 2 ^ min (8 - ?m) z"
      using d by (simp add: bits_val_zeros min.commute)
    show ?thesis
    proof (cases "?m + z < 8")
      case True
      then have "\<not> 8 * k + 8 \<le> ?L + z" "min (8 - ?m) z = z" "min z (7 - ?m) = z" using d by linarith+
      then show ?thesis using 2 v row_byte_last [of ws] by (simp add: row_byte_def [of "ws @ _"] Let_def)
    next
      case False
      then have "8 * k + 8 \<le> ?L + z" "min (8 - ?m) z = Suc (7 - ?m)" "min z (7 - ?m) = 7 - ?m" using d by linarith+
      then show ?thesis using 2 v row_byte_last [of ws] by (simp add: row_byte_def [of "ws @ _"] Let_def)
    qed
  next
    case 3
    then have "?L < 8 * k" by linarith
    moreover have "bits_val (replicate n False) = 0" for n using bits_val_zeros [of "[]" n] by simp
    ultimately show ?thesis using 3 by (simp add: row_byte_def Let_def)
  qed
qed

section \<open>Loops over the rows\<close>

lemma row_index: "k < nb \<Longrightarrow> q < nb \<Longrightarrow> r * nb + k = i * nb + q \<longleftrightarrow> r = i \<and> k = (q :: nat)"
proof
  assume k: "k < nb" "q < nb" and e: "r * nb + k = i * nb + q"
  have "(r * nb + k) div nb = r" "(i * nb + q) div nb = i" using k by simp_all
  then have "r = i" using e by simp
  then show "r = i \<and> k = q" using e by simp
qed simp

lemma row_bound: "r < n \<Longrightarrow> k < nb \<Longrightarrow> n * nb \<le> len \<Longrightarrow> r * nb + k < (len :: nat)"
proof -
  assume a: "r < n" "k < nb" "n * nb \<le> len"
  have "(r + 1) * nb \<le> n * nb" using a(1) by (intro mult_le_mono1) simp
  then show ?thesis using a(2,3) by simp
qed

definition same_but :: "nat \<Rightarrow> nat \<Rightarrow> nat \<Rightarrow> (nat \<Rightarrow> int \<Rightarrow> int) \<Rightarrow> int list \<Rightarrow> int list \<Rightarrow> bool" where
  "same_but nb q n g xs ys \<longleftrightarrow> length ys = length xs
     \<and> (\<forall>r k. k < nb \<longrightarrow> r * nb + k < length xs \<longrightarrow> ys ! (r * nb + k) = (if r < n \<and> k = q then g r (xs ! (r * nb + k)) else xs ! (r * nb + k)))"

lemma same_but_nth:
  "same_but nb q n g xs ys \<Longrightarrow> r < n \<Longrightarrow> k < nb \<Longrightarrow> r * nb + k < length xs \<Longrightarrow>
     ys ! (r * nb + k) = (if k = q then g r (xs ! (r * nb + k)) else xs ! (r * nb + k))"
  by (simp add: same_but_def)

lemma same_but_step:
  assumes "same_but nb q n g xs ys" "q < nb" "n * nb + q < length xs"
  shows "same_but nb q (Suc n) g xs (ys[n * nb + q := g n (xs ! (n * nb + q))])" "ys ! (n * nb + q) = xs ! (n * nb + q)"
proof -
  show "ys ! (n * nb + q) = xs ! (n * nb + q)" using assms by (simp add: same_but_def)
  show "same_but nb q (Suc n) g xs (ys[n * nb + q := g n (xs ! (n * nb + q))])"
    unfolding same_but_def
  proof (intro conjI allI impI)
    show "length (ys[n * nb + q := g n (xs ! (n * nb + q))]) = length xs" using assms(1) by (simp add: same_but_def)
    fix r k assume k: "k < nb" "r * nb + k < length xs"
    show "ys[n * nb + q := g n (xs ! (n * nb + q))] ! (r * nb + k)
        = (if r < Suc n \<and> k = q then g r (xs ! (r * nb + k)) else xs ! (r * nb + k))"
    proof (cases "r = n \<and> k = q")
      case True
      then show ?thesis using assms(1,3) by (simp add: same_but_def)
    next
      case False
      then have "r * nb + k \<noteq> n * nb + q" using row_index [OF k(1) assms(2)] by blast
      then have "ys[n * nb + q := g n (xs ! (n * nb + q))] ! (r * nb + k) = ys ! (r * nb + k)" by simp
      moreover have "r < Suc n \<and> k = q \<longleftrightarrow> r < n \<and> k = q" using False by linarith
      ultimately show ?thesis using assms(1) k by (simp add: same_but_def)
    qed
  qed
qed

lemma one_list_loop:
  assumes "q < nb" "n * nb \<le> length xs"
  shows "\<exists>ys. foldl (\<lambda>acc row. do { new \<leftarrow> acc; b \<leftarrow> at_opt new (row * nb + q); Some (new[row * nb + q := g b]) }) (Some xs) [0..<n]
      = Some ys \<and> same_but nb q n (\<lambda>_. g) xs ys"
  using assms(2)
proof (induction n)
  case 0
  then show ?case by (simp add: same_but_def)
next
  case (Suc n)
  obtain ys where ys: "foldl (\<lambda>acc row. do { new \<leftarrow> acc; b \<leftarrow> at_opt new (row * nb + q); Some (new[row * nb + q := g b]) }) (Some xs) [0..<n]
      = Some ys" "same_but nb q n (\<lambda>_. g) xs ys"
    using Suc by auto
  have i: "n * nb + q < length xs" using row_bound [OF lessI assms(1) Suc.prems] .
  have "length ys = length xs" using ys(2) by (simp add: same_but_def)
  then show ?case using ys i same_but_step [OF ys(2) assms(1) i] by (simp add: at_opt_def)
qed

lemma two_list_loop:
  assumes "q < nb" "n * nb \<le> length xs" "p < ob" "n * ob \<le> length os"
  shows "\<exists>ys ps. foldl (\<lambda>acc row. do { (new, old) \<leftarrow> acc; a \<leftarrow> at_opt new (row * nb + q); b \<leftarrow> at_opt old (row * ob + p);
           Some (new[row * nb + q := g a b], old[row * ob + p := h b]) }) (Some (xs, os)) [0..<n] = Some (ys, ps)
     \<and> same_but nb q n (\<lambda>r a. g a (os ! (r * ob + p))) xs ys \<and> same_but ob p n (\<lambda>_. h) os ps"
  using assms(2,4)
proof (induction n)
  case 0
  then show ?case by (simp add: same_but_def)
next
  case (Suc n)
  let ?f = "\<lambda>acc row. do { (new, old) \<leftarrow> acc; a \<leftarrow> at_opt new (row * nb + q); b \<leftarrow> at_opt old (row * ob + p);
           Some (new[row * nb + q := g a b], old[row * ob + p := h b]) }"
  obtain ys ps where ys: "foldl ?f (Some (xs, os)) [0..<n] = Some (ys, ps)"
      "same_but nb q n (\<lambda>r a. g a (os ! (r * ob + p))) xs ys" "same_but ob p n (\<lambda>_. h) os ps"
    using Suc by auto
  have i: "n * nb + q < length xs" and j: "n * ob + p < length os"
    using row_bound [OF lessI assms(1) Suc.prems(1)] row_bound [OF lessI assms(3) Suc.prems(2)] by simp_all
  have "length ys = length xs" "length ps = length os" using ys(2,3) by (simp_all add: same_but_def)
  then show ?case using ys(1) i j same_but_step [OF ys(2) assms(1) i] same_but_step [OF ys(3) assms(3) j]
    by (simp add: at_opt_def)
qed

section \<open>The invariant\<close>

definition holds_rows :: "nat \<Rightarrow> nat \<Rightarrow> (nat \<Rightarrow> bool list) \<Rightarrow> int list \<Rightarrow> bool" where
  "holds_rows nb n ws xs \<longleftrightarrow> n * nb \<le> length xs \<and> (\<forall>r<n. \<forall>k<nb. xs ! (r * nb + k) = row_byte (ws r) k)"

text \<open>The old mask after \<open>j\<close> columns: the first byte loses its bits first.\<close>

definition shifted_rows :: "nat \<Rightarrow> nat \<Rightarrow> int list \<Rightarrow> nat \<Rightarrow> int list \<Rightarrow> bool" where
  "shifted_rows ob n orig j xs \<longleftrightarrow> n * ob \<le> length xs \<and> length xs = length orig
     \<and> (\<forall>r<n. \<forall>k<ob. xs ! (r * ob + k) = u8 (shl (orig ! (r * ob + k)) (j - 8 * k)))"

lemma u8_shl_far: "8 \<le> s \<Longrightarrow> u8 (shl x s) = 0"
proof -
  assume "8 \<le> s"
  then have "(2::int) ^ s = 2 ^ 8 * 2 ^ (s - 8)" unfolding power_add [symmetric] by simp
  then show ?thesis by (simp add: u8_def shl_def)
qed

lemma u8_shl_shl: "u8 (shl (u8 (shl x s)) 1) = u8 (shl x (Suc s))"
  by (simp add: u8_def shl_def mod_mult_right_eq ac_simps)

lemma top_bit_shifted: "s < 8 \<Longrightarrow> shr (u8 (shl x s) AND 0x80) 7 = of_bool (bit x (7 - s))"
proof -
  assume s: "s < 8"
  have u: "u8 (shl x s) = take_bit 8 (push_bit s x)" by (simp add: u8_def shl_push_bit take_bit_eq_mod)
  have "y AND 2 ^ 7 = of_bool (bit y 7) * 2 ^ 7" for y :: int
    by (rule bit_eqI, cases "bit y 7") (auto simp: bit_and_iff bit_exp_iff simp del: power_numeral)
  then have "y AND 0x80 = of_bool (bit y 7) * 0x80" for y :: int by simp
  then show ?thesis unfolding u using s by (simp add: shr_def bit_take_bit_iff bit_push_bit_iff)
qed

section \<open>The steps\<close>

lemma or_of_bool: "even x \<Longrightarrow> x OR of_bool b = x + of_bool b" for x :: int
  by (cases b) (simp_all add: or_one_eq)

lemma u8_double: "0 \<le> x \<Longrightarrow> 2 * x < 256 \<Longrightarrow> u8 (shl x 1) = 2 * x"
  by (simp add: shl_def u8_def)

lemma CopyColumn_step:
  assumes new: "holds_rows nb n ws new" "\<forall>r<n. length (ws r) = L" "L < 8 * nb"
    and old: "shifted_rows ob n orig j old" "j < 8 * ob"
  obtains new' old' where "CopyColumn nb ob n L j (new, old) = Some (new', old')"
    "length new' = length new" "holds_rows nb n (\<lambda>r. ws r @ [row_bit orig (r * ob) j]) new'" "shifted_rows ob n orig (Suc j) old'"
proof -
  let ?q = "L div 8" and ?p = "j div 8"
  define g where "g a b = (let c = a OR shr (b AND 0x80) 7 in if L mod 8 \<noteq> 7 then u8 (shl c 1) else c)" for a b
  have q: "?q < nb" "?p < ob" using new(3) old(2) by (simp_all add: less_mult_imp_div_less mult.commute)
  have len: "n * nb \<le> length new" "n * ob \<le> length old" using new(1) old(1) by (simp_all add: holds_rows_def shifted_rows_def)
  obtain new' old' where l: "foldl (\<lambda>acc row. do { (new, old) \<leftarrow> acc; a \<leftarrow> at_opt new (row * nb + ?q); b \<leftarrow> at_opt old (row * ob + ?p);
           Some (new[row * nb + ?q := g a b], old[row * ob + ?p := u8 (shl b 1)]) }) (Some (new, old)) [0..<n] = Some (new', old')"
      "same_but nb ?q n (\<lambda>r a. g a (old ! (r * ob + ?p))) new new'" "same_but ob ?p n (\<lambda>_ b. u8 (shl b 1)) old old'"
    using two_list_loop [OF q(1) len(1) q(2) len(2), of g "\<lambda>b. u8 (shl b 1)"] by blast
  have "CopyColumn nb ob n L j (new, old) = Some (new', old')"
    using l(1) unfolding CopyColumn_def g_def Let_def .
  moreover have "length new' = length new" using l(2) by (simp add: same_but_def)
  moreover have "holds_rows nb n (\<lambda>r. ws r @ [row_bit orig (r * ob) j]) new'"
    unfolding holds_rows_def
  proof (intro conjI allI impI)
    show "n * nb \<le> length new'" using l(2) len(1) by (simp add: same_but_def)
    fix r k assume r: "r < n" "k < nb"
    let ?b = "row_bit orig (r * ob) j" and ?v = "row_byte (ws r) ?q"
    have L: "length (ws r) = L" using new(2) r(1) by simp
    have nw: "new ! (r * nb + k) = row_byte (ws r) k" using new(1) r by (simp add: holds_rows_def)
    have s: "new' ! (r * nb + k) = (if k = ?q then g (row_byte (ws r) k) (old ! (r * ob + ?p)) else row_byte (ws r) k)"
      using same_but_nth [OF l(2) r row_bound [OF r len(1)]] unfolding nw .
    have o: "shr (old ! (r * ob + ?p) AND 0x80) 7 = of_bool ?b"
    proof -
      have "old ! (r * ob + ?p) = u8 (shl (orig ! (r * ob + ?p)) (j mod 8))"
        using old(1) r(1) q(2) by (simp add: shifted_rows_def minus_mult_div_eq_mod)
      then show ?thesis by (simp add: top_bit_shifted row_bit_def)
    qed
    have "g ?v (old ! (r * ob + ?p)) = (let v = ?v + of_bool ?b in if L mod 8 \<noteq> 7 then 2 * v else v)"
    proof -
      have "even ?v" using row_byte_last [of "ws r"] L by simp
      then have c: "?v OR of_bool ?b = ?v + of_bool ?b" by (rule or_of_bool)
      have lt: "2 * (?v + of_bool ?b) < 256" if "L mod 8 \<noteq> 7"
      proof -
        have "L mod 8 < 8" by simp
        then have d: "7 - L mod 8 = Suc (6 - L mod 8)" using that by linarith
        define d where "d = 6 - L mod 8"
        have nn: "0 \<le> ?v" by (rule row_byte_small(2))
        have "?v * 2 ^ Suc d < 256" using row_byte_small(1) [of "ws r"] L unfolding d_def d [symmetric] by simp
        moreover have "?v * 2 \<le> ?v * 2 ^ Suc d" using nn by (intro mult_left_mono) simp_all
        ultimately have "?v * 2 < 256" by simp
        then show ?thesis using \<open>even ?v\<close> by (elim evenE) (cases ?b; simp)
      qed
      have nn: "0 \<le> ?v + of_bool ?b" using row_byte_small(2) [of "ws r" ?q] by simp
      have u: "u8 (shl (?v + of_bool ?b) 1) = 2 * (?v + of_bool ?b)" if "L mod 8 \<noteq> 7"
        by (rule u8_double [OF nn lt [OF that]])
      show ?thesis unfolding g_def Let_def o c using u by simp
    qed
    then show "new' ! (r * nb + k) = row_byte (ws r @ [?b]) k" unfolding s row_byte_snoc L by simp
  qed
  moreover have "shifted_rows ob n orig (Suc j) old'"
    unfolding shifted_rows_def
  proof (intro conjI allI impI)
    show "n * ob \<le> length old'" "length old' = length orig" using l(3) len(2) old(1) by (simp_all add: same_but_def shifted_rows_def)
    fix r k assume r: "r < n" "k < ob"
    have ol: "old ! (r * ob + k) = u8 (shl (orig ! (r * ob + k)) (j - 8 * k))" using old(1) r by (simp add: shifted_rows_def)
    have s: "old' ! (r * ob + k) = (if k = ?p then u8 (shl (old ! (r * ob + k)) 1) else old ! (r * ob + k))"
      using l(3) r row_bound [OF r len(2)] by (simp add: same_but_def)
    consider "k < ?p" | "k = ?p" | "?p < k" by linarith
    then show "old' ! (r * ob + k) = u8 (shl (orig ! (r * ob + k)) (Suc j - 8 * k))"
    proof cases
      case 1
      then have "8 \<le> j - 8 * k" "8 \<le> Suc j - 8 * k" by linarith+
      then show ?thesis using s ol 1 by (simp add: u8_shl_far)
    next
      case 2
      then have "Suc j - 8 * k = Suc (j - 8 * k)" by linarith
      then show ?thesis using s ol 2 by (simp add: u8_shl_shl [unfolded One_nat_def])
    next
      case 3
      then have "j - 8 * k = 0" "Suc j - 8 * k = 0" by linarith+
      then show ?thesis using s ol 3 by simp
    qed
  qed
  ultimately show ?thesis using that by blast
qed

lemma zeros_step:
  assumes new: "holds_rows nb n ws new" "\<forall>r<n. length (ws r) = L" "L < 8 * nb"
    and g: "\<And>r. r < n \<Longrightarrow> g (row_byte (ws r) (L div 8)) = row_byte (ws r) (L div 8) * 2 ^ min z (7 - L mod 8)"
  shows "\<exists>new'. foldl (\<lambda>acc row. do { new \<leftarrow> acc; b \<leftarrow> at_opt new (row * nb + L div 8); Some (new[row * nb + L div 8 := g b]) })
      (Some new) [0..<n] = Some new' \<and> length new' = length new \<and> holds_rows nb n (\<lambda>r. ws r @ replicate z False) new'"
proof -
  let ?q = "L div 8"
  have q: "?q < nb" using new(3) by (simp add: less_mult_imp_div_less mult.commute)
  have len: "n * nb \<le> length new" using new(1) by (simp add: holds_rows_def)
  obtain new' where l: "foldl (\<lambda>acc row. do { new \<leftarrow> acc; b \<leftarrow> at_opt new (row * nb + ?q); Some (new[row * nb + ?q := g b]) })
      (Some new) [0..<n] = Some new'" "same_but nb ?q n (\<lambda>_. g) new new'"
    using one_list_loop [OF q len, of g] by blast
  have "holds_rows nb n (\<lambda>r. ws r @ replicate z False) new'"
    unfolding holds_rows_def
  proof (intro conjI allI impI)
    show "n * nb \<le> length new'" using l(2) len by (simp add: same_but_def)
    fix r k assume r: "r < n" "k < nb"
    have nw: "new ! (r * nb + k) = row_byte (ws r) k" using new(1) r by (simp add: holds_rows_def)
    have "new' ! (r * nb + k) = (if k = ?q then g (row_byte (ws r) k) else row_byte (ws r) k)"
      using same_but_nth [OF l(2) r row_bound [OF r len]] unfolding nw .
    then show "new' ! (r * nb + k) = row_byte (ws r @ replicate z False) k"
      using g [OF r(1)] new(2) r(1) by (simp add: row_byte_zeros)
  qed
  then show ?thesis using l by (simp add: same_but_def)
qed

lemma u8_row_byte:
  assumes "length ws = L" "s \<le> 7 - L mod 8"
  shows "u8 (shl (row_byte ws (L div 8)) s) = row_byte ws (L div 8) * 2 ^ s"
proof -
  let ?v = "row_byte ws (L div 8)"
  have nn: "0 \<le> ?v" by (rule row_byte_small(2))
  have "?v * 2 ^ s \<le> ?v * 2 ^ (7 - L mod 8)" using nn assms(2) by (intro mult_left_mono power_increasing) simp_all
  then have "?v * 2 ^ s < 256" using row_byte_small(1) [of ws] assms(1) by simp
  then show ?thesis using nn by (simp add: shl_def u8_id)
qed

section \<open>The columns of the new mask\<close>

fun spread :: "bool list \<Rightarrow> nat list \<Rightarrow> (nat \<Rightarrow> bool) \<Rightarrow> nat \<Rightarrow> bool list" where
  "spread ws [] f j = ws"
| "spread ws (c # cs) f j = spread (ws @ replicate (c - length ws) False @ [f j]) cs f (Suc j)"

lemma spread_nth:
  assumes "sorted_wrt (<) cs" "\<forall>c\<in>set cs. length ws \<le> c"
  shows "length (spread ws cs f j) = (if cs = [] then length ws else last cs + 1)"
    "d < length (spread ws cs f j) \<Longrightarrow>
       spread ws cs f j ! d \<longleftrightarrow> d < length ws \<and> ws ! d \<or> (\<exists>i<length cs. cs ! i = d \<and> f (j + i))"
proof -
  have "length (spread ws cs f j) = (if cs = [] then length ws else last cs + 1)
     \<and> (\<forall>d < length (spread ws cs f j). spread ws cs f j ! d \<longleftrightarrow>
          d < length ws \<and> ws ! d \<or> (\<exists>i<length cs. cs ! i = d \<and> f (j + i)))"
    using assms
  proof (induction cs arbitrary: ws j)
    case (Cons c cs)
    let ?ws = "ws @ replicate (c - length ws) False @ [f j]"
    have len: "length ?ws = Suc c" using Cons.prems(2) by simp
    have ge: "\<forall>d\<in>set cs. length ?ws \<le> d" using Cons.prems(1) len by auto
    note IH = Cons.IH [of ?ws "Suc j"]
    have ws: "?ws ! d \<longleftrightarrow> d < length ws \<and> ws ! d \<or> d = c \<and> f j" if "d < Suc c" for d
      using that Cons.prems(2) by (auto simp: nth_append less_Suc_eq)
    have "(\<exists>i<length (c # cs). (c # cs) ! i = d \<and> f (j + i)) \<longleftrightarrow> c = d \<and> f j \<or> (\<exists>i<length cs. cs ! i = d \<and> f (Suc j + i))" for d
      by (auto simp: less_Suc_eq_0_disj)
    moreover have "length (spread ?ws cs f (Suc j)) = last (c # cs) + 1" using IH Cons.prems(1) ge len by simp
    ultimately show ?case using IH Cons.prems(1) ge len ws by (auto simp: less_Suc_eq_le)
  qed simp
  then show "length (spread ws cs f j) = (if cs = [] then length ws else last cs + 1)"
    "d < length (spread ws cs f j) \<Longrightarrow>
       spread ws cs f j ! d \<longleftrightarrow> d < length ws \<and> ws ! d \<or> (\<exists>i<length cs. cs ! i = d \<and> f (j + i))" by blast+
qed

lemma u16_pred: "0 < u16 x \<Longrightarrow> u16 (x - 1) = u16 x - 1"
proof -
  assume "0 < u16 x"
  then have "0 \<le> x mod 65536 - 1" "x mod 65536 - 1 < 65536" by (simp_all add: u16_def)
  moreover have "(x - 1) mod 65536 = (x mod 65536 - 1) mod 65536" by (simp add: mod_diff_left_eq)
  ultimately show ?thesis by (simp add: u16_def)
qed

lemma columns_head: "columns c (p # ps) = c # tl (columns c (p # ps))"
  by (cases ps) simp_all

lemma insert_columns_ok:
  assumes "sorted_wrt (<) (columns c (p # ps))" "last (columns c (p # ps)) < 8 * nb" "8 * nb \<le> 48" "j + length ps \<le> 8 * ob"
    and "holds_rows nb n ws new" "\<forall>r<n. length (ws r) = Suc c" "shifted_rows ob n orig j old"
  shows "\<exists>new'. insert_columns nb ob n (pkt_seq p) (Suc c) j (map pkt_seq ps) (new, old) = Some (last (columns c (p # ps)) + 1, new')
     \<and> length new' = length new \<and> holds_rows nb n (\<lambda>r. spread (ws r) (tl (columns c (p # ps))) (row_bit orig (r * ob)) j) new'"
  using assms
proof (induction ps arbitrary: p c j ws new old)
  case Nil
  then show ?case by simp
next
  case (Cons q ps)
  let ?d = "nat (u16 (pkt_seq q - pkt_seq p))" and ?L = "Suc c"
  let ?c = "c + ?d" and ?z = "nat (u16 (pkt_seq q - pkt_seq p - 1))"
  have cols: "columns c (p # q # ps) = c # columns ?c (q # ps)" by simp
  obtain ds where ds: "columns ?c (q # ps) = ?c # ds" using columns_head by blast
  have sorted: "sorted_wrt (<) (columns ?c (q # ps))" "c < ?c"
    using Cons.prems(1) unfolding cols ds by simp_all
  then have "0 < u16 (pkt_seq q - pkt_seq p)" by simp
  then have z: "?L + ?z = ?c" "int ?z = u16 (pkt_seq q - pkt_seq p) - 1" using u16_pred by auto
  have lst: "last (columns c (p # q # ps)) = last (columns ?c (q # ps))"
    unfolding cols ds by simp
  have "?c \<le> last (columns ?c (q # ps))" by (rule columns_ge, rule last_in_set) (simp add: ds)
  then have cn: "?c < 8 * nb" using Cons.prems(2) lst by simp
  define g where "g b = u8 (shl b (min ?z (7 - ?L mod 8)))" for b
  have "g (row_byte (ws r) (?L div 8)) = row_byte (ws r) (?L div 8) * 2 ^ min ?z (7 - ?L mod 8)" if "r < n" for r
    unfolding g_def using Cons.prems(6) that by (intro u8_row_byte) simp_all
  moreover have "?L < 8 * nb" using cn sorted(2) by linarith
  ultimately obtain new1 where new1: "InsertZeroColumns ?z nb n ?L new = Some new1" "length new1 = length new"
      "holds_rows nb n (\<lambda>r. ws r @ replicate ?z False) new1"
    using zeros_step [OF Cons.prems(5,6), of g ?z] unfolding InsertZeroColumns_def g_def Let_def by blast
  have new1': "\<exists>new1. (if ?z > 0 then InsertZeroColumns ?z nb n ?L new else Some new) = Some new1 \<and> length new1 = length new
      \<and> holds_rows nb n (\<lambda>r. ws r @ replicate ?z False) new1"
    using new1 Cons.prems(5) by (cases "?z > 0") auto
  then obtain new2 where new2: "(if ?z > 0 then InsertZeroColumns ?z nb n ?L new else Some new) = Some new2" "length new2 = length new"
      "holds_rows nb n (\<lambda>r. ws r @ replicate ?z False) new2" by blast
  have "\<forall>r<n. length (ws r @ replicate ?z False) = ?c" using Cons.prems(6) z(1) by simp
  moreover have "j < 8 * ob" using Cons.prems(4) by simp
  ultimately obtain new3 old3 where new3: "CopyColumn nb ob n ?c j (new2, old) = Some (new3, old3)" "length new3 = length new2"
      "holds_rows nb n (\<lambda>r. (ws r @ replicate ?z False) @ [row_bit orig (r * ob) j]) new3" "shifted_rows ob n orig (Suc j) old3"
    using CopyColumn_step [OF new2(3) _ cn Cons.prems(7)] by blast
  have len: "\<forall>r<n. length ((ws r @ replicate ?z False) @ [row_bit orig (r * ob) j]) = Suc ?c" using Cons.prems(6) z(1) by simp
  obtain new' where rec: "insert_columns nb ob n (pkt_seq q) (Suc ?c) (Suc j) (map pkt_seq ps) (new3, old3)
        = Some (last (columns ?c (q # ps)) + 1, new')" "length new' = length new3"
      "holds_rows nb n (\<lambda>r. spread ((ws r @ replicate ?z False) @ [row_bit orig (r * ob) j]) (tl (columns ?c (q # ps))) (row_bit orig (r * ob)) (Suc j)) new'"
    using Cons.IH [OF sorted(1) _ Cons.prems(3) _ new3(3) len new3(4)] Cons.prems(2,4) lst by auto
  have n48: "?L \<noteq> 8 * kMaskSizeLBitSet" using cn Cons.prems(3) sorted(2) by (simp add: fec_constants)
  have "insert_columns nb ob n (pkt_seq p) ?L j (map pkt_seq (q # ps)) (new, old) = Some (last (columns c (p # q # ps)) + 1, new')"
  proof -
    have e: "?c + 1 = Suc ?c" "j + 1 = Suc j" by simp_all
    show ?thesis
      unfolding lst list.map insert_columns.simps Let_def
      by (simp only: n48 if_False fst_conv snd_conv new2(1) Option.bind.bind_lunit z(1) new3(1) e rec(1))
  qed
  moreover have "holds_rows nb n (\<lambda>r. spread (ws r) (tl (columns c (p # q # ps))) (row_bit orig (r * ob)) j) new'"
  proof -
    have sp: "spread (ws r) (columns ?c (q # ps)) f j
        = spread ((ws r @ replicate ?z False) @ [f j]) (tl (columns ?c (q # ps))) f (Suc j)" if "r < n" for r f
    proof -
      have "?c - length (ws r) = ?z" using Cons.prems(6) that z(1) by simp
      then show ?thesis by (simp add: ds)
    qed
    have "tl (columns c (p # q # ps)) = columns ?c (q # ps)" by simp
    then show ?thesis using rec(3) unfolding holds_rows_def by (simp only: sp simp_thms cong: imp_cong)
  qed
  moreover have "length new' = length new" using rec(2) new3(2) new2(2) by (simp only:)
  ultimately show ?case by (intro exI [of _ new'] conjI)
qed

section \<open>The whole function\<close>

lemma covered_columns:
  "last (columns c (p # ps)) < c + 65536 \<Longrightarrow> u16 (pkt_seq (last (p # ps)) - pkt_seq p) = int (last (columns c (p # ps)) - c)"
proof (induction ps arbitrary: c p)
  case (Cons q ps)
  let ?u = "u16 (pkt_seq q - pkt_seq p)" and ?e = "pkt_seq (last (q # ps))"
  let ?c = "c + nat ?u"
  obtain ds where ds: "columns ?c (q # ps) = ?c # ds" using columns_head by blast
  have lst: "last (columns c (p # q # ps)) = last (columns ?c (q # ps))" using ds by simp
  have ge: "?c \<le> last (columns ?c (q # ps))" by (rule columns_ge, rule last_in_set) (simp add: ds)
  have u: "0 \<le> ?u" using is_u16_u16 [of "pkt_seq q - pkt_seq p"] by (simp add: is_u16_def)
  have "u16 (?e - pkt_seq q) = int (last (columns ?c (q # ps)) - ?c)" using Cons.IH [where p = q and c = ?c] Cons.prems lst by simp
  moreover have "u16 (?e - pkt_seq p) = (u16 (?e - pkt_seq q) + ?u) mod 65536"
    by (simp add: u16_def mod_add_eq)
  ultimately have "u16 (?e - pkt_seq p) = int (last (columns ?c (q # ps)) - c) mod 65536"
    using ge u by (simp add: of_nat_diff)
  also have "\<dots> = int (last (columns ?c (q # ps)) - c)" using Cons.prems lst by simp
  finally show ?case using lst by simp
qed (simp add: u16_def)

lemma sorted_gap:
  "sorted_wrt (<) cs \<Longrightarrow> i \<le> k \<Longrightarrow> k < length cs \<Longrightarrow> cs ! i + (k - i) \<le> (cs ! k :: nat)"
proof (induction k)
  case (Suc k)
  show ?case
  proof (cases "i = Suc k")
    case False
    then have "cs ! i + (k - i) \<le> cs ! k" using Suc by simp
    moreover have "cs ! k < cs ! Suc k" using Suc.prems by (simp add: sorted_wrt_nth_less)
    ultimately show ?thesis using False Suc.prems(2) by linarith
  qed simp
qed simp

lemma no_gaps:
  assumes "sorted_wrt (<) cs" "cs \<noteq> []" "cs ! 0 = 0" "last cs = length cs - 1" "i < length cs"
  shows "cs ! i = i"
proof -
  have "cs ! 0 + i \<le> cs ! i" using sorted_gap [OF assms(1), of 0 i] assms(5) by simp
  moreover have "cs ! i + (length cs - 1 - i) \<le> cs ! (length cs - 1)"
    using sorted_gap [OF assms(1), of i "length cs - 1"] assms(5) by simp
  ultimately show ?thesis using assms(2-5) by (simp add: last_conv_nth)
qed

lemma row_byte_bit:
  assumes "length W = 8 * nb" "c < 8 * nb"
  shows "bit (row_byte W (c div 8)) (7 - c mod 8) = W ! c"
proof -
  have d: "8 * (c div 8) + c mod 8 = c" "c mod 8 < 8" by simp_all
  have "c div 8 < nb" using assms(2) by (simp add: less_mult_imp_div_less mult.commute)
  then have k: "8 * (c div 8) + 8 \<le> length W" using assms(1) by linarith
  define S where "S = take 8 (drop (8 * (c div 8)) W)"
  have len: "length S = 8" using k by (simp add: S_def)
  have "row_byte W (c div 8) = bits_val S" using k by (simp add: row_byte_def Let_def S_def)
  moreover have "bit (bits_val S) (7 - c mod 8) = S ! (8 - 1 - (7 - c mod 8))" unfolding bit_bits_val len
    using le_imp_less_Suc [OF diff_le_self [of 7 "c mod 8"]] by simp
  moreover have "8 - 1 - (7 - c mod 8) = c mod 8" using d(2) by linarith
  moreover have "S ! (c mod 8) = W ! c" using d k by (simp add: S_def)
  ultimately show ?thesis by metis
qed

lemma ex_Cons_nth:
  "(\<exists>i<length (x # xs). (x # xs) ! i = d \<and> P i) \<longleftrightarrow> x = d \<and> P 0 \<or> (\<exists>i<length xs. xs ! i = d \<and> P (Suc i))"
  by (auto simp: less_Suc_eq_0_disj)

lemma zeros_general:
  assumes media: "media = p # ps" "ps \<noteq> []" and cols: "cs = columns 0 media" "sorted_wrt (<) cs" "last cs < 48"
    and mask: "nb0 = num_mask_bytes (length media > 16)" "6 * n \<le> length packet_mask" "bytes packet_mask"
    and nb: "nb = num_mask_bytes (last cs + 1 > 16)" and gaps: "int (last cs) - int (length media) + 1 \<noteq> 0"
  shows "\<exists>mask'. InsertZerosInBitMasks media packet_mask nb0 n = Some (int (last cs) + 1, mask') \<and> length mask' = length packet_mask
     \<and> (\<forall>r<n. \<forall>c<8 * nb. row_bit mask' (r * nb) c \<longleftrightarrow> (\<exists>i<length media. cs ! i = c \<and> row_bit packet_mask (r * nb0) i))"
proof -
  let ?L = "last cs + 1" and ?f = "\<lambda>r. row_bit packet_mask (r * nb0)"
  obtain ds where ds: "cs = 0 # ds" using columns_head [of 0 p ps] by (simp add: cols(1) media(1))
  have lc: "length cs = length media" by (simp add: cols(1))
  have nbL: "?L \<le> 8 * nb" "8 * nb \<le> 48" "nb \<le> 6" using cols(3) by (simp_all add: nb num_mask_bytes_def fec_constants)
  have ne: "cs \<noteq> []" using ds by simp
  note lastn = last_conv_nth [OF ne]
  have "0 < length cs" "cs ! 0 = 0" using ds by simp_all
  then have "length cs \<le> ?L" using sorted_gap [OF cols(2), of 0 "length cs - 1"] lastn by linarith
  then have size: "length media \<le> 8 * nb0" using cols(3) lc by (simp add: mask(1) num_mask_bytes_def fec_constants)
  have nb0: "nb0 \<le> 6" by (simp add: mask(1) num_mask_bytes_def fec_constants)
  let ?new = "replicate (n * kMaskSizeLBitSet) 0 :: int list"
  have h0: "holds_rows nb n (\<lambda>_. []) ?new"
    using nbL(3) row_bound [of _ n _ nb "n * 6"] by (simp add: holds_rows_def row_byte_def fec_constants)
  have "n * nb0 \<le> n * 6" using nb0 by (rule mult_le_mono2)
  then have mask_len: "n * nb0 \<le> length packet_mask" using mask(2) by linarith
  have s0: "shifted_rows nb0 n packet_mask 0 packet_mask"
    using mask_len bytes_nth [OF mask(3)] row_bound [of _ n _ nb0 "length packet_mask"]
    by (auto simp: shifted_rows_def shl_def intro!: u8_id [symmetric])
  have b0: "0 < 8 * nb" "0 < 8 * nb0" by (simp_all add: nb mask(1) num_mask_bytes_def fec_constants)
  have e0: "\<forall>r<n. length ([] :: bool list) = 0" by simp
  obtain new1 old1 where c1: "CopyColumn nb nb0 n 0 0 (?new, packet_mask) = Some (new1, old1)" "length new1 = length ?new"
      "holds_rows nb n (\<lambda>r. [] @ [?f r 0]) new1" "shifted_rows nb0 n packet_mask (Suc 0) old1"
    using CopyColumn_step [OF h0 e0 b0(1) s0 b0(2)] by blast
  have ins: "\<exists>new2. insert_columns nb nb0 n (pkt_seq p) (Suc 0) (Suc 0) (map pkt_seq ps) (new1, old1) = Some (last (columns 0 (p # ps)) + 1, new2)
     \<and> length new2 = length new1 \<and> holds_rows nb n (\<lambda>r. spread ([] @ [?f r 0]) (tl (columns 0 (p # ps))) (?f r) (Suc 0)) new2"
    using cols nbL size media(1) c1(3,4) by (intro insert_columns_ok) simp_all
  then obtain new2 where c2: "insert_columns nb nb0 n (pkt_seq p) (Suc 0) (Suc 0) (map pkt_seq ps) (new1, old1) = Some (?L, new2)"
      "length new2 = length ?new" "holds_rows nb n (\<lambda>r. spread [?f r 0] ds (?f r) (Suc 0)) new2"
    using c1(2) ds by (auto simp: cols(1) media(1))
  let ?ws = "\<lambda>r. spread [?f r 0] ds (?f r) (Suc 0)" and ?z = "8 * nb - ?L"
  have srt: "sorted_wrt (<) ds" "\<forall>c\<in>set ds. length [b] \<le> c" for b :: bool using cols(2) ds by auto
  have dne: "ds \<noteq> []" using lc ds media by (cases ds) simp_all
  have lw: "length (?ws r) = ?L" for r using spread_nth(1) [OF srt] dne ds by simp
  define g where "g b = u8 (shl b (7 - ?L mod 8))" for b
  have fin: "\<exists>new3. (if ?L mod 8 \<noteq> 0 then foldl (\<lambda>acc row. do { new \<leftarrow> acc; b \<leftarrow> at_opt new (row * nb + ?L div 8);
        Some (new[row * nb + ?L div 8 := u8 (shl b (7 - ?L mod 8))]) }) (Some new2) [0..<n] else Some new2) = Some new3
      \<and> length new3 = length new2 \<and> holds_rows nb n (\<lambda>r. ?ws r @ replicate ?z False) new3"
  proof (cases "?L mod 8 = 0")
    case True
    have "row_byte (?ws r) (?L div 8) = 0" for r
      using row_byte_last [of "?ws r"] lw [of r] True by (simp add: mod_0_imp_dvd del: spread.simps)
    then have "row_byte (?ws r @ replicate ?z False) k = row_byte (?ws r) k" for r k
      unfolding row_byte_zeros lw by simp
    then show ?thesis using c2(3) True by (simp add: holds_rows_def)
  next
    case False
    then have lt: "?L < 8 * nb" using nbL(1) by (cases "?L = 8 * nb") simp_all
    have "8 * (?L div 8) + ?L mod 8 = ?L" by simp
    moreover have "8 * (?L div 8) + 8 \<le> 8 * nb" using less_mult_imp_div_less [of ?L nb 8] lt by (simp add: mult.commute)
    ultimately have "7 - ?L mod 8 \<le> ?z" by linarith
    then have "min ?z (7 - ?L mod 8) = 7 - ?L mod 8" by simp
    then have "g (row_byte (?ws r) (?L div 8)) = row_byte (?ws r) (?L div 8) * 2 ^ min ?z (7 - ?L mod 8)" if "r < n" for r
      unfolding g_def by (simp only: u8_row_byte [OF lw order_refl])
    then show ?thesis using zeros_step [OF c2(3) _ lt, of g ?z] lw False unfolding g_def by simp
  qed
  then obtain new3 where c3: "(if ?L mod 8 \<noteq> 0 then foldl (\<lambda>acc row. do { new \<leftarrow> acc; b \<leftarrow> at_opt new (row * nb + ?L div 8);
        Some (new[row * nb + ?L div 8 := u8 (shl b (7 - ?L mod 8))]) }) (Some new2) [0..<n] else Some new2) = Some new3"
      "length new3 = 6 * n" "holds_rows nb n (\<lambda>r. ?ws r @ replicate ?z False) new3"
    using c2(2) by (auto simp: fec_constants mult.commute)
  have cov: "u16 (pkt_seq (last media) - pkt_seq p) = int (last cs)"
    using covered_columns [of 0 p ps] cols(3) by (simp add: cols(1) media(1))
  have eqs: "hd (map pkt_seq media) = pkt_seq p" "tl (map pkt_seq media) = map pkt_seq ps" "last (map pkt_seq media) = pkt_seq (last media)"
    by (simp_all add: media(1) last_map)
  have nb_eq: "num_mask_bytes (int (length media) + (int (last cs) - int (length media) + 1) > 16) = nb"
    unfolding nb by (rule arg_cong [of _ _ num_mask_bytes]) linarith
  have "\<not> length media \<le> 1" using media by (cases ps) simp_all
  moreover define out where "out = new3 @ drop (6 * n) packet_mask"
  moreover have "memcpy packet_mask 0 new3 0 (kMaskSizeLBitSet * n) = Some out" using c3(2) mask(2) by (simp add: memcpy_def fec_constants out_def)
  ultimately have "InsertZerosInBitMasks media packet_mask nb0 n = Some (int ?L, out)"
    using gaps c1(1) c2(1) c3(1)
    unfolding InsertZerosInBitMasks_def Let_def pkt_seq_def [symmetric] eqs cov nb_eq
    by (simp only: if_False Option.bind.bind_lunit split_conv One_nat_def)
  moreover have "row_bit out (r * nb) c \<longleftrightarrow> (\<exists>i<length media. cs ! i = c \<and> ?f r i)" if r: "r < n" "c < 8 * nb" for r c
  proof -
    have "c div 8 < nb" using r(2) by (simp add: less_mult_imp_div_less mult.commute)
    then have "r * nb + c div 8 < 6 * n" using row_bound [of r n "c div 8" nb "n * nb"] nbL(3) r(1) mult_le_mono2 [of nb 6 n] by linarith
    then have "out ! (r * nb + c div 8) = new3 ! (r * nb + c div 8)" using c3(2) by (simp add: out_def nth_append)
    then have "row_bit out (r * nb) c = bit (row_byte (?ws r @ replicate ?z False) (c div 8)) (7 - c mod 8)"
      using c3(3) r(1) \<open>c div 8 < nb\<close> by (simp add: row_bit_def holds_rows_def)
    also have "\<dots> = (?ws r @ replicate ?z False) ! c"
      using lw nbL(1) r(2) by (intro row_byte_bit) simp_all
    also have "\<dots> \<longleftrightarrow> c < ?L \<and> ?ws r ! c" using lw [of r] r(2) nbL(1) by (simp add: nth_append)
    also have "\<dots> \<longleftrightarrow> (\<exists>i<length media. cs ! i = c \<and> ?f r i)"
    proof (cases "c < ?L")
      case True
      have "?ws r ! c \<longleftrightarrow> c < length [?f r 0] \<and> [?f r 0] ! c \<or> (\<exists>i<length ds. ds ! i = c \<and> ?f r (Suc 0 + i))"
        by (rule spread_nth(2) [OF srt]) (simp only: lw True)
      moreover have "c < length [?f r 0] \<and> [?f r 0] ! c \<longleftrightarrow> 0 = c \<and> ?f r 0" by (cases c) simp_all
      moreover have "(\<exists>i<length media. cs ! i = c \<and> ?f r i)
          \<longleftrightarrow> 0 = c \<and> ?f r 0 \<or> (\<exists>i<length ds. ds ! i = c \<and> ?f r (Suc 0 + i))"
        unfolding lc [symmetric] ds ex_Cons_nth by simp
      ultimately show ?thesis using True by blast
    next
      case False
      have "cs ! i \<le> last cs" if "i < length cs" for i
        using sorted_gap [OF cols(2), of i "length cs - 1"] that lastn by linarith
      then show ?thesis using False lc by (metis Suc_eq_plus1 le_imp_less_Suc)
    qed
    finally show ?thesis .
  qed
  moreover have "length out = length packet_mask" using c3(2) mask(2) by (simp add: out_def)
  ultimately show ?thesis by (intro exI [of _ out] conjI allI impI) simp_all
qed

text \<open>
  C8. Where no two media packets lie so far apart that the mask overflows, moving the columns apart keeps what the
  FEC packets protect: in the new mask bit \<open>c\<close> of a row is set if and only if \<open>c\<close> is the distance in sequence
  numbers of some media packet from the first one and the bit of this packet was set in the row of the old mask. The
  returned number of bits is the distance of the last packet plus one, and the rows have the width this number asks for.
\<close>

theorem InsertZerosInBitMasks_correct:
  assumes "media \<noteq> []" "cs = columns 0 media" "sorted_wrt (<) cs" "last cs < 48"
    and "nb0 = num_mask_bytes (length media > 16)" "6 * n \<le> length packet_mask" "bytes packet_mask"
    and "\<forall>r<n. \<forall>c<8 * nb0. length media \<le> c \<longrightarrow> \<not> row_bit packet_mask (r * nb0) c"
    and "nb = num_mask_bytes (last cs + 1 > 16)"
  shows "\<exists>mask'. InsertZerosInBitMasks media packet_mask nb0 n = Some (int (last cs) + 1, mask') \<and> length mask' = length packet_mask
     \<and> (\<forall>r<n. \<forall>c<8 * nb. row_bit mask' (r * nb) c \<longleftrightarrow> (\<exists>i<length media. cs ! i = c \<and> row_bit packet_mask (r * nb0) i))"
proof (cases "last cs + 1 = length media")
  case False
  obtain p ps where "media = p # ps" using assms(1) by (cases media) simp_all
  moreover have "ps \<noteq> []" using calculation False assms(2) by auto
  moreover have "int (last cs) - int (length media) + 1 \<noteq> 0" using False by linarith
  ultimately show ?thesis using assms by (intro zeros_general) simp_all
next
  case True
  obtain p ps where m: "media = p # ps" using assms(1) by (cases media) simp_all
  obtain ds where ds: "cs = 0 # ds" using columns_head [of 0 p ps] by (simp add: assms(2) m)
  have lc: "length cs = length media" by (simp add: assms(2))
  have "cs \<noteq> []" "cs ! 0 = 0" by (simp_all add: ds)
  moreover have "last cs = length cs - 1" using True lc by linarith
  ultimately have ci: "cs ! i = i" if "i < length media" for i using no_gaps [OF assms(3)] that lc by metis
  have cov: "u16 (pkt_seq (last media) - pkt_seq p) = int (last cs)"
    using covered_columns [of 0 p ps] assms(2,4) by (simp add: m)
  have eqs: "hd (map pkt_seq media) = pkt_seq p" "last (map pkt_seq media) = pkt_seq (last media)"
    by (simp_all add: m last_map)
  have "int (last cs) - int (length media) + 1 = 0" "int (length media) = int (last cs) + 1" using True by linarith+
  then have "InsertZerosInBitMasks media packet_mask nb0 n = Some (int (last cs) + 1, packet_mask)"
    unfolding InsertZerosInBitMasks_def Let_def pkt_seq_def [symmetric] eqs cov by simp
  moreover have "nb = nb0" using True assms(5,9) by simp
  moreover have "row_bit packet_mask (r * nb0) c \<longleftrightarrow> (\<exists>i<length media. cs ! i = c \<and> row_bit packet_mask (r * nb0) i)"
    if "r < n" "c < 8 * nb0" for r c
  proof (cases "c < length media")
    case True
    then show ?thesis using ci by metis
  next
    case False
    then have "\<not> row_bit packet_mask (r * nb0) c" using assms(8) that by simp
    then show ?thesis using False ci by metis
  qed
  ultimately show ?thesis by (intro exI [of _ packet_mask] conjI allI impI) simp_all
qed

lemma InsertZerosInBitMasks_correct_witness:
  "\<exists>mask'. InsertZerosInBitMasks
     [\<lparr>pkt_length = 12, pkt_data = 0x80 # 0 # 0 # 5 # replicate 1496 0\<rparr>, \<lparr>pkt_length = 12, pkt_data = 0x80 # 0 # 0 # 8 # replicate 1496 0\<rparr>]
     [0xc0, 0, 0, 0, 0, 0] 2 1 = Some (4, mask') \<and> length mask' = 6
     \<and> row_bit mask' 0 0 \<and> row_bit mask' 0 3 \<and> \<not> row_bit mask' 0 1"
proof -
  let ?p = "\<lambda>k. \<lparr>pkt_length = 12, pkt_data = 0x80 # 0 # 0 # k # replicate 1496 0\<rparr>"
  have cs: "[0, 3] = columns 0 [?p 5, ?p 8]" by (simp add: pkt_seq_def ParseSequenceNumber_def shl_def u16_def)
  have "\<forall>c\<in>set [0..<16]. row_bit [0xc0, 0, 0, 0, 0, 0] 0 c \<longleftrightarrow> c < 2" by code_simp
  then have b: "row_bit [0xc0, 0, 0, 0, 0, 0] 0 i \<longleftrightarrow> i < 2" if "i < 16" for i using that by simp
  have "\<exists>mask'. InsertZerosInBitMasks [?p 5, ?p 8] [0xc0, 0, 0, 0, 0, 0] 2 1 = Some (int (last [0, 3 :: nat]) + 1, mask')
     \<and> length mask' = length [0xc0, 0, 0, 0, 0, 0 :: int] \<and> (\<forall>r<1. \<forall>c<8 * 2. row_bit mask' (r * 2) c
        \<longleftrightarrow> (\<exists>i<length [?p 5, ?p 8]. [0, 3] ! i = c \<and> row_bit [0xc0, 0, 0, 0, 0, 0] (r * 2) i))"
    by (rule InsertZerosInBitMasks_correct [OF _ cs]) (simp_all add: num_mask_bytes_def fec_constants bytes_def is_u8_def b)
  then obtain mask' where m: "InsertZerosInBitMasks [?p 5, ?p 8] [0xc0, 0, 0, 0, 0, 0] 2 1 = Some (int (last [0, 3 :: nat]) + 1, mask')"
      "length mask' = length [0xc0, 0, 0, 0, 0, 0 :: int]" "\<forall>r<1. \<forall>c<8 * 2. row_bit mask' (r * 2) c
        \<longleftrightarrow> (\<exists>i<length [?p 5, ?p 8]. [0, 3] ! i = c \<and> row_bit [0xc0, 0, 0, 0, 0, 0] (r * 2) i)"
    by (elim exE conjE) blast
  have "row_bit mask' 0 c \<longleftrightarrow> c = 0 \<or> c = 3" if "c < 16" for c
    using m(3) that b [of 0] b [of 1] by (auto simp: less_Suc_eq)
  then have "row_bit mask' 0 0" "row_bit mask' 0 3" "\<not> row_bit mask' 0 1" by simp_all
  then show ?thesis using m(1,2) by (intro exI [of _ mask'] conjI) simp_all
qed

end
